(* ===== verification/Prelude.thy ===== *)
theory Prelude
  imports Complex_Main "HOL-Library.Word"
begin

text \<open>
  What every component of the development shares: the representation of the JavaScript
  values the program works on (byte arrays, strings of UTF-16 code units) with the
  operations of the language the source calls on them, the \<open>error + value\<close>
  results that stand for exceptions, and the generic lemmas on lists, options and sums
  that carry the component proofs.
\<close>

named_theorems js_eval \<open>equations that evaluate closed JavaScript strings\<close>

section \<open>Results\<close>

lemma map_Inr_inject [simp]: "map Inr xs = map Inr ys \<longleftrightarrow> xs = ys"
  by (simp add: inj_map_eq_map)

text \<open>A computation that may throw and may not return: \<open>None\<close> is a loop that does not end.\<close>

definition run_next :: "('e + 'a) option \<Rightarrow> ('a \<Rightarrow> ('e + 'b) option) \<Rightarrow> ('e + 'b) option" where
  "run_next m f = (case m of None \<Rightarrow> None | Some (Inl e) \<Rightarrow> Some (Inl e) | Some (Inr x) \<Rightarrow> f x)"

definition throw :: "'e \<Rightarrow> ('e + 'a) option" where
  "throw e = Some (Inl e)"

definition return :: "'a \<Rightarrow> ('e + 'a) option" where
  "return x = Some (Inr x)"

lemma run_next_return [simp]: "run_next (return x) f = f x"
  by (simp add: run_next_def return_def)

lemma run_next_throw [simp]: "run_next (throw e) f = throw e"
  by (simp add: run_next_def throw_def)

lemma return_inject [simp]: "return x = return y \<longleftrightarrow> x = y" "return x \<noteq> throw e" "throw e \<noteq> return x"
  "return x \<noteq> None" "throw e \<noteq> None" "throw e = throw e' \<longleftrightarrow> e = e'"
  by (simp_all add: return_def throw_def)

lemma outcome_cases [case_names stuck throw return]:
  obtains "m = None" | e where "m = throw e" | x where "m = return x"
  by (cases m; (case_tac "the m")?) (auto simp: return_def throw_def intro: sum.exhaust)

lemma run_next_return_iff: "run_next m f = return y \<longleftrightarrow> (\<exists>x. m = return x \<and> f x = return y)"
  by (cases m rule: outcome_cases) (auto simp: run_next_def return_def throw_def)

lemma run_next_defined: "m \<noteq> None \<Longrightarrow> (\<And>x. m = return x \<Longrightarrow> f x \<noteq> None) \<Longrightarrow> run_next m f \<noteq> None"
  by (cases m rule: outcome_cases) (auto simp: run_next_def return_def throw_def)

lemma run_next_cong [fundef_cong]:
  "m = m' \<Longrightarrow> (\<And>x. m' = return x \<Longrightarrow> f x = g x) \<Longrightarrow> run_next m f = run_next m' g"
  by (cases m' rule: outcome_cases) (auto simp: run_next_def return_def throw_def)

section \<open>Byte arrays\<close>

type_synonym byte = "8 word"

text \<open>\<open>Uint8Array.prototype.subarray(a, b)\<close> and \<open>target.set(source, offset)\<close>; the code
  calls both only in range, which the invariants of the components show.\<close>

definition subarray :: "'a list \<Rightarrow> nat \<Rightarrow> nat \<Rightarrow> 'a list" where
  "subarray xs a b = take (b - a) (drop a xs)"

definition array_set :: "'a list \<Rightarrow> 'a list \<Rightarrow> nat \<Rightarrow> 'a list" where
  "array_set dst src off = take off dst @ src @ drop (off + length src) dst"

definition zeros :: "nat \<Rightarrow> byte list" where
  "zeros n = replicate n 0"

lemma length_subarray [simp]: "length (subarray xs a b) = min (b - a) (length xs - a)"
  by (simp add: subarray_def)

lemma length_zeros [simp]: "length (zeros n) = n"
  by (simp add: zeros_def)

lemma length_array_set [simp]:
  "off + length src \<le> length dst \<Longrightarrow> length (array_set dst src off) = length dst"
  by (simp add: array_set_def)

lemma take_array_set:
  "off + length src \<le> length dst \<Longrightarrow>
   take (off + length src) (array_set dst src off) = take off dst @ src"
  by (simp add: array_set_def)

text \<open>Big-endian unsigned numbers of four bytes, as the framing and the CBOR reader
  compute them, and the bytes a \<open>Uint8Array\<close> stores for \<open>n >>> k\<close> (reduced modulo 256).\<close>

definition be32 :: "byte list \<Rightarrow> nat" where
  "be32 h = unat (h ! 0) * 0x1000000 + unat (h ! 1) * 0x10000 + unat (h ! 2) * 0x100 + unat (h ! 3)"

definition put32 :: "nat \<Rightarrow> byte list" where
  "put32 n = [word_of_nat (n div 2 ^ 24), word_of_nat (n div 2 ^ 16),
              word_of_nat (n div 2 ^ 8), word_of_nat n]"

lemma length_put32 [simp]: "length (put32 n) = 4"
  by (simp add: put32_def)

lemma unat_byte_of_nat [simp]: "unat (word_of_nat n :: byte) = n mod 256"
  by (simp add: unat_of_nat)

lemma byte_lt: "unat (b :: byte) < 256"
  using unsigned_less [of b] by simp

lemma be32_put32: "n < 2 ^ 32 \<Longrightarrow> be32 (put32 n @ rest) = n"
proof -
  assume n: "n < 2 ^ 32"
  let ?a = "n div 256" let ?b = "n div 256 div 256" let ?c = "n div 256 div 256 div 256"
  have "?c * 16777216 + ?b mod 256 * 65536 + ?a mod 256 * 256 + n mod 256 = n"
    using div_mult_mod_eq [of n 256] div_mult_mod_eq [of ?a 256] div_mult_mod_eq [of ?b 256]
    by linarith
  moreover have "?c < 256" using n by (simp add: div_mult2_eq [symmetric])
  moreover have "n div 2 ^ 16 = ?b" "n div 2 ^ 24 = ?c"
    by (simp_all add: div_mult2_eq [symmetric])
  ultimately show ?thesis
    by (simp add: be32_def put32_def)
qed

lemma put32_be32:
  assumes "length h = 4"
  shows "put32 (be32 h) = h"
proof -
  obtain a b c d where h: "h = [a, b, c, d]"
    using assms by (auto simp: numeral_eq_Suc length_Suc_conv)
  let ?x = "be32 h"
  let ?q3 = "unat a" let ?q2 = "?q3 * 256 + unat b" let ?q1 = "?q2 * 256 + unat c"
  have quot: "(q * 256 + unat (r :: byte)) div 256 = q" "(q * 256 + unat r) mod 256 = unat r" for q r
    using byte_lt [of r] by simp_all
  have x: "?x = ?q1 * 256 + unat d" by (simp add: h be32_def)
  have div: "?x div 2 ^ 8 = ?q1" "?x div 2 ^ 16 = ?q2" "?x div 2 ^ 24 = ?q3"
    using quot [of ?q1 d] quot [of ?q2 c] quot [of ?q3 b] unfolding x
    by (simp_all add: div_mult2_eq [of _ 256 256, simplified] div_mult2_eq [of _ 65536 256, simplified])
  have w: "word_of_nat (q * 256 + unat r) = (r :: byte)" for q r
    by (rule word_unat_eq_iff [THEN iffD2]) (simp only: unat_byte_of_nat quot)
  have "(word_of_nat (?x div 2 ^ 24) :: byte) = a" using div(3) w [of 0 a] by simp
  moreover have "(word_of_nat (?x div 2 ^ 16) :: byte) = b" by (simp only: div(2) w)
  moreover have "(word_of_nat (?x div 2 ^ 8) :: byte) = c" by (simp only: div(1) w)
  moreover have "(word_of_nat ?x :: byte) = d" by (simp only: x w)
  ultimately show ?thesis
    unfolding put32_def h by (simp only:)
qed

lemma be32_append: "length h = 4 \<Longrightarrow> be32 (h @ rest) = be32 h"
  by (simp add: be32_def nth_append)

lemma be32_prefix: "4 \<le> length h \<Longrightarrow> be32 (h @ rest) = be32 h"
  by (auto simp: be32_def nth_append)

lemma be32_bound: "be32 h < 2 ^ 32"
  using byte_lt [of "h ! 0"] byte_lt [of "h ! 1"] byte_lt [of "h ! 2"] byte_lt [of "h ! 3"]
  by (simp add: be32_def)

lemma set_header4:
  "(a # b # c # d # zs)[0 := w, 1 := x, 2 := y, 3 := z] = w # x # y # z # zs"
  by (simp add: numeral_2_eq_2 numeral_3_eq_3)

lemma be32_take: "be32 (take 4 h) = be32 h"
  by (simp add: be32_def)

section \<open>Strings\<close>

text \<open>A JavaScript string is a list of UTF-16 code units. \<open>js ''...''\<close> is an ASCII literal.\<close>

type_synonym jstr = "nat list"

definition js :: "string \<Rightarrow> jstr" where
  "js s = map of_char s"

declare js_def [js_eval]

lemma js_append: "js (s @ t) = js s @ js t"
  by (simp add: js_def)

lemma length_js [simp]: "length (js s) = length s"
  by (simp add: js_def)

abbreviation LF :: nat where "LF \<equiv> 10"
abbreviation CR :: nat where "CR \<equiv> 13"

text \<open>\<open>s.indexOf(c, from)\<close> for one code unit; \<open>None\<close> is \<open>-1\<close>.\<close>

fun index_from :: "nat \<Rightarrow> jstr \<Rightarrow> nat option" where
  "index_from c [] = None"
| "index_from c (x # xs) = (if x = c then Some 0 else map_option Suc (index_from c xs))"

definition index_of :: "nat \<Rightarrow> jstr \<Rightarrow> nat \<Rightarrow> nat option" where
  "index_of c s from = map_option (\<lambda>i. from + i) (index_from c (drop from s))"

definition slice :: "'a list \<Rightarrow> nat \<Rightarrow> nat \<Rightarrow> 'a list" where
  "slice s a b = take (b - a) (drop a s)"

lemma index_from_None: "index_from c xs = None \<longleftrightarrow> c \<notin> set xs"
  by (induction xs) auto

lemma index_from_Some:
  "index_from c xs = Some i \<Longrightarrow> i < length xs \<and> xs ! i = c \<and> c \<notin> set (take i xs)"
  by (induction xs arbitrary: i) (auto split: if_splits)

lemma index_from_split: "c \<notin> set xs \<Longrightarrow> index_from c (xs @ c # ys) = Some (length xs)"
  by (induction xs) auto

end

