(* ===== verification/Incremental.thy ===== *)
theory Incremental
  imports Prelude
begin

text \<open>
  The contract of every incremental reader of the program: bytes or characters arrive in
  chunks of any size, and what is handed out must depend on the stream only. A provider gives
  its step, its invariant, the input it still holds back, and the split of a whole stream that
  it implements; the clients' lemma is that the chunks do not matter.
\<close>

locale incremental =
  fixes feed :: "'s \<Rightarrow> 'a list \<Rightarrow> ('s \<times> 'b list) option"
    and inv :: "'s \<Rightarrow> bool"
    and held :: "'s \<Rightarrow> 'a list"
    and splits :: "'a list \<Rightarrow> ('b list \<times> 'a list) option"
  assumes feed: "\<lbrakk>inv s; splits (held s @ xs) = Some (ys, r)\<rbrakk> \<Longrightarrow>
      \<exists>s'. feed s xs = Some (s', ys) \<and> inv s' \<and> held s' = r"
    and feed_None: "\<lbrakk>inv s; splits (held s @ xs) = None\<rbrakk> \<Longrightarrow> feed s xs = None"
    and idle: "inv s \<Longrightarrow> splits (held s) = Some ([], held s)"
    and splits_append: "splits (xs @ zs) =
      (case splits xs of None \<Rightarrow> None
       | Some (ys, r) \<Rightarrow> map_option (\<lambda>(ys', r'). (ys @ ys', r')) (splits (r @ zs)))"
begin

fun feed_all :: "'s \<Rightarrow> 'a list list \<Rightarrow> ('s \<times> 'b list) option" where
  "feed_all s [] = Some (s, [])"
| "feed_all s (c # cs) =
     (case feed s c of None \<Rightarrow> None
      | Some (s', ys) \<Rightarrow> map_option (\<lambda>(s'', zs). (s'', ys @ zs)) (feed_all s' cs))"

lemma feed_all_split:
  assumes "inv s" and "splits (held s @ concat cs) = Some (ys, r)"
  shows "\<exists>s'. feed_all s cs = Some (s', ys) \<and> inv s' \<and> held s' = r"
  using assms
proof (induction cs arbitrary: s ys)
  case Nil
  then show ?case using idle by simp
next
  case (Cons c cs)
  from Cons.prems(2) have whole: "splits ((held s @ c) @ concat cs) = Some (ys, r)" by simp
  then obtain y1 r1 where first: "splits (held s @ c) = Some (y1, r1)"
    unfolding splits_append [of "held s @ c" "concat cs"] by (auto split: option.splits)
  from whole first obtain y2 where second: "splits (r1 @ concat cs) = Some (y2, r)"
    and ys: "ys = y1 @ y2"
    unfolding splits_append [of "held s @ c" "concat cs"] by auto
  from feed [OF Cons.prems(1) first] obtain s1 where s1: "feed s c = Some (s1, y1)" "inv s1" "held s1 = r1"
    by blast
  from Cons.IH [OF s1(2)] second s1(3) obtain s2 where "feed_all s1 cs = Some (s2, y2)" "inv s2" "held s2 = r"
    by blast
  with s1 ys show ?case by simp
qed

lemma feed_all_None:
  assumes "inv s" and "splits (held s @ concat cs) = None"
  shows "feed_all s cs = None"
  using assms
proof (induction cs arbitrary: s)
  case Nil
  then show ?case using idle by simp
next
  case (Cons c cs)
  show ?case
  proof (cases "splits (held s @ c)")
    case None
    then show ?thesis using feed_None [OF Cons.prems(1)] by simp
  next
    case (Some p)
    obtain y1 r1 where p: "splits (held s @ c) = Some (y1, r1)" using Some by (cases p) simp
    with Cons.prems have "splits (r1 @ concat cs) = None"
      using splits_append [of "held s @ c" "concat cs"] by simp
    with feed [OF Cons.prems(1) p] Cons.IH show ?thesis by auto
  qed
qed

text \<open>Two ways to cut one stream into chunks hand out the same items, or both fail.\<close>

lemma chunks_irrelevant:
  assumes "inv s" and "concat cs = concat cs'"
  shows "map_option snd (feed_all s cs) = map_option snd (feed_all s cs')"
proof (cases "splits (held s @ concat cs)")
  case None
  then show ?thesis
    using feed_all_None [OF assms(1), of cs] feed_all_None [OF assms(1), of cs'] assms(2) by simp
next
  case (Some p)
  obtain ys r where p: "p = (ys, r)" by (cases p)
  from Some p feed_all_split [OF assms(1), of cs ys r] feed_all_split [OF assms(1), of cs' ys r] assms(2)
  show ?thesis by auto
qed

end

end
