(* ===== verification/Framing.thy ===== *)
theory Framing
  imports Incremental
begin

text \<open>
  \<open>packages/protocol/src/framing.ts\<close>: length-prefixed frames on a byte stream.
  The encoder, the check of one complete frame, and the incremental \<open>FrameDecoder\<close>
  with its header buffer, its list of payload blocks and its open/ended/failed state.
  A current block is an alias of an element of \<open>payloadBlocks\<close>: the model keeps its index.
  A method that throws returns its error next to the state it leaves behind; the decoder's two
  loops are \<open>partial_function (option)\<close>s, so that returning at all is a theorem.
\<close>

section \<open>Constants, errors and state\<close>

definition FRAME_HEADER_LENGTH :: nat where "FRAME_HEADER_LENGTH = 4"

definition FRAME_MAX_UINT32 :: nat where "FRAME_MAX_UINT32 = 0xffffffff"

definition PAYLOAD_BLOCK_SIZE :: nat where "PAYLOAD_BLOCK_SIZE = 64 * 1024"

definition DEFAULT_MAX_FRAME_LENGTH :: nat where
  "DEFAULT_MAX_FRAME_LENGTH = 16 * 1024 * 1024"

datatype frame_error =
    MaxFrameLengthRange      \<comment> \<open>RangeError: maxFrameLength is not an integer in range\<close>
  | PayloadTooLong           \<comment> \<open>RangeError of encodeFrame\<close>
  | IncompletePrefix
  | FrameTooLong nat nat     \<comment> \<open>the announced length and the limit\<close>
  | NotOnePayload
  | DecoderHasEnded
  | DecoderHasFailed
  | TruncatedAtEnd

datatype decoder_state = Open | Ended | Failed

record frame_decoder =
  header :: "byte list"
  headerLength :: nat
  maxFrameLength :: nat
  payloadBlocks :: "byte list list"
  currentPayloadBlock :: "nat option"
  currentPayloadBlockLength :: nat
  expectedPayloadLength :: "nat option"
  payloadLength :: nat
  fd_state :: decoder_state

section \<open>Operations\<close>

text \<open>An option that is absent or \<open>undefined\<close> is \<open>None\<close>; a number that is not a safe
  integer is outside the range whatever its value, and an \<open>int\<close> stands for the safe ones.\<close>

definition resolveMaxFrameLength :: "int option \<Rightarrow> frame_error + nat" where
  "resolveMaxFrameLength options =
     (let value = (case options of None \<Rightarrow> int DEFAULT_MAX_FRAME_LENGTH | Some v \<Rightarrow> v)
      in if value < 0 \<or> value > int FRAME_MAX_UINT32 then Inl MaxFrameLengthRange
         else Inr (nat value))"

definition encodeFrame :: "byte list \<Rightarrow> frame_error + byte list" where
  "encodeFrame payload =
     (if length payload > FRAME_MAX_UINT32 then Inl PayloadTooLong
      else let frame = zeros (FRAME_HEADER_LENGTH + length payload);
               len = length payload;
               frame = frame[0 := word_of_nat (len div 2 ^ 24)];
               frame = frame[1 := word_of_nat (len div 2 ^ 16)];
               frame = frame[2 := word_of_nat (len div 2 ^ 8)];
               frame = frame[3 := word_of_nat len]
           in Inr (array_set frame payload FRAME_HEADER_LENGTH))"

definition assertCompleteFrame :: "byte list \<Rightarrow> int option \<Rightarrow> frame_error + unit" where
  "assertCompleteFrame frame options =
     (if length frame < FRAME_HEADER_LENGTH then Inl IncompletePrefix
      else let len = be32 frame in
        case resolveMaxFrameLength options of
          Inl e \<Rightarrow> Inl e
        | Inr limit \<Rightarrow>
            if len > limit then Inl (FrameTooLong len limit)
            else if length frame \<noteq> FRAME_HEADER_LENGTH + len then Inl NotOnePayload
            else Inr ())"

definition new_FrameDecoder :: "int option \<Rightarrow> frame_error + frame_decoder" where
  "new_FrameDecoder options =
     (case resolveMaxFrameLength options of
        Inl e \<Rightarrow> Inl e
      | Inr limit \<Rightarrow> Inr \<lparr>header = zeros FRAME_HEADER_LENGTH, headerLength = 0,
          maxFrameLength = limit, payloadBlocks = [], currentPayloadBlock = None,
          currentPayloadBlockLength = 0, expectedPayloadLength = None, payloadLength = 0,
          fd_state = Open\<rparr>)"

definition fail_decoder :: "frame_decoder \<Rightarrow> frame_decoder" where
  "fail_decoder d = d\<lparr>fd_state := Failed, headerLength := 0, payloadBlocks := [],
     currentPayloadBlock := None, currentPayloadBlockLength := 0,
     expectedPayloadLength := None, payloadLength := 0\<rparr>"

text \<open>The inner loop of \<open>push\<close>: its body and the loop. The body takes the current block, or
  allocates one when there is none or it is full, and copies what fits.\<close>

definition need_block :: "frame_decoder \<Rightarrow> bool" where
  "need_block d = (case currentPayloadBlock d of None \<Rightarrow> True
     | Some i \<Rightarrow> currentPayloadBlockLength d = length (payloadBlocks d ! i))"

definition alloc_block :: "nat \<Rightarrow> frame_decoder \<Rightarrow> frame_decoder" where
  "alloc_block expected d =
     d\<lparr>payloadBlocks := payloadBlocks d @
           [zeros (min PAYLOAD_BLOCK_SIZE (expected - payloadLength d))],
       currentPayloadBlock := Some (length (payloadBlocks d)),
       currentPayloadBlockLength := 0\<rparr>"

definition copy_payload :: "byte list \<Rightarrow> nat \<Rightarrow> frame_decoder \<Rightarrow> nat \<times> frame_decoder" where
  "copy_payload chunk off d =
     (let i = the (currentPayloadBlock d);
          block = payloadBlocks d ! i;
          n = min (length block - currentPayloadBlockLength d) (length chunk - off)
      in (off + n,
          d\<lparr>payloadBlocks := (payloadBlocks d)[i :=
                 array_set block (subarray chunk off (off + n)) (currentPayloadBlockLength d)],
             currentPayloadBlockLength := currentPayloadBlockLength d + n,
             payloadLength := payloadLength d + n\<rparr>))"

definition fill_step :: "byte list \<Rightarrow> nat \<Rightarrow> nat \<Rightarrow> frame_decoder \<Rightarrow> nat \<times> frame_decoder" where
  "fill_step chunk expected off d =
     copy_payload chunk off (if need_block d then alloc_block expected d else d)"

partial_function (option) fill_payload ::
  "byte list \<Rightarrow> nat \<Rightarrow> nat \<Rightarrow> frame_decoder \<Rightarrow> (nat \<times> frame_decoder) option" where
  "fill_payload chunk expected off d =
     (if off < length chunk \<and> payloadLength d < expected
      then fill_payload chunk expected
             (fst (fill_step chunk expected off d)) (snd (fill_step chunk expected off d))
      else Some (off, d))"

text \<open>The payload handed out when it is complete: the only block itself, or a new array into
  which every block is copied.\<close>

fun copy_blocks :: "byte list list \<Rightarrow> nat \<Rightarrow> byte list \<Rightarrow> byte list" where
  "copy_blocks [] off payload = payload"
| "copy_blocks (b # bs) off payload = copy_blocks bs (off + length b) (array_set payload b off)"

definition take_payload :: "nat \<Rightarrow> frame_decoder \<Rightarrow> byte list \<times> frame_decoder" where
  "take_payload expected d =
     ((if length (payloadBlocks d) = 1 then payloadBlocks d ! 0
       else copy_blocks (payloadBlocks d) 0 (zeros expected)),
      d\<lparr>payloadBlocks := [], currentPayloadBlock := None, currentPayloadBlockLength := 0,
         expectedPayloadLength := None, payloadLength := 0\<rparr>)"

text \<open>The header part of the outer loop's body. Its three outcomes are the \<open>continue\<close>s
  (with or without an empty frame), the fall-through, and the throw.\<close>

datatype header_result =
    Continue "byte list list" nat frame_decoder
  | Proceed nat frame_decoder
  | Throw frame_error frame_decoder

definition read_header :: "byte list \<Rightarrow> nat \<Rightarrow> frame_decoder \<Rightarrow> header_result" where
  "read_header chunk off d =
     (if expectedPayloadLength d = None then
        let n = min (FRAME_HEADER_LENGTH - headerLength d) (length chunk - off);
            d = d\<lparr>header := array_set (header d) (subarray chunk off (off + n)) (headerLength d),
                   headerLength := headerLength d + n\<rparr>;
            off = off + n
        in if headerLength d < FRAME_HEADER_LENGTH then Continue [] off d
           else let frameLength = be32 (header d); d = d\<lparr>headerLength := 0\<rparr>
             in if frameLength > maxFrameLength d
                then Throw (FrameTooLong frameLength (maxFrameLength d)) (fail_decoder d)
                else if frameLength = 0 then Continue [[]] off d
                else Proceed off (d\<lparr>expectedPayloadLength := Some frameLength,
                       payloadBlocks := [], currentPayloadBlock := None,
                       currentPayloadBlockLength := 0, payloadLength := 0\<rparr>)
      else Proceed off d)"

partial_function (option) push_loop ::
  "byte list \<Rightarrow> byte list list \<Rightarrow> nat \<Rightarrow> frame_decoder
     \<Rightarrow> (frame_decoder \<times> (frame_error + byte list list)) option" where
  "push_loop chunk frames off d =
     (if off < length chunk then
        (case read_header chunk off d of
           Throw e d \<Rightarrow> Some (d, Inl e)
         | Continue fs off d \<Rightarrow> push_loop chunk (frames @ fs) off d
         | Proceed off d \<Rightarrow>
             (case expectedPayloadLength d of
                None \<Rightarrow> push_loop chunk frames off d
              | Some expected \<Rightarrow>
                  Option.bind (fill_payload chunk expected off d) (\<lambda>(off, d).
                    if payloadLength d = expected
                    then push_loop chunk (frames @ [fst (take_payload expected d)]) off
                           (snd (take_payload expected d))
                    else push_loop chunk frames off d)))
      else Some (d, Inr frames))"

definition push ::
  "frame_decoder \<Rightarrow> byte list \<Rightarrow> (frame_decoder \<times> (frame_error + byte list list)) option" where
  "push d chunk =
     (if fd_state d = Ended then Some (d, Inl DecoderHasEnded)
      else if fd_state d = Failed then Some (d, Inl DecoderHasFailed)
      else push_loop chunk [] 0 d)"

definition end_stream :: "frame_decoder \<Rightarrow> frame_decoder \<times> (frame_error + unit)" where
  "end_stream d =
     (if fd_state d = Ended then (d, Inl DecoderHasEnded)
      else if fd_state d = Failed then (d, Inl DecoderHasFailed)
      else if headerLength d \<noteq> 0 \<or> expectedPayloadLength d \<noteq> None
      then (fail_decoder d, Inl TruncatedAtEnd)
      else (d\<lparr>fd_state := Ended\<rparr>, Inr ()))"

section \<open>What the decoder promises\<close>

text \<open>The abstract contract: a byte stream is a sequence of frames and a rest that is not yet
  a frame, or it runs into a prefix that announces more than the limit.\<close>

datatype stream_end = Rest "byte list" | Oversized nat

function split_frames :: "nat \<Rightarrow> byte list \<Rightarrow> byte list list \<times> stream_end" where
  "split_frames limit bs =
     (if length bs < 4 then ([], Rest bs)
      else if be32 bs > limit then ([], Oversized (be32 bs))
      else if length bs < 4 + be32 bs then ([], Rest bs)
      else (subarray bs 4 (4 + be32 bs) # fst (split_frames limit (drop (4 + be32 bs) bs)),
            snd (split_frames limit (drop (4 + be32 bs) bs))))"
  by pat_completeness auto
termination
  by (relation "measure (\<lambda>(limit, bs). length bs)") auto

declare split_frames.simps [simp del]

text \<open>The bytes the decoder has taken in and not yet handed out.\<close>

definition received :: "frame_decoder \<Rightarrow> byte list" where
  "received d = take (payloadLength d) (concat (payloadBlocks d))"

definition pending :: "frame_decoder \<Rightarrow> byte list" where
  "pending d = (case expectedPayloadLength d of
       None \<Rightarrow> take (headerLength d) (header d)
     | Some n \<Rightarrow> put32 n @ received d)"

text \<open>The blocks: full ones followed by the current one, never more than the payload needs.\<close>

definition blocks_ok :: "nat \<Rightarrow> frame_decoder \<Rightarrow> bool" where
  "blocks_ok n d \<longleftrightarrow>
     (if currentPayloadBlock d = None then payloadBlocks d = [] \<and> payloadLength d = 0
      else payloadBlocks d \<noteq> [] \<and>
        currentPayloadBlock d = Some (length (butlast (payloadBlocks d))) \<and>
        currentPayloadBlockLength d \<le> length (last (payloadBlocks d)) \<and>
        payloadLength d = length (concat (butlast (payloadBlocks d))) + currentPayloadBlockLength d \<and>
        length (concat (payloadBlocks d)) \<le> n)"

definition decoder_inv :: "frame_decoder \<Rightarrow> bool" where
  "decoder_inv d \<longleftrightarrow> fd_state d = Open \<and> length (header d) = 4 \<and>
     maxFrameLength d \<le> FRAME_MAX_UINT32 \<and>
     (case expectedPayloadLength d of
        None \<Rightarrow> headerLength d < 4
      | Some n \<Rightarrow> headerLength d = 0 \<and> n \<le> maxFrameLength d \<and> payloadLength d < n \<and> blocks_ok n d)"

text \<open>The fields the payload loop leaves alone.\<close>

definition same_frame :: "frame_decoder \<Rightarrow> frame_decoder \<Rightarrow> bool" where
  "same_frame d d' \<longleftrightarrow> header d' = header d \<and> headerLength d' = headerLength d \<and>
     maxFrameLength d' = maxFrameLength d \<and> fd_state d' = fd_state d \<and>
     expectedPayloadLength d' = expectedPayloadLength d"

lemma same_frame_trans: "same_frame a b \<Longrightarrow> same_frame b c \<Longrightarrow> same_frame a c"
  by (simp add: same_frame_def)

section \<open>The payload loop\<close>

lemma received_length: "blocks_ok n d \<Longrightarrow> length (received d) = payloadLength d"
  by (cases "payloadBlocks d" rule: rev_cases)
    (auto simp: blocks_ok_def received_def split: if_splits)

lemma alloc_block_ok:
  assumes "blocks_ok n d" and "payloadLength d < n" and "need_block d"
  shows "blocks_ok n (alloc_block n d) \<and> received (alloc_block n d) = received d \<and>
         \<not> need_block (alloc_block n d) \<and> same_frame d (alloc_block n d) \<and>
         payloadLength (alloc_block n d) = payloadLength d"
proof -
  have full: "payloadLength d = length (concat (payloadBlocks d))"
    using assms
    by (cases "payloadBlocks d" rule: rev_cases)
      (auto simp: blocks_ok_def need_block_def nth_append split: option.splits if_splits)
  then show ?thesis
    using assms(2)
    by (auto simp: blocks_ok_def alloc_block_def need_block_def received_def same_frame_def
        PAYLOAD_BLOCK_SIZE_def min_def)
qed

lemma copy_payload_ok:
  assumes ok: "blocks_ok n d" and off: "off < length chunk" and room: "\<not> need_block d"
  shows "\<exists>k d'. copy_payload chunk off d = (off + k, d') \<and> 0 < k \<and> off + k \<le> length chunk \<and>
           blocks_ok n d' \<and> same_frame d d' \<and> payloadLength d' = payloadLength d + k \<and>
           payloadLength d' \<le> n \<and> received d' = received d @ take k (drop off chunk)"
proof -
  from room ok obtain bs b where blocks: "payloadBlocks d = bs @ [b]"
    and cur: "currentPayloadBlock d = Some (length bs)"
    by (cases "payloadBlocks d" rule: rev_cases)
      (auto simp: blocks_ok_def need_block_def split: option.splits)
  let ?c = "currentPayloadBlockLength d"
  from room ok blocks cur have c: "?c < length b"
    and len: "payloadLength d = length (concat bs) + ?c" "length (concat bs) + length b \<le> n"
    by (auto simp: blocks_ok_def need_block_def split: if_splits)
  define k where "k = min (length b - ?c) (length chunk - off)"
  define b' where "b' = array_set b (subarray chunk off (off + k)) ?c"
  define d' where "d' = d\<lparr>payloadBlocks := bs @ [b'], currentPayloadBlockLength := ?c + k,
      payloadLength := payloadLength d + k\<rparr>"
  have src: "subarray chunk off (off + k) = take k (drop off chunk)"
    by (simp add: subarray_def)
  have lsrc: "length (subarray chunk off (off + k)) = k"
    by (simp add: k_def min_def)
  have fit: "?c + k \<le> length b" using c by (simp add: k_def)
  have lb': "length b' = length b" using fit lsrc by (simp add: b'_def)
  have "take (?c + k) b' = take ?c b @ take k (drop off chunk)"
    using take_array_set [of ?c "subarray chunk off (off + k)" b] fit lsrc
    by (simp add: b'_def src)
  then have "received d' = received d @ take k (drop off chunk)"
    by (simp add: received_def d'_def blocks len add.assoc)
  moreover have "copy_payload chunk off d = (off + k, d')"
    by (simp add: copy_payload_def cur blocks Let_def d'_def k_def b'_def)
  moreover have "0 < k" "off + k \<le> length chunk" using c off by (auto simp: k_def)
  moreover have "blocks_ok n d'" "same_frame d d'" "payloadLength d' \<le> n"
    using fit len lb' cur by (auto simp: d'_def blocks_ok_def same_frame_def)
  moreover have "payloadLength d' = payloadLength d + k" by (simp add: d'_def)
  ultimately show ?thesis by blast
qed

lemma fill_step_ok:
  assumes "blocks_ok n d" and "off < length chunk" and "payloadLength d < n"
  shows "\<exists>k d'. fill_step chunk n off d = (off + k, d') \<and> 0 < k \<and> off + k \<le> length chunk \<and>
           blocks_ok n d' \<and> same_frame d d' \<and> payloadLength d' = payloadLength d + k \<and>
           payloadLength d' \<le> n \<and> received d' = received d @ take k (drop off chunk)"
proof (cases "need_block d")
  case True
  note a = alloc_block_ok [OF assms(1,3) True]
  then show ?thesis
    using copy_payload_ok [of n "alloc_block n d" off chunk] assms(2) True
    by (auto simp: fill_step_def dest: same_frame_trans)
next
  case False
  then show ?thesis
    using copy_payload_ok [OF assms(1,2)] by (simp add: fill_step_def)
qed

lemma fill_payload_ok:
  assumes "blocks_ok n d" and "off \<le> length chunk" and "payloadLength d \<le> n"
  shows "\<exists>d'. let k = min (length chunk - off) (n - payloadLength d) in
           fill_payload chunk n off d = Some (off + k, d') \<and> blocks_ok n d' \<and> same_frame d d' \<and>
           payloadLength d' = payloadLength d + k \<and>
           received d' = received d @ take k (drop off chunk)"
  using assms
proof (induction "n - payloadLength d" arbitrary: off d rule: less_induct)
  case less
  show ?case
  proof (cases "off < length chunk \<and> payloadLength d < n")
    case False
    then show ?thesis
      using less.prems by (auto simp: fill_payload.simps [of chunk n off d] Let_def same_frame_def)
  next
    case True
    then obtain k d1 where step: "fill_step chunk n off d = (off + k, d1)" "0 < k"
      "off + k \<le> length chunk" "blocks_ok n d1" "same_frame d d1"
      "payloadLength d1 = payloadLength d + k" "payloadLength d1 \<le> n"
      "received d1 = received d @ take k (drop off chunk)"
      using fill_step_ok less.prems(1) by blast
    let ?j = "min (length chunk - (off + k)) (n - payloadLength d1)"
    have "n - payloadLength d1 < n - payloadLength d" using step(2,6) True by linarith
    from less.hyps [OF this step(4,3,7)] obtain d' where IH:
      "fill_payload chunk n (off + k) d1 = Some (off + k + ?j, d')" "blocks_ok n d'"
      "same_frame d1 d'" "payloadLength d' = payloadLength d1 + ?j"
      "received d' = received d1 @ take ?j (drop (off + k) chunk)"
      by (auto simp: Let_def)
    have sum: "k + ?j = min (length chunk - off) (n - payloadLength d)"
      using step(3,6,7) by auto
    have "take k (drop off chunk) @ take ?j (drop (off + k) chunk) = take (k + ?j) (drop off chunk)"
      by (simp add: take_add add.commute)
    moreover have "fill_payload chunk n off d = Some (off + (k + ?j), d')"
      using True IH(1) step(1) by (simp add: fill_payload.simps [of chunk n off d] add.assoc)
    ultimately show ?thesis
      using step IH unfolding Let_def sum [symmetric]
      by (auto intro: same_frame_trans)
  qed
qed

section \<open>The outer loop\<close>

definition drained :: "frame_decoder \<Rightarrow> bool" where
  "drained d \<longleftrightarrow> fd_state d = Failed \<and> payloadBlocks d = [] \<and> currentPayloadBlock d = None \<and>
     headerLength d = 0 \<and> expectedPayloadLength d = None \<and> payloadLength d = 0"

lemma drained_fail [simp]: "drained (fail_decoder d)"
  by (simp add: drained_def fail_decoder_def)

definition push_meets ::
  "(frame_decoder \<times> (frame_error + byte list list)) option \<Rightarrow> byte list list \<Rightarrow> nat
     \<Rightarrow> byte list \<Rightarrow> bool" where
  "push_meets res frames limit bs \<longleftrightarrow>
     (case split_frames limit bs of
        (fs, Rest r) \<Rightarrow> \<exists>d'. res = Some (d', Inr (frames @ fs)) \<and> decoder_inv d' \<and>
                           maxFrameLength d' = limit \<and> pending d' = r
      | (fs, Oversized n) \<Rightarrow> \<exists>d'. res = Some (d', Inl (FrameTooLong n limit)) \<and> drained d')"

lemma copy_blocks_concat:
  "off + length (concat bs) \<le> length p \<Longrightarrow>
   copy_blocks bs off p = take off p @ concat bs @ drop (off + length (concat bs)) p"
  by (induction bs arbitrary: off p) (auto simp: array_set_def add_ac)

lemma pending_incomplete:
  assumes "decoder_inv d"
  shows "split_frames (maxFrameLength d) (pending d) = ([], Rest (pending d))"
proof (cases "expectedPayloadLength d")
  case None
  then show ?thesis
    using assms by (simp add: split_frames.simps decoder_inv_def pending_def)
next
  case (Some n)
  with assms have n: "n \<le> maxFrameLength d" "n < 2 ^ 32" "payloadLength d < n" "blocks_ok n d"
    by (auto simp: decoder_inv_def FRAME_MAX_UINT32_def)
  then show ?thesis
    using received_length [of n d] Some
    by (simp add: split_frames.simps [of "maxFrameLength d"] pending_def be32_put32)
qed

lemma split_frames_cons:
  assumes "length p = n" and "n \<le> limit" and "limit \<le> FRAME_MAX_UINT32"
  shows "split_frames limit (put32 n @ p @ bs) =
           (p # fst (split_frames limit bs), snd (split_frames limit bs))"
proof -
  have n: "n < 2 ^ 32" using assms by (simp add: FRAME_MAX_UINT32_def)
  show ?thesis
    using assms(1,2)
    by (simp add: split_frames.simps [of limit "put32 n @ p @ bs"] be32_put32 [OF n] subarray_def)
qed

lemma push_meets_cons:
  assumes "push_meets res (frames @ [p]) limit bs"
    and "length p = n" and "n \<le> limit" and "limit \<le> FRAME_MAX_UINT32"
  shows "push_meets res frames limit (put32 n @ p @ bs)"
  using assms(1) unfolding push_meets_def split_frames_cons [OF assms(2-4)]
  by (simp split: prod.splits stream_end.splits)

lemma complete_payload:
  assumes ok: "blocks_ok n d" and full: "payloadLength d = n" and pos: "0 < n"
  shows "fst (take_payload n d) = received d"
proof -
  from ok full pos obtain bs b where blocks: "payloadBlocks d = bs @ [b]"
    by (cases "payloadBlocks d" rule: rev_cases) (auto simp: blocks_ok_def split: if_splits)
  have len: "length (concat (payloadBlocks d)) = n"
    using ok full pos blocks by (auto simp: blocks_ok_def split: if_splits)
  then have "copy_blocks (payloadBlocks d) 0 (zeros n) = concat (payloadBlocks d)"
    by (simp add: copy_blocks_concat)
  moreover have "received d = concat (payloadBlocks d)"
    using len full by (simp add: received_def)
  moreover have "length (payloadBlocks d) = 1 \<Longrightarrow> concat (payloadBlocks d) = payloadBlocks d ! 0"
    by (cases bs) (simp_all add: blocks)
  ultimately show ?thesis by (simp add: take_payload_def)
qed

lemma payload_phase:
  assumes inv: "decoder_inv d" and exp: "expectedPayloadLength d = Some n"
    and off: "off \<le> length chunk"
    and IH: "\<And>frames off' d'. \<lbrakk>off' \<le> length chunk; off \<le> off'; off < length chunk \<longrightarrow> off < off';
        decoder_inv d'; maxFrameLength d' = maxFrameLength d\<rbrakk> \<Longrightarrow>
        push_meets (push_loop chunk frames off' d') frames (maxFrameLength d)
          (pending d' @ drop off' chunk)"
  shows "push_meets
    (Option.bind (fill_payload chunk n off d) (\<lambda>(off, d).
       if payloadLength d = n
       then push_loop chunk (frames @ [fst (take_payload n d)]) off (snd (take_payload n d))
       else push_loop chunk frames off d))
    frames (maxFrameLength d) (pending d @ drop off chunk)"
proof -
  from inv exp have n: "n \<le> maxFrameLength d" "payloadLength d < n" "blocks_ok n d"
    "maxFrameLength d \<le> FRAME_MAX_UINT32" "headerLength d = 0"
    by (auto simp: decoder_inv_def)
  define k where "k = min (length chunk - off) (n - payloadLength d)"
  obtain d' where fill: "fill_payload chunk n off d = Some (off + k, d')" "blocks_ok n d'"
    "same_frame d d'" "payloadLength d' = payloadLength d + k"
    "received d' = received d @ take k (drop off chunk)"
    using fill_payload_ok [OF n(3) off less_imp_le [OF n(2)]] by (auto simp: Let_def k_def)
  have range: "off + k \<le> length chunk" "off < length chunk \<longrightarrow> off < off + k"
    using off n(2) by (auto simp: k_def)
  have bytes: "pending d @ drop off chunk = put32 n @ received d' @ drop (off + k) chunk"
    by (simp add: pending_def exp fill(5)) (metis append_take_drop_id drop_drop add.commute)
  show ?thesis
  proof (cases "payloadLength d' = n")
    case True
    let ?d2 = "snd (take_payload n d')"
    have p: "fst (take_payload n d') = received d'"
      using complete_payload [OF fill(2) True] n(2) by simp
    have d2: "decoder_inv ?d2" "maxFrameLength ?d2 = maxFrameLength d" "pending ?d2 = []"
      using inv fill(3) n(5)
      by (auto simp: take_payload_def decoder_inv_def same_frame_def pending_def)
    from IH [OF range(1) _ range(2) d2(1,2), of "frames @ [received d']"] d2(3)
    have "push_meets (push_loop chunk (frames @ [received d']) (off + k) ?d2)
        (frames @ [received d']) (maxFrameLength d) (drop (off + k) chunk)" by simp
    from push_meets_cons [OF this _ n(1,4)] True received_length [OF fill(2)]
    show ?thesis by (simp add: fill(1) True p bytes)
  next
    case False
    then have "decoder_inv d'" "maxFrameLength d' = maxFrameLength d"
      using inv fill(2-4) exp n
      by (auto simp: decoder_inv_def same_frame_def k_def)
    from IH [OF range(1) _ range(2) this, of frames]
    have "push_meets (push_loop chunk frames (off + k) d') frames (maxFrameLength d)
        (pending d' @ drop (off + k) chunk)" by simp
    moreover have "pending d' = put32 n @ received d'"
      using fill(3) exp by (simp add: pending_def same_frame_def)
    ultimately show ?thesis using False by (simp add: fill(1) bytes)
  qed
qed

lemma header_bytes:
  assumes inv: "decoder_inv d" and exp: "expectedPayloadLength d = None" and off: "off < length chunk"
  defines "n \<equiv> min (4 - headerLength d) (length chunk - off)"
  defines "h \<equiv> array_set (header d) (subarray chunk off (off + n)) (headerLength d)"
  shows "length h = 4" and "0 < n" and "off + n \<le> length chunk" and "headerLength d + n \<le> 4"
    and "take (headerLength d + n) h @ drop (off + n) chunk = pending d @ drop off chunk"
proof -
  from inv exp have hl: "headerLength d < 4" "length (header d) = 4"
    by (auto simp: decoder_inv_def)
  then show n: "0 < n" "off + n \<le> length chunk" "headerLength d + n \<le> 4"
    using off by (auto simp: n_def)
  have src: "length (subarray chunk off (off + n)) = n" using n(2) by simp
  then show "length h = 4" using hl n(3) by (simp add: h_def)
  have "take (headerLength d + n) h = pending d @ take n (drop off chunk)"
    using take_array_set [of "headerLength d" "subarray chunk off (off + n)" "header d"]
      src hl n(3) exp by (simp add: h_def pending_def subarray_def)
  then show "take (headerLength d + n) h @ drop (off + n) chunk = pending d @ drop off chunk"
    by simp (metis append_take_drop_id drop_drop add.commute)
qed

text \<open>The induction hypothesis of the outer loop: every later iteration does what it should.\<close>

definition meets_after :: "byte list \<Rightarrow> nat \<Rightarrow> nat \<Rightarrow> bool" where
  "meets_after chunk off limit \<longleftrightarrow>
     (\<forall>frames off' d'. off' \<le> length chunk \<longrightarrow> off < off' \<longrightarrow> decoder_inv d' \<longrightarrow>
        maxFrameLength d' = limit \<longrightarrow>
        push_meets (push_loop chunk frames off' d') frames limit (pending d' @ drop off' chunk))"

lemma meets_afterD:
  "meets_after chunk off (maxFrameLength d') \<Longrightarrow> off' \<le> length chunk \<Longrightarrow> off < off' \<Longrightarrow> decoder_inv d' \<Longrightarrow>
   push_meets (push_loop chunk frames off' d') frames (maxFrameLength d') (pending d' @ drop off' chunk)"
  by (simp add: meets_after_def)

lemma header_complete:
  assumes inv: "decoder_inv d" and exp: "expectedPayloadLength d = None" and more: "off < length chunk"
    and later: "meets_after chunk off (maxFrameLength d)"
    and hb: "length h = 4" "off < off'" "off' \<le> length chunk"
    and read: "h @ drop off' chunk = pending d @ drop off chunk"
    and step: "read_header chunk off d =
      (let d1 = d\<lparr>header := h, headerLength := 0\<rparr>; len = be32 h in
       if len > maxFrameLength d then Throw (FrameTooLong len (maxFrameLength d)) (fail_decoder d1)
       else if len = 0 then Continue [[]] off' d1
       else Proceed off' (d1\<lparr>expectedPayloadLength := Some len, payloadBlocks := [],
              currentPayloadBlock := None, currentPayloadBlockLength := 0, payloadLength := 0\<rparr>))"
  shows "push_meets (push_loop chunk frames off d) frames (maxFrameLength d)
           (pending d @ drop off chunk)"
proof -
  let ?len = "be32 h" and ?d1 = "d\<lparr>header := h, headerLength := 0\<rparr>"
  have bytes: "pending d @ drop off chunk = put32 ?len @ drop off' chunk"
    using read hb(1) by (simp add: put32_be32)
  have limit: "maxFrameLength d \<le> FRAME_MAX_UINT32" using inv by (simp add: decoder_inv_def)
  note unfold = push_loop.simps [of chunk frames off d] step Let_def
  consider (long) "?len > maxFrameLength d" | (empty) "?len = 0"
    | (some) "0 < ?len" "?len \<le> maxFrameLength d" by linarith
  then show ?thesis
  proof cases
    case long
    then have "split_frames (maxFrameLength d) (pending d @ drop off chunk) = ([], Oversized ?len)"
      by (simp add: bytes split_frames.simps [of _ "put32 _ @ _"] be32_put32 [OF be32_bound])
    then show ?thesis using more long by (simp add: unfold push_meets_def)
  next
    case empty
    have "decoder_inv ?d1" "pending ?d1 = []"
      using inv hb(1) exp by (simp_all add: decoder_inv_def pending_def)
    then have "push_meets (push_loop chunk (frames @ [[]]) off' ?d1) (frames @ [[]])
        (maxFrameLength d) (drop off' chunk)"
      using meets_afterD [of chunk off ?d1 off' "frames @ [[]]"] later hb(2,3) by simp
    from push_meets_cons [OF this, of 0] limit
    show ?thesis using more empty by (simp add: unfold bytes)
  next
    case some
    let ?d2 = "?d1\<lparr>expectedPayloadLength := Some ?len, payloadBlocks := [],
        currentPayloadBlock := None, currentPayloadBlockLength := 0, payloadLength := 0\<rparr>"
    have d2: "decoder_inv ?d2" "expectedPayloadLength ?d2 = Some ?len" "pending ?d2 = put32 ?len"
      using inv hb(1) some
      by (simp_all add: decoder_inv_def pending_def blocks_ok_def received_def)
    have "push_meets (push_loop chunk fs i d') fs (maxFrameLength ?d2) (pending d' @ drop i chunk)"
      if "i \<le> length chunk" "off' \<le> i" "off' < length chunk \<longrightarrow> off' < i" "decoder_inv d'"
        "maxFrameLength d' = maxFrameLength ?d2" for fs i d'
      using meets_afterD [of chunk off d' i fs] later that hb(2) by simp
    from payload_phase [OF d2(1,2) hb(3) this, of frames]
    show ?thesis using more some unfolding bytes d2(3) by (simp add: unfold)
  qed
qed

lemma header_phase:
  assumes inv: "decoder_inv d" and exp: "expectedPayloadLength d = None" and more: "off < length chunk"
    and later: "meets_after chunk off (maxFrameLength d)"
  shows "push_meets (push_loop chunk frames off d) frames (maxFrameLength d)
           (pending d @ drop off chunk)"
proof -
  define n where "n = min (4 - headerLength d) (length chunk - off)"
  define h where "h = array_set (header d) (subarray chunk off (off + n)) (headerLength d)"
  note hb = header_bytes [OF inv exp more, folded n_def, folded h_def]
  note unfold = read_header_def Let_def FRAME_HEADER_LENGTH_def n_def [symmetric] h_def [symmetric]
  show ?thesis
  proof (cases "headerLength d + n < 4")
    case True
    let ?d1 = "d\<lparr>header := h, headerLength := headerLength d + n\<rparr>"
    have "push_loop chunk frames off d = push_loop chunk frames (off + n) ?d1"
      using more exp True by (simp add: push_loop.simps [of chunk frames off d] unfold)
    moreover have "decoder_inv ?d1" using inv exp True hb(1) by (simp add: decoder_inv_def)
    moreover have "pending ?d1 @ drop (off + n) chunk = pending d @ drop off chunk"
      using hb(5) exp by (simp add: pending_def)
    ultimately show ?thesis
      using meets_afterD [of chunk off ?d1 "off + n" frames] later hb(2,3) by simp
  next
    case False
    then have full: "headerLength d + n = 4" using hb(4) by simp
    have read: "h @ drop (off + n) chunk = pending d @ drop off chunk"
      using hb(1,5) full by simp
    show ?thesis
      by (rule header_complete [OF inv exp more later hb(1) _ hb(3) read])
        (use exp full hb(2) in \<open>simp_all add: unfold\<close>)
  qed
qed

text \<open>The outer loop returns, and computes the split of everything the decoder has seen.\<close>

lemma push_loop_ok:
  assumes "decoder_inv d" and "off \<le> length chunk"
  shows "push_meets (push_loop chunk frames off d) frames (maxFrameLength d)
           (pending d @ drop off chunk)"
  using assms
proof (induction "length chunk - off" arbitrary: off d frames rule: less_induct)
  case less
  note inv = less.prems(1)
  have later: "meets_after chunk off (maxFrameLength d)"
    unfolding meets_after_def
  proof (intro allI impI)
    fix fs i d'
    assume i: "i \<le> length chunk" "off < i" "decoder_inv d'" "maxFrameLength d' = maxFrameLength d"
    then have "length chunk - i < length chunk - off" by linarith
    from less.hyps [OF this i(3,1), of fs] i(4)
    show "push_meets (push_loop chunk fs i d') fs (maxFrameLength d) (pending d' @ drop i chunk)"
      by simp
  qed
  show ?case
  proof (cases "off < length chunk")
    case False
    then have "push_loop chunk frames off d = Some (d, Inr frames)"
      by (simp add: push_loop.simps)
    then show ?thesis
      using False inv pending_incomplete [OF inv] by (simp add: push_meets_def)
  next
    case more: True
    show ?thesis
    proof (cases "expectedPayloadLength d")
      case None
      then show ?thesis by (rule header_phase [OF inv _ more later])
    next
      case (Some n)
      have "push_meets (push_loop chunk fs i d') fs (maxFrameLength d) (pending d' @ drop i chunk)"
        if "i \<le> length chunk" "off \<le> i" "off < length chunk \<longrightarrow> off < i" "decoder_inv d'"
          "maxFrameLength d' = maxFrameLength d" for fs i d'
        using meets_afterD [of chunk off d' i fs] later that more by simp
      note phase = payload_phase [OF inv Some less.prems(2) this, of frames]
      have "push_loop chunk frames off d = Option.bind (fill_payload chunk n off d) (\<lambda>(off, d).
          if payloadLength d = n
          then push_loop chunk (frames @ [fst (take_payload n d)]) off (snd (take_payload n d))
          else push_loop chunk frames off d)"
        using more Some by (subst push_loop.simps) (simp add: read_header_def)
      then show ?thesis using phase by (simp only:)
    qed
  qed
qed

section \<open>The decoder as an incremental reader\<close>

definition frame_feed :: "frame_decoder \<Rightarrow> byte list \<Rightarrow> (frame_decoder \<times> byte list list) option" where
  "frame_feed d chunk =
     (case push d chunk of Some (d', Inr frames) \<Rightarrow> Some (d', frames) | _ \<Rightarrow> None)"

definition frame_split :: "nat \<Rightarrow> byte list \<Rightarrow> (byte list list \<times> byte list) option" where
  "frame_split limit bs =
     (case split_frames limit bs of (fs, Rest r) \<Rightarrow> Some (fs, r) | (fs, Oversized n) \<Rightarrow> None)"

definition limited_inv :: "nat \<Rightarrow> frame_decoder \<Rightarrow> bool" where
  "limited_inv limit d \<longleftrightarrow> decoder_inv d \<and> maxFrameLength d = limit"

lemma push_meets_spec:
  assumes "decoder_inv d"
  shows "push_meets (push d chunk) [] (maxFrameLength d) (pending d @ chunk)"
  using push_loop_ok [OF assms, of 0 chunk "[]"] assms
  by (simp add: push_def decoder_inv_def)

lemma split_frames_append:
  "split_frames limit (xs @ zs) =
     (case split_frames limit xs of
        (fs, Rest r) \<Rightarrow> (fs @ fst (split_frames limit (r @ zs)), snd (split_frames limit (r @ zs)))
      | (fs, Oversized n) \<Rightarrow> (fs, Oversized n))"
proof (induction limit xs rule: split_frames.induct)
  case (1 limit xs)
  show ?case
  proof (cases "4 \<le> length xs \<and> be32 xs \<le> limit \<and> 4 + be32 xs \<le> length xs")
    case True
    have "be32 (xs @ zs) = be32 xs" using True by (simp add: be32_prefix)
    then show ?thesis
      using True "1.IH"
      by (simp add: split_frames.simps [of limit xs] split_frames.simps [of limit "xs @ zs"]
          subarray_def split: prod.splits stream_end.splits)
  next
    case False
    show ?thesis
    proof (cases "4 \<le> length xs \<and> be32 xs > limit")
      case True
      then have "be32 (xs @ zs) = be32 xs" by (simp add: be32_prefix)
      then show ?thesis using True by (simp add: split_frames.simps)
    next
      case False
      with \<open>\<not> (4 \<le> length xs \<and> be32 xs \<le> limit \<and> 4 + be32 xs \<le> length xs)\<close>
      have "split_frames limit xs = ([], Rest xs)" by (auto simp: split_frames.simps)
      then show ?thesis by simp
    qed
  qed
qed

interpretation frames: incremental frame_feed "limited_inv limit" pending "frame_split limit"
  for limit
proof unfold_locales
  fix d xs ys r
  assume "limited_inv limit d" "frame_split limit (pending d @ xs) = Some (ys, r)"
  then show "\<exists>s'. frame_feed d xs = Some (s', ys) \<and> limited_inv limit s' \<and> pending s' = r"
    using push_meets_spec [of d xs]
    by (auto simp: limited_inv_def frame_split_def push_meets_def frame_feed_def
        split: prod.splits stream_end.splits)
next
  fix d xs
  assume "limited_inv limit d" "frame_split limit (pending d @ xs) = None"
  then show "frame_feed d xs = None"
    using push_meets_spec [of d xs]
    by (auto simp: limited_inv_def frame_split_def push_meets_def frame_feed_def
        split: prod.splits stream_end.splits)
next
  fix d
  assume "limited_inv limit d"
  then show "frame_split limit (pending d) = Some ([], pending d)"
    using pending_incomplete [of d] by (auto simp: limited_inv_def frame_split_def)
next
  fix xs zs
  show "frame_split limit (xs @ zs) =
    (case frame_split limit xs of None \<Rightarrow> None
     | Some (ys, r) \<Rightarrow> map_option (\<lambda>(ys', r'). (ys @ ys', r')) (frame_split limit (r @ zs)))"
    unfolding frame_split_def split_frames_append [of limit xs zs]
    by (auto split: prod.splits stream_end.splits)
qed

lemma new_decoder_inv:
  "new_FrameDecoder options = Inr d \<Longrightarrow> decoder_inv d \<and> pending d = []"
  by (auto simp: new_FrameDecoder_def decoder_inv_def pending_def resolveMaxFrameLength_def Let_def
      FRAME_HEADER_LENGTH_def FRAME_MAX_UINT32_def DEFAULT_MAX_FRAME_LENGTH_def
      split: sum.splits if_splits option.splits)

lemma encodeFrame_bytes:
  "length p \<le> FRAME_MAX_UINT32 \<Longrightarrow> encodeFrame p = Inr (put32 (length p) @ p)"
proof -
  have "zeros (4 + n) = 0 # 0 # 0 # 0 # zeros n" for n
    by (simp add: zeros_def replicate_add) (simp add: numeral_eq_Suc)
  moreover assume "length p \<le> FRAME_MAX_UINT32"
  ultimately show ?thesis
    by (simp only: encodeFrame_def Let_def FRAME_HEADER_LENGTH_def set_header4 not_less [symmetric] if_False)
      (simp add: array_set_def put32_def)
qed

lemma split_encoded:
  assumes "\<forall>p\<in>set ps. length p \<le> limit" and "limit \<le> FRAME_MAX_UINT32"
  shows "frame_split limit (concat (map (\<lambda>p. put32 (length p) @ p) ps)) = Some (ps, [])"
proof -
  have "split_frames limit (concat (map (\<lambda>p. put32 (length p) @ p) ps)) = (ps, Rest [])"
    using assms
  proof (induction ps)
    case Nil
    then show ?case by (simp add: split_frames.simps)
  next
    case (Cons p ps)
    then show ?case by (simp add: split_frames_cons)
  qed
  then show ?thesis by (simp add: frame_split_def)
qed

section \<open>Properties\<close>

text \<open>C3: on every state the decoder can be in, one \<open>push\<close> terminates and refines the split of the
  stream: it hands out exactly the complete frames of what it held back plus the chunk, keeps the
  incomplete rest, and fails exactly when a frame announces more than the limit.\<close>

theorem push_refines_split:
  assumes "decoder_inv d"
  shows "\<exists>d'. case split_frames (maxFrameLength d) (pending d @ chunk) of
      (fs, Rest r) \<Rightarrow> push d chunk = Some (d', Inr fs) \<and> decoder_inv d' \<and>
                      maxFrameLength d' = maxFrameLength d \<and> pending d' = r
    | (fs, Oversized n) \<Rightarrow> push d chunk = Some (d', Inl (FrameTooLong n (maxFrameLength d))) \<and>
                      drained d'"
  using push_meets_spec [OF assms, of chunk]
  by (auto simp: push_meets_def split: prod.splits stream_end.splits)

theorem push_refines_split_witness:
  "\<exists>d d'. decoder_inv d \<and> push d [0, 0, 0, 1, 7, 0, 0] = Some (d', Inr [[7]]) \<and> pending d' = [0, 0]"
proof -
  obtain d where d: "new_FrameDecoder None = Inr d"
    by (simp add: new_FrameDecoder_def resolveMaxFrameLength_def DEFAULT_MAX_FRAME_LENGTH_def
        FRAME_MAX_UINT32_def)
  then have inv: "decoder_inv d" "pending d = []" and limit: "maxFrameLength d = 16777216"
    using new_decoder_inv [OF d]
    by (auto simp: new_FrameDecoder_def resolveMaxFrameLength_def DEFAULT_MAX_FRAME_LENGTH_def
        FRAME_MAX_UINT32_def)
  have "split_frames 16777216 [0, 0, 0, 1, 7, 0, 0] = ([[7]], Rest [0, 0])"
    by (simp add: split_frames.simps be32_def subarray_def numeral_3_eq_3)
  then show ?thesis
    using push_refines_split [OF inv(1), of "[0, 0, 0, 1, 7, 0, 0]"] inv limit by auto
qed

lemma drained_end:
  assumes "decoder_inv d" and "pending d = []"
  shows "snd (end_stream d) = Inr ()"
proof -
  have "headerLength d = 0" "expectedPayloadLength d = None"
    using assms by (auto simp: decoder_inv_def pending_def put32_def split: option.splits)
  then show ?thesis using assms(1) by (auto simp: end_stream_def decoder_inv_def)
qed

lemma encoded_frames_decode:
  assumes "new_FrameDecoder options = Inr d"
    and "map encodeFrame payloads = map Inr encoded"
    and "\<forall>p\<in>set payloads. length p \<le> maxFrameLength d"
    and "concat chunks = concat encoded"
  shows "\<exists>d'. frames.feed_all d chunks = Some (d', payloads) \<and> snd (end_stream d') = Inr ()"
proof -
  have inv: "decoder_inv d" "pending d = []" using new_decoder_inv [OF assms(1)] by auto
  then have limit: "maxFrameLength d \<le> FRAME_MAX_UINT32" by (simp add: decoder_inv_def)
  have "map encodeFrame payloads = map (\<lambda>p. Inr (put32 (length p) @ p)) payloads"
    using assms(3) limit by (auto simp: encodeFrame_bytes)
  with assms(2) have "map (Inr :: _ \<Rightarrow> frame_error + _) (map (\<lambda>p. put32 (length p) @ p) payloads)
      = map Inr encoded"
    by (simp add: comp_def)
  then have "map (\<lambda>p. put32 (length p) @ p) payloads = encoded" by (simp only: map_Inr_inject)
  with split_encoded [OF assms(3) limit] assms(4) inv
  have "frame_split (maxFrameLength d) (pending d @ concat chunks) = Some (payloads, [])" by simp
  from frames.feed_all_split [OF _ this] inv
  obtain d' where d': "frames.feed_all d chunks = Some (d', payloads)"
    "decoder_inv d'" "pending d' = []"
    by (auto simp: limited_inv_def)
  then show ?thesis using drained_end by blast
qed

text \<open>Encoding payloads and cutting the resulting byte stream into chunks at any places, a fresh
  decoder returns exactly the payloads, in order, and accepts the end of the stream.\<close>

theorem frames_round_trip:
  assumes "new_FrameDecoder options = Inr d"
    and "map encodeFrame payloads = map Inr encoded"
    and "\<forall>p\<in>set payloads. length p \<le> maxFrameLength d"
    and "concat chunks = concat encoded"
  shows "\<exists>d'. frames.feed_all d chunks = Some (d', payloads) \<and> snd (end_stream d') = Inr ()"
  by (rule encoded_frames_decode [OF assms])

theorem frames_round_trip_witness:
  "\<exists>d d'. frames.feed_all d [[0, 0, 0], [2, 1], [2, 0, 0, 0, 0]] = Some (d', [[1, 2], []]) \<and>
     snd (end_stream d') = Inr ()"
proof -
  obtain d where d: "new_FrameDecoder (Some 64) = Inr d" "maxFrameLength d = 64"
    by (simp add: new_FrameDecoder_def resolveMaxFrameLength_def FRAME_MAX_UINT32_def)
  have "map encodeFrame [[1, 2], []] = map Inr [[0, 0, 0, 2, 1, 2], [0, 0, 0, 0]]"
    by (simp add: encodeFrame_bytes FRAME_MAX_UINT32_def put32_def)
  from frames_round_trip [OF d(1) this, of "[[0, 0, 0], [2, 1], [2, 0, 0, 0, 0]]"] d(2)
  show ?thesis by auto
qed

text \<open>Where a transport cuts the stream never matters: two ways to cut the same bytes into chunks
  give the same frames, or the decoder rejects both.\<close>

theorem chunking_irrelevant:
  assumes "new_FrameDecoder options = Inr d" and "concat chunks = concat chunks'"
  shows "map_option snd (frames.feed_all d chunks) = map_option snd (frames.feed_all d chunks')"
  using new_decoder_inv [OF assms(1)]
  by (intro frames.chunks_irrelevant [OF _ assms(2)]) (auto simp: limited_inv_def)

theorem chunking_irrelevant_witness:
  "\<exists>d. map_option snd (frames.feed_all d [[0, 0], [0, 1, 9]])
        = map_option snd (frames.feed_all d [[0], [0, 0, 1], [9]])"
proof -
  obtain d where d: "new_FrameDecoder None = Inr d"
    by (simp add: new_FrameDecoder_def resolveMaxFrameLength_def DEFAULT_MAX_FRAME_LENGTH_def
        FRAME_MAX_UINT32_def)
  show ?thesis
    using chunking_irrelevant [OF d, of "[[0, 0], [0, 1, 9]]" "[[0], [0, 0, 1], [9]]"] by auto
qed

text \<open>An error is final and leaks no buffered bytes: once an open decoder's \<open>push\<close> has failed,
  its buffers are empty and every later \<open>push\<close> or \<open>end\<close> is rejected without changing it.\<close>

theorem failure_is_final:
  assumes "decoder_inv d" and "push d chunk = Some (d', Inl e)"
  shows "payloadBlocks d' = [] \<and> headerLength d' = 0 \<and>
         push d' later = Some (d', Inl DecoderHasFailed) \<and> end_stream d' = (d', Inl DecoderHasFailed)"
proof -
  have "drained d'"
    using push_meets_spec [OF assms(1), of chunk] assms(2)
    by (auto simp: push_meets_def split: prod.splits stream_end.splits)
  then show ?thesis by (simp add: drained_def push_def end_stream_def)
qed

theorem failure_is_final_witness:
  "\<exists>d d'. push d [0, 0, 1, 0] = Some (d', Inl (FrameTooLong 256 8)) \<and>
     push d' [1] = Some (d', Inl DecoderHasFailed)"
proof -
  obtain d where d: "new_FrameDecoder (Some 8) = Inr d" "maxFrameLength d = 8"
    by (simp add: new_FrameDecoder_def resolveMaxFrameLength_def FRAME_MAX_UINT32_def)
  note inv = new_decoder_inv [OF d(1)]
  have "split_frames 8 [0, 0, 1, 0] = ([], Oversized 256)"
    by (simp add: split_frames.simps be32_def numeral_3_eq_3)
  then obtain d' where "push d [0, 0, 1, 0] = Some (d', Inl (FrameTooLong 256 8))"
    using push_meets_spec [of d "[0, 0, 1, 0]"] inv d(2) by (auto simp: push_meets_def)
  then show ?thesis using failure_is_final [of d "[0, 0, 1, 0]" d' _ "[1]"] inv by blast
qed

end
