(* ===== verification/Utf8.thy ===== *)
theory Utf8
  imports Prelude
begin

text \<open>
  The two standard encodings the CBOR codec calls: \<open>TextEncoder\<close> (UTF-16 to UTF-8, a lone
  surrogate becoming U+FFFD) and \<open>TextDecoder\<close> with \<open>fatal\<close> and \<open>ignoreBOM\<close> (\<open>None\<close> where it
  throws).
\<close>

definition high_surrogate :: "nat \<Rightarrow> bool" where
  "high_surrogate u \<longleftrightarrow> 0xD800 \<le> u \<and> u \<le> 0xDBFF"

definition low_surrogate :: "nat \<Rightarrow> bool" where
  "low_surrogate u \<longleftrightarrow> 0xDC00 \<le> u \<and> u \<le> 0xDFFF"

fun scalars :: "jstr \<Rightarrow> nat list" where
  "scalars [] = []"
| "scalars [u] = [if high_surrogate u \<or> low_surrogate u then 0xFFFD else u]"
| "scalars (u # v # s) =
     (if high_surrogate u \<and> low_surrogate v
      then (0x10000 + (u - 0xD800) * 0x400 + (v - 0xDC00)) # scalars s
      else (if high_surrogate u \<or> low_surrogate u then 0xFFFD else u) # scalars (v # s))"

definition utf8_scalar :: "nat \<Rightarrow> nat list" where
  "utf8_scalar c =
     (if c < 0x80 then [c]
      else if c < 0x800 then [0xC0 + c div 64, 0x80 + c mod 64]
      else if c < 0x10000 then [0xE0 + c div 4096, 0x80 + c div 64 mod 64, 0x80 + c mod 64]
      else [0xF0 + c div 262144, 0x80 + c div 4096 mod 64, 0x80 + c div 64 mod 64, 0x80 + c mod 64])"

definition utf8_encode :: "jstr \<Rightarrow> byte list" where
  "utf8_encode s = map word_of_nat (concat (map utf8_scalar (scalars s)))"

definition continuation :: "nat \<Rightarrow> bool" where
  "continuation b \<longleftrightarrow> 0x80 \<le> b \<and> b < 0xC0"

text \<open>One scalar value from the front of the bytes; overlong forms, surrogates and values above
  U+10FFFF are errors.\<close>

fun utf8_next :: "nat list \<Rightarrow> (nat \<times> nat list) option" where
  "utf8_next [] = None"
| "utf8_next (a # bs) =
     (if a < 0x80 then Some (a, bs)
      else if 0xC0 \<le> a \<and> a < 0xE0 then
        (case bs of b # rest \<Rightarrow>
           let c = (a - 0xC0) * 64 + (b - 0x80)
           in if continuation b \<and> 0x80 \<le> c then Some (c, rest) else None
         | _ \<Rightarrow> None)
      else if 0xE0 \<le> a \<and> a < 0xF0 then
        (case bs of b # b' # rest \<Rightarrow>
           let c = (a - 0xE0) * 4096 + (b - 0x80) * 64 + (b' - 0x80)
           in if continuation b \<and> continuation b' \<and> 0x800 \<le> c \<and> \<not> high_surrogate c \<and> \<not> low_surrogate c
              then Some (c, rest) else None
         | _ \<Rightarrow> None)
      else if 0xF0 \<le> a \<and> a < 0xF8 then
        (case bs of b # b' # b'' # rest \<Rightarrow>
           let c = (a - 0xF0) * 262144 + (b - 0x80) * 4096 + (b' - 0x80) * 64 + (b'' - 0x80)
           in if continuation b \<and> continuation b' \<and> continuation b'' \<and> 0x10000 \<le> c \<and> c \<le> 0x10FFFF
              then Some (c, rest) else None
         | _ \<Rightarrow> None)
      else None)"

lemma utf8_next_shorter: "utf8_next bs = Some (c, rest) \<Longrightarrow> length rest < length bs"
  by (cases bs) (auto simp: Let_def split: if_splits list.splits)

function utf8_scalars :: "nat list \<Rightarrow> (nat list) option" where
  "utf8_scalars bs =
     (if bs = [] then Some []
      else case utf8_next bs of None \<Rightarrow> None
       | Some (c, rest) \<Rightarrow> map_option (\<lambda>cs. c # cs) (utf8_scalars rest))"
  by pat_completeness auto
termination
  by (relation "measure length") (auto dest: utf8_next_shorter)

declare utf8_scalars.simps [simp del]

definition utf16_units :: "nat \<Rightarrow> nat list" where
  "utf16_units c =
     (if c < 0x10000 then [c]
      else [0xD800 + (c - 0x10000) div 0x400, 0xDC00 + (c - 0x10000) mod 0x400])"

definition utf8_decode :: "byte list \<Rightarrow> jstr option" where
  "utf8_decode bs = map_option (\<lambda>cs. concat (map utf16_units cs)) (utf8_scalars (map unat bs))"

section \<open>Well-formed strings survive\<close>

fun well_formed :: "jstr \<Rightarrow> bool" where
  "well_formed [] \<longleftrightarrow> True"
| "well_formed [u] \<longleftrightarrow> \<not> high_surrogate u \<and> \<not> low_surrogate u"
| "well_formed (u # v # s) \<longleftrightarrow>
     (if high_surrogate u then low_surrogate v \<and> well_formed s
      else \<not> low_surrogate u \<and> well_formed (v # s))"

definition scalar_value :: "nat \<Rightarrow> bool" where
  "scalar_value c \<longleftrightarrow> c \<le> 0x10FFFF \<and> \<not> high_surrogate c \<and> \<not> low_surrogate c"

lemma surrogate_values:
  "high_surrogate u \<Longrightarrow> low_surrogate v \<Longrightarrow>
   scalar_value (0x10000 + (u - 0xD800) * 0x400 + (v - 0xDC00))"
  by (auto simp: scalar_value_def high_surrogate_def low_surrogate_def)

lemma scalars_values: "\<forall>u\<in>set s. u < 0x10000 \<Longrightarrow> \<forall>c\<in>set (scalars s). scalar_value c"
  by (induction s rule: scalars.induct)
    (auto simp: surrogate_values, auto simp: scalar_value_def high_surrogate_def low_surrogate_def)

lemma units_scalars: "\<forall>u\<in>set s. u < 0x10000 \<Longrightarrow>
    concat (map utf16_units (scalars s)) = s \<longleftrightarrow> well_formed s"
proof (induction s rule: scalars.induct)
  case (3 u v s)
  have pair: "utf16_units (0x10000 + (u - 0xD800) * 0x400 + (v - 0xDC00)) = [u, v]"
    if hs: "high_surrogate u" and ls: "low_surrogate v"
  proof -
    obtain a b where ab: "u = 0xD800 + a" "v = 0xDC00 + b" "b < 0x400"
    proof (rule that [rule_format])
      show "u = 0xD800 + (u - 0xD800)" "v = 0xDC00 + (v - 0xDC00)" "v - 0xDC00 < 0x400"
        using hs ls by (auto simp: high_surrogate_def low_surrogate_def)
    qed
    then have "(a * 0x400 + b) div 0x400 = a" "(a * 0x400 + b) mod 0x400 = b" by simp_all
    then show ?thesis using ab(1,2) by (simp add: utf16_units_def add.assoc)
  qed
  show ?case
    using 3 pair
    by (auto simp: utf16_units_def high_surrogate_def low_surrogate_def)
qed (auto simp: utf16_units_def high_surrogate_def low_surrogate_def)

lemma utf8_next_2:
  assumes "y < 64" and "a < 32" and "c = a * 64 + y" and "0x80 \<le> c"
  shows "utf8_next ((0xC0 + a) # (0x80 + y) # rest) = Some (c, rest)"
  using assms by (simp add: continuation_def Let_def)

lemma utf8_next_3:
  assumes "y < 64" and "x < 64" and "a < 16" and "c = a * 4096 + x * 64 + y" and "0x800 \<le> c"
    and "\<not> high_surrogate c" and "\<not> low_surrogate c"
  shows "utf8_next ((0xE0 + a) # (0x80 + x) # (0x80 + y) # rest) = Some (c, rest)"
  using assms by (simp add: continuation_def Let_def)

lemma utf8_next_4:
  assumes "y < 64" and "x < 64" and "z < 64" and "a < 8"
    and "c = a * 262144 + z * 4096 + x * 64 + y" and "0x10000 \<le> c" and "c \<le> 0x10FFFF"
  shows "utf8_next ((0xF0 + a) # (0x80 + z) # (0x80 + x) # (0x80 + y) # rest) = Some (c, rest)"
  using assms by (simp add: continuation_def Let_def)

lemma base64_digits:
  fixes c :: nat
  shows "c = c div 64 * 64 + c mod 64"
    and "c = c div 4096 * 4096 + c div 64 mod 64 * 64 + c mod 64"
    and "c = c div 262144 * 262144 + c div 4096 mod 64 * 4096 + c div 64 mod 64 * 64 + c mod 64"
proof -
  let ?q = "c div 64" let ?r = "c div 64 div 64" let ?t = "c div 64 div 64 div 64"
  have q: "?q * 64 + c mod 64 = c" and r: "?r * 64 + ?q mod 64 = ?q" and t: "?t * 64 + ?r mod 64 = ?r"
    by simp_all
  have eq: "c div 4096 = ?r" "c div 262144 = ?t" by (simp_all add: div_mult2_eq [symmetric])
  show "c = c div 64 * 64 + c mod 64" using q by simp
  show "c = c div 4096 * 4096 + c div 64 mod 64 * 64 + c mod 64" unfolding eq using q r by linarith
  show "c = c div 262144 * 262144 + c div 4096 mod 64 * 4096 + c div 64 mod 64 * 64 + c mod 64"
    unfolding eq using q r t by linarith
qed

lemma utf8_next_scalar:
  assumes "scalar_value c"
  shows "utf8_next (utf8_scalar c @ rest) = Some (c, rest)"
proof -
  consider "c < 0x80" | "0x80 \<le> c" "c < 0x800" | "0x800 \<le> c" "c < 0x10000" | "0x10000 \<le> c" by linarith
  then show ?thesis
  proof cases
    case 2
    then have "utf8_scalar c = [0xC0 + c div 64, 0x80 + c mod 64]" by (simp add: utf8_scalar_def)
    moreover have "c div 64 < 32" using 2 by linarith
    ultimately show ?thesis using utf8_next_2 [OF _ _ base64_digits(1)] 2 by simp
  next
    case 3
    then have "utf8_scalar c = [0xE0 + c div 4096, 0x80 + c div 64 mod 64, 0x80 + c mod 64]"
      by (simp add: utf8_scalar_def)
    moreover have "c div 4096 < 16" using 3 by linarith
    ultimately show ?thesis
      using utf8_next_3 [OF _ _ _ base64_digits(2)] 3 assms by (simp add: scalar_value_def)
  next
    case 4
    then have "utf8_scalar c = [0xF0 + c div 262144, 0x80 + c div 4096 mod 64, 0x80 + c div 64 mod 64, 0x80 + c mod 64]"
      by (simp add: utf8_scalar_def)
    moreover have "c div 262144 < 8" using assms unfolding scalar_value_def by linarith
    ultimately show ?thesis
      using utf8_next_4 [OF _ _ _ _ base64_digits(3)] 4 assms by (simp add: scalar_value_def)
  qed (simp add: utf8_scalar_def)
qed

lemma utf8_scalar_bytes: "c \<le> 0x10FFFF \<Longrightarrow> b \<in> set (utf8_scalar c) \<Longrightarrow> b < 256"
  by (auto simp: utf8_scalar_def split: if_splits)

lemma utf8_scalars_concat:
  "\<forall>c\<in>set cs. scalar_value c \<Longrightarrow> utf8_scalars (concat (map utf8_scalar cs)) = Some cs"
proof (induction cs)
  case (Cons c cs)
  have "utf8_scalar c \<noteq> []" by (simp add: utf8_scalar_def)
  with Cons show ?case
    by (subst utf8_scalars.simps) (simp add: utf8_next_scalar)
qed (simp add: utf8_scalars.simps)

lemma utf8_decode_encode:
  assumes "\<forall>u\<in>set s. u < 0x10000"
  shows "utf8_decode (utf8_encode s) = Some s \<longleftrightarrow> well_formed s"
proof -
  have "map unat (utf8_encode s) = concat (map utf8_scalar (scalars s))"
    unfolding utf8_encode_def map_map
    using scalars_values [OF assms] utf8_scalar_bytes
    by (intro map_idI) (fastforce simp: scalar_value_def)
  then show ?thesis
    using utf8_scalars_concat [OF scalars_values [OF assms]] units_scalars [OF assms]
    by (simp add: utf8_decode_def)
qed

end
