(* ===== verification/Cbor.thy ===== *)
theory Cbor
  imports Utf8
begin

text \<open>
  The strict CBOR subset of \<open>packages/protocol/src/cbor\<close>: the resolved limits (\<open>options.ts\<close>), the
  growing writer and the encoder (\<open>encoder.ts\<close>) and the reader (\<open>decoder.ts\<close>). The encoder reads a
  graph of JavaScript objects, which may be shared or cyclic: references into a heap, with the set
  of ancestors it keeps. Numbers are IEEE doubles, given by their 64 bits. What the decoder
  returns is a finite tree; an object is the list of its properties in the order they are defined.
\<close>

section \<open>Options and errors\<close>

definition UINT32_BASE :: nat where "UINT32_BASE = 0x100000000"
definition CBOR_MAX_UINT32 :: nat where "CBOR_MAX_UINT32 = 0xffffffff"
definition MAX_CONFIGURED_DEPTH :: nat where "MAX_CONFIGURED_DEPTH = 512"
definition DEFAULT_MAX_CBOR_BYTE_LENGTH :: nat where "DEFAULT_MAX_CBOR_BYTE_LENGTH = 16 * 1024 * 1024"
definition DEFAULT_MAX_CBOR_CONTAINER_LENGTH :: nat where "DEFAULT_MAX_CBOR_CONTAINER_LENGTH = 1000000"
definition DEFAULT_MAX_CBOR_DEPTH :: nat where "DEFAULT_MAX_CBOR_DEPTH = 64"
definition MAX_SAFE_INTEGER :: int where "MAX_SAFE_INTEGER = 2 ^ 53 - 1"

datatype length_kind = ByteString | TextString | ArrayLength | MapLength

datatype cbor_error =
    LimitOutOfRange jstr nat
  | ByteLimit nat
  | LengthLimit length_kind nat
  | DepthLimit nat
  | NotFinite
  | UnsafeInteger
  | NotScalarText
  | Cyclic
  | HoleOrUndefined
  | KeyNotString
  | DuplicateKey
  | UnsupportedValue
  | TrailingData
  | Truncated
  | InvalidUtf8
  | TagNotSupported
  | BreakNotSupported
  | UnsupportedSimple
  | IndefiniteLength length_kind
  | IndefiniteItem
  | MalformedInformation
  | MalformedMajorType

record cbor_options =
  maxByteLength :: "int option"
  maxContainerLength :: "int option"
  maxDepth :: "int option"

record resolved_options =
  byteLimit :: nat
  containerLimit :: nat
  depthLimit :: nat

definition resolveLimit :: "jstr \<Rightarrow> int \<Rightarrow> nat \<Rightarrow> cbor_error + nat" where
  "resolveLimit name v maximum =
     (if v < 0 \<or> v > int maximum then Inl (LimitOutOfRange name maximum) else Inr (nat v))"

definition or_default :: "int option \<Rightarrow> nat \<Rightarrow> int" where
  "or_default v d = (case v of None \<Rightarrow> int d | Some x \<Rightarrow> x)"

definition resolveOptions :: "cbor_options \<Rightarrow> cbor_error + resolved_options" where
  "resolveOptions options =
     (case resolveLimit (js ''maxByteLength'')
             (or_default (maxByteLength options) DEFAULT_MAX_CBOR_BYTE_LENGTH) CBOR_MAX_UINT32 of
        Inl e \<Rightarrow> Inl e
      | Inr b \<Rightarrow>
        (case resolveLimit (js ''maxContainerLength'')
                (or_default (maxContainerLength options) DEFAULT_MAX_CBOR_CONTAINER_LENGTH) CBOR_MAX_UINT32 of
           Inl e \<Rightarrow> Inl e
         | Inr c \<Rightarrow>
           (case resolveLimit (js ''maxDepth'')
                   (or_default (maxDepth options) DEFAULT_MAX_CBOR_DEPTH) MAX_CONFIGURED_DEPTH of
              Inl e \<Rightarrow> Inl e
            | Inr d \<Rightarrow> Inr \<lparr>byteLimit = b, containerLimit = c, depthLimit = d\<rparr>)))"

section \<open>Numbers\<close>

text \<open>A double is an integer other than \<open>-0\<close>, or something else that only its bits describe.\<close>

datatype jsnum = JInt int | JOther "64 word"

definition exponent_bits :: "64 word \<Rightarrow> nat" where
  "exponent_bits b = unat b div 2 ^ 52 mod 2 ^ 11"

definition mantissa_bits :: "64 word \<Rightarrow> nat" where
  "mantissa_bits b = unat b mod 2 ^ 52"

definition sign_bit :: "64 word \<Rightarrow> bool" where
  "sign_bit b \<longleftrightarrow> 2 ^ 63 \<le> unat b"

definition is_finite :: "64 word \<Rightarrow> bool" where
  "is_finite b \<longleftrightarrow> exponent_bits b \<noteq> 2047"

definition magnitude :: "64 word \<Rightarrow> nat option" where
  "magnitude b =
     (let e = exponent_bits b; m = mantissa_bits b; sig = 2 ^ 52 + m
      in if e = 2047 then None
         else if e = 0 then (if m = 0 then Some 0 else None)
         else if e \<ge> 1075 then Some (sig * 2 ^ (e - 1075))
         else if sig mod 2 ^ (1075 - e) = 0 then Some (sig div 2 ^ (1075 - e))
         else None)"

definition number_of_bits :: "64 word \<Rightarrow> jsnum" where
  "number_of_bits b =
     (case magnitude b of
        None \<Rightarrow> JOther b
      | Some n \<Rightarrow> if sign_bit b then (if n = 0 then JOther b else JInt (- int n)) else JInt (int n))"

definition is_safe :: "int \<Rightarrow> bool" where
  "is_safe i \<longleftrightarrow> \<bar>i\<bar> \<le> MAX_SAFE_INTEGER"

section \<open>The writer\<close>

record cbor_writer =
  wbuffer :: "byte list"
  woffset :: nat
  wlimit :: nat

definition new_CborWriter :: "nat \<Rightarrow> cbor_writer" where
  "new_CborWriter limit = \<lparr>wbuffer = zeros (min 256 limit), woffset = 0, wlimit = limit\<rparr>"

text \<open>\<open>while (capacity < required) capacity = ...\<close>\<close>

partial_function (option) grow_capacity :: "nat \<Rightarrow> nat \<Rightarrow> nat \<Rightarrow> nat option" where
  "grow_capacity limit required capacity =
     (if capacity < required
      then grow_capacity limit required (min limit (max required (capacity * 2)))
      else Some capacity)"

definition ensureCapacity :: "nat \<Rightarrow> cbor_writer \<Rightarrow> (cbor_error + cbor_writer) option" where
  "ensureCapacity additional w =
     (let required = woffset w + additional in
      if required > wlimit w then throw (ByteLimit (wlimit w))
      else if required \<le> length (wbuffer w) then return w
      else Option.bind (grow_capacity (wlimit w) required (max 1 (length (wbuffer w))))
             (\<lambda>capacity. return (w\<lparr>wbuffer := array_set (zeros capacity) (wbuffer w) 0\<rparr>)))"

definition put_bytes :: "byte list \<Rightarrow> cbor_writer \<Rightarrow> cbor_writer" where
  "put_bytes bs w = w\<lparr>wbuffer := array_set (wbuffer w) bs (woffset w), woffset := woffset w + length bs\<rparr>"

definition writeBytes :: "byte list \<Rightarrow> cbor_writer \<Rightarrow> (cbor_error + cbor_writer) option" where
  "writeBytes bs w = run_next (ensureCapacity (length bs) w) (\<lambda>w. return (put_bytes bs w))"

definition writeByte :: "nat \<Rightarrow> cbor_writer \<Rightarrow> (cbor_error + cbor_writer) option" where
  "writeByte v w = run_next (ensureCapacity 1 w) (\<lambda>w. return (put_bytes [word_of_nat v] w))"

definition writeUint16 :: "nat \<Rightarrow> cbor_writer \<Rightarrow> (cbor_error + cbor_writer) option" where
  "writeUint16 v w =
     run_next (ensureCapacity 2 w) (\<lambda>w. return (put_bytes [word_of_nat (v div 2 ^ 8), word_of_nat v] w))"

definition writeUint32 :: "nat \<Rightarrow> cbor_writer \<Rightarrow> (cbor_error + cbor_writer) option" where
  "writeUint32 v w = run_next (ensureCapacity 4 w) (\<lambda>w. return (put_bytes (put32 v) w))"

definition writeUint64 :: "nat \<Rightarrow> cbor_writer \<Rightarrow> (cbor_error + cbor_writer) option" where
  "writeUint64 v w =
     (let high = v div UINT32_BASE; low = v - high * UINT32_BASE
      in run_next (writeUint32 high w) (writeUint32 low))"

definition float64_bytes :: "64 word \<Rightarrow> byte list" where
  "float64_bytes b = put32 (unat b div 2 ^ 32) @ put32 (unat b mod 2 ^ 32)"

definition writeFloat64 :: "64 word \<Rightarrow> cbor_writer \<Rightarrow> (cbor_error + cbor_writer) option" where
  "writeFloat64 b w =
     run_next (ensureCapacity 9 w) (\<lambda>w. return (put_bytes (0xfb # float64_bytes b) w))"

definition finish :: "cbor_writer \<Rightarrow> byte list" where
  "finish w = slice (wbuffer w) 0 (woffset w)"

text \<open>\<open>(majorType << 5) | low\<close> for \<open>low < 32\<close>.\<close>

definition initial_byte :: "nat \<Rightarrow> nat \<Rightarrow> nat" where
  "initial_byte major low = major * 32 + low"

definition writeArgument :: "nat \<Rightarrow> nat \<Rightarrow> cbor_writer \<Rightarrow> (cbor_error + cbor_writer) option" where
  "writeArgument major v w =
     (if v < 24 then writeByte (initial_byte major v) w
      else if v \<le> 0xff then run_next (writeByte (initial_byte major 24) w) (writeByte v)
      else if v \<le> 0xffff then run_next (writeByte (initial_byte major 25) w) (writeUint16 v)
      else if v \<le> CBOR_MAX_UINT32 then run_next (writeByte (initial_byte major 26) w) (writeUint32 v)
      else run_next (writeByte (initial_byte major 27) w) (writeUint64 v))"

section \<open>The encoder\<close>

text \<open>An array element is absent in a hole. A plain object tells whether its prototype is null, whether
  it has an enumerable symbol key, and its own enumerable string keys. \<open>OOther\<close> is an instance of some other class.\<close>

datatype jsval =
    VUndefined
  | VNull
  | VBool bool
  | VNum "64 word"
  | VText jstr
  | VRef nat
  | VOther          \<comment> \<open>function, symbol, bigint\<close>

datatype jsobj =
    OBytes "byte list"
  | OArray "jsval option list"
  | OMap bool bool "(jstr \<times> jsval) list"
  | OOther

type_synonym heap = "nat \<Rightarrow> jsobj"

definition encodeText ::
  "resolved_options \<Rightarrow> jstr \<Rightarrow> cbor_writer \<Rightarrow> (cbor_error + cbor_writer) option" where
  "encodeText options v w =
     (let bytes = utf8_encode v in
      if length bytes > byteLimit options then throw (LengthLimit TextString (byteLimit options))
      else if utf8_decode bytes \<noteq> Some v then throw NotScalarText
      else run_next (writeArgument 3 (length bytes) w) (writeBytes bytes))"

definition encodeNumber :: "64 word \<Rightarrow> cbor_writer \<Rightarrow> (cbor_error + cbor_writer) option" where
  "encodeNumber b w =
     (if \<not> is_finite b then throw NotFinite
      else case number_of_bits b of
        JInt i \<Rightarrow>
          if \<not> is_safe i then throw UnsafeInteger
          else if i \<ge> 0 then writeArgument 0 (nat i) w
          else writeArgument 1 (nat (-1 - i)) w
      | JOther b \<Rightarrow> writeFloat64 b w)"

fun write_all ::
  "('x \<Rightarrow> cbor_writer \<Rightarrow> (cbor_error + cbor_writer) option) \<Rightarrow> 'x list \<Rightarrow> cbor_writer
     \<Rightarrow> (cbor_error + cbor_writer) option" where
  "write_all f [] w = return w"
| "write_all f (x # xs) w = run_next (f x w) (write_all f xs)"

lemma write_all_cong [fundef_cong]:
  "xs = ys \<Longrightarrow> w = v \<Longrightarrow> (\<And>x u. x \<in> set ys \<Longrightarrow> f x u = g x u) \<Longrightarrow> write_all f xs w = write_all g ys v"
proof (induction ys arbitrary: xs w v)
  case (Cons y ys)
  then have "write_all f ys = write_all g ys" by (intro ext) simp
  with Cons show ?case by simp
qed simp

definition map_entries :: "(jstr \<times> jsval) list \<Rightarrow> (jstr \<times> jsval) list" where
  "map_entries props = filter (\<lambda>(k, v). v \<noteq> VUndefined) props"

function encodeValue ::
  "heap \<Rightarrow> resolved_options \<Rightarrow> nat \<Rightarrow> nat set \<Rightarrow> jsval \<Rightarrow> cbor_writer \<Rightarrow> (cbor_error + cbor_writer) option" where
  "encodeValue heap options depth ancestors v w =
     (if depth > depthLimit options then throw (DepthLimit (depthLimit options))
      else case v of
        VNull \<Rightarrow> writeByte 0xf6 w
      | VBool b \<Rightarrow> writeByte (if b then 0xf5 else 0xf4) w
      | VNum n \<Rightarrow> encodeNumber n w
      | VText s \<Rightarrow> encodeText options s w
      | VRef r \<Rightarrow>
          (case heap r of
             OBytes bs \<Rightarrow>
               if length bs > byteLimit options then throw (LengthLimit ByteString (byteLimit options))
               else run_next (writeArgument 2 (length bs) w) (writeBytes bs)
           | OArray xs \<Rightarrow>
               if r \<in> ancestors then throw Cyclic
               else if length xs > containerLimit options
               then throw (LengthLimit ArrayLength (containerLimit options))
               else run_next (writeArgument 4 (length xs) w)
                 (write_all (\<lambda>x w.
                    case x of
                      None \<Rightarrow> throw HoleOrUndefined
                    | Some y \<Rightarrow>
                        if y = VUndefined then throw HoleOrUndefined
                        else encodeValue heap options (depth + 1) (insert r ancestors) y w) xs)
           | OMap nullPrototype symbolKey props \<Rightarrow>
               if r \<in> ancestors then throw Cyclic
               else if symbolKey then throw KeyNotString
               else let entries = map_entries props
                 in if length entries > containerLimit options
                    then throw (LengthLimit MapLength (containerLimit options))
                    else run_next (writeArgument 5 (length entries) w)
                      (write_all (\<lambda>(k, y) w.
                         run_next (encodeText options k w)
                           (encodeValue heap options (depth + 1) (insert r ancestors) y)) entries)
           | OOther \<Rightarrow> throw UnsupportedValue)
      | _ \<Rightarrow> throw UnsupportedValue)"
  by pat_completeness auto
termination
  by (relation "measure (\<lambda>(heap, options, depth, rest). Suc (depthLimit options) - depth)") auto

declare encodeValue.simps [simp del]

definition encodeCbor :: "heap \<Rightarrow> jsval \<Rightarrow> cbor_options \<Rightarrow> (cbor_error + byte list) option" where
  "encodeCbor heap v options =
     (case resolveOptions options of
        Inl e \<Rightarrow> throw e
      | Inr resolved \<Rightarrow>
          run_next (encodeValue heap resolved 0 {} v (new_CborWriter (byteLimit resolved)))
            (\<lambda>w. return (finish w)))"

section \<open>The reader\<close>

text \<open>The reader's state is its offset. An exception unwinds to \<open>decodeCbor\<close>, so nothing reads the
  offset after one.\<close>

datatype dval =
    DNull
  | DBool bool
  | DNum jsnum
  | DText jstr
  | DBytes "byte list"
  | DArr "dval list"
  | DMap "(jstr \<times> dval) list"

type_synonym 'a read_result = "cbor_error + 'a \<times> nat"

definition read_next :: "'a read_result \<Rightarrow> ('a \<Rightarrow> nat \<Rightarrow> 'b read_result) \<Rightarrow> 'b read_result" where
  "read_next r f = (case r of Inl e \<Rightarrow> Inl e | Inr (x, off) \<Rightarrow> f x off)"

lemma read_next_simps [simp]:
  "read_next (Inl e) f = Inl e" "read_next (Inr (x, off)) f = f x off"
  by (simp_all add: read_next_def)

lemma read_next_cong [fundef_cong]:
  "r = r' \<Longrightarrow> (\<And>x off. r' = Inr (x, off) \<Longrightarrow> f x off = g x off) \<Longrightarrow> read_next r f = read_next r' g"
  by (auto simp: read_next_def split: sum.splits)

definition readByte :: "byte list \<Rightarrow> nat \<Rightarrow> nat read_result" where
  "readByte bytes off =
     (if off \<ge> length bytes then Inl Truncated else Inr (unat (bytes ! off), off + 1))"

definition readBytes :: "byte list \<Rightarrow> nat \<Rightarrow> nat \<Rightarrow> (byte list) read_result" where
  "readBytes bytes n off =
     (if n > length bytes - off then Inl Truncated
      else Inr (subarray bytes off (off + n), off + n))"

definition read16 :: "byte list \<Rightarrow> nat \<Rightarrow> nat read_result" where
  "read16 bytes off =
     read_next (readBytes bytes 2 off) (\<lambda>b off. Inr (unat (b ! 0) * 0x100 + unat (b ! 1), off))"

definition read32 :: "byte list \<Rightarrow> nat \<Rightarrow> nat read_result" where
  "read32 bytes off = read_next (readBytes bytes 4 off) (\<lambda>b off. Inr (be32 b, off))"

definition readArgument :: "byte list \<Rightarrow> nat \<Rightarrow> nat \<Rightarrow> nat read_result" where
  "readArgument bytes info off =
     (if info < 24 then Inr (info, off)
      else if info = 24 then readByte bytes off
      else if info = 25 then read16 bytes off
      else if info = 26 then read32 bytes off
      else if info = 27 then
        read_next (read32 bytes off) (\<lambda>high off.
          read_next (read32 bytes off) (\<lambda>low off.
            if high > 0x1fffff then Inl UnsafeInteger else Inr (high * UINT32_BASE + low, off)))
      else if info = 31 then Inl IndefiniteItem
      else Inl MalformedInformation)"

definition readLength :: "byte list \<Rightarrow> nat \<Rightarrow> length_kind \<Rightarrow> nat \<Rightarrow> nat \<Rightarrow> nat read_result" where
  "readLength bytes info kind limit off =
     (if info = 31 then Inl (IndefiniteLength kind)
      else read_next (readArgument bytes info off) (\<lambda>n off.
        if n > limit then Inl (LengthLimit kind limit) else Inr (n, off)))"

definition getFloat64 :: "byte list \<Rightarrow> 64 word" where
  "getFloat64 bs = word_of_nat (be32 (take 4 bs) * 2 ^ 32 + be32 (drop 4 bs))"

definition readSimple :: "byte list \<Rightarrow> nat \<Rightarrow> nat \<Rightarrow> dval read_result" where
  "readSimple bytes info off =
     (if info = 20 then Inr (DBool False, off)
      else if info = 21 then Inr (DBool True, off)
      else if info = 22 then Inr (DNull, off)
      else if info = 27 then
        read_next (readBytes bytes 8 off) (\<lambda>bs off.
          let b = getFloat64 bs in
          if \<not> is_finite b then Inl NotFinite
          else case number_of_bits b of
                 JInt i \<Rightarrow> if \<not> is_safe i then Inl UnsafeInteger else Inr (DNum (JInt i), off)
               | JOther b \<Rightarrow> Inr (DNum (JOther b), off))
      else if info = 31 then Inl BreakNotSupported
      else Inl UnsupportedSimple)"

text \<open>The two counted loops of \<open>readItem\<close>. The result object of a map and its set of keys are
  filled together.\<close>

fun read_items :: "(nat \<Rightarrow> dval read_result) \<Rightarrow> nat \<Rightarrow> dval list \<Rightarrow> nat \<Rightarrow> (dval list) read_result" where
  "read_items item 0 result off = Inr (result, off)"
| "read_items item (Suc n) result off =
     read_next (item off) (\<lambda>x off. read_items item n (result @ [x]) off)"

fun read_entries ::
  "(nat \<Rightarrow> dval read_result) \<Rightarrow> nat \<Rightarrow> (jstr \<times> dval) list \<Rightarrow> nat \<Rightarrow> ((jstr \<times> dval) list) read_result" where
  "read_entries item 0 result off = Inr (result, off)"
| "read_entries item (Suc n) result off =
     read_next (item off) (\<lambda>key off.
       case key of
         DText k \<Rightarrow>
           if k \<in> fst ` set result then Inl DuplicateKey
           else read_next (item off) (\<lambda>x off. read_entries item n (result @ [(k, x)]) off)
       | _ \<Rightarrow> Inl KeyNotString)"

lemma read_items_cong [fundef_cong]:
  "n = m \<Longrightarrow> xs = ys \<Longrightarrow> off = off' \<Longrightarrow> (\<And>u. f u = g u) \<Longrightarrow>
   read_items f n xs off = read_items g m ys off'"
  by (metis ext)

lemma read_entries_cong [fundef_cong]:
  "n = m \<Longrightarrow> xs = ys \<Longrightarrow> off = off' \<Longrightarrow> (\<And>u. f u = g u) \<Longrightarrow>
   read_entries f n xs off = read_entries g m ys off'"
  by (metis ext)

function readItem :: "byte list \<Rightarrow> resolved_options \<Rightarrow> nat \<Rightarrow> nat \<Rightarrow> dval read_result" where
  "readItem bytes options depth off =
     (if depth > depthLimit options then Inl (DepthLimit (depthLimit options))
      else read_next (readByte bytes off) (\<lambda>initial off.
        let majorType = initial div 32; info = initial mod 32 in
        if majorType = 0 then read_next (readArgument bytes info off) (\<lambda>n off. Inr (DNum (JInt (int n)), off))
        else if majorType = 1 then
          read_next (readArgument bytes info off) (\<lambda>n off.
            let v = -1 - int n in if \<not> is_safe v then Inl UnsafeInteger else Inr (DNum (JInt v), off))
        else if majorType = 2 then
          read_next (readLength bytes info ByteString (byteLimit options) off) (\<lambda>n off.
            read_next (readBytes bytes n off) (\<lambda>bs off. Inr (DBytes bs, off)))
        else if majorType = 3 then
          read_next (readLength bytes info TextString (byteLimit options) off) (\<lambda>n off.
            read_next (readBytes bytes n off) (\<lambda>bs off.
              case utf8_decode bs of Some s \<Rightarrow> Inr (DText s, off) | None \<Rightarrow> Inl InvalidUtf8))
        else if majorType = 4 then
          read_next (readLength bytes info ArrayLength (containerLimit options) off) (\<lambda>n off.
            read_next (read_items (readItem bytes options (depth + 1)) n [] off) (\<lambda>xs off. Inr (DArr xs, off)))
        else if majorType = 5 then
          read_next (readLength bytes info MapLength (containerLimit options) off) (\<lambda>n off.
            read_next (read_entries (readItem bytes options (depth + 1)) n [] off) (\<lambda>xs off. Inr (DMap xs, off)))
        else if majorType = 6 then Inl TagNotSupported
        else if majorType = 7 then readSimple bytes info off
        else Inl MalformedMajorType))"
  by pat_completeness auto
termination
  by (relation "measure (\<lambda>(bytes, options, depth, off). Suc (depthLimit options) - depth)") auto

declare readItem.simps [simp del]

definition decodeCbor :: "byte list \<Rightarrow> cbor_options \<Rightarrow> cbor_error + dval" where
  "decodeCbor bytes options =
     (case resolveOptions options of
        Inl e \<Rightarrow> Inl e
      | Inr resolved \<Rightarrow>
          if length bytes > byteLimit resolved then Inl (ByteLimit (byteLimit resolved))
          else case readItem bytes resolved 0 0 of
                 Inl e \<Rightarrow> Inl e
               | Inr (v, off) \<Rightarrow> if off \<noteq> length bytes then Inl TrailingData else Inr v)"

end
