(* ===== verification/CborProps.thy ===== *)
theory CborProps
  imports Cbor
begin

text \<open>
  What the CBOR codec guarantees. The writer always returns and only appends, within its limit; what
  the encoder accepts is a finite tree, and the decoder reads that tree back from its bytes; what
  the decoder accepts is within the limits and holds safe numbers only.
\<close>

section \<open>The writer appends\<close>

definition writer_ok :: "cbor_writer \<Rightarrow> bool" where
  "writer_ok w \<longleftrightarrow> woffset w \<le> length (wbuffer w) \<and> length (wbuffer w) \<le> wlimit w"

definition written :: "cbor_writer \<Rightarrow> byte list" where
  "written w = take (woffset w) (wbuffer w)"

definition grown :: "cbor_writer \<Rightarrow> byte list \<Rightarrow> cbor_writer \<Rightarrow> bool" where
  "grown w bs w' \<longleftrightarrow> writer_ok w' \<and> written w' = written w @ bs \<and> wlimit w' = wlimit w"

text \<open>An operation returns, and when it does not throw it has appended bytes with property \<open>P\<close>.\<close>

definition produces ::
  "(cbor_writer \<Rightarrow> (cbor_error + cbor_writer) option) \<Rightarrow> (byte list \<Rightarrow> bool) \<Rightarrow> bool" where
  "produces f P \<longleftrightarrow> (\<forall>w. writer_ok w \<longrightarrow>
     f w \<noteq> None \<and> (\<forall>w'. f w = return w' \<longrightarrow> (\<exists>bs. P bs \<and> grown w bs w')))"

named_theorems produces_rules \<open>rules that compose what writer operations produce\<close>

lemma producesD:
  assumes "produces f P" and "writer_ok w"
  shows "f w \<noteq> None" and "f w = return w' \<Longrightarrow> \<exists>bs. P bs \<and> grown w bs w'"
  using assms by (auto simp: produces_def)

lemma produces_mono: "produces f P \<Longrightarrow> (\<And>bs. P bs \<Longrightarrow> Q bs) \<Longrightarrow> produces f Q"
  unfolding produces_def by blast

lemma produces_throw [produces_rules]: "produces (\<lambda>w. throw e) P"
  by (simp add: produces_def)

lemma produces_if: "(b \<Longrightarrow> produces f P) \<Longrightarrow> (\<not> b \<Longrightarrow> produces g P) \<Longrightarrow> produces (\<lambda>w. if b then f w else g w) P"
  by (cases b) (simp_all add: produces_def)

lemma produces_return: "produces return (\<lambda>bs. bs = [])"
  by (simp add: produces_def grown_def)

lemma grown_trans: "grown w a u \<Longrightarrow> grown u b v \<Longrightarrow> grown w (a @ b) v"
  by (simp add: grown_def)

lemma produces_run_next:
  assumes "produces f P" and "produces g Q"
  shows "produces (\<lambda>w. run_next (f w) g) (\<lambda>bs. \<exists>a b. bs = a @ b \<and> P a \<and> Q b)"
  unfolding produces_def
proof (intro allI impI conjI)
  fix w
  assume w: "writer_ok w"
  have g: "g u \<noteq> None" if "f w = return u" for u
    using producesD [OF assms(1) w] producesD(1) [OF assms(2)] that by (auto simp: grown_def)
  show "run_next (f w) g \<noteq> None" using producesD(1) [OF assms(1) w] g by (rule run_next_defined)
  fix v
  assume "run_next (f w) g = return v"
  then obtain u where u: "f w = return u" "g u = return v" by (auto simp: run_next_return_iff)
  then obtain a where a: "P a" "grown w a u" using producesD(2) [OF assms(1) w] by blast
  then have "writer_ok u" by (simp add: grown_def)
  then obtain b where "Q b" "grown u b v" using producesD(2) [OF assms(2)] u by blast
  then show "\<exists>bs. (\<exists>a b. bs = a @ b \<and> P a \<and> Q b) \<and> grown w bs v" using a grown_trans by blast
qed

lemma produces_all:
  assumes "\<And>x. x \<in> set xs \<Longrightarrow> produces (f x) (P x)"
  shows "produces (write_all f xs) (\<lambda>bs. \<exists>bss. bs = concat bss \<and> list_all2 P xs bss)"
  using assms
proof (induction xs)
  case Nil
  have "write_all f [] = return" by (rule ext) simp
  then show ?case using produces_return by (auto intro: produces_mono)
next
  case (Cons x xs)
  have eq: "write_all f (x # xs) = (\<lambda>w. run_next (f x w) (write_all f xs))" by (rule ext) simp
  have "produces (f x) (P x)" using Cons.prems by simp
  moreover have "produces (write_all f xs) (\<lambda>bs. \<exists>bss. bs = concat bss \<and> list_all2 P xs bss)"
    using Cons by simp
  ultimately have "produces (write_all f (x # xs)) (\<lambda>bs. \<exists>a b. bs = a @ b \<and> P x a \<and>
      (\<exists>bss. b = concat bss \<and> list_all2 P xs bss))"
    unfolding eq by (rule produces_run_next)
  then show ?case
    by (rule produces_mono) (metis concat.simps(2) list_all2_Cons)
qed

lemma grow_capacity_ok:
  assumes "required \<le> limit"
  shows "\<exists>c. grow_capacity limit required capacity = Some c \<and> required \<le> c \<and> capacity \<le> c \<and>
    (capacity \<le> limit \<longrightarrow> c \<le> limit)"
proof (cases "capacity < required")
  case True
  let ?c = "min limit (max required (capacity * 2))"
  have "grow_capacity limit required capacity = grow_capacity limit required ?c"
    using True by (subst grow_capacity.simps) simp
  also have "\<dots> = Some ?c"
  proof -
    have "\<not> ?c < required" using assms by auto
    then show ?thesis by (subst grow_capacity.simps) (simp only: if_False)
  qed
  finally show ?thesis using True assms by auto
next
  case False
  then show ?thesis by (subst grow_capacity.simps) auto
qed

lemma array_set_start: "length src \<le> length dst \<Longrightarrow> array_set dst src 0 = src @ drop (length src) dst"
  by (simp add: array_set_def)

lemma ensureCapacity_ok:
  assumes "writer_ok w"
  shows "(woffset w + n > wlimit w \<and> ensureCapacity n w = throw (ByteLimit (wlimit w))) \<or>
    (\<exists>b. ensureCapacity n w = return (w\<lparr>wbuffer := b\<rparr>) \<and> woffset w + n \<le> length b \<and>
         length b \<le> wlimit w \<and> take (woffset w) b = written w)"
proof (cases "woffset w + n \<le> wlimit w")
  case True
  show ?thesis
  proof (cases "woffset w + n \<le> length (wbuffer w)")
    case fits: True
    then have "ensureCapacity n w = return (w\<lparr>wbuffer := wbuffer w\<rparr>)"
      using True by (simp add: ensureCapacity_def)
    then show ?thesis using fits assms unfolding writer_ok_def written_def by blast
  next
    case False
    then obtain c where c: "grow_capacity (wlimit w) (woffset w + n) (max 1 (length (wbuffer w))) = Some c"
        "woffset w + n \<le> c" "max 1 (length (wbuffer w)) \<le> c" "c \<le> wlimit w"
      using grow_capacity_ok [OF True, of "max 1 (length (wbuffer w))"] True assms
      by (auto simp: writer_ok_def)
    then have "ensureCapacity n w = return (w\<lparr>wbuffer := array_set (zeros c) (wbuffer w) 0\<rparr>)"
      using True False by (simp add: ensureCapacity_def)
    moreover have "array_set (zeros c) (wbuffer w) 0 = wbuffer w @ drop (length (wbuffer w)) (zeros c)"
      using c(3) by (intro array_set_start) simp
    ultimately show ?thesis
      using c assms by (auto simp: writer_ok_def written_def)
  qed
qed (simp add: ensureCapacity_def)

lemma produces_put:
  assumes "length bs = n"
  shows "produces (\<lambda>w. run_next (ensureCapacity n w) (\<lambda>w. return (put_bytes bs w))) (\<lambda>b. b = bs)"
  unfolding produces_def
proof (intro allI impI)
  fix w
  assume w: "writer_ok w"
  show "run_next (ensureCapacity n w) (\<lambda>w. return (put_bytes bs w)) \<noteq> None \<and>
    (\<forall>w'. run_next (ensureCapacity n w) (\<lambda>w. return (put_bytes bs w)) = return w' \<longrightarrow>
      (\<exists>b. b = bs \<and> grown w b w'))"
    using ensureCapacity_ok [OF w, of n]
  proof (elim disjE exE conjE)
    fix b
    assume b: "ensureCapacity n w = return (w\<lparr>wbuffer := b\<rparr>)" "woffset w + n \<le> length b"
      "length b \<le> wlimit w" "take (woffset w) b = written w"
    then have "grown w bs (put_bytes bs (w\<lparr>wbuffer := b\<rparr>))"
      using assms take_array_set [of "woffset w" bs b]
      by (simp add: grown_def writer_ok_def put_bytes_def written_def)
    then show ?thesis using b by simp
  qed simp
qed

definition int_bytes :: "nat \<Rightarrow> byte list" where
  "int_bytes v =
     (if v < 24 then []
      else if v \<le> 0xff then [word_of_nat v]
      else if v \<le> 0xffff then [word_of_nat (v div 2 ^ 8), word_of_nat v]
      else if v \<le> CBOR_MAX_UINT32 then put32 v
      else put32 (v div UINT32_BASE) @ put32 (v - v div UINT32_BASE * UINT32_BASE))"

definition info_of :: "nat \<Rightarrow> nat" where
  "info_of v = (if v < 24 then v else if v \<le> 0xff then 24 else if v \<le> 0xffff then 25
                else if v \<le> CBOR_MAX_UINT32 then 26 else 27)"

definition argument_bytes :: "nat \<Rightarrow> nat \<Rightarrow> byte list" where
  "argument_bytes major v = word_of_nat (initial_byte major (info_of v)) # int_bytes v"

lemma produces_writeBytes: "produces (writeBytes bs) (\<lambda>b. b = bs)"
  using produces_put [of bs] by (simp add: writeBytes_def [abs_def])

lemma produces_writeByte: "produces (writeByte v) (\<lambda>b. b = [word_of_nat v])"
  using produces_put [of "[word_of_nat v]"] by (simp add: writeByte_def [abs_def])

lemma produces_writeUint16: "produces (writeUint16 v) (\<lambda>b. b = [word_of_nat (v div 2 ^ 8), word_of_nat v])"
  using produces_put [of "[word_of_nat (v div 2 ^ 8), word_of_nat v]"]
  by (simp add: writeUint16_def [abs_def] numeral_2_eq_2)

lemma produces_writeUint32: "produces (writeUint32 v) (\<lambda>b. b = put32 v)"
  using produces_put [of "put32 v" 4] by (simp add: writeUint32_def [abs_def])

lemma produces_seq:
  "produces f (\<lambda>b. b = xs) \<Longrightarrow> produces g (\<lambda>b. b = ys) \<Longrightarrow>
   produces (\<lambda>w. run_next (f w) g) (\<lambda>b. b = xs @ ys)"
  by (rule produces_mono [OF produces_run_next]) auto

lemma produces_argument: "produces (writeArgument major v) (\<lambda>b. b = argument_bytes major v)"
proof -
  have two: "produces (\<lambda>w. run_next (writeByte a w) g) (\<lambda>b. b = word_of_nat a # ys)"
    if "produces g (\<lambda>b. b = ys)" for a g ys
    using produces_seq [OF produces_writeByte that, of a] by simp
  have "produces (writeUint64 v)
      (\<lambda>b. b = put32 (v div UINT32_BASE) @ put32 (v - v div UINT32_BASE * UINT32_BASE))"
    unfolding writeUint64_def [abs_def] Let_def by (intro produces_seq produces_writeUint32)
  with two produces_writeByte produces_writeUint16 produces_writeUint32 show ?thesis
    unfolding writeArgument_def [abs_def] argument_bytes_def int_bytes_def info_of_def
    by (auto intro!: produces_if)
qed

lemma produces_float: "produces (writeFloat64 b) (\<lambda>x. x = 0xfb # float64_bytes b)"
  using produces_put [of "0xfb # float64_bytes b" 9]
  by (simp add: writeFloat64_def [abs_def] float64_bytes_def)

section \<open>The reader reads back what was written\<close>

text \<open>\<open>reads f bs x\<close>: wherever \<open>bs\<close> stands in the input, \<open>f\<close> started there gives \<open>x\<close> and stops after it.\<close>

definition reads :: "(byte list \<Rightarrow> nat \<Rightarrow> 'a read_result) \<Rightarrow> byte list \<Rightarrow> 'a \<Rightarrow> bool" where
  "reads f bs x \<longleftrightarrow>
     (\<forall>pre rest. f (pre @ bs @ rest) (length pre) = Inr (x, length pre + length bs))"

lemma readsD: "reads f bs x \<Longrightarrow> f (pre @ bs @ rest) (length pre) = Inr (x, length pre + length bs)"
  by (simp add: reads_def)

lemma reads_next:
  assumes "reads f a x" and "reads (\<lambda>bytes. g bytes x) b y"
  shows "reads (\<lambda>bytes off. read_next (f bytes off) (g bytes)) (a @ b) y"
  unfolding reads_def
proof (intro allI)
  fix pre rest
  show "read_next (f (pre @ (a @ b) @ rest) (length pre)) (g (pre @ (a @ b) @ rest)) =
      Inr (y, length pre + length (a @ b))"
    using readsD [OF assms(1), of pre "b @ rest"] readsD [OF assms(2), of "pre @ a" rest] by simp
qed

lemma reads_pure: "reads (\<lambda>bytes off. Inr (x, off)) [] x"
  by (simp add: reads_def)

lemma reads_readBytes: "length bs = n \<Longrightarrow> reads (\<lambda>bytes. readBytes bytes n) bs bs"
  by (auto simp: reads_def readBytes_def subarray_def)

lemma reads_readByte: "reads readByte [b] (unat b)"
  by (simp add: reads_def readByte_def nth_append)

lemma reads_read16:
  assumes "v \<le> 0xffff"
  shows "reads read16 [word_of_nat (v div 2 ^ 8), word_of_nat v] v"
proof -
  have "v div 256 < 256" using assms by linarith
  then have "v div 256 mod 256 * 256 + v mod 256 = v" by simp
  then show ?thesis
    using readsD [OF reads_readBytes [of "[word_of_nat (v div 2 ^ 8), word_of_nat v]" 2]]
    by (simp add: reads_def read16_def)
qed

lemma reads_read32: "v < 2 ^ 32 \<Longrightarrow> reads read32 (put32 v) v"
  using reads_readBytes [of "put32 v" 4] be32_put32 [of v "[]"]
  by (simp add: reads_def read32_def)

lemma reads_info: "reads (\<lambda>bytes off. if False then h bytes off else f bytes off) bs x = reads f bs x"
  by simp

lemma reads_argument:
  assumes "v \<le> nat MAX_SAFE_INTEGER"
  shows "reads (\<lambda>bytes. readArgument bytes (info_of v)) (int_bytes v) v"
proof -
  consider "v < 24" | "24 \<le> v" "v \<le> 0xff" | "0xff < v" "v \<le> 0xffff"
    | "0xffff < v" "v \<le> CBOR_MAX_UINT32" | "CBOR_MAX_UINT32 < v" by linarith
  then show ?thesis
  proof cases
    case 1
    then show ?thesis by (simp add: readArgument_def info_of_def int_bytes_def reads_def)
  next
    case 2
    then show ?thesis
      using reads_readByte [of "word_of_nat v"]
      by (simp add: readArgument_def info_of_def int_bytes_def reads_def)
  next
    case 3
    then show ?thesis
      using reads_read16 [of v] by (simp add: readArgument_def info_of_def int_bytes_def reads_def)
  next
    case 4
    then show ?thesis
      using reads_read32 [of v] by (simp add: readArgument_def info_of_def int_bytes_def reads_def CBOR_MAX_UINT32_def)
  next
    case 5
    let ?h = "v div UINT32_BASE" let ?l = "v - v div UINT32_BASE * UINT32_BASE"
    have h: "?h \<le> 0x1fffff" using assms by (simp add: MAX_SAFE_INTEGER_def UINT32_BASE_def)
    have l: "?l < 2 ^ 32"
      using mod_less_divisor [of UINT32_BASE v]
      by (simp add: minus_div_mult_eq_mod UINT32_BASE_def)
    have sum: "?h * UINT32_BASE + ?l = v" by (simp add: UINT32_BASE_def)
    have "reads (\<lambda>bytes off. read_next (read32 bytes off) (\<lambda>low off.
        if ?h > 0x1fffff then Inl UnsafeInteger else Inr (?h * UINT32_BASE + low, off))) (put32 ?l) v"
      using readsD [OF reads_read32 [OF l]] h sum by (simp add: reads_def)
    moreover have "reads read32 (put32 ?h) ?h" using h by (intro reads_read32) simp
    ultimately have "reads (\<lambda>bytes off. read_next (read32 bytes off) (\<lambda>high off.
        read_next (read32 bytes off) (\<lambda>low off.
          if high > 0x1fffff then Inl UnsafeInteger else Inr (high * UINT32_BASE + low, off))))
        (put32 ?h @ put32 ?l) v"
      by (intro reads_next [where x = ?h])
    then show ?thesis
      using 5 by (simp add: readArgument_def info_of_def int_bytes_def CBOR_MAX_UINT32_def reads_def)
  qed
qed

lemma info_lt [simp]: "info_of v < 28" "info_of v \<noteq> 31"
  by (simp_all add: info_of_def)

lemma reads_length:
  assumes "n \<le> limit" and "limit \<le> CBOR_MAX_UINT32"
  shows "reads (\<lambda>bytes. readLength bytes (info_of n) kind limit) (int_bytes n) n"
proof -
  have "n \<le> nat MAX_SAFE_INTEGER" using assms by (simp add: CBOR_MAX_UINT32_def MAX_SAFE_INTEGER_def)
  from readsD [OF reads_argument [OF this]] assms(1) show ?thesis
    by (simp add: reads_def readLength_def)
qed

lemma getFloat64_bytes: "getFloat64 (float64_bytes b) = b"
proof -
  have "unat b < 2 ^ 64" using unsigned_less [of b] by simp
  then have "unat b div 2 ^ 32 < 2 ^ 32" by (simp add: less_mult_imp_div_less)
  then have "be32 (put32 (unat b div 2 ^ 32)) = unat b div 2 ^ 32" using be32_put32 [of _ "[]"] by simp
  moreover have "be32 (put32 (unat b mod 2 ^ 32)) = unat b mod 2 ^ 32" using be32_put32 [of _ "[]"] by simp
  ultimately show ?thesis by (simp add: getFloat64_def float64_bytes_def)
qed

section \<open>The tree an object graph stands for\<close>

inductive denotes :: "heap \<Rightarrow> jsval \<Rightarrow> dval \<Rightarrow> bool" for heap where
  denotes_null: "denotes heap VNull DNull"
| denotes_bool: "denotes heap (VBool b) (DBool b)"
| denotes_num: "denotes heap (VNum b) (DNum (number_of_bits b))"
| denotes_text: "denotes heap (VText s) (DText s)"
| denotes_bytes: "heap r = OBytes bs \<Longrightarrow> denotes heap (VRef r) (DBytes bs)"
| denotes_array: "heap r = OArray xs \<Longrightarrow>
    list_all2 (\<lambda>x t. \<exists>v. x = Some v \<and> v \<noteq> VUndefined \<and> denotes heap v t) xs ts \<Longrightarrow>
    denotes heap (VRef r) (DArr ts)"
| denotes_map: "heap r = OMap nullPrototype symbolKey props \<Longrightarrow>
    list_all2 (\<lambda>kv kt. fst kv = fst kt \<and> denotes heap (snd kv) (snd kt)) (map_entries props) kts \<Longrightarrow>
    denotes heap (VRef r) (DMap kts)"

text \<open>No JavaScript object has the same key twice.\<close>

definition heap_ok :: "heap \<Rightarrow> bool" where
  "heap_ok heap \<longleftrightarrow> (\<forall>r nullPrototype symbolKey props. heap r = OMap nullPrototype symbolKey props \<longrightarrow> distinct (map fst props))"

definition limits_ok :: "resolved_options \<Rightarrow> bool" where
  "limits_ok o' \<longleftrightarrow> byteLimit o' \<le> CBOR_MAX_UINT32 \<and> containerLimit o' \<le> CBOR_MAX_UINT32"

abbreviation item_reads :: "resolved_options \<Rightarrow> nat \<Rightarrow> byte list \<Rightarrow> dval \<Rightarrow> bool" where
  "item_reads o' depth \<equiv> reads (\<lambda>bytes. readItem bytes o' depth)"

lemma initial_byte_parts:
  "major < 8 \<Longrightarrow> low < 32 \<Longrightarrow>
   unat (word_of_nat (initial_byte major low) :: byte) div 32 = major \<and>
   unat (word_of_nat (initial_byte major low) :: byte) mod 32 = low"
  unfolding unat_byte_of_nat initial_byte_def by simp

text \<open>Reading an item comes down to reading what follows its initial byte.\<close>

definition item_body :: "resolved_options \<Rightarrow> nat \<Rightarrow> nat \<Rightarrow> nat \<Rightarrow> byte list \<Rightarrow> nat \<Rightarrow> dval read_result" where
  "item_body o' depth major info bytes off =
    (if major = 0 then read_next (readArgument bytes info off) (\<lambda>n off. Inr (DNum (JInt (int n)), off))
     else if major = 1 then
       read_next (readArgument bytes info off) (\<lambda>n off.
         let v = -1 - int n in if \<not> is_safe v then Inl UnsafeInteger else Inr (DNum (JInt v), off))
     else if major = 2 then
       read_next (readLength bytes info ByteString (byteLimit o') off) (\<lambda>n off.
         read_next (readBytes bytes n off) (\<lambda>bs off. Inr (DBytes bs, off)))
     else if major = 3 then
       read_next (readLength bytes info TextString (byteLimit o') off) (\<lambda>n off.
         read_next (readBytes bytes n off) (\<lambda>bs off.
           case utf8_decode bs of Some s \<Rightarrow> Inr (DText s, off) | None \<Rightarrow> Inl InvalidUtf8))
     else if major = 4 then
       read_next (readLength bytes info ArrayLength (containerLimit o') off) (\<lambda>n off.
         read_next (read_items (readItem bytes o' (depth + 1)) n [] off) (\<lambda>xs off. Inr (DArr xs, off)))
     else if major = 5 then
       read_next (readLength bytes info MapLength (containerLimit o') off) (\<lambda>n off.
         read_next (read_entries (readItem bytes o' (depth + 1)) n [] off) (\<lambda>xs off. Inr (DMap xs, off)))
     else if major = 6 then Inl TagNotSupported
     else if major = 7 then readSimple bytes info off
     else Inl MalformedMajorType)"

lemma readItem_body:
  "readItem bytes o' depth off =
     (if depth > depthLimit o' then Inl (DepthLimit (depthLimit o'))
      else read_next (readByte bytes off) (\<lambda>initial off.
        item_body o' depth (initial div 32) (initial mod 32) bytes off))"
  by (subst readItem.simps) (simp add: item_body_def [abs_def] Let_def)

lemma item_reads_body:
  assumes "depth \<le> depthLimit o'" and "major < 8" and "low < 32"
    and "reads (\<lambda>bytes. item_body o' depth major low bytes) bs t"
  shows "item_reads o' depth (word_of_nat (initial_byte major low) # bs) t"
proof -
  have "reads (\<lambda>bytes off. read_next (readByte bytes off) (\<lambda>initial off.
      item_body o' depth (initial div 32) (initial mod 32) bytes off))
      ([word_of_nat (initial_byte major low)] @ bs) t"
    using assms(4) initial_byte_parts [OF assms(2,3)]
    by (intro reads_next [OF reads_readByte]) simp
  then show ?thesis using assms(1) by (simp add: reads_def readItem_body)
qed

lemma item_reads_argument:
  assumes "depth \<le> depthLimit o'" and "major < 8"
    and "reads (\<lambda>bytes. item_body o' depth major (info_of n) bytes) (int_bytes n @ bs) t"
  shows "item_reads o' depth (argument_bytes major n @ bs) t"
  using item_reads_body [OF assms(1,2) _ assms(3)] info_lt(1) [of n] by (simp add: argument_bytes_def)

lemma integer_item:
  assumes "depth \<le> depthLimit o'" and "n \<le> nat MAX_SAFE_INTEGER"
  shows "item_reads o' depth (argument_bytes 0 n) (DNum (JInt (int n)))"
    and "is_safe (-1 - int n) \<Longrightarrow> item_reads o' depth (argument_bytes 1 n) (DNum (JInt (-1 - int n)))"
  using item_reads_argument [OF assms(1), of 0 n "[]"] item_reads_argument [OF assms(1), of 1 n "[]"]
    reads_argument [OF assms(2)]
  by (simp_all add: reads_def item_body_def)

lemma bytes_item:
  assumes "depth \<le> depthLimit o'" and "limits_ok o'" and "length bs \<le> byteLimit o'"
  shows "item_reads o' depth (argument_bytes 2 (length bs) @ bs) (DBytes bs)"
proof (rule item_reads_argument [OF assms(1)])
  have "reads (\<lambda>bytes off. read_next (readBytes bytes (length bs) off) (\<lambda>bs off. Inr (DBytes bs, off)))
      (bs @ []) (DBytes bs)"
    by (rule reads_next [OF reads_readBytes reads_pure]) simp
  then have "reads (\<lambda>bytes off. read_next (readLength bytes (info_of (length bs)) ByteString (byteLimit o') off)
      (\<lambda>n off. read_next (readBytes bytes n off) (\<lambda>bs off. Inr (DBytes bs, off))))
      (int_bytes (length bs) @ bs @ []) (DBytes bs)"
    using assms by (intro reads_next [OF reads_length]) (auto simp: limits_ok_def)
  then show "reads (\<lambda>bytes. item_body o' depth 2 (info_of (length bs)) bytes)
      (int_bytes (length bs) @ bs) (DBytes bs)"
    by (simp add: item_body_def reads_def)
qed simp

lemma text_item:
  assumes "depth \<le> depthLimit o'" and "limits_ok o'" and "length bs \<le> byteLimit o'" and "utf8_decode bs = Some s"
  shows "item_reads o' depth (argument_bytes 3 (length bs) @ bs) (DText s)"
proof (rule item_reads_argument [OF assms(1)])
  have "reads (\<lambda>bytes off. case utf8_decode bs of Some s \<Rightarrow> Inr (DText s, off) | None \<Rightarrow> Inl InvalidUtf8) [] (DText s)"
    using assms(4) by (simp add: reads_def)
  then have "reads (\<lambda>bytes off. read_next (readBytes bytes (length bs) off) (\<lambda>bs off.
      case utf8_decode bs of Some s \<Rightarrow> Inr (DText s, off) | None \<Rightarrow> Inl InvalidUtf8)) (bs @ []) (DText s)"
    by (rule reads_next [OF reads_readBytes [OF refl]])
  then have "reads (\<lambda>bytes off. read_next (readLength bytes (info_of (length bs)) TextString (byteLimit o') off)
      (\<lambda>n off. read_next (readBytes bytes n off) (\<lambda>bs off.
         case utf8_decode bs of Some s \<Rightarrow> Inr (DText s, off) | None \<Rightarrow> Inl InvalidUtf8)))
      (int_bytes (length bs) @ bs @ []) (DText s)"
    using assms by (intro reads_next [OF reads_length]) (auto simp: limits_ok_def)
  then show "reads (\<lambda>bytes. item_body o' depth 3 (info_of (length bs)) bytes)
      (int_bytes (length bs) @ bs) (DText s)"
    by (simp add: item_body_def reads_def)
qed simp

lemma float_item:
  assumes "depth \<le> depthLimit o'" and "is_finite b" and "number_of_bits b = JOther c"
  shows "item_reads o' depth (0xfb # float64_bytes b) (DNum (number_of_bits b))"
proof -
  have "reads (\<lambda>bytes. readBytes bytes 8) (float64_bytes b) (float64_bytes b)"
    by (rule reads_readBytes) (simp add: float64_bytes_def)
  then have "reads (\<lambda>bytes. item_body o' depth 7 27 bytes) (float64_bytes b) (DNum (number_of_bits b))"
    using assms(2,3) by (simp add: reads_def item_body_def readSimple_def getFloat64_bytes Let_def)
  then show ?thesis
    using item_reads_body [OF assms(1), of 7 27] by (simp add: initial_byte_def)
qed

lemma simple_item:
  assumes "depth \<le> depthLimit o'"
  shows "item_reads o' depth [0xf6] DNull" and "item_reads o' depth [0xf5] (DBool True)"
    and "item_reads o' depth [0xf4] (DBool False)"
  using item_reads_body [OF assms, of 7 22 "[]" DNull] item_reads_body [OF assms, of 7 21 "[]" "DBool True"]
    item_reads_body [OF assms, of 7 20 "[]" "DBool False"]
  by (simp_all add: reads_def item_body_def readSimple_def initial_byte_def)

lemma items_read:
  assumes "list_all2 (item_reads o' depth) bss ts"
  shows "read_items (readItem (pre @ concat bss @ rest) o' depth) (length ts) result (length pre) =
    Inr (result @ ts, length pre + length (concat bss))"
  using assms
proof (induction arbitrary: pre result rule: list_all2_induct)
  case (Cons bs bss t ts)
  have "readItem (pre @ bs @ concat bss @ rest) o' depth (length pre) = Inr (t, length pre + length bs)"
    using readsD [OF Cons(1)] by simp
  then show ?case using Cons.IH [of "pre @ bs" "result @ [t]"] by (simp add: add.assoc)
qed simp

definition entry_reads :: "resolved_options \<Rightarrow> nat \<Rightarrow> byte list \<Rightarrow> jstr \<times> dval \<Rightarrow> bool" where
  "entry_reads o' depth bs kt \<longleftrightarrow>
     (\<exists>a b. bs = a @ b \<and> item_reads o' depth a (DText (fst kt)) \<and> item_reads o' depth b (snd kt))"

lemma entries_read:
  assumes "list_all2 (entry_reads o' depth) bss kts" and "distinct (map fst (result @ kts))"
  shows "read_entries (readItem (pre @ concat bss @ rest) o' depth) (length kts) result (length pre) =
    Inr (result @ kts, length pre + length (concat bss))"
  using assms
proof (induction arbitrary: pre result rule: list_all2_induct)
  case (Cons bs bss kt kts)
  obtain k t where kt: "kt = (k, t)" by (cases kt)
  obtain a b where ab: "bs = a @ b" "item_reads o' depth a (DText k)" "item_reads o' depth b t"
    using Cons(1) by (auto simp: entry_reads_def kt)
  let ?B = "pre @ bs @ concat bss @ rest"
  have "readItem ?B o' depth (length pre) = Inr (DText k, length pre + length a)"
    using readsD [OF ab(2), of pre "b @ concat bss @ rest"] by (simp add: ab(1))
  moreover have "readItem ?B o' depth (length pre + length a) = Inr (t, length pre + length bs)"
    using readsD [OF ab(3), of "pre @ a" "concat bss @ rest"] by (simp add: ab(1) add.assoc)
  moreover have "k \<notin> fst ` set result" using Cons.prems by (auto simp: kt)
  ultimately show ?case
    using Cons.IH [of "result @ [kt]" "pre @ bs"] Cons.prems by (simp add: kt add.assoc)
qed simp

lemma array_item:
  assumes "depth \<le> depthLimit o'" and "limits_ok o'" and "length ts \<le> containerLimit o'"
    and "list_all2 (item_reads o' (depth + 1)) bss ts"
  shows "item_reads o' depth (argument_bytes 4 (length ts) @ concat bss) (DArr ts)"
proof (rule item_reads_argument [OF assms(1)])
  have "reads (\<lambda>bytes off. read_next (read_items (readItem bytes o' (depth + 1)) (length ts) [] off)
      (\<lambda>xs off. Inr (DArr xs, off))) (concat bss) (DArr ts)"
    using items_read [OF assms(4)] by (simp add: reads_def)
  then have "reads (\<lambda>bytes off. read_next (readLength bytes (info_of (length ts)) ArrayLength (containerLimit o') off)
      (\<lambda>n off. read_next (read_items (readItem bytes o' (depth + 1)) n [] off) (\<lambda>xs off. Inr (DArr xs, off))))
      (int_bytes (length ts) @ concat bss) (DArr ts)"
    using assms by (intro reads_next [OF reads_length]) (auto simp: limits_ok_def)
  then show "reads (\<lambda>bytes. item_body o' depth 4 (info_of (length ts)) bytes)
      (int_bytes (length ts) @ concat bss) (DArr ts)"
    by (simp add: item_body_def reads_def)
qed simp

lemma map_item:
  assumes "depth \<le> depthLimit o'" and "limits_ok o'" and "length kts \<le> containerLimit o'"
    and "list_all2 (entry_reads o' (depth + 1)) bss kts" and "distinct (map fst kts)"
  shows "item_reads o' depth (argument_bytes 5 (length kts) @ concat bss) (DMap kts)"
proof (rule item_reads_argument [OF assms(1)])
  have "reads (\<lambda>bytes off. read_next (read_entries (readItem bytes o' (depth + 1)) (length kts) [] off)
      (\<lambda>xs off. Inr (DMap xs, off))) (concat bss) (DMap kts)"
    using entries_read [OF assms(4), of "[]"] assms(5) by (simp add: reads_def)
  then have "reads (\<lambda>bytes off. read_next (readLength bytes (info_of (length kts)) MapLength (containerLimit o') off)
      (\<lambda>n off. read_next (read_entries (readItem bytes o' (depth + 1)) n [] off) (\<lambda>xs off. Inr (DMap xs, off))))
      (int_bytes (length kts) @ concat bss) (DMap kts)"
    using assms by (intro reads_next [OF reads_length]) (auto simp: limits_ok_def)
  then show "reads (\<lambda>bytes. item_body o' depth 5 (info_of (length kts)) bytes)
      (int_bytes (length kts) @ concat bss) (DMap kts)"
    by (simp add: item_body_def reads_def)
qed simp

section \<open>What the encoder accepts is a tree that the decoder reads back\<close>

definition item_written :: "heap \<Rightarrow> resolved_options \<Rightarrow> nat \<Rightarrow> jsval \<Rightarrow> byte list \<Rightarrow> bool" where
  "item_written heap o' depth v bs \<longleftrightarrow>
     depth \<le> depthLimit o' \<and> (\<exists>t. denotes heap v t \<and> item_reads o' depth bs t)"

lemma produces_text:
  assumes "limits_ok o'"
  shows "produces (encodeText o' s)
    (\<lambda>bs. \<forall>depth. depth \<le> depthLimit o' \<longrightarrow> item_reads o' depth bs (DText s))"
proof -
  let ?bs = "utf8_encode s"
  have "produces (\<lambda>w. run_next (writeArgument 3 (length ?bs) w) (writeBytes ?bs))
      (\<lambda>b. b = argument_bytes 3 (length ?bs) @ ?bs)"
    by (rule produces_seq [OF produces_argument produces_writeBytes])
  then have "produces (\<lambda>w. run_next (writeArgument 3 (length ?bs) w) (writeBytes ?bs))
      (\<lambda>bs. \<forall>depth. depth \<le> depthLimit o' \<longrightarrow> item_reads o' depth bs (DText s))"
    if "length ?bs \<le> byteLimit o'" "utf8_decode ?bs = Some s"
    by (rule produces_mono) (use text_item [OF _ assms that] in blast)
  then show ?thesis
    unfolding encodeText_def [abs_def] Let_def
    by (intro produces_if produces_throw) auto
qed

lemma produces_number:
  assumes "depth \<le> depthLimit o'"
  shows "produces (encodeNumber b) (\<lambda>bs. item_reads o' depth bs (DNum (number_of_bits b)))"
proof (cases "number_of_bits b")
  case (JInt i)
  have "item_reads o' depth (argument_bytes 0 (nat i)) (DNum (JInt i))" if "0 \<le> i" "is_safe i"
    using integer_item(1) [OF assms, of "nat i"] that by (simp add: is_safe_def)
  moreover have "item_reads o' depth (argument_bytes 1 (nat (-1 - i))) (DNum (JInt i))" if "i < 0" "is_safe i"
    using integer_item(2) [OF assms, of "nat (-1 - i)"] that by (simp add: is_safe_def)
  ultimately show ?thesis
    unfolding encodeNumber_def [abs_def] JInt jsnum.case
    by (intro produces_if produces_throw produces_mono [OF produces_argument]) auto
next
  case (JOther c)
  then have "c = b" by (auto simp: number_of_bits_def split: option.splits if_splits)
  with JOther float_item [OF assms _ JOther] show ?thesis
    unfolding encodeNumber_def [abs_def] JOther jsnum.case
    by (intro produces_if produces_throw produces_mono [OF produces_float]) auto
qed

lemma entries_distinct: "heap_ok heap \<Longrightarrow> heap r = OMap np sk props \<Longrightarrow> distinct (map fst (map_entries props))"
  by (auto simp: heap_ok_def map_entries_def distinct_map_filter)

lemma list_all2_choose:
  "list_all2 (\<lambda>x b. \<exists>t. Q x t \<and> R b t) xs bs \<Longrightarrow> \<exists>ts. list_all2 Q xs ts \<and> list_all2 R bs ts"
proof (induction rule: list_all2_induct)
  case (Cons x xs b bs)
  then obtain t ts where "Q x t" "R b t" "list_all2 Q xs ts" "list_all2 R bs ts" by blast
  then show ?case by (intro exI [of _ "t # ts"]) simp
qed auto

lemma encode_array:
  assumes IH: "\<And>v. produces (encodeValue heap o' (depth + 1) (insert r ancestors) v) (item_written heap o' (depth + 1) v)"
    and "limits_ok o'" and "heap r = OArray xs" and "depth \<le> depthLimit o'"
  shows "produces (encodeValue heap o' depth ancestors (VRef r)) (item_written heap o' depth (VRef r))"
proof -
  let ?elem = "\<lambda>x w. case x of None \<Rightarrow> throw HoleOrUndefined
     | Some y \<Rightarrow> if y = VUndefined then throw HoleOrUndefined
                else encodeValue heap o' (depth + 1) (insert r ancestors) y w"
  let ?P = "\<lambda>x bs. \<exists>t. (\<exists>v. x = Some v \<and> v \<noteq> VUndefined \<and> denotes heap v t) \<and> item_reads o' (depth + 1) bs t"
  have elem: "produces (?elem x) (?P x)" for x
  proof (cases x)
    case None
    then show ?thesis by (simp add: produces_throw)
  next
    case (Some v)
    have "produces (encodeValue heap o' (depth + 1) (insert r ancestors) v) (?P x)" if "v \<noteq> VUndefined"
      by (rule produces_mono [OF IH]) (use Some that in \<open>auto simp: item_written_def\<close>)
    then show ?thesis using Some produces_throw by (cases "v = VUndefined") auto
  qed
  have pr: "produces (\<lambda>w. run_next (writeArgument 4 (length xs) w) (write_all ?elem xs))
      (\<lambda>bs. \<exists>a b. bs = a @ b \<and> a = argument_bytes 4 (length xs) \<and>
         (\<exists>bss. b = concat bss \<and> list_all2 ?P xs bss))"
    by (rule produces_run_next [OF produces_argument produces_all]) (rule elem)
  have wr: "item_written heap o' depth (VRef r) bs"
    if "length xs \<le> containerLimit o'" "bs = a @ b" "a = argument_bytes 4 (length xs)" "b = concat bss"
      and children: "list_all2 ?P xs bss" for bs a b bss
  proof -
    obtain ts where ts: "list_all2 (\<lambda>x t. \<exists>v. x = Some v \<and> v \<noteq> VUndefined \<and> denotes heap v t) xs ts"
        "list_all2 (item_reads o' (depth + 1)) bss ts"
      using list_all2_choose [OF children] by blast
    have "length ts = length xs" using ts(1) by (simp add: list_all2_lengthD)
    then have "item_reads o' depth bs (DArr ts)"
      using array_item [OF assms(4,2) _ ts(2)] that by simp
    then show ?thesis
      using denotes_array [OF assms(3) ts(1)] assms(4) by (auto simp: item_written_def)
  qed
  have "produces (\<lambda>w. run_next (writeArgument 4 (length xs) w) (write_all ?elem xs))
      (item_written heap o' depth (VRef r))" if "length xs \<le> containerLimit o'"
    by (rule produces_mono [OF pr]) (use that wr in blast)
  then have "produces (\<lambda>w. if r \<in> ancestors then throw Cyclic
      else if length xs > containerLimit o' then throw (LengthLimit ArrayLength (containerLimit o'))
      else run_next (writeArgument 4 (length xs) w) (write_all ?elem xs)) (item_written heap o' depth (VRef r))"
    by (intro produces_if produces_throw) auto
  moreover have "encodeValue heap o' depth ancestors (VRef r) = (\<lambda>w. if r \<in> ancestors then throw Cyclic
      else if length xs > containerLimit o' then throw (LengthLimit ArrayLength (containerLimit o'))
      else run_next (writeArgument 4 (length xs) w) (write_all ?elem xs))"
    using assms(3,4) by (intro ext, subst encodeValue.simps) simp
  ultimately show ?thesis by simp
qed

lemma encode_map:
  assumes IH: "\<And>v. produces (encodeValue heap o' (depth + 1) (insert r ancestors) v) (item_written heap o' (depth + 1) v)"
    and "limits_ok o'" and "heap_ok heap" and "heap r = OMap nullPrototype symbolKey props" and "depth \<le> depthLimit o'"
  shows "produces (encodeValue heap o' depth ancestors (VRef r)) (item_written heap o' depth (VRef r))"
proof -
  let ?entries = "map_entries props"
  let ?entry = "\<lambda>(k, y) w. run_next (encodeText o' k w)
     (encodeValue heap o' (depth + 1) (insert r ancestors) y)"
  let ?Q = "\<lambda>kv kt. fst kv = fst kt \<and> denotes heap (snd kv) (snd kt)"
  let ?P = "\<lambda>kv bs. \<exists>kt. ?Q kv kt \<and> entry_reads o' (depth + 1) bs kt"
  have entry: "produces (?entry kv) (?P kv)" for kv
  proof -
    obtain k v where kv: "kv = (k, v)" by (cases kv)
    have "produces (\<lambda>w. run_next (encodeText o' k w) (encodeValue heap o' (depth + 1) (insert r ancestors) v)) (?P kv)"
    proof (rule produces_mono [OF produces_run_next [OF produces_text [OF assms(2)] IH]], elim exE conjE)
      fix bs a b
      assume bs: "bs = a @ b"
        and a: "\<forall>depth. depth \<le> depthLimit o' \<longrightarrow> item_reads o' depth a (DText k)"
        and b: "item_written heap o' (depth + 1) v b"
      then obtain t where "denotes heap v t" "item_reads o' (depth + 1) b t" "depth + 1 \<le> depthLimit o'"
        by (auto simp: item_written_def)
      then show "?P kv bs"
        using a bs by (intro exI [of _ "(k, t)"]) (auto simp: kv entry_reads_def)
    qed
    then show ?thesis by (simp add: kv)
  qed
  have pr: "produces (\<lambda>w. run_next (writeArgument 5 (length ?entries) w) (write_all ?entry ?entries))
      (\<lambda>bs. \<exists>a b. bs = a @ b \<and> a = argument_bytes 5 (length ?entries) \<and>
         (\<exists>bss. b = concat bss \<and> list_all2 ?P ?entries bss))"
    by (rule produces_run_next [OF produces_argument produces_all]) (rule entry)
  have wr: "item_written heap o' depth (VRef r) bs"
    if "length ?entries \<le> containerLimit o'" "bs = a @ b" "a = argument_bytes 5 (length ?entries)" "b = concat bss"
      and children: "list_all2 ?P ?entries bss" for bs a b bss
  proof -
    obtain kts where kts: "list_all2 ?Q ?entries kts" "list_all2 (entry_reads o' (depth + 1)) bss kts"
      using list_all2_choose [OF children] by blast
    have len: "length kts = length ?entries" using kts(1) by (simp add: list_all2_lengthD)
    have "map fst kts = map fst ?entries"
      using kts(1) by (induction rule: list_all2_induct) auto
    then have "distinct (map fst kts)" using entries_distinct [OF assms(3,4)] by simp
    then have "item_reads o' depth bs (DMap kts)"
      using map_item [OF assms(5,2) _ kts(2)] that len by simp
    then show ?thesis
      using denotes_map [OF assms(4) kts(1)] assms(5) by (auto simp: item_written_def)
  qed
  have "produces (\<lambda>w. run_next (writeArgument 5 (length ?entries) w) (write_all ?entry ?entries))
      (item_written heap o' depth (VRef r))" if "length ?entries \<le> containerLimit o'"
    by (rule produces_mono [OF pr]) (use that wr in blast)
  then have "produces (\<lambda>w. if r \<in> ancestors then throw Cyclic else if symbolKey then throw KeyNotString
      else if length ?entries > containerLimit o' then throw (LengthLimit MapLength (containerLimit o'))
      else run_next (writeArgument 5 (length ?entries) w) (write_all ?entry ?entries))
      (item_written heap o' depth (VRef r))"
    by (intro produces_if produces_throw) auto
  moreover have "encodeValue heap o' depth ancestors (VRef r) = (\<lambda>w. if r \<in> ancestors then throw Cyclic
      else if symbolKey then throw KeyNotString
      else if length ?entries > containerLimit o' then throw (LengthLimit MapLength (containerLimit o'))
      else run_next (writeArgument 5 (length ?entries) w) (write_all ?entry ?entries))"
    using assms(4,5) by (intro ext, subst encodeValue.simps) (simp add: Let_def)
  ultimately show ?thesis by simp
qed

lemma encodeValue_produces:
  assumes "limits_ok o'" and "heap_ok heap"
  shows "produces (encodeValue heap o' depth ancestors v) (item_written heap o' depth v)"
proof (induction "Suc (depthLimit o') - depth" arbitrary: depth ancestors v rule: less_induct)
  case less
  show ?case
  proof (cases "depth \<le> depthLimit o'")
    case False
    then have "encodeValue heap o' depth ancestors v = (\<lambda>w. throw (DepthLimit (depthLimit o')))"
      by (intro ext, subst encodeValue.simps) simp
    then show ?thesis by (simp add: produces_throw)
  next
    case True
    then have IH: "produces (encodeValue heap o' (depth + 1) anc x) (item_written heap o' (depth + 1) x)" for anc x
      by (intro less) simp
    have step: "encodeValue heap o' depth ancestors v = f" if "\<And>w. encodeValue heap o' depth ancestors v w = f w" for f
      using that by (rule ext)
    have written: "item_written heap o' depth v bs" if "denotes heap v t" "item_reads o' depth bs t" for bs t
      using True that by (auto simp: item_written_def)
    show ?thesis
    proof (cases v)
      case VNull
      have "encodeValue heap o' depth ancestors v = writeByte 0xf6"
        using True VNull by (intro step, subst encodeValue.simps) simp
      then show ?thesis
        using produces_mono [OF produces_writeByte [of "0xf6"]] VNull
          written [OF _ simple_item(1) [OF True]] denotes_null by simp
    next
      case (VBool b)
      have "encodeValue heap o' depth ancestors v = writeByte (if b then 0xf5 else 0xf4)"
        using True VBool by (intro step, subst encodeValue.simps) simp
      then show ?thesis
        using produces_mono [OF produces_writeByte [of "if b then 0xf5 else 0xf4"]] written VBool
          simple_item [OF True] denotes_bool [of heap b] by (cases b) simp_all
    next
      case (VNum n)
      have "encodeValue heap o' depth ancestors v = encodeNumber n"
        using True VNum by (intro step, subst encodeValue.simps) simp
      then show ?thesis
        using produces_mono [OF produces_number [OF True, of n]] written VNum denotes_num [of heap n] by simp
    next
      case (VText s)
      have "encodeValue heap o' depth ancestors v = encodeText o' s"
        using True VText by (intro step, subst encodeValue.simps) simp
      then show ?thesis
        using produces_mono [OF produces_text [OF assms(1), of s]] written VText denotes_text [of heap s] True
        by simp
    next
      case (VRef r)
      show ?thesis
      proof (cases "heap r")
        case (OBytes bs)
        have "encodeValue heap o' depth ancestors v =
            (\<lambda>w. if length bs > byteLimit o' then throw (LengthLimit ByteString (byteLimit o'))
                 else run_next (writeArgument 2 (length bs) w) (writeBytes bs))"
          using True VRef OBytes by (intro step, subst encodeValue.simps) simp
        moreover have "produces (\<lambda>w. run_next (writeArgument 2 (length bs) w) (writeBytes bs))
            (item_written heap o' depth v)" if "length bs \<le> byteLimit o'"
          using produces_mono [OF produces_seq [OF produces_argument produces_writeBytes]] written
            bytes_item [OF True assms(1) that] denotes_bytes [of heap r, OF OBytes] VRef by simp
        ultimately show ?thesis by (simp add: produces_if produces_throw)
      next
        case (OArray xs)
        then show ?thesis using encode_array [OF IH assms(1) _ True] VRef by blast
      next
        case (OMap np sk props)
        then show ?thesis using encode_map [OF IH assms _ True] VRef by blast
      next
        case OOther
        then have "encodeValue heap o' depth ancestors v = (\<lambda>w. throw UnsupportedValue)"
          using True VRef by (intro step, subst encodeValue.simps) simp
        then show ?thesis by (simp add: produces_throw)
      qed
    next
      case VUndefined
      then have "encodeValue heap o' depth ancestors v = (\<lambda>w. throw UnsupportedValue)"
        using True by (intro step, subst encodeValue.simps) simp
      then show ?thesis by (simp add: produces_throw)
    next
      case VOther
      then have "encodeValue heap o' depth ancestors v = (\<lambda>w. throw UnsupportedValue)"
        using True by (intro step, subst encodeValue.simps) simp
      then show ?thesis by (simp add: produces_throw)
    qed
  qed
qed

section \<open>Properties\<close>

lemma resolve_limits: "resolveOptions options = Inr o' \<Longrightarrow> limits_ok o'"
  by (auto simp: resolveOptions_def resolveLimit_def limits_ok_def split: sum.splits if_splits)

lemma new_writer_ok: "writer_ok (new_CborWriter limit)" "written (new_CborWriter limit) = []"
  by (simp_all add: writer_ok_def new_CborWriter_def written_def)

lemma encoded_decodes:
  assumes "heap_ok heap" and "encodeCbor heap v options = return bytes"
  shows "\<exists>t. denotes heap v t \<and> decodeCbor bytes options = Inr t"
proof -
  obtain o' w where o': "resolveOptions options = Inr o'"
    and w: "encodeValue heap o' 0 {} v (new_CborWriter (byteLimit o')) = return w" "bytes = finish w"
    using assms(2) by (auto simp: encodeCbor_def run_next_return_iff split: sum.splits)
  obtain bs where bs: "item_written heap o' 0 v bs" "grown (new_CborWriter (byteLimit o')) bs w"
    using producesD(2) [OF encodeValue_produces [OF resolve_limits [OF o'] assms(1)] new_writer_ok(1) w(1)]
    by blast
  then have bytes: "bytes = bs" "length bs \<le> byteLimit o'"
    using w(2) new_writer_ok(2) [of "byteLimit o'"]
    by (auto simp: grown_def finish_def slice_def written_def writer_ok_def new_CborWriter_def)
  obtain t where t: "denotes heap v t" "item_reads o' 0 bs t"
    using bs(1) by (auto simp: item_written_def)
  have "readItem bs o' 0 0 = Inr (t, length bs)" using readsD [OF t(2), of "[]" "[]"] by simp
  then show ?thesis using t(1) bytes o' by (auto simp: decodeCbor_def)
qed

text \<open>C2: what the encoder accepts, the decoder reads back under the same limits: the bytes decode to
  the finite tree that the object graph stands for.\<close>

theorem cbor_round_trip:
  assumes "heap_ok heap" and "encodeCbor heap v options = return bytes"
  shows "\<exists>t. denotes heap v t \<and> decodeCbor bytes options = Inr t"
  by (rule encoded_decodes [OF assms])

definition sample_heap :: heap where
  "sample_heap r = (if r = 0 then OMap False False [(js ''id'', VNum 0), (js ''tags'', VRef 1), (js ''gone'', VUndefined)]
     else if r = 1 then OArray [Some (VText (js ''a'')), Some VNull] else OArray [Some (VRef r)])"

definition sample_options :: cbor_options where
  "sample_options = \<lparr>maxByteLength = Some 32, maxContainerLength = None, maxDepth = Some 2\<rparr>"

lemma sample_encoded:
  "encodeCbor sample_heap (VRef 0) sample_options =
     return [0xa2, 0x62, 0x69, 0x64, 0x00, 0x64, 0x74, 0x61, 0x67, 0x73, 0x82, 0x61, 0x61, 0xf6]"
  proof -
  have word: "word_of_nat (unat w) = w" for w :: byte by simp
  show ?thesis
    by (simp add: encodeCbor_def resolveOptions_def resolveLimit_def or_default_def sample_options_def
        CBOR_MAX_UINT32_def MAX_CONFIGURED_DEPTH_def DEFAULT_MAX_CBOR_CONTAINER_LENGTH_def
        encodeValue.simps [of _ _ 0] encodeValue.simps [of _ _ "Suc 0"] encodeValue.simps [of _ _ "Suc (Suc 0)"]
        sample_heap_def map_entries_def writeArgument_def writeByte_def writeBytes_def ensureCapacity_def
        new_CborWriter_def zeros_def put_bytes_def array_set_def initial_byte_def encodeText_def
        utf8_encode_def utf8_scalar_def utf8_decode_def utf8_scalars.simps continuation_def
        high_surrogate_def low_surrogate_def utf16_units_def js_def encodeNumber_def is_finite_def
        exponent_bits_def number_of_bits_def magnitude_def mantissa_bits_def sign_bit_def is_safe_def
        MAX_SAFE_INTEGER_def finish_def slice_def Let_def)
qed

lemma sample_heap_ok: "heap_ok sample_heap"
  by (simp add: heap_ok_def sample_heap_def js_def)

theorem cbor_round_trip_witness:
  "\<exists>t. denotes sample_heap (VRef 0) t \<and>
     decodeCbor [0xa2, 0x62, 0x69, 0x64, 0x00, 0x64, 0x74, 0x61, 0x67, 0x73, 0x82, 0x61, 0x61, 0xf6]
       sample_options = Inr t"
  by (rule cbor_round_trip [OF sample_heap_ok sample_encoded])

text \<open>C27: encoding always returns, whatever the object graph: a value that reaches itself is an error,
  never a loop.\<close>

theorem cbor_encode_returns:
  assumes "heap_ok heap"
  shows "encodeCbor heap v options \<noteq> None \<and>
    ((\<nexists>t. denotes heap v t) \<longrightarrow> (\<exists>e. encodeCbor heap v options = throw e))"
proof -
  have "encodeCbor heap v options \<noteq> None"
  proof (cases "resolveOptions options")
    case (Inr o')
    then show ?thesis
      using producesD(1) [OF encodeValue_produces [OF resolve_limits [OF Inr] assms] new_writer_ok(1)]
      unfolding encodeCbor_def Inr sum.case by (intro run_next_defined) simp_all
  qed (simp add: encodeCbor_def)
  moreover have "\<exists>t. denotes heap v t" if "encodeCbor heap v options = return bytes" for bytes
    using encoded_decodes [OF assms that] by blast
  ultimately show ?thesis by (cases "encodeCbor heap v options" rule: outcome_cases) auto
qed

theorem cbor_encode_returns_witness:
  "encodeCbor sample_heap (VRef 7) sample_options \<noteq> None"
  using cbor_encode_returns [OF sample_heap_ok] by blast

section \<open>What the decoder accepts is within the limits\<close>

fun dval_ok :: "resolved_options \<Rightarrow> nat \<Rightarrow> dval \<Rightarrow> bool" where
  "dval_ok o' d (DNum (JInt i)) \<longleftrightarrow> d \<le> depthLimit o' \<and> is_safe i"
| "dval_ok o' d (DNum (JOther b)) \<longleftrightarrow> d \<le> depthLimit o' \<and> is_finite b \<and> number_of_bits b = JOther b"
| "dval_ok o' d (DBytes bs) \<longleftrightarrow> d \<le> depthLimit o' \<and> length bs \<le> byteLimit o'"
| "dval_ok o' d (DArr xs) \<longleftrightarrow> d \<le> depthLimit o' \<and> length xs \<le> containerLimit o' \<and> list_all (dval_ok o' (d + 1)) xs"
| "dval_ok o' d (DMap kvs) \<longleftrightarrow> d \<le> depthLimit o' \<and> length kvs \<le> containerLimit o' \<and>
     distinct (map fst kvs) \<and> list_all (\<lambda>(k, v). dval_ok o' (d + 1) v) kvs"
| "dval_ok o' d _ \<longleftrightarrow> d \<le> depthLimit o'"

lemma read_next_Inr: "read_next r f = Inr y \<longleftrightarrow> (\<exists>x off. r = Inr (x, off) \<and> f x off = Inr y)"
  by (auto simp: read_next_def split: sum.splits)

lemma read32_bound: "read32 bytes off = Inr (n, off') \<Longrightarrow> n < 2 ^ 32"
  using be32_bound by (auto simp: read32_def read_next_Inr)

lemma readArgument_safe:
  assumes "readArgument bytes info off = Inr (n, off')"
  shows "int n \<le> MAX_SAFE_INTEGER"
proof -
  consider "info < 24" "n = info" | b where "n = unat (b :: byte)"
    | b c where "n = unat (b :: byte) * 0x100 + unat (c :: byte)" | "n < 2 ^ 32"
    | high low where "high \<le> 0x1fffff" "low < 2 ^ 32" "n = high * UINT32_BASE + low"
  proof (cases "info = 27")
    case True
    with assms obtain high low u where "read32 bytes u = Inr (low, off')" "\<not> high > 0x1fffff"
        "n = high * UINT32_BASE + low"
      by (auto simp: readArgument_def read_next_Inr split: if_splits)
    then show thesis using that(5) [of high low] read32_bound by (simp add: not_less)
  next
    case False
    then show thesis
      using assms that(1-4) read32_bound
      by (auto simp: readArgument_def readByte_def read16_def read_next_Inr split: if_splits)
  qed
  then show ?thesis
  proof cases
    case (3 b c)
    then have "n < 0x10000" using byte_lt [of b] byte_lt [of c] by linarith
    then show ?thesis by (simp add: MAX_SAFE_INTEGER_def)
  next
    case (2 b)
    then have "n < 256" using byte_lt [of b] by simp
    then show ?thesis by (simp add: MAX_SAFE_INTEGER_def)
  next
    case (5 high low)
    then have "n < 2 ^ 53" by (simp add: UINT32_BASE_def)
    then show ?thesis by (simp add: MAX_SAFE_INTEGER_def)
  qed (simp_all add: MAX_SAFE_INTEGER_def)
qed

lemma readLength_le: "readLength bytes info kind limit off = Inr (n, off') \<Longrightarrow> n \<le> limit"
  by (auto simp: readLength_def read_next_Inr split: if_splits)

lemma readBytes_length: "readBytes bytes n off = Inr (bs, off') \<Longrightarrow> length bs = n"
  by (auto simp: readBytes_def split: if_splits)

lemma read_items_ok:
  assumes "read_items item n result off = Inr (xs, off')"
    and "\<And>off x off'. item off = Inr (x, off') \<Longrightarrow> P x" and "list_all P result"
  shows "list_all P xs \<and> length xs = length result + n"
  using assms(1,3)
proof (induction n arbitrary: result off)
  case (Suc n)
  then show ?case using assms(2) by (fastforce simp: read_next_Inr)
qed simp

lemma read_entries_ok:
  assumes "read_entries item n result off = Inr (xs, off')"
    and "\<And>off x off'. item off = Inr (x, off') \<Longrightarrow> P x"
    and "list_all (\<lambda>(k, v). P v) result" and "distinct (map fst result)"
  shows "list_all (\<lambda>(k, v). P v) xs \<and> length xs = length result + n \<and> distinct (map fst xs)"
  using assms(1,3,4)
proof (induction n arbitrary: result off)
  case (Suc n)
  then obtain key v where key: "item off = Inr (key, v)" by (auto simp: read_next_Inr)
  with Suc.prems obtain k where "key = DText k" by (cases key) auto
  with key Suc.prems obtain x u where "k \<notin> fst ` set result" "P x"
      "read_entries item n (result @ [(k, x)]) u = Inr (xs, off')"
    by (auto simp: read_next_Inr split: if_splits dest: assms(2))
  then show ?case using Suc.IH [of "result @ [(k, x)]"] Suc.prems by auto
qed simp

lemma readSimple_ok:
  "readSimple bytes info off = Inr (t, off') \<Longrightarrow> d \<le> depthLimit o' \<Longrightarrow> dval_ok o' d t"
  by (auto simp: readSimple_def read_next_Inr Let_def number_of_bits_def
      split: if_splits jsnum.splits option.splits)

lemma readItem_ok:
  "readItem bytes o' depth off = Inr (t, off') \<Longrightarrow> dval_ok o' depth t"
proof (induction "Suc (depthLimit o') - depth" arbitrary: depth off t off' rule: less_induct)
  case less
  then obtain initial u where d: "depth \<le> depthLimit o'"
    and body: "item_body o' depth (initial div 32) (initial mod 32) bytes u = Inr (t, off')"
    by (auto simp: readItem_body read_next_Inr split: if_splits)
  have IH: "dval_ok o' (depth + 1) x" if "readItem bytes o' (depth + 1) v = Inr (x, v')" for x v v'
    by (rule less.hyps [OF _ that]) (use d in simp)
  note unfolds = item_body_def read_next_Inr
  consider "initial div 32 = 0" | "initial div 32 = 1" | "initial div 32 = 2" | "initial div 32 = 3"
    | "initial div 32 = 4" | "initial div 32 = 5" | "initial div 32 = 7"
    using body by (auto simp: item_body_def split: if_splits)
  then show ?case
  proof cases
    case 1
    then show ?thesis using body d readArgument_safe by (auto simp: unfolds is_safe_def)
  next
    case 2
    then show ?thesis using body d by (auto simp: unfolds Let_def split: if_splits)
  next
    case 3
    then show ?thesis using body d readLength_le readBytes_length by (fastforce simp: unfolds)
  next
    case 4
    then show ?thesis using body d by (auto simp: unfolds split: option.splits)
  next
    case 5
    then obtain n xs v v' where "t = DArr xs" "n \<le> containerLimit o'"
        "read_items (readItem bytes o' (depth + 1)) n [] v = Inr (xs, v')"
      using body by (simp add: unfolds) (blast dest: readLength_le)
    then show ?thesis using read_items_ok [of _ _ _ _ _ _ "dval_ok o' (depth + 1)"] IH d by fastforce
  next
    case 6
    then obtain n xs v v' where "t = DMap xs" "n \<le> containerLimit o'"
        "read_entries (readItem bytes o' (depth + 1)) n [] v = Inr (xs, v')"
      using body by (simp add: unfolds) (blast dest: readLength_le)
    then show ?thesis using read_entries_ok [of _ _ _ _ _ _ "dval_ok o' (depth + 1)"] IH d by fastforce
  next
    case 7
    then show ?thesis using body d readSimple_ok by (auto simp: unfolds)
  qed
qed

text \<open>C14: whatever bytes arrive, a value the decoder returns nests no deeper than the limit, has
  containers and byte strings no longer than theirs, objects without duplicate keys, and only
  finite numbers whose integers are safe.\<close>

theorem cbor_decoded_within_limits:
  assumes "decodeCbor bytes options = Inr t"
  shows "\<exists>o'. resolveOptions options = Inr o' \<and> length bytes \<le> byteLimit o' \<and> dval_ok o' 0 t"
  using assms readItem_ok [of bytes _ 0 0]
  by (auto simp: decodeCbor_def split: sum.splits if_splits prod.splits)

lemma read_items_numeral:
  "read_items item (numeral k) result off =
     read_next (item off) (\<lambda>x off. read_items item (pred_numeral k) (result @ [x]) off)"
  by (simp add: numeral_eq_Suc)

theorem cbor_decoded_within_limits_witness:
  "\<exists>o'. resolveOptions sample_options = Inr o' \<and> length [0x82 :: byte, 0x01, 0x20] \<le> byteLimit o' \<and>
     dval_ok o' 0 (DArr [DNum (JInt 1), DNum (JInt (-1))])"
proof (rule cbor_decoded_within_limits)
  show "decodeCbor [0x82, 0x01, 0x20] sample_options = Inr (DArr [DNum (JInt 1), DNum (JInt (-1))])"
    by (simp add: decodeCbor_def resolveOptions_def resolveLimit_def or_default_def sample_options_def
        CBOR_MAX_UINT32_def MAX_CONFIGURED_DEPTH_def DEFAULT_MAX_CBOR_CONTAINER_LENGTH_def
        readItem.simps [of _ _ 0] readItem.simps [of _ _ "Suc 0"] readByte_def readLength_def
        readArgument_def is_safe_def MAX_SAFE_INTEGER_def Let_def read_items_numeral)
qed

lemma run_next_throw_iff:
  "run_next m f = throw e \<longleftrightarrow> m = throw e \<or> (\<exists>x. m = return x \<and> f x = throw e)"
  by (cases m rule: outcome_cases) (auto simp: run_next_def return_def throw_def)

lemma write_throws:
  "ensureCapacity n w = throw e \<Longrightarrow> e = ByteLimit (wlimit w)"
  by (auto simp: ensureCapacity_def Let_def bind_eq_Some_conv throw_def return_def split: if_splits)

lemma writeArgument_throws: "writeArgument major v w \<noteq> throw NotScalarText"
  by (auto simp: writeArgument_def writeByte_def writeUint16_def writeUint32_def writeUint64_def
      run_next_throw_iff Let_def dest!: write_throws)

text \<open>Of the strings within the byte limit the encoder rejects exactly those with a lone surrogate.\<close>

theorem cbor_text_well_formed:
  assumes "\<forall>u\<in>set s. u < 0x10000"
  shows "encodeText o' s w = throw NotScalarText \<longleftrightarrow>
    length (utf8_encode s) \<le> byteLimit o' \<and> \<not> well_formed s"
  using utf8_decode_encode [OF assms] writeArgument_throws
  by (auto simp: encodeText_def Let_def run_next_throw_iff writeBytes_def dest!: write_throws)

theorem cbor_text_well_formed_witness:
  "encodeText \<lparr>byteLimit = 9, containerLimit = 1, depthLimit = 1\<rparr> [0x61, 0xD83D] (new_CborWriter 9)
     = throw NotScalarText"
  using cbor_text_well_formed [of "[0x61, 0xD83D]" "\<lparr>byteLimit = 9, containerLimit = 1, depthLimit = 1\<rparr>"]
  by (simp add: utf8_encode_def utf8_scalar_def high_surrogate_def low_surrogate_def)

end
