(* ===== verification/Json.thy ===== *)
theory Json
  imports Prelude
begin

text \<open>
  Values of type \<open>unknown\<close> as the program receives them: parsed JSON, tool arguments and stored
  session data. \<open>undefined\<close> is a value of its own; a property that is absent reads as
  \<open>undefined\<close>.
\<close>

datatype json =
    JUndefined
  | JNull
  | JBool bool
  | JNum rat
  | JStr jstr
  | JArr "json list"
  | JObj "(jstr \<times> json) list"

text \<open>\<open>value.key\<close> on an object.\<close>

definition get :: "(jstr \<times> json) list \<Rightarrow> jstr \<Rightarrow> json" where
  "get obj k = (case map_of obj k of None \<Rightarrow> JUndefined | Some v \<Rightarrow> v)"

text \<open>\<open>typeof value === "object" && value !== null\<close>, then a property read (arrays have none of the
  properties the program reads by name).\<close>

fun props_of :: "json \<Rightarrow> ((jstr \<times> json) list) option" where
  "props_of (JObj obj) = Some obj"
| "props_of (JArr xs) = Some []"
| "props_of _ = None"

fun as_string :: "json \<Rightarrow> jstr option" where
  "as_string (JStr s) = Some s"
| "as_string _ = None"

fun as_array :: "json \<Rightarrow> (json list) option" where
  "as_array (JArr xs) = Some xs"
| "as_array _ = None"

lemma as_string_iff [simp]: "as_string v = Some s \<longleftrightarrow> v = JStr s"
  by (cases v) auto

lemma as_array_iff [simp]: "as_array v = Some xs \<longleftrightarrow> v = JArr xs"
  by (cases v) auto

text \<open>\<open>for (const x of xs) { const y = f(x); if (!y) return undefined; out.push(y); }\<close>\<close>

fun traverse :: "('a \<Rightarrow> 'b option) \<Rightarrow> 'a list \<Rightarrow> ('b list) option" where
  "traverse f [] = Some []"
| "traverse f (x # xs) =
     (case f x of None \<Rightarrow> None | Some y \<Rightarrow> map_option (\<lambda>ys. y # ys) (traverse f xs))"

lemma traverse_map: "(\<And>x. x \<in> set xs \<Longrightarrow> f (g x) = Some (h x)) \<Longrightarrow> traverse f (map g xs) = Some (map h xs)"
  by (induction xs) auto

lemma traverse_cong [fundef_cong]:
  "xs = ys \<Longrightarrow> (\<And>x. x \<in> set ys \<Longrightarrow> f x = g x) \<Longrightarrow> traverse f xs = traverse g ys"
  by (induction ys arbitrary: xs) (auto split: option.splits)

end
