(* ===== verification/Codec.thy ===== *)
theory Codec
  imports Framing CborProps Json
begin

text \<open>
  \<open>packages/protocol/src/codec.ts\<close>: validated messages over frames over CBOR. The schemas that
  typebox checks are a parameter: \<open>check\<close> on the encoder's object graph, \<open>accept\<close> on the
  decoder's tree. A caught error is wrapped with what its text is built from.
\<close>

section \<open>Protocol values\<close>

text \<open>\<open>count\<close> bounds the objects of the heap: a reference to none is no value.\<close>

function isProtocolValue :: "nat \<Rightarrow> heap \<Rightarrow> bool \<Rightarrow> nat set \<Rightarrow> jsval \<Rightarrow> bool" where
  "isProtocolValue count heap optionalProperty ancestors v =
     (case v of
        VUndefined \<Rightarrow> optionalProperty
      | VNull \<Rightarrow> True
      | VBool b \<Rightarrow> True
      | VNum b \<Rightarrow> True
      | VText s \<Rightarrow> True
      | VOther \<Rightarrow> False
      | VRef r \<Rightarrow>
          if r \<in> ancestors \<or> r \<ge> count then False
          else (case heap r of
             OArray xs \<Rightarrow>
               list_all (\<lambda>x. case x of None \<Rightarrow> True
                  | Some y \<Rightarrow> isProtocolValue count heap False (insert r ancestors) y) xs
           | OMap nullPrototype symbolKey props \<Rightarrow>
               \<not> nullPrototype \<and>
               list_all (\<lambda>(k, y). isProtocolValue count heap True (insert r ancestors) y) props
           | _ \<Rightarrow> False))"
  by pat_completeness auto
lemma fewer_objects: "r < (count :: nat) \<Longrightarrow> r \<notin> ancestors \<Longrightarrow>
    card ({..<count} - insert r ancestors) < card ({..<count} - ancestors)"
  unfolding Diff_insert [of "{..<count}" r ancestors] by (rule card_Diff1_less) simp_all

termination isProtocolValue
  by (relation "measure (\<lambda>(count, heap, opt, ancestors, v). card ({..<count} - ancestors))")
    (simp_all add: fewer_objects del: card_Diff_insert)

declare isProtocolValue.simps [simp del]

fun isProtocolTree :: "dval \<Rightarrow> bool" where
  "isProtocolTree (DBytes bs) = False"
| "isProtocolTree (DArr xs) = list_all isProtocolTree xs"
| "isProtocolTree (DMap kvs) = list_all (\<lambda>(k, v). isProtocolTree v) kvs"
| "isProtocolTree _ = True"

definition parseMessage :: "(dval \<Rightarrow> bool) \<Rightarrow> dval \<Rightarrow> bool" where
  "parseMessage accept t \<longleftrightarrow> isProtocolTree t \<and> accept t"

section \<open>Encoding\<close>

datatype codec_error =
    InvalidMessage jstr
  | EncodeFailed jstr "cbor_error + frame_error"
  | MessageDecoderFailed jstr
  | InvalidFrame jstr "cbor_error + frame_error"
  | InvalidFraming jstr frame_error

definition boundedErrorMessage :: "jstr \<Rightarrow> jstr" where
  "boundedErrorMessage msg = (if length msg \<le> 500 then msg else slice msg 0 497 @ js ''...'')"

definition byte_options :: "int \<Rightarrow> cbor_options" where
  "byte_options n = \<lparr>maxByteLength = Some n, maxContainerLength = None, maxDepth = None\<rparr>"

definition frame_limit :: "int option \<Rightarrow> int" where
  "frame_limit options = or_default options DEFAULT_MAX_FRAME_LENGTH"

definition encodeProtocolMessage ::
  "jstr \<Rightarrow> (heap \<Rightarrow> jsval \<Rightarrow> bool) \<Rightarrow> nat \<Rightarrow> heap \<Rightarrow> jsval \<Rightarrow> int option \<Rightarrow> (codec_error + byte list) option" where
  "encodeProtocolMessage kind check count heap v options =
     (if \<not> (isProtocolValue count heap False {} v \<and> check heap v) then throw (InvalidMessage kind)
      else let limit = frame_limit options in
        case encodeCbor heap v (byte_options limit) of
          None \<Rightarrow> None
        | Some (Inl e) \<Rightarrow> throw (EncodeFailed kind (Inl e))
        | Some (Inr payload) \<Rightarrow>
            (case encodeFrame payload of
               Inl e \<Rightarrow> throw (EncodeFailed kind (Inr e))
             | Inr frame \<Rightarrow>
                 (case assertCompleteFrame frame (Some limit) of
                    Inl e \<Rightarrow> throw (EncodeFailed kind (Inr e))
                  | Inr _ \<Rightarrow> return frame)))"

section \<open>Decoding\<close>

record message_decoder =
  md_failed :: bool
  md_frames :: frame_decoder
  md_limit :: int

definition new_MessageDecoder :: "int option \<Rightarrow> frame_error + message_decoder" where
  "new_MessageDecoder options =
     map_sum (\<lambda>e. e) (\<lambda>d. \<lparr>md_failed = False, md_frames = d, md_limit = frame_limit options\<rparr>)
       (new_FrameDecoder options)"

fun decode_frames ::
  "jstr \<Rightarrow> (dval \<Rightarrow> bool) \<Rightarrow> int \<Rightarrow> byte list list \<Rightarrow> dval list \<Rightarrow> codec_error + dval list" where
  "decode_frames kind accept limit [] messages = Inr messages"
| "decode_frames kind accept limit (f # fs) messages =
     (case decodeCbor f (byte_options limit) of
        Inl e \<Rightarrow> Inl (InvalidFrame kind (Inl e))
      | Inr t \<Rightarrow>
          if \<not> parseMessage accept t then Inl (InvalidMessage kind)
          else decode_frames kind accept limit fs (messages @ [t]))"

definition push_message ::
  "jstr \<Rightarrow> (dval \<Rightarrow> bool) \<Rightarrow> message_decoder \<Rightarrow> byte list
     \<Rightarrow> (message_decoder \<times> (codec_error + dval list)) option" where
  "push_message kind accept d chunk =
     (if md_failed d then Some (d, Inl (MessageDecoderFailed kind))
      else case push (md_frames d) chunk of
        None \<Rightarrow> None
      | Some (f, Inl e) \<Rightarrow>
          Some (d\<lparr>md_frames := f, md_failed := True\<rparr>, Inl (InvalidFrame kind (Inr e)))
      | Some (f, Inr payloads) \<Rightarrow>
          (case decode_frames kind accept (md_limit d) payloads [] of
             Inl e \<Rightarrow> Some (d\<lparr>md_frames := f, md_failed := True\<rparr>, Inl e)
           | Inr messages \<Rightarrow> Some (d\<lparr>md_frames := f\<rparr>, Inr messages)))"

definition end_messages :: "jstr \<Rightarrow> message_decoder \<Rightarrow> message_decoder \<times> (codec_error + unit)" where
  "end_messages kind d =
     (if md_failed d then (d, Inl (MessageDecoderFailed kind))
      else case end_stream (md_frames d) of
        (f, Inl e) \<Rightarrow> (d\<lparr>md_frames := f, md_failed := True\<rparr>, Inl (InvalidFraming kind e))
      | (f, Inr u) \<Rightarrow> (d\<lparr>md_frames := f\<rparr>, Inr ()))"

section \<open>The message decoder as an incremental reader\<close>

definition message_feed ::
  "jstr \<Rightarrow> (dval \<Rightarrow> bool) \<Rightarrow> message_decoder \<Rightarrow> byte list \<Rightarrow> (message_decoder \<times> dval list) option" where
  "message_feed kind accept d chunk =
     (case push_message kind accept d chunk of Some (d', Inr ms) \<Rightarrow> Some (d', ms) | _ \<Rightarrow> None)"

definition message_inv :: "int \<Rightarrow> message_decoder \<Rightarrow> bool" where
  "message_inv limit d \<longleftrightarrow>
     \<not> md_failed d \<and> md_limit d = limit \<and> limited_inv (nat limit) (md_frames d)"

definition message_of :: "(dval \<Rightarrow> bool) \<Rightarrow> int \<Rightarrow> byte list \<Rightarrow> dval option" where
  "message_of accept limit f =
     (case decodeCbor f (byte_options limit) of Inl e \<Rightarrow> None
      | Inr t \<Rightarrow> if parseMessage accept t then Some t else None)"

definition message_split :: "(dval \<Rightarrow> bool) \<Rightarrow> int \<Rightarrow> byte list \<Rightarrow> (dval list \<times> byte list) option" where
  "message_split accept limit bs =
     (case frame_split (nat limit) bs of None \<Rightarrow> None
      | Some (fs, r) \<Rightarrow> map_option (\<lambda>ts. (ts, r)) (traverse (message_of accept limit) fs))"

lemma traverse_append:
  "traverse f (xs @ ys) = Option.bind (traverse f xs) (\<lambda>a. map_option (\<lambda>b. a @ b) (traverse f ys))"
  by (induction xs) (auto split: option.splits simp: map_option_case split: bind_splits)

lemma decode_frames_traverse:
  "decode_frames kind accept limit fs acc = Inr ms \<longleftrightarrow>
     (\<exists>ts. traverse (message_of accept limit) fs = Some ts \<and> ms = acc @ ts)"
  by (induction fs arbitrary: acc) (auto simp: message_of_def split: sum.splits option.splits)

lemma push_frames:
  assumes "limited_inv limit f"
  shows "case frame_split limit (pending f @ chunk) of
      Some (fs, r) \<Rightarrow> \<exists>f'. push f chunk = Some (f', Inr fs) \<and> limited_inv limit f' \<and> pending f' = r
    | None \<Rightarrow> \<exists>f' e. push f chunk = Some (f', Inl e)"
  using push_meets_spec [of f chunk] assms
  by (auto simp: limited_inv_def frame_split_def push_meets_def split: prod.splits stream_end.splits)

lemma message_feed_ok:
  assumes "message_inv limit d"
  shows "case message_split accept limit (pending (md_frames d) @ chunk) of
      Some (ts, r) \<Rightarrow> \<exists>d'. message_feed kind accept d chunk = Some (d', ts) \<and> message_inv limit d' \<and>
        pending (md_frames d') = r
    | None \<Rightarrow> message_feed kind accept d chunk = None"
proof -
  have d: "\<not> md_failed d" "md_limit d = limit" "limited_inv (nat limit) (md_frames d)"
    using assms by (auto simp: message_inv_def)
  show ?thesis
  proof (cases "frame_split (nat limit) (pending (md_frames d) @ chunk)")
    case None
    then show ?thesis
      using push_frames [OF d(3), of chunk] d by (auto simp: message_split_def message_feed_def push_message_def)
  next
    case (Some p)
    obtain fs r where p: "p = (fs, r)" by (cases p)
    obtain f' where f': "push (md_frames d) chunk = Some (f', Inr fs)" "limited_inv (nat limit) f'" "pending f' = r"
      using push_frames [OF d(3), of chunk] Some p by auto
    show ?thesis
    proof (cases "decode_frames kind accept limit fs []")
      case (Inl e)
      then have "traverse (message_of accept limit) fs = None"
        using decode_frames_traverse [of kind accept limit fs "[]"] by (cases "traverse (message_of accept limit) fs") auto
      then show ?thesis using Inl f' d Some p by (simp add: message_split_def message_feed_def push_message_def)
    next
      case (Inr ms)
      then have "traverse (message_of accept limit) fs = Some ms"
        using decode_frames_traverse [of kind accept limit fs "[]"] by simp
      then show ?thesis
        using Inr f' d Some p by (simp add: message_split_def message_feed_def push_message_def message_inv_def)
    qed
  qed
qed

interpretation messages: incremental "message_feed kind accept" "message_inv limit"
    "\<lambda>d. pending (md_frames d)" "message_split accept limit"
  for kind accept limit
proof unfold_locales
  fix d xs ys r
  assume "message_inv limit d" "message_split accept limit (pending (md_frames d) @ xs) = Some (ys, r)"
  then show "\<exists>s'. message_feed kind accept d xs = Some (s', ys) \<and> message_inv limit s' \<and> pending (md_frames s') = r"
    using message_feed_ok [of limit d kind accept xs] by simp
next
  fix d xs
  assume "message_inv limit d" "message_split accept limit (pending (md_frames d) @ xs) = None"
  then show "message_feed kind accept d xs = None"
    using message_feed_ok [of limit d kind accept xs] by simp
next
  fix d
  assume "message_inv limit d"
  then show "message_split accept limit (pending (md_frames d)) = Some ([], pending (md_frames d))"
    using frames.idle [of "nat limit" "md_frames d"] by (simp add: message_inv_def message_split_def)
next
  fix xs zs
  show "message_split accept limit (xs @ zs) =
    (case message_split accept limit xs of None \<Rightarrow> None
     | Some (ys, r) \<Rightarrow> map_option (\<lambda>(ys', r'). (ys @ ys', r')) (message_split accept limit (r @ zs)))"
    by (auto simp: message_split_def frames.splits_append [of "nat limit" xs zs] traverse_append
        option.map_comp comp_def
        split: option.splits prod.splits bind_splits)
qed

section \<open>Messages arrive as they were sent\<close>

lemma protocol_tree:
  assumes "denotes heap v t" and "isProtocolValue count heap opt ancestors v"
  shows "isProtocolTree t"
  using assms
proof (induction arbitrary: opt ancestors rule: denotes.induct)
  case (denotes_bytes r bs)
  then show ?case by (simp add: isProtocolValue.simps [of _ _ _ _ "VRef r"] split: if_splits)
next
  case (denotes_array r xs ts)
  then have items: "\<forall>y. Some y \<in> set xs \<longrightarrow> isProtocolValue count heap False (insert r ancestors) y"
    by (fastforce simp: isProtocolValue.simps [of _ _ _ _ "VRef r"] list_all_iff split: if_splits)
  have "list_all isProtocolTree ts"
    using denotes_array(2) items by (induction rule: list_all2_induct) auto
  then show ?case by simp
next
  case (denotes_map r np sk props kts)
  then have items: "\<forall>(k, y)\<in>set (map_entries props). isProtocolValue count heap True (insert r ancestors) y"
    by (auto simp: isProtocolValue.simps [of _ _ _ _ "VRef r"] map_entries_def list_all_iff split: if_splits)
  have "list_all (\<lambda>(k, v). isProtocolTree v) kts"
    using denotes_map(2) items by (induction rule: list_all2_induct) auto
  then show ?case by simp
qed auto

lemma byte_options_limit:
  "resolveOptions (byte_options n) = Inr o' \<Longrightarrow> byteLimit o' = nat n"
  by (auto simp: resolveOptions_def byte_options_def or_default_def resolveLimit_def split: sum.splits if_splits)

lemma encoded_message:
  assumes "encodeProtocolMessage kind check count heap v options = return frame" and "heap_ok heap"
    and "\<And>t. check heap v \<Longrightarrow> denotes heap v t \<Longrightarrow> accept t"
  obtains payload t where "encodeFrame payload = Inr frame" "denotes heap v t"
    "message_of accept (frame_limit options) payload = Some t" "length payload \<le> nat (frame_limit options)"
proof -
  from assms(1) obtain payload where valid: "isProtocolValue count heap False {} v" "check heap v"
    and enc: "encodeCbor heap v (byte_options (frame_limit options)) = return payload"
    and frame: "encodeFrame payload = Inr frame"
    by (auto simp: encodeProtocolMessage_def Let_def return_def throw_def split: if_splits option.splits sum.splits)
  obtain t where t: "denotes heap v t" "decodeCbor payload (byte_options (frame_limit options)) = Inr t"
    using encoded_decodes [OF assms(2) enc] by blast
  have "message_of accept (frame_limit options) payload = Some t"
    using t protocol_tree [OF t(1) valid(1)] assms(3) valid(2) by (simp add: message_of_def parseMessage_def)
  moreover have "length payload \<le> nat (frame_limit options)"
    using t(2) byte_options_limit by (fastforce simp: decodeCbor_def split: sum.splits if_splits)
  ultimately show thesis using that frame t(1) by blast
qed

lemma new_message_decoder:
  assumes "new_MessageDecoder options = Inr d"
  shows "message_inv (frame_limit options) d" and "pending (md_frames d) = []"
proof -
  obtain f where f: "new_FrameDecoder options = Inr f" "d = \<lparr>md_failed = False, md_frames = f, md_limit = frame_limit options\<rparr>"
    using assms by (auto simp: new_MessageDecoder_def map_sum_def split: sum.splits)
  then have "int (maxFrameLength f) = frame_limit options"
    by (auto simp: new_FrameDecoder_def resolveMaxFrameLength_def frame_limit_def or_default_def Let_def
        split: sum.splits if_splits option.splits)
  then have "nat (frame_limit options) = maxFrameLength f" by linarith
  then show "message_inv (frame_limit options) d" "pending (md_frames d) = []"
    using f new_decoder_inv [OF f(1)] by (simp_all add: message_inv_def limited_inv_def)
qed

text \<open>C1: messages that one side encodes and a transport cuts into any chunks arrive on the other side
  as the values that were sent, in order, and the stream ends cleanly. It relies on the schema
  check accepting the tree of every value it accepts.\<close>

theorem messages_round_trip:
  assumes "new_MessageDecoder options = Inr d"
    and "list_all2 (\<lambda>(count, heap, v) frame. heap_ok heap \<and>
           encodeProtocolMessage kind check count heap v options = return frame) sent encoded"
    and "\<And>heap v t. check heap v \<Longrightarrow> denotes heap v t \<Longrightarrow> accept t"
    and "concat chunks = concat encoded"
  shows "\<exists>d' ts. messages.feed_all kind accept d chunks = Some (d', ts) \<and>
    list_all2 (\<lambda>(count, heap, v) t. denotes heap v t) sent ts \<and> snd (end_messages kind d') = Inr ()"
proof -
  let ?limit = "frame_limit options"
  note d = new_message_decoder [OF assms(1)]
  have "\<exists>ps ts. map encodeFrame ps = map Inr encoded \<and> traverse (message_of accept ?limit) ps = Some ts \<and>
      list_all2 (\<lambda>(count, heap, v) t. denotes heap v t) sent ts \<and> (\<forall>p\<in>set ps. length p \<le> nat ?limit)"
    using assms(2)
  proof (induction rule: list_all2_induct)
    case (Cons m sent frame encoded)
    obtain count heap v where m: "m = (count, heap, v)" by (cases m)
    from Cons(1) obtain p t where "encodeFrame p = Inr frame" "denotes heap v t"
        "message_of accept ?limit p = Some t" "length p \<le> nat ?limit"
      using encoded_message [of kind check count heap v options frame accept] assms(3) by (auto simp: m)
    moreover obtain ps ts where "map encodeFrame ps = map Inr encoded"
        "traverse (message_of accept ?limit) ps = Some ts"
        "list_all2 (\<lambda>(count, heap, v) t. denotes heap v t) sent ts" "\<forall>p\<in>set ps. length p \<le> nat ?limit"
      using Cons.IH by blast
    ultimately show ?case by (intro exI [of _ "p # ps"] exI [of _ "t # ts"]) (simp add: m)
  qed simp
  then obtain ps ts where ps: "map encodeFrame ps = map Inr encoded" "traverse (message_of accept ?limit) ps = Some ts"
      "list_all2 (\<lambda>(count, heap, v) t. denotes heap v t) sent ts" "\<forall>p\<in>set ps. length p \<le> nat ?limit"
    by blast
  have lim: "nat ?limit \<le> FRAME_MAX_UINT32"
    using d(1) by (auto simp: message_inv_def limited_inv_def decoder_inv_def)
  have "map (\<lambda>p. put32 (length p) @ p) ps = encoded"
  proof -
    have "map encodeFrame ps = map (\<lambda>p. Inr (put32 (length p) @ p)) ps"
      using ps(4) lim by (auto simp: encodeFrame_bytes)
    with ps(1) have "map (Inr :: _ \<Rightarrow> frame_error + _) (map (\<lambda>p. put32 (length p) @ p) ps) = map Inr encoded"
      by (simp add: comp_def)
    then show ?thesis by (simp only: map_Inr_inject)
  qed
  then have "frame_split (nat ?limit) (pending (md_frames d) @ concat chunks) = Some (ps, [])"
    using split_encoded [OF ps(4) lim] assms(4) d(2) by simp
  then have "message_split accept ?limit (pending (md_frames d) @ concat chunks) = Some (ts, [])"
    using ps(2) by (simp add: message_split_def)
  from messages.feed_all_split [OF d(1) this, of kind]
  obtain d' where d': "messages.feed_all kind accept d chunks = Some (d', ts)" "message_inv ?limit d'"
      "pending (md_frames d') = []" by blast
  moreover have "snd (end_messages kind d') = Inr ()"
    using d'(2,3) drained_end [of "md_frames d'"]
    by (auto simp: end_messages_def message_inv_def limited_inv_def split: prod.splits sum.splits)
  ultimately show ?thesis using ps(3) by blast
qed

definition array_heap :: heap where
  "array_heap r = OArray [Some (VBool True), Some VNull]"

lemma array_message:
  "encodeProtocolMessage (js ''client'') (\<lambda>heap v. True) 1 array_heap (VRef 0) (Some 16)
     = return [0, 0, 0, 3, 0x82, 0xf5, 0xf6]"
proof -
  have "encodeCbor array_heap (VRef 0) (byte_options 16) = return [0x82, 0xf5, 0xf6]"
    by (simp add: encodeCbor_def resolveOptions_def resolveLimit_def or_default_def byte_options_def
        CBOR_MAX_UINT32_def MAX_CONFIGURED_DEPTH_def DEFAULT_MAX_CBOR_CONTAINER_LENGTH_def
        DEFAULT_MAX_CBOR_DEPTH_def encodeValue.simps [of _ _ 0] encodeValue.simps [of _ _ "Suc 0"]
        array_heap_def writeArgument_def writeByte_def ensureCapacity_def new_CborWriter_def zeros_def
        put_bytes_def array_set_def initial_byte_def finish_def slice_def Let_def)
  moreover have "isProtocolValue 1 array_heap False {} (VRef 0)"
    by (simp add: isProtocolValue.simps [of _ _ _ _ "VRef 0"] isProtocolValue.simps [of _ _ _ _ "VBool True"]
        isProtocolValue.simps [of _ _ _ _ VNull] array_heap_def)
  moreover have "encodeFrame [0x82, 0xf5, 0xf6] = Inr [0, 0, 0, 3, 0x82, 0xf5, 0xf6]"
    by (simp add: encodeFrame_bytes FRAME_MAX_UINT32_def put32_def)
  moreover have "assertCompleteFrame [0, 0, 0, 3, 0x82, 0xf5, 0xf6] (Some 16) = Inr ()"
    by (simp add: assertCompleteFrame_def FRAME_HEADER_LENGTH_def FRAME_MAX_UINT32_def be32_def
        resolveMaxFrameLength_def nth_Cons_numeral)
  ultimately show ?thesis
    by (simp add: encodeProtocolMessage_def frame_limit_def or_default_def return_def)
qed

theorem messages_round_trip_witness:
  "\<exists>d d' ts. messages.feed_all (js ''client'') (\<lambda>t. True) d [[0, 0], [0, 3, 0x82], [0xf5, 0xf6]] = Some (d', ts) \<and>
     list_all2 (\<lambda>(count, heap, v) t. denotes heap v t) [(1 :: nat, array_heap, VRef 0)] ts \<and>
     snd (end_messages (js ''client'') d') = Inr ()"
proof -
  obtain d where d: "new_MessageDecoder (Some 16) = Inr d"
    by (simp add: new_MessageDecoder_def new_FrameDecoder_def resolveMaxFrameLength_def FRAME_MAX_UINT32_def)
  have "heap_ok array_heap" by (simp add: heap_ok_def array_heap_def)
  then have "list_all2 (\<lambda>(count, heap, v) frame. heap_ok heap \<and>
      encodeProtocolMessage (js ''client'') (\<lambda>heap v. True) count heap v (Some 16) = return frame)
      [(1, array_heap, VRef 0)] [[0, 0, 0, 3, 0x82, 0xf5, 0xf6]]"
    using array_message by simp
  from messages_round_trip [OF d this, of "\<lambda>t. True" "[[0, 0], [0, 3, 0x82], [0xf5, 0xf6]]"]
  show ?thesis by auto
qed

end
