(* ===== verification/Jsonl.thy ===== *)
theory Jsonl
  imports Incremental
begin

text \<open>
  \<open>packages/coding-agent/src/modes/rpc/jsonl.ts\<close>: the LF-only line reader behind the RPC
  and app-server transports. The chunks are the text the stream's string decoder hands over
  (\<open>StringDecoder\<close> is Node's); the reader's state is the text of the unfinished line.
\<close>

definition serializeJsonLine :: "('v \<Rightarrow> jstr) \<Rightarrow> 'v \<Rightarrow> jstr" where
  "serializeJsonLine stringify value = stringify value @ [LF]"

definition line_end :: "jstr \<Rightarrow> nat \<Rightarrow> nat \<Rightarrow> nat" where
  "line_end buffer lineStart newlineIndex =
     (if newlineIndex > lineStart \<and> buffer ! (newlineIndex - 1) = CR
      then newlineIndex - 1 else newlineIndex)"

text \<open>The \<open>while\<close> of \<open>onData\<close>: the lines emitted and the final \<open>lineStart\<close>.\<close>

function emit_lines :: "jstr \<Rightarrow> nat \<Rightarrow> jstr list \<times> nat" where
  "emit_lines buffer lineStart =
     (case index_of LF buffer lineStart of
        None \<Rightarrow> ([], lineStart)
      | Some newlineIndex \<Rightarrow>
          (slice buffer lineStart (line_end buffer lineStart newlineIndex)
             # fst (emit_lines buffer (newlineIndex + 1)),
           snd (emit_lines buffer (newlineIndex + 1))))"
  by pat_completeness auto
termination
  by (relation "measure (\<lambda>(buffer, lineStart). length buffer - lineStart)")
    (auto simp: index_of_def dest!: index_from_Some)

declare emit_lines.simps [simp del]

definition onData :: "jstr \<Rightarrow> jstr \<Rightarrow> jstr \<times> jstr list" where
  "onData buffer chunk =
     (let buffer = buffer @ chunk;
          lineStart = snd (emit_lines buffer 0)
      in (if lineStart = 0 then buffer else drop lineStart buffer, fst (emit_lines buffer 0)))"

definition onEnd :: "jstr \<Rightarrow> jstr \<Rightarrow> jstr \<times> jstr list" where
  "onEnd buffer rest =
     (let buffer = buffer @ rest
      in if length buffer > 0
         then ([], [if last buffer = CR then butlast buffer else buffer])
         else (buffer, []))"

section \<open>The lines of a text\<close>

definition strip_cr :: "jstr \<Rightarrow> jstr" where
  "strip_cr l = (if l \<noteq> [] \<and> last l = CR then butlast l else l)"

function text_lines :: "jstr \<Rightarrow> jstr list \<times> jstr" where
  "text_lines s =
     (case index_from LF s of
        None \<Rightarrow> ([], s)
      | Some i \<Rightarrow> (strip_cr (take i s) # fst (text_lines (drop (Suc i) s)),
                    snd (text_lines (drop (Suc i) s))))"
  by pat_completeness auto
termination
  by (relation "measure length") (auto dest!: index_from_Some)

declare text_lines.simps [simp del]

lemma text_lines_none: "LF \<notin> set s \<Longrightarrow> text_lines s = ([], s)"
  by (simp add: text_lines.simps index_from_None [symmetric])

lemma text_lines_cons:
  "LF \<notin> set l \<Longrightarrow> text_lines (l @ LF # s) = (strip_cr l # fst (text_lines s), snd (text_lines s))"
  by (subst text_lines.simps) (simp add: index_from_split)

lemma split_at_LF: "LF \<in> set s \<Longrightarrow> \<exists>l r. s = l @ LF # r \<and> LF \<notin> set l"
  by (rule split_list_first)

lemma text_lines_rest: "LF \<notin> set (snd (text_lines s))"
proof (induction s rule: text_lines.induct)
  case (1 s)
  then show ?case
    by (subst text_lines.simps) (auto simp: index_from_None split: option.splits)
qed

lemma text_lines_append:
  "text_lines (s @ t) =
     (fst (text_lines s) @ fst (text_lines (snd (text_lines s) @ t)),
      snd (text_lines (snd (text_lines s) @ t)))"
proof (induction "length s" arbitrary: s rule: less_induct)
  case less
  show ?case
  proof (cases "LF \<in> set s")
    case False
    then show ?thesis by (simp add: text_lines_none)
  next
    case True
    then obtain l r where s: "s = l @ LF # r" "LF \<notin> set l" using split_at_LF by blast
    then show ?thesis using less [of r] by (simp add: text_lines_cons)
  qed
qed

lemma emit_lines_text:
  assumes "k \<le> length s"
  shows "fst (emit_lines s k) = fst (text_lines (drop k s)) \<and>
         drop (snd (emit_lines s k)) s = snd (text_lines (drop k s)) \<and>
         k \<le> snd (emit_lines s k)"
  using assms
proof (induction s k rule: emit_lines.induct)
  case (1 s k)
  show ?case
  proof (cases "index_from LF (drop k s)")
    case None
    then show ?thesis
      by (simp add: emit_lines.simps [of s k] text_lines.simps [of "drop k s"] index_of_def)
  next
    case (Some i)
    then have i: "i < length s - k" by (auto dest: index_from_Some)
    have idx: "index_of LF s k = Some (k + i)" using Some by (simp add: index_of_def)
    have IH: "fst (emit_lines s (k + i + 1)) = fst (text_lines (drop (k + i + 1) s)) \<and>
        drop (snd (emit_lines s (k + i + 1))) s = snd (text_lines (drop (k + i + 1) s)) \<and>
        k + i + 1 \<le> snd (emit_lines s (k + i + 1))"
      using "1.IH" [OF idx] i "1.prems" by simp
    have "slice s k (line_end s k (k + i)) = strip_cr (take i (drop k s))"
    proof (cases i)
      case 0
      then show ?thesis by (simp add: slice_def line_end_def strip_cr_def)
    next
      case (Suc j)
      then have "last (take i (drop k s)) = s ! (k + j)" "take i (drop k s) \<noteq> []"
        using i by (auto simp: last_conv_nth)
      then show ?thesis using Suc i
        by (auto simp: slice_def line_end_def strip_cr_def butlast_take)
    qed
    moreover have "drop (Suc i) (drop k s) = drop (k + i + 1) s" by (simp add: add_ac)
    ultimately show ?thesis
      using IH idx Some
      by (simp add: emit_lines.simps [of s k] text_lines.simps [of "drop k s"])
  qed
qed

lemma onData_text: "onData buffer chunk = (snd (text_lines (buffer @ chunk)), fst (text_lines (buffer @ chunk)))"
  using emit_lines_text [of 0 "buffer @ chunk"]
  by (auto simp: onData_def Let_def)

interpretation line_reader: incremental
  "\<lambda>b c. Some (onData b c)" "\<lambda>b. LF \<notin> set b" "\<lambda>b. b"
  "\<lambda>s. Some (text_lines s)"
proof unfold_locales
  fix xs zs :: jstr
  show "Some (text_lines (xs @ zs)) = (case Some (text_lines xs) of None \<Rightarrow> None
       | Some (ys, r) \<Rightarrow> map_option (\<lambda>(ys', r'). (ys @ ys', r')) (Some (text_lines (r @ zs))))"
    by (subst text_lines_append) (simp add: case_prod_beta)
next
  fix s xs ys r
  assume "Some (text_lines (s @ xs)) = Some (ys, r)"
  then show "\<exists>s'. Some (onData s xs) = Some (s', ys) \<and> LF \<notin> set s' \<and> s' = r"
    using text_lines_rest [of "s @ xs"] by (auto simp: onData_text)
qed (auto simp: text_lines_none)

section \<open>Properties\<close>

text \<open>Records written one per line arrive unchanged and in order however the transport cuts the
  text, provided the JSON text of a record holds no line feed and does not end in a carriage
  return (\<open>JSON.stringify\<close> escapes both); nothing is left over for the end of the stream.\<close>

theorem jsonl_round_trip:
  assumes "\<forall>v\<in>set vs. LF \<notin> set (stringify v) \<and> strip_cr (stringify v) = stringify v"
    and "concat chunks = concat (map (serializeJsonLine stringify) vs)"
  shows "line_reader.feed_all [] chunks = Some ([], map stringify vs)"
proof -
  have "text_lines (concat (map (serializeJsonLine stringify) vs)) = (map stringify vs, [])"
    using assms(1)
  proof (induction vs)
    case Nil
    then show ?case by (simp add: text_lines_none)
  next
    case (Cons v vs)
    then show ?case by (simp add: serializeJsonLine_def text_lines_cons)
  qed
  with line_reader.feed_all_split [of "[]" chunks "map stringify vs" "[]"] assms(2)
  show ?thesis by auto
qed

theorem jsonl_round_trip_witness:
  "line_reader.feed_all [] [[49], [10, 50, 51], [10]] = Some ([], [[49], [50, 51]])"
  using jsonl_round_trip [of "[[49], [50, 51]]" "\<lambda>v. v" "[[49], [10, 50, 51], [10]]"]
  by (simp add: strip_cr_def serializeJsonLine_def)

end
