(* ===== verification/JsText.thy ===== *)
theory JsText
  imports Prelude
begin

text \<open>
  The string operations of the language that the program calls: whitespace and \<open>trim\<close>,
  \<open>startsWith\<close>, \<open>includes\<close>, \<open>split\<close>/\<open>join\<close> on a separator unit, decimal digits, and a
  backtracking regular-expression matcher with JavaScript's order of alternatives, in which the
  regular expressions of the source are written down as they are.
\<close>

section \<open>Whitespace and trimming\<close>

text \<open>\<open>\s\<close> and the characters \<open>trim\<close> removes: WhiteSpace and LineTerminator of ECMA-262.\<close>

definition is_space :: "nat \<Rightarrow> bool" where
  "is_space c \<longleftrightarrow> (9 \<le> c \<and> c \<le> 13) \<or> c = 32 \<or> c = 0xA0 \<or> c = 0x1680 \<or>
     (0x2000 \<le> c \<and> c \<le> 0x200A) \<or> c = 0x2028 \<or> c = 0x2029 \<or> c = 0x202F \<or> c = 0x205F \<or>
     c = 0x3000 \<or> c = 0xFEFF"

definition trim_start :: "jstr \<Rightarrow> jstr" where
  "trim_start s = dropWhile is_space s"

definition trim_end :: "jstr \<Rightarrow> jstr" where
  "trim_end s = rev (dropWhile is_space (rev s))"

definition trim :: "jstr \<Rightarrow> jstr" where
  "trim s = trim_end (trim_start s)"

lemma trim_start_id [simp]: "s = [] \<or> \<not> is_space (hd s) \<Longrightarrow> trim_start s = s"
  by (cases s) (auto simp: trim_start_def)

lemma trim_end_id [simp]: "s = [] \<or> \<not> is_space (last s) \<Longrightarrow> trim_end s = s"
  by (cases s rule: rev_cases) (auto simp: trim_end_def)

text \<open>A string that \<open>trim\<close> leaves alone.\<close>

definition trimmed :: "jstr \<Rightarrow> bool" where
  "trimmed s \<longleftrightarrow> s = [] \<or> (\<not> is_space (hd s) \<and> \<not> is_space (last s))"

lemma trim_trimmed [simp]: "trimmed s \<Longrightarrow> trim s = s"
  by (auto simp: trimmed_def trim_def)

lemma trimmed_trim: "trimmed (trim s)"
proof -
  have hd_dw: "dropWhile P xs = [] \<or> \<not> P (hd (dropWhile P xs))" for P and xs :: jstr
    using hd_dropWhile [of P xs] by blast
  define t where "t = trim_start s"
  have t: "t = [] \<or> \<not> is_space (hd t)" using hd_dw by (simp add: t_def trim_start_def)
  define u where "u = trim_end t"
  have last: "u = [] \<or> \<not> is_space (last u)"
    using hd_dw [of is_space "rev t"] by (auto simp: u_def trim_end_def last_rev)
  have "u = [] \<or> hd u = hd t"
  proof -
    have "\<exists>v. t = u @ v"
      unfolding u_def trim_end_def
      by (metis rev_append rev_rev_ident takeWhile_dropWhile_id)
    then show ?thesis by (cases u) auto
  qed
  with t last show ?thesis by (auto simp: trimmed_def trim_def u_def t_def [symmetric] trim_end_def)
qed

section \<open>Prefixes, substrings, lines\<close>

fun starts_with :: "jstr \<Rightarrow> jstr \<Rightarrow> bool" where
  "starts_with s [] = True"
| "starts_with [] (p # ps) = False"
| "starts_with (x # xs) (p # ps) = (x = p \<and> starts_with xs ps)"

fun has_substring :: "jstr \<Rightarrow> jstr \<Rightarrow> bool" where
  "has_substring [] t = (t = [])"
| "has_substring (x # xs) t = (starts_with (x # xs) t \<or> has_substring xs t)"

lemma starts_with_iff: "starts_with s p \<longleftrightarrow> (\<exists>r. s = p @ r)"
  by (induction s p rule: starts_with.induct) auto

lemma starts_with_append [simp]: "starts_with (p @ s) p"
  by (auto simp: starts_with_iff)

lemma has_substring_iff: "has_substring s t \<longleftrightarrow> (\<exists>a b. s = a @ t @ b)"
proof (induction s)
  case Nil
  then show ?case by simp
next
  case (Cons x s)
  have "(\<exists>a b. x # s = a @ t @ b) \<longleftrightarrow> (\<exists>b. x # s = t @ b) \<or> (\<exists>a b. s = a @ t @ b)"
    by (metis append_Nil append_Cons Cons_eq_append_conv)
  with Cons show ?case by (simp add: starts_with_iff)
qed

lemma has_substring_refl [simp]: "has_substring s s"
  by (auto simp: has_substring_iff intro: exI [of _ "[]"])

text \<open>\<open>s.split(sep)\<close> for a separator of one code unit, and \<open>parts.join(sep)\<close>.\<close>

fun split_on :: "nat \<Rightarrow> jstr \<Rightarrow> jstr list" where
  "split_on c [] = [[]]"
| "split_on c (x # xs) =
     (if x = c then [] # split_on c xs
      else (case split_on c xs of [] \<Rightarrow> [[x]] | l # ls \<Rightarrow> (x # l) # ls))"

fun join :: "jstr \<Rightarrow> jstr list \<Rightarrow> jstr" where
  "join sep [] = []"
| "join sep [x] = x"
| "join sep (x # y # zs) = x @ sep @ join sep (y # zs)"

lemma split_on_neq_Nil [simp]: "split_on c s \<noteq> []"
  by (induction s) (auto split: list.splits)

lemma split_on_none: "c \<notin> set s \<Longrightarrow> split_on c s = [s]"
  by (induction s) auto

lemma split_on_append: "c \<notin> set l \<Longrightarrow> split_on c (l @ c # s) = l # split_on c s"
  by (induction l) auto

lemma split_join:
  "ls \<noteq> [] \<Longrightarrow> \<forall>l\<in>set ls. c \<notin> set l \<Longrightarrow> split_on c (join [c] ls) = ls"
  by (induction "[c]" ls rule: join.induct) (auto simp: split_on_none split_on_append)

lemma join_split: "join [c] (split_on c s) = s"
proof (induction s)
  case Nil
  then show ?case by simp
next
  case (Cons x s)
  obtain l ls where split: "split_on c s = l # ls" by (cases "split_on c s") auto
  with Cons show ?case by (cases ls) auto
qed

lemma split_on_parts: "l \<in> set (split_on c s) \<Longrightarrow> c \<notin> set l"
  by (induction s arbitrary: l) (fastforce split: list.splits if_splits)+

definition is_digit :: "nat \<Rightarrow> bool" where
  "is_digit c \<longleftrightarrow> 48 \<le> c \<and> c \<le> 57"

text \<open>\<open>String(n)\<close> for a natural number, and a string in double quotes.\<close>

fun decimal :: "nat \<Rightarrow> jstr" where
  "decimal n = (if n < 10 then [48 + n] else decimal (n div 10) @ [48 + n mod 10])"

declare decimal.simps [simp del]

lemma last_digit: "10 \<le> n \<Longrightarrow> decimal n = decimal (n div 10) @ [48 + n mod 10]" "n < 10 \<Longrightarrow> decimal n = [48 + n]"
  by (subst decimal.simps; simp)+

lemma decimal_inject: "decimal m = decimal n \<longleftrightarrow> m = n"
proof -
  have ne: "decimal k \<noteq> []" for k by (subst decimal.simps) simp
  have "decimal m = decimal n \<Longrightarrow> m = n"
  proof (induction m arbitrary: n rule: less_induct)
    case (less m)
    consider "m < 10" "n < 10" | "m < 10" "10 \<le> n" | "10 \<le> m" "n < 10" | "10 \<le> m" "10 \<le> n" by linarith
    then show ?case
    proof cases
      case 4
      have "decimal (m div 10) = decimal (n div 10)" "m mod 10 = n mod 10"
        using less.prems [unfolded last_digit(1) [OF 4(1)] last_digit(1) [OF 4(2)]] by simp_all
      moreover have "m div 10 < m" using 4 by simp
      ultimately show ?thesis using less.IH by (metis div_mult_mod_eq)
    next
      case 2
      show ?thesis using less.prems [unfolded last_digit(2) [OF 2(1)] last_digit(1) [OF 2(2)]] ne [of "n div 10"] by simp
    next
      case 3
      show ?thesis using less.prems [unfolded last_digit(1) [OF 3(1)] last_digit(2) [OF 3(2)]] ne [of "m div 10"] by simp
    next
      case 1
      show ?thesis using less.prems [unfolded last_digit(2) [OF 1(1)] last_digit(2) [OF 1(2)]] by simp
    qed
  qed
  then show ?thesis by blast
qed

definition quoted :: "jstr \<Rightarrow> jstr" where
  "quoted s = [34] @ s @ [34]"

section \<open>Regular expressions\<close>

text \<open>\<open>rest_of r s\<close> lists what can be left of \<open>s\<close> after a match of \<open>r\<close> at its start, in the order in
  which a backtracking matcher tries them; the first is the one JavaScript takes. A quantifier
  does not iterate over an empty match.\<close>

datatype regex =
    Cls "nat \<Rightarrow> bool"             \<comment> \<open>one code unit of a class\<close>
  | Lit jstr
  | Seq regex regex
  | Alt regex regex
  | Opt regex                       \<comment> \<open>greedy ?\<close>
  | Star regex                      \<comment> \<open>greedy *\<close>
  | Lazy regex                      \<comment> \<open>*?\<close>
  | AtEnd                           \<comment> \<open>$ without the m flag\<close>

function (sequential) rest_of :: "regex \<Rightarrow> jstr \<Rightarrow> jstr list" where
  "rest_of (Cls P) s = (case s of [] \<Rightarrow> [] | c # cs \<Rightarrow> if P c then [cs] else [])"
| "rest_of (Lit p) s = (if starts_with s p then [drop (length p) s] else [])"
| "rest_of (Seq a b) s = concat (map (rest_of b) (rest_of a s))"
| "rest_of (Alt a b) s = rest_of a s @ rest_of b s"
| "rest_of (Opt a) s = rest_of a s @ [s]"
| "rest_of (Star a) s =
     concat (map (\<lambda>t. if length t < length s then rest_of (Star a) t else []) (rest_of a s)) @ [s]"
| "rest_of (Lazy a) s =
     s # concat (map (\<lambda>t. if length t < length s then rest_of (Lazy a) t else []) (rest_of a s))"
| "rest_of AtEnd s = (if s = [] then [[]] else [])"
  by pat_completeness auto
termination
  by (relation "measures [\<lambda>(r, s). size r, \<lambda>(r, s). length s]") auto

declare rest_of.simps(6,7) [simp del]

definition Plus :: "regex \<Rightarrow> regex" where
  "Plus r = Seq r (Star r)"

fun Rep :: "nat \<Rightarrow> regex \<Rightarrow> regex" where
  "Rep 0 r = Lit []"
| "Rep (Suc n) r = Opt (Seq r (Rep n r))"

text \<open>\<open>/^r/.test(s)\<close>, and \<open>s.replace(/r/g, by)\<close>: leftmost matches, scanned left to right; after an
  empty match the scan moves on by one unit.\<close>

definition re_match :: "regex \<Rightarrow> jstr \<Rightarrow> jstr option" where
  "re_match r s = (case rest_of r s of [] \<Rightarrow> None | t # _ \<Rightarrow> Some t)"

function replace_all :: "regex \<Rightarrow> jstr \<Rightarrow> jstr \<Rightarrow> jstr" where
  "replace_all r by s =
     (case re_match r s of
        Some t \<Rightarrow>
          if length t < length s then by @ replace_all r by t
          else by @ (case s of [] \<Rightarrow> [] | c # cs \<Rightarrow> c # replace_all r by cs)
      | None \<Rightarrow> (case s of [] \<Rightarrow> [] | c # cs \<Rightarrow> c # replace_all r by cs))"
  by pat_completeness auto
termination
  by (relation "measure (\<lambda>(r, by, s). length s)") auto

declare replace_all.simps [simp del]

lemma append_step: "\<exists>p. u = p @ t \<Longrightarrow> \<exists>q. s = q @ u \<Longrightarrow> \<exists>p. s = p @ (t :: jstr)"
  by (elim exE) (simp flip: append_assoc)

lemma rest_of_suffix: "t \<in> set (rest_of r s) \<Longrightarrow> \<exists>p. s = p @ t"
proof (induction r s arbitrary: t rule: rest_of.induct)
  case (2 p s)
  then show ?case by (auto simp: starts_with_iff split: if_splits)
next
  case (3 a b s)
  then obtain u where "u \<in> set (rest_of a s)" "t \<in> set (rest_of b u)" by auto
  with 3 show ?case using append_step [of u t s] by blast
next
  case (6 a s)
  show ?case
  proof (cases "t = s")
    case False
    with "6.prems" obtain u where "u \<in> set (rest_of a s)" "length u < length s" "t \<in> set (rest_of (Star a) u)"
      by (auto simp: rest_of.simps(6) [of a s] split: if_splits)
    with "6.IH" show ?thesis using append_step [of u t s] by blast
  qed simp
next
  case (7 a s)
  show ?case
  proof (cases "t = s")
    case False
    with "7.prems" obtain u where "u \<in> set (rest_of a s)" "length u < length s" "t \<in> set (rest_of (Lazy a) u)"
      by (auto simp: rest_of.simps(7) [of a s] split: if_splits)
    with "7.IH" show ?thesis using append_step [of u t s] by blast
  qed simp
qed (auto split: list.splits if_splits)

text \<open>\<open>regex.exec\<close> with capture groups: a regex as a sequence of parts, the flagged ones groups.\<close>

fun captures :: "(regex \<times> bool) list \<Rightarrow> jstr \<Rightarrow> (jstr list) list" where
  "captures [] s = [[]]"
| "captures ((r, grp) # parts) s =
     concat (map (\<lambda>t. map (\<lambda>cs. if grp then take (length s - length t) s # cs else cs) (captures parts t))
       (rest_of r s))"

definition exec :: "(regex \<times> bool) list \<Rightarrow> jstr \<Rightarrow> (jstr list) option" where
  "exec parts s = (case captures parts s of [] \<Rightarrow> None | cs # _ \<Rightarrow> Some cs)"

text \<open>The class \<open>.\<close> of JavaScript.\<close>

definition dot :: "nat \<Rightarrow> bool" where
  "dot c \<longleftrightarrow> c \<noteq> LF \<and> c \<noteq> CR \<and> c \<noteq> 0x2028 \<and> c \<noteq> 0x2029"

lemma rest_of_Star_Nil [simp]: "rest_of (Star (Cls P)) [] = [[]]"
  by (subst rest_of.simps(6)) simp

lemma rest_of_Star_stop [simp]: "\<not> P c \<Longrightarrow> rest_of (Star (Cls P)) (c # cs) = [c # cs]"
  by (subst rest_of.simps(6)) simp

lemma rest_of_Star_prefix:
  "t \<in> set (rest_of (Star (Cls P)) s) \<Longrightarrow> \<exists>p. s = p @ t \<and> list_all P p"
proof (induction s arbitrary: t)
  case (Cons c cs)
  then consider "t = c # cs" | "P c" "t \<in> set (rest_of (Star (Cls P)) cs)"
    by (auto simp: rest_of.simps(6) [of "Cls P" "c # cs"] split: if_splits)
  then show ?case
  proof cases
    case 2
    then obtain p where "cs = p @ t" "list_all P p" using Cons.IH by blast
    then show ?thesis using 2 by (intro exI [of _ "c # p"]) simp
  qed (intro exI [of _ "[]"], simp)
qed (simp add: rest_of.simps(6) [of "Cls P" "[]"])

lemma rest_of_Lazy_all:
  "list_all P s \<Longrightarrow> rest_of (Lazy (Cls P)) s = map (\<lambda>i. drop i s) [0..<Suc (length s)]"
proof (induction s)
  case (Cons c cs)
  then show ?case
    by (simp add: rest_of.simps(7) [of _ "c # cs"] upt_conv_Cons map_Suc_upt [symmetric] comp_def
        del: upt_Suc)
qed (simp add: rest_of.simps(7) [of _ "[]"])

section \<open>Lines\<close>

text \<open>Splitting at every line feed with an optional carriage return before it: a carriage return belongs to the line feed after it.\<close>

definition drop_cr :: "jstr \<Rightarrow> jstr" where
  "drop_cr l = (if l \<noteq> [] \<and> last l = CR then butlast l else l)"

definition split_lines :: "jstr \<Rightarrow> jstr list" where
  "split_lines s = (let ls = split_on LF s in map drop_cr (butlast ls) @ [last ls])"

end
