(* ===== verification/PermWildcard.thy ===== *)
theory PermWildcard
  imports JsText
begin

text \<open>
  The wildcard matcher of the permission system
  (\<open>coding-agent/src/core/extensions/builtin/permission-system/wildcard.ts\<close>): a loop over two indices that goes
  back to the last star on a mismatch, and the meaning of a pattern it is to compute.
\<close>

section \<open>The loop\<close>

abbreviation STAR :: nat where "STAR \<equiv> 42"
abbreviation QUESTION :: nat where "QUESTION \<equiv> 63"

text \<open>\<open>s[i]\<close>: \<open>undefined\<close> behind the end.\<close>

definition char_at :: "jstr \<Rightarrow> nat \<Rightarrow> nat option" where
  "char_at s i = (if i < length s then Some (s ! i) else None)"

text \<open>The stars that are left at the end of the pattern.\<close>

function skip_stars :: "jstr \<Rightarrow> nat \<Rightarrow> nat" where
  "skip_stars pat i = (if i < length pat \<and> pat ! i = STAR then skip_stars pat (i + 1) else i)"
  by pat_completeness auto
termination by (relation "measure (\<lambda>(pat, i). length pat - i)") auto

text \<open>\<open>star\<close> is \<open>starIdx\<close>, \<open>None\<close> for \<open>-1\<close>; the result \<open>None\<close> is a loop that does not end.\<close>

partial_function (option) match_loop ::
  "jstr \<Rightarrow> jstr \<Rightarrow> nat \<Rightarrow> nat \<Rightarrow> nat option \<Rightarrow> nat \<Rightarrow> bool option" where
  "match_loop val pat i j star mi =
     (if i < length val then
        (if char_at pat j = Some QUESTION then match_loop val pat (i + 1) (j + 1) star mi
         else if char_at pat j = Some STAR then match_loop val pat i (j + 1) (Some j) i
         else if char_at pat j = char_at val i then match_loop val pat (i + 1) (j + 1) star mi
         else (case star of
             Some s \<Rightarrow> match_loop val pat (mi + 1) (s + 1) star (mi + 1)
           | None \<Rightarrow> Some False))
      else Some (skip_stars pat j = length pat))"

definition match_run :: "jstr \<Rightarrow> jstr \<Rightarrow> bool option" where
  "match_run val pat =
     (if val = [] \<and> pat = [] then Some True
      else if pat = [] then Some False
      else if val = [] \<and> pat = [STAR] then Some True
      else if val = [] then Some (list_all (\<lambda>c. c = STAR) pat)
      else match_loop val pat 0 0 None 0)"

definition Wildcard_match :: "jstr \<Rightarrow> jstr \<Rightarrow> bool" where
  "Wildcard_match val pat \<longleftrightarrow> match_run val pat = Some True"

section \<open>What a pattern means\<close>

text \<open>A star stands for any text, a question mark for one unit, everything else for itself.\<close>

fun glob :: "jstr \<Rightarrow> jstr \<Rightarrow> bool" where
  "glob [] val \<longleftrightarrow> val = []"
| "glob (c # pat) val \<longleftrightarrow>
     (if c = STAR then list_ex (\<lambda>k. glob pat (drop k val)) [0..<Suc (length val)]
      else val \<noteq> [] \<and> (c = QUESTION \<or> c = hd val) \<and> glob pat (tl val))"

lemma glob_star: "glob (STAR # pat) val \<longleftrightarrow> (\<exists>k \<le> length val. glob pat (drop k val))"
  by (auto simp: list_ex_iff less_Suc_eq_le simp del: upt_Suc)

declare glob.simps(2) [simp del]

lemma glob_unit: "c \<noteq> STAR \<Longrightarrow> glob (c # pat) val \<longleftrightarrow> val \<noteq> [] \<and> (c = QUESTION \<or> c = hd val) \<and> glob pat (tl val)"
  by (simp add: glob.simps)

lemma glob_Nil: "glob pat [] \<longleftrightarrow> list_all (\<lambda>c. c = STAR) pat"
proof (induction pat)
  case (Cons c pat)
  then show ?case by (cases "c = STAR") (simp_all add: glob_star glob_unit)
qed simp

lemma glob_star_skip: "glob (STAR # pat) (drop j val) \<Longrightarrow> i \<le> j \<Longrightarrow> glob (STAR # pat) (drop i val)"
proof -
  assume "glob (STAR # pat) (drop j val)" and "i \<le> j"
  then obtain k where k: "k \<le> length val - j" "glob pat (drop (k + j) val)" by (auto simp: glob_star)
  show ?thesis
  proof (cases "j \<le> length val")
    case True
    then show ?thesis unfolding glob_star using k \<open>i \<le> j\<close> by (intro exI [of _ "k + j - i"]) auto
  next
    case False
    then have "glob pat []" using k by simp
    then show ?thesis unfolding glob_star by (intro exI [of _ "length val - i"]) simp
  qed
qed

text \<open>A part without stars takes as many units as it is long.\<close>

lemma glob_segment:
  assumes "STAR \<notin> set seg" and "glob (seg @ pat) val"
  shows "length seg \<le> length val \<and> glob pat (drop (length seg) val)"
  using assms
proof (induction seg arbitrary: val)
  case (Cons c seg)
  then have "val \<noteq> [] \<and> glob (seg @ pat) (tl val)" by (auto simp: glob_unit)
  with Cons.IH [of "tl val"] Cons.prems show ?case by (cases val) auto
qed simp

lemma skip_stars_end:
  "skip_stars pat i = length pat \<longleftrightarrow> list_all (\<lambda>c. c = STAR) (drop i pat) \<and> i \<le> length pat"
proof (induction pat i rule: skip_stars.induct)
  case (1 pat i)
  show ?case
  proof (cases "i < length pat")
    case True
    then show ?thesis using 1
      by (subst skip_stars.simps) (auto simp: Cons_nth_drop_Suc [symmetric])
  next
    case False
    then show ?thesis by (subst skip_stars.simps) auto
  qed
qed

declare skip_stars.simps [simp del]

section \<open>The loop computes the meaning\<close>

text \<open>What the loop knows: since the last star a part without stars has been read, and it has taken as
  many units as it is long.\<close>

definition star_inv :: "jstr \<Rightarrow> nat \<Rightarrow> nat \<Rightarrow> nat option \<Rightarrow> nat \<Rightarrow> bool" where
  "star_inv pat i j star mi \<longleftrightarrow> j \<le> length pat \<and>
     (\<forall>s. star = Some s \<longrightarrow> s < j \<and> mi \<le> i \<and> j - (s + 1) = i - mi \<and>
        STAR \<notin> set (take (j - (s + 1)) (drop (s + 1) pat)))"

definition still_matches :: "jstr \<Rightarrow> jstr \<Rightarrow> nat \<Rightarrow> nat \<Rightarrow> nat option \<Rightarrow> nat \<Rightarrow> bool" where
  "still_matches val pat i j star mi \<longleftrightarrow> glob (drop j pat) (drop i val) \<or>
     (\<exists>s k. star = Some s \<and> mi < k \<and> k \<le> length val \<and> glob (drop (s + 1) pat) (drop k val))"

lemma later_start:
  assumes "star_inv pat i j (Some s) mi" and "glob (drop (s + 1) pat) (drop k val)" and "k \<le> length val"
  shows "i - mi \<le> length val - k \<and> glob (drop j pat) (drop (k + (i - mi)) val)"
proof -
  let ?n = "j - (s + 1)"
  have "j \<le> length pat" using assms(1) by (simp add: star_inv_def)
  then have "?n \<le> length (drop (s + 1) pat)" by simp
  moreover have "drop (s + 1) pat = take ?n (drop (s + 1) pat) @ drop j pat"
    using assms(1) by (simp add: star_inv_def flip: drop_drop) (metis Suc_leI append_take_drop_id drop_drop le_add_diff_inverse2)
  moreover have n: "?n = i - mi" and "STAR \<notin> set (take ?n (drop (s + 1) pat))"
    using assms(1) by (auto simp: star_inv_def)
  ultimately have "?n \<le> length (drop k val) \<and> glob (drop j pat) (drop ?n (drop k val))"
    using glob_segment [of "take ?n (drop (s + 1) pat)" "drop j pat" "drop k val"] assms(2) by (simp add: min_absorb2)
  then show ?thesis unfolding n by (simp add: add.commute)
qed

lemma still_matches_backtrack:
  assumes "star_inv pat i j (Some s) mi" and "i < length val" and "\<not> glob (drop j pat) (drop i val)"
  shows "still_matches val pat i j (Some s) mi \<longleftrightarrow> still_matches val pat (mi + 1) (s + 1) (Some s) (mi + 1)"
proof -
  let ?g = "\<lambda>k. glob (drop (s + 1) pat) (drop k val)"
  have "mi < length val" using assms(1,2) by (simp add: star_inv_def)
  then have "(\<exists>k. mi < k \<and> k \<le> length val \<and> ?g k) \<longleftrightarrow> ?g (mi + 1) \<or> (\<exists>k. mi + 1 < k \<and> k \<le> length val \<and> ?g k)"
    by (metis Suc_eq_plus1 Suc_leI less_Suc_eq not_less_eq)
  then show ?thesis unfolding still_matches_def using assms(3) by simp
qed

lemma still_matches_star:
  assumes "star_inv pat i j star mi" and "j < length pat" and "pat ! j = STAR" and "i < length val"
  shows "still_matches val pat i j star mi \<longleftrightarrow> still_matches val pat i (j + 1) (Some j) i"
proof -
  have d: "drop j pat = STAR # drop (j + 1) pat" using assms(2,3) by (simp add: Cons_nth_drop_Suc [symmetric])
  have now: "glob (drop j pat) (drop i val) \<longleftrightarrow>
      glob (drop (j + 1) pat) (drop i val) \<or> (\<exists>k>i. k \<le> length val \<and> glob (drop (j + 1) pat) (drop k val))"
  proof
    assume "glob (drop j pat) (drop i val)"
    then obtain k where "k \<le> length val - i" "glob (drop (j + 1) pat) (drop (k + i) val)" by (auto simp: d glob_star)
    then show "glob (drop (j + 1) pat) (drop i val) \<or> (\<exists>k>i. k \<le> length val \<and> glob (drop (j + 1) pat) (drop k val))"
      using assms(4) by (cases k) (auto intro!: exI [of _ "k + i"])
  next
    assume "glob (drop (j + 1) pat) (drop i val) \<or> (\<exists>k>i. k \<le> length val \<and> glob (drop (j + 1) pat) (drop k val))"
    then obtain k where "i \<le> k" "k \<le> length val" "glob (drop (j + 1) pat) (drop k val)"
      using assms(4) by (meson less_imp_le_nat order_refl)
    then show "glob (drop j pat) (drop i val)" unfolding d glob_star by (intro exI [of _ "k - i"]) auto
  qed
  have "glob (drop j pat) (drop i val)"
    if "star = Some s" "mi < k" "k \<le> length val" "glob (drop (s + 1) pat) (drop k val)" for s k
  proof -
    have "glob (drop j pat) (drop (k + (i - mi)) val)" using later_start [of pat i j s mi k val] assms(1) that by simp
    moreover have "i \<le> k + (i - mi)" using that assms(1) by (auto simp: star_inv_def)
    ultimately show ?thesis unfolding d by (rule glob_star_skip)
  qed
  then show ?thesis unfolding still_matches_def using now by blast
qed

lemma still_matches_end:
  assumes "star_inv pat i j star mi" and "i = length val"
  shows "still_matches val pat i j star mi \<longleftrightarrow> skip_stars pat j = length pat"
proof -
  have "\<not> glob (drop (s + 1) pat) (drop k val)" if "star = Some s" "mi < k" "k \<le> length val" for s k
    using later_start [of pat i j s mi k val] that assms by (auto simp: star_inv_def)
  then show ?thesis using assms by (auto simp: still_matches_def skip_stars_end glob_Nil star_inv_def)
qed

lemma still_matches_unit:
  assumes "star_inv pat i j star mi" and "i < length val" and "j < length pat" and "pat ! j \<noteq> STAR"
    and "pat ! j = QUESTION \<or> pat ! j = val ! i"
  shows "glob (drop j pat) (drop i val) \<longleftrightarrow> glob (drop (j + 1) pat) (drop (i + 1) val)"
    "star_inv pat (i + 1) (j + 1) star mi"
proof -
  have "drop j pat = pat ! j # drop (j + 1) pat" using assms(3) by (simp add: Cons_nth_drop_Suc)
  then show "glob (drop j pat) (drop i val) \<longleftrightarrow> glob (drop (j + 1) pat) (drop (i + 1) val)"
    using assms by (auto simp: glob_unit hd_drop_conv_nth drop_Suc [symmetric] tl_drop)
  show "star_inv pat (i + 1) (j + 1) star mi"
    unfolding star_inv_def
  proof (intro conjI allI impI)
    show "j + 1 \<le> length pat" using assms(3) by simp
    fix s assume "star = Some s"
    then have s: "s < j" "mi \<le> i" "j - (s + 1) = i - mi" "STAR \<notin> set (take (j - (s + 1)) (drop (s + 1) pat))"
      using assms(1) by (auto simp: star_inv_def)
    then show "s < j + 1" "mi \<le> i + 1" "j + 1 - (s + 1) = i + 1 - mi" by simp_all
    have n: "j + 1 - (s + 1) = Suc (j - (s + 1))" using s(1) by simp
    have "take (Suc (j - (s + 1))) (drop (s + 1) pat) = take (j - (s + 1)) (drop (s + 1) pat) @ [drop (s + 1) pat ! (j - (s + 1))]"
      using assms(3) s(1) by (intro take_Suc_conv_app_nth) simp
    moreover have "drop (s + 1) pat ! (j - (s + 1)) = pat ! j" using assms(3) s(1) by simp
    ultimately show "STAR \<notin> set (take (j + 1 - (s + 1)) (drop (s + 1) pat))"
      unfolding n using s(4) assms(4) by simp
  qed
qed

text \<open>The measure: a new star is further to the right, going back moves its start, and otherwise a unit of
  the text or of the pattern is taken.\<close>

definition loop_measure :: "((jstr \<times> jstr \<times> nat \<times> nat \<times> nat option \<times> nat) \<times> (jstr \<times> jstr \<times> nat \<times> nat \<times> nat option \<times> nat)) set" where
  "loop_measure = measures [
     \<lambda>(val, pat, i, j, star, mi). length pat - (case star of None \<Rightarrow> 0 | Some s \<Rightarrow> s + 1),
     \<lambda>(val, pat, i, j, star, mi). length val - mi,
     \<lambda>(val, pat, i, j, star, mi). length val - i]"

lemma wf_loop_measure: "wf loop_measure"
  by (simp add: loop_measure_def)

lemma match_loop_correct:
  "star_inv pat i j star mi \<Longrightarrow> i \<le> length val \<Longrightarrow> mi \<le> i \<Longrightarrow>
   match_loop val pat i j star mi = Some (still_matches val pat i j star mi)"
proof (induction "(val, pat, i, j, star, mi)" arbitrary: i j star mi rule: wf_induct_rule [OF wf_loop_measure])
  case (1 i j star mi)
  show ?case
  proof (cases "i < length val")
    case False
    then have "i = length val" using 1 by simp
    with still_matches_end [OF 1(2) this] show ?thesis by (subst match_loop.simps) simp
  next
    case True
    consider (unit) "j < length pat" "pat ! j \<noteq> STAR" "pat ! j = QUESTION \<or> pat ! j = val ! i"
      | (star) "j < length pat" "pat ! j = STAR"
      | (miss) "j < length pat \<Longrightarrow> pat ! j \<noteq> STAR \<and> pat ! j \<noteq> QUESTION \<and> pat ! j \<noteq> val ! i" by blast
    then show ?thesis
    proof cases
      case unit
      note u = still_matches_unit [OF 1(2) True unit]
      have "match_loop val pat (i + 1) (j + 1) star mi = Some (still_matches val pat (i + 1) (j + 1) star mi)"
        using 1 True u(2) by (intro 1(1)) (auto simp: loop_measure_def)
      moreover have "still_matches val pat (i + 1) (j + 1) star mi = still_matches val pat i j star mi"
        by (simp only: still_matches_def u(1))
      moreover have "match_loop val pat i j star mi = match_loop val pat (i + 1) (j + 1) star mi"
        using True unit by (subst match_loop.simps) (auto simp: char_at_def)
      ultimately show ?thesis by simp
    next
      case star
      have "star_inv pat i (j + 1) (Some j) i" using star by (simp add: star_inv_def)
      moreover have "case star of None \<Rightarrow> True | Some s \<Rightarrow> s < j" using 1(2) by (auto simp: star_inv_def split: option.splits)
      ultimately have "match_loop val pat i (j + 1) (Some j) i = Some (still_matches val pat i (j + 1) (Some j) i)"
        using 1 True star by (intro 1(1)) (auto simp: loop_measure_def split: option.splits)
      moreover have "match_loop val pat i j star mi = match_loop val pat i (j + 1) (Some j) i"
        using True star by (subst match_loop.simps) (auto simp: char_at_def)
      ultimately show ?thesis using still_matches_star [OF 1(2) star True] by simp
    next
      case miss
      have no: "\<not> glob (drop j pat) (drop i val)"
      proof (cases "j < length pat")
        case True
        then show ?thesis using miss \<open>i < length val\<close>
          by (auto simp: Cons_nth_drop_Suc [symmetric] glob_unit)
      qed (use True in simp)
      have step: "match_loop val pat i j star mi =
          (case star of Some s \<Rightarrow> match_loop val pat (mi + 1) (s + 1) star (mi + 1) | None \<Rightarrow> Some False)"
        using True miss by (subst match_loop.simps) (auto simp: char_at_def)
      show ?thesis
      proof (cases star)
        case None
        then show ?thesis using step no by (simp add: still_matches_def)
      next
        case (Some s)
        have "star_inv pat (mi + 1) (s + 1) (Some s) (mi + 1)" using 1(2) Some by (auto simp: star_inv_def)
        then have "match_loop val pat (mi + 1) (s + 1) (Some s) (mi + 1) =
            Some (still_matches val pat (mi + 1) (s + 1) (Some s) (mi + 1))"
          using 1 True Some by (intro 1(1)) (auto simp: loop_measure_def)
        then show ?thesis using step Some still_matches_backtrack [OF 1(2) [unfolded Some] True no] by simp
      qed
    qed
  qed
qed

lemma match_run_glob: "match_run val pat = Some (glob pat val)"
proof (cases "val = []")
  case True
  then show ?thesis by (cases pat) (auto simp: match_run_def glob_Nil)
next
  case False
  have "match_loop val pat 0 0 None 0 = Some (still_matches val pat 0 0 None 0)"
    by (rule match_loop_correct) (simp_all add: star_inv_def)
  then show ?thesis using False by (cases pat) (auto simp: match_run_def still_matches_def)
qed

lemma Wildcard_match_glob: "Wildcard_match val pat \<longleftrightarrow> glob pat val"
  by (simp add: Wildcard_match_def match_run_glob)

text \<open>C16: the matching loop ends on every text and pattern, and says that they match exactly when the text
  can be cut into parts that the stars, question marks and literal units of the pattern stand for.\<close>

theorem wildcard_is_glob: "match_run val pat = Some (glob pat val)"
  by (rule match_run_glob)

lemma match_all [simp]: "Wildcard_match val [STAR]"
  by (auto simp: Wildcard_match_glob glob_star intro: exI [of _ "length val"])

lemma match_literal: "STAR \<notin> set pat \<Longrightarrow> QUESTION \<notin> set pat \<Longrightarrow> Wildcard_match val pat \<longleftrightarrow> val = pat"
  unfolding Wildcard_match_glob
proof (induction pat arbitrary: val)
  case (Cons c pat)
  then show ?case by (cases val) (auto simp: glob_unit)
qed simp

end
