(* ===== verification/PermRules.thy ===== *)
theory PermRules
  imports PermWildcard
begin

text \<open>
  The rules of the permission system (\<open>coding-agent/src/core/extensions/builtin/permission-system\<close>:
  \<open>types.ts\<close>, \<open>evaluate.ts\<close>, \<open>config.ts\<close>, \<open>cli.ts\<close>, \<open>arity.ts\<close> and the merge of \<open>settings.ts\<close>): the last
  rule that matches wins. Actions are texts, because neither the settings nor the flag are validated.
  The home directory is an argument.
\<close>

section \<open>Rules and verdicts\<close>

type_synonym Action = jstr

abbreviation allow :: Action where "allow \<equiv> js ''allow''"
abbreviation deny :: Action where "deny \<equiv> js ''deny''"
abbreviation ask_user :: Action where "ask_user \<equiv> js ''ask''"

record Rule =
  rule_permission :: jstr
  rule_pattern :: jstr
  rule_action :: Action

definition rule :: "jstr \<Rightarrow> jstr \<Rightarrow> Action \<Rightarrow> Rule" where
  "rule perm pat act = \<lparr>rule_permission = perm, rule_pattern = pat, rule_action = act\<rparr>"

type_synonym Ruleset = "Rule list"

definition ends_with :: "jstr \<Rightarrow> jstr \<Rightarrow> bool" where
  "ends_with s t \<longleftrightarrow> starts_with (rev s) (rev t)"

definition matchesPattern :: "jstr \<Rightarrow> jstr \<Rightarrow> bool" where
  "matchesPattern val pat \<longleftrightarrow> Wildcard_match val pat \<or>
     (ends_with pat (js '' *'') \<and> Wildcard_match val (take (length pat - 2) pat))"

definition rule_matches :: "jstr \<Rightarrow> jstr \<Rightarrow> Rule \<Rightarrow> bool" where
  "rule_matches perm pat r \<longleftrightarrow> Wildcard_match perm (rule_permission r) \<and> matchesPattern pat (rule_pattern r)"

definition evaluate :: "jstr \<Rightarrow> jstr \<Rightarrow> Ruleset list \<Rightarrow> Rule" where
  "evaluate perm pat rulesets =
     (case find (rule_matches perm pat) (rev (concat rulesets)) of
        Some r \<Rightarrow> r
      | None \<Rightarrow> rule perm (js ''*'') ask_user)"

definition verdict :: "jstr \<Rightarrow> jstr \<Rightarrow> Ruleset list \<Rightarrow> Action" where
  "verdict perm pat rulesets = rule_action (evaluate perm pat rulesets)"

section \<open>Presets and configuration\<close>

datatype PermissionPresetName = FullAccess | Workspace | ReadOnly | AskPreset

definition EDIT_TOOLS :: "jstr list" where
  "EDIT_TOOLS = [js ''edit'', js ''write'', js ''apply_patch'', js ''multiedit'']"

definition DEFAULT_PERMISSION_PRESET :: PermissionPresetName where
  "DEFAULT_PERMISSION_PRESET = FullAccess"

fun rulesForPreset :: "PermissionPresetName \<Rightarrow> Ruleset" where
  "rulesForPreset FullAccess = [rule (js ''*'') (js ''*'') allow]"
| "rulesForPreset Workspace =
     [rule (js ''*'') (js ''*'') ask_user, rule (js ''read'') (js ''*'') allow, rule (js ''list'') (js ''*'') allow,
      rule (js ''grep'') (js ''*'') allow, rule (js ''edit'') (js ''*'') allow, rule (js ''bash'') (js ''*'') allow,
      rule (js ''external_directory'') (js ''*'') ask_user]"
| "rulesForPreset ReadOnly =
     [rule (js ''*'') (js ''*'') ask_user, rule (js ''read'') (js ''*'') allow, rule (js ''list'') (js ''*'') allow,
      rule (js ''grep'') (js ''*'') allow, rule (js ''edit'') (js ''*'') ask_user, rule (js ''bash'') (js ''*'') ask_user,
      rule (js ''external_directory'') (js ''*'') ask_user]"
| "rulesForPreset AskPreset = [rule (js ''*'') (js ''*'') ask_user]"

definition expand :: "jstr \<Rightarrow> jstr \<Rightarrow> jstr" where
  "expand home path =
     (if starts_with path (js ''~/'') then home @ drop 1 path
      else if path = js ''~'' then home
      else if starts_with path (js ''$HOME/'') then home @ drop 5 path
      else if starts_with path (js ''$HOME'') then home @ drop 5 path
      else path)"

text \<open>A configuration is the list of its \<open>Object.entries\<close>.\<close>

datatype config_value = OneAction Action | PatternActions "(jstr \<times> Action) list"

fun config_rules :: "jstr \<Rightarrow> jstr \<times> config_value \<Rightarrow> Ruleset" where
  "config_rules home (perm, OneAction act) = [rule perm (js ''*'') act]"
| "config_rules home (perm, PatternActions entries) = map (\<lambda>(pat, act). rule perm (expand home pat) act) entries"

definition fromConfig :: "jstr \<Rightarrow> (jstr \<times> config_value) list \<Rightarrow> Ruleset" where
  "fromConfig home config = concat (map (config_rules home) config)"

definition merge_rulesets :: "Ruleset list \<Rightarrow> Ruleset" where
  "merge_rulesets rulesets = concat rulesets"

definition tool_permission :: "jstr \<Rightarrow> jstr" where
  "tool_permission tool = (if tool \<in> set EDIT_TOOLS then js ''edit'' else tool)"

definition is_disabled :: "Ruleset \<Rightarrow> jstr \<Rightarrow> bool" where
  "is_disabled ruleset tool =
     (case find (\<lambda>r. Wildcard_match (tool_permission tool) (rule_permission r)) (rev ruleset) of
        None \<Rightarrow> False
      | Some r \<Rightarrow> rule_pattern r = js ''*'' \<and> rule_action r = deny)"

definition disabled :: "jstr list \<Rightarrow> Ruleset \<Rightarrow> jstr list" where
  "disabled tools ruleset = remdups (filter (is_disabled ruleset) tools)"

section \<open>Flags\<close>

text \<open>\<open>/^([^:=]+)(?::([^=]+))?=(.+)$/\<close> on a trimmed entry.\<close>

definition flag_entry :: "jstr \<Rightarrow> (jstr \<times> jstr option \<times> jstr) option" where
  "flag_entry t =
     (let perm = takeWhile (\<lambda>c. c \<noteq> 58 \<and> c \<noteq> 61) t; rest = drop (length perm) t
      in if perm = [] then None
         else (case rest of
             [] \<Rightarrow> None
           | c # tail_text \<Rightarrow>
               if c = 61 then (if tail_text \<noteq> [] \<and> list_all dot tail_text then Some (perm, None, tail_text) else None)
               else
                 (let pat = takeWhile (\<lambda>c. c \<noteq> 61) tail_text; act = drop (length pat + 1) tail_text
                  in if pat \<noteq> [] \<and> length pat < length tail_text \<and> act \<noteq> [] \<and> list_all dot act
                     then Some (perm, Some pat, act) else None)))"

definition parsePermissionFlag :: "jstr \<Rightarrow> Ruleset" where
  "parsePermissionFlag val =
     List.map_filter (\<lambda>entry.
       (if trim entry = [] then None
        else map_option (\<lambda>(perm, pat, act).
            rule (trim perm) (case pat of Some p \<Rightarrow> trim p | None \<Rightarrow> js ''*'') (trim act))
          (flag_entry (trim entry)))) (split_on 44 val)"

definition parsePermissionPresetName :: "jstr \<Rightarrow> PermissionPresetName option" where
  "parsePermissionPresetName val =
     (if val = js ''full-access'' then Some FullAccess
      else if val = js ''workspace'' then Some Workspace
      else if val = js ''read-only'' then Some ReadOnly
      else if val = js ''ask'' then Some AskPreset
      else None)"

definition parsePermissionPresetFlag :: "jstr \<Rightarrow> PermissionPresetName option" where
  "parsePermissionPresetFlag val = parsePermissionPresetName (trim val)"

section \<open>Settings\<close>

definition preset_rules :: "PermissionPresetName option \<Rightarrow> Ruleset" where
  "preset_rules preset = (case preset of None \<Rightarrow> [] | Some p \<Rightarrow> rulesForPreset p)"

text \<open>\<open>parseSettingsPreset\<close>: \<open>None\<close> is the error, \<open>Some None\<close> an absent setting.\<close>

definition parseSettingsPreset :: "jstr option option \<Rightarrow> PermissionPresetName option option" where
  "parseSettingsPreset val =
     (case val of
        None \<Rightarrow> Some None
      | Some None \<Rightarrow> None
      | Some (Some s) \<Rightarrow> map_option Some (parsePermissionPresetName s))"

text \<open>The permission settings of one file: the preset (\<open>Some None\<close> when it is no string) and the rules.\<close>

record permission_settings =
  set_preset :: "jstr option option"
  set_rules :: "((jstr \<times> config_value) list) option"

definition settings_rules :: "jstr \<Rightarrow> permission_settings \<Rightarrow> Ruleset" where
  "settings_rules home s = (case set_rules s of None \<Rightarrow> [] | Some c \<Rightarrow> fromConfig home c)"

definition loadPermissionSettings ::
  "jstr \<Rightarrow> permission_settings \<Rightarrow> permission_settings \<Rightarrow> Ruleset \<Rightarrow> PermissionPresetName option \<Rightarrow> Ruleset option" where
  "loadPermissionSettings home global project cli cli_preset =
     (case parseSettingsPreset (set_preset global) of
        None \<Rightarrow> None
      | Some global_preset \<Rightarrow>
          (case parseSettingsPreset (set_preset project) of
             None \<Rightarrow> None
           | Some project_preset \<Rightarrow>
               Some (merge_rulesets
                 [rulesForPreset DEFAULT_PERMISSION_PRESET,
                  preset_rules global_preset, settings_rules home global,
                  preset_rules project_preset, settings_rules home project,
                  preset_rules cli_preset, cli])))"

section \<open>The name of a command\<close>

definition ARITY :: "(jstr \<times> nat) list" where
  "ARITY =
     [(js ''cat'', 1), (js ''cd'', 1), (js ''chmod'', 1), (js ''chown'', 1), (js ''cp'', 1),
      (js ''echo'', 1), (js ''env'', 1), (js ''export'', 1), (js ''grep'', 1), (js ''kill'', 1),
      (js ''killall'', 1), (js ''ln'', 1), (js ''ls'', 1), (js ''mkdir'', 1), (js ''mv'', 1),
      (js ''ps'', 1), (js ''pwd'', 1), (js ''rm'', 1), (js ''rmdir'', 1), (js ''sleep'', 1),
      (js ''source'', 1), (js ''tail'', 1), (js ''touch'', 1), (js ''unset'', 1), (js ''which'', 1),
      (js ''aws'', 3), (js ''az'', 3), (js ''bazel'', 2), (js ''brew'', 2), (js ''bun'', 2),
      (js ''bun run'', 3), (js ''bun x'', 3), (js ''cargo'', 2), (js ''cargo add'', 3),
      (js ''cargo run'', 3), (js ''cdk'', 2), (js ''cf'', 2), (js ''cmake'', 2), (js ''composer'', 2),
      (js ''consul'', 2), (js ''consul kv'', 3), (js ''crictl'', 2), (js ''deno'', 2),
      (js ''deno task'', 3), (js ''doctl'', 3), (js ''docker'', 2), (js ''docker builder'', 3),
      (js ''docker compose'', 3), (js ''docker container'', 3), (js ''docker image'', 3),
      (js ''docker network'', 3), (js ''docker volume'', 3), (js ''eksctl'', 2), (js ''eksctl create'', 3),
      (js ''firebase'', 2), (js ''flyctl'', 2), (js ''gcloud'', 3), (js ''gh'', 3), (js ''git'', 2),
      (js ''git config'', 3), (js ''git remote'', 3), (js ''git stash'', 3), (js ''go'', 2),
      (js ''gradle'', 2), (js ''helm'', 2), (js ''heroku'', 2), (js ''hugo'', 2), (js ''ip'', 2),
      (js ''ip addr'', 3), (js ''ip link'', 3), (js ''ip netns'', 3), (js ''ip route'', 3),
      (js ''kind'', 2), (js ''kind create'', 3), (js ''kubectl'', 2), (js ''kubectl kustomize'', 3),
      (js ''kubectl rollout'', 3), (js ''kustomize'', 2), (js ''make'', 2), (js ''mc'', 2),
      (js ''mc admin'', 3), (js ''minikube'', 2), (js ''mongosh'', 2), (js ''mysql'', 2), (js ''mvn'', 2),
      (js ''ng'', 2), (js ''npm'', 2), (js ''npm exec'', 3), (js ''npm init'', 3), (js ''npm run'', 3),
      (js ''npm view'', 3), (js ''nvm'', 2), (js ''nx'', 2), (js ''openssl'', 2), (js ''openssl req'', 3),
      (js ''openssl x509'', 3), (js ''pip'', 2), (js ''pipenv'', 2), (js ''pnpm'', 2),
      (js ''pnpm dlx'', 3), (js ''pnpm exec'', 3), (js ''pnpm run'', 3), (js ''poetry'', 2),
      (js ''podman'', 2), (js ''podman container'', 3), (js ''podman image'', 3), (js ''psql'', 2),
      (js ''pulumi'', 2), (js ''pulumi stack'', 3), (js ''pyenv'', 2), (js ''python'', 2),
      (js ''rake'', 2), (js ''rbenv'', 2), (js ''redis-cli'', 2), (js ''rustup'', 2),
      (js ''serverless'', 2), (js ''sfdx'', 3), (js ''skaffold'', 2), (js ''sls'', 2), (js ''sst'', 2),
      (js ''swift'', 2), (js ''systemctl'', 2), (js ''terraform'', 2), (js ''terraform workspace'', 3),
      (js ''tmux'', 2), (js ''turbo'', 2), (js ''ufw'', 2), (js ''vault'', 2), (js ''vault auth'', 3),
      (js ''vault kv'', 3), (js ''vercel'', 2), (js ''volta'', 2), (js ''wp'', 2), (js ''yarn'', 2),
      (js ''yarn dlx'', 3), (js ''yarn run'', 3)]"

text \<open>Every object inherits these; they are no numbers, so \<open>slice\<close> takes them for 0.\<close>

definition object_members :: "jstr list" where
  "object_members =
     [js ''constructor'', js ''toString'', js ''toLocaleString'', js ''valueOf'', js ''hasOwnProperty'',
      js ''isPrototypeOf'', js ''propertyIsEnumerable'', js ''__proto__'', js ''__defineGetter__'',
      js ''__defineSetter__'', js ''__lookupGetter__'', js ''__lookupSetter__'']"

definition arity_of :: "jstr \<Rightarrow> nat option" where
  "arity_of name =
     (case map_of ARITY name of Some n \<Rightarrow> Some n | None \<Rightarrow> if name \<in> set object_members then Some 0 else None)"

text \<open>The loop over the lengths, from the longest prefix down.\<close>

fun arity_prefix :: "jstr list \<Rightarrow> nat \<Rightarrow> jstr list" where
  "arity_prefix tokens 0 = (if tokens = [] then [] else take 1 tokens)"
| "arity_prefix tokens (Suc n) =
     (case arity_of (join (js '' '') (take (Suc n) tokens)) of
        Some arity \<Rightarrow> take arity tokens
      | None \<Rightarrow> arity_prefix tokens n)"

definition BashArity_prefix :: "jstr list \<Rightarrow> jstr list" where
  "BashArity_prefix tokens = arity_prefix tokens (length tokens)"

section \<open>The last matching rule wins\<close>

lemma split_on_middle: "split_on c (s @ c # t) = split_on c s @ split_on c t"
  by (induction s) (auto split: list.splits)

lemma find_append: "find P (xs @ ys) = (case find P xs of Some x \<Rightarrow> Some x | None \<Rightarrow> find P ys)"
  by (induction xs) auto

lemma evaluate_append:
  "evaluate perm pat (rs @ [xs @ [r]]) = (if rule_matches perm pat r then r else evaluate perm pat (rs @ [xs]))"
  by (simp add: evaluate_def)

lemma evaluate_concat: "evaluate perm pat rulesets = evaluate perm pat [concat rulesets]"
  by (simp add: evaluate_def)

lemma matchesPattern_star [simp]: "matchesPattern val (js ''*'')"
  by (simp add: matchesPattern_def js_def)

text \<open>A tool that is taken off the list of active tools because of a rule would have been denied every
  call that asks for the permission of its name: the verdict on every pattern is to deny.\<close>

theorem disabled_tools_denied:
  assumes "tool \<in> set (disabled tools ruleset)"
  shows "verdict (tool_permission tool) pat [ruleset] = deny"
proof -
  let ?name = "\<lambda>r. Wildcard_match (tool_permission tool) (rule_permission r)"
  have "is_disabled ruleset tool" using assms by (simp add: disabled_def)
  then obtain r where r: "find ?name (rev ruleset) = Some r" "rule_pattern r = js ''*''" "rule_action r = deny"
    by (auto simp: is_disabled_def split: option.splits)
  have "find (rule_matches (tool_permission tool) pat) rs = Some r" if "find ?name rs = Some r" for rs
    using that r(2) by (induction rs) (auto simp: rule_matches_def split: if_splits)
  then show ?thesis using r by (simp add: verdict_def evaluate_def)
qed

theorem disabled_tools_denied_witness:
  "verdict (js ''edit'') (js ''src/a.ts'') [[rule (js ''*'') (js ''*'') allow, rule (js ''edit'') (js ''*'') deny]] = deny"
proof -
  let ?rules = "[rule (js ''*'') (js ''*'') allow, rule (js ''edit'') (js ''*'') deny]"
  have "tool_permission (js ''write'') = js ''edit''" by (simp add: tool_permission_def EDIT_TOOLS_def)
  moreover have "js ''write'' \<in> set (disabled [js ''read'', js ''write''] ?rules)"
    unfolding disabled_def is_disabled_def tool_permission_def EDIT_TOOLS_def
    by (simp add: rule_def js_def match_literal)
  ultimately show ?thesis using disabled_tools_denied [of "js ''write''" _ ?rules "js ''src/a.ts''"] by simp
qed

end
