(* ===== verification/PatchParse.thy ===== *)
theory PatchParse
  imports JsText
begin

text \<open>
  The patch language of \<open>coding-agent/src/core/extensions/builtin/gpt-apply-patch\<close>: the text
  normalisation (\<open>text.ts\<close>), the parsed patch (\<open>types.ts\<close>), the strict parser (\<open>parser.ts\<close>) and the
  parser of a patch that is still being streamed (\<open>streaming-parser.ts\<close>). An index into the lines
  and the end index are the list of the lines between them. Error messages are constructors that
  carry what their text is built from.
\<close>

section \<open>Text\<close>

fun crlf_to_lf :: "jstr \<Rightarrow> jstr" where
  "crlf_to_lf (c # d # s) = (if c = CR \<and> d = LF then LF # crlf_to_lf s else c # crlf_to_lf (d # s))"
| "crlf_to_lf s = s"

definition normalizePatchText :: "jstr \<Rightarrow> jstr" where
  "normalizePatchText patchText = map (\<lambda>c. if c = CR then LF else c) (crlf_to_lf patchText)"

text \<open>The match of the here-document pattern: its parts up to the body, with the captured marker,
  and the lazy body up to the marker's second occurrence.\<close>

definition is_word :: "nat \<Rightarrow> bool" where
  "is_word c \<longleftrightarrow> is_digit c \<or> 65 \<le> c \<and> c \<le> 90 \<or> 97 \<le> c \<and> c \<le> 122 \<or> c = 95"

definition quote_class :: regex where
  "quote_class = Opt (Cls (\<lambda>c. c = 34 \<or> c = 39))"

definition heredoc_open :: regex where
  "heredoc_open = Seq (Opt (Seq (Lit (js ''cat'')) (Plus (Cls is_space)))) (Seq (Lit (js ''<<'')) quote_class)"

definition heredoc_line_end :: regex where
  "heredoc_line_end = Seq quote_class (Seq (Star (Cls is_space)) (Lit [LF]))"

definition heredoc_close :: "jstr \<Rightarrow> regex" where
  "heredoc_close marker = Seq (Lit (LF # marker)) (Seq (Star (Cls is_space)) AtEnd)"

definition heredoc_bodies :: "jstr \<Rightarrow> jstr list" where
  "heredoc_bodies input =
     concat (map (\<lambda>word.
       concat (map (\<lambda>after.
         let marker = take (length word - length after) word
         in concat (map (\<lambda>body.
              concat (map (\<lambda>tail. if rest_of (heredoc_close marker) tail \<noteq> []
                                    then [take (length body - length tail) body] else [])
                (rest_of (Lazy (Cls (\<lambda>_. True))) body)))
            (rest_of heredoc_line_end after)))
       (rest_of (Plus (Cls is_word)) word)))
     (rest_of heredoc_open input))"

definition stripHeredoc :: "jstr \<Rightarrow> jstr" where
  "stripHeredoc input = (case heredoc_bodies input of [] \<Rightarrow> input | body # _ \<Rightarrow> body)"

section \<open>Plain text\<close>

text \<open>One line of text.\<close>

definition one_line :: "jstr \<Rightarrow> bool" where
  "one_line s \<longleftrightarrow> LF \<notin> set s \<and> CR \<notin> set s"

lemma crlf_id: "CR \<notin> set s \<Longrightarrow> crlf_to_lf s = s"
  by (induction s rule: crlf_to_lf.induct) auto

lemma normalize_id: "CR \<notin> set s \<Longrightarrow> normalizePatchText s = s"
  by (induction s) (auto simp: normalizePatchText_def crlf_id)

lemma set_join: "set (join sep ls) \<subseteq> set sep \<union> \<Union> (set ` set ls)"
  by (induction sep ls rule: join.induct) auto

lemma join_snoc: "ls \<noteq> [] \<Longrightarrow> join sep (ls @ [l]) = join sep ls @ sep @ l"
  by (induction sep ls rule: join.induct) auto

lemma join_Cons: "ls \<noteq> [] \<Longrightarrow> join sep (l # ls) = l @ sep @ join sep ls"
  by (cases ls) auto

section \<open>The parsed patch\<close>

record PatchChunk =
  changeContexts :: "jstr list"
  oldLines :: "jstr list"
  newLines :: "jstr list"
  isEndOfFile :: bool

datatype ParsedPatch =
    PAdd jstr jstr                                  \<comment> \<open>path and content\<close>
  | PDelete jstr
  | PUpdate jstr "jstr option" "PatchChunk list"    \<comment> \<open>path, destination of a move, chunks\<close>

datatype patch_error =
    AddLinesStartWithPlus
  | HunkWithoutLines
  | UnexpectedLine jstr
  | ExpectedMarker jstr
  | EmptyUpdate jstr
  | NoEnvelope
  | BadHeader jstr
  | FirstLineNotBegin
  | LastLineNotEnd
  | ExpectedUpdate
  | ContextNotFound jstr jstr
  | LinesNotFound jstr "jstr list"

section \<open>The strict parser\<close>

definition BEGIN_PATCH_MARKER :: jstr where "BEGIN_PATCH_MARKER = js ''*** Begin Patch''"
definition END_PATCH_MARKER :: jstr where "END_PATCH_MARKER = js ''*** End Patch''"
definition ADD_FILE_MARKER :: jstr where "ADD_FILE_MARKER = js ''*** Add File: ''"
definition DELETE_FILE_MARKER :: jstr where "DELETE_FILE_MARKER = js ''*** Delete File: ''"
definition UPDATE_FILE_MARKER :: jstr where "UPDATE_FILE_MARKER = js ''*** Update File: ''"
definition MOVE_TO_MARKER :: jstr where "MOVE_TO_MARKER = js ''*** Move to: ''"
definition EOF_MARKER :: jstr where "EOF_MARKER = js ''*** End of File''"

lemmas markers = BEGIN_PATCH_MARKER_def END_PATCH_MARKER_def ADD_FILE_MARKER_def DELETE_FILE_MARKER_def
  UPDATE_FILE_MARKER_def MOVE_TO_MARKER_def EOF_MARKER_def

fun parse_add_lines :: "jstr list \<Rightarrow> jstr list \<Rightarrow> patch_error + (jstr list \<times> jstr list)" where
  "parse_add_lines contentLines [] = Inr (contentLines, [])"
| "parse_add_lines contentLines (l # ls) =
     (if starts_with l (js ''*** '') then Inr (contentLines, l # ls)
      else if \<not> starts_with l (js ''+'') then Inl AddLinesStartWithPlus
      else parse_add_lines (contentLines @ [drop 1 l]) ls)"

definition parseAddHunk :: "jstr \<Rightarrow> jstr list \<Rightarrow> patch_error + (ParsedPatch \<times> jstr list)" where
  "parseAddHunk header ls =
     (case parse_add_lines [] ls of
        Inl e \<Rightarrow> Inl e
      | Inr (contentLines, ls') \<Rightarrow>
          Inr (PAdd (drop (length ADD_FILE_MARKER) header)
                 (if contentLines = [] then [] else join [LF] contentLines @ [LF]), ls'))"

fun collectChangeContexts :: "jstr list \<Rightarrow> jstr list \<Rightarrow> jstr list \<times> jstr list" where
  "collectChangeContexts contexts [] = (contexts, [])"
| "collectChangeContexts contexts (l # ls) =
     (if l = js ''@@'' then collectChangeContexts contexts ls
      else if starts_with l (js ''@@ '') then collectChangeContexts (contexts @ [drop 3 l]) ls
      else (contexts, l # ls))"

text \<open>The lines of a chunk; \<open>n\<close> counts the parsed lines.\<close>

fun chunk_lines ::
  "jstr list \<Rightarrow> jstr list \<Rightarrow> nat \<Rightarrow> jstr list \<Rightarrow> patch_error + (jstr list \<times> jstr list \<times> bool \<times> nat \<times> jstr list)"
where
  "chunk_lines old new n [] = Inr (old, new, False, n, [])"
| "chunk_lines old new n (l # ls) =
     (if l = EOF_MARKER then
        if n = 0 then Inl HunkWithoutLines else Inr (old, new, True, n, ls)
      else if starts_with l (js ''@@'') \<or> starts_with l (js ''*** '') then Inr (old, new, False, n, l # ls)
      else (case l of
          [] \<Rightarrow> chunk_lines (old @ [[]]) (new @ [[]]) (n + 1) ls
        | p # v \<Rightarrow>
            if p = 32 then chunk_lines (old @ [v]) (new @ [v]) (n + 1) ls
            else if p = 45 then chunk_lines (old @ [v]) new (n + 1) ls
            else if p = 43 then chunk_lines old (new @ [v]) (n + 1) ls
            else if n > 0 then Inr (old, new, False, n, l # ls)
            else Inl (UnexpectedLine l)))"

definition parseChunkLines ::
  "jstr list \<Rightarrow> patch_error + (jstr list \<times> jstr list \<times> bool \<times> jstr list)" where
  "parseChunkLines ls =
     (case chunk_lines [] [] 0 ls of
        Inl e \<Rightarrow> Inl e
      | Inr (old, new, eof, n, ls') \<Rightarrow> if n = 0 then Inl HunkWithoutLines else Inr (old, new, eof, ls'))"

lemma chunk_lines_shorter:
  "chunk_lines old new n ls = Inr (old', new', eof, n', ls') \<Longrightarrow> length ls' + n' \<le> length ls + n"
  by (induction old new n ls rule: chunk_lines.induct) (fastforce split: if_splits list.splits)+

lemma parseChunkLines_shorter:
  "parseChunkLines ls = Inr (old, new, eof, ls') \<Longrightarrow> length ls' < length ls"
  by (auto simp: parseChunkLines_def split: sum.splits if_splits dest!: chunk_lines_shorter)

lemma collectChangeContexts_shorter:
  "collectChangeContexts contexts ls = (contexts', ls') \<Longrightarrow> length ls' \<le> length ls"
  by (induction contexts ls rule: collectChangeContexts.induct) (auto split: if_splits)

text \<open>The loop over the chunks of an update.\<close>

function update_chunks :: "PatchChunk list \<Rightarrow> jstr list \<Rightarrow> patch_error + (PatchChunk list \<times> jstr list)" where
  "update_chunks chunks [] = Inr (chunks, [])"
| "update_chunks chunks (l # ls) =
     (if trim l = [] then update_chunks chunks ls
      else if starts_with l (js ''*** '') then Inr (chunks, l # ls)
      else if \<not> starts_with l (js ''@@'') \<and> chunks \<noteq> [] then Inl (ExpectedMarker l)
      else (case (if starts_with l (js ''@@'') then collectChangeContexts [] (l # ls) else ([], l # ls)) of
          (contexts, after) \<Rightarrow>
            (case parseChunkLines after of
               Inl e \<Rightarrow> Inl e
             | Inr (old, new, eof, ls') \<Rightarrow>
                 update_chunks (chunks @ [\<lparr>changeContexts = contexts, oldLines = old,
                   newLines = new, isEndOfFile = eof\<rparr>]) ls')))"
  by pat_completeness auto
termination
  by (relation "measure (\<lambda>(chunks, ls). length ls)")
    (auto split: if_splits dest!: parseChunkLines_shorter collectChangeContexts_shorter [OF sym])

definition parseUpdateHunk :: "jstr \<Rightarrow> jstr list \<Rightarrow> patch_error + (ParsedPatch \<times> jstr list)" where
  "parseUpdateHunk header ls =
     (let filePath = drop (length UPDATE_FILE_MARKER) header;
          (movePath, ls) =
            (case ls of [] \<Rightarrow> (None, [])
             | l # ls' \<Rightarrow> if starts_with l MOVE_TO_MARKER then (Some (drop (length MOVE_TO_MARKER) l), ls')
                          else (None, ls))
      in case update_chunks [] ls of
           Inl e \<Rightarrow> Inl e
         | Inr (chunks, ls') \<Rightarrow>
             if chunks = [] \<and> (movePath = None \<or> movePath = Some []) then Inl (EmptyUpdate filePath)
             else Inr (PUpdate filePath movePath chunks, ls'))"

lemma parse_add_lines_shorter:
  "parse_add_lines acc ls = Inr (content, ls') \<Longrightarrow> length ls' \<le> length ls"
  by (induction acc ls rule: parse_add_lines.induct) (auto split: if_splits)

lemma update_chunks_step:
  assumes "trim l \<noteq> []" "\<not> starts_with l (js ''*** '')"
    and "\<not> (\<not> starts_with l (js ''@@'') \<and> chunks \<noteq> [])"
    and "(if starts_with l (js ''@@'') then collectChangeContexts [] (l # ls) else ([], l # ls)) = (contexts, after)"
  shows "update_chunks chunks (l # ls) =
    (case parseChunkLines after of
       Inl e \<Rightarrow> Inl e
     | Inr (old, new, eof, ls') \<Rightarrow>
         update_chunks (chunks @ [\<lparr>changeContexts = contexts, oldLines = old,
           newLines = new, isEndOfFile = eof\<rparr>]) ls')"
  unfolding update_chunks.simps(2) assms(4) using assms(1,2,3) by (simp only: if_False prod.case)

lemma update_chunks_shorter:
  "update_chunks chunks ls = Inr (chunks', ls') \<Longrightarrow> length ls' \<le> length ls"
proof (induction chunks ls rule: update_chunks.induct)
  case (2 chunks l ls)
  obtain contexts after where split:
    "(if starts_with l (js ''@@'') then collectChangeContexts [] (l # ls) else ([], l # ls)) = (contexts, after)"
    by fastforce
  then have after: "length after \<le> Suc (length ls)"
    by (auto split: if_splits dest!: collectChangeContexts_shorter simp del: collectChangeContexts.simps)
  show ?case
  proof (cases "trim l = [] \<or> starts_with l (js ''*** '') \<or> \<not> starts_with l (js ''@@'') \<and> chunks \<noteq> []")
    case True
    then show ?thesis using "2.IH"(1) "2.prems" by (auto split: if_splits)
  next
    case False
    then obtain old new eof ls'' where parse: "parseChunkLines after = Inr (old, new, eof, ls'')"
      using "2.prems" update_chunks_step [OF _ _ _ split, of chunks] by (auto split: sum.splits)
    have F: "trim l \<noteq> []" "\<not> starts_with l (js ''*** '')" "\<not> (\<not> starts_with l (js ''@@'') \<and> chunks \<noteq> [])"
      using False by simp_all
    have "length ls' \<le> length ls''"
      using "2.prems" "2.IH"(2) [OF F split [symmetric] parse refl refl refl]
      unfolding update_chunks_step [OF F split] parse by simp
    then show ?thesis using parseChunkLines_shorter [OF parse] after by simp
  qed
qed simp

lemma parseAddHunk_shorter: "parseAddHunk l ls = Inr (h, ls') \<Longrightarrow> length ls' \<le> length ls"
  by (auto simp: parseAddHunk_def split: sum.splits dest!: parse_add_lines_shorter)

lemma parseUpdateHunk_shorter: "parseUpdateHunk l ls = Inr (h, ls') \<Longrightarrow> length ls' \<le> length ls"
  by (auto simp: parseUpdateHunk_def Let_def simp del: update_chunks.simps
      split: sum.splits if_splits list.splits dest!: update_chunks_shorter)

function parse_hunks :: "jstr list \<Rightarrow> patch_error + ParsedPatch list" where
  "parse_hunks [] = Inr []"
| "parse_hunks (l # ls) =
     (if \<not> starts_with l (js ''*** '') then parse_hunks ls
      else if starts_with l ADD_FILE_MARKER then
        (case parseAddHunk l ls of Inl e \<Rightarrow> Inl e
         | Inr (h, ls') \<Rightarrow> map_sum id ((#) h) (parse_hunks ls'))
      else if starts_with l DELETE_FILE_MARKER then
        map_sum id ((#) (PDelete (drop (length DELETE_FILE_MARKER) l))) (parse_hunks ls)
      else if starts_with l UPDATE_FILE_MARKER then
        (case parseUpdateHunk l ls of Inl e \<Rightarrow> Inl e
         | Inr (h, ls') \<Rightarrow> map_sum id ((#) h) (parse_hunks ls'))
      else Inl (BadHeader l))"
  by pat_completeness auto
termination
  by (relation "measure length") (auto dest!: parseAddHunk_shorter parseUpdateHunk_shorter)

definition parsePatch :: "jstr \<Rightarrow> patch_error + ParsedPatch list" where
  "parsePatch patchText =
     (let ls = split_on LF (trim (stripHeredoc (trim (normalizePatchText patchText))))
      in if trim (last ls) \<noteq> END_PATCH_MARKER \<or> trim (hd ls) \<noteq> BEGIN_PATCH_MARKER
         then Inl NoEnvelope
         else parse_hunks (drop 1 (butlast ls)))"

end
