(* ===== verification/PermPaths.thy ===== *)
theory PermPaths
  imports PermRules Json PatchParse
begin

text \<open>
  What a tool call asks permission for (\<open>external-dir.ts\<close> and \<open>parsers.ts\<close> of the permission system, and
  \<open>extractPatchedPaths\<close> of \<open>gpt-apply-patch/text.ts\<close>): the paths outside the working directory, and the
  requests that the parser of each tool makes of its arguments. The functions of the POSIX path module
  are modelled; the home directory, the working directory of the process and the file system that
  resolves links are the argument \<open>host\<close>.
\<close>

section \<open>The path module\<close>

abbreviation SLASH :: nat where "SLASH \<equiv> 47"
abbreviation BACKSLASH :: nat where "BACKSLASH \<equiv> 92"

text \<open>\<open>normalizeString\<close>: \<open>.\<close> and empty parts go, \<open>..\<close> takes the part before it; one that has none stays
  only in a relative path.\<close>

fun normal_parts :: "bool \<Rightarrow> jstr list \<Rightarrow> jstr list \<Rightarrow> jstr list" where
  "normal_parts allow_above acc [] = rev acc"
| "normal_parts allow_above acc (s # ss) =
     (if s = [] \<or> s = js ''.'' then normal_parts allow_above acc ss
      else if s = js ''..'' then
        (if acc \<noteq> [] \<and> hd acc \<noteq> js ''..'' then normal_parts allow_above (tl acc) ss
         else if allow_above then normal_parts allow_above (s # acc) ss
         else normal_parts allow_above acc ss)
      else normal_parts allow_above (s # acc) ss)"

definition normalizeString :: "jstr \<Rightarrow> bool \<Rightarrow> jstr" where
  "normalizeString path allow_above = join [SLASH] (normal_parts allow_above [] (split_on SLASH path))"

definition isAbsolute :: "jstr \<Rightarrow> bool" where
  "isAbsolute path \<longleftrightarrow> path \<noteq> [] \<and> hd path = SLASH"

definition path_normalize :: "jstr \<Rightarrow> jstr" where
  "path_normalize path =
     (if path = [] then js ''.''
      else (let trailing = (last path = SLASH); p = normalizeString path (\<not> isAbsolute path)
        in if p = [] then (if isAbsolute path then [SLASH] else if trailing then js ''./'' else js ''.'')
           else (if isAbsolute path then [SLASH] else []) @ p @ (if trailing then [SLASH] else [])))"

definition path_join :: "jstr \<Rightarrow> jstr \<Rightarrow> jstr" where
  "path_join a b = path_normalize (join [SLASH] (filter (\<lambda>p. p \<noteq> []) [a, b]))"

definition resolve_step :: "jstr \<Rightarrow> jstr \<times> bool \<Rightarrow> jstr \<times> bool" where
  "resolve_step path r =
     (if snd r \<or> path = [] then r else (path @ [SLASH] @ fst r, isAbsolute path))"

definition path_resolve :: "jstr \<Rightarrow> jstr \<Rightarrow> jstr \<Rightarrow> jstr" where
  "path_resolve process_cwd a b =
     (let r = fold resolve_step [b, a, process_cwd] ([], False); p = normalizeString (fst r) (\<not> snd r)
      in if snd r then SLASH # p else if p \<noteq> [] then p else js ''.'')"

section \<open>Paths outside the working directory\<close>

record host =
  homedir :: jstr
  process_cwd :: jstr
  realpath :: "jstr \<Rightarrow> jstr option"

definition expandHome :: "host \<Rightarrow> jstr \<Rightarrow> jstr" where
  "expandHome h p =
     (if p = js ''~'' then homedir h
      else if starts_with p (js ''~/'') \<or> starts_with p (js ''~'' @ [BACKSLASH]) then path_join (homedir h) (drop 2 p)
      else if starts_with p (js ''$HOME/'') \<or> starts_with p (js ''$HOME'' @ [BACKSLASH]) then path_join (homedir h) (drop 6 p)
      else if p = js ''$HOME'' then homedir h
      else p)"

text \<open>\<open>realpath\<close> is \<open>None\<close> for a path that does not exist or cannot be resolved.\<close>

definition normalizePath :: "host \<Rightarrow> jstr \<Rightarrow> jstr" where
  "normalizePath h p = (case realpath h p of Some r \<Rightarrow> r | None \<Rightarrow> path_normalize p)"

text \<open>The target as the permission system sees it. The tools open the path that \<open>resolveToCwd\<close> finds for the same
  text, which need not be this one (theory \<open>ToolPaths\<close>).\<close>

definition target_path :: "host \<Rightarrow> jstr \<Rightarrow> jstr \<Rightarrow> jstr" where
  "target_path h p cwd =
     (let expanded = expandHome h p
      in normalizePath h
           (if isAbsolute expanded then expanded else path_resolve (process_cwd h) (normalizePath h cwd) expanded))"

definition isExternalPath :: "host \<Rightarrow> jstr \<Rightarrow> jstr \<Rightarrow> bool" where
  "isExternalPath h p cwd =
     (let normal_cwd = normalizePath h cwd; target = target_path h p cwd
      in if target = normal_cwd then False
         else
           (let with_separator = (if ends_with normal_cwd [SLASH] then normal_cwd else normal_cwd @ [SLASH])
            in \<not> starts_with target with_separator))"

text \<open>The loop over the units of a command; \<open>quotes\<close> is the open quotation mark.\<close>

fun tokenize_units :: "jstr \<Rightarrow> nat option \<Rightarrow> bool \<Rightarrow> jstr \<Rightarrow> jstr list" where
  "tokenize_units current quotes escaped [] = (if current \<noteq> [] then [current] else [])"
| "tokenize_units current quotes escaped (c # cs) =
     (if escaped then tokenize_units (current @ [c]) quotes False cs
      else if c = BACKSLASH then tokenize_units (current @ [c]) quotes True cs
      else if quotes \<noteq> None then tokenize_units (current @ [c]) (if quotes = Some c then None else quotes) False cs
      else if c = 34 \<or> c = 39 then tokenize_units (current @ [c]) (Some c) False cs
      else if c = 32 \<or> c = 9 then
        (if current \<noteq> [] then current # tokenize_units [] None False cs else tokenize_units [] None False cs)
      else tokenize_units (current @ [c]) None False cs)"

definition tokenizeCommand :: "jstr \<Rightarrow> jstr list" where
  "tokenizeCommand command = tokenize_units [] None False command"

definition unquote :: "jstr \<Rightarrow> jstr" where
  "unquote token =
     (if length token < 2 then token
      else if (hd token = 34 \<or> hd token = 39) \<and> hd token = last token then butlast (tl token)
      else token)"

definition name_start :: "nat \<Rightarrow> bool" where
  "name_start c \<longleftrightarrow> (65 \<le> c \<and> c \<le> 90) \<or> (97 \<le> c \<and> c \<le> 122) \<or> c = 95"

text \<open>\<open>/^[A-Za-z_][A-Za-z0-9_]*=/\<close>\<close>

definition is_assignment :: "jstr \<Rightarrow> bool" where
  "is_assignment token \<longleftrightarrow>
     token \<noteq> [] \<and> name_start (hd token) \<and>
     (let rest = dropWhile (\<lambda>c. name_start c \<or> is_digit c) token in rest \<noteq> [] \<and> hd rest = 61)"

definition shell_operators :: "jstr list" where
  "shell_operators = [js ''|'', js ''||'', js ''&&'', js '';'', js ''&'', js ''$('', js ''${'', [96]]"

definition looksLikePath :: "jstr \<Rightarrow> bool" where
  "looksLikePath token =
     (if starts_with token (js ''-'') then False
      else if is_assignment token then False
      else if list_ex (has_substring token) shell_operators then False
      else if starts_with token (js ''/'') then True
      else if starts_with token (js ''~'') then True
      else if starts_with token (js ''$HOME'') then True
      else if starts_with token (js ''./'') \<or> starts_with token (js ''../'') then True
      else has_substring token (js ''/''))"

definition plain_command :: "jstr \<Rightarrow> bool" where
  "plain_command first \<longleftrightarrow>
     \<not> starts_with first (js ''/'') \<and> \<not> starts_with first (js ''~'') \<and> \<not> starts_with first (js ''$'') \<and>
     \<not> starts_with first (js ''./'') \<and> \<not> starts_with first (js ''../'') \<and> \<not> has_substring first (js ''/'')"

definition extractExternalPaths :: "host \<Rightarrow> jstr \<Rightarrow> jstr \<Rightarrow> jstr list" where
  "extractExternalPaths h command cwd =
     (let tokens = tokenizeCommand command;
          start = (if tokens \<noteq> [] \<and> plain_command (unquote (hd tokens)) then 1 else 0)
      in filter (\<lambda>token. looksLikePath token \<and> isExternalPath h token cwd) (map unquote (drop start tokens)))"

section \<open>The paths of a patch\<close>

fun split_where :: "(nat \<Rightarrow> bool) \<Rightarrow> jstr \<Rightarrow> jstr list" where
  "split_where P [] = [[]]"
| "split_where P (x # xs) =
     (if P x then [] # split_where P xs
      else (case split_where P xs of [] \<Rightarrow> [[x]] | l # ls \<Rightarrow> (x # l) # ls))"

text \<open>One match of \<open>/^\*\*\* (?:(?:Add|Delete|Update) File|Move to): (.+)$/gm\<close> in a line.\<close>

definition patched_path :: "jstr \<Rightarrow> jstr option" where
  "patched_path line =
     (case find (starts_with line)
         [js ''*** Add File: '', js ''*** Delete File: '', js ''*** Update File: '', js ''*** Move to: ''] of
        None \<Rightarrow> None
      | Some p \<Rightarrow> if drop (length p) line = [] then None else Some (drop (length p) line))"

definition extractPatchedPaths :: "jstr \<Rightarrow> jstr list" where
  "extractPatchedPaths patchText =
     List.map_filter patched_path (split_where (\<lambda>c. \<not> dot c) (stripHeredoc (normalizePatchText patchText)))"

section \<open>Requests\<close>

record PermissionRequest =
  permission :: jstr
  patterns :: "jstr list"
  always :: "jstr list"

definition request :: "jstr \<Rightarrow> jstr list \<Rightarrow> jstr list \<Rightarrow> PermissionRequest" where
  "request perm pats alw = \<lparr>permission = perm, patterns = pats, always = alw\<rparr>"

definition fallbackPermissionRequest :: "jstr \<Rightarrow> PermissionRequest" where
  "fallbackPermissionRequest perm = request perm [js ''*''] [js ''*'']"

definition getString :: "(jstr \<times> json) list \<Rightarrow> jstr list \<Rightarrow> jstr option" where
  "getString input keys = (case List.map_filter (\<lambda>k. as_string (get input k)) keys of [] \<Rightarrow> None | s # _ \<Rightarrow> Some s)"

datatype AlwaysScope = ScopeFile | ScopeDirectory

definition is_separator :: "nat \<Rightarrow> bool" where
  "is_separator c \<longleftrightarrow> c = SLASH \<or> c = BACKSLASH"

text \<open>\<open>replace(/[\\/][^\\/]+$/, "/*")\<close>\<close>

definition replace_last_part :: "jstr \<Rightarrow> jstr" where
  "replace_last_part s =
     (let part = rev (takeWhile (\<lambda>c. \<not> is_separator c) (rev s)); before = take (length s - length part) s
      in if part = [] \<or> before = [] then s else butlast before @ js ''/*'')"

definition toParentDirectoryPattern :: "jstr \<Rightarrow> AlwaysScope \<Rightarrow> jstr" where
  "toParentDirectoryPattern p scope =
     (if p = js ''~'' \<or> p = js ''$HOME'' then p @ js ''/*''
      else if scope = ScopeDirectory then
        (if ends_with p [SLASH] \<or> ends_with p [BACKSLASH] then p @ js ''*'' else p @ js ''/*'')
      else if ends_with p [SLASH] \<or> ends_with p [BACKSLASH] then p @ js ''*''
      else (let parent = replace_last_part p in if parent = js ''/*'' then p else parent))"

definition parseFilePath :: "(jstr \<times> json) list \<Rightarrow> jstr option" where
  "parseFilePath input = getString input [js ''path'', js ''file_path'']"

definition external_request :: "jstr list \<Rightarrow> AlwaysScope \<Rightarrow> PermissionRequest list" where
  "external_request external scope =
     (if external = [] then []
      else [request (js ''external_directory'') external (map (\<lambda>p. toParentDirectoryPattern p scope) external)])"

definition withExternalDirectoryRequests ::
  "host \<Rightarrow> PermissionRequest list \<Rightarrow> jstr list \<Rightarrow> jstr \<Rightarrow> AlwaysScope \<Rightarrow> PermissionRequest list" where
  "withExternalDirectoryRequests h requests paths cwd scope =
     requests @ external_request (filter (\<lambda>p. isExternalPath h p cwd) paths) scope"

definition truthy :: "jstr option \<Rightarrow> bool" where
  "truthy s \<longleftrightarrow> s \<noteq> None \<and> s \<noteq> Some []"

text \<open>\<open>command.split(/\s+/).filter(Boolean)\<close>\<close>

definition command_words :: "jstr \<Rightarrow> jstr list" where
  "command_words command = filter (\<lambda>w. w \<noteq> []) (split_where is_space command)"

definition parseBashLikePermission ::
  "jstr \<Rightarrow> host \<Rightarrow> (jstr \<times> json) list \<Rightarrow> jstr \<Rightarrow> PermissionRequest list" where
  "parseBashLikePermission commandKey h input cwd =
     (let command = getString input [commandKey]
      in if \<not> truthy command then [fallbackPermissionRequest (js ''bash'')]
         else
           (let prefix = join (js '' '') (BashArity_prefix (command_words (the command)))
            in request (js ''bash'') [if prefix \<noteq> [] then prefix else the command]
                 (if prefix \<noteq> [] then [prefix, prefix @ js '' *''] else [js ''*''])
               # external_request (extractExternalPaths h (the command) cwd) ScopeFile))"

definition path_request :: "jstr \<Rightarrow> jstr \<Rightarrow> PermissionRequest" where
  "path_request perm path = request perm [path] [path]"

definition parseEditPermission :: "host \<Rightarrow> (jstr \<times> json) list \<Rightarrow> jstr \<Rightarrow> PermissionRequest list" where
  "parseEditPermission h input cwd =
     (let filePath = parseFilePath input; patchText = getString input [js ''input'', js ''patchText'']
      in if truthy filePath
         then withExternalDirectoryRequests h [path_request (js ''edit'') (the filePath)] [the filePath] cwd ScopeFile
         else if \<not> truthy patchText then [fallbackPermissionRequest (js ''edit'')]
         else
           (let paths = extractPatchedPaths (the patchText)
            in if paths = [] then [fallbackPermissionRequest (js ''edit'')]
               else withExternalDirectoryRequests h (map (path_request (js ''edit'')) paths) paths cwd ScopeFile))"

definition parseReadPermission :: "host \<Rightarrow> (jstr \<times> json) list \<Rightarrow> jstr \<Rightarrow> PermissionRequest list" where
  "parseReadPermission h input cwd =
     (let filePath = parseFilePath input
      in if \<not> truthy filePath then [fallbackPermissionRequest (js ''read'')]
         else withExternalDirectoryRequests h [path_request (js ''read'') (the filePath)] [the filePath] cwd ScopeFile)"

definition parseGrepPermission :: "host \<Rightarrow> (jstr \<times> json) list \<Rightarrow> jstr \<Rightarrow> PermissionRequest list" where
  "parseGrepPermission h input cwd =
     (let searchPath = getString input [js ''path''];
          pat = (if searchPath \<noteq> None then searchPath else getString input [js ''pattern''])
      in if \<not> truthy pat then [fallbackPermissionRequest (js ''grep'')]
         else
           (let requests = [request (js ''grep'') [the pat] [js ''*'']]
            in if truthy searchPath
               then withExternalDirectoryRequests h requests [the searchPath] cwd ScopeDirectory else requests))"

definition listParser :: "host \<Rightarrow> (jstr \<times> json) list \<Rightarrow> jstr \<Rightarrow> PermissionRequest list" where
  "listParser h input cwd =
     (let searchPath = (case getString input [js ''path''] of Some p \<Rightarrow> p | None \<Rightarrow> js ''.'')
      in withExternalDirectoryRequests h [path_request (js ''list'') searchPath] [searchPath] cwd ScopeDirectory)"

text \<open>The registry of the parsers and the parser of a call.\<close>

definition parse_call :: "host \<Rightarrow> jstr \<Rightarrow> (jstr \<times> json) list \<Rightarrow> jstr \<Rightarrow> PermissionRequest list" where
  "parse_call h tool input cwd =
     (if tool = js ''bash'' \<or> tool = js ''monitor'' then parseBashLikePermission (js ''command'') h input cwd
      else if tool = js ''bash_input'' then parseBashLikePermission (js ''input'') h input cwd
      else if tool \<in> {js ''edit'', js ''write'', js ''apply_patch'', js ''multiedit''} then parseEditPermission h input cwd
      else if tool = js ''read'' then parseReadPermission h input cwd
      else if tool = js ''grep'' then parseGrepPermission h input cwd
      else if tool = js ''find'' \<or> tool = js ''ls'' then listParser h input cwd
      else [fallbackPermissionRequest tool])"

section \<open>Paths inside the working directory\<close>

text \<open>The parts of a path, and a path as \<open>realpath\<close> returns it: absolute, without dots and empty parts.\<close>

definition path_parts :: "jstr \<Rightarrow> jstr list" where
  "path_parts p = filter (\<lambda>s. s \<noteq> []) (split_on SLASH p)"

definition resolved :: "jstr \<Rightarrow> bool" where
  "resolved p \<longleftrightarrow> isAbsolute p \<and> js ''..'' \<notin> set (path_parts p)"

definition clean_part :: "jstr \<Rightarrow> bool" where
  "clean_part s \<longleftrightarrow> s \<noteq> [] \<and> s \<noteq> js ''..'' \<and> SLASH \<notin> set s"

lemma normal_parts_clean:
  "list_all clean_part acc \<Longrightarrow> \<forall>s\<in>set ss. SLASH \<notin> set s \<Longrightarrow> list_all clean_part (normal_parts False acc ss)"
proof (induction ss arbitrary: acc)
  case (Cons s ss)
  have "list_all clean_part (tl acc)" using Cons.prems(1) by (cases acc) auto
  moreover have "list_all clean_part (s # acc)" if "s \<noteq> []" "s \<noteq> js ''..''"
    using that Cons.prems by (simp add: clean_part_def [of s])
  ultimately show ?case using Cons.IH Cons.prems by (simp add: js_def)
qed (simp add: list_all_iff)

lemma path_parts_middle: "path_parts (q @ [SLASH] @ s) = path_parts q @ path_parts s"
  by (simp add: path_parts_def split_on_middle)

lemma path_parts_Nil [simp]: "path_parts [] = []"
  by (simp add: path_parts_def)

lemma path_parts_join:
  assumes "\<forall>s\<in>set ss. s \<noteq> [] \<and> SLASH \<notin> set s"
  shows "path_parts (SLASH # join [SLASH] ss) = ss" "path_parts (SLASH # join [SLASH] ss @ [SLASH]) = ss"
proof -
  have "path_parts (join [SLASH] ss) = ss"
  proof (cases "ss = []")
    case False
    then have "split_on SLASH (join [SLASH] ss) = ss" using assms by (intro split_join) auto
    then show ?thesis using assms by (simp add: path_parts_def filter_id_conv)
  qed (simp add: path_parts_def)
  then show "path_parts (SLASH # join [SLASH] ss) = ss" "path_parts (SLASH # join [SLASH] ss @ [SLASH]) = ss"
    using path_parts_middle [of "[]" "join [SLASH] ss"] path_parts_middle [of "SLASH # join [SLASH] ss" "[]"]
      path_parts_middle [of "[]" "join [SLASH] ss @ [SLASH]"] path_parts_middle [of "join [SLASH] ss" "[]"]
    by simp_all
qed

lemma normalizeString_resolved:
  assumes "p = SLASH # normalizeString s False \<or> p = SLASH # normalizeString s False @ [SLASH]"
  shows "resolved p"
proof -
  let ?ss = "normal_parts False [] (split_on SLASH s)"
  have ss: "\<forall>t\<in>set ?ss. t \<noteq> [] \<and> t \<noteq> js ''..'' \<and> SLASH \<notin> set t"
    using normal_parts_clean [of "[]" "split_on SLASH s"] split_on_parts [of _ SLASH s] by (simp add: list_all_iff clean_part_def)
  then have "path_parts p = ?ss" using assms path_parts_join [of ?ss] by (auto simp: normalizeString_def)
  then show ?thesis using assms ss by (auto simp: resolved_def isAbsolute_def)
qed

lemma path_normalize_resolved: "isAbsolute p \<Longrightarrow> resolved (path_normalize p)"
  by (rule normalizeString_resolved [of _ p]) (auto simp: path_normalize_def Let_def isAbsolute_def)

lemma path_resolve_absolute: "isAbsolute a \<Longrightarrow> isAbsolute (path_resolve c a b)"
  by (auto simp: path_resolve_def Let_def resolve_step_def isAbsolute_def)

text \<open>A path that is a directory or is reached from it by parts none of which leads up again.\<close>

definition inside :: "jstr \<Rightarrow> jstr \<Rightarrow> bool" where
  "inside dir f \<longleftrightarrow> f = dir \<or> (\<exists>rest. path_parts f = path_parts dir @ rest \<and> js ''..'' \<notin> set rest)"

text \<open>The target of a path that needs no permission for an external directory lies inside the working directory.\<close>

lemma internal_target_inside:
  assumes "\<And>p r. realpath h p = Some r \<Longrightarrow> resolved r" and "isAbsolute cwd"
    and "\<not> isExternalPath h p cwd"
  shows "inside (normalizePath h cwd) (target_path h p cwd)"
proof (cases "target_path h p cwd = normalizePath h cwd")
  case False
  have normal: "resolved (normalizePath h q)" if "isAbsolute q" for q
    using that assms(1) path_normalize_resolved by (auto simp: normalizePath_def split: option.splits)
  have base: "isAbsolute (normalizePath h cwd)" using normal [OF assms(2)] by (simp add: resolved_def)
  have "resolved (target_path h p cwd)"
    unfolding target_path_def Let_def by (rule normal) (simp add: path_resolve_absolute base)
  then have up: "js ''..'' \<notin> set (path_parts (target_path h p cwd))" by (simp add: resolved_def)
  let ?sep = "if ends_with (normalizePath h cwd) [SLASH] then normalizePath h cwd else normalizePath h cwd @ [SLASH]"
  have "starts_with (target_path h p cwd) ?sep" using assms(3) False by (simp add: isExternalPath_def Let_def)
  then obtain s where s: "target_path h p cwd = ?sep @ s" by (auto simp: starts_with_iff)
  have "\<exists>rest. path_parts (target_path h p cwd) = path_parts (normalizePath h cwd) @ rest"
  proof (cases "ends_with (normalizePath h cwd) [SLASH]")
    case True
    then obtain q where q: "normalizePath h cwd = q @ [SLASH]"
      by (auto simp: ends_with_def starts_with_iff)
    show ?thesis using s True path_parts_middle [of q s] path_parts_middle [of q "[]"] by (simp add: q)
  next
    case False
    then show ?thesis using s path_parts_middle [of "normalizePath h cwd" s] by simp
  qed
  then show ?thesis using up by (auto simp: inside_def)
qed (simp add: inside_def)

end
