(* ===== verification/ToolPaths.thy ===== *)
theory ToolPaths
  imports PermPaths
begin

text \<open>
  The path a tool opens for the text a model writes (\<open>utils/paths.ts\<close> and \<open>core/tools/path-utils.ts\<close>), and how it
  lies to the path the permission system has judged. On POSIX; \<open>file_url\<close> stands for \<open>fileURLToPath\<close> (\<open>None\<close> where it
  throws) and \<open>nfd\<close> for \<open>normalize("NFD")\<close>; a file is there when \<open>realpath\<close> finds it.
\<close>

section \<open>Resolving the text of a path\<close>

definition UNICODE_SPACES :: "nat \<Rightarrow> bool" where
  "UNICODE_SPACES c \<longleftrightarrow> c = 0xA0 \<or> (0x2000 \<le> c \<and> c \<le> 0x200A) \<or> c = 0x202F \<or> c = 0x205F \<or> c = 0x3000"

record PathInputOptions =
  opt_trim :: bool
  opt_expandTilde :: "bool option"
  opt_homeDir :: "jstr option"
  opt_stripAtPrefix :: bool
  opt_normalizeUnicodeSpaces :: bool

definition no_options :: PathInputOptions where
  "no_options = \<lparr>opt_trim = False, opt_expandTilde = None, opt_homeDir = None, opt_stripAtPrefix = False,
     opt_normalizeUnicodeSpaces = False\<rparr>"

definition normalizePathInput :: "host \<Rightarrow> (jstr \<Rightarrow> jstr option) \<Rightarrow> PathInputOptions \<Rightarrow> jstr \<Rightarrow> jstr option" where
  "normalizePathInput h file_url opts input =
     (let normalized = (if opt_trim opts then trim input else input);
          normalized = (if opt_normalizeUnicodeSpaces opts
            then map (\<lambda>c. if UNICODE_SPACES c then 32 else c) normalized else normalized);
          normalized = (if opt_stripAtPrefix opts \<and> starts_with normalized (js ''@'') then drop 1 normalized else normalized);
          tilde = (case opt_expandTilde opts of Some b \<Rightarrow> b | None \<Rightarrow> True);
          home = (case opt_homeDir opts of Some d \<Rightarrow> d | None \<Rightarrow> homedir h)
      in if tilde \<and> normalized = js ''~'' then Some home
         else if tilde \<and> starts_with normalized (js ''~/'') then Some (path_join home (drop 2 normalized))
         else if starts_with normalized (js ''file://'') then file_url normalized
         else Some normalized)"

definition resolvePath :: "host \<Rightarrow> (jstr \<Rightarrow> jstr option) \<Rightarrow> jstr \<Rightarrow> jstr \<Rightarrow> PathInputOptions \<Rightarrow> jstr option" where
  "resolvePath h file_url input baseDir opts =
     (case normalizePathInput h file_url opts input of
        None \<Rightarrow> None
      | Some normalized \<Rightarrow>
          (case normalizePathInput h file_url no_options baseDir of
             None \<Rightarrow> None
           | Some base \<Rightarrow>
               Some (if isAbsolute normalized then path_resolve (process_cwd h) [] normalized
                     else path_resolve (process_cwd h) base normalized)))"

definition tool_options :: PathInputOptions where
  "tool_options = no_options\<lparr>opt_stripAtPrefix := True, opt_normalizeUnicodeSpaces := True\<rparr>"

definition expandPath :: "host \<Rightarrow> (jstr \<Rightarrow> jstr option) \<Rightarrow> jstr \<Rightarrow> jstr option" where
  "expandPath h file_url filePath = normalizePathInput h file_url tool_options filePath"

definition resolveToCwd :: "host \<Rightarrow> (jstr \<Rightarrow> jstr option) \<Rightarrow> jstr \<Rightarrow> jstr \<Rightarrow> jstr option" where
  "resolveToCwd h file_url filePath cwd = resolvePath h file_url filePath cwd tool_options"

section \<open>The spellings that reading tries\<close>

text \<open>\<open>replace(/ (AM|PM)\./gi, ...)\<close>\<close>

definition am_pm :: "jstr \<Rightarrow> bool" where
  "am_pm s \<longleftrightarrow> length s = 3 \<and> s ! 0 \<in> {65, 97, 80, 112} \<and> s ! 1 \<in> {77, 109} \<and> s ! 2 = 46"

fun tryMacOSScreenshotPath :: "jstr \<Rightarrow> jstr" where
  "tryMacOSScreenshotPath [] = []"
| "tryMacOSScreenshotPath (c # cs) =
     (if c = 32 \<and> am_pm (take 3 cs) then 0x202F # take 3 cs @ tryMacOSScreenshotPath (drop 3 cs)
      else c # tryMacOSScreenshotPath cs)"

definition tryCurlyQuoteVariant :: "jstr \<Rightarrow> jstr" where
  "tryCurlyQuoteVariant = map (\<lambda>c. if c = 39 then 0x2019 else c)"

definition fileExists :: "host \<Rightarrow> jstr \<Rightarrow> bool" where
  "fileExists h f \<longleftrightarrow> realpath h f \<noteq> None"

definition resolveReadPath :: "host \<Rightarrow> (jstr \<Rightarrow> jstr option) \<Rightarrow> (jstr \<Rightarrow> jstr) \<Rightarrow> jstr \<Rightarrow> jstr \<Rightarrow> jstr option" where
  "resolveReadPath h file_url nfd filePath cwd =
     (case resolveToCwd h file_url filePath cwd of
        None \<Rightarrow> None
      | Some f \<Rightarrow>
          if fileExists h f then Some f
          else
            (let amPmVariant = tryMacOSScreenshotPath f; nfdVariant = nfd f; curlyVariant = tryCurlyQuoteVariant f;
                 nfdCurlyVariant = tryCurlyQuoteVariant nfdVariant
             in if amPmVariant \<noteq> f \<and> fileExists h amPmVariant then Some amPmVariant
                else if nfdVariant \<noteq> f \<and> fileExists h nfdVariant then Some nfdVariant
                else if curlyVariant \<noteq> f \<and> fileExists h curlyVariant then Some curlyVariant
                else if nfdCurlyVariant \<noteq> f \<and> fileExists h nfdCurlyVariant then Some nfdCurlyVariant
                else Some f))"

section \<open>A resolved path is in normal form\<close>

lemma normal_parts_plain:
  "list_all (\<lambda>s. clean_part s \<and> s \<noteq> js ''.'') acc \<Longrightarrow> \<forall>s\<in>set ss. SLASH \<notin> set s \<Longrightarrow>
   list_all (\<lambda>s. clean_part s \<and> s \<noteq> js ''.'') (normal_parts False acc ss)"
proof (induction ss arbitrary: acc)
  case (Cons s ss)
  have "list_all (\<lambda>s. clean_part s \<and> s \<noteq> js ''.'') (tl acc)" using Cons.prems(1) by (cases acc) auto
  moreover have "list_all (\<lambda>s. clean_part s \<and> s \<noteq> js ''.'') (s # acc)" if "s \<noteq> []" "s \<noteq> js ''..''" "s \<noteq> js ''.''"
    using that Cons.prems by (simp add: clean_part_def [of s])
  ultimately show ?case using Cons.IH Cons.prems by simp
qed (simp add: list_all_iff)

lemma normal_parts_fixed:
  "list_all (\<lambda>s. clean_part s \<and> s \<noteq> js ''.'') ss \<Longrightarrow> normal_parts False acc ss = rev acc @ ss"
  by (induction ss arbitrary: acc) (simp_all add: clean_part_def)

lemma path_normalize_fixed:
  assumes "list_all (\<lambda>s. clean_part s \<and> s \<noteq> js ''.'') ss"
  shows "path_normalize (SLASH # join [SLASH] ss) = SLASH # join [SLASH] ss"
proof (cases "ss = []")
  case False
  have "split_on SLASH (SLASH # join [SLASH] ss) = [] # ss"
    using False assms split_on_append [of SLASH "[]" "join [SLASH] ss"] split_join [of ss SLASH]
    by (auto simp: list_all_iff clean_part_def)
  then have "normalizeString (SLASH # join [SLASH] ss) False = join [SLASH] ss"
    using normal_parts_fixed [OF assms, of "[]"] by (simp add: normalizeString_def)
  moreover have "join [SLASH] ss \<noteq> [] \<and> last (join [SLASH] ss) \<noteq> SLASH"
    using False assms
  proof (induction ss rule: list_nonempty_induct)
    case (single s)
    then show ?case by (simp add: clean_part_def) (metis last_in_set)
  next
    case (cons s ss)
    then show ?case by (cases ss) auto
  qed
  ultimately show ?thesis by (simp add: path_normalize_def isAbsolute_def Let_def)
qed (simp add: path_normalize_def normalizeString_def isAbsolute_def js_def)

lemma path_normalize_resolve:
  assumes "isAbsolute a \<or> isAbsolute b"
  shows "path_normalize (path_resolve c a b) = path_resolve c a b"
proof -
  let ?r = "fold resolve_step [b, a, c] ([], False)"
  let ?ss = "normal_parts False [] (split_on SLASH (fst ?r))"
  have plain: "list_all (\<lambda>s. clean_part s \<and> s \<noteq> js ''.'') ?ss"
    by (rule normal_parts_plain) (auto dest: split_on_parts)
  have "snd ?r" using assms by (auto simp: resolve_step_def isAbsolute_def)
  then have "path_resolve c a b = SLASH # join [SLASH] ?ss"
    unfolding path_resolve_def Let_def normalizeString_def by (simp only: if_True not_True_eq_False)
  then show ?thesis using path_normalize_fixed [OF plain] by (simp only:)
qed

section \<open>What was judged is what is opened\<close>

text \<open>The spellings for which the permission system and the tools agree: no Unicode space, no leading \<open>@\<close> or
  \<open>$HOME\<close>, no URL, no \<open>~\<close> before a backslash; and an absolute path (also one in the home directory) in
  normal form, without dots, empty parts and a final slash.\<close>

definition ordinary_path :: "host \<Rightarrow> jstr \<Rightarrow> bool" where
  "ordinary_path h p \<longleftrightarrow> (\<forall>c\<in>set p. \<not> UNICODE_SPACES c) \<and>
     \<not> list_ex (starts_with p) [js ''@'', js ''$HOME'', js ''file://'', js ''~'' @ [BACKSLASH]] \<and>
     (isAbsolute (expandHome h p) \<longrightarrow> path_resolve (process_cwd h) [] (expandHome h p) = expandHome h p)"

lemma starts_with_first: "starts_with s (c # p) \<Longrightarrow> s \<noteq> [] \<and> hd s = c"
  by (auto simp: starts_with_iff)

lemma ordinary_resolved:
  assumes "ordinary_path h p" and "isAbsolute cwd"
  shows "resolveToCwd h file_url p cwd =
    Some (if isAbsolute (expandHome h p) then expandHome h p else path_resolve (process_cwd h) cwd (expandHome h p))"
proof -
  have ord: "\<not> starts_with p (js ''@'')" "\<not> starts_with p (js ''$HOME'')" "\<not> starts_with p (js ''file://'')"
      "\<not> starts_with p (js ''~'' @ [BACKSLASH])" "\<forall>c\<in>set p. \<not> UNICODE_SPACES c"
    using assms(1) by (simp_all add: ordinary_path_def)
  have spaces: "map (\<lambda>c. if UNICODE_SPACES c then 32 else c) p = p" using ord(5) by (intro map_idI) auto
  have home: "p \<noteq> js ''$HOME''" "\<not> starts_with p (js ''$HOME/'')" "\<not> starts_with p (js ''$HOME'' @ [BACKSLASH])"
    using ord(2) by (auto simp: starts_with_iff js_def)
  have expanded: "normalizePathInput h file_url tool_options p = Some (expandHome h p)"
    using ord(1,3,4) home
    by (simp add: normalizePathInput_def tool_options_def no_options_def spaces expandHome_def Let_def)
  have "\<not> starts_with cwd (js ''file://'')" "\<not> starts_with cwd (js ''~/'')" "cwd \<noteq> js ''~''"
    using assms(2) by (auto simp: isAbsolute_def js_def dest!: starts_with_first)
  then have base: "normalizePathInput h file_url no_options cwd = Some cwd"
    by (simp add: normalizePathInput_def no_options_def Let_def)
  show ?thesis
    using assms(1) by (simp add: resolveToCwd_def resolvePath_def expanded base ordinary_path_def)
qed

text \<open>For an ordinary path the target that is judged is where the opened path leads, or that path itself if there
  is nothing yet.\<close>

lemma ordinary_target:
  assumes "ordinary_path h p" and "isAbsolute cwd" and "normalizePath h cwd = cwd"
    and "resolveToCwd h file_url p cwd = Some q"
  shows "target_path h p cwd = (case realpath h q of Some r \<Rightarrow> r | None \<Rightarrow> q)"
proof -
  let ?e = "expandHome h p"
  have q: "q = (if isAbsolute ?e then path_resolve (process_cwd h) [] ?e else path_resolve (process_cwd h) cwd ?e)"
    "q = (if isAbsolute ?e then ?e else path_resolve (process_cwd h) cwd ?e)"
    using ordinary_resolved [OF assms(1,2), of file_url] assms(1,4) by (auto simp: ordinary_path_def)
  have "path_normalize q = q"
    unfolding q(1) using path_normalize_resolve [of "[]" ?e] path_normalize_resolve [of cwd ?e] assms(2) by auto
  moreover have "target_path h p cwd = normalizePath h q" using assms(3) by (simp add: target_path_def q(2))
  ultimately show ?thesis by (simp add: normalizePath_def split: option.splits)
qed

text \<open>The tools that take one path, and a call of one that asks for no directory outside.\<close>

definition path_tools :: "jstr list" where
  "path_tools = [js ''read'', js ''write'', js ''edit'', js ''ls'', js ''find'', js ''grep'']"

lemma internal_request:
  assumes "\<forall>r\<in>set (withExternalDirectoryRequests h rs [p] cwd scope). permission r \<noteq> js ''external_directory''"
  shows "\<not> isExternalPath h p cwd"
proof
  assume "isExternalPath h p cwd"
  then have "request (js ''external_directory'') [p] [toParentDirectoryPattern p scope]
      \<in> set (withExternalDirectoryRequests h rs [p] cwd scope)"
    by (simp add: withExternalDirectoryRequests_def external_request_def)
  with assms show False by (auto simp: request_def)
qed

lemma call_requests_path:
  assumes "tool \<in> set path_tools" and "get input (js ''path'') = JStr p" and "p \<noteq> []"
  obtains rs scope where "parse_call h tool input cwd = withExternalDirectoryRequests h rs [p] cwd scope"
proof -
  have first: "getString input (js ''path'' # keys) = Some p" for keys
    by (simp add: getString_def assms(2) List.map_filter_simps)
  have "truthy (Some p)" using assms(3) by (simp add: truthy_def)
  moreover have "parse_call h tool input cwd \<in> {parseReadPermission h input cwd, parseEditPermission h input cwd,
      parseGrepPermission h input cwd, listParser h input cwd}"
    using assms(1) by (auto simp: path_tools_def parse_call_def js_def)
  ultimately show thesis
    using that
    by (auto simp: parseReadPermission_def parseEditPermission_def parseGrepPermission_def
        listParser_def parseFilePath_def first Let_def)
qed

text \<open>C17: when a call of \<open>read\<close>, \<open>write\<close>, \<open>edit\<close>, \<open>ls\<close>, \<open>find\<close> or \<open>grep\<close> with an ordinary path asks for no permission
  for an external directory, the path the tool opens (for \<open>read\<close>, if it is there) lies inside the working directory,
  with all links followed: it is the directory or is reached from it by parts none of which leads up again. If
  there is nothing at that path yet, the path as it is spelled lies inside. The working directory is given
  by its real path.\<close>

theorem opened_path_inside:
  assumes "\<And>f r. realpath h f = Some r \<Longrightarrow> resolved r" and "isAbsolute cwd" and "normalizePath h cwd = cwd"
    and "tool \<in> set path_tools" and "get input (js ''path'') = JStr p" and "p \<noteq> []" and "ordinary_path h p"
    and "\<forall>r\<in>set (parse_call h tool input cwd). permission r \<noteq> js ''external_directory''"
  shows "\<exists>q. resolveToCwd h file_url p cwd = Some q \<and>
    (case realpath h q of
       Some r \<Rightarrow> inside cwd r \<and> resolveReadPath h file_url nfd p cwd = Some q
     | None \<Rightarrow> inside cwd q)"
proof -
  obtain rs scope where "parse_call h tool input cwd = withExternalDirectoryRequests h rs [p] cwd scope"
    using call_requests_path [OF assms(4-6)] by blast
  then have "\<not> isExternalPath h p cwd" using internal_request assms(8) by metis
  then have target: "inside cwd (target_path h p cwd)" using internal_target_inside [of h cwd p] assms(1-3) by simp
  obtain q where q: "resolveToCwd h file_url p cwd = Some q" using ordinary_resolved [OF assms(7,2)] by blast
  show ?thesis
    using target unfolding ordinary_target [OF assms(7,2,3) q]
    by (auto simp: q resolveReadPath_def fileExists_def split: option.splits)
qed

definition linked_host :: "(jstr \<times> jstr) list \<Rightarrow> host" where
  "linked_host links = \<lparr>homedir = js ''/h'', process_cwd = js ''/'', realpath = map_of links\<rparr>"

lemmas path_evaluation = expandHome_def isAbsolute_def normalizePath_def path_normalize_def normalizeString_def
  path_resolve_def resolve_step_def Let_def js_def

theorem opened_path_inside_witness:
  "\<exists>q. resolveToCwd (linked_host [(js ''/w'', js ''/w''), (js ''/w/b'', js ''/w/d/c'')]) (\<lambda>_. None) (js ''a/../b'') (js ''/w'') = Some q \<and>
     q = js ''/w/b'' \<and> inside (js ''/w'') (js ''/w/d/c'')"
proof -
  let ?h = "linked_host [(js ''/w'', js ''/w''), (js ''/w/b'', js ''/w/d/c'')]"
  let ?in = "[(js ''path'', JStr (js ''a/../b''))]"
  have real: "resolved r" if "realpath ?h f = Some r" for f r
    using that by (auto simp: linked_host_def resolved_def isAbsolute_def path_parts_def js_def split: if_splits)
  have cwd: "normalizePath ?h (js ''/w'') = js ''/w''" by (simp add: normalizePath_def linked_host_def)
  have ord: "ordinary_path ?h (js ''a/../b'')"
    by (simp add: ordinary_path_def UNICODE_SPACES_def linked_host_def path_evaluation)
  have abs: "isAbsolute (js ''/w'')" by (simp add: isAbsolute_def js_def)
  have asked: "\<forall>r\<in>set (parse_call ?h (js ''read'') ?in (js ''/w'')). permission r \<noteq> js ''external_directory''"
    by (simp add: parse_call_def parseReadPermission_def parseFilePath_def getString_def get_def truthy_def List.map_filter_simps
        withExternalDirectoryRequests_def external_request_def isExternalPath_def target_path_def path_request_def request_def
        linked_host_def path_evaluation ends_with_def)
  have q: "resolveToCwd ?h (\<lambda>_. None) (js ''a/../b'') (js ''/w'') = Some (js ''/w/b'')"
    using ordinary_resolved [OF ord abs, of "\<lambda>_. None"] by (simp add: linked_host_def path_evaluation)
  have "realpath ?h (js ''/w/b'') = Some (js ''/w/d/c'')" by (simp add: linked_host_def js_def)
  then show ?thesis
    using opened_path_inside [where p = "js ''a/../b''" and file_url = "\<lambda>_. None" and nfd = "\<lambda>s. s",
        OF real abs cwd _ _ _ ord asked] q
    by (simp add: path_tools_def get_def js_def)
qed

section \<open>Other spellings\<close>

text \<open>A leading \<open>@\<close> and a file URL are part of a relative name for the permission system and are taken away by the
  tools: the path that is judged lies inside, the one that is opened does not.\<close>

lemma at_sign_opened_outside:
  "\<not> isExternalPath (linked_host []) (js ''@/etc/passwd'') (js ''/w'') \<and>
   resolveToCwd (linked_host []) file_url (js ''@/etc/passwd'') (js ''/w'') = Some (js ''/etc/passwd'')"
  by (simp add: isExternalPath_def target_path_def linked_host_def resolveToCwd_def resolvePath_def normalizePathInput_def
      tool_options_def no_options_def UNICODE_SPACES_def ends_with_def path_evaluation)

lemma file_url_opened_outside:
  "file_url (js ''file:///etc/passwd'') = Some (js ''/etc/passwd'') \<Longrightarrow>
   \<not> isExternalPath (linked_host []) (js ''file:///etc/passwd'') (js ''/w'') \<and>
   resolveToCwd (linked_host []) file_url (js ''file:///etc/passwd'') (js ''/w'') = Some (js ''/etc/passwd'')"
  by (simp add: isExternalPath_def target_path_def linked_host_def resolveToCwd_def resolvePath_def normalizePathInput_def
      tool_options_def no_options_def UNICODE_SPACES_def ends_with_def path_evaluation)

text \<open>An absolute path is judged as it is written and opened in normal form. With a final slash a link to a file is
  not followed, since nothing is found there; and two dots behind a link lead elsewhere in the file system than in the
  spelling.\<close>

lemma final_slash_opened_outside:
  fixes file_url
  defines "h \<equiv> linked_host [(js ''/w'', js ''/w''), (js ''/w/l'', js ''/etc/passwd'')]"
  shows "\<not> isExternalPath h (js ''/w/l/'') (js ''/w'') \<and> resolveToCwd h file_url (js ''/w/l/'') (js ''/w'') = Some (js ''/w/l'') \<and>
    realpath h (js ''/w/l'') = Some (js ''/etc/passwd'')"
  by (simp add: h_def isExternalPath_def target_path_def linked_host_def resolveToCwd_def resolvePath_def normalizePathInput_def
      tool_options_def no_options_def UNICODE_SPACES_def ends_with_def path_evaluation)

lemma dots_opened_outside:
  fixes file_url
  defines "h \<equiv> linked_host [(js ''/w'', js ''/w''), (js ''/w/l/../../s'', js ''/w/s'')]"
  shows "\<not> isExternalPath h (js ''/w/l/../../s'') (js ''/w'') \<and>
    resolveToCwd h file_url (js ''/w/l/../../s'') (js ''/w'') = Some (js ''/s'')"
  by (simp add: h_def isExternalPath_def target_path_def linked_host_def resolveToCwd_def resolvePath_def normalizePathInput_def
      tool_options_def no_options_def UNICODE_SPACES_def ends_with_def path_evaluation)

text \<open>A new file in a directory that is a link is judged by its spelling, since nothing is found there yet.\<close>

lemma new_file_behind_link:
  fixes file_url
  defines "h \<equiv> linked_host [(js ''/w'', js ''/w''), (js ''/w/d'', js ''/out'')]"
  shows "\<not> isExternalPath h (js ''d/new'') (js ''/w'') \<and> resolveToCwd h file_url (js ''d/new'') (js ''/w'') = Some (js ''/w/d/new'') \<and>
    realpath h (js ''/w/d'') = Some (js ''/out'')"
  by (simp add: h_def isExternalPath_def target_path_def linked_host_def resolveToCwd_def resolvePath_def normalizePathInput_def
      tool_options_def no_options_def UNICODE_SPACES_def ends_with_def path_evaluation)

end
