(* ===== verification/TodoState.thy ===== *)
theory TodoState
  imports Json
begin

text \<open>
  The todo list of \<open>coding-agent/src/core/extensions/builtin/todotools\<close>: its types
  (\<open>todo-types.ts\<close>), its queries and the in-progress normalisation (\<open>todo-query.ts\<close>), and the
  reading of stored snapshots (\<open>todo-storage.ts\<close>). The code mutates shared task and phase
  objects; each object occurs at one place of the phase list, so a reference is a position:
  a task is \<open>(phase index, task index)\<close>, a phase its index.
\<close>

section \<open>Types\<close>

datatype TodoStatus = Pending | InProgress | Completed | Abandoned

record TodoItem =
  content :: jstr
  status :: TodoStatus

record TodoPhase =
  phase_name :: jstr
  tasks :: "TodoItem list"

type_synonym task_ref = "nat \<times> nat"

record TodoCompletionTransition =
  tr_phase :: jstr
  tr_content :: jstr

definition DEFAULT_INIT_PHASE :: jstr where
  "DEFAULT_INIT_PHASE = js ''Tasks''"

definition TODO_STATE_ENTRY_TYPE :: jstr where
  "TODO_STATE_ENTRY_TYPE = js ''senpi.todo-state''"

section \<open>Positions\<close>

fun find_pos :: "('a \<Rightarrow> bool) \<Rightarrow> 'a list \<Rightarrow> nat option" where
  "find_pos P [] = None"
| "find_pos P (x # xs) = (if P x then Some 0 else map_option Suc (find_pos P xs))"

definition task_refs :: "TodoPhase list \<Rightarrow> task_ref list" where
  "task_refs ps = concat (map (\<lambda>i. map (\<lambda>j. (i, j)) [0..<length (tasks (ps ! i))]) [0..<length ps])"

fun task_at :: "TodoPhase list \<Rightarrow> task_ref \<Rightarrow> TodoItem" where
  "task_at ps (i, j) = tasks (ps ! i) ! j"

fun set_status :: "TodoStatus \<Rightarrow> task_ref \<Rightarrow> TodoPhase list \<Rightarrow> TodoPhase list" where
  "set_status st (i, j) ps =
     ps[i := (ps ! i)\<lparr>tasks := (tasks (ps ! i))[j := (tasks (ps ! i) ! j)\<lparr>status := st\<rparr>]\<rparr>]"

definition set_statuses :: "TodoStatus \<Rightarrow> task_ref list \<Rightarrow> TodoPhase list \<Rightarrow> TodoPhase list" where
  "set_statuses st rs ps = fold (set_status st) rs ps"

section \<open>Queries\<close>

fun findTaskByContent :: "TodoPhase list \<Rightarrow> jstr \<Rightarrow> task_ref option" where
  "findTaskByContent [] c = None"
| "findTaskByContent (p # ps) c =
     (case find_pos (\<lambda>t. content t = c) (tasks p) of
        Some j \<Rightarrow> Some (0, j)
      | None \<Rightarrow> map_option (\<lambda>(i, j). (Suc i, j)) (findTaskByContent ps c))"

definition findPhaseByName :: "TodoPhase list \<Rightarrow> jstr \<Rightarrow> nat option" where
  "findPhaseByName ps n = find_pos (\<lambda>p. phase_name p = n) ps"

definition normalizeInProgressTask :: "TodoPhase list \<Rightarrow> TodoPhase list" where
  "normalizeInProgressTask ps =
     (let orderedTasks = task_refs ps
      in if orderedTasks = [] then ps
         else let inProgress = filter (\<lambda>r. status (task_at ps r) = InProgress) orderedTasks;
                  ps = (if length inProgress > 1 then set_statuses Pending (tl inProgress) ps else ps)
              in if length inProgress > 0 then ps
                 else case find (\<lambda>r. status (task_at ps r) = Pending) orderedTasks of
                        None \<Rightarrow> ps
                      | Some r \<Rightarrow> set_status InProgress r ps)"

text \<open>The double loop of \<open>nextActionableTask\<close>: it returns the first task in progress, and
  otherwise the first pending task it has passed.\<close>

fun next_actionable :: "TodoPhase list \<Rightarrow> task_ref list \<Rightarrow> task_ref option \<Rightarrow> task_ref option" where
  "next_actionable ps [] firstPending = firstPending"
| "next_actionable ps (r # rs) firstPending =
     (if status (task_at ps r) = InProgress then Some r
      else next_actionable ps rs
             (if firstPending = None \<and> status (task_at ps r) = Pending then Some r else firstPending))"

definition nextActionableTask :: "TodoPhase list \<Rightarrow> task_ref option" where
  "nextActionableTask ps = next_actionable ps (task_refs ps) None"

text \<open>The map's key joins phase name and content with a NUL, so equal keys need not be equal pairs.\<close>

definition transition_key :: "jstr \<Rightarrow> jstr \<Rightarrow> jstr" where
  "transition_key n c = n @ [0] @ c"

definition previous_statuses :: "TodoPhase list \<Rightarrow> (jstr \<rightharpoonup> TodoStatus)" where
  "previous_statuses ps =
     fold (\<lambda>p m. fold (\<lambda>t m. m(transition_key (phase_name p) (content t) \<mapsto> status t)) (tasks p) m)
       ps Map.empty"

definition getCompletionTransitions ::
  "TodoPhase list \<Rightarrow> TodoPhase list \<Rightarrow> TodoCompletionTransition list" where
  "getCompletionTransitions previous updated =
     concat (map (\<lambda>p. concat (map (\<lambda>t.
        if status t \<noteq> Completed then []
        else case previous_statuses previous (transition_key (phase_name p) (content t)) of
               None \<Rightarrow> []
             | Some st \<Rightarrow>
                 if st \<noteq> Completed then [\<lparr>tr_phase = phase_name p, tr_content = content t\<rparr>] else [])
        (tasks p))) updated)"

section \<open>Snapshots\<close>

fun isTodoStatus :: "json \<Rightarrow> TodoStatus option" where
  "isTodoStatus (JStr s) =
     (if s = js ''pending'' then Some Pending
      else if s = js ''in_progress'' then Some InProgress
      else if s = js ''completed'' then Some Completed
      else if s = js ''abandoned'' then Some Abandoned
      else None)"
| "isTodoStatus _ = None"

definition parseTodoStatus :: "json \<Rightarrow> TodoStatus option" where
  "parseTodoStatus v = (if v = JStr (js ''cancelled'') then Some Abandoned else isTodoStatus v)"

definition parseTodoItem :: "bool \<Rightarrow> json \<Rightarrow> TodoItem option" where
  "parseTodoItem lenient v =
     (case props_of v of None \<Rightarrow> None
      | Some obj \<Rightarrow>
          (case as_string (get obj (js ''content'')) of None \<Rightarrow> None
           | Some c \<Rightarrow>
               (case parseTodoStatus (get obj (js ''status'')) of
                  Some st \<Rightarrow> Some \<lparr>content = c, status = st\<rparr>
                | None \<Rightarrow> if lenient then Some \<lparr>content = c, status = Pending\<rparr> else None)))"

definition parseTodoPhase :: "json \<Rightarrow> TodoPhase option" where
  "parseTodoPhase v =
     (case props_of v of None \<Rightarrow> None
      | Some obj \<Rightarrow>
          (case (as_string (get obj (js ''name'')), as_array (get obj (js ''tasks''))) of
             (Some n, Some ts) \<Rightarrow>
               map_option (\<lambda>items. \<lparr>phase_name = n, tasks = items\<rparr>) (traverse (parseTodoItem False) ts)
           | _ \<Rightarrow> None))"

definition parsePhases :: "json \<Rightarrow> (TodoPhase list) option" where
  "parsePhases v =
     (case as_array v of None \<Rightarrow> None | Some xs \<Rightarrow> traverse parseTodoPhase xs)"

definition parseLegacyTodos :: "json \<Rightarrow> (TodoPhase list) option" where
  "parseLegacyTodos v =
     (case as_array v of None \<Rightarrow> None
      | Some xs \<Rightarrow> map_option (\<lambda>items. [\<lparr>phase_name = DEFAULT_INIT_PHASE, tasks = items\<rparr>])
                    (traverse (parseTodoItem True) xs))"

definition readTodoPayload :: "json \<Rightarrow> (TodoPhase list) option" where
  "readTodoPayload v =
     (case props_of v of None \<Rightarrow> None
      | Some obj \<Rightarrow>
          if get obj (js ''schema'') = JStr (js ''v2'') then parsePhases (get obj (js ''phases''))
          else if as_array (get obj (js ''phases'')) \<noteq> None then parsePhases (get obj (js ''phases''))
          else if as_array (get obj (js ''todos'')) \<noteq> None then parseLegacyTodos (get obj (js ''todos''))
          else None)"

definition cloneTask :: "TodoItem \<Rightarrow> TodoItem" where
  "cloneTask t = \<lparr>content = content t, status = status t\<rparr>"

definition clonePhases :: "TodoPhase list \<Rightarrow> TodoPhase list" where
  "clonePhases ps = map (\<lambda>p. \<lparr>phase_name = phase_name p, tasks = map cloneTask (tasks p)\<rparr>) ps"

definition isTodoItem :: "json \<Rightarrow> bool" where
  "isTodoItem v \<longleftrightarrow> parseTodoItem False v \<noteq> None"

definition isTodoPhase :: "json \<Rightarrow> bool" where
  "isTodoPhase v \<longleftrightarrow> parseTodoPhase v \<noteq> None"

definition isTodoItemArray :: "json \<Rightarrow> bool" where
  "isTodoItemArray v \<longleftrightarrow> (case as_array v of None \<Rightarrow> False | Some xs \<Rightarrow> list_all isTodoItem xs)"

definition isTodoPhaseArray :: "json \<Rightarrow> bool" where
  "isTodoPhaseArray v \<longleftrightarrow> (case as_array v of None \<Rightarrow> False | Some xs \<Rightarrow> list_all isTodoPhase xs)"

text \<open>What the reader looks at in a branch entry of the session.\<close>

datatype branch_entry =
    CustomEntry jstr json          \<comment> \<open>customType, data\<close>
  | MessageEntry json              \<comment> \<open>message\<close>
  | OtherEntry jstr

fun latest_step :: "branch_entry \<Rightarrow> TodoPhase list \<Rightarrow> TodoPhase list" where
  "latest_step (CustomEntry ty data) ps =
     (if ty = TODO_STATE_ENTRY_TYPE
      then (case readTodoPayload data of Some q \<Rightarrow> clonePhases q | None \<Rightarrow> ps) else ps)"
| "latest_step (MessageEntry msg) ps =
     (case props_of msg of None \<Rightarrow> ps
      | Some obj \<Rightarrow>
          if get obj (js ''role'') \<noteq> JStr (js ''toolResult'') then ps
          else if get obj (js ''toolName'') \<noteq> JStr (js ''todo'') \<and>
                  get obj (js ''toolName'') \<noteq> JStr (js ''todowrite'') then ps
          else (case readTodoPayload (get obj (js ''details'')) of Some q \<Rightarrow> clonePhases q | None \<Rightarrow> ps))"
| "latest_step (OtherEntry ty) ps = ps"

definition getLatestPhasesFromBranchEntries :: "branch_entry list \<Rightarrow> TodoPhase list" where
  "getLatestPhasesFromBranchEntries entries = fold latest_step entries []"

definition getLatestTodosFromBranchEntries :: "branch_entry list \<Rightarrow> TodoItem list" where
  "getLatestTodosFromBranchEntries entries =
     concat (map (\<lambda>p. map cloneTask (tasks p)) (getLatestPhasesFromBranchEntries entries))"

text \<open>The snapshot the tool appends (\<open>TodoStateEntry\<close>), as the stored JSON.\<close>

fun status_json :: "TodoStatus \<Rightarrow> json" where
  "status_json Pending = JStr (js ''pending'')"
| "status_json InProgress = JStr (js ''in_progress'')"
| "status_json Completed = JStr (js ''completed'')"
| "status_json Abandoned = JStr (js ''abandoned'')"

definition item_json :: "TodoItem \<Rightarrow> json" where
  "item_json t = JObj [(js ''content'', JStr (content t)), (js ''status'', status_json (status t))]"

definition phase_json :: "TodoPhase \<Rightarrow> json" where
  "phase_json p = JObj [(js ''name'', JStr (phase_name p)), (js ''tasks'', JArr (map item_json (tasks p)))]"

definition state_entry :: "TodoPhase list \<Rightarrow> branch_entry" where
  "state_entry ps = CustomEntry TODO_STATE_ENTRY_TYPE
     (JObj [(js ''schema'', JStr (js ''v2'')), (js ''phases'', JArr (map phase_json ps))])"

section \<open>Facts on references\<close>

text \<open>The shape of a list of phases: what no status change touches.\<close>

definition outline :: "TodoPhase list \<Rightarrow> (jstr \<times> jstr list) list" where
  "outline ps = map (\<lambda>p. (phase_name p, map content (tasks p))) ps"

definition all_tasks :: "TodoPhase list \<Rightarrow> TodoItem list" where
  "all_tasks ps = concat (map tasks ps)"

lemma set_task_refs [simp]:
  "(i, j) \<in> set (task_refs ps) \<longleftrightarrow> i < length ps \<and> j < length (tasks (ps ! i))"
  by (auto simp: task_refs_def image_iff)

lemma distinct_pairs:
  "distinct xs \<Longrightarrow> (\<And>i. distinct (f i)) \<Longrightarrow> distinct (concat (map (\<lambda>i. map (Pair i) (f i)) xs))"
  by (induction xs) (auto simp: distinct_map inj_on_def)

lemma distinct_task_refs: "distinct (task_refs ps)"
  unfolding task_refs_def by (rule distinct_pairs) auto

declare task_at.simps [simp del] set_status.simps [simp del]

lemma map_task_at: "map (task_at ps) (task_refs ps) = all_tasks ps"
proof -
  have "map (\<lambda>j. task_at ps (i, j)) [0..<length (tasks (ps ! i))] = tasks (ps ! i)" for i
    by (simp add: task_at.simps map_nth)
  then have "map (task_at ps) (task_refs ps) = concat (map (\<lambda>i. tasks (ps ! i)) [0..<length ps])"
    by (simp add: task_refs_def map_concat comp_def)
  also have "map (\<lambda>i. tasks (ps ! i)) [0..<length ps] = map tasks ps"
    by (rule nth_equalityI) auto
  finally show ?thesis by (simp add: all_tasks_def)
qed

lemma task_refs_eq_Nil: "task_refs ps = [] \<longleftrightarrow> all_tasks ps = []"
  by (metis map_task_at map_is_Nil_conv)

lemma length_set_status [simp]: "length (set_status st r ps) = length ps"
  by (cases r) (simp add: set_status.simps)

lemma outline_set_status:
  "r \<in> set (task_refs ps) \<Longrightarrow> outline (set_status st r ps) = outline ps"
  by (cases r) (auto simp: outline_def set_status.simps nth_list_update intro!: nth_equalityI)

lemma task_refs_outline: "outline ps = outline qs \<Longrightarrow> task_refs ps = task_refs qs"
proof -
  assume eq: "outline ps = outline qs"
  have len: "length ps = length qs" using arg_cong [OF eq, of length] by (simp add: outline_def)
  have sizes: "map (\<lambda>p. length (tasks p)) xs = map (\<lambda>x. length (snd x)) (outline xs)" for xs
    by (simp add: outline_def comp_def)
  have "length (tasks (ps ! i)) = length (tasks (qs ! i))" if "i < length ps" for i
    using arg_cong [of _ _ "\<lambda>l. l ! i", OF sizes [of ps]] arg_cong [of _ _ "\<lambda>l. l ! i", OF sizes [of qs]]
      eq that len by simp
  then show ?thesis
    unfolding task_refs_def using len by (intro arg_cong [of _ _ concat] map_cong) auto
qed

lemma task_at_set_status:
  "r \<in> set (task_refs ps) \<Longrightarrow>
   task_at (set_status st r ps) q =
     (if q = r then (task_at ps r)\<lparr>status := st\<rparr> else task_at ps q)"
  by (cases r; cases q) (auto simp: nth_list_update set_status.simps task_at.simps)

lemma set_statuses_facts:
  assumes "set rs \<subseteq> set (task_refs ps)"
  shows "outline (set_statuses st rs ps) = outline ps \<and>
         (\<forall>q. task_at (set_statuses st rs ps) q =
            (if q \<in> set rs then (task_at ps q)\<lparr>status := st\<rparr> else task_at ps q))"
  using assms
proof (induction rs arbitrary: ps)
  case Nil
  then show ?case by (simp add: set_statuses_def)
next
  case (Cons r rs)
  have out: "outline (set_status st r ps) = outline ps"
    using Cons.prems by (simp add: outline_set_status)
  then have "set rs \<subseteq> set (task_refs (set_status st r ps))"
    using Cons.prems task_refs_outline [OF out] by simp
  from Cons.IH [OF this] out Cons.prems show ?case
    by (auto simp: set_statuses_def task_at_set_status)
qed

lemmas outline_set_statuses = set_statuses_facts [THEN conjunct1]
  and task_at_set_statuses = set_statuses_facts [THEN conjunct2, rule_format]

section \<open>The in-progress task\<close>

definition in_progress :: "TodoPhase list \<Rightarrow> task_ref list" where
  "in_progress ps = filter (\<lambda>r. status (task_at ps r) = InProgress) (task_refs ps)"

definition is_open :: "TodoItem \<Rightarrow> bool" where
  "is_open t \<longleftrightarrow> status t = Pending \<or> status t = InProgress"

lemma find_Some_filter: "find P xs = Some x \<Longrightarrow> x \<in> set xs \<and> P x"
  by (auto simp: find_Some_iff)

lemma normalize_cases:
  obtains (none) "in_progress ps = []" "\<forall>r\<in>set (task_refs ps). status (task_at ps r) \<noteq> Pending"
      "normalizeInProgressTask ps = ps"
  | (promote) r where "in_progress ps = []" "r \<in> set (task_refs ps)" "status (task_at ps r) = Pending"
      "normalizeInProgressTask ps = set_status InProgress r ps"
  | (keep) r rs where "in_progress ps = r # rs"
      "normalizeInProgressTask ps = set_statuses Pending rs ps"
proof (cases "in_progress ps")
  case (Cons r rs)
  then have "task_refs ps \<noteq> []" by (auto simp: in_progress_def)
  then have "normalizeInProgressTask ps = set_statuses Pending rs ps"
    using Cons by (simp add: normalizeInProgressTask_def Let_def in_progress_def set_statuses_def)
  then show thesis using keep Cons by blast
next
  case Nil
  show thesis
  proof (cases "find (\<lambda>r. status (task_at ps r) = Pending) (task_refs ps)")
    case None
    then have "normalizeInProgressTask ps = ps"
      using Nil by (simp add: normalizeInProgressTask_def Let_def in_progress_def)
    with None show thesis using Nil by (intro none) (auto simp: find_None_iff)
  next
    case (Some r)
    then have "task_refs ps \<noteq> []" by auto
    then have "normalizeInProgressTask ps = set_status InProgress r ps"
      using Nil Some by (simp add: normalizeInProgressTask_def Let_def in_progress_def)
    then show thesis using Nil find_Some_filter [OF Some] by (intro promote) auto
  qed
qed

lemma outline_normalize [simp]: "outline (normalizeInProgressTask ps) = outline ps"
proof (cases ps rule: normalize_cases)
  case (keep r rs)
  then have "set rs \<subseteq> set (task_refs ps)"
    by (metis in_progress_def filter_is_subset set_subset_Cons subset_trans)
  then show ?thesis using keep by (simp add: outline_set_statuses)
qed (simp_all add: outline_set_status)

lemma in_progress_update:
  assumes "outline qs = outline ps"
    and "\<And>q. q \<in> set (task_refs ps) \<Longrightarrow> status (task_at qs q) = InProgress \<longleftrightarrow> q = r"
    and "r \<in> set (task_refs ps)"
  shows "in_progress qs = [r]"
proof -
  have "in_progress qs = filter (\<lambda>q. q = r) (task_refs ps)"
    using assms(2) unfolding in_progress_def task_refs_outline [OF assms(1)]
    by (intro filter_cong) auto
  moreover have "filter (\<lambda>q. q = r) xs = [r]" if "distinct xs" "r \<in> set xs" for xs
    using that by (induction xs) (auto simp: filter_empty_conv)
  ultimately show ?thesis using distinct_task_refs assms(3) by simp
qed

text \<open>After normalisation exactly one task is in progress when some task is open: the one that
  already was, or the first pending one; and closed tasks are as they were.\<close>

lemma normalize_keeps:
  assumes "in_progress ps = r # rs"
  shows "in_progress (normalizeInProgressTask ps) = [r]"
proof (cases ps rule: normalize_cases)
  case (keep r' rs')
  have d: "distinct (r # rs)"
    by (metis assms in_progress_def distinct_filter distinct_task_refs)
  have eq: "rs' = rs" using keep(1) assms by simp
  have refs: "set (r # rs) = {q \<in> set (task_refs ps). status (task_at ps q) = InProgress}"
    using assms by (metis in_progress_def set_filter)
  then have sub: "set rs \<subseteq> set (task_refs ps)" "r \<in> set (task_refs ps)" by auto
  show ?thesis
    unfolding keep(2) eq
  proof (rule in_progress_update [OF outline_set_statuses [OF sub(1)] _ sub(2)])
    fix q
    assume "q \<in> set (task_refs ps)"
    with d refs show "status (task_at (set_statuses Pending rs ps) q) = InProgress \<longleftrightarrow> q = r"
      by (auto simp: task_at_set_statuses [OF sub(1)])
  qed
qed (use assms in auto)

lemma normalize_closed:
  assumes "\<not> is_open (task_at ps q)"
  shows "task_at (normalizeInProgressTask ps) q = task_at ps q"
proof (cases ps rule: normalize_cases)
  case (keep r rs)
  then have "set (r # rs) = {q \<in> set (task_refs ps). status (task_at ps q) = InProgress}"
    by (metis in_progress_def set_filter)
  then have "set rs \<subseteq> set (task_refs ps)" "q \<notin> set rs" using assms by (auto simp: is_open_def)
  then show ?thesis using keep by (simp add: task_at_set_statuses)
qed (use assms in \<open>auto simp: task_at_set_status is_open_def\<close>)

lemma in_progress_none: "in_progress ps = [] \<longleftrightarrow> (\<forall>q\<in>set (task_refs ps). status (task_at ps q) \<noteq> InProgress)"
  by (auto simp: in_progress_def filter_empty_conv)

lemma normalize_in_progress:
  "length (in_progress (normalizeInProgressTask ps)) = (if \<exists>t\<in>set (all_tasks ps). is_open t then 1 else 0)"
proof (cases ps rule: normalize_cases)
  case none
  then show ?thesis
    by (auto simp: in_progress_none map_task_at [symmetric] is_open_def)
next
  case (promote r)
  have "in_progress (set_status InProgress r ps) = [r]"
    using promote in_progress_none [of ps]
    by (intro in_progress_update) (auto simp: outline_set_status task_at_set_status)
  moreover have "task_at ps r \<in> set (all_tasks ps)"
    using promote(2) by (simp add: map_task_at [symmetric])
  ultimately show ?thesis using promote by (auto simp: is_open_def)
next
  case (keep r rs)
  then have "r \<in> {q \<in> set (task_refs ps). status (task_at ps q) = InProgress}"
    by (metis in_progress_def set_filter list.set_intros(1))
  then have "r \<in> set (task_refs ps)" "status (task_at ps r) = InProgress" by blast+
  then have "task_at ps r \<in> set (all_tasks ps)" "is_open (task_at ps r)"
    by (auto simp: map_task_at [symmetric] is_open_def)
  then show ?thesis using normalize_keeps [OF keep(1)] by auto
qed

end
