(* ===== verification/TodoOps.thy ===== *)
theory TodoOps
  imports TodoState JsText
begin

text \<open>
  The operations of the todo tool: text sanitising (\<open>utils/ansi.ts\<close>, \<open>todo-format.ts\<close>), fuzzy
  matching (\<open>fuzzy-match.ts\<close>), resolution of tasks and phases (\<open>todo-resolution.ts\<close>) and the
  operations on the phases (\<open>todo-operations.ts\<close>). Messages pushed on \<open>errors\<close> and
  \<open>corrections\<close> are constructors that keep what the text is built from; the optional
  \<open>corrections\<close> array is \<open>None\<close> when the caller gives none. \<open>String.prototype.toLowerCase\<close> is
  the parameter \<open>lower\<close>. The Dice score is computed exactly, as a rational.
\<close>

section \<open>Sanitised text\<close>

definition one_of :: "string \<Rightarrow> nat \<Rightarrow> bool" where
  "one_of cs c \<longleftrightarrow> c \<in> set (js cs)"

definition ansi_st :: regex where
  "ansi_st = Alt (Lit [7]) (Alt (Lit [0x1B, 0x5C]) (Lit [0x9C]))"

definition ansi_osc :: regex where
  "ansi_osc = Seq (Lit [0x1B, 0x5D]) (Seq (Lazy (Cls (\<lambda>c. True))) ansi_st)"

definition ansi_final :: "nat \<Rightarrow> bool" where
  "ansi_final c \<longleftrightarrow> is_digit c \<or> (65 \<le> c \<and> c \<le> 80) \<or> (82 \<le> c \<and> c \<le> 84) \<or>
     one_of ''Zcy=><~'' c \<or> (102 \<le> c \<and> c \<le> 110) \<or> (113 \<le> c \<and> c \<le> 117)"

definition ansi_csi :: regex where
  "ansi_csi =
     Seq (Cls (\<lambda>c. c = 0x1B \<or> c = 0x9B))
    (Seq (Star (Cls (one_of ''[]()#;?'')))
    (Seq (Opt (Seq (Seq (Cls is_digit) (Rep 3 (Cls is_digit)))
                   (Star (Seq (Cls (one_of '';:'')) (Rep 4 (Cls is_digit))))))
         (Cls ansi_final)))"

definition ansiRegex :: regex where
  "ansiRegex = Alt ansi_osc ansi_csi"

definition stripAnsi :: "jstr \<Rightarrow> jstr" where
  "stripAnsi v = (if 0x1B \<notin> set v \<and> 0x9B \<notin> set v then v else replace_all ansiRegex [] v)"

definition sanitizeTodoText :: "jstr \<Rightarrow> jstr" where
  "sanitizeTodoText text =
     trim (replace_all (Plus (Cls is_space)) [32]
       (replace_all (Cls (\<lambda>c. c \<le> 0x1F \<or> (0x7F \<le> c \<and> c \<le> 0x9F))) [32]
         (replace_all (Plus (Cls (\<lambda>c. c = CR \<or> c = LF))) [32] (stripAnsi text))))"

definition isTerminalTodoStatus :: "TodoStatus \<Rightarrow> bool" where
  "isTerminalTodoStatus st \<longleftrightarrow> st = Completed \<or> st = Abandoned"

definition isIncompleteTodo :: "TodoItem \<Rightarrow> bool" where
  "isIncompleteTodo t \<longleftrightarrow> \<not> isTerminalTodoStatus (status t)"

section \<open>Fuzzy matching\<close>

text \<open>A fuzzy match is an exact or a normalised one, or a suggestion.\<close>

record 'r fuzzy_resolution =
  fz_hit :: "'r option"
  fz_corrected :: bool
  fz_suggestion :: "jstr option"

definition normalized :: "(jstr \<Rightarrow> jstr) \<Rightarrow> jstr \<Rightarrow> jstr" where
  "normalized lower text = lower (sanitizeTodoText text)"

definition bigrams :: "jstr \<Rightarrow> jstr list" where
  "bigrams s = map (\<lambda>i. slice s i (i + 2)) [0..<length s - 1]"

fun count_pairs :: "jstr list \<Rightarrow> (jstr \<Rightarrow> nat) \<Rightarrow> (jstr \<Rightarrow> nat)" where
  "count_pairs [] m = m"
| "count_pairs (p # ps) m = count_pairs ps (m(p := m p + 1))"

fun count_overlap :: "jstr list \<Rightarrow> (jstr \<Rightarrow> nat) \<Rightarrow> nat \<Rightarrow> nat" where
  "count_overlap [] m overlap = overlap"
| "count_overlap (p # ps) m overlap =
     (if m p > 0 then count_overlap ps (m(p := m p - 1)) (overlap + 1)
      else count_overlap ps m overlap)"

definition diceCoefficient :: "jstr \<Rightarrow> jstr \<Rightarrow> rat" where
  "diceCoefficient left right =
     (if left = right then 1
      else if length left < 2 \<or> length right < 2 then 0
      else (let overlap = count_overlap (bigrams right) (count_pairs (bigrams left) (\<lambda>_. 0)) 0
            in of_nat (2 * overlap) / of_nat (length left + length right - 2)))"

fun suggestion_loop ::
  "(jstr \<Rightarrow> jstr) \<Rightarrow> jstr \<Rightarrow> jstr list \<Rightarrow> rat \<Rightarrow> jstr option \<Rightarrow> jstr option" where
  "suggestion_loop lower q [] bestScore suggestion = suggestion"
| "suggestion_loop lower q (c # cs) bestScore suggestion =
     (let n = normalized lower c
      in if n = [] then suggestion_loop lower q cs bestScore suggestion
         else let score = (if has_substring n q \<or> has_substring q n then 1 else diceCoefficient n q)
              in if score \<ge> 1 / 2 \<and> score > bestScore
                 then suggestion_loop lower q cs score (Some c)
                 else suggestion_loop lower q cs bestScore suggestion)"

definition suggestionFor :: "(jstr \<Rightarrow> jstr) \<Rightarrow> jstr list \<Rightarrow> jstr \<Rightarrow> jstr option" where
  "suggestionFor lower candidates query =
     (if normalized lower query = [] then None
      else suggestion_loop lower (normalized lower query) candidates 0 None)"

text \<open>\<open>suggestion ? ... : ...\<close>: an empty suggestion counts as none.\<close>

definition fuzzy_resolve :: "(jstr \<Rightarrow> jstr) \<Rightarrow> 'r list \<Rightarrow> ('r \<Rightarrow> jstr) \<Rightarrow> jstr \<Rightarrow> 'r fuzzy_resolution" where
  "fuzzy_resolve lower candidates text_of query =
     (case filter (\<lambda>r. text_of r = query) candidates of
        [r] \<Rightarrow> \<lparr>fz_hit = Some r, fz_corrected = False, fz_suggestion = None\<rparr>
      | _ \<Rightarrow>
         (case filter (\<lambda>r. normalized lower (text_of r) = normalized lower query) candidates of
            [r] \<Rightarrow> \<lparr>fz_hit = Some r, fz_corrected = True, fz_suggestion = None\<rparr>
          | _ \<Rightarrow>
              (let suggestion = suggestionFor lower (map text_of candidates) query
               in \<lparr>fz_hit = None, fz_corrected = False,
                   fz_suggestion = (if suggestion = Some [] then None else suggestion)\<rparr>)))"

definition fuzzyResolveTask ::
  "(jstr \<Rightarrow> jstr) \<Rightarrow> TodoPhase list \<Rightarrow> jstr \<Rightarrow> task_ref fuzzy_resolution" where
  "fuzzyResolveTask lower ps query =
     fuzzy_resolve lower (task_refs ps) (\<lambda>r. content (task_at ps r)) query"

definition fuzzyResolvePhase ::
  "(jstr \<Rightarrow> jstr) \<Rightarrow> TodoPhase list \<Rightarrow> jstr \<Rightarrow> nat fuzzy_resolution" where
  "fuzzyResolvePhase lower ps n =
     fuzzy_resolve lower [0..<length ps] (\<lambda>i. phase_name (ps ! i)) n"

section \<open>Notes: errors and corrections\<close>

datatype todo_error =
    MissingTaskContent
  | TaskReferencedById jstr
  | TaskNotFound jstr bool "jstr option"     \<comment> \<open>the empty-list hint, the suggestion\<close>
  | TaskAmbiguous jstr "jstr list"
  | MissingPhaseName
  | PhaseNotFound jstr "jstr option"
  | PhaseAmbiguous jstr
  | MissingInitList
  | PhaseWithoutTasks jstr
  | MissingAppendItems
  | TaskAlreadyExists jstr

text \<open>The last five are those of \<open>normalize.ts\<close>, which starts the array the operations add to.\<close>

datatype Alias = AliasInit | AliasAppend

datatype correction =
    MatchedTask jstr jstr
  | MatchedPhase jstr jstr
  | MergedPhase jstr
  | KeptFirst jstr
  | AppendedTo jstr
  | BothBlank
  | AliasAsItems Alias bool                  \<comment> \<open>was the operation inferred from it?\<close>
  | InferredFromList
  | InferredAppend
  | InferredInit

record todo_notes =
  errors :: "todo_error list"
  corrections :: "(correction list) option"

definition push_error :: "todo_error \<Rightarrow> todo_notes \<Rightarrow> todo_notes" where
  "push_error e n = n\<lparr>errors := errors n @ [e]\<rparr>"

text \<open>\<open>corrections?.push(...)\<close>\<close>

definition push_correction :: "correction \<Rightarrow> todo_notes \<Rightarrow> todo_notes" where
  "push_correction c n = n\<lparr>corrections := map_option (\<lambda>cs. cs @ [c]) (corrections n)\<rparr>"

section \<open>Resolution\<close>

text \<open>\<open>/^task-\d+$/\<close>\<close>

definition looks_like_id :: "jstr \<Rightarrow> bool" where
  "looks_like_id c \<longleftrightarrow> re_match (Seq (Lit (js ''task-'')) (Seq (Plus (Cls is_digit)) AtEnd)) c \<noteq> None"

definition total_tasks :: "TodoPhase list \<Rightarrow> nat" where
  "total_tasks ps = sum_list (map (\<lambda>p. length (tasks p)) ps)"

text \<open>The names of \<open>new Set(...)\<close>, in insertion order.\<close>

fun unique :: "'a list \<Rightarrow> 'a list \<Rightarrow> 'a list" where
  "unique seen [] = []"
| "unique seen (x # xs) = (if x \<in> set seen then unique seen xs else x # unique (x # seen) xs)"

definition exact_task_refs :: "TodoPhase list \<Rightarrow> jstr \<Rightarrow> task_ref list" where
  "exact_task_refs ps c = filter (\<lambda>r. content (task_at ps r) = c) (task_refs ps)"

definition resolveTaskOrError ::
  "(jstr \<Rightarrow> jstr) \<Rightarrow> TodoPhase list \<Rightarrow> jstr option \<Rightarrow> todo_notes \<Rightarrow> task_ref option \<times> todo_notes" where
  "resolveTaskOrError lower ps content_opt n =
     (case content_opt of None \<Rightarrow> (None, push_error MissingTaskContent n)
      | Some c \<Rightarrow>
        if c = [] then (None, push_error MissingTaskContent n)
        else if corrections n = None then
          (case findTaskByContent ps c of
             Some r \<Rightarrow> (Some r, n)
           | None \<Rightarrow> (None, push_error
                 (if looks_like_id c then TaskReferencedById c
                  else TaskNotFound c (total_tasks ps = 0) None) n))
        else
          let resolution = fuzzyResolveTask lower ps c
          in case fz_hit resolution of
               Some r \<Rightarrow>
                 (Some r, if fz_corrected resolution
                          then push_correction (MatchedTask c (content (task_at ps r))) n else n)
             | None \<Rightarrow>
                 let exactMatches = exact_task_refs ps c
                 in (None, push_error
                      (if length exactMatches > 1
                       then TaskAmbiguous c (unique [] (map (\<lambda>(i, j). phase_name (ps ! i)) exactMatches))
                       else if looks_like_id c then TaskReferencedById c
                       else TaskNotFound c (total_tasks ps = 0) (fz_suggestion resolution)) n))"

definition resolvePhaseOrError ::
  "(jstr \<Rightarrow> jstr) \<Rightarrow> TodoPhase list \<Rightarrow> jstr option \<Rightarrow> todo_notes \<Rightarrow> nat option \<times> todo_notes" where
  "resolvePhaseOrError lower ps name_opt n =
     (case name_opt of None \<Rightarrow> (None, push_error MissingPhaseName n)
      | Some m \<Rightarrow>
        if m = [] then (None, push_error MissingPhaseName n)
        else if corrections n = None then
          (case findPhaseByName ps m of
             Some i \<Rightarrow> (Some i, n)
           | None \<Rightarrow> (None, push_error (PhaseNotFound m None) n))
        else
          let resolution = fuzzyResolvePhase lower ps m
          in case fz_hit resolution of
               Some i \<Rightarrow>
                 (Some i, if fz_corrected resolution
                          then push_correction (MatchedPhase m (phase_name (ps ! i))) n else n)
             | None \<Rightarrow>
                 (None, push_error
                    (if length (filter (\<lambda>p. phase_name p = m) ps) > 1 then PhaseAmbiguous m
                     else PhaseNotFound m (fz_suggestion resolution)) n))"

section \<open>Operations\<close>

datatype TodoOperation = OpInit | OpStart | OpDone | OpRm | OpDrop | OpAppend | OpView

record TodoOpEntry =
  op :: TodoOperation
  op_list :: "((jstr \<times> jstr list) list) option"
  op_task :: "jstr option"
  op_phase :: "jstr option"
  op_items :: "(jstr list) option"

text \<open>\<open>if (entry.task)\<close>: present and not empty.\<close>

definition truthy :: "'a list option \<Rightarrow> bool" where
  "truthy s \<longleftrightarrow> s \<noteq> None \<and> s \<noteq> Some []"

definition phase_refs :: "TodoPhase list \<Rightarrow> nat \<Rightarrow> task_ref list" where
  "phase_refs ps i = map (\<lambda>j. (i, j)) [0..<length (tasks (ps ! i))]"

definition getTaskTargets ::
  "(jstr \<Rightarrow> jstr) \<Rightarrow> TodoPhase list \<Rightarrow> TodoOpEntry \<Rightarrow> todo_notes \<Rightarrow> task_ref list \<times> todo_notes" where
  "getTaskTargets lower ps entry n =
     (if truthy (op_task entry) then
        (case resolveTaskOrError lower ps (op_task entry) n of
           (Some r, n) \<Rightarrow> ([r], n) | (None, n) \<Rightarrow> ([], n))
      else if truthy (op_phase entry) then
        (case resolvePhaseOrError lower ps (op_phase entry) n of
           (Some i, n) \<Rightarrow> (phase_refs ps i, n) | (None, n) \<Rightarrow> ([], n))
      else (task_refs ps, n))"

definition add_tasks :: "nat \<Rightarrow> TodoItem list \<Rightarrow> TodoPhase list \<Rightarrow> TodoPhase list" where
  "add_tasks i ts ps = ps[i := (ps ! i)\<lparr>tasks := tasks (ps ! i) @ ts\<rparr>]"

definition pending_item :: "jstr \<Rightarrow> TodoItem" where
  "pending_item c = \<lparr>content = c, status = Pending\<rparr>"

fun init_items ::
  "nat \<Rightarrow> jstr list \<Rightarrow> jstr set \<Rightarrow> TodoPhase list \<Rightarrow> todo_notes \<Rightarrow> jstr set \<times> TodoPhase list \<times> todo_notes" where
  "init_items i [] seen ps n = (seen, ps, n)"
| "init_items i (c # cs) seen ps n =
     (if c \<in> seen then init_items i cs seen ps (push_correction (KeptFirst c) n)
      else init_items i cs (insert c seen) (add_tasks i [pending_item c] ps) n)"

text \<open>\<open>phasesByName\<close> maps a name to the phase pushed under it, so it is the position of the phase of
  that name.\<close>

fun init_list ::
  "(jstr \<times> jstr list) list \<Rightarrow> jstr set \<Rightarrow> TodoPhase list \<Rightarrow> todo_notes \<Rightarrow> TodoPhase list \<times> todo_notes" where
  "init_list [] seen ps n = (ps, n)"
| "init_list ((name, items) # ls) seen ps n =
     (let n = (if items = [] then push_error (PhaseWithoutTasks name) n else n);
          known = find_pos (\<lambda>p. phase_name p = name) ps;
          n = (if known \<noteq> None then push_correction (MergedPhase name) n else n);
          ps = (if known = None then ps @ [\<lparr>phase_name = name, tasks = []\<rparr>] else ps);
          i = (case known of Some i \<Rightarrow> i | None \<Rightarrow> length ps - 1)
      in case init_items i items seen ps n of
           (seen, ps, n) \<Rightarrow> init_list ls seen ps n)"

definition initPhases :: "TodoOpEntry \<Rightarrow> todo_notes \<Rightarrow> TodoPhase list \<times> todo_notes" where
  "initPhases entry n =
     (case (case op_list entry of Some l \<Rightarrow> Some l
            | None \<Rightarrow> if truthy (op_items entry)
                      then Some [(case op_phase entry of Some p \<Rightarrow> p | None \<Rightarrow> DEFAULT_INIT_PHASE,
                                  the (op_items entry))]
                      else None) of
        None \<Rightarrow> ([], push_error MissingInitList n)
      | Some l \<Rightarrow> init_list l {} [] n)"

fun append_check :: "TodoPhase list \<Rightarrow> jstr list \<Rightarrow> jstr set \<Rightarrow> bool \<Rightarrow> todo_notes \<Rightarrow> bool \<times> todo_notes" where
  "append_check ps [] seen dup n = (dup, n)"
| "append_check ps (c # cs) seen dup n =
     (if c \<in> seen \<or> findTaskByContent ps c \<noteq> None
      then append_check ps cs (insert c seen) True (push_error (TaskAlreadyExists c) n)
      else append_check ps cs (insert c seen) dup n)"

definition append_phase_name :: "TodoPhase list \<Rightarrow> jstr" where
  "append_phase_name ps =
     (case nextActionableTask ps of
        Some (i, j) \<Rightarrow> phase_name (ps ! i)
      | None \<Rightarrow> if ps = [] then DEFAULT_INIT_PHASE else phase_name (last ps))"

definition appendItems :: "TodoPhase list \<Rightarrow> TodoOpEntry \<Rightarrow> todo_notes \<Rightarrow> TodoPhase list \<times> todo_notes" where
  "appendItems ps entry n =
     (if \<not> truthy (op_items entry) then (ps, push_error MissingAppendItems n)
      else let items = the (op_items entry)
        in case append_check ps items {} False n of
          (True, n) \<Rightarrow> (ps, n)
        | (False, n) \<Rightarrow>
            let name = (if truthy (op_phase entry) then the (op_phase entry) else append_phase_name ps);
                n = (if truthy (op_phase entry) then n else push_correction (AppendedTo name) n);
                known = findPhaseByName ps name;
                ps = (if known = None then ps @ [\<lparr>phase_name = name, tasks = []\<rparr>] else ps);
                i = (case known of Some i \<Rightarrow> i | None \<Rightarrow> length ps - 1)
            in (add_tasks i (map pending_item items) ps, n))"

definition remove_at :: "nat \<Rightarrow> 'a list \<Rightarrow> 'a list" where
  "remove_at j xs = take j xs @ drop (Suc j) xs"

definition removeTasks ::
  "(jstr \<Rightarrow> jstr) \<Rightarrow> TodoPhase list \<Rightarrow> TodoOpEntry \<Rightarrow> todo_notes \<Rightarrow> TodoPhase list \<times> todo_notes" where
  "removeTasks lower ps entry n =
     (if truthy (op_task entry) then
        (case resolveTaskOrError lower ps (op_task entry) n of
           (Some (i, j), n) \<Rightarrow> (ps[i := (ps ! i)\<lparr>tasks := remove_at j (tasks (ps ! i))\<rparr>], n)
         | (None, n) \<Rightarrow> (ps, n))
      else if truthy (op_phase entry) then
        (case resolvePhaseOrError lower ps (op_phase entry) n of
           (Some i, n) \<Rightarrow> (ps[i := (ps ! i)\<lparr>tasks := []\<rparr>], n)
         | (None, n) \<Rightarrow> (ps, n))
      else (map (\<lambda>p. p\<lparr>tasks := []\<rparr>) ps, n))"

definition start_task :: "task_ref \<Rightarrow> TodoPhase list \<Rightarrow> TodoPhase list" where
  "start_task hit ps =
     set_status InProgress hit
       (set_statuses Pending
          (filter (\<lambda>r. status (task_at ps r) = InProgress \<and> r \<noteq> hit) (task_refs ps)) ps)"

definition applyEntry ::
  "(jstr \<Rightarrow> jstr) \<Rightarrow> TodoPhase list \<Rightarrow> TodoOpEntry \<Rightarrow> todo_notes \<Rightarrow> TodoPhase list \<times> todo_notes" where
  "applyEntry lower ps entry n =
     (case op entry of
        OpInit \<Rightarrow> initPhases entry n
      | OpStart \<Rightarrow>
          (case resolveTaskOrError lower ps (op_task entry) n of
             (None, n) \<Rightarrow> (ps, n) | (Some hit, n) \<Rightarrow> (start_task hit ps, n))
      | OpDone \<Rightarrow>
          (case getTaskTargets lower ps entry n of (rs, n) \<Rightarrow> (set_statuses Completed rs ps, n))
      | OpDrop \<Rightarrow>
          (case getTaskTargets lower ps entry n of (rs, n) \<Rightarrow> (set_statuses Abandoned rs ps, n))
      | OpRm \<Rightarrow> removeTasks lower ps entry n
      | OpAppend \<Rightarrow> appendItems ps entry n
      | OpView \<Rightarrow> (ps, n))"

definition applyParams ::
  "(jstr \<Rightarrow> jstr) \<Rightarrow> TodoPhase list \<Rightarrow> TodoOpEntry \<Rightarrow> (correction list) option
     \<Rightarrow> TodoPhase list \<times> todo_error list \<times> (correction list) option" where
  "applyParams lower ps params corr =
     (if op params = OpView then (ps, [], corr)
      else let original = clonePhases ps;
               (next, n) = applyEntry lower ps params \<lparr>errors = [], corrections = corr\<rparr>
           in if length (errors n) > 0 then (original, errors n, corrections n)
              else (normalizeInProgressTask next, errors n, corrections n))"

fun apply_ops ::
  "(jstr \<Rightarrow> jstr) \<Rightarrow> TodoPhase list \<Rightarrow> TodoOpEntry list \<Rightarrow> todo_notes \<Rightarrow> TodoPhase list \<times> todo_notes" where
  "apply_ops lower ps [] n = (ps, n)"
| "apply_ops lower ps (e # es) n =
     (case applyEntry lower ps e n of (ps, n) \<Rightarrow> apply_ops lower ps es n)"

definition applyOpsToPhases ::
  "(jstr \<Rightarrow> jstr) \<Rightarrow> TodoPhase list \<Rightarrow> TodoOpEntry list \<Rightarrow> TodoPhase list \<times> todo_error list" where
  "applyOpsToPhases lower currentPhases ops =
     (case apply_ops lower (clonePhases currentPhases) ops \<lparr>errors = [], corrections = None\<rparr> of
        (next, n) \<Rightarrow>
          if length (errors n) > 0 then (clonePhases currentPhases, errors n)
          else (normalizeInProgressTask next, errors n))"

end
