(* ===== verification/TodoProps.thy ===== *)
theory TodoProps
  imports TodoOps "HOL-Library.Multiset"
begin

text \<open>
  Correctness of the todo operations: references handed out by the resolvers are valid, every
  operation keeps task texts and phase names unique, an operation that reports an error changes
  nothing, and after a successful one exactly one open task is in progress.
\<close>

section \<open>Unique task texts and phase names\<close>

definition contents :: "TodoPhase list \<Rightarrow> jstr list" where
  "contents ps = map content (all_tasks ps)"

definition todo_wf :: "TodoPhase list \<Rightarrow> bool" where
  "todo_wf ps \<longleftrightarrow> distinct (contents ps) \<and> distinct (map phase_name ps)"

lemma contents_outline: "contents ps = concat (map snd (outline ps))"
  by (simp add: contents_def all_tasks_def outline_def map_concat comp_def)

lemma names_outline: "map phase_name ps = map fst (outline ps)"
  by (simp add: outline_def comp_def)

lemma todo_wf_outline: "outline ps = outline qs \<Longrightarrow> todo_wf ps = todo_wf qs"
  by (simp add: todo_wf_def contents_outline names_outline)

lemma mset_contents_update:
  assumes "i < length ps"
  shows "mset (contents (ps[i := p])) + mset (map content (tasks (ps ! i)))
           = mset (contents ps) + mset (map content (tasks p))"
proof -
  have "contents ps = contents (take i ps) @ map content (tasks (ps ! i)) @ contents (drop (Suc i) ps)"
    using arg_cong [OF id_take_nth_drop [OF assms], of contents]
    by (simp add: contents_def all_tasks_def)
  moreover have "contents (ps[i := p]) = contents (take i ps) @ map content (tasks p) @ contents (drop (Suc i) ps)"
    using assms by (simp add: contents_def all_tasks_def upd_conv_take_nth_drop)
  ultimately show ?thesis by simp
qed

lemma distinct_sub:
  assumes "mset xs \<subseteq># mset ys" and "distinct ys"
  shows "distinct xs"
proof -
  obtain zs where "mset ys = mset (xs @ zs)"
    using assms(1) by (metis mset_append subset_mset.le_iff_add ex_mset)
  then show ?thesis using assms(2) mset_eq_imp_distinct_iff by (metis distinct_append)
qed

lemma names_update: "phase_name p = phase_name (ps ! i) \<Longrightarrow> i < length ps \<Longrightarrow>
    map phase_name (ps[i := p]) = map phase_name ps"
  by (simp add: map_update) (metis list_update_id nth_map)

lemma mset_add_tasks:
  "i < length ps \<Longrightarrow> mset (contents (add_tasks i ts ps)) = mset (contents ps) + mset (map content ts)"
  using mset_contents_update [of i ps "(ps ! i)\<lparr>tasks := tasks (ps ! i) @ ts\<rparr>"]
  by (simp add: add_tasks_def)

lemma names_add_tasks [simp]:
  "i < length ps \<Longrightarrow> map phase_name (add_tasks i ts ps) = map phase_name ps"
  by (simp add: add_tasks_def names_update)

lemma length_add_tasks [simp]: "length (add_tasks i ts ps) = length ps"
  by (simp add: add_tasks_def)

lemma wf_shrink:
  assumes "todo_wf ps" and "i < length ps"
    and "mset (map content (tasks p)) \<subseteq># mset (map content (tasks (ps ! i)))"
    and "phase_name p = phase_name (ps ! i)"
  shows "todo_wf (ps[i := p])"
proof -
  have "mset (contents (ps[i := p])) \<subseteq># mset (contents ps)"
    using mset_contents_update [OF assms(2), of p] assms(3)
    by (metis mset_subset_eq_mono_add_right_cancel mset_subset_eq_add_right subset_mset.add_left_mono
        add.commute)
  then show ?thesis
    using assms by (auto simp: todo_wf_def names_update intro: distinct_sub)
qed

section \<open>Resolved references are valid\<close>

lemma find_pos_Some: "find_pos P xs = Some i \<Longrightarrow> i < length xs \<and> P (xs ! i)"
  by (induction xs arbitrary: i) (auto split: if_splits)

lemma find_pos_None: "find_pos P xs = None \<longleftrightarrow> (\<forall>x\<in>set xs. \<not> P x)"
  by (induction xs) auto

lemma findTaskByContent_Some:
  "findTaskByContent ps c = Some r \<Longrightarrow> r \<in> set (task_refs ps) \<and> content (task_at ps r) = c"
proof (induction ps c arbitrary: r rule: findTaskByContent.induct)
  case (2 p ps c)
  then show ?case
    by (cases r) (fastforce simp: task_at.simps split: option.splits dest: find_pos_Some)
qed simp

lemma findTaskByContent_None: "findTaskByContent ps c = None \<longleftrightarrow> c \<notin> set (contents ps)"
proof (induction ps c rule: findTaskByContent.induct)
  case (2 p ps c)
  have split: "c \<in> set (contents (p # ps)) \<longleftrightarrow>
      \<not> (\<forall>t\<in>set (tasks p). content t \<noteq> c) \<or> c \<in> set (contents ps)"
    by (auto simp: contents_def all_tasks_def)
  show ?case
    by (cases "find_pos (\<lambda>t. content t = c) (tasks p)")
      (use 2 split find_pos_None [of "\<lambda>t. content t = c" "tasks p"] in auto)
qed (simp add: contents_def all_tasks_def)

lemma fuzzy_hit: "fz_hit (fuzzy_resolve lower cs f q) = Some r \<Longrightarrow> r \<in> set cs"
  by (auto simp: fuzzy_resolve_def Let_def filter_eq_Cons_iff split: list.splits)

lemma resolveTask_ref:
  "resolveTaskOrError lower ps c n = (Some r, n') \<Longrightarrow> r \<in> set (task_refs ps)"
  by (cases r) (auto simp: resolveTaskOrError_def Let_def fuzzyResolveTask_def
      dest!: findTaskByContent_Some fuzzy_hit split: option.splits if_splits)

lemma resolvePhase_ref:
  "resolvePhaseOrError lower ps c n = (Some i, n') \<Longrightarrow> i < length ps"
  by (auto simp: resolvePhaseOrError_def Let_def fuzzyResolvePhase_def findPhaseByName_def
      dest!: find_pos_Some fuzzy_hit split: option.splits if_splits)

lemma getTaskTargets_refs:
  "getTaskTargets lower ps entry n = (rs, n') \<Longrightarrow> set rs \<subseteq> set (task_refs ps)"
  by (auto simp: getTaskTargets_def phase_refs_def
      dest: resolveTask_ref resolvePhase_ref split: prod.splits option.splits if_splits)

section \<open>Operations keep the texts and names unique\<close>

lemma init_items_wf:
  assumes "init_items i items seen ps n = (seen', ps', n')"
    and "todo_wf ps" and "set (contents ps) = seen" and "i < length ps"
  shows "todo_wf ps' \<and> set (contents ps') = seen'"
  using assms
proof (induction i items seen ps n rule: init_items.induct)
  case (2 i c cs seen ps n)
  show ?case
  proof (cases "c \<in> seen")
    case True
    with 2 show ?thesis by simp
  next
    case False
    let ?ps = "add_tasks i [pending_item c] ps"
    have m: "mset (contents ?ps) = mset (c # contents ps)"
      using mset_add_tasks [OF "2.prems"(4), of "[pending_item c]"] by (simp add: pending_item_def)
    then have "set (contents ?ps) = insert c seen" "distinct (contents ?ps)"
      using "2.prems"(2,3) False mset_eq_setD [OF m] mset_eq_imp_distinct_iff [OF m]
      by (auto simp: todo_wf_def)
    then have "todo_wf ?ps" using "2.prems"(2,4) by (simp add: todo_wf_def)
    with 2 False \<open>set (contents ?ps) = insert c seen\<close> show ?thesis by simp
  qed
qed auto

lemma wf_new_phase:
  "todo_wf ps \<Longrightarrow> \<forall>p\<in>set ps. phase_name p \<noteq> m \<Longrightarrow>
   todo_wf (ps @ [\<lparr>phase_name = m, tasks = []\<rparr>]) \<and>
   contents (ps @ [\<lparr>phase_name = m, tasks = []\<rparr>]) = contents ps"
  by (auto simp: todo_wf_def contents_def all_tasks_def)

lemma init_list_wf:
  assumes "init_list l seen ps n = (ps', n')" and "todo_wf ps" and "set (contents ps) = seen"
  shows "todo_wf ps'"
  using assms
proof (induction l seen ps n rule: init_list.induct)
  case (2 name items ls seen ps n)
  show ?case
  proof (cases "find_pos (\<lambda>p. phase_name p = name) ps")
    case None
    let ?ps = "ps @ [\<lparr>phase_name = name, tasks = []\<rparr>]"
    have wf: "todo_wf ?ps \<and> contents ?ps = contents ps"
      using None "2.prems" by (intro wf_new_phase) (auto simp: find_pos_None)
    with 2 None show ?thesis
      by (auto simp: Let_def split: prod.splits dest: init_items_wf)
  next
    case (Some i)
    then have "i < length ps" by (simp add: find_pos_Some)
    with 2 Some show ?thesis
      by (auto simp: Let_def split: prod.splits dest: init_items_wf)
  qed
qed auto

lemma initPhases_wf: "initPhases entry n = (ps', n') \<Longrightarrow> todo_wf ps'"
  by (auto simp: initPhases_def todo_wf_def contents_def all_tasks_def split: option.splits if_splits
      dest!: init_list_wf)

lemma append_check_ok:
  "append_check ps items seen dup n = (False, n') \<Longrightarrow>
   \<not> dup \<and> distinct items \<and> set items \<inter> seen = {} \<and> set items \<inter> set (contents ps) = {}"
proof (induction ps items seen dup n rule: append_check.induct)
  case (2 ps c cs seen dup n)
  show ?case
  proof (cases "c \<in> seen \<or> findTaskByContent ps c \<noteq> None")
    case False
    then have "append_check ps cs (insert c seen) dup n = (False, n')" using "2.prems" by simp
    with "2.IH"(2) [OF False] False show ?thesis by (auto simp: findTaskByContent_None)
  qed (use 2 in auto)
qed simp

lemma wf_add_tasks:
  assumes "todo_wf ps" and "i < length ps" and "distinct items"
    and "set items \<inter> set (contents ps) = {}"
  shows "todo_wf (add_tasks i (map pending_item items) ps)"
proof -
  have "map content (map pending_item items) = items" by (simp add: pending_item_def comp_def)
  then have "mset (contents (add_tasks i (map pending_item items) ps)) = mset (contents ps @ items)"
    using mset_add_tasks [OF assms(2), of "map pending_item items"] by (simp only: mset_append)
  then have "distinct (contents (add_tasks i (map pending_item items) ps))"
    using assms mset_eq_imp_distinct_iff by (fastforce simp: todo_wf_def)
  then show ?thesis using assms by (simp add: todo_wf_def)
qed

lemma appendItems_wf:
  assumes "appendItems ps entry n = (ps', n')" and wf: "todo_wf ps"
  shows "todo_wf ps'"
proof (cases "truthy (op_items entry)")
  case False
  then show ?thesis using assms by (simp add: appendItems_def)
next
  case True
  let ?items = "the (op_items entry)"
  let ?name = "if truthy (op_phase entry) then the (op_phase entry) else append_phase_name ps"
  obtain dup n1 where chk: "append_check ps ?items {} False n = (dup, n1)" by fastforce
  show ?thesis
  proof (cases dup)
    case dup: True
    then show ?thesis using assms chk True by (simp add: appendItems_def)
  next
    case False
    with chk have fresh: "distinct ?items" "set ?items \<inter> set (contents ps) = {}"
      using append_check_ok [of ps ?items "{}" False n n1] by auto
    show ?thesis
    proof (cases "findPhaseByName ps ?name")
      case None
      then have "\<forall>p\<in>set ps. phase_name p \<noteq> ?name"
        unfolding findPhaseByName_def find_pos_None .
      note new = wf_new_phase [OF wf this]
      have "ps' = add_tasks (length ps) (map pending_item ?items) (ps @ [\<lparr>phase_name = ?name, tasks = []\<rparr>])"
        using assms(1) chk True False None by (simp add: appendItems_def Let_def)
      then show ?thesis using new fresh by (simp add: wf_add_tasks)
    next
      case (Some i)
      then have "i < length ps" by (simp add: findPhaseByName_def find_pos_Some)
      moreover have "ps' = add_tasks i (map pending_item ?items) ps"
        using assms(1) chk True False Some by (simp add: appendItems_def Let_def)
      ultimately show ?thesis using wf fresh by (simp add: wf_add_tasks)
    qed
  qed
qed

lemma remove_at_sub: "mset (map f (remove_at j xs)) \<subseteq># mset (map f xs)"
proof (cases "j < length xs")
  case True
  have "mset (map f xs) = mset (map f (take j xs @ xs ! j # drop (Suc j) xs))"
    using id_take_nth_drop [OF True] by simp
  then show ?thesis by (simp add: remove_at_def)
qed (simp add: remove_at_def)

lemma removeTasks_wf:
  assumes "removeTasks lower ps entry n = (ps', n')" and "todo_wf ps"
  shows "todo_wf ps'"
proof -
  have remove: "todo_wf (ps[i := (ps ! i)\<lparr>tasks := remove_at j (tasks (ps ! i))\<rparr>])" if "i < length ps" for i j
  proof (rule wf_shrink [OF assms(2) that])
    show "mset (map content (tasks ((ps ! i)\<lparr>tasks := remove_at j (tasks (ps ! i))\<rparr>)))
        \<subseteq># mset (map content (tasks (ps ! i)))" using remove_at_sub by simp
  qed simp
  have clear: "todo_wf (ps[i := (ps ! i)\<lparr>tasks := []\<rparr>])" if "i < length ps" for i
    by (rule wf_shrink [OF assms(2) that]) simp_all
  have "contents (map (\<lambda>p. p\<lparr>tasks := []\<rparr>) ps) = []"
    by (simp add: contents_def all_tasks_def)
  then have "todo_wf (map (\<lambda>p. p\<lparr>tasks := []\<rparr>) ps)"
    using assms(2) by (simp add: todo_wf_def comp_def)
  with assms remove clear show ?thesis
    by (auto simp: removeTasks_def dest!: resolveTask_ref resolvePhase_ref
        split: prod.splits option.splits if_splits)
qed

lemma start_facts:
  assumes "hit \<in> set (task_refs ps)"
  shows "outline (start_task hit ps) = outline ps \<and>
    task_at (start_task hit ps) q =
      (if q = hit then (task_at ps q)\<lparr>status := InProgress\<rparr>
       else if q \<in> set (task_refs ps) \<and> status (task_at ps q) = InProgress
            then (task_at ps q)\<lparr>status := Pending\<rparr> else task_at ps q)"
proof -
  let ?rs = "filter (\<lambda>r. status (task_at ps r) = InProgress \<and> r \<noteq> hit) (task_refs ps)"
  have rs: "set ?rs \<subseteq> set (task_refs ps)" by auto
  let ?qs = "set_statuses Pending ?rs ps"
  have out: "outline ?qs = outline ps" by (rule outline_set_statuses [OF rs])
  then have hit: "hit \<in> set (task_refs ?qs)" using assms task_refs_outline [OF out] by simp
  show ?thesis
    unfolding start_task_def outline_set_status [OF hit] out task_at_set_status [OF hit]
      task_at_set_statuses [OF rs] by auto
qed

lemma applyEntry_wf:
  assumes "applyEntry lower ps entry n = (ps', n')" and "todo_wf ps"
  shows "todo_wf ps'"
proof (cases "op entry")
  case OpStart
  with assms show ?thesis
    by (auto simp: applyEntry_def dest!: resolveTask_ref start_facts [THEN conjunct1] todo_wf_outline
        split: prod.splits option.splits)
next
  case OpDone
  with assms show ?thesis
    by (auto simp: applyEntry_def dest!: getTaskTargets_refs outline_set_statuses todo_wf_outline
        split: prod.splits)
next
  case OpDrop
  with assms show ?thesis
    by (auto simp: applyEntry_def dest!: getTaskTargets_refs outline_set_statuses todo_wf_outline
        split: prod.splits)
qed (use assms in \<open>auto simp: applyEntry_def intro: initPhases_wf removeTasks_wf appendItems_wf\<close>)

section \<open>Properties\<close>

lemma clonePhases_id [simp]: "clonePhases ps = ps"
  by (simp add: clonePhases_def cloneTask_def map_idI)

lemma in_progress_tasks:
  "length (in_progress ps) = length (filter (\<lambda>t. status t = InProgress) (all_tasks ps))"
  by (simp add: in_progress_def map_task_at [symmetric] filter_map comp_def)

lemma is_open_normalize: "is_open (task_at (normalizeInProgressTask ps) q) = is_open (task_at ps q)"
proof (cases ps rule: normalize_cases)
  case (keep r rs)
  then have "set (r # rs) = {q \<in> set (task_refs ps). status (task_at ps q) = InProgress}"
    by (metis in_progress_def set_filter)
  then have "set rs \<subseteq> set (task_refs ps)" "\<forall>q\<in>set rs. status (task_at ps q) = InProgress" by auto
  then show ?thesis using keep by (auto simp: task_at_set_statuses is_open_def)
qed (auto simp: task_at_set_status is_open_def)

lemma open_normalize:
  "(\<exists>t\<in>set (all_tasks (normalizeInProgressTask ps)). is_open t) = (\<exists>t\<in>set (all_tasks ps). is_open t)"
  by (simp add: map_task_at [symmetric] task_refs_outline [OF outline_normalize] is_open_normalize)

text \<open>A list and two calls on which the properties are instantiated.\<close>

definition sample_phases :: "TodoPhase list" where
  "sample_phases =
     [\<lparr>phase_name = js ''Plan'', tasks = [\<lparr>content = js ''read'', status = Completed\<rparr>,
                                      \<lparr>content = js ''write'', status = InProgress\<rparr>]\<rparr>,
      \<lparr>phase_name = js ''Ship'', tasks = [\<lparr>content = js ''test'', status = Pending\<rparr>]\<rparr>]"

definition sample_start :: TodoOpEntry where
  "sample_start = \<lparr>op = OpStart, op_list = None, op_task = Some (js ''test''), op_phase = None, op_items = None\<rparr>"

definition sample_done :: TodoOpEntry where
  "sample_done = \<lparr>op = OpDone, op_list = None, op_task = Some (js ''write''), op_phase = None, op_items = None\<rparr>"

lemma sample_done_result:
  "applyParams (\<lambda>s. s) sample_phases sample_done None =
     ([\<lparr>phase_name = js ''Plan'', tasks = [\<lparr>content = js ''read'', status = Completed\<rparr>,
                                      \<lparr>content = js ''write'', status = Completed\<rparr>]\<rparr>,
       \<lparr>phase_name = js ''Ship'', tasks = [\<lparr>content = js ''test'', status = InProgress\<rparr>]\<rparr>], [], None)"
  by code_simp

lemma sample_wf: "todo_wf sample_phases"
  by (simp add: todo_wf_def sample_phases_def contents_def all_tasks_def js_def)

text \<open>What a caller of \<open>applyParams\<close> sees, in one case distinction.\<close>

lemma applyParams_cases:
  assumes "applyParams lower ps params corr = (ps', errs, corr')" and "op params \<noteq> OpView"
  obtains (error) "errs \<noteq> []" "ps' = ps"
  | (ok) qs n where "errs = []" "applyEntry lower ps params \<lparr>errors = [], corrections = corr\<rparr> = (qs, n)"
      "errors n = []" "ps' = normalizeInProgressTask qs" "corr' = corrections n"
  using assms by (auto simp: applyParams_def Let_def split: prod.splits if_splits)

text \<open>C13: after a successful operation of the todo tool that is not a view exactly one task is in progress if
  some task is open, and none otherwise; a view changes nothing, so it leaves a list that was read from an old session
  as it finds it.\<close>

theorem todo_one_in_progress:
  assumes "applyParams lower ps params corr = (ps', [], corr')"
  shows "if op params = OpView then ps' = ps
    else length (filter (\<lambda>t. status t = InProgress) (all_tasks ps')) =
           (if \<exists>t\<in>set (all_tasks ps'). is_open t then 1 else 0)"
proof (cases "op params = OpView")
  case True
  then show ?thesis using assms by (simp add: applyParams_def)
next
  case False
  with assms show ?thesis
  proof (cases rule: applyParams_cases)
    case (ok qs n)
    then show ?thesis
      using False by (simp add: in_progress_tasks [symmetric] normalize_in_progress open_normalize)
  qed simp
qed

theorem todo_one_in_progress_witness:
  "\<exists>ps'. applyParams (\<lambda>s. s) sample_phases sample_done None = (ps', [], None) \<and>
     length (filter (\<lambda>t. status t = InProgress) (all_tasks ps')) =
       (if \<exists>t\<in>set (all_tasks ps'). is_open t then 1 else 0)"
  using todo_one_in_progress [OF sample_done_result] sample_done_result by (simp add: sample_done_def)

text \<open>An operation that reports an error leaves the todo list exactly as it was, and so does a batch
  of operations of which any reports one, however many succeeded before it.\<close>

theorem todo_errors_roll_back:
  "(case applyParams lower ps params corr of (ps', errs, corr') \<Rightarrow> errs = [] \<or> ps' = ps) \<and>
   (case applyOpsToPhases lower ps ops of (ps', errs) \<Rightarrow> errs = [] \<or> ps' = ps)"
  by (auto simp: applyParams_def applyOpsToPhases_def Let_def split: prod.splits if_splits)

lemma applyParams_wf:
  assumes "applyParams lower ps params corr = (ps', errs, corr')" and "todo_wf ps"
  shows "todo_wf ps'"
proof (cases "op params = OpView")
  case True
  then show ?thesis using assms by (simp add: applyParams_def)
next
  case False
  with assms(1) show ?thesis
  proof (cases rule: applyParams_cases)
    case (ok qs n)
    then have "todo_wf qs" using applyEntry_wf assms(2) by blast
    then show ?thesis using ok todo_wf_outline [OF outline_normalize] by simp
  qed (use assms in simp)
qed

text \<open>Task texts stay unique across all phases and phase names stay unique under every operation,
  so that a task can always be referred to by its text.\<close>

theorem todo_texts_unique:
  assumes "applyParams lower ps params corr = (ps', errs, corr')" and "todo_wf ps"
  shows "todo_wf ps'"
  by (rule applyParams_wf [OF assms])

theorem todo_texts_unique_witness:
  "\<exists>ps'. applyParams (\<lambda>s. s) sample_phases sample_done None = (ps', [], None) \<and> todo_wf ps'"
  using todo_texts_unique [OF sample_done_result sample_wf] sample_done_result by blast

lemma next_actionable_InProgress:
  assumes "\<exists>r\<in>set rs. status (task_at ps r) = InProgress"
  shows "next_actionable ps rs fp = find (\<lambda>r. status (task_at ps r) = InProgress) rs"
  using assms
proof (induction rs arbitrary: fp)
  case (Cons a rs)
  then show ?case by (cases "status (task_at ps a) = InProgress") auto
qed simp

lemma filter_key_single:
  "distinct (map f xs) \<Longrightarrow> x \<in> set xs \<Longrightarrow> filter (\<lambda>y. f y = f x) xs = [x]"
proof (induction xs)
  case (Cons a xs)
  then show ?case by (cases "x = a") (auto simp: filter_empty_conv intro: rev_image_eqI)
qed simp

lemma exact_task_unique:
  assumes "todo_wf ps" and "r \<in> set (task_refs ps)"
  shows "filter (\<lambda>q. content (task_at ps q) = content (task_at ps r)) (task_refs ps) = [r]"
proof (rule filter_key_single [OF _ assms(2)])
  show "distinct (map (\<lambda>q. content (task_at ps q)) (task_refs ps))"
    using assms(1) by (simp add: todo_wf_def contents_def map_task_at [symmetric] comp_def)
qed

lemma resolve_exact:
  assumes "todo_wf ps" and "r \<in> set (task_refs ps)" and "content (task_at ps r) \<noteq> []"
  shows "resolveTaskOrError lower ps (Some (content (task_at ps r))) n = (Some r, n)"
proof (cases "corrections n")
  case None
  let ?c = "content (task_at ps r)"
  have "?c \<in> set (contents ps)"
    using assms(2) by (auto simp: contents_def map_task_at [symmetric])
  then obtain q where q: "findTaskByContent ps ?c = Some q" using findTaskByContent_None by fastforce
  then have "q \<in> set (filter (\<lambda>q. content (task_at ps q) = ?c) (task_refs ps))"
    using findTaskByContent_Some by auto
  then have "q = r" unfolding exact_task_unique [OF assms(1,2)] by simp
  then show ?thesis using q None assms(3) by (simp add: resolveTaskOrError_def)
next
  case (Some cs)
  then show ?thesis
    using assms exact_task_unique [OF assms(1,2)]
    by (simp add: resolveTaskOrError_def fuzzyResolveTask_def fuzzy_resolve_def Let_def)
qed

text \<open>Starting a task by its exact text succeeds, makes it the one task in progress and the next
  actionable one, sends whatever was in progress back to pending, and changes no other task.\<close>

theorem todo_start:
  assumes "todo_wf ps" and "r \<in> set (task_refs ps)" and "content (task_at ps r) \<noteq> []"
    and "op params = OpStart" and "op_task params = Some (content (task_at ps r))"
  shows "\<exists>ps'. applyParams lower ps params corr = (ps', [], corr) \<and>
    nextActionableTask ps' = Some r \<and> in_progress ps' = [r] \<and>
    (\<forall>q\<in>set (task_refs ps) - {r}. task_at ps' q =
       (if status (task_at ps q) = InProgress then (task_at ps q)\<lparr>status := Pending\<rparr> else task_at ps q))"
proof -
  let ?qs = "start_task r ps"
  note facts = start_facts [OF assms(2)]
  then have refs: "task_refs ?qs = task_refs ps" by (metis task_refs_outline)
  have one: "in_progress ?qs = [r]"
    using facts by (intro in_progress_update [OF _ _ assms(2)]) auto
  then have norm: "normalizeInProgressTask ?qs = ?qs"
    by (cases ?qs rule: normalize_cases) (auto simp: set_statuses_def)
  have "applyParams lower ps params corr = (?qs, [], corr)"
    using assms resolve_exact [OF assms(1-3)] norm
    by (simp add: applyParams_def applyEntry_def Let_def)
  moreover have "nextActionableTask ?qs = Some r"
  proof -
    from one have "r \<in> {q \<in> set (task_refs ?qs). status (task_at ?qs q) = InProgress}"
      by (metis in_progress_def set_filter list.set_intros(1))
    then have ex: "\<exists>q\<in>set (task_refs ?qs). status (task_at ?qs q) = InProgress" by blast
    then have "find (\<lambda>q. status (task_at ?qs q) = InProgress) (task_refs ?qs) \<noteq> None"
      unfolding find_None_iff by blast
    then obtain q where q: "find (\<lambda>q. status (task_at ?qs q) = InProgress) (task_refs ?qs) = Some q"
      by blast
    then have "q \<in> set (in_progress ?qs)"
      using find_Some_filter [OF q] by (auto simp: in_progress_def)
    then have "q = r" using one by simp
    with q ex show ?thesis
      unfolding nextActionableTask_def next_actionable_InProgress [OF ex] by simp
  qed
  ultimately show ?thesis using one facts by auto
qed

theorem todo_start_witness:
  "\<exists>ps'. applyParams (\<lambda>s. s) sample_phases sample_start None = (ps', [], None) \<and>
     nextActionableTask ps' = Some (1, 0) \<and> in_progress ps' = [(1, 0)]"
proof -
  have "(1, 0) \<in> set (task_refs sample_phases)" "task_at sample_phases (1, 0) = \<lparr>content = js ''test'', status = Pending\<rparr>"
    by (simp_all add: sample_phases_def task_at.simps)
  then show ?thesis
    using todo_start [OF sample_wf, of "(1, 0)" sample_start "\<lambda>s. s" None]
    by (auto simp: sample_start_def js_def)
qed

lemma parse_status_json: "parseTodoStatus (status_json st) = Some st"
  by (cases st) (simp_all add: parseTodoStatus_def js_def)

lemma parse_item_json: "parseTodoItem lenient (item_json t) = Some t"
  by (simp add: parseTodoItem_def item_json_def get_def js_def parse_status_json)

lemma parse_phase_json: "parseTodoPhase (phase_json p) = Some p"
  using traverse_map [of "tasks p" "parseTodoItem False" item_json "\<lambda>t. t"]
  by (simp add: parseTodoPhase_def phase_json_def get_def js_def parse_item_json)

lemma read_state_entry: "latest_step (state_entry ps) qs = ps"
  using traverse_map [of ps parseTodoPhase phase_json "\<lambda>p. p"]
  by (simp add: state_entry_def readTodoPayload_def parsePhases_def get_def js_def parse_phase_json
      del: list.map_id)

text \<open>The snapshot the tool appends to the session restores the list: reading a branch gives the
  phases of the last snapshot, whatever was recorded before it, when only entries of other kinds
  follow.\<close>

theorem todo_snapshot_restores:
  assumes "\<forall>e\<in>set later. \<forall>qs. latest_step e qs = qs"
  shows "getLatestPhasesFromBranchEntries (earlier @ [state_entry ps] @ later) = ps"
proof -
  have "fold latest_step later qs = qs" for qs
    using assms by (induction later arbitrary: qs) auto
  then show ?thesis by (simp add: getLatestPhasesFromBranchEntries_def read_state_entry)
qed

theorem todo_snapshot_restores_witness:
  "getLatestPhasesFromBranchEntries
     ([state_entry []] @ [state_entry sample_phases] @ [OtherEntry (js ''label'')]) = sample_phases"
  by (rule todo_snapshot_restores) simp

end
