(* ===== verification/TodoTool.thy ===== *)
theory TodoTool
  imports TodoProps
begin

text \<open>
  The \<open>todo\<close> tool around the operations: the repair of a model's arguments (\<open>normalize.ts\<close>), the
  summary it answers with (\<open>todo-format.ts\<close>), \<open>execute\<close> of \<open>tools/todo.ts\<close> with the extension's
  state, and the side-bar widget (\<open>todo-widget.ts\<close>). The session of the extension is the current
  phases and the entries of the branch.
\<close>

section \<open>Normalisation of the arguments\<close>

datatype normalize_error =
    InvalidOp
  | BlankTask
  | BlankPhase
  | ConflictingShapes
  | MissingOpForItems
  | MissingOp

fun isOperation :: "json \<Rightarrow> TodoOperation option" where
  "isOperation (JStr s) =
     (if s = js ''init'' then Some OpInit
      else if s = js ''start'' then Some OpStart
      else if s = js ''done'' then Some OpDone
      else if s = js ''rm'' then Some OpRm
      else if s = js ''drop'' then Some OpDrop
      else if s = js ''append'' then Some OpAppend
      else if s = js ''view'' then Some OpView
      else None)"
| "isOperation _ = None"

definition strings :: "json \<Rightarrow> (jstr list) option" where
  "strings v = (case as_array v of None \<Rightarrow> None | Some xs \<Rightarrow> traverse as_string xs)"

definition list_item :: "json \<Rightarrow> (jstr \<times> jstr list) option" where
  "list_item v =
     (case props_of v of None \<Rightarrow> None
      | Some obj \<Rightarrow>
          (case (as_string (get obj (js ''phase'')), strings (get obj (js ''items''))) of
             (Some p, Some items) \<Rightarrow> Some (p, items)
           | _ \<Rightarrow> None))"

definition list_of :: "json \<Rightarrow> ((jstr \<times> jstr list) list) option" where
  "list_of v = (case as_array v of None \<Rightarrow> None | Some xs \<Rightarrow> traverse list_item xs)"

definition nonBlank :: "json \<Rightarrow> jstr option" where
  "nonBlank v = (case as_string v of None \<Rightarrow> None | Some s \<Rightarrow> if trim s \<noteq> [] then Some s else None)"

definition isBlank :: "json \<Rightarrow> bool" where
  "isBlank v \<longleftrightarrow> (case as_string v of None \<Rightarrow> False | Some s \<Rightarrow> trim s = [])"

definition hasTasks :: "TodoPhase list \<Rightarrow> bool" where
  "hasTasks ps \<longleftrightarrow> list_ex (\<lambda>p. length (tasks p) > 0) ps"

definition entry_of :: "TodoOperation \<Rightarrow> TodoOpEntry" where
  "entry_of o' = \<lparr>op = o', op_list = None, op_task = None, op_phase = None, op_items = None\<rparr>"

text \<open>The blank-target rules, which start the list of corrections.\<close>

definition check_targets ::
  "(jstr \<times> json) list \<Rightarrow> TodoOperation option \<Rightarrow> normalize_error + correction list" where
  "check_targets raw o' =
     (let rawTask = get raw (js ''task''); rawPhase = get raw (js ''phase'')
      in if o' \<in> {Some OpStart, Some OpDone, Some OpDrop, Some OpRm} then
           (if o' = Some OpRm \<and> isBlank rawTask \<and> isBlank rawPhase then Inr [BothBlank]
            else if isBlank rawTask \<and> nonBlank rawPhase = None then Inl BlankTask
            else if isBlank rawPhase \<and> nonBlank rawTask = None then Inl BlankPhase
            else Inr [])
         else Inr [])"

definition alias_op :: "Alias \<Rightarrow> TodoOperation" where
  "alias_op a = (case a of AliasInit \<Rightarrow> OpInit | AliasAppend \<Rightarrow> OpAppend)"

definition nonempty :: "'a list option \<Rightarrow> ('a list) option" where
  "nonempty x = (if truthy x then x else None)"

definition aliases_of :: "(jstr \<times> json) list \<Rightarrow> (Alias \<times> jstr list) list" where
  "aliases_of raw =
     (case nonempty (strings (get raw (js ''init''))) of None \<Rightarrow> [] | Some xs \<Rightarrow> [(AliasInit, xs)]) @
     (case nonempty (strings (get raw (js ''append''))) of None \<Rightarrow> [] | Some xs \<Rightarrow> [(AliasAppend, xs)])"

text \<open>The effective items, the operation an alias suggests, and the correction for it.\<close>

definition effective_items ::
  "(jstr \<times> json) list \<Rightarrow> TodoOperation option
     \<Rightarrow> normalize_error + (jstr list) option \<times> TodoOperation option \<times> correction list" where
  "effective_items raw o' =
     (let rawItems = nonempty (strings (get raw (js ''items''))); aliases = aliases_of raw
      in if length aliases > 1 then Inl ConflictingShapes
         else if length aliases = 1 \<and> rawItems \<noteq> None then Inl ConflictingShapes
         else case aliases of
           [] \<Rightarrow> Inr (rawItems, None, [])
         | (name, items) # _ \<Rightarrow>
             if o' \<noteq> None \<and> o' \<noteq> Some (alias_op name) then Inl ConflictingShapes
             else Inr (Some items, if o' = None then Some (alias_op name) else None,
                       [AliasAsItems name (o' = None)]))"

definition infer_op ::
  "TodoOperation option \<Rightarrow> TodoOperation option \<Rightarrow> bool \<Rightarrow> bool \<Rightarrow> bool \<Rightarrow> bool
     \<Rightarrow> normalize_error + TodoOperation \<times> correction list" where
  "infer_op o' candidate hasList hasItems hasPhase listHasTasks =
     (case o' of Some x \<Rightarrow> Inr (x, [])
      | None \<Rightarrow>
        (case candidate of Some x \<Rightarrow> Inr (x, [])
         | None \<Rightarrow>
           if hasList then Inr (OpInit, [InferredFromList])
           else if hasItems \<and> hasPhase then Inr (OpAppend, [InferredAppend])
           else if hasItems \<and> \<not> listHasTasks then Inr (OpInit, [InferredInit])
           else if hasItems then Inl MissingOpForItems
           else Inl MissingOp))"

definition build_entry ::
  "TodoOperation \<Rightarrow> jstr option \<Rightarrow> jstr option \<Rightarrow> ((jstr \<times> jstr list) list) option \<Rightarrow> (jstr list) option
     \<Rightarrow> normalize_error + TodoOpEntry" where
  "build_entry o' task phase lst items =
     (let hasList = truthy lst; hasItems = truthy items; e = entry_of o' in
      case o' of
        OpInit \<Rightarrow>
          if task \<noteq> None \<or> lst = Some [] \<and> hasItems then Inl ConflictingShapes
          else Inr (e\<lparr>op_list := lst, op_items := items, op_phase := phase\<rparr>)
      | OpStart \<Rightarrow>
          if phase \<noteq> None \<or> hasList \<or> hasItems then Inl ConflictingShapes else Inr (e\<lparr>op_task := task\<rparr>)
      | OpAppend \<Rightarrow>
          if task \<noteq> None \<or> hasList then Inl ConflictingShapes
          else Inr (e\<lparr>op_phase := phase, op_items := items\<rparr>)
      | OpView \<Rightarrow> Inr e
      | _ \<Rightarrow>
          if hasList \<or> hasItems then Inl ConflictingShapes
          else Inr (e\<lparr>op_task := task, op_phase := phase\<rparr>))"

definition normalizeTodoParams ::
  "(jstr \<times> json) list \<Rightarrow> TodoPhase list \<Rightarrow> normalize_error + TodoOpEntry \<times> correction list" where
  "normalizeTodoParams raw currentPhases =
     (let rawOp = get raw (js ''op'') in
      if rawOp = JStr (js ''view'') then Inr (entry_of OpView, [])
      else if rawOp \<noteq> JUndefined \<and> isOperation rawOp = None then Inl InvalidOp
      else let o' = isOperation rawOp; task = nonBlank (get raw (js ''task''));
               phase = nonBlank (get raw (js ''phase''))
        in case check_targets raw o' of Inl e \<Rightarrow> Inl e
         | Inr corr1 \<Rightarrow>
        (case effective_items raw o' of Inl e \<Rightarrow> Inl e
         | Inr (items, candidate, corr2) \<Rightarrow>
             let lst = list_of (get raw (js ''list''))
             in if truthy lst \<and> truthy items then Inl ConflictingShapes
                else
        (case infer_op o' candidate (truthy lst) (truthy items) (phase \<noteq> None) (hasTasks currentPhases) of
           Inl e \<Rightarrow> Inl e
         | Inr (effectiveOp, corr3) \<Rightarrow>
        (case build_entry effectiveOp task phase lst items of
           Inl e \<Rightarrow> Inl e
         | Inr entry \<Rightarrow> Inr (entry, corr1 @ corr2 @ corr3)))))"

section \<open>The summary\<close>

definition error_text :: "todo_error \<Rightarrow> jstr" where
  "error_text e =
     (let hint = (\<lambda>none. if none then js '' (todo list is empty '' @ [0x2014] @ js '' was it replaced or not yet created?)'' else []);
          mean = (\<lambda>s. case s of None \<Rightarrow> [] | Some t \<Rightarrow> js '' Did you mean '' @ quoted t @ js ''?'')
      in case e of
        MissingTaskContent \<Rightarrow> js ''Missing task content''
      | TaskReferencedById c \<Rightarrow> js ''Task '' @ quoted c @
          js '' not found. Tasks are referenced by content, not by IDs '' @ [0x2014] @
          js '' pass the task'' @ [39] @ js ''s full text from the previous result.''
      | TaskNotFound c none s \<Rightarrow> js ''Task '' @ quoted c @ js '' not found'' @ hint none @ mean s
      | TaskAmbiguous c ns \<Rightarrow> js ''Task '' @ quoted c @
          js '' is ambiguous: duplicate task text exists in phases '' @ join (js '', '') (map quoted ns) @
          js ''. Use /todo edit to make the task text unique.''
      | MissingPhaseName \<Rightarrow> js ''Missing phase name''
      | PhaseNotFound n s \<Rightarrow> js ''Phase '' @ quoted n @ js '' not found'' @ mean s
      | PhaseAmbiguous n \<Rightarrow> js ''Phase '' @ quoted n @
          js '' is ambiguous: duplicate phase names exist. Use /todo edit to make the phase name unique.''
      | MissingInitList \<Rightarrow> js ''Missing list for init operation''
      | PhaseWithoutTasks n \<Rightarrow> js ''Phase '' @ quoted n @ js '' has no tasks in init list''
      | MissingAppendItems \<Rightarrow> js ''Missing items for append operation''
      | TaskAlreadyExists c \<Rightarrow> js ''Task '' @ quoted c @ js '' already exists'')"

fun status_text :: "TodoStatus \<Rightarrow> jstr" where
  "status_text Pending = js ''pending''"
| "status_text InProgress = js ''in_progress''"
| "status_text Completed = js ''completed''"
| "status_text Abandoned = js ''abandoned''"

definition task_lines :: "TodoPhase \<Rightarrow> jstr list" where
  "task_lines p =
     (js ''  '' @ phase_name p @ js '':'') #
     map (\<lambda>t. js ''    - '' @ (if status t = Completed then js ''[X]'' else js ''[ ]'') @ js '' '' @ content t @
              (if status t = InProgress then js '' (in progress)''
               else if status t = Abandoned then js '' (dropped)'' else [])) (tasks p)"

definition remaining_tasks :: "TodoPhase list \<Rightarrow> (jstr \<times> TodoItem) list" where
  "remaining_tasks ps =
     concat (map (\<lambda>p. map (\<lambda>t. (phase_name p, t)) (filter is_open (tasks p))) ps)"

definition current_index :: "TodoPhase list \<Rightarrow> nat" where
  "current_index ps =
     (case find_pos (\<lambda>p. list_ex is_open (tasks p)) ps of Some i \<Rightarrow> i | None \<Rightarrow> length ps - 1)"

definition closed_count :: "TodoItem list \<Rightarrow> nat" where
  "closed_count ts = length (filter (\<lambda>t. status t = Completed \<or> status t = Abandoned) ts)"

definition formatSummary :: "TodoPhase list \<Rightarrow> jstr list \<Rightarrow> bool \<Rightarrow> jstr" where
  "formatSummary ps errs readOnly =
     (let ts = concat (map tasks ps) in
      if ts = [] then
        (if length errs > 0 then js ''Errors: '' @ join (js ''; '') errs
         else if readOnly then js ''Todo list is empty.'' else js ''Todo list cleared.'')
      else
        let remaining = remaining_tasks ps; currentIdx = current_index ps; current = ps ! currentIdx;
            workedAhead = list_ex (\<lambda>p. closed_count (tasks p) > 0) (drop (currentIdx + 1) ps)
        in join [LF]
          ((if length errs > 0 then [js ''Errors: '' @ join (js ''; '') errs] else []) @
           (if remaining = [] then [js ''Remaining items: none.'']
            else (js ''Remaining items ('' @ decimal (length remaining) @ js ''):'') #
              map (\<lambda>(n, t). js ''  - '' @ content t @ js '' ['' @ status_text (status t) @ js ''] ('' @ n @ js '')'') remaining) @
           [js ''Overall: '' @ decimal (closed_count ts) @ js ''/'' @ decimal (length ts) @ js '' done, '' @
              decimal (length remaining) @ js '' open.''] @
           [js ''Active phase '' @ decimal (currentIdx + 1) @ js ''/'' @ decimal (length ps) @ js '' '' @
              quoted (phase_name current) @ js '' ('' @ decimal (closed_count (tasks current)) @ js ''/'' @
              decimal (length (tasks current)) @ js '')'' @
              (if workedAhead
               then js '' '' @ [0x2014] @ js '' earliest phase with open tasks; the in-progress pointer auto-advances to the earliest open task on each completion, so it can sit behind out-of-order work (nothing was un-completed).''
               else js ''.'')] @
           concat (map task_lines ps)))"

definition getTodoMarker :: "TodoStatus \<Rightarrow> jstr" where
  "getTodoMarker st =
     (case st of Completed \<Rightarrow> [91, 0x2713, 93] | InProgress \<Rightarrow> [91, 0x2022, 93]
      | Abandoned \<Rightarrow> [91, 0xD7, 93] | Pending \<Rightarrow> js ''[ ]'')"

definition getTodoResultLines :: "TodoPhase list \<Rightarrow> jstr list" where
  "getTodoResultLines ps =
     (decimal (length (filter isIncompleteTodo (concat (map tasks ps)))) @ js '' todos'') #
     concat (map (\<lambda>p. (sanitizeTodoText (phase_name p) @ js '':'') #
       map (\<lambda>t. getTodoMarker (status t) @ js '' '' @ sanitizeTodoText (content t)) (tasks p)) ps)"

section \<open>The tool\<close>

record todo_session =
  current_phases :: "TodoPhase list"
  entries :: "branch_entry list"

datatype tool_error = NotNormalized normalize_error jstr | OperationFailed jstr

record todo_result =
  res_op :: TodoOperation
  res_phases :: "TodoPhase list"
  res_corrections :: "correction list"
  res_completed :: "TodoCompletionTransition list"
  res_summary :: jstr

definition execute ::
  "(jstr \<Rightarrow> jstr) \<Rightarrow> (jstr \<times> json) list \<Rightarrow> todo_session \<Rightarrow> todo_session \<times> (tool_error + todo_result)" where
  "execute lower params s =
     (let previousPhases = clonePhases (current_phases s) in
      case normalizeTodoParams params previousPhases of
        Inl e \<Rightarrow> (s, Inl (NotNormalized e (formatSummary previousPhases [] True)))
      | Inr (entry, corr) \<Rightarrow>
          let readOnly = (op entry = OpView);
              (phases, errs, corr) =
                (if readOnly then (previousPhases, [], Some corr)
                 else applyParams lower (clonePhases previousPhases) entry (Some corr))
          in if length errs > 0
             then (s, Inl (OperationFailed (formatSummary previousPhases (map error_text errs) readOnly)))
             else let completed = (if readOnly then [] else getCompletionTransitions previousPhases phases);
                      s = (if readOnly then s
                           else s\<lparr>entries := entries s @ [state_entry (clonePhases phases)],
                                  current_phases := clonePhases phases\<rparr>)
               in (s, Inr \<lparr>res_op = op entry, res_phases = clonePhases phases,
                     res_corrections = the corr, res_completed = completed,
                     res_summary = formatSummary phases [] readOnly\<rparr>))"

definition syncFromSession :: "branch_entry list \<Rightarrow> todo_session" where
  "syncFromSession branch = \<lparr>current_phases = getLatestPhasesFromBranchEntries branch, entries = branch\<rparr>"

section \<open>The widget\<close>

definition TODO_WIDGET_MAX_LINES :: nat where "TODO_WIDGET_MAX_LINES = 10"
definition TODO_WIDGET_HEADER_LINES :: nat where "TODO_WIDGET_HEADER_LINES = 2"
definition TODO_WIDGET_RECENT_TASKS :: nat where "TODO_WIDGET_RECENT_TASKS = 2"

datatype TodoWidgetRow = Label jstr | TaskRow TodoItem

record TodoWidgetModel =
  model_phase :: jstr
  model_rows :: "TodoWidgetRow list"

definition getActivePhase :: "TodoPhase list \<Rightarrow> nat option" where
  "getActivePhase ps = map_option fst (nextActionableTask ps)"

definition formatOmittedTasks :: "nat \<Rightarrow> jstr \<Rightarrow> jstr" where
  "formatOmittedTasks n direction =
     js ''... ('' @ decimal n @ js '' '' @ direction @ js '' task'' @ (if n = 1 then [] else js ''s'') @ js '')''"

definition formatTask :: "TodoItem \<Rightarrow> jstr" where
  "formatTask t = getTodoMarker (status t) @ js '' '' @ sanitizeTodoText (content t)"

definition visibleUpcomingCount :: "nat \<Rightarrow> nat \<Rightarrow> nat \<Rightarrow> nat" where
  "visibleUpcomingCount recent earlierMarkerRows pendingAfter =
     (let bodyBudget = int TODO_WIDGET_MAX_LINES - int TODO_WIDGET_HEADER_LINES;
          upcomingBudget = bodyBudget - int recent - int earlierMarkerRows
      in if int pendingAfter > upcomingBudget then nat (max 0 (upcomingBudget - 1)) else pendingAfter)"

definition getTodoWidgetModel :: "TodoPhase list \<Rightarrow> TodoWidgetModel option" where
  "getTodoWidgetModel ps =
     (case getActivePhase ps of None \<Rightarrow> None
      | Some i \<Rightarrow>
        let active = ps ! i;
            hdr = [Label (js ''Todo''), Label (sanitizeTodoText (phase_name active))];
            rows = map TaskRow (tasks active)
        in if length hdr + length rows \<le> TODO_WIDGET_MAX_LINES
           then Some \<lparr>model_phase = phase_name active, model_rows = hdr @ rows\<rparr>
           else case nextActionableTask [active] of None \<Rightarrow> None
            | Some (_, activeIndex) \<Rightarrow>
              let firstVisible = activeIndex - TODO_WIDGET_RECENT_TASKS;
                  recentAndActive = map TaskRow (slice (tasks active) firstVisible (activeIndex + 1));
                  pendingAfter = filter (\<lambda>t. status t = Pending) (drop (activeIndex + 1) (tasks active));
                  upcoming = visibleUpcomingCount (length recentAndActive)
                               (if firstVisible > 0 then 1 else 0) (length pendingAfter);
                  later = length pendingAfter - upcoming
              in Some \<lparr>model_phase = phase_name active,
                   model_rows = hdr @
                     (if firstVisible > 0 then [Label (formatOmittedTasks firstVisible (js ''earlier''))] else []) @
                     recentAndActive @ map TaskRow (take upcoming pendingAfter) @
                     (if later > 0 then [Label (formatOmittedTasks later (js ''later''))] else [])\<rparr>)"

definition getTodoWidgetLines :: "TodoPhase list \<Rightarrow> (jstr list) option" where
  "getTodoWidgetLines ps =
     map_option (\<lambda>m. map (\<lambda>row. case row of Label t \<Rightarrow> t | TaskRow t \<Rightarrow> formatTask t) (model_rows m))
       (getTodoWidgetModel ps)"

section \<open>Properties\<close>

lemma build_entry_op:
  assumes "build_entry o' task phase lst items = Inr e"
  shows "op e = o'"
    and "o' \<in> {OpStart, OpDone, OpDrop, OpRm} \<Longrightarrow> op_task e = task \<and> op_phase e = phase"
  using assms by (cases o'; auto simp: build_entry_def entry_of_def Let_def split: if_splits)+

lemma effective_items_candidate:
  "effective_items raw o' = Inr (items, Some x, corr) \<Longrightarrow> x \<in> {OpInit, OpAppend}"
  by (auto simp: effective_items_def alias_op_def Let_def split: if_splits list.splits Alias.splits)

lemma infer_op_given:
  "infer_op o' candidate a b c d = Inr (x, corr) \<Longrightarrow>
   (\<And>y. candidate = Some y \<Longrightarrow> y \<in> {OpInit, OpAppend}) \<Longrightarrow>
   x \<in> {OpStart, OpDone, OpDrop, OpRm} \<Longrightarrow> o' = Some x"
  by (auto simp: infer_op_def split: option.splits if_splits)

text \<open>A normalised targeted operation is the one that was asked for, with the targets that were given.\<close>

lemma normalized_target:
  assumes "normalizeTodoParams raw ps = Inr (entry, corr)"
    and "op entry \<in> {OpStart, OpDone, OpDrop, OpRm}"
  obtains corr1 corr' where "check_targets raw (Some (op entry)) = Inr corr1" "corr = corr1 @ corr'"
    "op_task entry = nonBlank (get raw (js ''task''))" "op_phase entry = nonBlank (get raw (js ''phase''))"
proof -
  let ?o = "isOperation (get raw (js ''op''))"
  from assms obtain corr1 items candidate corr2 x corr3 where
    chk: "check_targets raw ?o = Inr corr1" and
    eff: "effective_items raw ?o = Inr (items, candidate, corr2)" and
    inf: "infer_op ?o candidate (truthy (list_of (get raw (js ''list'')))) (truthy items)
        (nonBlank (get raw (js ''phase'')) \<noteq> None) (hasTasks ps) = Inr (x, corr3)" and
    bld: "build_entry x (nonBlank (get raw (js ''task''))) (nonBlank (get raw (js ''phase'')))
        (list_of (get raw (js ''list''))) items = Inr entry" and corr: "corr = corr1 @ corr2 @ corr3"
    by (auto simp: normalizeTodoParams_def Let_def entry_of_def split: if_splits sum.splits prod.splits)
  have x: "op entry = x" using build_entry_op [OF bld] by simp
  have "?o = Some x"
    by (rule infer_op_given [OF inf]) (use eff effective_items_candidate assms(2) x in blast)+
  then show thesis using that chk corr build_entry_op [OF bld] assms(2) x by simp
qed

text \<open>Blank padding never widens a targeted operation into a bulk one: a normalised start, done or
  drop without a target had no blank target, and a normalised rm without one had either none or
  both blank, which is then reported as a correction.\<close>

theorem normalize_never_widens:
  assumes "normalizeTodoParams raw ps = Inr (entry, corr)"
    and "op entry \<in> {OpStart, OpDone, OpDrop, OpRm}"
    and "op_task entry = None" and "op_phase entry = None"
  shows "(\<not> isBlank (get raw (js ''task'')) \<and> \<not> isBlank (get raw (js ''phase''))) \<or>
    (op entry = OpRm \<and> isBlank (get raw (js ''task'')) \<and> isBlank (get raw (js ''phase'')) \<and>
     BothBlank \<in> set corr)"
  using normalized_target [OF assms(1,2)]
proof cases
  case (1 corr1 corr')
  then show ?thesis
    using assms by (auto simp: check_targets_def Let_def split: if_splits)
qed

theorem normalize_never_widens_witness:
  "BothBlank \<in> set (snd (projr (normalizeTodoParams
     [(js ''op'', JStr (js ''rm'')), (js ''task'', JStr []), (js ''phase'', JStr (js '' ''))] [])))"
  using normalize_never_widens [of
     "[(js ''op'', JStr (js ''rm'')), (js ''task'', JStr []), (js ''phase'', JStr (js '' ''))]" "[]"
     "entry_of OpRm" "[BothBlank]"]
  by code_simp

section \<open>The session\<close>

text \<open>Every state the extension reaches from the session it starts on.\<close>

inductive session_reachable :: "(jstr \<Rightarrow> jstr) \<Rightarrow> branch_entry list \<Rightarrow> todo_session \<Rightarrow> bool"
  for lower branch where
  started: "session_reachable lower branch (syncFromSession branch)"
| executed: "session_reachable lower branch s \<Longrightarrow>
    session_reachable lower branch (fst (execute lower params s))"

lemma latest_snoc:
  "getLatestPhasesFromBranchEntries (es @ [e]) = latest_step e (getLatestPhasesFromBranchEntries es)"
  by (simp add: getLatestPhasesFromBranchEntries_def)

lemma execute_cases:
  obtains (unchanged) "fst (execute lower params s) = s"
  | (changed) entry corr phases corr' where
      "op entry \<noteq> OpView" "applyParams lower (current_phases s) entry (Some corr) = (phases, [], corr')"
      "fst (execute lower params s) =
         s\<lparr>entries := entries s @ [state_entry phases], current_phases := phases\<rparr>"
proof (cases "normalizeTodoParams params (current_phases s)")
  case (Inl e)
  then show thesis using unchanged by (simp add: execute_def)
next
  case (Inr ec)
  obtain entry corr where ec: "ec = (entry, corr)" by (cases ec)
  obtain phases errs corr' where app: "applyParams lower (current_phases s) entry (Some corr) = (phases, errs, corr')"
    by (cases "applyParams lower (current_phases s) entry (Some corr)") auto
  show thesis
  proof (cases "op entry = OpView \<or> errs \<noteq> []")
    case True
    then show thesis using unchanged Inr ec app by (auto simp: execute_def Let_def)
  next
    case False
    then show thesis using changed [of entry corr phases corr'] Inr ec app by (simp add: execute_def Let_def)
  qed
qed

text \<open>C12: whatever calls the model makes, the phases the extension holds are those a reload of the
  session would restore, and task texts and phase names stay unique if they were at the start.\<close>

theorem todo_session_consistent:
  assumes "session_reachable lower branch s"
  shows "syncFromSession (entries s) = s \<and>
    (todo_wf (getLatestPhasesFromBranchEntries branch) \<longrightarrow> todo_wf (current_phases s))"
  using assms
proof induction
  case started
  show ?case by (simp add: syncFromSession_def)
next
  case (executed s params)
  show ?case
  proof (cases rule: execute_cases [of lower params s])
    case unchanged
    then show ?thesis using executed by simp
  next
    case (changed entry corr phases corr')
    have "todo_wf (current_phases s) \<longrightarrow> todo_wf phases"
      using applyParams_wf [OF changed(2)] by blast
    with changed executed show ?thesis
      by (simp add: syncFromSession_def latest_snoc read_state_entry)
  qed
qed

theorem todo_session_consistent_witness:
  "\<exists>s. current_phases s = sample_phases \<and> syncFromSession (entries s) = s \<and> todo_wf (current_phases s)"
proof -
  have latest: "getLatestPhasesFromBranchEntries [state_entry sample_phases] = sample_phases"
    by (simp add: getLatestPhasesFromBranchEntries_def read_state_entry)
  then show ?thesis
    using todo_session_consistent [OF session_reachable.started, of "[state_entry sample_phases]"] sample_wf
    by (auto simp: syncFromSession_def intro!: exI [of _ "syncFromSession [state_entry sample_phases]"])
qed

text \<open>The active phase's own next actionable task is the list's.\<close>

lemma find_concat: "find P (concat xss) = Some x \<Longrightarrow> \<exists>xs\<in>set xss. find P xs = Some x"
proof (induction xss)
  case (Cons xs xss)
  have "find P (xs @ ys) = (case find P xs of None \<Rightarrow> find P ys | Some x \<Rightarrow> Some x)" for ys
    by (induction xs) auto
  with Cons show ?case by (auto split: option.splits)
qed simp

lemma find_map_fun: "find P (map f xs) = map_option f (find (P \<circ> f) xs)"
  by (induction xs) auto

lemma next_actionable_find:
  "next_actionable ps rs fp =
     (case find (\<lambda>r. status (task_at ps r) = InProgress) rs of Some r \<Rightarrow> Some r
      | None \<Rightarrow> (case fp of Some r \<Rightarrow> Some r | None \<Rightarrow> find (\<lambda>r. status (task_at ps r) = Pending) rs))"
  by (induction ps rs fp rule: next_actionable.induct) (auto split: option.splits)

lemma find_in_phase:
  assumes "find (\<lambda>r. P (task_at ps r)) (task_refs ps) = Some (i, j)"
  shows "find (\<lambda>r. P (task_at [ps ! i] r)) (task_refs [ps ! i]) = Some (0, j)"
proof -
  obtain k where k: "find (\<lambda>r. P (task_at ps r)) (map (\<lambda>j. (k, j)) [0..<length (tasks (ps ! k))]) = Some (i, j)"
    using find_concat [OF assms [unfolded task_refs_def]] by auto
  then have "k = i" by (auto simp: find_map_fun)
  then show ?thesis using k by (auto simp: find_map_fun task_refs_def comp_def task_at.simps)
qed

lemma find_not_in_phase:
  assumes "find (\<lambda>r. P (task_at ps r)) (task_refs ps) = None" and "i < length ps"
  shows "find (\<lambda>r. P (task_at [ps ! i] r)) (task_refs [ps ! i]) = None"
  using assms by (auto simp: find_None_iff task_at.simps)

lemma next_actionable_in_phase:
  assumes "nextActionableTask ps = Some (i, j)"
  shows "(i, j) \<in> set (task_refs ps) \<and> nextActionableTask [ps ! i] = Some (0, j)"
proof (cases "find (\<lambda>r. status (task_at ps r) = InProgress) (task_refs ps)")
  case (Some r)
  then have r: "r = (i, j)" using assms by (simp add: nextActionableTask_def next_actionable_find)
  then show ?thesis
    using find_in_phase [of "\<lambda>t. status t = InProgress"] find_Some_filter Some
    by (fastforce simp: nextActionableTask_def next_actionable_find)
next
  case None
  then have p: "find (\<lambda>r. status (task_at ps r) = Pending) (task_refs ps) = Some (i, j)"
    using assms by (simp add: nextActionableTask_def next_actionable_find)
  then have ref: "(i, j) \<in> set (task_refs ps)" by (rule find_Some_filter [THEN conjunct1])
  then have "i < length ps" by simp
  then show ?thesis
    using ref find_in_phase [OF p] find_not_in_phase [OF None]
    by (simp add: nextActionableTask_def next_actionable_find)
qed

lemma upcoming_fits:
  assumes "recent \<le> 3" and "earlier \<le> 1"
  shows "earlier + recent + min p (visibleUpcomingCount recent earlier p) +
    (if p - visibleUpcomingCount recent earlier p > 0 then 1 else 0) \<le> 8"
  using assms by (auto simp: visibleUpcomingCount_def Let_def TODO_WIDGET_MAX_LINES_def TODO_WIDGET_HEADER_LINES_def)

text \<open>The widget shows at most \<open>TODO_WIDGET_MAX_LINES\<close> rows, the next actionable task among them.\<close>

theorem widget_bounded:
  assumes "getTodoWidgetModel ps = Some m"
  shows "length (model_rows m) \<le> TODO_WIDGET_MAX_LINES \<and>
    (\<exists>r. nextActionableTask ps = Some r \<and> TaskRow (task_at ps r) \<in> set (model_rows m))"
proof -
  obtain i j where r: "nextActionableTask ps = Some (i, j)"
    using assms by (cases "nextActionableTask ps") (auto simp: getTodoWidgetModel_def getActivePhase_def)
  note j = next_actionable_in_phase [OF r]
  let ?ts = "tasks (ps ! i)"
  have j_lt: "j < length ?ts" using j by simp
  have at: "task_at ps (i, j) = ?ts ! j" by (simp add: task_at.simps)
  have shown: "?ts ! j \<in> set (slice ?ts (j - 2) (j + 1))"
  proof -
    have "j - 2 + min j 2 = j" by linarith
    then show ?thesis
      using j_lt by (auto simp: slice_def set_conv_nth intro!: exI [of _ "min j 2"])
  qed
  have few: "length (slice ?ts (j - 2) (j + 1)) = min j 2 + 1"
    using j_lt by (auto simp: slice_def)
  show ?thesis
  proof (cases "2 + length ?ts \<le> 10")
    case True
    then show ?thesis
      using assms r j_lt at by (auto simp: getTodoWidgetModel_def getActivePhase_def TODO_WIDGET_MAX_LINES_def Let_def)
  next
    case False
    let ?r = "slice ?ts (j - 2) (j + 1)"
    let ?p = "length (filter (\<lambda>t. status t = Pending) (drop (j + 1) ?ts))"
    let ?e = "if j - 2 > 0 then 1 else 0 :: nat"
    let ?u = "visibleUpcomingCount (length ?r) ?e ?p"
    have "length (model_rows m) = 2 + ?e + length ?r + min ?p ?u + (if ?p - ?u > 0 then 1 else 0) \<and>
        set (map TaskRow ?r) \<subseteq> set (model_rows m)"
      using assms r j False
      by (auto simp: getTodoWidgetModel_def getActivePhase_def TODO_WIDGET_MAX_LINES_def
          TODO_WIDGET_RECENT_TASKS_def Let_def min.commute)
    moreover have "?e + length ?r + min ?p ?u + (if ?p - ?u > 0 then 1 else 0) \<le> 8"
      unfolding few by (rule upcoming_fits) simp_all
    ultimately show ?thesis
      using r shown at by (auto simp: TODO_WIDGET_MAX_LINES_def)
  qed
qed

theorem widget_bounded_witness:
  "\<exists>m. getTodoWidgetModel sample_phases = Some m \<and> length (model_rows m) \<le> 10 \<and>
     TaskRow \<lparr>content = js ''write'', status = InProgress\<rparr> \<in> set (model_rows m)"
proof -
  have "nextActionableTask sample_phases = Some (0, 1)" by code_simp
  moreover from this obtain m where m: "getTodoWidgetModel sample_phases = Some m"
    by (simp add: getTodoWidgetModel_def getActivePhase_def TODO_WIDGET_MAX_LINES_def sample_phases_def)
  ultimately show ?thesis
    using widget_bounded [OF m] m by (simp add: TODO_WIDGET_MAX_LINES_def sample_phases_def task_at.simps)
qed

end
