(* ===== verification/TodoMarkdown.thy ===== *)
theory TodoMarkdown
  imports TodoProps
begin

text \<open>
  The markdown form of the todo list (\<open>todotools/markdown.ts\<close>) that \<open>/todo edit\<close>, \<open>export\<close> and
  \<open>import\<close> exchange with the user: printing, and parsing with the source's two regular expressions.
  The phase being filled is the last one pushed.
\<close>

section \<open>Printing\<close>

fun STATUS_TO_MARKER :: "TodoStatus \<Rightarrow> jstr" where
  "STATUS_TO_MARKER Pending = js '' ''"
| "STATUS_TO_MARKER InProgress = js ''/''"
| "STATUS_TO_MARKER Completed = js ''x''"
| "STATUS_TO_MARKER Abandoned = js ''-''"

definition MARKER_TO_STATUS :: "jstr \<Rightarrow> TodoStatus option" where
  "MARKER_TO_STATUS m =
     (if m \<in> {js '' '', []} then Some Pending
      else if m \<in> {js ''x'', js ''X''} then Some Completed
      else if m \<in> {js ''/'', js ''>''} then Some InProgress
      else if m \<in> {js ''-'', js ''~''} then Some Abandoned
      else None)"

definition phase_md :: "TodoPhase \<Rightarrow> jstr list" where
  "phase_md p =
     (js ''# '' @ phase_name p) #
     map (\<lambda>t. js ''- ['' @ STATUS_TO_MARKER (status t) @ js ''] '' @ content t) (tasks p)"

fun phases_md :: "bool \<Rightarrow> TodoPhase list \<Rightarrow> jstr list" where
  "phases_md first [] = []"
| "phases_md first (p # ps) = (if first then [] else [[]]) @ phase_md p @ phases_md False ps"

definition phasesToMarkdown :: "TodoPhase list \<Rightarrow> jstr" where
  "phasesToMarkdown ps =
     (if length ps = 0 then js ''# '' @ DEFAULT_INIT_PHASE @ [LF]
      else join [LF] (phases_md True ps) @ [LF])"

section \<open>Parsing\<close>

datatype markdown_error = UnknownMarker nat jstr | Unrecognized nat jstr

definition text_end :: "(regex \<times> bool) list" where
  "text_end = [(Seq (Cls dot) (Lazy (Cls dot)), True), (Star (Cls is_space), False), (AtEnd, False)]"

definition heading_regex :: "(regex \<times> bool) list" where
  "heading_regex =
     (Seq (Cls (\<lambda>c. c = 35)) (Rep 5 (Cls (\<lambda>c. c = 35))), False) # (Plus (Cls is_space), False) # text_end"

definition task_regex :: "(regex \<times> bool) list" where
  "task_regex =
     (Cls (one_of ''-*+''), False) # (Star (Cls is_space), False) # (Lit (js ''[''), False) #
     (Opt (Cls dot), True) # (Lit (js '']''), False) # (Plus (Cls is_space), False) # text_end"

definition push_task :: "TodoItem \<Rightarrow> TodoPhase list \<Rightarrow> TodoPhase list" where
  "push_task t ps = add_tasks (length ps - 1) [t] ps"

fun parse_lines ::
  "nat \<Rightarrow> jstr list \<Rightarrow> TodoPhase list \<Rightarrow> markdown_error list \<Rightarrow> TodoPhase list \<times> markdown_error list" where
  "parse_lines lineNumber [] ps errs = (ps, errs)"
| "parse_lines lineNumber (l # ls) ps errs =
     (let trimmed = trim l in
      if trimmed = [] then parse_lines (lineNumber + 1) ls ps errs
      else case exec heading_regex trimmed of
        Some groups \<Rightarrow>
          parse_lines (lineNumber + 1) ls (ps @ [\<lparr>phase_name = trim (groups ! 0), tasks = []\<rparr>]) errs
      | None \<Rightarrow>
        (case exec task_regex trimmed of
           Some groups \<Rightarrow>
             (let ps = (if ps = [] then [\<lparr>phase_name = DEFAULT_INIT_PHASE, tasks = []\<rparr>] else ps)
              in case MARKER_TO_STATUS (groups ! 0) of
                   None \<Rightarrow> parse_lines (lineNumber + 1) ls ps
                             (errs @ [UnknownMarker (lineNumber + 1) (groups ! 0)])
                 | Some st \<Rightarrow> parse_lines (lineNumber + 1) ls
                               (push_task \<lparr>content = trim (groups ! 1), status = st\<rparr> ps) errs)
         | None \<Rightarrow> parse_lines (lineNumber + 1) ls ps (errs @ [Unrecognized (lineNumber + 1) trimmed])))"

definition markdownToPhases :: "jstr \<Rightarrow> TodoPhase list \<times> markdown_error list" where
  "markdownToPhases markdown =
     (case parse_lines 0 (split_lines markdown) [] [] of
        (ps, errs) \<Rightarrow> (normalizeInProgressTask ps, errs))"

section \<open>Lines that the printer writes\<close>

text \<open>Text that survives a line of markdown: not empty, trimmed, on one line.\<close>

definition plain :: "jstr \<Rightarrow> bool" where
  "plain s \<longleftrightarrow> s \<noteq> [] \<and> trimmed s \<and> list_all dot s"

lemma captures_end:
  assumes "q \<noteq> []" and "\<not> is_space (last q)"
  shows "captures [(Star (Cls is_space), False), (AtEnd, False)] q = []"
proof -
  have "t \<noteq> []" if t: "t \<in> set (rest_of (Star (Cls is_space)) q)" for t
    using rest_of_Star_prefix [OF t] assms by (metis append_Nil2 last_in_set list_all_iff)
  then show ?thesis by auto
qed

lemma captures_text:
  assumes "plain s"
  shows "captures text_end s = [[s]]"
proof -
  let ?tail = "captures [(Star (Cls is_space), False), (AtEnd, False)]"
  obtain c cs where s: "s = c # cs" using assms by (cases s) (auto simp: plain_def)
  let ?f = "\<lambda>t. map (\<lambda>g. take (length s - length t) s # g) (?tail t)"
  have rests: "rest_of (Seq (Cls dot) (Lazy (Cls dot))) s = map (\<lambda>i. drop i cs) [0..<Suc (length cs)]"
    using assms s rest_of_Lazy_all [of dot cs] by (simp add: plain_def)
  have "?tail (drop i cs) = []" if "i < length cs" for i
    using assms s that by (intro captures_end) (auto simp: plain_def trimmed_def last_drop split: if_splits)
  moreover have "?tail [] = [[]]" by (simp)
  ultimately have "concat (map (\<lambda>i. ?f (drop i cs)) [0..<Suc (length cs)]) = [[s]]"
    by simp
  then show ?thesis
    unfolding text_end_def using rests by (simp add: comp_def)
qed

lemma plain_start: "plain s \<Longrightarrow> \<exists>c cs. s = c # cs \<and> \<not> is_space c"
  by (cases s) (auto simp: plain_def trimmed_def)

lemma space_text:
  assumes "plain s"
  shows "captures ((Plus (Cls is_space), False) # text_end) (32 # s) = [[s]]"
proof -
  have "rest_of (Star (Cls is_space)) s = [s]"
    using plain_start [OF assms] by auto
  then show ?thesis using captures_text [OF assms] by (simp add: Plus_def is_space_def)
qed

lemma plain_heading:
  assumes "plain s"
  shows "exec heading_regex (35 # 32 # s) = Some [s]"
  using space_text [OF assms]
  by (simp add: exec_def heading_regex_def numeral_eq_Suc)

lemma plain_task:
  assumes "plain s" and "dot m"
  shows "exec task_regex (45 # 32 # 91 # m # 93 # 32 # s) = Some [[m], s]"
    and "exec heading_regex (45 # 32 # 91 # m # 93 # 32 # s) = None"
proof -
  have "rest_of (Star (Cls is_space)) (32 # 91 # m # 93 # 32 # s) = [91 # m # 93 # 32 # s, 32 # 91 # m # 93 # 32 # s]"
    by (subst rest_of.simps(6)) (simp add: is_space_def)
  then show "exec task_regex (45 # 32 # 91 # m # 93 # 32 # s) = Some [[m], s]"
    using space_text [OF assms(1)] assms(2)
    by (simp add: exec_def task_regex_def one_of_def js_def)
  show "exec heading_regex (45 # 32 # 91 # m # 93 # 32 # s) = None"
    by (simp add: exec_def heading_regex_def)
qed

section \<open>The round trip\<close>

definition printable :: "TodoPhase list \<Rightarrow> bool" where
  "printable ps \<longleftrightarrow> list_all (\<lambda>p. plain (phase_name p) \<and> list_all (\<lambda>t. plain (content t)) (tasks p)) ps"

lemma marker: "\<exists>m. STATUS_TO_MARKER st = [m] \<and> dot m \<and> MARKER_TO_STATUS [m] = Some st"
  by (cases st) (simp_all add: MARKER_TO_STATUS_def js_def dot_def)

lemma plain_line:
  assumes "plain s" and "\<not> is_space c"
  shows "trimmed (c # p @ s)" and "drop_cr (c # p @ s) = c # p @ s"
  using assms last_in_set [of s]
  by (auto simp: plain_def trimmed_def drop_cr_def list_all_iff dot_def)

lemma parse_heading:
  "plain n \<Longrightarrow> parse_lines k ((js ''# '' @ n) # ls) ps errs =
     parse_lines (Suc k) ls (ps @ [\<lparr>phase_name = n, tasks = []\<rparr>]) errs"
  using plain_line(1) [of n 35 "[32]"]
  by (simp add: js_def is_space_def plain_heading) (simp add: plain_def)

lemma push_task_last:
  "push_task t (ps @ [q]) = ps @ [q\<lparr>tasks := tasks q @ [t]\<rparr>]"
  by (simp add: push_task_def add_tasks_def nth_append)

lemma record_eta [simp]:
  "\<lparr>content = content t, status = status t\<rparr> = (t :: TodoItem)"
  "\<lparr>phase_name = phase_name p, tasks = tasks p\<rparr> = (p :: TodoPhase)"
  by simp_all

lemma parse_task:
  assumes "plain (content t)"
  shows "parse_lines k ((js ''- ['' @ STATUS_TO_MARKER (status t) @ js ''] '' @ content t) # ls) (ps @ [q]) errs =
     parse_lines (Suc k) ls (ps @ [q\<lparr>tasks := tasks q @ [t]\<rparr>]) errs"
proof -
  obtain m where m: "STATUS_TO_MARKER (status t) = [m]" "dot m" "MARKER_TO_STATUS [m] = Some (status t)"
    using marker by blast
  have "trim (45 # 32 # 91 # m # 93 # 32 # content t) = 45 # 32 # 91 # m # 93 # 32 # content t"
    using plain_line(1) [OF assms, of 45 "[32, 91, m, 93, 32]"] by (simp add: is_space_def)
  moreover have "trim (content t) = content t" using assms by (simp add: plain_def)
  ultimately show ?thesis
    using m plain_task [OF assms m(2)] by (simp add: js_def push_task_last)
qed

lemma parse_tasks:
  "list_all (\<lambda>t. plain (content t)) ts \<Longrightarrow>
   parse_lines k (map (\<lambda>t. js ''- ['' @ STATUS_TO_MARKER (status t) @ js ''] '' @ content t) ts @ ls) (ps @ [q]) errs =
     parse_lines (k + length ts) ls (ps @ [q\<lparr>tasks := tasks q @ ts\<rparr>]) errs"
  by (induction ts arbitrary: k q) (simp_all add: parse_task del: parse_lines.simps)

lemma parse_phases:
  "printable ps \<Longrightarrow> \<exists>n. parse_lines k (phases_md first ps @ ls) qs errs = parse_lines n ls (qs @ ps) errs"
proof (induction ps arbitrary: first k qs)
  case (Cons p ps)
  let ?k = "if first then k else Suc k"
  have blank: "parse_lines k ([] # ls') qs errs = parse_lines (Suc k) ls' qs errs" for ls'
    by (simp add: trim_trimmed [of "[]"] trimmed_def)
  have "parse_lines k (phases_md first (p # ps) @ ls) qs errs =
        parse_lines (Suc ?k + length (tasks p)) (phases_md False ps @ ls) (qs @ [p]) errs"
    using Cons.prems
    by (simp add: printable_def phase_md_def blank parse_heading parse_tasks del: parse_lines.simps)
  moreover obtain n where "parse_lines (Suc ?k + length (tasks p)) (phases_md False ps @ ls) (qs @ [p]) errs =
      parse_lines n ls ((qs @ [p]) @ ps) errs"
    using Cons.IH [of _ False "qs @ [p]"] Cons.prems by (auto simp: printable_def)
  ultimately show ?case by (intro exI [of _ n]) simp
qed auto

lemma markdown_lines:
  assumes "l \<in> set (phases_md first ps)" and "printable ps"
  shows "LF \<notin> set l" and "drop_cr l = l"
proof -
  have md: "l = [] \<or> (\<exists>c p s. l = c # p @ s \<and> plain s \<and> \<not> is_space c \<and> LF \<notin> set p)"
    using assms
  proof (induction ps arbitrary: first)
    case (Cons p ps)
    have item: "\<exists>c q s. js ''- ['' @ STATUS_TO_MARKER (status t) @ js ''] '' @ content t = c # q @ s \<and>
        plain s \<and> \<not> is_space c \<and> LF \<notin> set q" if "plain (content t)" for t
      using that marker [of "status t"]
      by (intro exI [of _ 45] exI [of _ "[32, 91] @ STATUS_TO_MARKER (status t) @ [93, 32]"] exI [of _ "content t"])
        (auto simp: js_def is_space_def dot_def)
    have head: "\<exists>c q s. js ''# '' @ phase_name p = c # q @ s \<and> plain s \<and> \<not> is_space c \<and> LF \<notin> set q"
      using Cons.prems
      by (intro exI [of _ 35] exI [of _ "[32]"] exI [of _ "phase_name p"])
        (auto simp: js_def is_space_def printable_def)
    from Cons.prems consider "l = []" | "l = js ''# '' @ phase_name p" |
        t where "t \<in> set (tasks p)" "l = js ''- ['' @ STATUS_TO_MARKER (status t) @ js ''] '' @ content t" |
        "l \<in> set (phases_md False ps)"
      by (auto simp: phase_md_def split: if_splits)
    then show ?case
    proof cases
      case 2
      then show ?thesis using head by blast
    next
      case (3 t)
      then have "plain (content t)" using Cons.prems by (auto simp: printable_def list_all_iff)
      then show ?thesis using item 3 by blast
    next
      case 4
      then show ?thesis using Cons by (simp add: printable_def)
    qed simp
  qed simp
  have "is_space LF" by (simp add: is_space_def)
  moreover have "LF \<notin> set s" if "plain s" for s
    using that unfolding plain_def list_all_iff dot_def by blast
  ultimately show "LF \<notin> set l" using md by fastforce
  show "drop_cr l = l"
    using md plain_line(2) by (metis drop_cr_def)
qed

lemma split_lines_join:
  assumes "\<forall>l\<in>set ls. LF \<notin> set l \<and> drop_cr l = l" and "ls \<noteq> []"
  shows "split_lines (join [LF] ls @ [LF]) = ls @ [[]]"
proof -
  have "join [LF] ls @ [LF] = join [LF] (ls @ [[]])"
    using assms(2)
  proof (induction ls rule: list_nonempty_induct)
    case (cons l ls)
    then show ?case by (cases ls) simp_all
  qed simp
  then have "split_on LF (join [LF] ls @ [LF]) = ls @ [[]]"
    using assms split_join [of "ls @ [[]]" LF] by auto
  moreover have "map drop_cr ls = ls" using assms(1) by (intro map_idI) auto
  ultimately show ?thesis by (simp add: split_lines_def)
qed

text \<open>A list that obeys the rule of the tool (one task in progress if any is open, none otherwise) is not
  changed by normalising it.\<close>

lemma normalize_same:
  assumes "length (filter (\<lambda>t. status t = InProgress) (all_tasks ps)) = (if \<exists>t\<in>set (all_tasks ps). is_open t then 1 else 0)"
  shows "normalizeInProgressTask ps = ps"
proof (cases ps rule: normalize_cases)
  case (promote r)
  then have "task_at ps r \<in> set (all_tasks ps)" by (simp flip: map_task_at)
  moreover have "is_open (task_at ps r)" using promote(3) by (simp add: is_open_def)
  ultimately have "length (in_progress ps) = 1" using assms unfolding in_progress_tasks by auto
  then show ?thesis using promote(1) by simp
next
  case (keep r rs)
  then have "rs = []" using assms by (simp add: in_progress_tasks [symmetric] split: if_splits)
  then show ?thesis using keep by (simp add: set_statuses_def)
qed simp

lemma printed_read_back:
  assumes "printable ps" and "ps \<noteq> []"
  shows "markdownToPhases (phasesToMarkdown ps) = (normalizeInProgressTask ps, [])"
proof -
  let ?ls = "phases_md True ps"
  have "?ls \<noteq> []" using assms(2) by (cases ps) (auto simp: phase_md_def)
  then have "split_lines (phasesToMarkdown ps) = ?ls @ [[]]"
    using split_lines_join markdown_lines assms by (simp add: phasesToMarkdown_def)
  moreover obtain n where "parse_lines 0 (?ls @ [[]]) [] [] = parse_lines n [[]] ps []"
    using parse_phases [OF assms(1), of 0 True "[[]]" "[]" "[]"] by auto
  ultimately show ?thesis
    by (simp add: markdownToPhases_def trim_trimmed [of "[]"] trimmed_def)
qed

text \<open>The empty list is printed as a heading, and a heading is read as a phase.\<close>

lemma empty_list_read_back:
  "markdownToPhases (phasesToMarkdown []) = ([\<lparr>phase_name = DEFAULT_INIT_PHASE, tasks = []\<rparr>], [])"
proof -
  let ?ps = "[\<lparr>phase_name = DEFAULT_INIT_PHASE, tasks = []\<rparr>]"
  have "phasesToMarkdown [] = phasesToMarkdown ?ps" by (simp add: phasesToMarkdown_def phase_md_def)
  moreover have "printable ?ps"
    by (simp add: printable_def DEFAULT_INIT_PHASE_def plain_def trimmed_def dot_def is_space_def js_def)
  moreover have "normalizeInProgressTask ?ps = ?ps" by (rule normalize_same) (simp add: all_tasks_def)
  ultimately show ?thesis using printed_read_back [of ?ps] by simp
qed

text \<open>C28: a todo list whose names and texts are non-empty trimmed lines is read back without errors from the
  markdown printed for it. What comes back is the list as normalising leaves it, so the list itself when it has one
  task in progress if any is open and none otherwise, which is how the tool leaves its list (C13). The empty list
  comes back as one phase without tasks, under the default name.\<close>

theorem markdown_round_trip:
  assumes "printable ps"
  shows "markdownToPhases (phasesToMarkdown ps) =
      (if ps = [] then [\<lparr>phase_name = DEFAULT_INIT_PHASE, tasks = []\<rparr>] else normalizeInProgressTask ps, []) \<and>
    (ps \<noteq> [] \<and> length (filter (\<lambda>t. status t = InProgress) (all_tasks ps)) = (if \<exists>t\<in>set (all_tasks ps). is_open t then 1 else 0) \<longrightarrow>
      markdownToPhases (phasesToMarkdown ps) = (ps, []))"
  using printed_read_back [OF assms] empty_list_read_back normalize_same [of ps] by auto

theorem markdown_round_trip_witness:
  "markdownToPhases (phasesToMarkdown sample_phases) = (sample_phases, [])"
proof -
  have one: "length (filter (\<lambda>t. status t = InProgress) (all_tasks sample_phases)) =
      (if \<exists>t\<in>set (all_tasks sample_phases). is_open t then 1 else 0)"
    by (simp add: sample_phases_def all_tasks_def is_open_def)
  have "printable sample_phases"
    by (simp add: printable_def sample_phases_def plain_def trimmed_def dot_def is_space_def js_def)
  moreover have "sample_phases \<noteq> []" by (simp add: sample_phases_def)
  ultimately show ?thesis using markdown_round_trip one by blast
qed

end
