(* ===== verification/LoopGuard.thy ===== *)
theory LoopGuard
  imports Json JsText "HOL-Library.List_Lexorder"
begin

text \<open>
  The loop guard of \<open>coding-agent/src/core/extensions/builtin/loop-guard\<close>: the window of tool calls
  (\<open>tracker.ts\<close>), the bigram similarity (\<open>similarity.ts\<close>, with exact rationals for its doubles), the
  three detectors and the notice gate (\<open>detectors.ts\<close>), and the extension's handlers (\<open>index.ts\<close>).
  Of the JavaScript library, the decimal text of a number and \<open>JSON.parse\<close> are parameters.
\<close>

section \<open>Policy\<close>

definition TRACK_WINDOW :: nat where "TRACK_WINDOW = 64"
definition IDENTICAL_RUN_THRESHOLD :: nat where "IDENTICAL_RUN_THRESHOLD = 3"
definition SIMILAR_RUN_THRESHOLD :: nat where "SIMILAR_RUN_THRESHOLD = 5"
definition SIMILARITY_THRESHOLD :: rat where "SIMILARITY_THRESHOLD = 85 / 100"
definition CYCLE_MIN_PERIOD :: nat where "CYCLE_MIN_PERIOD = 2"
definition CYCLE_MAX_PERIOD :: nat where "CYCLE_MAX_PERIOD = 6"
definition CYCLE_REPETITION_THRESHOLD :: nat where "CYCLE_REPETITION_THRESHOLD = 3"
definition ESCALATION_FACTOR :: nat where "ESCALATION_FACTOR = 2"

section \<open>The tracker\<close>

record ToolCallRecord =
  toolName :: jstr
  argsJson :: jstr
  signature :: jstr

text \<open>\<open>JSON.stringify\<close> of a string.\<close>

definition hex_digit :: "nat \<Rightarrow> nat" where
  "hex_digit n = (if n < 10 then 48 + n else 87 + n)"

definition unicode_escape :: "nat \<Rightarrow> jstr" where
  "unicode_escape c = [92, 117, hex_digit (c div 4096 mod 16), hex_digit (c div 256 mod 16),
     hex_digit (c div 16 mod 16), hex_digit (c mod 16)]"

definition is_surrogate :: "nat \<Rightarrow> bool" where
  "is_surrogate c \<longleftrightarrow> 0xD800 \<le> c \<and> c \<le> 0xDFFF"

definition surrogate_pair :: "nat \<Rightarrow> nat \<Rightarrow> bool" where
  "surrogate_pair u v \<longleftrightarrow> 0xD800 \<le> u \<and> u \<le> 0xDBFF \<and> 0xDC00 \<le> v \<and> v \<le> 0xDFFF"

definition escape_unit :: "nat \<Rightarrow> jstr" where
  "escape_unit c =
     (if c = 34 then [92, 34] else if c = 92 then [92, 92]
      else if c = 8 then [92, 98] else if c = 12 then [92, 102]
      else if c = 10 then [92, 110] else if c = 13 then [92, 114] else if c = 9 then [92, 116]
      else if c < 32 \<or> is_surrogate c then unicode_escape c else [c])"

fun escape_units :: "jstr \<Rightarrow> jstr" where
  "escape_units [] = []"
| "escape_units [c] = escape_unit c"
| "escape_units (c # d # s) =
     (if surrogate_pair c d then c # d # escape_units s else escape_unit c @ escape_units (d # s))"

fun stableStringify :: "(rat \<Rightarrow> jstr) \<Rightarrow> json \<Rightarrow> jstr" where
  "stableStringify num JUndefined = js ''null''"
| "stableStringify num JNull = js ''null''"
| "stableStringify num (JBool b) = (if b then js ''true'' else js ''false'')"
| "stableStringify num (JNum n) = num n"
| "stableStringify num (JStr s) = quoted (escape_units s)"
| "stableStringify num (JArr xs) = js ''['' @ join (js '','') (map (stableStringify num) xs) @ js '']''"
| "stableStringify num (JObj props) =
     (let texts = map (\<lambda>(k, v). (k, stableStringify num v)) props;
          keys = sort (map fst props);
          parts = concat (map (\<lambda>k. if get props k = JUndefined then []
                    else [quoted (escape_units k) @ js '':'' @ the (map_of texts k)]) keys)
      in js ''{'' @ join (js '','') parts @ js ''}'')"

definition canonicalizeArgs :: "(rat \<Rightarrow> jstr) \<Rightarrow> json \<Rightarrow> jstr" where
  "canonicalizeArgs num args =
     stableStringify num (if args = JUndefined \<or> args = JNull then JObj [] else args)"

definition make_record :: "(rat \<Rightarrow> jstr) \<Rightarrow> jstr \<Rightarrow> json \<Rightarrow> ToolCallRecord" where
  "make_record num tool args =
     \<lparr>toolName = tool, argsJson = canonicalizeArgs num args,
      signature = tool @ [0] @ canonicalizeArgs num args\<rparr>"

definition record_call :: "ToolCallRecord \<Rightarrow> ToolCallRecord list \<Rightarrow> ToolCallRecord list" where
  "record_call r calls =
     (let calls = calls @ [r]
      in if length calls > TRACK_WINDOW then drop (length calls - TRACK_WINDOW) calls else calls)"

section \<open>Similarity\<close>

type_synonym BigramCounts = "(jstr \<times> nat) list"

fun bump :: "jstr \<Rightarrow> BigramCounts \<Rightarrow> BigramCounts" where
  "bump g [] = [(g, 1)]"
| "bump g ((h, n) # m) = (if h = g then (h, n + 1) # m else (h, n) # bump g m)"

definition bigramCounts :: "jstr \<Rightarrow> BigramCounts" where
  "bigramCounts text = fold (\<lambda>i m. bump (slice text i (i + 2)) m) [0..<length text - 1] []"

definition diceSimilarity :: "BigramCounts \<Rightarrow> BigramCounts \<Rightarrow> rat" where
  "diceSimilarity a b =
     (let totalA = sum_list (map snd a); totalB = sum_list (map snd b)
      in if totalA = 0 \<and> totalB = 0 then 1
         else if totalA = 0 \<or> totalB = 0 then 0
         else let (small, large) = (if length a \<le> length b then (a, b) else (b, a));
                  intersection = sum_list (map (\<lambda>(g, n).
                    case map_of large g of None \<Rightarrow> 0 | Some other \<Rightarrow> min n other) small)
              in of_nat (2 * intersection) / of_nat (totalA + totalB))"

definition meanAdjacentSimilarity :: "jstr list \<Rightarrow> rat" where
  "meanAdjacentSimilarity args =
     (if length args < 2 then 1
      else let grams = map bigramCounts args
           in sum_list (map (\<lambda>i. diceSimilarity (grams ! i) (grams ! (i + 1))) [0..<length grams - 1])
                / of_nat (length grams - 1))"

section \<open>Detectors\<close>

datatype LoopGuardKind = Identical | Similar | Cycle

datatype LoopGuardDetection =
    DetectIdentical jstr nat jstr              \<comment> \<open>tool, count, fingerprint\<close>
  | DetectSimilar jstr nat rat jstr            \<comment> \<open>tool, count, similarity, fingerprint\<close>
  | DetectCycle nat nat "jstr list" jstr       \<comment> \<open>period, count, tools, fingerprint\<close>

fun kind_of :: "LoopGuardDetection \<Rightarrow> LoopGuardKind" where
  "kind_of (DetectIdentical t n f) = Identical"
| "kind_of (DetectSimilar t n s f) = Similar"
| "kind_of (DetectCycle p n ts f) = Cycle"

fun count_of :: "LoopGuardDetection \<Rightarrow> nat" where
  "count_of (DetectIdentical t n f) = n"
| "count_of (DetectSimilar t n s f) = n"
| "count_of (DetectCycle p n ts f) = n"

fun fingerprint_of :: "LoopGuardDetection \<Rightarrow> jstr" where
  "fingerprint_of (DetectIdentical t n f) = f"
| "fingerprint_of (DetectSimilar t n s f) = f"
| "fingerprint_of (DetectCycle p n ts f) = f"

definition TARGET_FIELDS :: "jstr \<Rightarrow> (jstr list) option" where
  "TARGET_FIELDS = map_of
     [(js ''read'', [js ''path'']),
      (js ''bash_output'', [js ''bash_id'']),
      (js ''task_output'', [js ''task_id'', js ''name'']),
      (js ''task_update'', [js ''task_id'']),
      (js ''task_send'', [js ''to'']),
      (js ''lsp_diagnostics'', [js ''filePath''])]"

fun first_target :: "(jstr \<times> json) list \<Rightarrow> jstr list \<Rightarrow> jstr option" where
  "first_target args [] = None"
| "first_target args (f # fs) =
     (case get args f of
        JStr s \<Rightarrow> if length s > 0 then Some s else first_target args fs
      | _ \<Rightarrow> first_target args fs)"

definition targetIdentity :: "(jstr \<Rightarrow> json option) \<Rightarrow> ToolCallRecord \<Rightarrow> jstr option" where
  "targetIdentity parse r =
     (case TARGET_FIELDS (toolName r) of None \<Rightarrow> None
      | Some fs \<Rightarrow>
        (case parse (argsJson r) of Some (JObj args) \<Rightarrow> first_target args fs | _ \<Rightarrow> None))"

definition hasAllDistinctTargets :: "(jstr \<Rightarrow> json option) \<Rightarrow> ToolCallRecord list \<Rightarrow> bool" where
  "hasAllDistinctTargets parse rs =
     (case traverse (targetIdentity parse) rs of None \<Rightarrow> False | Some ids \<Rightarrow> distinct ids)"

text \<open>The backward loops of the two run detectors.\<close>

definition run_length :: "(ToolCallRecord \<Rightarrow> bool) \<Rightarrow> ToolCallRecord list \<Rightarrow> nat" where
  "run_length P rs = 1 + length (takeWhile P (tl (rev rs)))"

definition detectIdenticalRun :: "ToolCallRecord list \<Rightarrow> LoopGuardDetection option" where
  "detectIdenticalRun rs =
     (if rs = [] then None
      else let r = last rs; run = run_length (\<lambda>x. signature x = signature r) rs
           in if run < IDENTICAL_RUN_THRESHOLD then None
              else Some (DetectIdentical (toolName r) run (signature r)))"

definition detectSimilarRun :: "(jstr \<Rightarrow> json option) \<Rightarrow> ToolCallRecord list \<Rightarrow> LoopGuardDetection option" where
  "detectSimilarRun parse rs =
     (if rs = [] then None
      else let r = last rs; run = run_length (\<lambda>x. toolName x = toolName r) rs
           in if run < SIMILAR_RUN_THRESHOLD then None
              else let runRecords = drop (length rs - run) rs; args = map argsJson runRecords
                in if card (set args) = 1 then None
                   else if hasAllDistinctTargets parse runRecords then None
                   else let similarity = meanAdjacentSimilarity args
                     in if similarity < SIMILARITY_THRESHOLD then None
                        else Some (DetectSimilar (toolName r) run similarity (toolName r)))"

definition block_matches :: "ToolCallRecord list \<Rightarrow> nat \<Rightarrow> nat \<Rightarrow> bool" where
  "block_matches rs period repetitions \<longleftrightarrow>
     list_all (\<lambda>offset. signature (rs ! (length rs - (repetitions + 1) * period + offset)) =
                        signature (rs ! (length rs - period + offset))) [0..<period]"

function count_repetitions :: "ToolCallRecord list \<Rightarrow> nat \<Rightarrow> nat \<Rightarrow> nat" where
  "count_repetitions rs period repetitions =
     (if period > 0 \<and> repetitions * period + period \<le> length rs
      then (if block_matches rs period repetitions
            then count_repetitions rs period (repetitions + 1) else repetitions)
      else repetitions)"
  by pat_completeness auto
termination
  by (relation "measure (\<lambda>(rs, period, n). length rs - n * period)") auto

declare count_repetitions.simps [simp del]

definition cycle_at :: "ToolCallRecord list \<Rightarrow> nat \<Rightarrow> LoopGuardDetection option" where
  "cycle_at rs period =
     (if length rs < period * CYCLE_REPETITION_THRESHOLD then None
      else let cycle = drop (length rs - period) rs
        in if card (set (map signature cycle)) < 2 then None
           else let repetitions = count_repetitions rs period 1
             in if repetitions < CYCLE_REPETITION_THRESHOLD then None
                else Some (DetectCycle period repetitions (map toolName cycle)
                             (join [1] (map signature cycle))))"

fun first_some :: "'a option list \<Rightarrow> 'a option" where
  "first_some [] = None"
| "first_some (None # xs) = first_some xs"
| "first_some (Some x # xs) = Some x"

definition detectCycle :: "ToolCallRecord list \<Rightarrow> LoopGuardDetection option" where
  "detectCycle rs = first_some (map (cycle_at rs) [CYCLE_MIN_PERIOD..<Suc CYCLE_MAX_PERIOD])"

section \<open>The notice gate\<close>

type_synonym NoticeGate = "LoopGuardKind \<rightharpoonup> jstr \<times> nat"

definition admit :: "LoopGuardDetection \<Rightarrow> NoticeGate \<Rightarrow> NoticeGate \<times> bool" where
  "admit d gate =
     (case gate (kind_of d) of
        None \<Rightarrow> (gate(kind_of d \<mapsto> (fingerprint_of d, count_of d)), True)
      | Some (fingerprint, lastNotified) \<Rightarrow>
          if fingerprint \<noteq> fingerprint_of d
          then (gate(kind_of d \<mapsto> (fingerprint_of d, count_of d)), True)
          else if count_of d \<ge> lastNotified * ESCALATION_FACTOR
          then (gate(kind_of d \<mapsto> (fingerprint, count_of d)), True)
          else (gate, False))"

definition prune :: "(LoopGuardKind \<rightharpoonup> jstr) \<Rightarrow> NoticeGate \<Rightarrow> NoticeGate" where
  "prune active gate =
     (\<lambda>k. case gate k of None \<Rightarrow> None
          | Some (fingerprint, n) \<Rightarrow> if active k \<noteq> Some fingerprint then None else Some (fingerprint, n))"

fun active_of :: "LoopGuardDetection option list \<Rightarrow> (LoopGuardKind \<rightharpoonup> jstr)" where
  "active_of [] = Map.empty"
| "active_of (None # ds) = active_of ds"
| "active_of (Some d # ds) = (\<lambda>k. case active_of ds k of None \<Rightarrow>
      (if k = kind_of d then Some (fingerprint_of d) else None) | Some f \<Rightarrow> Some f)"

fun first_admitted :: "LoopGuardDetection option list \<Rightarrow> NoticeGate \<Rightarrow> NoticeGate \<times> LoopGuardDetection option" where
  "first_admitted [] gate = (gate, None)"
| "first_admitted (None # ds) gate = first_admitted ds gate"
| "first_admitted (Some d # ds) gate =
     (case admit d gate of (gate, True) \<Rightarrow> (gate, Some d) | (gate, False) \<Rightarrow> first_admitted ds gate)"

definition detectLoop ::
  "(jstr \<Rightarrow> json option) \<Rightarrow> ToolCallRecord list \<Rightarrow> NoticeGate \<Rightarrow> NoticeGate \<times> LoopGuardDetection option" where
  "detectLoop parse rs gate =
     (let detections = [detectIdenticalRun rs, detectCycle rs, detectSimilarRun parse rs]
      in first_admitted detections (prune (active_of detections) gate))"

section \<open>The extension\<close>

record loop_guard =
  tracked :: "ToolCallRecord list"
  notices :: NoticeGate

definition reset_guard :: loop_guard where
  "reset_guard = \<lparr>tracked = [], notices = Map.empty\<rparr>"

datatype guard_event = SessionStart | Input bool \<comment> \<open>from an extension?\<close> | ToolCall ToolCallRecord

fun handle_event ::
  "(jstr \<Rightarrow> json option) \<Rightarrow> guard_event \<Rightarrow> loop_guard \<Rightarrow> loop_guard \<times> LoopGuardDetection option" where
  "handle_event parse SessionStart g = (reset_guard, None)"
| "handle_event parse (Input fromExtension) g = (if fromExtension then g else reset_guard, None)"
| "handle_event parse (ToolCall r) g =
     (let calls = record_call r (tracked g)
      in case detectLoop parse calls (notices g) of
           (gate, d) \<Rightarrow> (\<lparr>tracked = calls, notices = gate\<rparr>, d))"

fun run_events ::
  "(jstr \<Rightarrow> json option) \<Rightarrow> guard_event list \<Rightarrow> loop_guard \<Rightarrow> loop_guard \<times> LoopGuardDetection option list" where
  "run_events parse [] g = (g, [])"
| "run_events parse (e # es) g =
     (case handle_event parse e g of (g, d) \<Rightarrow>
        (case run_events parse es g of (g, ds) \<Rightarrow> (g, d # ds)))"

end
