(* ===== verification/LoopGuardProps.thy ===== *)
theory LoopGuardProps
  imports LoopGuard
begin

text \<open>
  What a loop-guard notice means, when it is given, and how often: every detection is true of the
  tracked calls, the window is bounded, and a call repeated for ever is noticed at counts 3, 6,
  12, 24 and 48 only.
\<close>

section \<open>Runs\<close>

lemma last_as_rev: "rs \<noteq> [] \<Longrightarrow> rev rs = last rs # tl (rev rs)"
  by (cases rs rule: rev_cases) auto

lemma run_length_facts:
  assumes "rs \<noteq> []" and "P (last rs)"
  shows "run_length P rs \<le> length rs"
    and "list_all P (drop (length rs - run_length P rs) rs)"
proof -
  let ?k = "length (takeWhile P (tl (rev rs)))"
  have "?k \<le> length (tl (rev rs))" by (rule length_takeWhile_le)
  then show "run_length P rs \<le> length rs"
    using assms(1) by (cases rs) (simp_all add: run_length_def)
  have "take (run_length P rs) (rev rs) = last rs # takeWhile P (tl (rev rs))"
    by (subst last_as_rev [OF assms(1)]) (simp add: run_length_def takeWhile_eq_take [symmetric])
  then have "list_all P (take (run_length P rs) (rev rs))"
    using assms(2) set_takeWhileD by (fastforce simp: list_all_iff)
  then show "list_all P (drop (length rs - run_length P rs) rs)"
    by (simp add: take_rev)
qed

lemma identical_sound:
  assumes "detectIdenticalRun rs = Some d"
  obtains t n f where "d = DetectIdentical t n f" "3 \<le> n" "n \<le> length rs"
    "list_all (\<lambda>r. signature r = f) (drop (length rs - n) rs)"
  using assms run_length_facts [of rs "\<lambda>x. signature x = signature (last rs)"]
  by (auto simp: detectIdenticalRun_def IDENTICAL_RUN_THRESHOLD_def Let_def split: if_splits)

lemma similar_sound:
  assumes "detectSimilarRun parse rs = Some d"
  obtains t n s f where "d = DetectSimilar t n s f" "5 \<le> n" "n \<le> length rs" "85 / 100 \<le> s"
    "list_all (\<lambda>r. toolName r = t) (drop (length rs - n) rs)"
    "card (argsJson ` set (drop (length rs - n) rs)) \<noteq> 1"
    "s = meanAdjacentSimilarity (map argsJson (drop (length rs - n) rs))"
  using assms run_length_facts [of rs "\<lambda>x. toolName x = toolName (last rs)"]
  by (auto simp: detectSimilarRun_def SIMILAR_RUN_THRESHOLD_def SIMILARITY_THRESHOLD_def Let_def
      split: if_splits)

section \<open>Cycles\<close>

lemma count_repetitions_facts:
  assumes "n * period \<le> length rs"
  shows "n \<le> count_repetitions rs period n \<and> count_repetitions rs period n * period \<le> length rs \<and>
    (\<forall>j. n \<le> j \<and> j < count_repetitions rs period n \<longrightarrow> block_matches rs period j)"
  using assms
proof (induction rs period n rule: count_repetitions.induct)
  case (1 rs period n)
  show ?case
  proof (cases "period > 0 \<and> n * period + period \<le> length rs \<and> block_matches rs period n")
    case True
    then have eq: "count_repetitions rs period n = count_repetitions rs period (n + 1)"
      by (simp add: count_repetitions.simps [of rs period n])
    have IH: "n + 1 \<le> count_repetitions rs period (n + 1) \<and>
        count_repetitions rs period (n + 1) * period \<le> length rs \<and>
        (\<forall>j. n + 1 \<le> j \<and> j < count_repetitions rs period (n + 1) \<longrightarrow> block_matches rs period j)"
      using "1.IH" True by (simp add: add.commute)
    have "block_matches rs period j" if "n \<le> j" "j < count_repetitions rs period (n + 1)" for j
      using IH True that by (cases "j = n") auto
    then show ?thesis using IH unfolding eq by auto
  next
    case False
    then have "count_repetitions rs period n = n"
      by (subst count_repetitions.simps) auto
    then show ?thesis using "1.prems" by auto
  qed
qed

lemma block_position:
  fixes i p L n :: nat
  assumes "i + p < L" "L - n * p \<le> i" "n * p \<le> L" "0 < p"
  obtains j k where "Suc j < n" "k < p" "i = L - (Suc j + 1) * p + k" "i + p = L - (j + 1) * p + k"
proof -
  let ?d = "L - 1 - i"
  have d: "?d = ?d div p * p + ?d mod p" "?d mod p < p" using assms(4) by simp_all
  have "?d < n * p" using assms by linarith
  then have less: "?d div p < n" by (simp add: less_mult_imp_div_less)
  have "p \<le> ?d" using assms(1) by linarith
  then have "1 \<le> ?d div p" using assms(4) by (simp add: div_greater_zero_iff Suc_le_eq)
  then obtain j where j: "?d div p = Suc j" by (cases "?d div p") auto
  have "Suc (Suc j) * p \<le> n * p" using less j by (intro mult_right_mono) simp_all
  then have "j * p + p + p \<le> L" using assms(3) by simp
  moreover have "?d = j * p + p + ?d mod p" using d(1) unfolding j by simp
  ultimately show thesis
    using d(2) assms(1) less j by (intro that [of j "p - 1 - ?d mod p"]) simp_all
qed

lemma cycle_at_sound:
  assumes "cycle_at rs p = Some d" and "0 < p"
  obtains n ts f where "d = DetectCycle p n ts f" "3 \<le> n" "n * p \<le> length rs"
    "2 \<le> card (set (map signature (drop (length rs - p) rs)))"
    "\<And>i. length rs - n * p \<le> i \<Longrightarrow> i + p < length rs \<Longrightarrow> signature (rs ! i) = signature (rs ! (i + p))"
proof -
  let ?n = "count_repetitions rs p 1"
  let ?L = "length rs"
  have long: "p \<le> ?L" using assms by (auto simp: cycle_at_def CYCLE_REPETITION_THRESHOLD_def split: if_splits)
  note facts = count_repetitions_facts [of 1 p rs, simplified, OF long]
  have same: "signature (rs ! (?L - (j + 1) * p + k)) = signature (rs ! (?L - p + k))"
    if "j < ?n" "k < p" for j k
  proof (cases "j = 0")
    case False
    then have "block_matches rs p j" using facts that by simp
    then show ?thesis using that by (simp add: block_matches_def list_all_iff)
  qed simp
  have periodic: "signature (rs ! i) = signature (rs ! (i + p))"
    if i: "?L - ?n * p \<le> i" "i + p < ?L" for i
  proof -
    obtain j k where "Suc j < ?n" "k < p" "i = ?L - (Suc j + 1) * p + k" "i + p = ?L - (j + 1) * p + k"
      using i facts assms(2) by (elim block_position [rotated 4]) auto
    then show ?thesis
      using same [of "Suc j" k] same [of j k] by simp
  qed
  show thesis
    by (rule that [of ?n]) (use assms facts periodic in \<open>auto simp: cycle_at_def CYCLE_REPETITION_THRESHOLD_def Let_def split: if_splits\<close>)
qed


section \<open>Every detection is true of the tracked calls\<close>

fun detection_holds :: "ToolCallRecord list \<Rightarrow> LoopGuardDetection \<Rightarrow> bool" where
  "detection_holds rs (DetectIdentical t n f) \<longleftrightarrow>
     3 \<le> n \<and> n \<le> length rs \<and> list_all (\<lambda>r. signature r = f) (drop (length rs - n) rs)"
| "detection_holds rs (DetectSimilar t n s f) \<longleftrightarrow>
     5 \<le> n \<and> n \<le> length rs \<and> list_all (\<lambda>r. toolName r = t) (drop (length rs - n) rs) \<and>
     \<not> list_all (\<lambda>r. argsJson r = argsJson (last rs)) (drop (length rs - n) rs) \<and>
     85 / 100 \<le> s \<and> s = meanAdjacentSimilarity (map argsJson (drop (length rs - n) rs))"
| "detection_holds rs (DetectCycle p n ts f) \<longleftrightarrow>
     2 \<le> p \<and> p \<le> 6 \<and> 3 \<le> n \<and> n * p \<le> length rs \<and>
     (\<forall>i \<in> {length rs - n * p ..< length rs - p}. signature (rs ! i) = signature (rs ! (i + p))) \<and>
     2 \<le> card (set (map signature (drop (length rs - p) rs)))"

lemma all_equal_card:
  assumes "list_all (\<lambda>x. f x = c) xs" and "xs \<noteq> []"
  shows "card (f ` set xs) = 1"
proof -
  have "f ` set xs = {c}" using assms by (cases xs) (auto simp: list_all_iff)
  then show ?thesis by simp
qed

lemma identical_holds: "detectIdenticalRun rs = Some d \<Longrightarrow> detection_holds rs d"
  by (erule identical_sound) simp

lemma similar_holds: "detectSimilarRun parse rs = Some d \<Longrightarrow> detection_holds rs d"
  by (erule similar_sound)
    (auto dest!: all_equal_card [where f = argsJson])

lemma first_some_in: "first_some xs = Some x \<Longrightarrow> Some x \<in> set xs"
  by (induction xs rule: first_some.induct) auto

lemma cycle_holds: "detectCycle rs = Some d \<Longrightarrow> detection_holds rs d"
  unfolding detectCycle_def CYCLE_MIN_PERIOD_def CYCLE_MAX_PERIOD_def
  by (drule first_some_in) (auto elim!: cycle_at_sound [OF sym])

lemma first_admitted_in: "first_admitted ds gate = (gate', Some d) \<Longrightarrow> Some d \<in> set ds"
  by (induction ds gate rule: first_admitted.induct) (auto split: prod.splits bool.splits)

lemma detectLoop_holds: "detectLoop parse rs gate = (gate', Some d) \<Longrightarrow> detection_holds rs d"
  unfolding detectLoop_def Let_def
  by (drule first_admitted_in)
    (auto dest: identical_holds [OF sym] similar_holds [OF sym] cycle_holds [OF sym])


section \<open>What the extension tracks\<close>

text \<open>The calls since the last reset, which a user's input or a new session causes.\<close>

fun calls_since :: "ToolCallRecord list \<Rightarrow> guard_event list \<Rightarrow> ToolCallRecord list" where
  "calls_since acc [] = acc"
| "calls_since acc (ToolCall r # es) = calls_since (acc @ [r]) es"
| "calls_since acc (Input True # es) = calls_since acc es"
| "calls_since acc (Input False # es) = calls_since [] es"
| "calls_since acc (SessionStart # es) = calls_since [] es"

definition recent :: "nat \<Rightarrow> 'a list \<Rightarrow> 'a list" where
  "recent n xs = drop (length xs - n) xs"

lemma record_call_recent: "record_call r (recent 64 calls) = recent 64 (calls @ [r])"
proof (cases "length calls < 64")
  case False
  then have "drop (length calls - 63) calls = drop 1 (drop (length calls - 64) calls)"
    using False by (simp add: Suc_diff_Suc [symmetric] numeral_eq_Suc)
  then show ?thesis using False
    by (simp add: record_call_def recent_def TRACK_WINDOW_def Let_def)
qed (simp add: record_call_def recent_def TRACK_WINDOW_def Let_def)

lemma tracked_recent:
  "tracked g = recent 64 acc \<Longrightarrow>
   tracked (fst (run_events parse es g)) = recent 64 (calls_since acc es)"
proof (induction acc es arbitrary: g rule: calls_since.induct)
  case (2 acc r es)
  let ?g = "fst (handle_event parse (ToolCall r) g)"
  have "tracked ?g = recent 64 (acc @ [r])"
    using "2.prems" by (simp add: Let_def record_call_recent split: prod.splits)
  then show ?case using "2.IH" [of ?g] by (simp add: split_beta del: handle_event.simps)
qed (simp_all add: split_beta reset_guard_def recent_def)

text \<open>C29: whatever happened before, a notice given at a tool call is true of the (at most 64) last
  calls since the last reset: an identical run of at least three, a similar run of at least five
  calls of one tool with a mean similarity of at least 0.85 that are not all the same, or at least
  three repetitions of a cycle of two to six calls.\<close>

theorem notices_are_true:
  assumes "handle_event parse (ToolCall r) (fst (run_events parse es reset_guard)) = (g, Some d)"
  shows "tracked g = recent 64 (calls_since [] es @ [r]) \<and> detection_holds (tracked g) d"
proof -
  have "tracked (fst (run_events parse es reset_guard)) = recent 64 (calls_since [] es)"
    by (rule tracked_recent) (simp add: reset_guard_def recent_def)
  then show ?thesis using assms
    by (auto simp: Let_def record_call_recent split: prod.splits dest: detectLoop_holds)
qed

section \<open>A call repeated for ever\<close>

lemma tl_rev_replicate: "tl (rev (replicate m r)) = replicate (m - 1) r"
  by (simp only: rev_replicate) (cases m; simp)

lemma run_length_replicate: "0 < m \<Longrightarrow> P r \<Longrightarrow> run_length P (replicate m r) = m"
  by (simp add: run_length_def tl_rev_replicate)

lemma detect_replicate:
  "detectIdenticalRun (replicate m r) =
     (if m < 3 then None else Some (DetectIdentical (toolName r) m (signature r)))"
  "detectCycle (replicate m r) = None"
  "detectSimilarRun parse (replicate m r) = None"
proof -
  show "detectIdenticalRun (replicate m r) =
     (if m < 3 then None else Some (DetectIdentical (toolName r) m (signature r)))"
    by (simp add: detectIdenticalRun_def run_length_replicate IDENTICAL_RUN_THRESHOLD_def last_replicate)
  have "cycle_at (replicate m r) p = None" for p
    by (simp add: cycle_at_def Let_def set_replicate_conv_if)
  then show "detectCycle (replicate m r) = None"
    by (simp add: detectCycle_def CYCLE_MIN_PERIOD_def CYCLE_MAX_PERIOD_def upt_rec)
  show "detectSimilarRun parse (replicate m r) = None"
    by (simp add: detectSimilarRun_def run_length_replicate SIMILAR_RUN_THRESHOLD_def last_replicate)
qed

definition last_notice :: "nat \<Rightarrow> nat" where
  "last_notice m = (if m < 6 then 3 else if m < 12 then 6 else if m < 24 then 12
     else if m < 48 then 24 else 48)"

definition repeated_state :: "ToolCallRecord \<Rightarrow> nat \<Rightarrow> loop_guard" where
  "repeated_state r n = \<lparr>tracked = replicate (min n 64) r,
     notices = (if n < 3 then Map.empty else [Identical \<mapsto> (signature r, last_notice n)])\<rparr>"

definition noticed_at :: "ToolCallRecord \<Rightarrow> nat \<Rightarrow> LoopGuardDetection option" where
  "noticed_at r n =
     (if n \<in> {3, 6, 12, 24, 48} then Some (DetectIdentical (toolName r) n (signature r)) else None)"

lemma recent_replicate: "recent 64 (replicate n r) = replicate (min n 64) r"
  by (simp add: recent_def min_def)

lemma record_replicate: "record_call r (replicate (min n 64) r) = replicate (min (Suc n) 64) r"
  using record_call_recent [of r "replicate n r"]
  by (simp only: recent_replicate replicate_append_same replicate_Suc [symmetric])

lemma run_events_append:
  "run_events parse (es @ [e]) g =
     (case run_events parse es g of (g, ds) \<Rightarrow> (case handle_event parse e g of (g, d) \<Rightarrow> (g, ds @ [d])))"
  by (induction es arbitrary: g) (simp_all add: split_beta del: handle_event.simps)

lemma repeated_step:
  "handle_event parse (ToolCall r) (repeated_state r n) = (repeated_state r (Suc n), noticed_at r (Suc n))"
proof -
  have "detectLoop parse (replicate (min (Suc n) 64) r) (notices (repeated_state r n)) =
      (notices (repeated_state r (Suc n)), noticed_at r (Suc n))"
    by (auto simp: repeated_state_def Let_def detectLoop_def detect_replicate min_def
      noticed_at_def prune_def admit_def ESCALATION_FACTOR_def last_notice_def fun_eq_iff)
  then show ?thesis
    by (simp add: record_replicate Let_def) (simp add: repeated_state_def record_replicate)
qed

lemma repeated_run:
  "run_events parse (replicate n (ToolCall r)) reset_guard =
     (repeated_state r n, map (\<lambda>i. noticed_at r (Suc i)) [0..<n])"
proof (induction n)
  case (Suc n)
  have "replicate (Suc n) (ToolCall r) = replicate n (ToolCall r) @ [ToolCall r]"
    by (simp add: replicate_append_same)
  then show ?case using Suc.IH
    by (simp add: run_events_append repeated_step del: handle_event.simps replicate_Suc)
qed (simp add: reset_guard_def repeated_state_def)

text \<open>A call repeated without end is noticed at its third, 6th, 12th, 24th and 48th
  occurrence and never again, however long the run.\<close>

theorem repeated_call_notices:
  "snd (run_events parse (replicate n (ToolCall r)) reset_guard) =
     map (\<lambda>i. if Suc i \<in> {3, 6, 12, 24, 48}
               then Some (DetectIdentical (toolName r) (Suc i) (signature r)) else None) [0..<n]"
  by (simp add: repeated_run noticed_at_def)

text \<open>Three calls of one tool with the same arguments.\<close>

definition list_call :: ToolCallRecord where
  "list_call = make_record (\<lambda>n. []) (js ''ls'') (JObj [(js ''path'', JStr (js ''a''))])"

theorem notices_are_true_witness:
  "recent 64 (calls_since [] (replicate 2 (ToolCall list_call)) @ [list_call]) = replicate 3 list_call \<and>
   detection_holds (replicate 3 list_call) (DetectIdentical (js ''ls'') 3 (signature list_call))"
proof -
  have step: "handle_event (\<lambda>s. None) (ToolCall list_call)
      (fst (run_events (\<lambda>s. None) (replicate 2 (ToolCall list_call)) reset_guard)) =
      (repeated_state list_call 3, Some (DetectIdentical (js ''ls'') 3 (signature list_call)))"
    by (simp only: repeated_run fst_conv repeated_step)
      (simp add: noticed_at_def list_call_def make_record_def)
  show ?thesis
    using notices_are_true [OF step] by (simp add: repeated_state_def numeral_eq_Suc)
qed


section \<open>The gate and rotating cycles\<close>

text \<open>The fingerprint of a cycle is the text of its last period, which turns by one call with
  every call: the gate takes each rotation for a new pattern.\<close>

lemma cycle_of_two:
  assumes "signature a \<noteq> signature b"
  shows "detectCycle [a, b, a, b, a, b] =
           Some (DetectCycle 2 3 [toolName a, toolName b] (signature a @ [1] @ signature b))"
    and "detectCycle [a, b, a, b, a, b, a] =
           Some (DetectCycle 2 3 [toolName b, toolName a] (signature b @ [1] @ signature a))"
    and "detectCycle [a, b, a, b, a, b, a, b] =
           Some (DetectCycle 2 4 [toolName a, toolName b] (signature a @ [1] @ signature b))"
  using assms
  by (simp_all add: detectCycle_def CYCLE_MIN_PERIOD_def CYCLE_MAX_PERIOD_def upt_rec cycle_at_def
      CYCLE_REPETITION_THRESHOLD_def count_repetitions.simps block_matches_def eval_nat_numeral Let_def)


lemma no_cycle_of_two:
  "length rs < 6 \<Longrightarrow> detectCycle rs = None"
  by (simp add: detectCycle_def CYCLE_MIN_PERIOD_def CYCLE_MAX_PERIOD_def upt_rec cycle_at_def
      CYCLE_REPETITION_THRESHOLD_def eval_nat_numeral)

lemma no_run:
  assumes "signature a \<noteq> signature b" and "toolName a \<noteq> toolName b"
  shows "detectIdenticalRun (rs @ [a, b]) = None" and "detectSimilarRun parse (rs @ [a, b]) = None"
  using assms by (simp_all add: detectIdenticalRun_def detectSimilarRun_def run_length_def
      IDENTICAL_RUN_THRESHOLD_def SIMILAR_RUN_THRESHOLD_def)

lemma no_run_single: "detectIdenticalRun [a] = None" "detectSimilarRun parse [a] = None"
  by (simp_all add: detectIdenticalRun_def detectSimilarRun_def run_length_def
      IDENTICAL_RUN_THRESHOLD_def SIMILAR_RUN_THRESHOLD_def)

text \<open>Two different calls in alternation are noticed as a cycle at the sixth call and then at
  every further call, although the count has not doubled: the gate does not damp cycles.\<close>

theorem alternation_noticed_every_call:
  assumes differ: "signature a \<noteq> signature b" "toolName a \<noteq> toolName b"
    and rotations: "signature a @ [1] @ signature b \<noteq> signature b @ [1] @ signature a"
  shows "snd (run_events parse (map ToolCall [a, b, a, b, a, b, a, b]) reset_guard) =
    [None, None, None, None, None,
     Some (DetectCycle 2 3 [toolName a, toolName b] (signature a @ [1] @ signature b)),
     Some (DetectCycle 2 3 [toolName b, toolName a] (signature b @ [1] @ signature a)),
     Some (DetectCycle 2 4 [toolName a, toolName b] (signature a @ [1] @ signature b))]"
proof -
  note ab = no_run [OF differ] and ba = no_run [OF differ [symmetric]]
  note runs = ab [where rs = "[]"] ba [where rs = "[a]"] ab [where rs = "[a, b]"] ba [where rs = "[a, b, a]"] ab [where rs = "[a, b, a, b]"]
    ba [where rs = "[a, b, a, b, a]"] ab [where rs = "[a, b, a, b, a, b]"]
  show ?thesis
    using runs [simplified] rotations
    by (simp add: reset_guard_def record_call_def TRACK_WINDOW_def detectLoop_def Let_def
        no_cycle_of_two no_run_single cycle_of_two [OF differ(1), simplified] prune_def admit_def)
qed


definition read_call :: ToolCallRecord where
  "read_call = make_record (\<lambda>n. []) (js ''read'') (JObj [(js ''path'', JStr (js ''a''))])"

theorem alternation_noticed_every_call_witness:
  "map (map_option count_of) (snd (run_events (\<lambda>s. None)
     (map ToolCall [list_call, read_call, list_call, read_call, list_call, read_call, list_call, read_call])
     reset_guard)) = [None, None, None, None, None, Some 3, Some 3, Some 4]"
  by (subst alternation_noticed_every_call) (simp_all add: list_call_def read_call_def make_record_def js_eval)

end
