(* ===== verification/PatchStream.thy ===== *)
theory PatchStream
  imports PatchParse
begin

text \<open>
  The parser of a patch that is still being streamed (\<open>streaming-parser.ts\<close>). A call that throws
  keeps what it changed before: every step returns the parser and the error it threw, if any.
\<close>

section \<open>State\<close>

datatype Mode = NotStarted | Started | InAdd | InDelete | InUpdate | Ended

record stream_parser =
  lineBuffer :: jstr
  mode :: Mode
  hunks :: "ParsedPatch list"

type_synonym step = "stream_parser \<times> patch_error option"

definition new_StreamingPatchParser :: stream_parser where
  "new_StreamingPatchParser = \<lparr>lineBuffer = [], mode = NotStarted, hunks = []\<rparr>"

section \<open>Headers\<close>

definition ensureUpdateHunkIsNotEmpty :: "jstr \<Rightarrow> stream_parser \<Rightarrow> patch_error option" where
  "ensureUpdateHunkIsNotEmpty line p =
     (if hunks p = [] then None
      else case last (hunks p) of
          PUpdate filePath movePath chunks \<Rightarrow>
            if chunks = [] then (if mode p = InUpdate then Some (EmptyUpdate filePath) else None)
            else let chunk = last chunks
              in if oldLines chunk = [] \<and> newLines chunk = [] \<and> changeContexts chunk = []
                 then Some (if line = END_PATCH_MARKER then HunkWithoutLines else UnexpectedLine line)
                 else None
        | _ \<Rightarrow> None)"

definition start_hunk :: "jstr \<Rightarrow> ParsedPatch \<Rightarrow> Mode \<Rightarrow> stream_parser \<Rightarrow> step" where
  "start_hunk line h m p =
     (case ensureUpdateHunkIsNotEmpty line p of
        Some e \<Rightarrow> (p, Some e)
      | None \<Rightarrow> (p\<lparr>hunks := hunks p @ [h], mode := m\<rparr>, None))"

definition startAdd :: "jstr \<Rightarrow> stream_parser \<Rightarrow> step" where
  "startAdd filePath = start_hunk (ADD_FILE_MARKER @ filePath) (PAdd filePath []) InAdd"

definition startDelete :: "jstr \<Rightarrow> stream_parser \<Rightarrow> step" where
  "startDelete filePath = start_hunk (DELETE_FILE_MARKER @ filePath) (PDelete filePath) InDelete"

definition startUpdate :: "jstr \<Rightarrow> stream_parser \<Rightarrow> step" where
  "startUpdate filePath = start_hunk (UPDATE_FILE_MARKER @ filePath) (PUpdate filePath None []) InUpdate"

text \<open>\<open>None\<close>: the line is no header.\<close>

definition handleHeader :: "jstr \<Rightarrow> stream_parser \<Rightarrow> step option" where
  "handleHeader line p =
     (if line = END_PATCH_MARKER then
        Some (case ensureUpdateHunkIsNotEmpty line p of
                Some e \<Rightarrow> (p, Some e) | None \<Rightarrow> (p\<lparr>mode := Ended\<rparr>, None))
      else if starts_with line ADD_FILE_MARKER then Some (startAdd (drop (length ADD_FILE_MARKER) line) p)
      else if starts_with line DELETE_FILE_MARKER then
        Some (startDelete (drop (length DELETE_FILE_MARKER) line) p)
      else if starts_with line UPDATE_FILE_MARKER then
        Some (startUpdate (drop (length UPDATE_FILE_MARKER) line) p)
      else None)"

section \<open>The lines of an update\<close>

definition currentUpdate :: "stream_parser \<Rightarrow> (jstr \<times> jstr option \<times> PatchChunk list) option" where
  "currentUpdate p =
     (if hunks p = [] then None
      else case last (hunks p) of PUpdate f m cs \<Rightarrow> Some (f, m, cs) | _ \<Rightarrow> None)"

definition set_update :: "stream_parser \<Rightarrow> jstr \<Rightarrow> jstr option \<Rightarrow> PatchChunk list \<Rightarrow> stream_parser" where
  "set_update p f m cs = p\<lparr>hunks := butlast (hunks p) @ [PUpdate f m cs]\<rparr>"

definition empty_chunk :: PatchChunk where
  "empty_chunk = \<lparr>changeContexts = [], oldLines = [], newLines = [], isEndOfFile = False\<rparr>"

text \<open>The chunks with the current one last.\<close>

definition current_chunks :: "PatchChunk list \<Rightarrow> PatchChunk list" where
  "current_chunks cs = (if cs = [] \<or> isEndOfFile (last cs) then cs @ [empty_chunk] else cs)"

text \<open>\<open>currentChunk()\<close> and a step on the chunk, which may throw after the chunk was made.\<close>

definition on_currentChunk ::
  "(PatchChunk \<Rightarrow> PatchChunk \<times> patch_error option) \<Rightarrow> stream_parser \<Rightarrow> step" where
  "on_currentChunk f p =
     (case currentUpdate p of
        None \<Rightarrow> (p, Some ExpectedUpdate)
      | Some (path, m, cs) \<Rightarrow>
          (let cs = current_chunks cs; (chunk, e) = f (last cs)
           in (set_update p path m (butlast cs @ [chunk]), e)))"

definition push_chunk_line :: "jstr \<Rightarrow> PatchChunk \<Rightarrow> PatchChunk \<times> patch_error option" where
  "push_chunk_line line chunk =
     (case line of
        [] \<Rightarrow> (chunk\<lparr>oldLines := oldLines chunk @ [[]], newLines := newLines chunk @ [[]]\<rparr>, None)
      | prefix # value \<Rightarrow>
          if prefix = 32 then
            (chunk\<lparr>oldLines := oldLines chunk @ [value], newLines := newLines chunk @ [value]\<rparr>, None)
          else if prefix = 45 then (chunk\<lparr>oldLines := oldLines chunk @ [value]\<rparr>, None)
          else if prefix = 43 then (chunk\<lparr>newLines := newLines chunk @ [value]\<rparr>, None)
          else (chunk, Some (UnexpectedLine line)))"

definition pushUpdateLine :: "jstr \<Rightarrow> stream_parser \<Rightarrow> step" where
  "pushUpdateLine line = on_currentChunk (push_chunk_line line)"

definition processUpdate :: "jstr \<Rightarrow> stream_parser \<Rightarrow> step" where
  "processUpdate line p =
     (let updateLine = trim_end line
      in case handleHeader updateLine p of
           Some r \<Rightarrow> r
         | None \<Rightarrow>
             (case currentUpdate p of
                None \<Rightarrow> (p, Some ExpectedUpdate)
              | Some (path, m, cs) \<Rightarrow>
                  if cs = [] \<and> (m = None \<or> m = Some []) \<and> starts_with updateLine MOVE_TO_MARKER
                  then (set_update p path (Some (drop (length MOVE_TO_MARKER) updateLine)) cs, None)
                  else if updateLine = js ''@@'' then (p, None)
                  else if starts_with updateLine (js ''@@ '') then
                    on_currentChunk (\<lambda>chunk.
                      (chunk\<lparr>changeContexts := changeContexts chunk @ [drop 3 updateLine]\<rparr>, None)) p
                  else if updateLine = EOF_MARKER then
                    on_currentChunk (\<lambda>chunk.
                      if oldLines chunk = [] \<and> newLines chunk = [] then (chunk, Some HunkWithoutLines)
                      else (chunk\<lparr>isEndOfFile := True\<rparr>, None)) p
                  else pushUpdateLine line p))"

section \<open>Lines and deltas\<close>

definition processStarted :: "jstr \<Rightarrow> stream_parser \<Rightarrow> step" where
  "processStarted line p =
     (case handleHeader line p of Some r \<Rightarrow> r | None \<Rightarrow> (p, Some (BadHeader line)))"

definition processAdd :: "jstr \<Rightarrow> stream_parser \<Rightarrow> step" where
  "processAdd line p =
     (case handleHeader (trim line) p of
        Some r \<Rightarrow> r
      | None \<Rightarrow>
          (case (if hunks p = [] then None else Some (last (hunks p))) of
             Some (PAdd path content) \<Rightarrow>
               if starts_with line (js ''+'')
               then (p\<lparr>hunks := butlast (hunks p) @ [PAdd path (content @ drop 1 line @ [LF])]\<rparr>, None)
               else (p, Some (BadHeader (trim line)))
           | _ \<Rightarrow> (p, Some (BadHeader (trim line)))))"

definition processDelete :: "jstr \<Rightarrow> stream_parser \<Rightarrow> step" where
  "processDelete line p =
     (case handleHeader line p of Some r \<Rightarrow> r | None \<Rightarrow> (p, Some (BadHeader line)))"

definition processLine :: "jstr \<Rightarrow> stream_parser \<Rightarrow> step" where
  "processLine line p =
     (case mode p of
        NotStarted \<Rightarrow>
          if trim (stripHeredoc line) = BEGIN_PATCH_MARKER then (p\<lparr>mode := Started\<rparr>, None)
          else (p, Some FirstLineNotBegin)
      | Started \<Rightarrow> processStarted (trim line) p
      | InAdd \<Rightarrow> processAdd line p
      | InDelete \<Rightarrow> processDelete (trim line) p
      | InUpdate \<Rightarrow> processUpdate line p
      | Ended \<Rightarrow> (p, None))"

fun push_units :: "jstr \<Rightarrow> stream_parser \<Rightarrow> step" where
  "push_units [] p = (p, None)"
| "push_units (c # cs) p =
     (if c = LF then
        (case processLine (lineBuffer p) (p\<lparr>lineBuffer := []\<rparr>) of
           (p, Some e) \<Rightarrow> (p, Some e)
         | (p, None) \<Rightarrow> push_units cs p)
      else push_units cs (p\<lparr>lineBuffer := lineBuffer p @ [c]\<rparr>))"

text \<open>On return the hunks of the parser are the snapshot handed out.\<close>

definition pushDelta :: "jstr \<Rightarrow> stream_parser \<Rightarrow> step" where
  "pushDelta delta p = push_units (normalizePatchText delta) p"

definition finishParsing :: "stream_parser \<Rightarrow> step" where
  "finishParsing p =
     (case (if length (lineBuffer p) > 0 then
              (let line = lineBuffer p; p = p\<lparr>lineBuffer := []\<rparr>
               in if trim line = END_PATCH_MARKER then
                    (case ensureUpdateHunkIsNotEmpty (trim line) p of
                       Some e \<Rightarrow> (p, Some e) | None \<Rightarrow> (p\<lparr>mode := Ended\<rparr>, None))
                  else processLine line p)
            else (p, None)) of
        (p, Some e) \<Rightarrow> (p, Some e)
      | (p, None) \<Rightarrow> if mode p \<noteq> Ended then (p, Some LastLineNotEnd) else (p, None))"

fun push_deltas :: "jstr list \<Rightarrow> stream_parser \<Rightarrow> step" where
  "push_deltas [] p = (p, None)"
| "push_deltas (d # ds) p =
     (case pushDelta d p of (p, Some e) \<Rightarrow> (p, Some e) | (p, None) \<Rightarrow> push_deltas ds p)"

definition stream_parse :: "jstr list \<Rightarrow> patch_error + ParsedPatch list" where
  "stream_parse deltas =
     (case push_deltas deltas new_StreamingPatchParser of
        (p, Some e) \<Rightarrow> Inl e
      | (p, None) \<Rightarrow> (case finishParsing p of (p, Some e) \<Rightarrow> Inl e | (p, None) \<Rightarrow> Inr (hunks p)))"

end
