(* ===== verification/PatchParseProps.thy ===== *)
theory PatchParseProps
  imports PatchStream
begin

text \<open>
  The patch language as abstract syntax with its concrete text, and what the two parsers make of
  that text: the strict parser reads every patch back, the streaming parser agrees with it on the
  patches it can represent, however the text is cut into deltas.
\<close>

section \<open>Patches and their text\<close>

datatype edit = Keep jstr | Del jstr | Ins jstr

datatype chunk_syntax = Chunk (contexts_of: "jstr list") (edits_of: "edit list") (eof_of: bool)

datatype hunk_syntax =
    SAdd jstr "jstr list"
  | SDelete jstr
  | SUpdate jstr "jstr option" "chunk_syntax list"

fun edit_line :: "edit \<Rightarrow> jstr" where
  "edit_line (Keep s) = 32 # s"
| "edit_line (Del s) = 45 # s"
| "edit_line (Ins s) = 43 # s"

fun old_of :: "edit list \<Rightarrow> jstr list" where
  "old_of [] = []"
| "old_of (Ins s # es) = old_of es"
| "old_of (Keep s # es) = s # old_of es"
| "old_of (Del s # es) = s # old_of es"

fun new_of :: "edit list \<Rightarrow> jstr list" where
  "new_of [] = []"
| "new_of (Del s # es) = new_of es"
| "new_of (Keep s # es) = s # new_of es"
| "new_of (Ins s # es) = s # new_of es"

definition context_lines :: "jstr list \<Rightarrow> jstr list" where
  "context_lines cs = (if cs = [] then [js ''@@''] else map (\<lambda>c. js ''@@ '' @ c) cs)"

fun chunk_text :: "chunk_syntax \<Rightarrow> jstr list" where
  "chunk_text (Chunk cs es eof) = context_lines cs @ map edit_line es @ (if eof then [EOF_MARKER] else [])"

fun hunk_text :: "hunk_syntax \<Rightarrow> jstr list" where
  "hunk_text (SAdd p ls) = (ADD_FILE_MARKER @ p) # map (\<lambda>l. 43 # l) ls"
| "hunk_text (SDelete p) = [DELETE_FILE_MARKER @ p]"
| "hunk_text (SUpdate p m cs) = (UPDATE_FILE_MARKER @ p) #
     (case m of None \<Rightarrow> [] | Some d \<Rightarrow> [MOVE_TO_MARKER @ d]) @ concat (map chunk_text cs)"

definition patch_text :: "hunk_syntax list \<Rightarrow> jstr" where
  "patch_text hs = join [LF] ([BEGIN_PATCH_MARKER] @ concat (map hunk_text hs) @ [END_PATCH_MARKER])"

fun chunk_of :: "chunk_syntax \<Rightarrow> PatchChunk" where
  "chunk_of (Chunk cs es eof) =
     \<lparr>changeContexts = cs, oldLines = old_of es, newLines = new_of es, isEndOfFile = eof\<rparr>"

fun hunk_of :: "hunk_syntax \<Rightarrow> ParsedPatch" where
  "hunk_of (SAdd p ls) = PAdd p (if ls = [] then [] else join [LF] ls @ [LF])"
| "hunk_of (SDelete p) = PDelete p"
| "hunk_of (SUpdate p m cs) = PUpdate p m (map chunk_of cs)"

fun edit_ok :: "edit \<Rightarrow> bool" where
  "edit_ok (Keep s) = one_line s"
| "edit_ok (Del s) = one_line s"
| "edit_ok (Ins s) = one_line s"

fun chunk_ok :: "chunk_syntax \<Rightarrow> bool" where
  "chunk_ok (Chunk cs es eof) \<longleftrightarrow> list_all one_line cs \<and> es \<noteq> [] \<and> list_all edit_ok es"

fun hunk_ok :: "hunk_syntax \<Rightarrow> bool" where
  "hunk_ok (SAdd p ls) \<longleftrightarrow> one_line p \<and> list_all one_line ls"
| "hunk_ok (SDelete p) \<longleftrightarrow> one_line p"
| "hunk_ok (SUpdate p m cs) \<longleftrightarrow> one_line p \<and> list_all chunk_ok cs \<and>
     (case m of None \<Rightarrow> cs \<noteq> [] | Some d \<Rightarrow> one_line d \<and> d \<noteq> [])"

section \<open>The strict parser\<close>

lemma edit_line_simps [simp]:
  "edit_line e \<noteq> EOF_MARKER" "edit_line e \<noteq> js ''@@''"
  "\<not> starts_with (edit_line e) (js ''@@'')" "\<not> starts_with (edit_line e) (js ''@@ '')"
  "\<not> starts_with (edit_line e) (js ''*** '')"
  by (cases e; simp add: js_def markers)+

lemma chunk_lines_edits:
  "chunk_lines old new n (map edit_line es @ rest) =
     chunk_lines (old @ old_of es) (new @ new_of es) (n + length es) rest"
proof (induction es arbitrary: old new n)
  case (Cons e es)
  then show ?case by (cases e) (simp_all add: js_def markers)
qed simp

text \<open>What may follow a chunk, and a hunk.\<close>

definition chunk_end :: "jstr list \<Rightarrow> bool" where
  "chunk_end ls \<longleftrightarrow> (case ls of [] \<Rightarrow> True
     | l # _ \<Rightarrow> l \<noteq> EOF_MARKER \<and> (starts_with l (js ''@@'') \<or> starts_with l (js ''*** '')))"

definition hunk_end :: "jstr list \<Rightarrow> bool" where
  "hunk_end ls \<longleftrightarrow> (case ls of [] \<Rightarrow> True | l # _ \<Rightarrow> l \<noteq> EOF_MARKER \<and> starts_with l (js ''*** ''))"

lemma hunk_chunk_end: "hunk_end ls \<Longrightarrow> chunk_end ls"
  by (auto simp: hunk_end_def chunk_end_def split: list.splits)

lemma parse_chunk_text:
  assumes "es \<noteq> []" and "chunk_end rest"
  shows "parseChunkLines (map edit_line es @ (if eof then [EOF_MARKER] else []) @ rest) =
    Inr (old_of es, new_of es, eof, rest)"
  using assms
  by (auto simp: parseChunkLines_def chunk_lines_edits chunk_end_def split: list.splits)

lemma collect_stop:
  "\<not> starts_with l (js ''@@'') \<Longrightarrow> collectChangeContexts acc (l # ls) = (acc, l # ls)"
  by (cases l; cases "tl l") (auto simp: js_def)

lemma collect_contexts:
  assumes "es \<noteq> []"
  shows "collectChangeContexts acc (context_lines cs @ map edit_line es @ rest) =
    (acc @ cs, map edit_line es @ rest)"
proof (cases "cs = []")
  case True
  then show ?thesis using assms by (cases es) (simp_all add: context_lines_def)
next
  case False
  have "collectChangeContexts acc (map (\<lambda>c. js ''@@ '' @ c) cs @ map edit_line es @ rest) =
      (acc @ cs, map edit_line es @ rest)"
  proof (induction cs arbitrary: acc)
    case Nil
    then show ?case using assms by (cases es) simp_all
  next
    case (Cons c cs)
    then show ?case by (simp add: js_def)
  qed
  then show ?thesis using False by (simp add: context_lines_def)
qed

lemma context_lines_Cons: "\<exists>l ls. context_lines cs = (js ''@@'' @ l) # ls"
  by (cases cs) (auto simp: context_lines_def js_def)

lemma trim_visible: "\<not> is_space c \<Longrightarrow> trim (c # s) \<noteq> []"
  by (simp add: trim_def trim_start_def trim_end_def)

lemma update_chunks_text:
  "\<lbrakk>list_all chunk_ok cs; hunk_end rest\<rbrakk> \<Longrightarrow>
   update_chunks acc (concat (map chunk_text cs) @ rest) = Inr (acc @ map chunk_of cs, rest)"
proof (induction cs arbitrary: acc)
  case Nil
  then show ?case
    by (auto simp: hunk_end_def js_def trim_visible starts_with_iff is_space_def split: list.splits)
next
  case (Cons c cs)
  obtain xs es eof where c: "c = Chunk xs es eof" by (cases c)
  with Cons.prems have es: "es \<noteq> []" by simp
  obtain l ls where line: "context_lines xs = (js ''@@'' @ l) # ls" using context_lines_Cons by blast
  let ?after = "map edit_line es @ (if eof then [EOF_MARKER] else []) @ concat (map chunk_text cs) @ rest"
  have stop: "chunk_end (concat (map chunk_text cs) @ rest)"
  proof (cases cs)
    case (Cons d ds)
    obtain ys fs eof' where "d = Chunk ys fs eof'" by (cases d)
    then show ?thesis using context_lines_Cons [of ys] Cons by (auto simp: chunk_end_def js_def markers)
  qed (simp add: hunk_chunk_end Cons.prems)
  have "update_chunks acc ((js ''@@'' @ l) # (ls @ ?after)) =
    (case parseChunkLines ?after of Inl e \<Rightarrow> Inl e | Inr (old, new, eof, ls') \<Rightarrow>
      update_chunks (acc @ [\<lparr>changeContexts = xs, oldLines = old, newLines = new, isEndOfFile = eof\<rparr>]) ls')"
  proof (rule update_chunks_step)
    show "(if starts_with (js ''@@'' @ l) (js ''@@'')
         then collectChangeContexts [] ((js ''@@'' @ l) # (ls @ ?after))
         else ([], (js ''@@'' @ l) # (ls @ ?after))) = (xs, ?after)"
      using collect_contexts [OF es, of "[]" xs "(if eof then [EOF_MARKER] else []) @ concat (map chunk_text cs) @ rest"]
      by (simp only: line starts_with_append if_True append_Cons append_Nil)
  qed (simp_all add: js_def trim_visible is_space_def)
  then show ?case
    using Cons by (simp add: c line parse_chunk_text [OF es stop])
qed


lemma add_lines_text:
  "hunk_end rest \<Longrightarrow>
   parse_add_lines acc (map (\<lambda>l. 43 # l) ls @ rest) = Inr (acc @ ls, rest)"
  by (induction ls arbitrary: acc) (auto simp: js_def hunk_end_def split: list.splits)

lemma hunk_text_end: "hunk_end (hunk_text h @ rest)"
  by (cases h) (simp_all add: hunk_end_def js_def markers)

lemma hunks_text_end: "hunk_end (concat (map hunk_text hs))"
  by (cases hs) (simp_all add: hunk_text_end, simp add: hunk_end_def)

lemma move_free:
  assumes "cs \<noteq> []"
  obtains l ls where "concat (map chunk_text cs) @ rest = l # ls" "\<not> starts_with l MOVE_TO_MARKER"
proof -
  obtain xs es eof cs' where "cs = Chunk xs es eof # cs'"
    using assms by (metis chunk_syntax.exhaust neq_Nil_conv)
  with context_lines_Cons [of xs] show thesis by (auto intro!: that simp: js_def markers)
qed

lemma parse_update_text:
  assumes "hunk_ok (SUpdate p m cs)" and "hunk_end rest"
  shows "parseUpdateHunk (UPDATE_FILE_MARKER @ p) (tl (hunk_text (SUpdate p m cs)) @ rest) =
    Inr (hunk_of (SUpdate p m cs), rest)"
proof (cases m)
  case None
  with assms have "cs \<noteq> []" and ok: "list_all chunk_ok cs" by auto
  from move_free [OF this(1), of rest]
  obtain l ls where *: "concat (map chunk_text cs) @ rest = l # ls" "\<not> starts_with l MOVE_TO_MARKER"
    by blast
  have "update_chunks [] (l # ls) = Inr (map chunk_of cs, rest)"
    using update_chunks_text [OF ok assms(2), of "[]"] by (simp only: * append_Nil)
  then show ?thesis
    using None * \<open>cs \<noteq> []\<close> by (simp add: parseUpdateHunk_def del: update_chunks.simps)
next
  case (Some d)
  then show ?thesis
    using assms update_chunks_text [of cs rest "[]"]
    by (simp add: parseUpdateHunk_def del: update_chunks.simps)
qed

lemma parse_hunks_text:
  "list_all hunk_ok hs \<Longrightarrow> parse_hunks (concat (map hunk_text hs)) = Inr (map hunk_of hs)"
proof (induction hs)
  case (Cons h hs)
  have rest: "hunk_end (concat (map hunk_text hs))" by (rule hunks_text_end)
  show ?case
  proof (cases h)
    case (SAdd p ls)
    have "parseAddHunk (ADD_FILE_MARKER @ p) (map (\<lambda>l. 43 # l) ls @ concat (map hunk_text hs)) =
        Inr (hunk_of h, concat (map hunk_text hs))"
      using rest SAdd by (simp add: parseAddHunk_def add_lines_text)
    then show ?thesis using Cons SAdd by (simp add: js_def markers)
  next
    case (SDelete p)
    then show ?thesis using Cons by (simp add: js_def markers)
  next
    case (SUpdate p m cs)
    then have "parseUpdateHunk (UPDATE_FILE_MARKER @ p) (tl (hunk_text h) @ concat (map hunk_text hs)) =
        Inr (hunk_of h, concat (map hunk_text hs))"
      using parse_update_text [of p m cs] rest Cons.prems by simp
    then show ?thesis using Cons SUpdate by (simp add: js_def markers)
  qed
qed simp

section \<open>The envelope\<close>

lemma strip_id: "s \<noteq> [] \<Longrightarrow> hd s \<notin> {60, 99} \<Longrightarrow> stripHeredoc s = s"
  by (cases s) (simp_all add: stripHeredoc_def heredoc_bodies_def heredoc_open_def js_def)

lemma edit_line_one: "edit_ok e \<Longrightarrow> LF \<notin> set (edit_line e) \<and> CR \<notin> set (edit_line e)"
  by (cases e) (auto simp: one_line_def)

lemma chunk_text_one: "chunk_ok c \<Longrightarrow> l \<in> set (chunk_text c) \<Longrightarrow> one_line l"
  by (cases c) (auto simp: context_lines_def list_all_iff one_line_def markers js_def
      dest!: edit_line_one split: if_splits)

lemma hunk_text_one: "hunk_ok h \<Longrightarrow> l \<in> set (hunk_text h) \<Longrightarrow> one_line l"
  by (cases h) (auto simp: list_all_iff markers js_def one_line_def
      dest: chunk_text_one [unfolded one_line_def] split: option.splits)

lemma patch_text_lines:
  assumes "list_all hunk_ok hs"
  defines "ls \<equiv> [BEGIN_PATCH_MARKER] @ concat (map hunk_text hs) @ [END_PATCH_MARKER]"
  shows "\<forall>l \<in> set ls. one_line l" and "split_on LF (patch_text hs) = ls" and "CR \<notin> set (patch_text hs)"
proof -
  show one: "\<forall>l \<in> set ls. one_line l"
    using assms(1) by (auto simp: ls_def list_all_iff dest: hunk_text_one) (auto simp: one_line_def markers js_def)
  then show "split_on LF (patch_text hs) = ls"
    unfolding patch_text_def ls_def [symmetric]
    by (intro split_join) (auto simp: ls_def one_line_def)
  show "CR \<notin> set (patch_text hs)"
    using one set_join [of "[LF]" ls] unfolding patch_text_def ls_def [symmetric] by (auto simp: one_line_def)
qed

lemma patch_text_ends: "\<exists>s. patch_text hs = BEGIN_PATCH_MARKER @ LF # s @ END_PATCH_MARKER"
proof (cases "concat (map hunk_text hs) = []")
  case False
  then show ?thesis by (simp add: patch_text_def join_Cons join_snoc)
next
  case True
  then show ?thesis
    unfolding patch_text_def True by (intro exI [of _ "[]"]) simp
qed

lemma patch_text_trim: "trim (patch_text hs) = patch_text hs" "stripHeredoc (patch_text hs) = patch_text hs"
proof -
  from patch_text_ends [of hs] obtain s where s: "patch_text hs = BEGIN_PATCH_MARKER @ LF # s @ END_PATCH_MARKER"
    by blast
  show "trim (patch_text hs) = patch_text hs"
    by (rule trim_trimmed) (simp add: s trimmed_def markers js_def is_space_def)
  show "stripHeredoc (patch_text hs) = patch_text hs"
    by (rule strip_id) (simp_all add: s markers js_def)
qed

lemma parsePatch_text: "list_all hunk_ok hs \<Longrightarrow> parsePatch (patch_text hs) = Inr (map hunk_of hs)"
  by (simp add: parsePatch_def normalize_id patch_text_lines patch_text_trim parse_hunks_text butlast_append)
    (simp add: markers js_def is_space_def trimmed_def)

text \<open>C33: every patch is read back from its text by the strict parser.\<close>

theorem patch_round_trip:
  assumes "list_all hunk_ok hs"
  shows "parsePatch (patch_text hs) = Inr (map hunk_of hs)"
  using assms by (rule parsePatch_text)

definition sample_patch :: "hunk_syntax list" where
  "sample_patch =
     [SAdd (js ''a.md'') [js ''# A'', []],
      SUpdate (js ''b.ts'') (Some (js ''c.ts''))
        [Chunk [js ''f()''] [Keep (js ''x''), Del (js ''y''), Ins (js ''z'')] True],
      SDelete (js ''d'')]"

theorem patch_round_trip_witness:
  "parsePatch (patch_text sample_patch) =
     Inr [PAdd (js ''a.md'') (js ''# A'' @ [10, 10]),
          PUpdate (js ''b.ts'') (Some (js ''c.ts''))
            [\<lparr>changeContexts = [js ''f()''], oldLines = [js ''x'', js ''y''],
              newLines = [js ''x'', js ''z''], isEndOfFile = True\<rparr>],
          PDelete (js ''d'')]"
proof -
  have "list_all hunk_ok sample_patch"
    by (simp add: sample_patch_def one_line_def js_def)
  from patch_round_trip [OF this] show ?thesis by (simp add: sample_patch_def)
qed

end
