(* ===== verification/PatchStreamProps.thy ===== *)
theory PatchStreamProps
  imports PatchParseProps
begin

text \<open>
  The streaming parser against the strict one: how the text is cut into deltas does not matter
  (without carriage returns), and on patches whose updates it can tell apart it produces what the
  strict parser produces; where it does not, the difference is stated.
\<close>

section \<open>Deltas\<close>

definition and_then :: "step \<Rightarrow> (stream_parser \<Rightarrow> step) \<Rightarrow> step" where
  "and_then r f = (case r of (p, Some e) \<Rightarrow> (p, Some e) | (p, None) \<Rightarrow> f p)"

lemma and_then_simps [simp]: "and_then (p, Some e) f = (p, Some e)" "and_then (p, None) f = f p"
  by (simp_all add: and_then_def)

lemma and_then_assoc: "and_then (and_then r f) g = and_then r (\<lambda>p. and_then (f p) g)"
  by (cases r; cases "snd r") simp_all

lemma push_units_Cons:
  "push_units (c # cs) p =
     (if c = LF then and_then (processLine (lineBuffer p) (p\<lparr>lineBuffer := []\<rparr>)) (push_units cs)
      else push_units cs (p\<lparr>lineBuffer := lineBuffer p @ [c]\<rparr>))"
  by (simp add: and_then_def)

declare push_units.simps(2) [simp del]

lemma push_units_append: "push_units (xs @ ys) p = and_then (push_units xs p) (push_units ys)"
proof (induction xs arbitrary: p)
  case (Cons x xs)
  from Cons.IH have "push_units (xs @ ys) = (\<lambda>p. and_then (push_units xs p) (push_units ys))" by (rule ext)
  then show ?case by (simp add: push_units_Cons and_then_assoc)
qed simp

lemma push_deltas_concat:
  "CR \<notin> set (concat ds) \<Longrightarrow> push_deltas ds p = push_units (concat ds) p"
proof (induction ds arbitrary: p)
  case (Cons d ds)
  from Cons.prems have "push_deltas (d # ds) p = and_then (push_units d p) (push_deltas ds)"
    by (simp add: pushDelta_def normalize_id and_then_def)
  moreover have "push_deltas ds = push_units (concat ds)"
    using Cons by (intro ext) simp
  ultimately show ?case by (simp only: push_units_append concat.simps)
qed simp

section \<open>Lines\<close>

fun process_lines :: "jstr list \<Rightarrow> stream_parser \<Rightarrow> step" where
  "process_lines [] p = (p, None)"
| "process_lines (l # ls) p = and_then (processLine l p) (process_lines ls)"

lemma process_lines_append:
  "process_lines (ls @ ms) p = and_then (process_lines ls p) (process_lines ms)"
proof (induction ls arbitrary: p)
  case (Cons l ls)
  from Cons.IH have "process_lines (ls @ ms) = (\<lambda>p. and_then (process_lines ls p) (process_lines ms))"
    by (rule ext)
  then show ?case by (simp add: and_then_assoc)
qed simp

lemma push_plain:
  "LF \<notin> set l \<Longrightarrow> push_units l p = (p\<lparr>lineBuffer := lineBuffer p @ l\<rparr>, None)"
  by (induction l arbitrary: p) (simp_all add: push_units_Cons)

lemma push_line:
  "LF \<notin> set l \<Longrightarrow> lineBuffer p = [] \<Longrightarrow>
   push_units (l @ LF # s) p = and_then (processLine l p) (push_units s)"
proof -
  assume a: "LF \<notin> set l" "lineBuffer p = []"
  then have same: "p\<lparr>lineBuffer := []\<rparr> = p" by (cases p) simp
  have "push_units (l @ LF # s) p = and_then (processLine l (p\<lparr>lineBuffer := []\<rparr>)) (push_units s)"
    using a(2) by (simp add: push_units_append push_plain [OF a(1)] push_units_Cons)
  then show ?thesis by (simp only: same)
qed

section \<open>What the streaming parser does with the text of a hunk\<close>

text \<open>The path is not lost by trimming; the contexts are visible; every chunk but the last of an
  update is marked as the end of its file, for nothing else makes the streaming parser start a new
  chunk; and an update has a chunk.\<close>

definition no_trailing :: "jstr \<Rightarrow> bool" where
  "no_trailing s \<longleftrightarrow> s \<noteq> [] \<and> \<not> is_space (last s)"

fun streamable :: "hunk_syntax \<Rightarrow> bool" where
  "streamable (SAdd p ls) \<longleftrightarrow> no_trailing p"
| "streamable (SDelete p) \<longleftrightarrow> no_trailing p"
| "streamable (SUpdate p m cs) \<longleftrightarrow> no_trailing p \<and> (case m of None \<Rightarrow> True | Some d \<Rightarrow> no_trailing d) \<and>
     cs \<noteq> [] \<and> list_all (\<lambda>c. list_all no_trailing (contexts_of c)) cs \<and> list_all eof_of (butlast cs)"

lemma trim_end_no_trailing: "no_trailing s \<Longrightarrow> trim_end (x @ s) = x @ s"
  by (simp add: no_trailing_def)

lemma trim_no_trailing: "no_trailing s \<Longrightarrow> \<not> is_space x \<Longrightarrow> trim (x # xs @ s) = x # xs @ s"
  by (simp add: no_trailing_def trim_def)

definition at_hunks :: "stream_parser \<Rightarrow> Mode \<Rightarrow> ParsedPatch list \<Rightarrow> bool" where
  "at_hunks p m hs \<longleftrightarrow> lineBuffer p = [] \<and> mode p = m \<and> hunks p = hs"

text \<open>A hunk that a header may follow.\<close>

fun complete :: "ParsedPatch \<Rightarrow> bool" where
  "complete (PUpdate p m cs) \<longleftrightarrow> cs \<noteq> [] \<and> (oldLines (last cs) \<noteq> [] \<or> newLines (last cs) \<noteq> [])"
| "complete h \<longleftrightarrow> True"

lemma ensure_complete:
  "hunks p = [] \<or> complete (last (hunks p)) \<Longrightarrow> ensureUpdateHunkIsNotEmpty line p = None"
  by (auto simp: ensureUpdateHunkIsNotEmpty_def Let_def split: ParsedPatch.splits)

lemma header_forms:
  "handleHeader (ADD_FILE_MARKER @ f) p = Some (startAdd f p)"
  "handleHeader (DELETE_FILE_MARKER @ f) p = Some (startDelete f p)"
  "handleHeader (UPDATE_FILE_MARKER @ f) p = Some (startUpdate f p)"
  by (simp_all add: handleHeader_def markers js_def)

lemma no_header: "l = [] \<or> hd l \<noteq> 42 \<Longrightarrow> handleHeader l p = None"
  by (cases l) (auto simp: handleHeader_def markers js_def)

lemma trim_end_prefix: "\<exists>v. l = trim_end l @ v"
  by (rule exI [of _ "rev (takeWhile is_space (rev l))"]) (simp add: trim_end_def flip: rev_append)

lemma trim_end_hd:
  assumes "l = [] \<or> hd l \<noteq> c"
  shows "trim_end l = [] \<or> hd (trim_end l) \<noteq> c"
proof -
  obtain v where "l = trim_end l @ v" using trim_end_prefix by blast
  then have "hd l = hd (trim_end l @ v)" by (rule arg_cong)
  then show ?thesis using assms by (cases "l = []") (auto simp: hd_append split: if_splits)
qed

lemma starts_with_hd: "starts_with l (c # t) \<Longrightarrow> l \<noteq> [] \<and> hd l = c"
  by (cases l) auto

section \<open>Updates\<close>

definition st :: "Mode \<Rightarrow> ParsedPatch list \<Rightarrow> stream_parser" where
  "st m hs = \<lparr>lineBuffer = [], mode = m, hunks = hs\<rparr>"

abbreviation updating :: "ParsedPatch list \<Rightarrow> jstr \<Rightarrow> jstr option \<Rightarrow> PatchChunk list \<Rightarrow> stream_parser" where
  "updating hs f m cs \<equiv> st InUpdate (hs @ [PUpdate f m cs])"

lemma on_chunk:
  "current_chunks cs = cs0 @ [ch] \<Longrightarrow>
   on_currentChunk g (updating hs f m cs) = (updating hs f m (cs0 @ [fst (g ch)]), snd (g ch))"
  by (simp add: on_currentChunk_def currentUpdate_def set_update_def st_def split_beta Let_def)

lemma processLine_update: "processLine l (st InUpdate hs) = processUpdate l (st InUpdate hs)"
  by (simp add: processLine_def st_def)

lemma current_update: "currentUpdate (updating hs f m cs) = Some (f, m, cs)"
  by (simp add: currentUpdate_def st_def)

lemma update_edit:
  assumes "current_chunks cs = cs0 @ [ch]"
  shows "processLine (edit_line e) (updating hs f m cs) =
    (updating hs f m (cs0 @ [ch\<lparr>oldLines := oldLines ch @ old_of [e], newLines := newLines ch @ new_of [e]\<rparr>]), None)"
proof -
  let ?l = "edit_line e"
  have star: "trim_end ?l = [] \<or> hd (trim_end ?l) \<noteq> 42" and at: "trim_end ?l = [] \<or> hd (trim_end ?l) \<noteq> 64"
    by (rule trim_end_hd, cases e; simp)+
  then have "\<not> starts_with (trim_end ?l) MOVE_TO_MARKER" "trim_end ?l \<noteq> EOF_MARKER"
    "trim_end ?l \<noteq> js ''@@''" "\<not> starts_with (trim_end ?l) (js ''@@ '')"
    using starts_with_hd by (auto simp: markers js_def)
  then have "processLine ?l (updating hs f m cs) = pushUpdateLine ?l (updating hs f m cs)"
    by (simp add: processLine_update processUpdate_def no_header [OF star] current_update)
  also have "\<dots> = (updating hs f m (cs0 @ [fst (push_chunk_line ?l ch)]), snd (push_chunk_line ?l ch))"
    unfolding pushUpdateLine_def by (rule on_chunk [OF assms])
  finally show ?thesis by (cases e) (simp_all add: push_chunk_line_def)
qed

lemma current_open: "\<not> isEndOfFile ch \<Longrightarrow> current_chunks (cs0 @ [ch]) = cs0 @ [ch]"
  by (simp add: current_chunks_def)

lemma update_edits:
  "\<lbrakk>current_chunks cs = cs0 @ [ch]; \<not> isEndOfFile ch; es \<noteq> []\<rbrakk> \<Longrightarrow>
   process_lines (map edit_line es) (updating hs f m cs) =
    (updating hs f m (cs0 @ [ch\<lparr>oldLines := oldLines ch @ old_of es, newLines := newLines ch @ new_of es\<rparr>]), None)"
proof (induction es arbitrary: cs ch)
  case (Cons e es)
  let ?ch = "ch\<lparr>oldLines := oldLines ch @ old_of [e], newLines := newLines ch @ new_of [e]\<rparr>"
  have parts: "old_of (e # es) = old_of [e] @ old_of es" "new_of (e # es) = new_of [e] @ new_of es"
    by (cases e; simp)+
  show ?case
  proof (cases "es = []")
    case False
    have "current_chunks (cs0 @ [?ch]) = cs0 @ [?ch]" using Cons.prems(2) by (simp add: current_open)
    from Cons.IH [OF this _ False] show ?thesis
      using Cons.prems by (simp add: update_edit parts del: old_of.simps new_of.simps)
  qed (use Cons.prems in \<open>simp add: update_edit\<close>)
qed simp

lemma update_context:
  assumes "current_chunks cs = cs0 @ [ch]" and "no_trailing c"
  shows "processLine (js ''@@ '' @ c) (updating hs f m cs) =
    (updating hs f m (cs0 @ [ch\<lparr>changeContexts := changeContexts ch @ [c]\<rparr>]), None)"
proof -
  have "trim_end (js ''@@ '' @ c) = js ''@@ '' @ c" by (rule trim_end_no_trailing [OF assms(2)])
  moreover have "handleHeader (js ''@@ '' @ c) p = None" for p
    by (rule no_header) (simp add: js_def)
  moreover have "\<not> starts_with (js ''@@ '' @ c) MOVE_TO_MARKER" by (simp add: js_def markers)
  moreover have "js ''@@ '' @ c \<noteq> js ''@@''" "drop 3 (js ''@@ '' @ c) = c" by (simp_all add: js_def)
  ultimately show ?thesis
    using on_chunk [OF assms(1)]
    by (simp add: processLine_update processUpdate_def current_update)
qed

lemma update_contexts:
  "\<lbrakk>current_chunks cs = cs0 @ [ch]; \<not> isEndOfFile ch; xs \<noteq> []; list_all no_trailing xs\<rbrakk> \<Longrightarrow>
   process_lines (map (\<lambda>c. js ''@@ '' @ c) xs) (updating hs f m cs) =
    (updating hs f m (cs0 @ [ch\<lparr>changeContexts := changeContexts ch @ xs\<rparr>]), None)"
proof (induction xs arbitrary: cs ch)
  case (Cons x xs)
  let ?ch = "ch\<lparr>changeContexts := changeContexts ch @ [x]\<rparr>"
  show ?case
  proof (cases "xs = []")
    case False
    have "current_chunks (cs0 @ [?ch]) = cs0 @ [?ch]" using Cons.prems(2) by (simp add: current_open)
    from Cons.IH [OF this _ False] show ?thesis
      using Cons.prems by (simp add: update_context)
  qed (use Cons.prems in \<open>simp add: update_context\<close>)
qed simp

lemma update_bare: "processLine (js ''@@'') (updating hs f m cs) = (updating hs f m cs, None)"
proof -
  have "trim_end (js ''@@'') = js ''@@''" by (rule trim_end_id) (simp add: js_def is_space_def)
  moreover have "handleHeader (js ''@@'') p = None" for p by (rule no_header) (simp add: js_def)
  ultimately show ?thesis
    by (simp add: processLine_update processUpdate_def current_update) (simp add: js_def markers)
qed

lemma update_eof:
  assumes "current_chunks cs = cs0 @ [ch]" and "oldLines ch \<noteq> [] \<or> newLines ch \<noteq> []"
  shows "processLine EOF_MARKER (updating hs f m cs) =
    (updating hs f m (cs0 @ [ch\<lparr>isEndOfFile := True\<rparr>]), None)"
proof -
  have "trim_end EOF_MARKER = EOF_MARKER" by (rule trim_end_id) (simp add: js_def markers is_space_def)
  moreover have "handleHeader EOF_MARKER p = None" for p by (simp add: handleHeader_def js_def markers)
  moreover have "\<not> starts_with EOF_MARKER MOVE_TO_MARKER" "EOF_MARKER \<noteq> js ''@@''"
    "\<not> starts_with EOF_MARKER (js ''@@ '')" by (simp_all add: js_def markers)
  ultimately show ?thesis
    using on_chunk [OF assms(1)] assms(2)
    by (auto simp add: processLine_update processUpdate_def current_update)
qed


lemma update_chunk:
  assumes "cs = [] \<or> isEndOfFile (last cs)" and "chunk_ok c" and "list_all no_trailing (contexts_of c)"
  shows "process_lines (chunk_text c) (updating hs f m cs) = (updating hs f m (cs @ [chunk_of c]), None)"
proof -
  obtain xs es eof where c: "c = Chunk xs es eof" by (cases c)
  let ?ch = "empty_chunk\<lparr>changeContexts := xs\<rparr>"
  let ?ch' = "\<lparr>changeContexts = xs, oldLines = old_of es, newLines = new_of es, isEndOfFile = False\<rparr>"
  have es: "es \<noteq> []" using assms(2) by (simp add: c)
  have new: "current_chunks cs = cs @ [empty_chunk]" using assms(1) by (simp add: current_chunks_def)
  obtain cs1 where one: "process_lines (context_lines xs) (updating hs f m cs) = (updating hs f m cs1, None)"
    "current_chunks cs1 = cs @ [?ch]"
  proof (cases "xs = []")
    case True
    then show thesis using new by (intro that [of cs]) (simp_all add: context_lines_def update_bare empty_chunk_def)
  next
    case False
    then show thesis
      using update_contexts [OF new _ False] assms(3)
      by (intro that [of "cs @ [?ch]"]) (simp_all add: c context_lines_def empty_chunk_def current_open)
  qed
  have two: "process_lines (map edit_line es) (updating hs f m cs1) = (updating hs f m (cs @ [?ch']), None)"
    using update_edits [OF one(2) _ es, of hs f m] by (simp add: empty_chunk_def)
  have lines: "old_of es \<noteq> [] \<or> new_of es \<noteq> []"
    using es by (cases es; cases "hd es") auto
  have three: "processLine EOF_MARKER (updating hs f m (cs @ [?ch'])) =
      (updating hs f m (cs @ [?ch'\<lparr>isEndOfFile := True\<rparr>]), None)"
    using lines by (intro update_eof) (simp_all add: current_open)
  show ?thesis
    by (cases eof) (use three in \<open>simp_all add: c process_lines_append one two\<close>)
qed

lemma chunk_of_eof: "isEndOfFile (chunk_of c) = eof_of c"
  by (cases c) simp

lemma update_chunks_stream:
  "\<lbrakk>cs = [] \<or> isEndOfFile (last cs); list_all chunk_ok xs; list_all (\<lambda>c. list_all no_trailing (contexts_of c)) xs;
    list_all eof_of (butlast xs)\<rbrakk> \<Longrightarrow>
   process_lines (concat (map chunk_text xs)) (updating hs f m cs) = (updating hs f m (cs @ map chunk_of xs), None)"
proof (induction xs arbitrary: cs)
  case (Cons x xs)
  have first: "process_lines (chunk_text x) (updating hs f m cs) = (updating hs f m (cs @ [chunk_of x]), None)"
    using Cons.prems by (intro update_chunk) simp_all
  show ?case
  proof (cases "xs = []")
    case False
    then have "eof_of x" using Cons.prems(4) by simp
    then show ?thesis
      using Cons.IH [of "cs @ [chunk_of x]"] Cons.prems False
      by (simp add: process_lines_append first chunk_of_eof)
  qed (simp add: first)
qed simp

section \<open>Hunks\<close>

lemma header_line:
  assumes "handleHeader line p = Some r" "trim line = line" "trim_end line = line"
    and "mode p \<noteq> NotStarted" "mode p \<noteq> Ended"
  shows "processLine line p = r"
  using assms by (cases "mode p")
    (simp_all add: processLine_def processStarted_def processAdd_def processDelete_def processUpdate_def)

lemma marked_line:
  assumes "no_trailing f" and "M \<in> {ADD_FILE_MARKER, DELETE_FILE_MARKER, UPDATE_FILE_MARKER, MOVE_TO_MARKER}"
  shows "trim (M @ f) = M @ f" "trim_end (M @ f) = M @ f"
proof -
  obtain x xs where "M = x # xs" "\<not> is_space x"
    using assms(2) by (auto simp: markers js_def is_space_def)
  then show "trim (M @ f) = M @ f" "trim_end (M @ f) = M @ f"
    using trim_no_trailing [OF assms(1)] trim_end_no_trailing [OF assms(1), of M] by simp_all
qed

lemma start_line:
  assumes "hs = [] \<or> complete (last hs)" and "m \<noteq> NotStarted" "m \<noteq> Ended" and "no_trailing f"
  shows "processLine (ADD_FILE_MARKER @ f) (st m hs) = (st InAdd (hs @ [PAdd f []]), None)"
    and "processLine (DELETE_FILE_MARKER @ f) (st m hs) = (st InDelete (hs @ [PDelete f]), None)"
    and "processLine (UPDATE_FILE_MARKER @ f) (st m hs) = (updating hs f None [], None)"
  using assms
  by (subst header_line [OF header_forms(1)] header_line [OF header_forms(2)] header_line [OF header_forms(3)];
      simp add: marked_line startAdd_def startDelete_def startUpdate_def start_hunk_def
        ensure_complete; simp add: st_def ensure_complete)+

lemma add_line:
  "processLine (43 # l) (st InAdd (hs @ [PAdd f content])) = (st InAdd (hs @ [PAdd f (content @ l @ [LF])]), None)"
proof -
  have "handleHeader (trim (43 # l)) p = None" for p
  proof (rule no_header)
    have "trim_start (43 # l) = 43 # l" by (simp add: trim_start_def is_space_def)
    then show "trim (43 # l) = [] \<or> hd (trim (43 # l)) \<noteq> 42"
      using trim_end_hd [of "43 # l" 42] by (simp add: trim_def)
  qed
  then show ?thesis by (simp add: processLine_def processAdd_def st_def js_def)
qed

lemma add_lines:
  "process_lines (map (\<lambda>l. 43 # l) ls) (st InAdd (hs @ [PAdd f content])) =
    (st InAdd (hs @ [PAdd f (content @ concat (map (\<lambda>l. l @ [LF]) ls))]), None)"
  by (induction ls arbitrary: content) (simp_all add: add_line)

lemma join_lines: "concat (map (\<lambda>l. l @ [LF]) ls) = (if ls = [] then [] else join [LF] ls @ [LF])"
  by (induction ls) (auto simp: join_Cons)

lemma move_line:
  assumes "no_trailing d"
  shows "processLine (MOVE_TO_MARKER @ d) (updating hs f None []) = (updating hs f (Some d) [], None)"
proof -
  have "handleHeader (MOVE_TO_MARKER @ d) p = None" for p by (simp add: handleHeader_def markers js_def)
  moreover have "trim_end (MOVE_TO_MARKER @ d) = MOVE_TO_MARKER @ d"
    using marked_line(2) [OF assms, of MOVE_TO_MARKER] by simp
  ultimately have "processLine (MOVE_TO_MARKER @ d) (updating hs f None []) =
      (set_update (updating hs f None []) f (Some d) [], None)"
    by (simp add: processLine_update processUpdate_def current_update)
  then show ?thesis by (simp add: set_update_def st_def)
qed

fun mode_of :: "hunk_syntax \<Rightarrow> Mode" where
  "mode_of (SAdd p ls) = InAdd"
| "mode_of (SDelete p) = InDelete"
| "mode_of (SUpdate p m cs) = InUpdate"

lemma stream_hunk:
  assumes "hs = [] \<or> complete (last hs)" and "m \<noteq> NotStarted" "m \<noteq> Ended" and "hunk_ok h" "streamable h"
  shows "process_lines (hunk_text h) (st m hs) = (st (mode_of h) (hs @ [hunk_of h]), None)"
proof (cases h)
  case (SUpdate f d cs)
  have start: "processLine (UPDATE_FILE_MARKER @ f) (st m hs) = (updating hs f None [], None)"
    using assms SUpdate by (intro start_line) simp_all
  have move: "process_lines (case d of None \<Rightarrow> [] | Some d \<Rightarrow> [MOVE_TO_MARKER @ d]) (updating hs f None []) =
      (updating hs f d [], None)"
    using assms(5) SUpdate by (cases d) (simp_all add: move_line)
  have "process_lines (concat (map chunk_text cs)) (updating hs f d []) = (updating hs f d (map chunk_of cs), None)"
    using update_chunks_stream [of "[]" cs hs f d] assms(4,5) SUpdate by simp
  then show ?thesis by (simp add: SUpdate start process_lines_append move)
qed (use assms in \<open>simp_all add: start_line add_lines join_lines\<close>)

lemma complete_hunk: "hunk_ok h \<Longrightarrow> streamable h \<Longrightarrow> complete (hunk_of h)"
proof (cases h)
  case (SUpdate f d cs)
  assume "hunk_ok h" "streamable h"
  then have "cs \<noteq> []" "chunk_ok (last cs)" by (auto simp: SUpdate list_all_iff)
  then show ?thesis
    by (cases "last cs"; cases "edits_of (last cs)"; cases "hd (edits_of (last cs))")
      (auto simp: SUpdate last_map)
qed simp_all

lemma mode_of_open: "mode_of h \<noteq> NotStarted" "mode_of h \<noteq> Ended"
  by (cases h; simp)+

lemma stream_hunks:
  "\<lbrakk>hs = [] \<or> complete (last hs); m \<noteq> NotStarted; m \<noteq> Ended; list_all hunk_ok xs; list_all streamable xs\<rbrakk> \<Longrightarrow>
   \<exists>m'. process_lines (concat (map hunk_text xs)) (st m hs) = (st m' (hs @ map hunk_of xs), None) \<and>
     m' \<noteq> NotStarted \<and> m' \<noteq> Ended \<and> (hs @ map hunk_of xs = [] \<or> complete (last (hs @ map hunk_of xs)))"
proof (induction xs arbitrary: hs m)
  case (Cons x xs)
  then have "process_lines (hunk_text x) (st m hs) = (st (mode_of x) (hs @ [hunk_of x]), None)"
    by (intro stream_hunk) simp_all
  moreover have "complete (hunk_of x)" using Cons.prems by (intro complete_hunk) simp_all
  ultimately show ?case
    using Cons.IH [of "hs @ [hunk_of x]" "mode_of x"] Cons.prems mode_of_open
    by (auto simp: process_lines_append)
qed auto


section \<open>The whole stream\<close>

lemma start_hunk_buffer: "lineBuffer (fst (start_hunk l h m p)) = lineBuffer p"
  by (simp add: start_hunk_def split: option.splits)

lemma handleHeader_buffer: "handleHeader l p = Some r \<Longrightarrow> lineBuffer (fst r) = lineBuffer p"
  by (auto simp: handleHeader_def startAdd_def startDelete_def startUpdate_def start_hunk_buffer
      split: if_splits option.splits)

lemma on_currentChunk_buffer: "lineBuffer (fst (on_currentChunk g p)) = lineBuffer p"
  by (simp add: on_currentChunk_def set_update_def split_beta Let_def split: option.splits)

lemma processUpdate_buffer: "lineBuffer (fst (processUpdate l p)) = lineBuffer p"
proof (cases "handleHeader (trim_end l) p")
  case None
  then show ?thesis
    by (cases "currentUpdate p")
      (auto simp: processUpdate_def Let_def pushUpdateLine_def on_currentChunk_buffer set_update_def)
qed (auto simp: processUpdate_def dest: handleHeader_buffer)

lemma processAdd_buffer: "lineBuffer (fst (processAdd l p)) = lineBuffer p"
proof (cases "handleHeader (trim l) p")
  case None
  then show ?thesis
    by (cases "hunks p = []"; cases "last (hunks p)") (simp_all add: processAdd_def)
qed (auto simp: processAdd_def dest: handleHeader_buffer)

lemma processLine_buffer: "lineBuffer (fst (processLine l p)) = lineBuffer p"
  by (cases "mode p")
    (auto simp: processLine_def processStarted_def processDelete_def processAdd_buffer processUpdate_buffer
      split: option.splits dest: handleHeader_buffer)

lemma push_lines:
  "\<lbrakk>\<forall>l \<in> set ls. LF \<notin> set l; lineBuffer p = []\<rbrakk> \<Longrightarrow>
   push_units (concat (map (\<lambda>l. l @ [LF]) ls) @ s) p = and_then (process_lines ls p) (push_units s)"
proof (induction ls arbitrary: p)
  case (Cons l ls)
  obtain q e where q: "processLine l p = (q, e)" by fastforce
  have "lineBuffer q = []" using processLine_buffer [of l p] q Cons.prems by simp
  then have "push_units (concat (map (\<lambda>l. l @ [LF]) ls) @ s) q = and_then (process_lines ls q) (push_units s)"
    using Cons by simp
  then show ?case
    using Cons.prems by (cases e) (simp_all add: push_line q)
qed simp

lemma begin_line: "processLine BEGIN_PATCH_MARKER new_StreamingPatchParser = (st Started [], None)"
proof -
  have "stripHeredoc BEGIN_PATCH_MARKER = BEGIN_PATCH_MARKER" by (rule strip_id) (simp_all add: markers js_def)
  moreover have "trim BEGIN_PATCH_MARKER = BEGIN_PATCH_MARKER"
    by (rule trim_trimmed) (simp add: trimmed_def markers js_def is_space_def)
  ultimately show ?thesis by (simp add: processLine_def new_StreamingPatchParser_def st_def)
qed

lemma finish_end:
  assumes "hs = [] \<or> complete (last hs)"
  shows "finishParsing (st m hs\<lparr>lineBuffer := END_PATCH_MARKER\<rparr>) = (st Ended hs, None)"
proof -
  have "trim END_PATCH_MARKER = END_PATCH_MARKER"
    by (rule trim_trimmed) (simp add: trimmed_def markers js_def is_space_def)
  moreover have "0 < length END_PATCH_MARKER" by (simp add: markers)
  moreover have "ensureUpdateHunkIsNotEmpty END_PATCH_MARKER (st m hs) = None"
    by (rule ensure_complete) (simp add: st_def assms)
  ultimately show ?thesis by (simp add: finishParsing_def st_def Let_def)
qed

lemma join_as_lines: "join [LF] (ls @ [l]) = concat (map (\<lambda>l. l @ [LF]) ls) @ l"
  by (induction ls) (auto simp: join_Cons)

lemma stream_run:
  assumes ok: "list_all hunk_ok hs" and cut: "concat deltas = patch_text hs"
    and run: "process_lines (concat (map hunk_text hs)) (st Started []) = (st m hs', None)"
  shows "stream_parse deltas = (case finishParsing (st m hs'\<lparr>lineBuffer := END_PATCH_MARKER\<rparr>) of
    (p, Some e) \<Rightarrow> Inl e | (p, None) \<Rightarrow> Inr (hunks p))"
proof -
  let ?ls = "BEGIN_PATCH_MARKER # concat (map hunk_text hs)"
  have lines: "\<forall>l \<in> set (?ls @ [END_PATCH_MARKER]). one_line l"
    using patch_text_lines(1) [OF ok] by simp
  have "push_deltas deltas new_StreamingPatchParser = push_units (join [LF] (?ls @ [END_PATCH_MARKER])) new_StreamingPatchParser"
    using push_deltas_concat [of deltas] patch_text_lines(3) [OF ok] by (simp add: cut patch_text_def)
  also have "\<dots> = push_units END_PATCH_MARKER (st m hs')"
    using lines begin_line run unfolding join_as_lines
    by (subst push_lines) (auto simp: one_line_def new_StreamingPatchParser_def)
  also have "\<dots> = (st m hs'\<lparr>lineBuffer := END_PATCH_MARKER\<rparr>, None)"
    using lines by (subst push_plain) (auto simp: one_line_def st_def)
  finally show ?thesis by (simp add: stream_parse_def)
qed

lemma stream_text:
  assumes ok: "list_all hunk_ok hs" "list_all streamable hs" and cut: "concat deltas = patch_text hs"
  shows "stream_parse deltas = Inr (map hunk_of hs)"
proof -
  obtain m where run: "process_lines (concat (map hunk_text hs)) (st Started []) = (st m (map hunk_of hs), None)"
    and last: "map hunk_of hs = [] \<or> complete (last (map hunk_of hs))"
    using stream_hunks [of "[]" Started hs] ok by auto
  show ?thesis
    unfolding stream_run [OF ok(1) cut run] by (simp add: finish_end [OF last]) (simp add: st_def)
qed

text \<open>C34: on the patches whose updates the streaming parser can tell apart, it produces what the
  strict parser produces, however the text is cut into deltas.\<close>

theorem streaming_matches_strict:
  assumes "list_all hunk_ok hs" and "list_all streamable hs" and "concat deltas = patch_text hs"
  shows "stream_parse deltas = parsePatch (concat deltas)"
  using assms by (simp add: stream_text parsePatch_text)

theorem streaming_matches_strict_witness:
  "stream_parse (map (\<lambda>c. [c]) (patch_text sample_patch)) = parsePatch (patch_text sample_patch)"
proof -
  have "list_all hunk_ok sample_patch" "list_all streamable sample_patch"
    by (simp_all add: sample_patch_def one_line_def js_def no_trailing_def is_space_def)
  from streaming_matches_strict [OF this, of "map (\<lambda>c. [c]) (patch_text sample_patch)"]
  show ?thesis by simp
qed

section \<open>Where the two parsers differ\<close>

text \<open>An update of two chunks, and a move without a chunk.\<close>

definition two_chunks :: "hunk_syntax list" where
  "two_chunks = [SUpdate (js ''f'') None
     [Chunk [js ''a''] [Del (js ''x''), Ins (js ''y'')] False, Chunk [js ''b''] [Ins (js ''z'')] False]]"

definition pure_move :: "hunk_syntax list" where
  "pure_move = [SUpdate (js ''f'') (Some (js ''g'')) []]"

lemma differ_ok: "list_all hunk_ok two_chunks" "list_all hunk_ok pure_move"
  by (simp_all add: two_chunks_def pure_move_def one_line_def js_def)

lemma streamed_two:
  "stream_parse [patch_text two_chunks] =
     Inr [PUpdate (js ''f'') None [\<lparr>changeContexts = [js ''a'', js ''b''], oldLines = [js ''x''],
            newLines = [js ''y'', js ''z''], isEndOfFile = False\<rparr>]]"
proof -
  let ?f = "js ''f''"
  have vis: "no_trailing ?f" "no_trailing (js ''a'')" "no_trailing (js ''b'')"
    by (simp_all add: js_def no_trailing_def is_space_def)
  let ?c1 = "Chunk [js ''a''] [Del (js ''x''), Ins (js ''y'')] False"
  let ?m = "\<lparr>changeContexts = [js ''a'', js ''b''], oldLines = [js ''x''], newLines = [js ''y''], isEndOfFile = False\<rparr>"
  let ?r = "?m\<lparr>newLines := [js ''y'', js ''z'']\<rparr>"
  have header: "processLine (UPDATE_FILE_MARKER @ ?f) (st Started []) = (updating [] ?f None [], None)"
    using start_line(3) [of "[]" Started] vis by simp
  have one: "process_lines (chunk_text ?c1) (updating [] ?f None []) = (updating [] ?f None [chunk_of ?c1], None)"
    using update_chunk [of "[]" ?c1 "[]" ?f None] vis by (simp add: one_line_def js_def)
  have two: "processLine (js ''@@ '' @ js ''b'') (updating [] ?f None [chunk_of ?c1]) = (updating [] ?f None [?m], None)"
    using update_context [of "[chunk_of ?c1]" "[]" "chunk_of ?c1" "js ''b''" "[]"] vis
    by (simp add: current_chunks_def)
  have three: "processLine (edit_line (Ins (js ''z''))) (updating [] ?f None [?m]) = (updating [] ?f None [?r], None)"
    using update_edit [of "[?m]" "[]" ?m "Ins (js ''z'')" "[]"] by (simp add: current_chunks_def)
  have run: "process_lines (concat (map hunk_text two_chunks)) (st Started []) = (updating [] ?f None [?r], None)"
    using header one two three
    by (simp add: two_chunks_def process_lines_append context_lines_def del: chunk_text.simps(1))
      (simp add: process_lines_append context_lines_def)
  have "concat [patch_text two_chunks] = patch_text two_chunks" by simp
  from stream_run [OF differ_ok(1) this run] show ?thesis
    by (simp add: finish_end) (simp add: st_def)
qed

lemma streamed_move: "stream_parse [patch_text pure_move] = Inl (EmptyUpdate (js ''f''))"
proof -
  have vis: "no_trailing (js ''f'')" "no_trailing (js ''g'')"
    by (simp_all add: js_def no_trailing_def is_space_def)
  have run: "process_lines (concat (map hunk_text pure_move)) (st Started []) =
      (st InUpdate [PUpdate (js ''f'') (Some (js ''g'')) []], None)"
    using start_line(3) [of "[]" Started] vis move_line [of "js ''g''" "[]"] by (simp add: pure_move_def)
  have trimmed: "trim END_PATCH_MARKER = END_PATCH_MARKER"
    by (rule trim_trimmed) (simp add: trimmed_def markers js_def is_space_def)
  have "concat [patch_text pure_move] = patch_text pure_move" by simp
  moreover have "js ''*** End Patch'' \<noteq> []" by (simp add: js_def)
  ultimately show ?thesis
    by (simp add: stream_run [OF differ_ok(2) _ run] finishParsing_def trimmed [unfolded markers]
        ensureUpdateHunkIsNotEmpty_def Let_def st_def markers)
qed

text \<open>The streaming parser merges the chunks of one update into one, and rejects a move without
  a chunk, where the strict parser reads both patches.\<close>

theorem streaming_differs:
  "parsePatch (patch_text two_chunks) =
     Inr [PUpdate (js ''f'') None
       [\<lparr>changeContexts = [js ''a''], oldLines = [js ''x''], newLines = [js ''y''], isEndOfFile = False\<rparr>,
        \<lparr>changeContexts = [js ''b''], oldLines = [], newLines = [js ''z''], isEndOfFile = False\<rparr>]] \<and>
   stream_parse [patch_text two_chunks] =
     Inr [PUpdate (js ''f'') None
       [\<lparr>changeContexts = [js ''a'', js ''b''], oldLines = [js ''x''],
         newLines = [js ''y'', js ''z''], isEndOfFile = False\<rparr>]] \<and>
   parsePatch (patch_text pure_move) = Inr [PUpdate (js ''f'') (Some (js ''g'')) []] \<and>
   stream_parse [patch_text pure_move] = Inl (EmptyUpdate (js ''f''))"
  by (simp add: parsePatch_text differ_ok streamed_two streamed_move)
    (simp add: two_chunks_def pure_move_def)


section \<open>Carriage returns\<close>

lemma begin_crlf:
  "normalizePatchText (BEGIN_PATCH_MARKER @ [CR]) = BEGIN_PATCH_MARKER @ [LF]"
  "normalizePatchText ([LF] @ END_PATCH_MARKER) = [LF] @ END_PATCH_MARKER"
  "normalizePatchText (BEGIN_PATCH_MARKER @ [CR, LF] @ END_PATCH_MARKER) = BEGIN_PATCH_MARKER @ [LF] @ END_PATCH_MARKER"
  by (simp_all add: normalizePatchText_def markers js_def)

lemma push_begin:
  "push_units (BEGIN_PATCH_MARKER @ LF # s) new_StreamingPatchParser = push_units s (st Started [])"
proof -
  have "LF \<notin> set BEGIN_PATCH_MARKER" by (simp add: markers js_def)
  from push_line [OF this, of new_StreamingPatchParser s] show ?thesis
    by (simp add: begin_line) (simp add: new_StreamingPatchParser_def)
qed

text \<open>Without carriage returns, how the text of a patch is cut into deltas does not matter; a
  line end of carriage return and line feed that is cut in two becomes two line ends, and a patch
  that is read in one delta is rejected in two.\<close>

theorem deltas_irrelevant:
  "(\<forall>deltas. CR \<notin> set (concat deltas) \<longrightarrow> stream_parse deltas = stream_parse [concat deltas]) \<and>
   stream_parse [BEGIN_PATCH_MARKER @ [CR, LF] @ END_PATCH_MARKER] = Inr [] \<and>
   stream_parse [BEGIN_PATCH_MARKER @ [CR], [LF] @ END_PATCH_MARKER] = Inl (BadHeader [])"
proof (intro conjI allI impI)
  fix deltas assume "CR \<notin> set (concat deltas)"
  then show "stream_parse deltas = stream_parse [concat deltas]"
    using push_deltas_concat [of deltas] push_deltas_concat [of "[concat deltas]"] by (simp add: stream_parse_def)
next
  have "push_units END_PATCH_MARKER (st Started []) = (st Started []\<lparr>lineBuffer := END_PATCH_MARKER\<rparr>, None)"
    by (subst push_plain) (simp_all add: markers js_def st_def)
  then show "stream_parse [BEGIN_PATCH_MARKER @ [CR, LF] @ END_PATCH_MARKER] = Inr []"
    using finish_end [of "[]" Started]
    by (simp add: stream_parse_def pushDelta_def begin_crlf(3) [simplified] push_begin) (simp add: st_def)
next
  have one: "push_units (BEGIN_PATCH_MARKER @ [LF]) new_StreamingPatchParser = (st Started [], None)"
    by (simp add: push_begin)
  have "trim [] = []" by (simp add: trim_def)
  then have "processLine [] (st Started []) = (st Started [], Some (BadHeader []))"
    by (simp add: processLine_def processStarted_def no_header st_def)
  then have two: "push_units ([LF] @ END_PATCH_MARKER) (st Started []) = (st Started [], Some (BadHeader []))"
    using push_line [of "[]" "st Started []"] by (simp add: st_def)
  show "stream_parse [BEGIN_PATCH_MARKER @ [CR], [LF] @ END_PATCH_MARKER] = Inl (BadHeader [])"
    by (simp only: stream_parse_def push_deltas.simps pushDelta_def begin_crlf one two prod.case option.case)
qed

theorem deltas_irrelevant_witness:
  "stream_parse [BEGIN_PATCH_MARKER, [LF], END_PATCH_MARKER] =
   stream_parse [concat [BEGIN_PATCH_MARKER, [LF], END_PATCH_MARKER]]"
proof -
  have "CR \<notin> set (concat [BEGIN_PATCH_MARKER, [LF], END_PATCH_MARKER])" by (simp add: markers js_def)
  then show ?thesis using deltas_irrelevant by blast
qed

end
