(* ===== verification/PatchReplace.thy ===== *)
theory PatchReplace
  imports PatchParse
begin

text \<open>
  Finding the lines of a chunk in a file (\<open>seek-sequence.ts\<close>) and replacing them
  (\<open>patch-replace.ts\<close>), with what both promise: a found position matches, and no better match and
  no earlier one exists; a replaced file is the old one with the chunks exchanged in order.
\<close>

section \<open>Seeking\<close>

definition replace_class :: "nat set \<Rightarrow> nat \<Rightarrow> jstr \<Rightarrow> jstr" where
  "replace_class cls by = map (\<lambda>c. if c \<in> cls then by else c)"

definition dashes :: "nat set" where
  "dashes = {0x2010, 0x2011, 0x2012, 0x2013, 0x2014, 0x2015, 0x2212}"

definition single_quotes :: "nat set" where
  "single_quotes = {0x2018, 0x2019, 0x201A, 0x201B}"

definition double_quotes :: "nat set" where
  "double_quotes = {0x201C, 0x201D, 0x201E, 0x201F}"

definition odd_spaces :: "nat set" where
  "odd_spaces = {0xA0, 0x2002, 0x2003, 0x2004, 0x2005, 0x2006, 0x2007, 0x2008, 0x2009, 0x200A,
     0x202F, 0x205F, 0x3000}"

definition normalizeSeekLine :: "jstr \<Rightarrow> jstr" where
  "normalizeSeekLine line =
     replace_class odd_spaces 32 (replace_class double_quotes 34
       (replace_class single_quotes 39 (replace_class dashes 45 (trim line))))"

fun lines_match :: "(jstr \<Rightarrow> jstr) \<Rightarrow> jstr list \<Rightarrow> jstr list \<Rightarrow> bool" where
  "lines_match f ls [] = True"
| "lines_match f [] (p # ps) = False"
| "lines_match f (l # ls) (p # ps) = (f l = f p \<and> lines_match f ls ps)"

definition first_match :: "(jstr \<Rightarrow> jstr) \<Rightarrow> jstr list \<Rightarrow> jstr list \<Rightarrow> nat \<Rightarrow> nat option" where
  "first_match f lines pattern start =
     find (\<lambda>i. lines_match f (drop i lines) pattern) [start..<Suc (length lines - length pattern)]"

definition seekSequenceWithFuzz :: "jstr list \<Rightarrow> jstr list \<Rightarrow> nat \<Rightarrow> bool \<Rightarrow> (nat \<times> nat) option" where
  "seekSequenceWithFuzz lines pattern start eof =
     (if pattern = [] then Some (start, 0)
      else if length pattern > length lines then None
      else let searchStart = (if eof \<and> length lines \<ge> length pattern then length lines - length pattern else start)
        in case first_match (\<lambda>l. l) lines pattern searchStart of Some i \<Rightarrow> Some (i, 0)
         | None \<Rightarrow> (case first_match trim_end lines pattern searchStart of Some i \<Rightarrow> Some (i, 1)
         | None \<Rightarrow> (case first_match trim lines pattern searchStart of Some i \<Rightarrow> Some (i, 100)
         | None \<Rightarrow> (case first_match normalizeSeekLine lines pattern searchStart of Some i \<Rightarrow> Some (i, 10000)
         | None \<Rightarrow> None))))"

definition seekSequence :: "jstr list \<Rightarrow> jstr list \<Rightarrow> nat \<Rightarrow> bool \<Rightarrow> nat option" where
  "seekSequence lines pattern start eof = map_option fst (seekSequenceWithFuzz lines pattern start eof)"

section \<open>Replacing\<close>

definition splitFileLines :: "jstr \<Rightarrow> jstr list" where
  "splitFileLines content =
     (let lines = split_on LF (normalizePatchText content)
      in if last lines = [] then butlast lines else lines)"

record replacement =
  repl_start :: nat
  repl_old :: nat
  repl_new :: "jstr list"

text \<open>The state of the loop over the chunks.\<close>

record seek_state =
  lineIndex :: nat
  fuzz :: nat
  replacements :: "replacement list"

fun seek_contexts :: "jstr list \<Rightarrow> jstr \<Rightarrow> jstr list \<Rightarrow> seek_state \<Rightarrow> patch_error + seek_state" where
  "seek_contexts lines path [] s = Inr s"
| "seek_contexts lines path (c # cs) s =
     (case seekSequenceWithFuzz lines [c] (lineIndex s) False of
        None \<Rightarrow> Inl (ContextNotFound c path)
      | Some (i, f) \<Rightarrow> seek_contexts lines path cs (s\<lparr>fuzz := fuzz s + f, lineIndex := i + 1\<rparr>))"

definition drop_blank_end :: "jstr list \<Rightarrow> jstr list" where
  "drop_blank_end ls = (if ls \<noteq> [] \<and> last ls = [] then butlast ls else ls)"

definition seek_chunk :: "jstr list \<Rightarrow> jstr \<Rightarrow> PatchChunk \<Rightarrow> seek_state \<Rightarrow> patch_error + seek_state" where
  "seek_chunk lines path chunk s0 =
     (case seek_contexts lines path (changeContexts chunk) s0 of
        Inl e \<Rightarrow> Inl e
      | Inr s \<Rightarrow>
          if oldLines chunk = [] then
            (let insertionIndex = (if lines \<noteq> [] \<and> last lines = [] then length lines - 1 else length lines)
             in Inr (s\<lparr>replacements := replacements s @
                  [\<lparr>repl_start = insertionIndex, repl_old = 0, repl_new = newLines chunk\<rparr>]\<rparr>))
          else
            (let found = seekSequenceWithFuzz lines (oldLines chunk) (lineIndex s) (isEndOfFile chunk);
                 (pattern, newls, found) =
                   (if found = None \<and> last (oldLines chunk) = [] then
                      (let pattern = butlast (oldLines chunk)
                       in (pattern, drop_blank_end (newLines chunk),
                           seekSequenceWithFuzz lines pattern (lineIndex s) (isEndOfFile chunk)))
                    else (oldLines chunk, newLines chunk, found))
             in case found of
                  None \<Rightarrow> Inl (LinesNotFound path (oldLines chunk))
                | Some (i, f) \<Rightarrow>
                    Inr \<lparr>lineIndex = i + length pattern, fuzz = fuzz s + f,
                      replacements = replacements s @
                        [\<lparr>repl_start = i, repl_old = length pattern, repl_new = newls\<rparr>]\<rparr>))"

fun seek_chunks :: "jstr list \<Rightarrow> jstr \<Rightarrow> PatchChunk list \<Rightarrow> seek_state \<Rightarrow> patch_error + seek_state" where
  "seek_chunks lines path [] s = Inr s"
| "seek_chunks lines path (c # cs) s =
     (case seek_chunk lines path c s of Inl e \<Rightarrow> Inl e | Inr s' \<Rightarrow> seek_chunks lines path cs s')"

text \<open>\<open>splice(start, oldLength, ...newLines)\<close>.\<close>

definition splice :: "jstr list \<Rightarrow> replacement \<Rightarrow> jstr list" where
  "splice ls r = take (repl_start r) ls @ repl_new r @ drop (repl_start r + repl_old r) ls"

definition descending :: "replacement list \<Rightarrow> replacement list" where
  "descending rs = sort_key (\<lambda>r. - int (repl_start r)) rs"

definition replaceChunks :: "jstr \<Rightarrow> jstr \<Rightarrow> PatchChunk list \<Rightarrow> patch_error + (jstr \<times> nat)" where
  "replaceChunks content path chunks =
     (let originalLines = splitFileLines content
      in case seek_chunks originalLines path chunks \<lparr>lineIndex = 0, fuzz = 0, replacements = []\<rparr> of
           Inl e \<Rightarrow> Inl e
         | Inr s \<Rightarrow>
             Inr (join [LF] (fold (\<lambda>r ls. splice ls r) (descending (replacements s)) originalLines @ [[]]), fuzz s))"

section \<open>A found position\<close>

lemma lines_match_iff:
  "lines_match f ls ps \<longleftrightarrow> length ps \<le> length ls \<and> map f (take (length ps) ls) = map f ps"
  by (induction f ls ps rule: lines_match.induct) auto

definition fuzz_view :: "nat \<Rightarrow> jstr \<Rightarrow> jstr" where
  "fuzz_view n = (if n = 0 then (\<lambda>l. l) else if n = 1 then trim_end else if n = 100 then trim else normalizeSeekLine)"

lemma fuzz_views:
  "fuzz_view 0 = (\<lambda>l. l)" "fuzz_view 1 = trim_end" "fuzz_view 100 = trim" "fuzz_view 10000 = normalizeSeekLine"
  by (simp_all add: fuzz_view_def)

lemma find_first:
  assumes "find P [a..<b] = Some i"
  shows "a \<le> i \<and> i < b \<and> P i \<and> (\<forall>j. a \<le> j \<and> j < i \<longrightarrow> \<not> P j)"
proof -
  obtain n where n: "n < length [a..<b]" "P ([a..<b] ! n)" "[a..<b] ! n = i" "\<forall>m<n. \<not> P ([a..<b] ! m)"
    using assms by (auto simp: find_Some_iff)
  then have "\<not> P j" if "a \<le> j" "j < i" for j
    using that spec [OF n(4), of "j - a"] by simp
  with n show ?thesis by auto
qed

lemma find_none: "find P [a..<b] = None \<Longrightarrow> a \<le> i \<Longrightarrow> i < b \<Longrightarrow> \<not> P i"
  by (auto simp: find_None_iff)

definition search_start :: "jstr list \<Rightarrow> jstr list \<Rightarrow> nat \<Rightarrow> bool \<Rightarrow> nat" where
  "search_start lines pattern start eof = (if eof then length lines - length pattern else start)"

text \<open>The pattern stands at \<open>i\<close>, seen with a given tolerance.\<close>

definition stands_at :: "nat \<Rightarrow> jstr list \<Rightarrow> jstr list \<Rightarrow> nat \<Rightarrow> bool" where
  "stands_at fz lines pattern i \<longleftrightarrow>
     i + length pattern \<le> length lines \<and>
     map (fuzz_view fz) (take (length pattern) (drop i lines)) = map (fuzz_view fz) pattern"


definition fuzzes :: "nat list" where
  "fuzzes = [0, 1, 100, 10000]"

lemma stands_at_match:
  assumes "length pattern \<le> length lines" and "i < Suc (length lines - length pattern)"
  shows "lines_match (fuzz_view fz) (drop i lines) pattern \<longleftrightarrow> stands_at fz lines pattern i"
  using assms unfolding lines_match_iff stands_at_def by auto

lemma first_match_Some:
  assumes "first_match (fuzz_view fz) lines pattern a = Some i" and "length pattern \<le> length lines"
  shows "a \<le> i \<and> stands_at fz lines pattern i \<and> (\<forall>j. a \<le> j \<and> j < i \<longrightarrow> \<not> stands_at fz lines pattern j)"
proof -
  note first = find_first [OF assms(1) [unfolded first_match_def]]
  then show ?thesis using stands_at_match [OF assms(2)] by (auto)
qed

lemma first_match_None:
  assumes "first_match (fuzz_view fz) lines pattern a = None" and "length pattern \<le> length lines" and "a \<le> j"
  shows "\<not> stands_at fz lines pattern j"
proof (cases "j < Suc (length lines - length pattern)")
  case True
  then show ?thesis
    using find_none [OF assms(1) [unfolded first_match_def] assms(3)] stands_at_match [OF assms(2)] by blast
next
  case False
  then have "\<not> j + length pattern \<le> length lines" using assms(2) by linarith
  then show ?thesis by (simp add: stands_at_def)
qed

lemma seek_steps:
  fixes start :: nat and eof :: bool
  assumes "pattern \<noteq> []" and "length pattern \<le> length lines"
  defines "a \<equiv> search_start lines pattern start eof"
  shows "seekSequenceWithFuzz lines pattern start eof =
    (case first_match (fuzz_view 0) lines pattern a of Some i \<Rightarrow> Some (i, 0)
     | None \<Rightarrow> (case first_match (fuzz_view 1) lines pattern a of Some i \<Rightarrow> Some (i, 1)
     | None \<Rightarrow> (case first_match (fuzz_view 100) lines pattern a of Some i \<Rightarrow> Some (i, 100)
     | None \<Rightarrow> (case first_match (fuzz_view 10000) lines pattern a of Some i \<Rightarrow> Some (i, 10000)
     | None \<Rightarrow> None))))"
  using assms(1,2) unfolding a_def fuzz_views search_start_def by (simp add: seekSequenceWithFuzz_def Let_def)

lemma seek_best:
  assumes "pattern \<noteq> []" and "seekSequenceWithFuzz lines pattern start eof = Some (i, fz)"
  shows "fz \<in> set fuzzes \<and> search_start lines pattern start eof \<le> i \<and> stands_at fz lines pattern i \<and>
    (\<forall>g \<in> set fuzzes. \<forall>j \<ge> search_start lines pattern start eof.
       stands_at g lines pattern j \<longrightarrow> fz < g \<or> fz = g \<and> i \<le> j)"
proof -
  have len: "length pattern \<le> length lines"
    using assms by (auto simp: seekSequenceWithFuzz_def split: if_splits)
  let ?a = "search_start lines pattern start eof"
  note none = first_match_None [OF _ len, of _ ?a]
  have some: "first_match (fuzz_view g) lines pattern ?a = Some k \<Longrightarrow>
      ?a \<le> k \<and> stands_at g lines pattern k \<and> (\<forall>j \<ge> ?a. stands_at g lines pattern j \<longrightarrow> k \<le> j)" for g k
    using first_match_Some [OF _ len] by (metis not_le)
  show ?thesis
    using assms(2) unfolding seek_steps [OF assms(1) len] fuzzes_def
    by (auto split: option.splits dest: some none)
qed

lemma seek_none:
  assumes "pattern \<noteq> []" and "seekSequenceWithFuzz lines pattern start eof = None"
    and "g \<in> set fuzzes" and "search_start lines pattern start eof \<le> j"
  shows "\<not> stands_at g lines pattern j"
proof (cases "length pattern \<le> length lines")
  case True
  show ?thesis
    using assms(2,3) first_match_None [OF _ True assms(4)] unfolding seek_steps [OF assms(1) True] fuzzes_def
    by (auto split: option.splits)
qed (simp add: stands_at_def)

text \<open>C35: the position found for a pattern matches it with the tolerance reported; nowhere in the
  range searched does the pattern stand with a smaller tolerance, nor earlier with the same; and
  nothing is found only where it stands nowhere.\<close>

theorem seek_first_best:
  assumes "pattern \<noteq> []"
  shows "case seekSequenceWithFuzz lines pattern start eof of
      Some (i, fz) \<Rightarrow> fz \<in> set fuzzes \<and> search_start lines pattern start eof \<le> i \<and> stands_at fz lines pattern i \<and>
        (\<forall>g \<in> set fuzzes. \<forall>j \<ge> search_start lines pattern start eof.
           stands_at g lines pattern j \<longrightarrow> fz < g \<or> fz = g \<and> i \<le> j)
    | None \<Rightarrow> \<forall>g \<in> set fuzzes. \<forall>j \<ge> search_start lines pattern start eof. \<not> stands_at g lines pattern j"
proof (cases "seekSequenceWithFuzz lines pattern start eof")
  case None
  then show ?thesis using seek_none [OF assms None] by simp
next
  case (Some r)
  then obtain i fz where "seekSequenceWithFuzz lines pattern start eof = Some (i, fz)" by (cases r) simp
  then show ?thesis using seek_best [OF assms] by simp
qed

theorem seek_first_best_witness:
  "stands_at 1 [js ''a '', js ''b'', js ''a''] [js ''a'', js ''b''] 0 \<and>
   seekSequenceWithFuzz [js ''a '', js ''b'', js ''a''] [js ''a'', js ''b''] 0 False = Some (0, 1)"
proof -
  have found: "seekSequenceWithFuzz [js ''a '', js ''b'', js ''a''] [js ''a'', js ''b''] 0 False = Some (0, 1)"
    by (simp add: seekSequenceWithFuzz_def first_match_def js_def trim_end_def is_space_def upt_rec)
  then show ?thesis
    using seek_first_best [of "[js ''a'', js ''b'']" "[js ''a '', js ''b'', js ''a'']" 0 False]
    by simp
qed


section \<open>Replacing in order\<close>

text \<open>What a chunk puts in the place of what: its new lines for lines that are its old ones up to a
  tolerance. A blank last old line may be left out, and then a blank last new line is too.\<close>

definition same_lines :: "jstr list \<Rightarrow> jstr list \<Rightarrow> bool" where
  "same_lines xs ys \<longleftrightarrow> (\<exists>fz \<in> set fuzzes. map (fuzz_view fz) xs = map (fuzz_view fz) ys)"

definition exchanges :: "PatchChunk \<Rightarrow> jstr list \<Rightarrow> jstr list \<Rightarrow> bool" where
  "exchanges c old new \<longleftrightarrow> same_lines old (oldLines c) \<and> new = newLines c \<or>
     last (oldLines c) = [] \<and> same_lines old (butlast (oldLines c)) \<and> new = drop_blank_end (newLines c)"

text \<open>The context lines of a chunk stand, in their order, before what it replaces.\<close>

fun contexts_stand :: "jstr list \<Rightarrow> jstr list \<Rightarrow> bool" where
  "contexts_stand [] pre = True"
| "contexts_stand (c # cs) pre = (\<exists>a l b. pre = a @ l # b \<and> same_lines [l] [c] \<and> contexts_stand cs b)"

text \<open>The file with its chunks exchanged one after another, each behind its contexts, and everything
  else untouched.\<close>

inductive patched :: "PatchChunk list \<Rightarrow> jstr list \<Rightarrow> jstr list \<Rightarrow> bool" where
  unchanged: "patched [] ls ls"
| exchanged: "\<lbrakk>contexts_stand (changeContexts c) pre; exchanges c old new; patched cs rest rest'\<rbrakk> \<Longrightarrow>
    patched (c # cs) (pre @ old @ rest) (pre @ new @ rest')"

text \<open>A chunk that replaces lines (more than one blank one) and is not tied to the end of the file.\<close>

definition replacing_chunk :: "PatchChunk \<Rightarrow> bool" where
  "replacing_chunk c \<longleftrightarrow> oldLines c \<noteq> [] \<and> oldLines c \<noteq> [[]] \<and> \<not> isEndOfFile c"

text \<open>A chunk whose last old line is not blank either.\<close>

definition plain_chunk :: "PatchChunk \<Rightarrow> bool" where
  "plain_chunk c \<longleftrightarrow> oldLines c \<noteq> [] \<and> last (oldLines c) \<noteq> [] \<and> \<not> isEndOfFile c"

fun in_order :: "jstr list \<Rightarrow> nat \<Rightarrow> replacement list \<Rightarrow> bool" where
  "in_order ls k [] \<longleftrightarrow> k \<le> length ls"
| "in_order ls k (r # rs) \<longleftrightarrow> k \<le> repl_start r \<and> 0 < repl_old r \<and> in_order ls (repl_start r + repl_old r) rs"

fun rebuilt :: "jstr list \<Rightarrow> nat \<Rightarrow> replacement list \<Rightarrow> jstr list" where
  "rebuilt ls k [] = drop k ls"
| "rebuilt ls k (r # rs) =
     take (repl_start r - k) (drop k ls) @ repl_new r @ rebuilt ls (repl_start r + repl_old r) rs"

lemma in_order_bound: "in_order ls k rs \<Longrightarrow> k \<le> length ls"
  by (induction rs arbitrary: k) fastforce+

lemma in_order_starts: "in_order ls k rs \<Longrightarrow> r \<in> set rs \<Longrightarrow> k \<le> repl_start r"
  by (induction rs arbitrary: k) fastforce+

lemma insort_key_last: "\<forall>y \<in> set ys. f y < f x \<Longrightarrow> insort_key f x ys = ys @ [x]"
  by (induction ys) (auto simp: not_le)

lemma descending_in_order: "in_order ls k rs \<Longrightarrow> descending rs = rev rs"
proof (induction rs arbitrary: k)
  case (Cons r rs)
  then have rest: "in_order ls (repl_start r + repl_old r) rs" and pos: "0 < repl_old r" by simp_all
  have "\<forall>y \<in> set (rev rs). - int (repl_start y) < - int (repl_start r)"
    using in_order_starts [OF rest] pos by fastforce
  then show ?case
    using Cons.IH [OF rest] by (simp add: descending_def insort_key_last)
qed (simp add: descending_def)

lemma fold_splice:
  "in_order ls k rs \<Longrightarrow> fold (\<lambda>r ls. splice ls r) (rev rs) ls = take k ls @ rebuilt ls k rs"
proof (induction rs arbitrary: k)
  case (Cons r rs)
  let ?s = "repl_start r" and ?e = "repl_start r + repl_old r"
  have rest: "in_order ls ?e rs" using Cons.prems by simp
  have bound: "?e \<le> length ls" by (rule in_order_bound [OF rest])
  have "take ?s ls = take k ls @ take (?s - k) (drop k ls)"
    using Cons.prems by (metis in_order.simps(2) le_add_diff_inverse take_add)
  then show ?case
    using Cons.IH [OF rest] bound by (simp add: splice_def min_def)
qed simp

lemma seek_contexts_stand:
  "seek_contexts lines path cs s = Inr s' \<Longrightarrow> lineIndex s \<le> length lines \<Longrightarrow>
   lineIndex s \<le> lineIndex s' \<and> lineIndex s' \<le> length lines \<and> replacements s' = replacements s \<and>
   (\<forall>i \<ge> lineIndex s'. contexts_stand cs (take (i - lineIndex s) (drop (lineIndex s) lines)))"
proof (induction cs arbitrary: s)
  case (Cons c cs)
  then obtain i f where found: "seekSequenceWithFuzz lines [c] (lineIndex s) False = Some (i, f)"
    by (auto split: option.splits)
  from seek_best [OF _ found] have i: "lineIndex s \<le> i" "i + 1 \<le> length lines" "same_lines [lines ! i] [c]"
    by (auto simp: search_start_def stands_at_def same_lines_def take_Suc_conv_app_nth hd_drop_conv_nth take_Suc)
  let ?k = "lineIndex s"
  note ih = Cons.IH [of "s\<lparr>fuzz := fuzz s + f, lineIndex := i + 1\<rparr>"]
  have rest: "i + 1 \<le> lineIndex s'" "lineIndex s' \<le> length lines" "replacements s' = replacements s"
    "\<forall>j \<ge> lineIndex s'. contexts_stand cs (take (j - (i + 1)) (drop (i + 1) lines))"
    using ih Cons.prems found i(2) by auto
  have "contexts_stand (c # cs) (take (j - ?k) (drop ?k lines))" if "lineIndex s' \<le> j" for j
  proof -
    have "drop ?k lines = take (i - ?k) (drop ?k lines) @ lines ! i # drop (i + 1) lines"
      using i(1,2) id_take_nth_drop [of "i - ?k" "drop ?k lines"] by (simp add: add.commute)
    moreover have "j - ?k = (i - ?k) + Suc (j - (i + 1))" using i(1) rest(1) that by simp
    ultimately have "take (j - ?k) (drop ?k lines) =
        take (i - ?k) (drop ?k lines) @ lines ! i # take (j - (i + 1)) (drop (i + 1) lines)"
      using i(1,2) by (metis (no_types, lifting) append_take_drop_id length_append length_drop min.absorb2 same_append_eq take_Suc_Cons take_add drop_drop)
    then show ?thesis using i(3) rest(4) that by auto
  qed
  then show ?case using rest i(1) by simp
qed simp

lemma seek_replacing_chunk:
  assumes "replacing_chunk c" and "seek_chunk lines path c s = Inr s'" and "lineIndex s \<le> length lines"
  obtains i n new where "lineIndex s \<le> i" "0 < n" "i + n \<le> length lines" "exchanges c (take n (drop i lines)) new"
    "contexts_stand (changeContexts c) (take (i - lineIndex s) (drop (lineIndex s) lines))" "lineIndex s' = i + n"
    "replacements s' = replacements s @ [\<lparr>repl_start = i, repl_old = n, repl_new = new\<rparr>]"
proof -
  obtain t where t: "seek_contexts lines path (changeContexts c) s = Inr t"
    using assms(2) by (auto simp: seek_chunk_def split: sum.splits)
  note mono = seek_contexts_stand [OF t assms(3)]
  have c: "oldLines c \<noteq> []" "oldLines c \<noteq> [[]]" "\<not> isEndOfFile c"
    using assms(1) by (auto simp: replacing_chunk_def)
  let ?found = "seekSequenceWithFuzz lines (oldLines c) (lineIndex t) False"
  obtain pattern new i fz where found: "seekSequenceWithFuzz lines pattern (lineIndex t) False = Some (i, fz)"
    and s': "s' = \<lparr>lineIndex = i + length pattern, fuzz = fuzz t + fz,
      replacements = replacements t @ [\<lparr>repl_start = i, repl_old = length pattern, repl_new = new\<rparr>]\<rparr>"
    and which: "pattern = oldLines c \<and> new = newLines c \<or>
      last (oldLines c) = [] \<and> pattern = butlast (oldLines c) \<and> new = drop_blank_end (newLines c)"
    using assms(2) c by (auto simp: seek_chunk_def t Let_def split: option.splits if_splits)
  have "butlast (oldLines c) \<noteq> []" if "last (oldLines c) = []"
    using c that by (metis append_butlast_last_id append_Nil)
  then have pattern: "pattern \<noteq> []" using which c(1) by auto
  from seek_best [OF pattern found] have i: "lineIndex t \<le> i" "i + length pattern \<le> length lines"
    "same_lines (take (length pattern) (drop i lines)) pattern"
    by (auto simp: search_start_def stands_at_def same_lines_def)
  show thesis
    using i which pattern mono s' by (intro that [of i "length pattern" new]) (auto simp: exchanges_def)
qed

lemma seek_chunks_patched:
  "\<lbrakk>\<forall>c \<in> set cs. replacing_chunk c; seek_chunks lines path cs s = Inr s'; lineIndex s \<le> length lines\<rbrakk> \<Longrightarrow>
   \<exists>rs. replacements s' = replacements s @ rs \<and> in_order lines (lineIndex s) rs \<and>
     patched cs (drop (lineIndex s) lines) (rebuilt lines (lineIndex s) rs)"
proof (induction cs arbitrary: s)
  case Nil
  then show ?case by (intro exI [of _ "[]"]) (auto intro: patched.unchanged)
next
  case (Cons c cs)
  then obtain t where t: "seek_chunk lines path c s = Inr t" "seek_chunks lines path cs t = Inr s'"
    by (auto split: sum.splits)
  let ?k = "lineIndex s"
  from Cons.prems have c: "replacing_chunk c" by simp
  obtain i n new where i: "?k \<le> i" "0 < n" "i + n \<le> length lines" "exchanges c (take n (drop i lines)) new"
    "contexts_stand (changeContexts c) (take (i - ?k) (drop ?k lines))" "lineIndex t = i + n"
    "replacements t = replacements s @ [\<lparr>repl_start = i, repl_old = n, repl_new = new\<rparr>]"
    using seek_replacing_chunk [OF c t(1) Cons.prems(3)] by metis
  obtain rs where rs: "replacements s' = replacements t @ rs" "in_order lines (lineIndex t) rs"
    "patched cs (drop (lineIndex t) lines) (rebuilt lines (lineIndex t) rs)"
    using Cons.IH [OF _ t(2)] Cons.prems(1) i(3,6) by auto
  let ?r = "\<lparr>repl_start = i, repl_old = n, repl_new = new\<rparr>"
  have "drop ?k lines = take (i - ?k) (drop ?k lines) @ take n (drop i lines) @ drop (i + n) lines"
    using i(1) by (metis add.commute append_take_drop_id drop_drop le_add_diff_inverse2)
  moreover have "patched (c # cs) (take (i - ?k) (drop ?k lines) @ take n (drop i lines) @ drop (i + n) lines)
      (take (i - ?k) (drop ?k lines) @ new @ rebuilt lines (i + n) rs)"
    using rs(3) i(6) by (intro patched.exchanged [OF i(5,4)]) simp
  ultimately have "patched (c # cs) (drop ?k lines) (rebuilt lines ?k (?r # rs))" by simp
  moreover have "in_order lines ?k (?r # rs)"
    using i(1,2,6) rs(2) by simp
  ultimately show ?case
    using rs(1) i(7) by (intro exI [of _ "?r # rs"]) simp
qed

text \<open>C32: of chunks that each replace lines (more than a single blank one) and are not tied to the end of the
  file: the lines that are written for a file are its lines with the chunks exchanged in order, each for old lines
  that match it (perhaps without a last blank one) and behind its context lines, and no other line changed. The
  theorem is about lines: every line is written with a line feed at its end, whatever ended it before, the last
  one too. Chunks that only add lines or are tied to the end of the file are left out, since they need not be
  applied in order (lemmas \<open>insertions_reversed\<close> and \<open>end_of_file_lost\<close>).\<close>

theorem replaced_in_order:
  assumes "\<forall>c \<in> set chunks. replacing_chunk c" and "replaceChunks content path chunks = Inr (content', fz)"
  shows "\<exists>lines'. patched chunks (splitFileLines content) lines' \<and> content' = join [LF] (lines' @ [[]])"
proof -
  let ?ls = "splitFileLines content"
  obtain s where s: "seek_chunks ?ls path chunks \<lparr>lineIndex = 0, fuzz = 0, replacements = []\<rparr> = Inr s"
    and content': "content' = join [LF] (fold (\<lambda>r ls. splice ls r) (descending (replacements s)) ?ls @ [[]])"
    using assms(2) by (auto simp: replaceChunks_def Let_def split: sum.splits)
  from seek_chunks_patched [OF assms(1) s] obtain rs where "replacements s = rs" "in_order ?ls 0 rs"
    "patched chunks ?ls (rebuilt ?ls 0 rs)" by auto
  then show ?thesis
    using content' descending_in_order fold_splice by (intro exI [of _ "rebuilt ?ls 0 rs"]) simp
qed


definition abc_chunk :: PatchChunk where
  "abc_chunk = \<lparr>changeContexts = [], oldLines = [js ''b''], newLines = [js ''x'', js ''y''], isEndOfFile = False\<rparr>"

lemma abc_replaced:
  "replaceChunks (js ''a'' @ [LF] @ js ''b'' @ [LF] @ js ''c'') (js ''f'') [abc_chunk] =
     Inr (join [LF] [js ''a'', js ''x'', js ''y'', js ''c'', []], 0)"
  by (simp add: replaceChunks_def splitFileLines_def normalizePatchText_def abc_chunk_def seek_chunk_def
      seekSequenceWithFuzz_def first_match_def descending_def splice_def js_def Let_def upt_rec)

theorem replaced_in_order_witness:
  "\<exists>lines'. patched [abc_chunk] (splitFileLines (js ''a'' @ [LF] @ js ''b'' @ [LF] @ js ''c'')) lines' \<and>
     join [LF] [js ''a'', js ''x'', js ''y'', js ''c'', []] = join [LF] (lines' @ [[]])"
  by (rule replaced_in_order [OF _ abc_replaced]) (simp add: replacing_chunk_def abc_chunk_def js_def)

section \<open>Chunks that stand in the file are found\<close>

fun present :: "PatchChunk list \<Rightarrow> jstr list \<Rightarrow> bool" where
  "present [] ls \<longleftrightarrow> True"
| "present (c # cs) ls \<longleftrightarrow>
     (\<exists>i. stands_at 0 ls (oldLines c) i \<and> present cs (drop (i + length (oldLines c)) ls))"

lemma stands_at_drop:
  "stands_at g (drop k ls) p i \<longleftrightarrow> stands_at g ls p (k + i) \<or> length ls < k \<and> p = [] \<and> i = 0"
  by (auto simp: stands_at_def add.commute)

lemma present_earlier: "present cs (drop n ls) \<Longrightarrow> m \<le> n \<Longrightarrow> n \<le> length ls \<Longrightarrow> present cs (drop m ls)"
proof (cases cs)
  case (Cons c cs')
  assume "present cs (drop n ls)" "m \<le> n" "n \<le> length ls"
  then obtain i where i: "stands_at 0 (drop n ls) (oldLines c) i"
    "present cs' (drop (i + length (oldLines c)) (drop n ls))"
    by (auto simp: Cons simp del: drop_drop)
  have "n - m + i + length (oldLines c) + m = i + length (oldLines c) + n" using \<open>m \<le> n\<close> by simp
  then have "present cs' (drop (n - m + i + length (oldLines c)) (drop m ls))"
    using i(2) by (simp only: drop_drop)
  moreover have "stands_at 0 (drop m ls) (oldLines c) (n - m + i)"
    using i(1) \<open>m \<le> n\<close> \<open>n \<le> length ls\<close> by (auto simp: stands_at_drop)
  ultimately show ?thesis by (auto simp: Cons simp del: drop_drop)
qed simp

lemma seek_chunks_present:
  "\<lbrakk>\<forall>c \<in> set cs. plain_chunk c \<and> changeContexts c = []; present cs (drop (lineIndex s) lines);
    lineIndex s \<le> length lines\<rbrakk> \<Longrightarrow>
   \<exists>s'. seek_chunks lines path cs s = Inr s' \<and> fuzz s' = fuzz s"
proof (induction cs arbitrary: s)
  case (Cons c cs)
  let ?k = "lineIndex s" and ?n = "length (oldLines c)"
  have plain: "oldLines c \<noteq> []" "\<not> isEndOfFile c" "changeContexts c = []" "last (oldLines c) \<noteq> []"
    using Cons.prems(1) by (simp_all add: plain_chunk_def)
  obtain i where i: "stands_at 0 lines (oldLines c) (?k + i)" "present cs (drop (?k + i + ?n) lines)"
    using Cons.prems(2,3) by (auto simp: stands_at_drop add.commute add.left_commute)
  have zero: "(0::nat) \<in> set fuzzes" by (simp add: fuzzes_def)
  have start: "search_start lines (oldLines c) ?k False \<le> ?k + i" by (simp add: search_start_def)
  obtain j fz where found: "seekSequenceWithFuzz lines (oldLines c) ?k False = Some (j, fz)"
    using seek_none [OF plain(1) _ zero start] i(1)
    by (cases "seekSequenceWithFuzz lines (oldLines c) ?k False") auto
  have best: "fz = 0" "j \<le> ?k + i" "stands_at fz lines (oldLines c) j"
    using seek_best [OF plain(1) found] zero start i(1) by auto
  let ?s = "\<lparr>lineIndex = j + ?n, fuzz = fuzz s, replacements = replacements s @
      [\<lparr>repl_start = j, repl_old = ?n, repl_new = newLines c\<rparr>]\<rparr>"
  have step: "seek_chunk lines path c s = Inr ?s"
    using plain found best(1) by (simp add: seek_chunk_def)
  have "present cs (drop (j + ?n) lines)"
    using i best(2) by (intro present_earlier [OF i(2)]) (auto simp: stands_at_def)
  then show ?case
    using Cons.IH [of ?s] Cons.prems(1) best(3) step by (auto simp: stands_at_def)
qed auto

text \<open>Chunks whose old lines stand in the file in their order are applied, exactly.\<close>

theorem present_chunks_apply:
  assumes "\<forall>c \<in> set chunks. plain_chunk c \<and> changeContexts c = []" and "present chunks (splitFileLines content)"
  shows "\<exists>content'. replaceChunks content path chunks = Inr (content', 0)"
proof -
  obtain s where "seek_chunks (splitFileLines content) path chunks
      \<lparr>lineIndex = 0, fuzz = 0, replacements = []\<rparr> = Inr s" "fuzz s = 0"
    using seek_chunks_present [OF assms(1), of "\<lparr>lineIndex = 0, fuzz = 0, replacements = []\<rparr>"
        "splitFileLines content" path] assms(2) by auto
  then show ?thesis by (simp add: replaceChunks_def Let_def)
qed

theorem present_chunks_apply_witness:
  "\<exists>content'. replaceChunks (js ''a'' @ [LF] @ js ''b'') (js ''f'') [abc_chunk] = Inr (content', 0)"
proof (rule present_chunks_apply)
  show "present [abc_chunk] (splitFileLines (js ''a'' @ [LF] @ js ''b''))"
    by (auto simp: abc_chunk_def splitFileLines_def normalizePatchText_def js_def stands_at_def intro!: exI [of _ 1])
qed (simp add: plain_chunk_def abc_chunk_def js_def)

text \<open>A chunk that is tied to the end of the file is looked for there even if an earlier chunk has replaced those
  lines: the two overlap, and what the later chunk writes is lost without an error.\<close>

lemma end_of_file_lost:
  "replaceChunks (js ''a'' @ [LF] @ js ''b'') path
     [\<lparr>changeContexts = [], oldLines = [js ''a'', js ''b''], newLines = [js ''x'', js ''y''], isEndOfFile = False\<rparr>,
      \<lparr>changeContexts = [], oldLines = [js ''b''], newLines = [js ''z''], isEndOfFile = True\<rparr>] =
   Inr (join [LF] [js ''x'', js ''y'', []], 0)"
  by (simp add: replaceChunks_def splitFileLines_def normalizePatchText_def seek_chunk_def
      seekSequenceWithFuzz_def first_match_def descending_def splice_def js_def Let_def upt_rec)

text \<open>Two chunks that only insert lines are written in the reverse of their order: the stable
  sort by descending start keeps them in order, and each is spliced in at the same line.\<close>

theorem insertions_reversed:
  assumes "ls \<noteq> []" and "last ls \<noteq> []" and "\<forall>l \<in> set ls. one_line l"
  shows "replaceChunks (join [LF] ls) path
     [\<lparr>changeContexts = [], oldLines = [], newLines = first, isEndOfFile = e\<rparr>,
      \<lparr>changeContexts = [], oldLines = [], newLines = second, isEndOfFile = e'\<rparr>] =
     Inr (join [LF] (ls @ second @ first @ [[]]), 0)"
proof -
  have "CR \<notin> set (join [LF] ls)" using set_join [of "[LF]" ls] assms(3) by (auto simp: one_line_def)
  moreover have "split_on LF (join [LF] ls) = ls"
    using assms by (intro split_join) (auto simp: one_line_def)
  ultimately have "splitFileLines (join [LF] ls) = ls"
    using assms(2) by (simp add: splitFileLines_def normalize_id)
  then show ?thesis
    using assms(2) by (simp add: replaceChunks_def seek_chunk_def descending_def splice_def)
qed

theorem insertions_reversed_witness:
  "replaceChunks (js ''a'') (js ''f'')
     [\<lparr>changeContexts = [], oldLines = [], newLines = [js ''b''], isEndOfFile = False\<rparr>,
      \<lparr>changeContexts = [], oldLines = [], newLines = [js ''c''], isEndOfFile = False\<rparr>] =
     Inr (js ''a'' @ [LF] @ js ''c'' @ [LF] @ js ''b'' @ [LF], 0)"
  using insertions_reversed [of "[js ''a'']" "js ''f''" "[js ''b'']" False "[js ''c'']" False]
  by (simp add: one_line_def js_def)

end
