(* ===== verification/DiffParts.thy ===== *)
theory DiffParts
  imports JsText
begin

text \<open>
  What \<open>diffLines\<close> of the npm package \<open>diff\<close> returns, and what the two places that show a diff
  (\<open>patch-diff.ts\<close> and \<open>edit-diff.ts\<close>) share: the lines of a part and a padded line number.
\<close>

datatype DiffPart = DiffPart (part_value: jstr) (part_added: bool) (part_removed: bool)

text \<open>\<open>String(n).padStart(width, " ")\<close>.\<close>

definition pad_number :: "nat \<Rightarrow> nat \<Rightarrow> jstr" where
  "pad_number width n = replicate (width - length (decimal n)) 32 @ decimal n"

definition part_lines :: "DiffPart \<Rightarrow> jstr list" where
  "part_lines part = (let raw = split_on LF (part_value part) in if last raw = [] then butlast raw else raw)"

end
