(* ===== verification/PatchApply.thy ===== *)
theory PatchApply
  imports PatchReplace Utf8 DiffParts
begin

text \<open>
  Applying a patch to the file system (\<open>apply.ts\<close>, \<open>preview.ts\<close>, \<open>patch-diff.ts\<close>, \<open>recovery.ts\<close>,
  \<open>errors.ts\<close>). The file system maps absolute paths to bytes; directories are implicit. What
  the code calls outside the repository is a field of \<open>patch_env\<close>: path resolution, the name of a
  temporary file, the line diff, and which system call fails with which error code. The mutation
  queue, which only orders concurrent patches, is left out: one patch runs at a time.
\<close>

section \<open>The world\<close>

type_synonym filesystem = "jstr \<rightharpoonup> byte list"

datatype syscall = ReadFile jstr | MkDirOf jstr | WriteFile jstr | Rename jstr jstr | Unlink jstr | Rm jstr

record patch_env =
  resolvePatchPath :: "jstr \<Rightarrow> jstr"
  temp_path :: "jstr \<Rightarrow> jstr"
  fault :: "filesystem \<Rightarrow> syscall \<Rightarrow> jstr option"
  createUnifiedPatch :: "jstr \<Rightarrow> jstr \<Rightarrow> jstr \<Rightarrow> jstr \<Rightarrow> jstr"
  diffLines :: "jstr \<Rightarrow> jstr \<Rightarrow> DiffPart list"

definition ENOENT :: jstr where "ENOENT = js ''ENOENT''"
definition EEXIST :: jstr where "EEXIST = js ''EEXIST''"

datatype apply_error =
    PatchProblem patch_error
  | SystemError jstr          \<comment> \<open>an error with a code\<close>
  | BinaryChunks jstr
  | BinaryWithoutMove jstr
  | EmptyPatch
  | NoHunksFound

fun extractErrorCode :: "apply_error \<Rightarrow> jstr option" where
  "extractErrorCode (SystemError c) = Some c"
| "extractErrorCode _ = None"

definition hasErrorCode :: "apply_error \<Rightarrow> jstr \<Rightarrow> bool" where
  "hasErrorCode e code \<longleftrightarrow> extractErrorCode e = Some code"

text \<open>Effects: the file system after the call, and a result or what it threw.\<close>

type_synonym 'a io = "filesystem \<Rightarrow> filesystem \<times> (apply_error + 'a)"

definition io_return :: "'a \<Rightarrow> 'a io" where
  "io_return x fs = (fs, Inr x)"

definition io_throw :: "apply_error \<Rightarrow> 'a io" where
  "io_throw e fs = (fs, Inl e)"

definition io_bind :: "'a io \<Rightarrow> ('a \<Rightarrow> 'b io) \<Rightarrow> 'b io" where
  "io_bind m f fs = (case m fs of (fs', Inl e) \<Rightarrow> (fs', Inl e) | (fs', Inr x) \<Rightarrow> f x fs')"

definition io_catch :: "'a io \<Rightarrow> (apply_error \<Rightarrow> 'a io) \<Rightarrow> 'a io" where
  "io_catch m h fs = (case m fs of (fs', Inl e) \<Rightarrow> h e fs' | (fs', Inr x) \<Rightarrow> (fs', Inr x))"

definition syscall_io :: "patch_env \<Rightarrow> syscall \<Rightarrow> 'a io \<Rightarrow> 'a io" where
  "syscall_io env c m fs = (case fault env fs c of Some code \<Rightarrow> (fs, Inl (SystemError code)) | None \<Rightarrow> m fs)"

definition readFile :: "patch_env \<Rightarrow> jstr \<Rightarrow> byte list io" where
  "readFile env p = syscall_io env (ReadFile p)
     (\<lambda>fs. case fs p of None \<Rightarrow> (fs, Inl (SystemError ENOENT)) | Some bs \<Rightarrow> (fs, Inr bs))"

definition make_parents :: "patch_env \<Rightarrow> jstr \<Rightarrow> unit io" where
  "make_parents env p = syscall_io env (MkDirOf p) (io_return ())"

definition writeFile :: "patch_env \<Rightarrow> jstr \<Rightarrow> byte list \<Rightarrow> unit io" where
  "writeFile env p bs = syscall_io env (WriteFile p) (\<lambda>fs. (fs(p \<mapsto> bs), Inr ()))"

definition rename_file :: "patch_env \<Rightarrow> jstr \<Rightarrow> jstr \<Rightarrow> unit io" where
  "rename_file env a b = syscall_io env (Rename a b)
     (\<lambda>fs. case fs a of None \<Rightarrow> (fs, Inl (SystemError ENOENT)) | Some bs \<Rightarrow> ((fs(a := None))(b \<mapsto> bs), Inr ()))"

definition remove_with :: "patch_env \<Rightarrow> syscall \<Rightarrow> jstr \<Rightarrow> unit io" where
  "remove_with env c p = syscall_io env c
     (\<lambda>fs. case fs p of None \<Rightarrow> (fs, Inl (SystemError ENOENT)) | Some bs \<Rightarrow> (fs(p := None), Inr ()))"

definition unlink :: "patch_env \<Rightarrow> jstr \<Rightarrow> unit io" where
  "unlink env p = remove_with env (Unlink p) p"

definition rm :: "patch_env \<Rightarrow> jstr \<Rightarrow> unit io" where
  "rm env p = remove_with env (Rm p) p"

section \<open>Snapshots\<close>

record PatchFileSnapshot =
  snap_exists :: bool
  snap_content :: jstr
  snap_binary :: bool
  snap_bytes :: "byte list option"

text \<open>\<open>new TextDecoder("utf-8", { fatal: true })\<close>, which drops a byte order mark.\<close>

definition text_decode :: "byte list \<Rightarrow> jstr option" where
  "text_decode bs = utf8_decode (if take 3 bs = [0xEF, 0xBB, 0xBF] then drop 3 bs else bs)"

definition readPatchFileSnapshot :: "patch_env \<Rightarrow> jstr \<Rightarrow> PatchFileSnapshot io" where
  "readPatchFileSnapshot env p =
     io_catch
       (io_bind (readFile env p) (\<lambda>bytes.
          let binary = \<lparr>snap_exists = True, snap_content = [], snap_binary = True, snap_bytes = Some bytes\<rparr>
          in io_return (if 0 \<in> set bytes then binary
               else case text_decode bytes of
                   None \<Rightarrow> binary
                 | Some content \<Rightarrow> \<lparr>snap_exists = True, snap_content = content, snap_binary = False, snap_bytes = None\<rparr>)))
       (\<lambda>e. if hasErrorCode e ENOENT
             then io_return \<lparr>snap_exists = False, snap_content = [], snap_binary = False, snap_bytes = None\<rparr>
             else io_throw e)"

section \<open>Writing\<close>

definition replace_with_temp :: "patch_env \<Rightarrow> jstr \<Rightarrow> byte list \<Rightarrow> unit io" where
  "replace_with_temp env absPath content =
     (let tempPath = temp_path env absPath
      in io_bind (writeFile env tempPath content) (\<lambda>_.
           io_catch (rename_file env tempPath absPath) (\<lambda>e.
             if \<not> hasErrorCode e EEXIST then io_throw e
             else io_bind (unlink env absPath) (\<lambda>_. rename_file env tempPath absPath))))"

definition writeFileAtomic :: "patch_env \<Rightarrow> jstr \<Rightarrow> jstr \<Rightarrow> unit io" where
  "writeFileAtomic env absPath content = replace_with_temp env absPath (utf8_encode content)"

definition writeBinaryFileAtomic :: "patch_env \<Rightarrow> jstr \<Rightarrow> byte list \<Rightarrow> unit io" where
  "writeBinaryFileAtomic env absPath content = replace_with_temp env absPath content"


section \<open>The diff shown for a file\<close>

record diff_state =
  out_lines :: "jstr list"
  oldLineNum :: nat
  newLineNum :: nat
  added_lines :: nat
  removed_lines :: nat

definition diff_line :: "nat \<Rightarrow> DiffPart \<Rightarrow> jstr \<Rightarrow> diff_state \<Rightarrow> diff_state" where
  "diff_line width part line d =
     (if part_added part then
        d\<lparr>out_lines := out_lines d @ [43 # pad_number width (newLineNum d) @ [32] @ line],
          newLineNum := newLineNum d + 1, added_lines := added_lines d + 1\<rparr>
      else if part_removed part then
        d\<lparr>out_lines := out_lines d @ [45 # pad_number width (oldLineNum d) @ [32] @ line],
          oldLineNum := oldLineNum d + 1, removed_lines := removed_lines d + 1\<rparr>
      else
        d\<lparr>out_lines := out_lines d @ [32 # pad_number width (oldLineNum d) @ [32] @ line],
          oldLineNum := oldLineNum d + 1, newLineNum := newLineNum d + 1\<rparr>)"

definition diff_part :: "nat \<Rightarrow> DiffPart \<Rightarrow> diff_state \<Rightarrow> diff_state" where
  "diff_part width part d = fold (diff_line width part) (part_lines part) d"

definition createPatchDiff :: "patch_env \<Rightarrow> jstr \<Rightarrow> jstr \<Rightarrow> jstr \<times> nat \<times> nat" where
  "createPatchDiff env oldContent newContent =
     (let width = length (decimal (max (length (split_on LF oldContent)) (length (split_on LF newContent))));
          d = fold (diff_part width) (diffLines env oldContent newContent)
                \<lparr>out_lines = [], oldLineNum = 1, newLineNum = 1, added_lines = 0, removed_lines = 0\<rparr>
      in (join [LF] (out_lines d), added_lines d, removed_lines d))"

section \<open>The preview of a file\<close>

datatype ApplyPatchOperation = OpAdd | OpDelete | OpUpdate

record ApplyPatchPreviewFile =
  pv_filePath :: jstr
  pv_movePath :: "jstr option"
  pv_operation :: ApplyPatchOperation
  pv_binary :: bool
  pv_diff :: jstr
  pv_patch :: "jstr option"
  pv_added :: nat
  pv_removed :: nat

fun hunk_path :: "ParsedPatch \<Rightarrow> jstr" where
  "hunk_path (PAdd p c) = p"
| "hunk_path (PDelete p) = p"
| "hunk_path (PUpdate p m cs) = p"

fun hunk_operation :: "ParsedPatch \<Rightarrow> ApplyPatchOperation" where
  "hunk_operation (PAdd p c) = OpAdd"
| "hunk_operation (PDelete p) = OpDelete"
| "hunk_operation (PUpdate p m cs) = OpUpdate"

text \<open>A move path that is truthy.\<close>

fun hunk_move :: "ParsedPatch \<Rightarrow> jstr option" where
  "hunk_move (PUpdate p m cs) = (if m = Some [] then None else m)"
| "hunk_move _ = None"

definition dev_null :: jstr where
  "dev_null = js ''/dev/null''"

definition createMovePatch ::
  "patch_env \<Rightarrow> jstr \<Rightarrow> jstr option \<Rightarrow> jstr \<Rightarrow> jstr \<Rightarrow> PatchFileSnapshot option \<Rightarrow> jstr" where
  "createMovePatch env filePath movePath oldContent newContent moveDestination =
     (case movePath of
        None \<Rightarrow> createUnifiedPatch env filePath filePath oldContent newContent
      | Some m \<Rightarrow>
          if m = [] \<or> m = filePath then createUnifiedPatch env filePath m oldContent newContent
          else
            createUnifiedPatch env (js ''a/'' @ filePath) dev_null oldContent [] @
            (case moveDestination of
               Some d \<Rightarrow>
                 if snap_exists d then
                   (if snap_content d = newContent then []
                    else createUnifiedPatch env (js ''a/'' @ m) (js ''b/'' @ m) (snap_content d) newContent)
                 else createUnifiedPatch env dev_null (js ''b/'' @ m) [] newContent
             | None \<Rightarrow> createUnifiedPatch env dev_null (js ''b/'' @ m) [] newContent))"

definition text_preview ::
  "patch_env \<Rightarrow> jstr \<Rightarrow> jstr option \<Rightarrow> ApplyPatchOperation \<Rightarrow> jstr \<Rightarrow> jstr \<Rightarrow> jstr \<Rightarrow> ApplyPatchPreviewFile" where
  "text_preview env path movePath operation patch old new =
     (case createPatchDiff env old new of (diff, added, removed) \<Rightarrow>
        \<lparr>pv_filePath = path, pv_movePath = movePath, pv_operation = operation, pv_binary = False,
          pv_diff = diff, pv_patch = Some patch, pv_added = added, pv_removed = removed\<rparr>)"

definition buildPatchPreviewFile ::
  "patch_env \<Rightarrow> ParsedPatch \<Rightarrow> PatchFileSnapshot \<Rightarrow> jstr \<Rightarrow> PatchFileSnapshot option \<Rightarrow> ApplyPatchPreviewFile" where
  "buildPatchPreviewFile env hunk source newContent moveDestination =
     (if snap_binary source \<or> (case moveDestination of None \<Rightarrow> False | Some d \<Rightarrow> snap_binary d) then
        \<lparr>pv_filePath = hunk_path hunk, pv_movePath = hunk_move hunk,
          pv_operation = (if hunk_operation hunk = OpAdd \<and> snap_exists source then OpUpdate else hunk_operation hunk),
          pv_binary = True, pv_diff = [], pv_patch = None, pv_added = 0, pv_removed = 0\<rparr>
      else case hunk of
          PAdd path content \<Rightarrow>
            (let operation = (if snap_exists source then OpUpdate else OpAdd)
             in text_preview env path None operation
                  (createUnifiedPatch env (if operation = OpAdd then dev_null else path) path
                     (snap_content source) newContent)
                  (snap_content source) newContent)
        | PDelete path \<Rightarrow>
            text_preview env path None OpDelete (createUnifiedPatch env path dev_null (snap_content source) [])
              (snap_content source) []
        | PUpdate path movePath chunks \<Rightarrow>
            text_preview env path movePath OpUpdate
              (createMovePatch env path movePath (snap_content source) newContent moveDestination)
              (snap_content source) newContent)"

section \<open>One hunk\<close>

record applied_hunk =
  ah_summary :: jstr
  ah_file :: jstr
  ah_fuzz :: nat
  ah_preview :: ApplyPatchPreviewFile

definition applied :: "jstr \<Rightarrow> jstr \<Rightarrow> nat \<Rightarrow> ApplyPatchPreviewFile \<Rightarrow> applied_hunk io" where
  "applied summary file fz preview =
     io_return \<lparr>ah_summary = summary, ah_file = file, ah_fuzz = fz, ah_preview = preview\<rparr>"

definition move_summary :: "jstr \<Rightarrow> jstr \<Rightarrow> jstr" where
  "move_summary a b = js ''move: '' @ a @ js '' -> '' @ b"

definition lift_patch :: "patch_error + 'a \<Rightarrow> 'a io" where
  "lift_patch r = (case r of Inl e \<Rightarrow> io_throw (PatchProblem e) | Inr x \<Rightarrow> io_return x)"

text \<open>An update whose source is binary: it can only be moved.\<close>

definition move_binary ::
  "patch_env \<Rightarrow> ParsedPatch \<Rightarrow> PatchFileSnapshot \<Rightarrow> PatchFileSnapshot option \<Rightarrow> PatchChunk list \<Rightarrow> applied_hunk io" where
  "move_binary env hunk source moveDestination chunks =
     (let path = hunk_path hunk; absolutePath = resolvePatchPath env path
      in if chunks \<noteq> [] then io_throw (BinaryChunks path)
         else case (hunk_move hunk, snap_bytes source) of
             (Some m, Some bytes) \<Rightarrow>
               (let target = resolvePatchPath env m
                in io_bind (make_parents env target) (\<lambda>_.
                   io_bind (writeBinaryFileAtomic env target bytes) (\<lambda>_.
                   io_bind (if target \<noteq> absolutePath then rm env absolutePath else io_return ()) (\<lambda>_.
                   applied (move_summary path m) m 0 (buildPatchPreviewFile env hunk source [] moveDestination)))))
           | _ \<Rightarrow> io_throw (BinaryWithoutMove path))"

definition update_text ::
  "patch_env \<Rightarrow> ParsedPatch \<Rightarrow> PatchFileSnapshot \<Rightarrow> PatchFileSnapshot option \<Rightarrow> PatchChunk list \<Rightarrow> applied_hunk io" where
  "update_text env hunk source moveDestination chunks =
     (let path = hunk_path hunk; absolutePath = resolvePatchPath env path
      in io_bind (lift_patch (if chunks = [] then Inr (snap_content source, 0)
                              else replaceChunks (snap_content source) path chunks)) (\<lambda>(content, fz).
         case hunk_move hunk of
           Some m \<Rightarrow>
             (let target = resolvePatchPath env m
              in io_bind (make_parents env target) (\<lambda>_.
                 io_bind (writeFileAtomic env target content) (\<lambda>_.
                 io_bind (if target \<noteq> absolutePath then rm env absolutePath else io_return ()) (\<lambda>_.
                 applied (move_summary path m) m fz (buildPatchPreviewFile env hunk source content moveDestination)))))
         | None \<Rightarrow>
             io_bind (writeFileAtomic env absolutePath content) (\<lambda>_.
             applied (js ''update: '' @ path) path fz (buildPatchPreviewFile env hunk source content None))))"

definition applySingleHunk :: "patch_env \<Rightarrow> ParsedPatch \<Rightarrow> applied_hunk io" where
  "applySingleHunk env hunk =
     (let path = hunk_path hunk; absolutePath = resolvePatchPath env path
      in io_bind (readPatchFileSnapshot env absolutePath) (\<lambda>source.
         case hunk of
           PAdd _ content \<Rightarrow>
             io_bind (make_parents env absolutePath) (\<lambda>_.
             io_bind (writeFileAtomic env absolutePath content) (\<lambda>_.
             applied (js ''add: '' @ path) path 0 (buildPatchPreviewFile env hunk source content None)))
         | PDelete _ \<Rightarrow>
             io_bind (rm env absolutePath) (\<lambda>_.
             applied (js ''delete: '' @ path) path 0 (buildPatchPreviewFile env hunk source [] None))
         | PUpdate _ _ chunks \<Rightarrow>
             if \<not> snap_exists source then io_throw (SystemError ENOENT)
             else
               io_bind (case hunk_move hunk of
                   Some m \<Rightarrow>
                     (if resolvePatchPath env m \<noteq> absolutePath
                      then io_bind (readPatchFileSnapshot env (resolvePatchPath env m)) (\<lambda>d. io_return (Some d))
                      else io_return None)
                 | None \<Rightarrow> io_return None) (\<lambda>moveDestination.
               if snap_binary source then move_binary env hunk source moveDestination chunks
               else update_text env hunk source moveDestination chunks)))"

section \<open>A whole patch\<close>

record ApplyPatchFailure =
  fl_operationIndex :: nat
  fl_filePath :: jstr
  fl_operation :: ApplyPatchOperation
  fl_error :: apply_error

record ApplyPatchRecoveryInstructions =
  mustReadFiles :: "jstr list"
  mustNotReadFiles :: "jstr list"
  failedFiles :: "jstr list"

text \<open>\<open>[...new Set(xs)]\<close>: the first occurrences, in order.\<close>

fun uniq :: "'a list \<Rightarrow> 'a list" where
  "uniq [] = []"
| "uniq (x # xs) = x # filter (\<lambda>y. y \<noteq> x) (uniq xs)"

definition isRereadCandidate :: "ApplyPatchFailure \<Rightarrow> bool" where
  "isRereadCandidate f \<longleftrightarrow> extractErrorCode (fl_error f) = None"

definition createRecoveryInstructions ::
  "jstr list \<Rightarrow> ApplyPatchFailure list \<Rightarrow> ApplyPatchRecoveryInstructions" where
  "createRecoveryInstructions appliedFiles failures =
     (let mustRead = uniq (map fl_filePath (filter isRereadCandidate failures))
      in \<lparr>mustReadFiles = mustRead,
          mustNotReadFiles = uniq (filter (\<lambda>p. p \<notin> set mustRead) appliedFiles),
          failedFiles = uniq (map fl_filePath failures)\<rparr>)"

record ApplyPatchResult =
  summaries :: "jstr list"
  appliedFiles :: "jstr list"
  failures :: "ApplyPatchFailure list"
  hasPartialSuccess :: bool
  recoveryInstructions :: ApplyPatchRecoveryInstructions
  result_fuzz :: nat
  appliedOperations :: "(nat \<times> ApplyPatchPreviewFile) list"

definition parseNonEmptyPatch :: "jstr \<Rightarrow> apply_error + ParsedPatch list" where
  "parseNonEmptyPatch patchText =
     (case parsePatch patchText of
        Inl e \<Rightarrow> Inl (PatchProblem e)
      | Inr [] \<Rightarrow>
          Inl (if trim (normalizePatchText patchText) = BEGIN_PATCH_MARKER @ [LF] @ END_PATCH_MARKER
               then EmptyPatch else NoHunksFound)
      | Inr hs \<Rightarrow> Inr hs)"

definition failure_of :: "nat \<Rightarrow> ParsedPatch \<Rightarrow> apply_error \<Rightarrow> ApplyPatchFailure" where
  "failure_of i h e = \<lparr>fl_operationIndex = i, fl_filePath = hunk_path h, fl_operation = hunk_operation h, fl_error = e\<rparr>"

text \<open>The loop of \<open>applyPatchDetailed\<close>: the hunks from index \<open>i\<close> on, what each gave.\<close>

fun apply_hunks ::
  "patch_env \<Rightarrow> nat \<Rightarrow> ParsedPatch list \<Rightarrow> filesystem \<Rightarrow>
   filesystem \<times> (nat \<times> applied_hunk) list \<times> ApplyPatchFailure list" where
  "apply_hunks env i [] fs = (fs, [], [])"
| "apply_hunks env i (h # hs) fs =
     (case applySingleHunk env h fs of
        (fs', Inr a) \<Rightarrow>
          (case apply_hunks env (i + 1) hs fs' of (fs'', as, bs) \<Rightarrow> (fs'', (i, a) # as, bs))
      | (fs', Inl e) \<Rightarrow>
          (case apply_hunks env (i + 1) hs fs' of (fs'', as, bs) \<Rightarrow> (fs'', as, failure_of i h e # bs)))"

definition patch_result :: "(nat \<times> applied_hunk) list \<Rightarrow> ApplyPatchFailure list \<Rightarrow> ApplyPatchResult" where
  "patch_result as bs =
     (let files = map (\<lambda>(i, a). ah_file a) as
      in \<lparr>summaries = map (\<lambda>(i, a). ah_summary a) as, appliedFiles = files, failures = bs,
          hasPartialSuccess = (files \<noteq> [] \<and> bs \<noteq> []),
          recoveryInstructions = createRecoveryInstructions files bs,
          result_fuzz = sum_list (map (\<lambda>(i, a). ah_fuzz a) as),
          appliedOperations = map (\<lambda>(i, a). (i, ah_preview a)) as\<rparr>)"

definition applyPatchDetailed :: "patch_env \<Rightarrow> jstr \<Rightarrow> ApplyPatchResult io" where
  "applyPatchDetailed env patchText fs =
     (case parseNonEmptyPatch patchText of
        Inl e \<Rightarrow> (fs, Inl e)
      | Inr hs \<Rightarrow> (case apply_hunks env 0 hs fs of (fs', as, bs) \<Rightarrow> (fs', Inr (patch_result as bs))))"

text \<open>\<open>applyPatch\<close> stops at the first failure and throws an \<open>ApplyPatchError\<close> that carries it with what
  was applied before.\<close>

fun apply_strictly ::
  "patch_env \<Rightarrow> nat \<Rightarrow> ParsedPatch list \<Rightarrow> (nat \<times> applied_hunk) list \<Rightarrow> filesystem \<Rightarrow>
   filesystem \<times> ((nat \<times> applied_hunk) list \<times> ApplyPatchFailure option)" where
  "apply_strictly env i [] as fs = (fs, as, None)"
| "apply_strictly env i (h # hs) as fs =
     (case applySingleHunk env h fs of
        (fs', Inr a) \<Rightarrow> apply_strictly env (i + 1) hs (as @ [(i, a)]) fs'
      | (fs', Inl e) \<Rightarrow> (fs', as, Some (failure_of i h e)))"

definition compact_preview :: "ApplyPatchPreviewFile \<Rightarrow> ApplyPatchPreviewFile" where
  "compact_preview p = p\<lparr>pv_diff := [], pv_patch := None\<rparr>"

definition compactApplyPatchResult :: "ApplyPatchResult \<Rightarrow> ApplyPatchResult" where
  "compactApplyPatchResult r =
     r\<lparr>appliedOperations := map (\<lambda>(i, p). (i, compact_preview p)) (appliedOperations r)\<rparr>"

datatype patch_outcome = Threw apply_error | ApplyPatchError apply_error ApplyPatchResult | Summaries "jstr list"

definition applyPatch :: "patch_env \<Rightarrow> jstr \<Rightarrow> filesystem \<Rightarrow> filesystem \<times> patch_outcome" where
  "applyPatch env patchText fs =
     (case parseNonEmptyPatch patchText of
        Inl e \<Rightarrow> (fs, Threw e)
      | Inr hs \<Rightarrow>
          (case apply_strictly env 0 hs [] fs of
             (fs', as, None) \<Rightarrow> (fs', Summaries (map (\<lambda>(i, a). ah_summary a) as))
           | (fs', as, Some f) \<Rightarrow>
               (fs', ApplyPatchError (fl_error f)
                  (compactApplyPatchResult ((patch_result as [f])\<lparr>result_fuzz := 0\<rparr>)))))"

end
