(* ===== verification/PatchApplyProps.thy ===== *)
theory PatchApplyProps
  imports PatchApply PatchParseProps "HOL-Library.Multiset"
begin

text \<open>
  What applying a patch does to the file system: without system errors every hunk is all or
  nothing and does exactly what its specification says, a patch is the sequence of its hunks, and
  whatever happens no other file is touched and every hunk is accounted for.
\<close>

section \<open>The specification of a hunk\<close>

definition is_binary :: "byte list \<Rightarrow> bool" where
  "is_binary bs \<longleftrightarrow> 0 \<in> set bs \<or> text_decode bs = None"

definition new_bytes :: "jstr \<Rightarrow> PatchChunk list \<Rightarrow> byte list \<Rightarrow> byte list option" where
  "new_bytes path chunks bs =
     (if is_binary bs then (if chunks = [] then Some bs else None)
      else if chunks = [] then Some (utf8_encode (the (text_decode bs)))
      else case replaceChunks (the (text_decode bs)) path chunks of
          Inl e \<Rightarrow> None | Inr (content, fz) \<Rightarrow> Some (utf8_encode content))"

fun hunk_effect :: "(jstr \<Rightarrow> jstr) \<Rightarrow> ParsedPatch \<Rightarrow> filesystem \<Rightarrow> filesystem option" where
  "hunk_effect resolve (PAdd path content) fs = Some (fs(resolve path \<mapsto> utf8_encode content))"
| "hunk_effect resolve (PDelete path) fs =
     (if fs (resolve path) = None then None else Some (fs(resolve path := None)))"
| "hunk_effect resolve (PUpdate path movePath chunks) fs =
     (case fs (resolve path) of
        None \<Rightarrow> None
      | Some bs \<Rightarrow>
          (case new_bytes path chunks bs of
             None \<Rightarrow> None
           | Some bs' \<Rightarrow>
               (case hunk_move (PUpdate path movePath chunks) of
                  None \<Rightarrow> if is_binary bs then None else Some (fs(resolve path \<mapsto> bs'))
                | Some m \<Rightarrow> Some (fs(resolve path := None, resolve m \<mapsto> bs')))))"

text \<open>A world without system errors, in which a temporary name is never the name of a file.\<close>

definition sound_env :: "patch_env \<Rightarrow> bool" where
  "sound_env env \<longleftrightarrow> (\<forall>fs c. fault env fs c = None) \<and>
     (\<forall>p q. temp_path env p \<noteq> resolvePatchPath env q)"

definition no_temps :: "patch_env \<Rightarrow> filesystem \<Rightarrow> bool" where
  "no_temps env fs \<longleftrightarrow> (\<forall>p. fs (temp_path env p) = None)"

section \<open>The calls in such a world\<close>

lemma syscall_sound: "sound_env env \<Longrightarrow> syscall_io env c m = m"
  by (simp add: fun_eq_iff syscall_io_def sound_env_def)

lemma replace_sound:
  assumes "sound_env env" and "no_temps env fs"
  shows "replace_with_temp env (resolvePatchPath env q) bs fs = (fs(resolvePatchPath env q \<mapsto> bs), Inr ())"
proof -
  have "temp_path env p \<noteq> resolvePatchPath env q" for p using assms(1) by (simp add: sound_env_def)
  moreover have "fs(temp_path env p := None) = fs" for p
    using assms(2) by (simp add: no_temps_def fun_upd_idem)
  ultimately show ?thesis
    by (simp add: replace_with_temp_def writeFile_def rename_file_def syscall_sound [OF assms(1)] io_bind_def
        io_catch_def Let_def)
qed

definition snapshot_of :: "byte list option \<Rightarrow> PatchFileSnapshot" where
  "snapshot_of c =
     (case c of
        None \<Rightarrow> \<lparr>snap_exists = False, snap_content = [], snap_binary = False, snap_bytes = None\<rparr>
      | Some bs \<Rightarrow>
          if is_binary bs then \<lparr>snap_exists = True, snap_content = [], snap_binary = True, snap_bytes = Some bs\<rparr>
          else \<lparr>snap_exists = True, snap_content = the (text_decode bs), snap_binary = False, snap_bytes = None\<rparr>)"

lemma snapshot_sound:
  "sound_env env \<Longrightarrow> readPatchFileSnapshot env p fs = (fs, Inr (snapshot_of (fs p)))"
  by (auto simp: readPatchFileSnapshot_def readFile_def syscall_sound io_catch_def io_bind_def io_return_def
      snapshot_of_def is_binary_def hasErrorCode_def Let_def split: option.splits)

lemma bind_eq: "m fs = (fs', Inr x) \<Longrightarrow> io_bind m f fs = f x fs'"
  by (simp add: io_bind_def)

lemma bind_error: "m fs = (fs', Inl e) \<Longrightarrow> io_bind m f fs = (fs', Inl e)"
  by (simp add: io_bind_def)

lemma parents_sound: "sound_env env \<Longrightarrow> make_parents env p fs = (fs, Inr ())"
  by (simp add: make_parents_def syscall_sound io_return_def)

lemma rm_sound:
  "sound_env env \<Longrightarrow> rm env p fs =
     (if fs p = None then (fs, Inl (SystemError ENOENT)) else (fs(p := None), Inr ()))"
  by (auto simp: rm_def remove_with_def syscall_sound split: option.splits)

lemma write_sound:
  assumes "sound_env env" and "no_temps env fs"
  shows "writeFileAtomic env (resolvePatchPath env q) content fs =
      (fs(resolvePatchPath env q \<mapsto> utf8_encode content), Inr ())"
    and "writeBinaryFileAtomic env (resolvePatchPath env q) bs fs = (fs(resolvePatchPath env q \<mapsto> bs), Inr ())"
  using replace_sound [OF assms] by (simp_all add: writeFileAtomic_def writeBinaryFileAtomic_def)

lemma applied_sound: "\<exists>a. applied s f z p fs = (fs, Inr a)"
  by (simp add: applied_def io_return_def)


section \<open>A hunk does what its specification says, or nothing\<close>

definition refines :: "applied_hunk io \<Rightarrow> filesystem \<Rightarrow> filesystem option \<Rightarrow> bool" where
  "refines m fs spec \<longleftrightarrow>
     (case spec of None \<Rightarrow> \<exists>e. m fs = (fs, Inl e) | Some fs' \<Rightarrow> \<exists>a. m fs = (fs', Inr a))"

lemma finish_move:
  assumes "sound_env env" and "no_temps env fs" and "fs (resolvePatchPath env path) = Some bs0"
    and wr: "w fs = (fs(resolvePatchPath env m \<mapsto> bs), Inr ())"
  shows "\<exists>a. io_bind (make_parents env (resolvePatchPath env m)) (\<lambda>_. io_bind w (\<lambda>_.
      io_bind (if resolvePatchPath env m \<noteq> resolvePatchPath env path then rm env (resolvePatchPath env path) else io_return ())
        (\<lambda>_. applied s f z p))) fs = (fs(resolvePatchPath env path := None, resolvePatchPath env m \<mapsto> bs), Inr a)"
  using assms
  by (cases "resolvePatchPath env m = resolvePatchPath env path")
    (simp_all add: io_bind_def parents_sound wr rm_sound applied_def io_return_def fun_upd_twist)

lemma move_binary_refines:
  assumes "sound_env env" and "no_temps env fs" and "fs (resolvePatchPath env path) = Some bs" and "is_binary bs"
  shows "refines (move_binary env (PUpdate path m cs) (snapshot_of (Some bs)) d cs) fs
    (hunk_effect (resolvePatchPath env) (PUpdate path m cs) fs)"
proof (cases "cs = [] \<and> hunk_move (PUpdate path m cs) \<noteq> None")
  case True
  then obtain t where t: "hunk_move (PUpdate path m cs) = Some t" by blast
  show ?thesis
    using finish_move [OF assms(1-3), where m = t and bs = bs and
        w = "writeBinaryFileAtomic env (resolvePatchPath env t) bs", OF write_sound(2) [OF assms(1,2)]] True t assms(3,4)
    by (simp add: refines_def new_bytes_def move_binary_def snapshot_of_def Let_def del: hunk_move.simps)
next
  case False
  then show ?thesis
    using assms(3,4)
    by (auto simp: refines_def new_bytes_def move_binary_def snapshot_of_def io_throw_def split: option.splits)
qed

lemma update_text_refines:
  assumes "sound_env env" and "no_temps env fs" and "fs (resolvePatchPath env path) = Some bs" and "\<not> is_binary bs"
  shows "refines (update_text env (PUpdate path m cs) (snapshot_of (Some bs)) d cs) fs
    (hunk_effect (resolvePatchPath env) (PUpdate path m cs) fs)"
proof -
  let ?text = "the (text_decode bs)"
  let ?r = "if cs = [] then Inr (?text, 0) else replaceChunks ?text path cs"
  have snap: "snap_content (snapshot_of (Some bs)) = ?text" using assms(4) by (simp add: snapshot_of_def)
  show ?thesis
  proof (cases ?r)
    case (Inl e)
    then have failed: "cs \<noteq> []" "replaceChunks ?text path cs = Inl e" by (auto split: if_splits)
    then have "update_text env (PUpdate path m cs) (snapshot_of (Some bs)) d cs fs = (fs, Inl (PatchProblem e))"
      by (simp add: update_text_def snap Let_def io_bind_def lift_patch_def io_throw_def)
    then show ?thesis
      using failed assms(3,4) by (simp add: refines_def new_bytes_def)
  next
    case (Inr r)
    obtain content fz where r: "r = (content, fz)" by (cases r)
    then have new: "new_bytes path cs bs = Some (utf8_encode content)"
      using Inr assms(4) by (auto simp: new_bytes_def split: if_splits)
    have run: "io_bind (lift_patch ?r) g fs = g (content, fz) fs" for g :: "jstr \<times> nat \<Rightarrow> applied_hunk io"
      unfolding Inr r by (simp add: io_bind_def lift_patch_def io_return_def)
    have eq: "update_text env (PUpdate path m cs) (snapshot_of (Some bs)) d cs fs =
        (case hunk_move (PUpdate path m cs) of
           Some t \<Rightarrow>
             io_bind (make_parents env (resolvePatchPath env t)) (\<lambda>_.
             io_bind (writeFileAtomic env (resolvePatchPath env t) content) (\<lambda>_.
             io_bind (if resolvePatchPath env t \<noteq> resolvePatchPath env path
                      then rm env (resolvePatchPath env path) else io_return ()) (\<lambda>_.
             applied (move_summary path t) t fz
               (buildPatchPreviewFile env (PUpdate path m cs) (snapshot_of (Some bs)) content d))))
         | None \<Rightarrow>
             io_bind (writeFileAtomic env (resolvePatchPath env path) content) (\<lambda>_.
             applied (js ''update: '' @ path) path fz
               (buildPatchPreviewFile env (PUpdate path m cs) (snapshot_of (Some bs)) content None))) fs"
      unfolding update_text_def Let_def hunk_path.simps snap run prod.case ..
    show ?thesis
    proof (cases "hunk_move (PUpdate path m cs)")
      case None
      then have "\<exists>a. update_text env (PUpdate path m cs) (snapshot_of (Some bs)) d cs fs =
          (fs(resolvePatchPath env path \<mapsto> utf8_encode content), Inr a)"
        unfolding eq by (simp add: bind_eq [where m = "writeFileAtomic _ _ _", OF write_sound(1) [OF assms(1,2)]]
            applied_def io_return_def del: hunk_move.simps)
      then show ?thesis
        using None assms(3,4) new by (simp add: refines_def del: hunk_move.simps)
    next
      case (Some t)
      then have "\<exists>a. update_text env (PUpdate path m cs) (snapshot_of (Some bs)) d cs fs =
          (fs(resolvePatchPath env path := None, resolvePatchPath env t \<mapsto> utf8_encode content), Inr a)"
        unfolding eq using finish_move [OF assms(1-3), where m = t and bs = "utf8_encode content" and
            w = "writeFileAtomic env (resolvePatchPath env t) content", OF write_sound(1) [OF assms(1,2)]]
        by (simp del: hunk_move.simps)
      then show ?thesis
        using Some assms(3,4) new by (simp add: refines_def del: hunk_move.simps)
    qed
  qed
qed

lemma hunk_refines:
  assumes "sound_env env" and "no_temps env fs"
  shows "refines (applySingleHunk env h) fs (hunk_effect (resolvePatchPath env) h fs)"
proof (cases h)
  case (PAdd path content)
  then show ?thesis
    using assms
    by (simp add: refines_def applySingleHunk_def io_bind_def snapshot_sound parents_sound write_sound
        applied_def io_return_def Let_def)
next
  case (PDelete path)
  then show ?thesis
    using assms
    by (auto simp: refines_def applySingleHunk_def io_bind_def snapshot_sound rm_sound applied_def io_return_def
        Let_def)
next
  case (PUpdate path m cs)
  let ?p = "resolvePatchPath env path"
  show ?thesis
  proof (cases "fs ?p")
    case None
    then show ?thesis
      using assms PUpdate
      by (simp add: refines_def applySingleHunk_def io_bind_def snapshot_sound snapshot_of_def io_throw_def
        Let_def)
  next
    case (Some bs)
    obtain d where run: "applySingleHunk env h fs =
       (if is_binary bs then move_binary env h (snapshot_of (Some bs)) d cs
        else update_text env h (snapshot_of (Some bs)) d cs) fs"
    proof -
      have "snap_exists (snapshot_of (Some bs))" "snap_binary (snapshot_of (Some bs)) \<longleftrightarrow> is_binary bs"
        by (simp_all add: snapshot_of_def)
      then show thesis
        using Some
        by (intro that [of "case hunk_move h of
              Some t \<Rightarrow> if resolvePatchPath env t \<noteq> ?p then Some (snapshot_of (fs (resolvePatchPath env t))) else None
            | None \<Rightarrow> None"])
          (simp add: applySingleHunk_def Let_def PUpdate io_bind_def snapshot_sound [OF assms(1)] io_return_def
            del: hunk_move.simps split: option.splits)
    qed
    show ?thesis
    proof (cases "is_binary bs")
      case True
      then have "applySingleHunk env h fs = move_binary env h (snapshot_of (Some bs)) d cs fs" using run by simp
      with move_binary_refines [OF assms Some True, of m cs d] show ?thesis
        unfolding refines_def PUpdate by metis
    next
      case False
      then have "applySingleHunk env h fs = update_text env h (snapshot_of (Some bs)) d cs fs" using run by simp
      with update_text_refines [OF assms Some False, of m cs d] show ?thesis
        unfolding refines_def PUpdate by metis
    qed
  qed
qed


section \<open>A patch\<close>

lemma effect_no_temps:
  "\<lbrakk>sound_env env; no_temps env fs; hunk_effect (resolvePatchPath env) h fs = Some fs'\<rbrakk> \<Longrightarrow> no_temps env fs'"
  by (cases h) (auto simp: no_temps_def sound_env_def split: option.splits if_splits)

text \<open>The hunks one after another; one that has no effect is skipped.\<close>

fun patch_effect :: "(jstr \<Rightarrow> jstr) \<Rightarrow> ParsedPatch list \<Rightarrow> filesystem \<Rightarrow> filesystem \<times> bool list" where
  "patch_effect resolve [] fs = (fs, [])"
| "patch_effect resolve (h # hs) fs =
     (case hunk_effect resolve h fs of
        Some fs' \<Rightarrow> (case patch_effect resolve hs fs' of (fs'', oks) \<Rightarrow> (fs'', True # oks))
      | None \<Rightarrow> (case patch_effect resolve hs fs of (fs'', oks) \<Rightarrow> (fs'', False # oks)))"

text \<open>The indices at which a list of flags has a value.\<close>

fun flagged :: "bool \<Rightarrow> nat \<Rightarrow> bool list \<Rightarrow> nat list" where
  "flagged b i [] = []"
| "flagged b i (x # xs) = (if x = b then i # flagged b (i + 1) xs else flagged b (i + 1) xs)"

lemma apply_hunks_refine:
  assumes "sound_env env"
  shows "no_temps env fs \<Longrightarrow> patch_effect (resolvePatchPath env) hs fs = (fs', oks) \<Longrightarrow>
    \<exists>as bs. apply_hunks env i hs fs = (fs', as, bs) \<and> map fst as = flagged True i oks \<and>
      map fl_operationIndex bs = flagged False i oks"
proof (induction hs arbitrary: fs i oks)
  case (Cons h hs)
  note ref = hunk_refines [OF assms Cons.prems(1), of h]
  show ?case
  proof (cases "hunk_effect (resolvePatchPath env) h fs")
    case None
    then obtain e oks' where "applySingleHunk env h fs = (fs, Inl e)" "oks = False # oks'"
      "patch_effect (resolvePatchPath env) hs fs = (fs', oks')"
      using ref Cons.prems(2) by (auto simp: refines_def split: prod.splits)
    with Cons.IH [OF Cons.prems(1) this(3), of "i + 1"] show ?thesis by (auto simp: failure_of_def)
  next
    case (Some fs1)
    then obtain a oks' where "applySingleHunk env h fs = (fs1, Inr a)" "oks = True # oks'"
      "patch_effect (resolvePatchPath env) hs fs1 = (fs', oks')"
      using ref Cons.prems(2) by (auto simp: refines_def split: prod.splits)
    with Cons.IH [OF effect_no_temps [OF assms Cons.prems(1) Some] this(3), of "i + 1"] show ?thesis by auto
  qed
qed simp

lemma parseNonEmpty: "parsePatch text = Inr hs \<Longrightarrow> hs \<noteq> [] \<Longrightarrow> parseNonEmptyPatch text = Inr hs"
  by (cases hs) (simp_all add: parseNonEmptyPatch_def)

lemma patch_refines:
  assumes "sound_env env" and "no_temps env fs" and "parsePatch text = Inr hs" and "hs \<noteq> []"
    and "patch_effect (resolvePatchPath env) hs fs = (fs', oks)"
  shows "\<exists>r. applyPatchDetailed env text fs = (fs', Inr r) \<and>
    map fst (appliedOperations r) = flagged True 0 oks \<and>
    map fl_operationIndex (failures r) = flagged False 0 oks"
proof -
  obtain as bs where "apply_hunks env 0 hs fs = (fs', as, bs)" "map fst as = flagged True 0 oks"
    "map fl_operationIndex bs = flagged False 0 oks"
    using apply_hunks_refine [OF assms(1,2,5)] by blast
  then show ?thesis
    by (simp add: applyPatchDetailed_def parseNonEmpty [OF assms(3,4)] patch_result_def Let_def comp_def split_beta)
qed

text \<open>C30: in a world without system errors a patch does to the files what its hunks say, one after
  another: a hunk that fails changes nothing, and the result names exactly the hunks that were
  applied and those that failed.\<close>

theorem patch_refines_effect:
  assumes "sound_env env" and "no_temps env fs" and "parsePatch text = Inr hs" and "hs \<noteq> []"
    and "patch_effect (resolvePatchPath env) hs fs = (fs', oks)"
  shows "\<exists>r. applyPatchDetailed env text fs = (fs', Inr r) \<and>
    map fst (appliedOperations r) = flagged True 0 oks \<and>
    map fl_operationIndex (failures r) = flagged False 0 oks"
  by (rule patch_refines [OF assms])

definition sample_env :: patch_env where
  "sample_env = \<lparr>resolvePatchPath = (\<lambda>p. 47 # p), temp_path = (\<lambda>p. 116 # p), fault = (\<lambda>fs c. None),
     createUnifiedPatch = (\<lambda>a b old new. []), diffLines = (\<lambda>old new. [])\<rparr>"

definition sample_hunks :: "hunk_syntax list" where
  "sample_hunks = [SAdd (js ''a'') [js ''x''], SDelete (js ''d'')]"

lemma sample_facts:
  "sound_env sample_env" "no_temps sample_env Map.empty"
  "parsePatch (patch_text sample_hunks) = Inr [PAdd (js ''a'') (js ''x'' @ [LF]), PDelete (js ''d'')]"
  "patch_effect (resolvePatchPath sample_env) [PAdd (js ''a'') (js ''x'' @ [LF]), PDelete (js ''d'')] Map.empty =
     ([js ''/a'' \<mapsto> utf8_encode (js ''x'' @ [LF])], [True, False])"
proof -
  show "parsePatch (patch_text sample_hunks) = Inr [PAdd (js ''a'') (js ''x'' @ [LF]), PDelete (js ''d'')]"
    by (subst parsePatch_text) (simp_all add: sample_hunks_def one_line_def js_def)
qed (simp_all add: sample_env_def sound_env_def no_temps_def js_def)

theorem patch_refines_effect_witness:
  "\<exists>r. applyPatchDetailed sample_env (patch_text sample_hunks) Map.empty =
      ([js ''/a'' \<mapsto> utf8_encode (js ''x'' @ [LF])], Inr r) \<and>
    map fst (appliedOperations r) = [0] \<and> map fl_operationIndex (failures r) = [1]"
  using patch_refines_effect [OF sample_facts(1-3) _ sample_facts(4)] by simp

section \<open>Whatever the system does\<close>

text \<open>The files a hunk may touch.\<close>

definition touched :: "patch_env \<Rightarrow> ParsedPatch \<Rightarrow> jstr set" where
  "touched env h =
     (let targets = resolvePatchPath env ` (insert (hunk_path h) (set_option (hunk_move h)))
      in targets \<union> temp_path env ` targets)"

definition leaves_alone :: "jstr set \<Rightarrow> 'a io \<Rightarrow> bool" where
  "leaves_alone X m \<longleftrightarrow> (\<forall>fs q. q \<notin> X \<longrightarrow> fst (m fs) q = fs q)"

lemma leavesD: "leaves_alone X m \<Longrightarrow> m fs = (fs', r) \<Longrightarrow> q \<notin> X \<Longrightarrow> fs' q = fs q"
  unfolding leaves_alone_def by (metis fst_conv)

lemma leaves_bind:
  assumes "leaves_alone X m" and "\<And>x. leaves_alone X (f x)"
  shows "leaves_alone X (io_bind m f)"
  unfolding leaves_alone_def
proof (intro allI impI)
  fix fs q assume q: "q \<notin> X"
  obtain fs' r where m: "m fs = (fs', r)" by fastforce
  then have "fs' q = fs q" using leavesD [OF assms(1)] q by blast
  then show "fst (io_bind m f fs) q = fs q"
    using assms(2) q by (cases r) (simp_all add: io_bind_def m leaves_alone_def)
qed

lemma leaves_catch:
  assumes "leaves_alone X m" and "\<And>e. leaves_alone X (h e)"
  shows "leaves_alone X (io_catch m h)"
  unfolding leaves_alone_def
proof (intro allI impI)
  fix fs q assume q: "q \<notin> X"
  obtain fs' r where m: "m fs = (fs', r)" by fastforce
  then have "fs' q = fs q" using leavesD [OF assms(1)] q by blast
  then show "fst (io_catch m h fs) q = fs q"
    using assms(2) q by (cases r) (simp_all add: io_catch_def m leaves_alone_def)
qed

lemma leaves_syscall: "leaves_alone X m \<Longrightarrow> leaves_alone X (syscall_io env c m)"
  by (simp add: leaves_alone_def syscall_io_def split: option.splits)

lemma leaves_pure: "leaves_alone X (io_return x)" "leaves_alone X (io_throw e)" "leaves_alone X (lift_patch r)"
  "leaves_alone X (applied s f z p)"
  by (auto simp: leaves_alone_def io_return_def io_throw_def lift_patch_def applied_def split: sum.splits)

lemma leaves_calls:
  "leaves_alone X (readFile env p)" "leaves_alone X (make_parents env p)"
  "p \<in> X \<Longrightarrow> leaves_alone X (writeFile env p bs)"
  "p \<in> X \<Longrightarrow> p' \<in> X \<Longrightarrow> leaves_alone X (rename_file env p p')"
  "p \<in> X \<Longrightarrow> leaves_alone X (unlink env p)" "p \<in> X \<Longrightarrow> leaves_alone X (rm env p)"
  unfolding readFile_def make_parents_def writeFile_def rename_file_def unlink_def rm_def remove_with_def
  by (rule leaves_syscall; auto simp: leaves_alone_def io_return_def split: option.splits)+

lemmas leaves = leaves_bind leaves_catch leaves_pure leaves_calls

lemma leaves_snapshot: "leaves_alone X (readPatchFileSnapshot env p)"
  unfolding readPatchFileSnapshot_def Let_def by (auto intro!: leaves)

lemma leaves_write:
  assumes "p \<in> X" and "temp_path env p \<in> X"
  shows "leaves_alone X (writeFileAtomic env p c)" and "leaves_alone X (writeBinaryFileAtomic env p bs)"
  using assms unfolding writeFileAtomic_def writeBinaryFileAtomic_def replace_with_temp_def Let_def
  by (auto intro!: leaves)

lemma touched_paths:
  "resolvePatchPath env (hunk_path h) \<in> touched env h"
  "temp_path env (resolvePatchPath env (hunk_path h)) \<in> touched env h"
  "hunk_move h = Some m \<Longrightarrow> resolvePatchPath env m \<in> touched env h"
  "hunk_move h = Some m \<Longrightarrow> temp_path env (resolvePatchPath env m) \<in> touched env h"
  by (simp_all add: touched_def)

lemma leaves_if: "(b \<Longrightarrow> leaves_alone X m) \<Longrightarrow> (\<not> b \<Longrightarrow> leaves_alone X n) \<Longrightarrow> leaves_alone X (if b then m else n)"
  by simp

lemma leaves_update:
  "leaves_alone (touched env h) (update_text env h source d chunks)"
  "leaves_alone (touched env h) (move_binary env h source d chunks)"
  unfolding update_text_def move_binary_def Let_def
  by (auto intro!: leaves leaves_if leaves_write touched_paths split: option.splits prod.splits)

lemma leaves_move_read:
  "leaves_alone X (case mo of
      Some m \<Rightarrow> (if resolvePatchPath env m \<noteq> p
                 then io_bind (readPatchFileSnapshot env (resolvePatchPath env m)) (\<lambda>d. io_return (Some d))
                 else io_return None)
    | None \<Rightarrow> io_return None)"
  by (auto intro!: leaves leaves_snapshot split: option.splits)

lemma leaves_hunk: "leaves_alone (touched env h) (applySingleHunk env h)"
proof (cases h)
  case (PAdd path content)
  then show ?thesis
    by (auto simp: applySingleHunk_def Let_def intro!: leaves leaves_snapshot leaves_write)
      (simp_all add: touched_def)
next
  case (PDelete path)
  then show ?thesis
    by (auto simp: applySingleHunk_def Let_def intro!: leaves leaves_snapshot) (simp_all add: touched_def)
next
  case (PUpdate path m cs)
  show ?thesis
    unfolding applySingleHunk_def Let_def PUpdate ParsedPatch.case
    by (intro leaves_bind [OF leaves_snapshot] leaves_if leaves_pure leaves_bind [OF leaves_move_read] leaves_update)
qed

lemma leaves_hunks: "q \<notin> \<Union> (touched env ` set hs) \<Longrightarrow> fst (apply_hunks env i hs fs) q = fs q"
proof (induction hs arbitrary: i fs)
  case (Cons h hs)
  obtain fs' r where h: "applySingleHunk env h fs = (fs', r)" by fastforce
  then have "fs' q = fs q" using leavesD [OF leaves_hunk] Cons.prems by auto
  then show ?case
    using Cons.IH [of "i + 1" fs'] Cons.prems by (cases r) (simp_all add: h split_beta)
qed simp

lemma apply_hunks_indices:
  "apply_hunks env i hs fs = (fs', as, bs) \<Longrightarrow>
   mset (map fst as) + mset (map fl_operationIndex bs) = mset [i..<i + length hs]"
proof (induction hs arbitrary: i fs fs' as bs)
  case (Cons h hs)
  obtain fs1 r where h: "applySingleHunk env h fs = (fs1, r)" by fastforce
  obtain fs2 as' bs' where rest: "apply_hunks env (Suc i) hs fs1 = (fs2, as', bs')" by (metis prod_cases3)
  have all: "mset [i..<i + length (h # hs)] = add_mset i (mset [Suc i..<Suc i + length hs])"
    by (subst upt_conv_Cons) simp_all
  show ?case
    unfolding all Cons.IH [OF rest, symmetric] using Cons.prems
    by (cases r) (auto simp: h rest failure_of_def)
qed simp

text \<open>C31: whatever the system calls do, applying a patch changes no file but the targets of its hunks
  and the temporary names beside them, and every hunk is reported exactly once, as applied or as
  failed.\<close>

theorem patch_touches_targets:
  assumes "parsePatch text = Inr hs" and "applyPatchDetailed env text fs = (fs', Inr r)"
  shows "(\<forall>q. q \<notin> \<Union> (touched env ` set hs) \<longrightarrow> fs' q = fs q) \<and>
    mset (map fst (appliedOperations r)) + mset (map fl_operationIndex (failures r)) = mset [0..<length hs]"
proof -
  have "hs \<noteq> []" using assms by (auto simp: applyPatchDetailed_def parseNonEmptyPatch_def)
  then obtain as bs where run: "apply_hunks env 0 hs fs = (fs', as, bs)" and r: "r = patch_result as bs"
    using assms(2) by (auto simp: applyPatchDetailed_def parseNonEmpty [OF assms(1)] split: prod.splits)
  have "map fst (appliedOperations r) = map fst as" "failures r = bs"
    by (simp_all add: r patch_result_def Let_def comp_def split_beta)
  then show ?thesis
    using leaves_hunks [of _ env hs 0 fs] apply_hunks_indices [OF run] by (simp add: run)
qed


theorem patch_touches_targets_witness:
  "\<exists>fs' r. applyPatchDetailed sample_env (patch_text sample_hunks) Map.empty = (fs', Inr r) \<and>
     fs' (js ''/b'') = None \<and>
     mset (map fst (appliedOperations r)) + mset (map fl_operationIndex (failures r)) = mset [0, 1]"
proof -
  obtain fs' r where run: "applyPatchDetailed sample_env (patch_text sample_hunks) Map.empty = (fs', Inr r)"
    using patch_refines [OF sample_facts(1-3) _ sample_facts(4)] by auto
  have "js ''/b'' \<notin> \<Union> (touched sample_env ` set [PAdd (js ''a'') (js ''x'' @ [LF]), PDelete (js ''d'')])"
    by (simp add: touched_def sample_env_def js_def)
  then show ?thesis
    using patch_touches_targets [OF sample_facts(3) run] run by (intro exI [of _ fs'] exI [of _ r]) simp
qed

section \<open>Recovery instructions\<close>

lemma set_uniq [simp]: "set (uniq xs) = set xs"
  by (induction xs) auto

lemma distinct_uniq [simp]: "distinct (uniq xs)"
  by (induction xs) auto

text \<open>The model is told to read again exactly the files of which a hunk failed without a system
  error, and not to read exactly the other changed files; no file is in both lists or twice in one,
  and what must be read is among the failed files.\<close>

theorem recovery_partition:
  "set (mustReadFiles (createRecoveryInstructions files bs)) =
      {fl_filePath f | f. f \<in> set bs \<and> extractErrorCode (fl_error f) = None} \<and>
   set (mustNotReadFiles (createRecoveryInstructions files bs)) =
      set files - set (mustReadFiles (createRecoveryInstructions files bs)) \<and>
   set (mustReadFiles (createRecoveryInstructions files bs)) \<subseteq> set (failedFiles (createRecoveryInstructions files bs)) \<and>
   distinct (mustReadFiles (createRecoveryInstructions files bs) @
      mustNotReadFiles (createRecoveryInstructions files bs))"
  by (auto simp: createRecoveryInstructions_def Let_def isRereadCandidate_def)

section \<open>The two ways to apply a patch\<close>

lemma apply_strictly_detailed:
  "apply_strictly env i hs as fs = (fs', as', None) \<Longrightarrow>
   \<exists>bs. as' = as @ bs \<and> apply_hunks env i hs fs = (fs', bs, [])"
proof (induction env i hs as fs rule: apply_strictly.induct)
  case (2 env i h hs as fs)
  then obtain fs1 a where "applySingleHunk env h fs = (fs1, Inr a)"
    by (auto split: prod.splits sum.splits)
  with 2 show ?case by fastforce
qed simp

text \<open>A patch that \<open>applyPatch\<close> applies is applied by \<open>applyPatchDetailed\<close> with the same effect
  and the same summaries, and without failures.\<close>

theorem strict_agrees:
  assumes "applyPatch env text fs = (fs', Summaries ss)"
  shows "\<exists>r. applyPatchDetailed env text fs = (fs', Inr r) \<and> summaries r = ss \<and> failures r = []"
proof -
  obtain hs as where hs: "parseNonEmptyPatch text = Inr hs" and
    run: "apply_strictly env 0 hs [] fs = (fs', as, None)" and ss: "ss = map (\<lambda>(i, a). ah_summary a) as"
    using assms by (auto simp: applyPatch_def split: sum.splits prod.splits option.splits)
  from apply_strictly_detailed [OF run] have "apply_hunks env 0 hs fs = (fs', as, [])" by simp
  then show ?thesis using hs ss by (simp add: applyPatchDetailed_def patch_result_def Let_def)
qed

theorem strict_agrees_witness:
  "\<exists>r. applyPatchDetailed sample_env (patch_text [SAdd (js ''a'') []]) Map.empty =
      ([js ''/a'' \<mapsto> []], Inr r) \<and> summaries r = [js ''add: a''] \<and> failures r = []"
proof -
  have parse: "parsePatch (patch_text [SAdd (js ''a'') []]) = Inr [PAdd (js ''a'') []]"
    by (subst parsePatch_text) (simp_all add: one_line_def js_def)
  have "applyPatch sample_env (patch_text [SAdd (js ''a'') []]) Map.empty =
      ([js ''/a'' \<mapsto> []], Summaries [js ''add: a''])"
  proof -
    note wr = write_sound(1) [OF sample_facts(1,2), of "js ''a''" "[]"]
    have "resolvePatchPath sample_env (js ''a'') = js ''/a''" by (simp add: sample_env_def js_def)
    then show ?thesis
      using wr sample_facts(1)
      by (simp add: applyPatch_def parseNonEmptyPatch_def parse applySingleHunk_def Let_def io_bind_def
          snapshot_sound parents_sound applied_def io_return_def utf8_encode_def) (simp add: js_def)
  qed
  from strict_agrees [OF this] show ?thesis .
qed

end
