(* ===== verification/EditDiff.thy ===== *)
theory EditDiff
  imports DiffParts PatchParse
begin

text \<open>
  The edit tool (\<open>coding-agent/src/core/tools/edit-diff.ts\<close> and the text part of \<open>edit.ts\<close>): line
  ends and byte order mark, exact and fuzzy search, the replacement of several edits, the overlay
  of fuzzy edits on the original lines, and the diff shown. Unicode normalisation (\<open>nfkc\<close>) and the
  line diff are parameters; error messages are constructors that carry what their text is built
  from.
\<close>

section \<open>Line ends\<close>

text \<open>\<open>s.indexOf(t)\<close>.\<close>

fun find_sub :: "jstr \<Rightarrow> jstr \<Rightarrow> nat option" where
  "find_sub [] t = (if t = [] then Some 0 else None)"
| "find_sub (c # s) t = (if starts_with (c # s) t then Some 0 else map_option Suc (find_sub s t))"

datatype line_ending = CRLF_ending | LF_ending

definition detectLineEnding :: "jstr \<Rightarrow> line_ending" where
  "detectLineEnding content =
     (case find_sub content [LF] of None \<Rightarrow> LF_ending
      | Some lfIdx \<Rightarrow>
          (case find_sub content [CR, LF] of None \<Rightarrow> LF_ending
           | Some crlfIdx \<Rightarrow> if crlfIdx < lfIdx then CRLF_ending else LF_ending))"

definition normalizeToLF :: "jstr \<Rightarrow> jstr" where
  "normalizeToLF text = map (\<lambda>c. if c = CR then LF else c) (crlf_to_lf text)"

definition restoreLineEndings :: "jstr \<Rightarrow> line_ending \<Rightarrow> jstr" where
  "restoreLineEndings text ending =
     (if ending = CRLF_ending then concat (map (\<lambda>c. if c = LF then [CR, LF] else [c]) text) else text)"

definition stripBom :: "jstr \<Rightarrow> jstr \<times> jstr" where
  "stripBom content = (if starts_with content [0xFEFF] then ([0xFEFF], drop 1 content) else ([], content))"

section \<open>Fuzzy search\<close>

definition ascii_unit :: "nat \<Rightarrow> nat" where
  "ascii_unit c =
     (if c \<in> {0x2018, 0x2019, 0x201A, 0x201B} then 39
      else if c \<in> {0x201C, 0x201D, 0x201E, 0x201F} then 34
      else if c \<in> {0x2010, 0x2011, 0x2012, 0x2013, 0x2014, 0x2015, 0x2212} then 45
      else if c = 0xA0 \<or> 0x2002 \<le> c \<and> c \<le> 0x200A \<or> c = 0x202F \<or> c = 0x205F \<or> c = 0x3000 then 32
      else c)"

definition normalizeForFuzzyMatch :: "(jstr \<Rightarrow> jstr) \<Rightarrow> jstr \<Rightarrow> jstr" where
  "normalizeForFuzzyMatch nfkc text = map ascii_unit (join [LF] (map trim_end (split_on LF (nfkc text))))"

record FuzzyMatchResult =
  fm_found :: bool
  fm_index :: nat
  fm_matchLength :: nat
  fm_usedFuzzyMatch :: bool
  fm_contentForReplacement :: jstr

definition fuzzyFindText :: "(jstr \<Rightarrow> jstr) \<Rightarrow> jstr \<Rightarrow> jstr \<Rightarrow> FuzzyMatchResult" where
  "fuzzyFindText nfkc content oldText =
     (case find_sub content oldText of
        Some i \<Rightarrow> \<lparr>fm_found = True, fm_index = i, fm_matchLength = length oldText,
          fm_usedFuzzyMatch = False, fm_contentForReplacement = content\<rparr>
      | None \<Rightarrow>
          (let fuzzyContent = normalizeForFuzzyMatch nfkc content;
               fuzzyOldText = normalizeForFuzzyMatch nfkc oldText
           in case find_sub fuzzyContent fuzzyOldText of
                None \<Rightarrow> \<lparr>fm_found = False, fm_index = 0, fm_matchLength = 0,
                  fm_usedFuzzyMatch = False, fm_contentForReplacement = content\<rparr>
              | Some i \<Rightarrow> \<lparr>fm_found = True, fm_index = i, fm_matchLength = length fuzzyOldText,
                  fm_usedFuzzyMatch = True, fm_contentForReplacement = fuzzyContent\<rparr>))"

text \<open>\<open>s.split(sep).length - 1\<close>; the empty separator splits between all code units.\<close>

function occurrences_from :: "jstr \<Rightarrow> jstr \<Rightarrow> int" where
  "occurrences_from sep s =
     (if sep \<noteq> [] \<and> starts_with s sep then 1 + occurrences_from sep (drop (length sep) s)
      else case s of [] \<Rightarrow> 0 | c # cs \<Rightarrow> occurrences_from sep cs)"
  by pat_completeness auto
termination
  by (relation "measure (\<lambda>(sep, s). length s)") (auto simp: starts_with_iff)

declare occurrences_from.simps [simp del]

definition countOccurrences :: "(jstr \<Rightarrow> jstr) \<Rightarrow> jstr \<Rightarrow> jstr \<Rightarrow> int" where
  "countOccurrences nfkc content oldText =
     (let fuzzyContent = normalizeForFuzzyMatch nfkc content;
          fuzzyOldText = normalizeForFuzzyMatch nfkc oldText
      in if fuzzyOldText = [] then int (length fuzzyContent) - 1
         else occurrences_from fuzzyOldText fuzzyContent)"

section \<open>Replacements\<close>

record MatchedEdit =
  editIndex :: nat
  matchIndex :: nat
  matchLength :: nat
  newText :: jstr

datatype edit_error =
    EmptyOldText jstr nat nat
  | TextNotFound jstr nat nat
  | DuplicateText jstr nat nat int
  | EditsOverlap nat nat jstr
  | NoChange jstr nat
  | LineCountDiffers
  | RangeOutside

text \<open>\<open>match(/[^\n]*\n|[^\n]+/g)\<close>.\<close>

fun splitLinesWithEndings :: "jstr \<Rightarrow> jstr list" where
  "splitLinesWithEndings [] = []"
| "splitLinesWithEndings (c # cs) =
     (if c = LF then [LF] # splitLinesWithEndings cs
      else case splitLinesWithEndings cs of [] \<Rightarrow> [[c]] | l # ls \<Rightarrow> (c # l) # ls)"

fun spans_from :: "nat \<Rightarrow> jstr list \<Rightarrow> (nat \<times> nat) list" where
  "spans_from offset [] = []"
| "spans_from offset (l # ls) = (offset, offset + length l) # spans_from (offset + length l) ls"

definition getLineSpans :: "jstr \<Rightarrow> (nat \<times> nat) list" where
  "getLineSpans content = spans_from 0 (splitLinesWithEndings content)"

definition getReplacementLineRange :: "(nat \<times> nat) list \<Rightarrow> MatchedEdit \<Rightarrow> edit_error + nat \<times> nat" where
  "getReplacementLineRange lines r =
     (let replacementStart = matchIndex r; replacementEnd = matchIndex r + matchLength r
      in case find (\<lambda>i. fst (lines ! i) \<le> replacementStart \<and> replacementStart < snd (lines ! i)) [0..<length lines] of
           None \<Rightarrow> Inl RangeOutside
         | Some startLine \<Rightarrow>
             (case find (\<lambda>i. snd (lines ! i) \<ge> replacementEnd) [startLine..<length lines] of
                None \<Rightarrow> Inl RangeOutside
              | Some endLine \<Rightarrow> Inr (startLine, endLine + 1)))"

definition replace_at :: "nat \<Rightarrow> MatchedEdit \<Rightarrow> jstr \<Rightarrow> jstr" where
  "replace_at offset r s =
     (let i = matchIndex r - offset in take i s @ newText r @ drop (i + matchLength r) s)"

definition applyReplacements :: "jstr \<Rightarrow> MatchedEdit list \<Rightarrow> nat \<Rightarrow> jstr" where
  "applyReplacements content replacements offset = fold (replace_at offset) (rev replacements) content"

text \<open>Groups of replacements that share lines; the group being built is the last one.\<close>

record line_group =
  startLine :: nat
  endLine :: nat
  members :: "MatchedEdit list"

definition add_to_groups :: "(nat \<times> nat) list \<Rightarrow> line_group list \<Rightarrow> MatchedEdit \<Rightarrow> edit_error + line_group list" where
  "add_to_groups lines groups r =
     (case getReplacementLineRange lines r of
        Inl e \<Rightarrow> Inl e
      | Inr (s, e) \<Rightarrow>
          if groups \<noteq> [] \<and> s < endLine (last groups)
          then (let current = last groups
                in Inr (butlast groups @ [current\<lparr>endLine := max (endLine current) e,
                     members := members current @ [r]\<rparr>]))
          else Inr (groups @ [\<lparr>startLine = s, endLine = e, members = [r]\<rparr>]))"

fun group_all :: "(nat \<times> nat) list \<Rightarrow> line_group list \<Rightarrow> MatchedEdit list \<Rightarrow> edit_error + line_group list" where
  "group_all lines groups [] = Inr groups"
| "group_all lines groups (r # rs) =
     (case add_to_groups lines groups r of Inl e \<Rightarrow> Inl e | Inr groups' \<Rightarrow> group_all lines groups' rs)"

fun overlay :: "jstr list \<Rightarrow> jstr \<Rightarrow> (nat \<times> nat) list \<Rightarrow> nat \<Rightarrow> line_group list \<Rightarrow> jstr" where
  "overlay originalLines baseContent baseLines i [] = concat (drop i originalLines)"
| "overlay originalLines baseContent baseLines i (g # gs) =
     (let groupStartOffset = fst (baseLines ! startLine g);
          groupEndOffset = snd (baseLines ! (endLine g - 1))
      in concat (slice originalLines i (startLine g)) @
         applyReplacements (slice baseContent groupStartOffset groupEndOffset) (members g) groupStartOffset @
         overlay originalLines baseContent baseLines (endLine g) gs)"

definition applyReplacementsPreservingUnchangedLines ::
  "jstr \<Rightarrow> jstr \<Rightarrow> MatchedEdit list \<Rightarrow> edit_error + jstr" where
  "applyReplacementsPreservingUnchangedLines originalContent baseContent replacements =
     (let originalLines = splitLinesWithEndings originalContent; baseLines = getLineSpans baseContent
      in if length originalLines \<noteq> length baseLines then Inl LineCountDiffers
         else case group_all baseLines [] (sort_key matchIndex replacements) of
             Inl e \<Rightarrow> Inl e
           | Inr groups \<Rightarrow> Inr (overlay originalLines baseContent baseLines 0 groups))"

section \<open>Edits\<close>

record Edit =
  e_old :: jstr
  e_new :: jstr

definition normalizeEdit :: "Edit \<Rightarrow> Edit" where
  "normalizeEdit e = \<lparr>e_old = normalizeToLF (e_old e), e_new = normalizeToLF (e_new e)\<rparr>"

fun match_edits ::
  "(jstr \<Rightarrow> jstr) \<Rightarrow> jstr \<Rightarrow> jstr \<Rightarrow> nat \<Rightarrow> nat \<Rightarrow> Edit list \<Rightarrow> edit_error + MatchedEdit list" where
  "match_edits nfkc path base numEdits i [] = Inr []"
| "match_edits nfkc path base numEdits i (e # es) =
     (let m = fuzzyFindText nfkc base (e_old e)
      in if \<not> fm_found m then Inl (TextNotFound path i numEdits)
         else if countOccurrences nfkc base (e_old e) > 1
         then Inl (DuplicateText path i numEdits (countOccurrences nfkc base (e_old e)))
         else map_sum id ((#) \<lparr>editIndex = i, matchIndex = fm_index m, matchLength = fm_matchLength m,
                newText = e_new e\<rparr>) (match_edits nfkc path base numEdits (i + 1) es))"

fun first_overlap :: "MatchedEdit list \<Rightarrow> (nat \<times> nat) option" where
  "first_overlap (p # c # rs) =
     (if matchIndex p + matchLength p > matchIndex c then Some (editIndex p, editIndex c)
      else first_overlap (c # rs))"
| "first_overlap _ = None"

definition first_empty :: "Edit list \<Rightarrow> nat option" where
  "first_empty es = find (\<lambda>i. e_old (es ! i) = []) [0..<length es]"

definition applyEditsToNormalizedContent ::
  "(jstr \<Rightarrow> jstr) \<Rightarrow> jstr \<Rightarrow> Edit list \<Rightarrow> jstr \<Rightarrow> edit_error + jstr \<times> jstr" where
  "applyEditsToNormalizedContent nfkc normalizedContent edits path =
     (let es = map normalizeEdit edits; numEdits = length es
      in case first_empty es of
           Some i \<Rightarrow> Inl (EmptyOldText path i numEdits)
         | None \<Rightarrow>
             (let usedFuzzyMatch = list_ex (\<lambda>e. fm_usedFuzzyMatch (fuzzyFindText nfkc normalizedContent (e_old e))) es;
                  base = (if usedFuzzyMatch then normalizeForFuzzyMatch nfkc normalizedContent else normalizedContent)
              in case match_edits nfkc path base numEdits 0 es of
                   Inl e \<Rightarrow> Inl e
                 | Inr matched \<Rightarrow>
                     (let ordered = sort_key matchIndex matched
                      in case first_overlap ordered of
                           Some (i, j) \<Rightarrow> Inl (EditsOverlap i j path)
                         | None \<Rightarrow>
                             (case (if usedFuzzyMatch
                                    then applyReplacementsPreservingUnchangedLines normalizedContent base ordered
                                    else Inr (applyReplacements base ordered 0)) of
                                Inl e \<Rightarrow> Inl e
                              | Inr newContent \<Rightarrow>
                                  if normalizedContent = newContent then Inl (NoChange path numEdits)
                                  else Inr (normalizedContent, newContent)))))"

text \<open>The text the tool writes for the text it read (\<open>execute\<close> of \<open>edit.ts\<close>).\<close>

definition edit_text :: "(jstr \<Rightarrow> jstr) \<Rightarrow> jstr \<Rightarrow> Edit list \<Rightarrow> jstr \<Rightarrow> edit_error + jstr" where
  "edit_text nfkc rawContent edits path =
     (case stripBom rawContent of
        (bom, content) \<Rightarrow>
          (case applyEditsToNormalizedContent nfkc (normalizeToLF content) edits path of
             Inl e \<Rightarrow> Inl e
           | Inr (baseContent, newContent) \<Rightarrow>
               Inr (bom @ restoreLineEndings newContent (detectLineEnding content))))"

end
