(* ===== verification/EditDiffProps.thy ===== *)
theory EditDiffProps
  imports EditDiff "HOL-Library.Multiset"
begin

text \<open>
  The edit tool keeps its promises on the text: exact edits exchange their old text for their new
  text and nothing else, fuzzy edits leave every line alone that they do not touch, line ends and
  the byte order mark survive; and the two cases in which it rejects edits it should take.
\<close>

section \<open>Line ends\<close>

text \<open>A text with line feeds only, and the same text with its line ends written as CRLF.\<close>

abbreviation to_crlf :: "jstr \<Rightarrow> jstr" where
  "to_crlf s \<equiv> restoreLineEndings s CRLF_ending"

lemma to_crlf_simps [simp]:
  "to_crlf [] = []" "to_crlf (c # s) = (if c = LF then [CR, LF] else [c]) @ to_crlf s"
  by (simp_all add: restoreLineEndings_def)

lemma crlf_to_lf_to_crlf: "CR \<notin> set s \<Longrightarrow> crlf_to_lf (to_crlf s) = s"
proof (induction s)
  case (Cons c s)
  then show ?case by (cases "to_crlf s") auto
qed simp

lemma no_cr_map: "CR \<notin> set s \<Longrightarrow> map (\<lambda>c. if c = CR then LF else c) s = s"
  by (induction s) auto

lemma normalize_to_crlf: "CR \<notin> set s \<Longrightarrow> normalizeToLF (to_crlf s) = s"
  by (simp add: normalizeToLF_def crlf_to_lf_to_crlf no_cr_map)

lemma normalizeToLF_id: "CR \<notin> set s \<Longrightarrow> normalizeToLF s = s"
  by (simp add: normalizeToLF_def crlf_id no_cr_map)

lemma find_sub_lf: "find_sub s [LF] = index_from LF s"
  by (induction s) auto

lemma find_crlf_to_crlf: "CR \<notin> set s \<Longrightarrow> find_sub (to_crlf s) [CR, LF] = map_option (\<lambda>i. i) (index_from LF s)"
  by (induction s) (auto simp: starts_with_iff option.map_comp comp_def)

lemma find_lf_to_crlf: "find_sub (to_crlf s) [LF] = map_option Suc (index_from LF s)"
  by (induction s) (auto simp: starts_with_iff option.map_comp comp_def)

lemma detect_to_crlf: "CR \<notin> set s \<Longrightarrow> LF \<in> set s \<Longrightarrow> detectLineEnding (to_crlf s) = CRLF_ending"
  using index_from_None [of LF s]
  by (auto simp: detectLineEnding_def find_crlf_to_crlf find_lf_to_crlf split: option.splits)

lemma find_crlf_none: "CR \<notin> set s \<Longrightarrow> find_sub s [CR, LF] = None"
  by (induction s) auto

lemma detect_lf: "CR \<notin> set s \<Longrightarrow> detectLineEnding s = LF_ending"
  by (simp add: detectLineEnding_def find_crlf_none split: option.splits)

lemma to_crlf_none: "LF \<notin> set s \<Longrightarrow> to_crlf s = s"
  by (induction s) auto

text \<open>The edit tool does to a file with CRLF line ends, and to one with a byte order mark,
  exactly what it does to the same text with line feeds and without the mark.\<close>

theorem edits_keep_format:
  assumes "CR \<notin> set s" and "LF \<in> set s" and "\<not> starts_with s [0xFEFF]"
  shows "edit_text nfkc (to_crlf s) edits path = map_sum id to_crlf (edit_text nfkc s edits path) \<and>
    edit_text nfkc (0xFEFF # s) edits path = map_sum id (\<lambda>t. 0xFEFF # t) (edit_text nfkc s edits path) \<and>
    edit_text nfkc (0xFEFF # to_crlf s) edits path =
      map_sum id (\<lambda>t. 0xFEFF # to_crlf t) (edit_text nfkc s edits path)"
proof -
  have "\<not> starts_with (to_crlf s) [0xFEFF]" using assms(3) by (cases s) auto
  then show ?thesis
    using assms
    by (auto simp: edit_text_def stripBom_def normalize_to_crlf normalizeToLF_id detect_to_crlf detect_lf
        restoreLineEndings_def [of _ LF_ending] split: sum.splits prod.splits)
qed

lemmas edit_evaluation = js_def applyEditsToNormalizedContent_def normalizeEdit_def normalizeToLF_def
  first_empty_def fuzzyFindText_def countOccurrences_def normalizeForFuzzyMatch_def trim_end_def is_space_def
  ascii_unit_def occurrences_from.simps applyReplacements_def replace_at_def

theorem edits_keep_format_witness:
  "edit_text (\<lambda>s. s) (js ''a'' @ [CR, LF] @ js ''b'') [\<lparr>e_old = js ''b'', e_new = [LF]\<rparr>] (js ''f'') =
     Inr (js ''a'' @ [CR, LF, CR, LF])"
proof -
  have "edit_text (\<lambda>s. s) (js ''a'' @ [LF] @ js ''b'') [\<lparr>e_old = js ''b'', e_new = [LF]\<rparr>] (js ''f'') =
      Inr (js ''a'' @ [LF, LF])"
    by (simp add: edit_evaluation edit_text_def stripBom_def restoreLineEndings_def detectLineEnding_def)
  then show ?thesis
    using edits_keep_format [of "js ''a'' @ [LF] @ js ''b''" "\<lambda>s. s"] by (simp add: js_def)
qed

section \<open>Exact edits\<close>

text \<open>The text with the edits made one after another from left to right.\<close>

inductive exchanged :: "(jstr \<times> jstr) list \<Rightarrow> jstr \<Rightarrow> jstr \<Rightarrow> bool" where
  no_edit: "exchanged [] s s"
| one_edit: "exchanged es rest rest' \<Longrightarrow> exchanged ((old, new) # es) (pre @ old @ rest) (pre @ new @ rest')"

text \<open>Matches in order, without overlap, within a text that starts at \<open>k\<close>.\<close>

fun disjoint_from :: "nat \<Rightarrow> nat \<Rightarrow> MatchedEdit list \<Rightarrow> bool" where
  "disjoint_from n k [] \<longleftrightarrow> k \<le> n"
| "disjoint_from n k (r # rs) \<longleftrightarrow> k \<le> matchIndex r \<and> disjoint_from n (matchIndex r + matchLength r) rs"

definition stands :: "jstr \<Rightarrow> MatchedEdit \<Rightarrow> jstr \<Rightarrow> bool" where
  "stands s r old \<longleftrightarrow> matchLength r = length old \<and> take (length old) (drop (matchIndex r) s) = old"

lemma disjoint_bound: "disjoint_from n k rs \<Longrightarrow> k \<le> n"
  by (induction rs arbitrary: k) fastforce+

lemma fold_replace:
  assumes "disjoint_from (length s) k rs" and "list_all2 (stands s) rs olds"
  shows "\<exists>t. fold (replace_at 0) (rev rs) s = take k s @ t \<and> exchanged (zip olds (map newText rs)) (drop k s) t"
  using assms
proof (induction rs arbitrary: k olds)
  case Nil
  then show ?case by (intro exI [of _ "drop k s"]) (auto intro: no_edit)
next
  case (Cons r rs)
  let ?i = "matchIndex r" and ?e = "matchIndex r + matchLength r"
  obtain old olds' where olds: "olds = old # olds'" "stands s r old" "list_all2 (stands s) rs olds'"
    using Cons.prems(2) by (auto simp: list_all2_Cons1)
  have rest: "disjoint_from (length s) ?e rs" "k \<le> ?i" using Cons.prems(1) by simp_all
  obtain t where t: "fold (replace_at 0) (rev rs) s = take ?e s @ t"
    "exchanged (zip olds' (map newText rs)) (drop ?e s) t"
    using Cons.IH [OF rest(1) olds(3)] by blast
  have bound: "?e \<le> length s" by (rule disjoint_bound [OF rest(1)])
  have "take ?i s = take k s @ take (?i - k) (drop k s)" using rest(2) by (metis le_add_diff_inverse take_add)
  then have "fold (replace_at 0) (rev (r # rs)) s = take k s @ take (?i - k) (drop k s) @ newText r @ t"
    using bound by (simp add: t replace_at_def min_def)
  moreover have "drop k s = take (?i - k) (drop k s) @ old @ drop ?e s"
    using olds(2) rest(2) unfolding stands_def
    by (metis add.commute append_take_drop_id drop_drop le_add_diff_inverse2)
  ultimately show ?case
    using one_edit [OF t(2), of old "newText r" "take (?i - k) (drop k s)"]
    by (intro exI [of _ "take (?i - k) (drop k s) @ newText r @ t"]) (simp add: olds(1))
qed


text \<open>The text a match stands on.\<close>

definition old_text :: "jstr \<Rightarrow> MatchedEdit \<Rightarrow> jstr" where
  "old_text s r = take (matchLength r) (drop (matchIndex r) s)"

lemma starts_with_take: "starts_with s t \<Longrightarrow> length t \<le> length s \<and> take (length t) s = t"
  by (auto simp: starts_with_iff)

lemma find_sub_stands: "find_sub s t = Some i \<Longrightarrow> i + length t \<le> length s \<and> take (length t) (drop i s) = t"
  by (induction s t arbitrary: i rule: find_sub.induct)
    (auto dest!: starts_with_take split: if_splits simp del: starts_with.simps)

lemma match_edits_exact:
  assumes "\<forall>e \<in> set es. \<not> fm_usedFuzzyMatch (fuzzyFindText nfkc s (e_old e))"
    and "match_edits nfkc path s n i es = Inr rs"
  shows "list_all2 (\<lambda>r e. stands s r (e_old e) \<and> newText r = e_new e \<and> matchIndex r + matchLength r \<le> length s) rs es"
  using assms
proof (induction es arbitrary: i rs)
  case (Cons e es)
  obtain k where k: "find_sub s (e_old e) = Some k"
    using Cons.prems by (auto simp: fuzzyFindText_def Let_def split: option.splits if_splits)
  obtain rs' where "match_edits nfkc path s n (i + 1) es = Inr rs'"
    and "rs = \<lparr>editIndex = i, matchIndex = k, matchLength = length (e_old e), newText = e_new e\<rparr> # rs'"
    using Cons.prems(2) k
    by (cases "match_edits nfkc path s n (i + 1) es") (auto simp: fuzzyFindText_def Let_def split: if_splits)
  then show ?case
    using Cons.IH [of "i + 1" rs'] Cons.prems(1) find_sub_stands [OF k] by (auto simp: stands_def)
qed simp

lemma overlap_free:
  "\<lbrakk>first_overlap rs = None; \<forall>r \<in> set rs. matchIndex r + matchLength r \<le> n; rs \<noteq> []\<rbrakk> \<Longrightarrow>
   disjoint_from n (matchIndex (hd rs)) rs"
  by (induction rs rule: first_overlap.induct) (auto split: if_splits)

lemma overlap_free_all:
  "\<lbrakk>first_overlap rs = None; \<forall>r \<in> set rs. matchIndex r + matchLength r \<le> n\<rbrakk> \<Longrightarrow> disjoint_from n 0 rs"
  using overlap_free [of rs n] by (cases rs) auto

lemma exact_edits:
  assumes "applyEditsToNormalizedContent nfkc s edits path = Inr (base, new)"
    and "\<forall>e \<in> set (map normalizeEdit edits). \<not> fm_usedFuzzyMatch (fuzzyFindText nfkc s (e_old e))"
  shows "base = s \<and> new \<noteq> s \<and> (\<exists>es. mset es = mset (map (\<lambda>e. (e_old e, e_new e)) (map normalizeEdit edits)) \<and>
    exchanged es s new)"
proof -
  let ?es = "map normalizeEdit edits"
  have exact: "\<not> list_ex (\<lambda>e. fm_usedFuzzyMatch (fuzzyFindText nfkc s (e_old e))) ?es"
    using assms(2) by (simp add: list_ex_iff)
  obtain rs where rs: "match_edits nfkc path s (length ?es) 0 ?es = Inr rs"
    and free: "first_overlap (sort_key matchIndex rs) = None"
    and new: "new = applyReplacements s (sort_key matchIndex rs) 0" "new \<noteq> s" "base = s"
  proof -
    have none: "first_empty ?es = None"
      using assms(1) by (cases "first_empty ?es") (simp_all add: applyEditsToNormalizedContent_def Let_def)
    note run = assms(1) [unfolded applyEditsToNormalizedContent_def Let_def none option.case exact [THEN eq_False [THEN iffD2]] if_False]
    show thesis
    proof (cases "match_edits nfkc path s (length ?es) 0 ?es")
      case (Inl e)
      then show thesis using run by simp
    next
      case (Inr rs)
      note run' = run [unfolded Inr sum.case]
      show thesis
      proof (cases "first_overlap (sort_key matchIndex rs)")
        case None
        have "new = applyReplacements s (sort_key matchIndex rs) 0 \<and> new \<noteq> s \<and> base = s"
          using run' [unfolded None option.case sum.case]
          by (cases "s = applyReplacements s (sort_key matchIndex rs) 0") (simp, simp, metis)
        then show thesis by (elim conjE) (rule that [OF Inr None])
      next
        case (Some p)
        then show thesis using run' by (cases p) simp
      qed
    qed
  qed
  note all = match_edits_exact [OF assms(2) rs]
  let ?rs = "sort_key matchIndex rs"
  let ?pair = "\<lambda>r. (old_text s r, newText r)"
  have pairs: "map ?pair rs = map (\<lambda>e. (e_old e, e_new e)) ?es"
  proof (rule nth_equalityI)
    show "length (map ?pair rs) = length (map (\<lambda>e. (e_old e, e_new e)) ?es)"
      using list_all2_lengthD [OF all] by simp
    fix i assume "i < length (map ?pair rs)"
    then show "map ?pair rs ! i = map (\<lambda>e. (e_old e, e_new e)) ?es ! i"
      using list_all2_nthD [OF all, of i] list_all2_lengthD [OF all] by (simp add: stands_def old_text_def)
  qed
  have bound: "\<forall>r \<in> set ?rs. matchIndex r + matchLength r \<le> length s"
    using all by (auto simp: list_all2_conv_all_nth in_set_conv_nth)
  then have "list_all2 (stands s) ?rs (map (old_text s) ?rs)"
    by (auto simp: list_all2_map2 stands_def old_text_def list_all2_same)
  then obtain t where "new = t" "exchanged (zip (map (old_text s) ?rs) (map newText ?rs)) s t"
    using fold_replace [OF overlap_free_all [OF free bound]] new(1) by (auto simp: applyReplacements_def)
  moreover have "zip (map (old_text s) ?rs) (map newText ?rs) = map ?pair ?rs"
    by (simp add: zip_map_map zip_same_conv_map)
  moreover have "mset (map ?pair ?rs) = mset (map (\<lambda>e. (e_old e, e_new e)) ?es)"
    by (simp only: pairs [symmetric] mset_map mset_sort)
  ultimately have "mset (map ?pair ?rs) = mset (map (\<lambda>e. (e_old e, e_new e)) ?es) \<and> exchanged (map ?pair ?rs) s new"
    by (simp only: simp_thms)
  with new(2,3) show ?thesis by blast
qed

text \<open>C36: when every old text is found as it is, the new text is the old one with each edit's old
  text, in the order in which they stand, exchanged for its new text, and it differs from the old.\<close>

theorem exact_edits_exchange:
  assumes "applyEditsToNormalizedContent nfkc s edits path = Inr (base, new)"
    and "\<forall>e \<in> set (map normalizeEdit edits). \<not> fm_usedFuzzyMatch (fuzzyFindText nfkc s (e_old e))"
  shows "base = s \<and> new \<noteq> s \<and> (\<exists>es. mset es = mset (map (\<lambda>e. (e_old e, e_new e)) (map normalizeEdit edits)) \<and>
    exchanged es s new)"
  by (rule exact_edits [OF assms])

theorem exact_edits_exchange_witness:
  "applyEditsToNormalizedContent (\<lambda>s. s) (js ''ab'') [\<lparr>e_old = js ''b'', e_new = js ''c''\<rparr>] (js ''f'') =
     Inr (js ''ab'', js ''ac'') \<and>
   (\<exists>es. mset es = {#(js ''b'', js ''c'')#} \<and> exchanged es (js ''ab'') (js ''ac''))"
proof -
  let ?edits = "[\<lparr>e_old = js ''b'', e_new = js ''c''\<rparr>]"
  have run: "applyEditsToNormalizedContent (\<lambda>s. s) (js ''ab'') ?edits (js ''f'') = Inr (js ''ab'', js ''ac'')"
    by (simp add: edit_evaluation)
  have "\<forall>e \<in> set (map normalizeEdit ?edits). \<not> fm_usedFuzzyMatch (fuzzyFindText (\<lambda>s. s) (js ''ab'') (e_old e))"
    by (simp add: edit_evaluation)
  from exact_edits_exchange [OF run this] run show ?thesis
    by (simp add: normalizeEdit_def normalizeToLF_def js_def)
qed

end
