(* ===== verification/EditFuzzy.thy ===== *)
theory EditFuzzy
  imports EditDiffProps
begin

text \<open>
  Fuzzy edits: the edits are made in the normalised text, and what they touch is laid over the
  lines of the original; and the two cases in which the tool rejects an edit it should take.
\<close>

section \<open>Lines with their ends\<close>

abbreviation lines :: "jstr \<Rightarrow> jstr list" where
  "lines \<equiv> splitLinesWithEndings"

lemma concat_lines [simp]: "concat (lines s) = s"
  by (induction s) (auto split: list.splits)

lemma length_lines:
  "length (lines s) = length (split_on LF s) - (if last (split_on LF s) = [] then 1 else 0)"
proof (induction s)
  case (Cons c s)
  have "lines s = [] \<longleftrightarrow> s = []" using concat_lines [of s] by (cases s) (auto split: list.splits)
  then show ?case
    using Cons by (cases "split_on LF s") (auto split: list.splits if_splits)
qed simp

definition offset :: "jstr list \<Rightarrow> nat \<Rightarrow> nat" where
  "offset ls i = length (concat (take i ls))"

lemma offset_simps [simp]: "offset ls 0 = 0" "offset ls (length ls) = length (concat ls)"
  by (simp_all add: offset_def)

lemma offset_add: "i \<le> j \<Longrightarrow> offset ls j = offset ls i + length (concat (slice ls i j))"
  using take_add [of i "j - i" ls] by (simp add: offset_def slice_def)

lemma offset_mono: "i \<le> j \<Longrightarrow> offset ls i \<le> offset ls j"
  by (simp add: offset_add)

lemma concat_slice:
  assumes "i \<le> j"
  shows "slice (concat ls) (offset ls i) (offset ls j) = concat (slice ls i j)"
proof -
  have "concat ls = concat (take i ls) @ concat (slice ls i j) @ concat (drop j ls)"
    using assms by (metis append_take_drop_id concat_append drop_drop le_add_diff_inverse2 slice_def)
  then show ?thesis
    using offset_add [OF assms, of ls] by (simp add: slice_def offset_def)
qed

lemma getLineSpans_nth: "i < length (lines s) \<Longrightarrow>
    getLineSpans s ! i = (offset (lines s) i, offset (lines s) (Suc i))"
proof -
  have "i < length ls \<Longrightarrow> spans_from k ls ! i = (k + offset ls i, k + offset ls (Suc i))" for k i ls
    by (induction ls arbitrary: k i) (auto simp: offset_def nth_Cons split: nat.splits)
  then show "i < length (lines s) \<Longrightarrow> ?thesis" by (simp add: getLineSpans_def)
qed

lemma length_getLineSpans [simp]: "length (getLineSpans s) = length (lines s)"
proof -
  have "length (spans_from k ls) = length ls" for k ls by (induction ls arbitrary: k) simp_all
  then show ?thesis by (simp add: getLineSpans_def)
qed

section \<open>The lines an edit touches\<close>

definition touches :: "MatchedEdit \<Rightarrow> nat \<Rightarrow> nat \<Rightarrow> bool" where
  "touches r x y \<longleftrightarrow> matchIndex r < y \<and> (x \<le> matchIndex r \<or> x < matchIndex r + matchLength r)"

lemma line_range:
  assumes "getReplacementLineRange (getLineSpans s) r = Inr (a, b)"
  defines "pos \<equiv> offset (lines s)"
  shows "a < b" "b \<le> length (lines s)" "pos a \<le> matchIndex r" "matchIndex r + matchLength r \<le> pos b"
    "\<forall>i \<in> {a..<b}. touches r (pos i) (pos (Suc i))"
proof -
  let ?n = "length (lines s)"
  obtain e where first: "find (\<lambda>i. fst (getLineSpans s ! i) \<le> matchIndex r \<and> matchIndex r < snd (getLineSpans s ! i)) [0..<?n] = Some a"
    and last: "find (\<lambda>i. snd (getLineSpans s ! i) \<ge> matchIndex r + matchLength r) [a..<?n] = Some e" and b: "b = e + 1"
    using assms(1) by (auto simp: getReplacementLineRange_def Let_def split: option.splits)
  have a: "a < ?n" "pos a \<le> matchIndex r" "matchIndex r < pos (Suc a)"
    using first by (auto simp: find_Some_iff getLineSpans_nth pos_def)
  obtain k where k: "k < ?n - a" "e = a + k" "matchIndex r + matchLength r \<le> snd (getLineSpans s ! e)"
    "\<forall>j < k. \<not> matchIndex r + matchLength r \<le> snd (getLineSpans s ! (a + j))"
    using last by (auto simp: find_Some_iff)
  have "touches r (pos i) (pos (Suc i))" if "i \<in> {a..<b}" for i
  proof (cases "i = a")
    case True
    then show ?thesis using a by (simp add: touches_def)
  next
    case False
    then have "a < i" using that by simp
    then obtain j where "i = Suc (a + j)" using less_imp_Suc_add by blast
    then have j: "i = Suc (a + j)" "j < k" using that b k(2) by simp_all
    have "pos i < matchIndex r + matchLength r" using j k by (auto simp: getLineSpans_nth pos_def)
    moreover have "pos (Suc a) \<le> pos (Suc i)" unfolding pos_def by (rule offset_mono) (simp add: j)
    ultimately show ?thesis using a by (simp add: touches_def)
  qed
  then show "\<forall>i \<in> {a..<b}. touches r (pos i) (pos (Suc i))" by blast
  show "a < b" "b \<le> length (lines s)" "pos a \<le> matchIndex r" "matchIndex r + matchLength r \<le> pos b"
    using a b k by (auto simp: getLineSpans_nth pos_def)
qed

definition group_ok :: "jstr list \<Rightarrow> line_group \<Rightarrow> bool" where
  "group_ok ls g \<longleftrightarrow> startLine g < endLine g \<and> endLine g \<le> length ls \<and>
     (\<forall>r \<in> set (members g). offset ls (startLine g) \<le> matchIndex r \<and> matchIndex r + matchLength r \<le> offset ls (endLine g)) \<and>
     (\<forall>i \<in> {startLine g..<endLine g}. \<exists>r \<in> set (members g). touches r (offset ls i) (offset ls (Suc i)))"

definition groups_ok :: "jstr list \<Rightarrow> line_group list \<Rightarrow> bool" where
  "groups_ok ls gs \<longleftrightarrow> (\<forall>g \<in> set gs. group_ok ls g) \<and> sorted_wrt (\<lambda>g h. endLine g \<le> startLine h) gs"

abbreviation all_members :: "line_group list \<Rightarrow> MatchedEdit list" where
  "all_members gs \<equiv> concat (map members gs)"

lemma widened_group:
  assumes ok: "group_ok ls g" and s: "s < endLine g" and e: "e \<le> length ls"
    and r: "matchIndex r + matchLength r \<le> offset ls e" "offset ls (startLine g) \<le> matchIndex r"
    and t: "\<forall>i \<in> {s..<e}. touches r (offset ls i) (offset ls (Suc i))"
  shows "group_ok ls (g\<lparr>endLine := max (endLine g) e, members := members g @ [r]\<rparr>)"
proof -
  let ?g = "g\<lparr>endLine := max (endLine g) e, members := members g @ [r]\<rparr>"
  have top: "offset ls (endLine g) \<le> offset ls (endLine ?g)" "offset ls e \<le> offset ls (endLine ?g)"
    by (auto intro: offset_mono)
  have "\<exists>r \<in> set (members ?g). touches r (offset ls i) (offset ls (Suc i))" if "i \<in> {startLine g..<endLine ?g}" for i
  proof (cases "i < endLine g")
    case True
    then show ?thesis using ok that by (auto simp: group_ok_def)
  next
    case False
    then show ?thesis using t s that by auto
  qed
  moreover have "offset ls (startLine g) \<le> matchIndex q \<and> matchIndex q + matchLength q \<le> offset ls (endLine ?g)"
    if "q \<in> set (members ?g)" for q
    using that ok r top by (auto simp: group_ok_def intro: le_trans)
  ultimately show ?thesis using ok e by (auto simp: group_ok_def)
qed

lemma add_group:
  assumes ok: "groups_ok (lines s) gs" and add: "add_to_groups (getLineSpans s) gs r = Inr gs'"
    and le: "\<forall>q \<in> set (all_members gs). matchIndex q \<le> matchIndex r"
  shows "groups_ok (lines s) gs' \<and> all_members gs' = all_members gs @ [r]"
proof -
  obtain a b where ab: "getReplacementLineRange (getLineSpans s) r = Inr (a, b)"
    using add by (auto simp: add_to_groups_def split: sum.splits)
  note range = line_range [OF ab]
  show ?thesis
  proof (cases "gs \<noteq> [] \<and> a < endLine (last gs)")
    case True
    then obtain hs g where gs: "gs = hs @ [g]" by (cases gs rule: rev_cases) auto
    have g: "group_ok (lines s) g" using ok by (simp add: gs groups_ok_def)
    then obtain q where "q \<in> set (members g)" "offset (lines s) (startLine g) \<le> matchIndex q"
      by (force simp: group_ok_def)
    then have "offset (lines s) (startLine g) \<le> matchIndex r" using le by (force simp: gs)
    with widened_group [OF g _ range(2) range(4) _ range(5)] True add ab ok show ?thesis
      by (auto simp: add_to_groups_def gs groups_ok_def sorted_wrt_append)
  next
    case False
    have "endLine h \<le> a" if h: "h \<in> set gs" for h
    proof -
      obtain hs g where gs: "gs = hs @ [g]" using h by (cases gs rule: rev_cases) auto
      then have "endLine g \<le> a" "startLine g \<le> endLine g" using False ok by (auto simp: groups_ok_def group_ok_def)
      then show ?thesis using h ok by (auto simp: gs groups_ok_def sorted_wrt_append)
    qed
    moreover have "group_ok (lines s) \<lparr>startLine = a, endLine = b, members = [r]\<rparr>"
      using range by (simp add: group_ok_def)
    moreover have "gs' = gs @ [\<lparr>startLine = a, endLine = b, members = [r]\<rparr>]"
      using False add ab by (auto simp: add_to_groups_def)
    ultimately show ?thesis using ok by (simp add: groups_ok_def sorted_wrt_append)
  qed
qed

lemma group_all_ok:
  "\<lbrakk>groups_ok (lines s) gs; group_all (getLineSpans s) gs rs = Inr gs';
    sorted_wrt (\<lambda>p q. matchIndex p \<le> matchIndex q) (all_members gs @ rs)\<rbrakk> \<Longrightarrow>
   groups_ok (lines s) gs' \<and> all_members gs' = all_members gs @ rs"
proof (induction rs arbitrary: gs)
  case (Cons r rs)
  obtain hs where hs: "add_to_groups (getLineSpans s) gs r = Inr hs" "group_all (getLineSpans s) hs rs = Inr gs'"
    using Cons.prems(2) by (auto split: sum.splits)
  have "\<forall>q \<in> set (all_members gs). matchIndex q \<le> matchIndex r"
    using Cons.prems(3) by (simp add: sorted_wrt_append)
  from add_group [OF Cons.prems(1) hs(1) this] Cons.IH [OF _ hs(2)] Cons.prems(3) show ?case by simp
qed simp

section \<open>The overlay\<close>

text \<open>An original text with the lines of a base text in which edits are made: a line is kept as it
  was, or a block of lines, each touched by an edit of the block, is the base block with its edits made.\<close>

inductive overlaid :: "jstr \<Rightarrow> MatchedEdit list \<Rightarrow> nat \<Rightarrow> jstr list \<Rightarrow> jstr list \<Rightarrow> jstr \<Rightarrow> bool" for base where
  overlaid_end: "overlaid base [] k [] [] []"
| line_kept: "overlaid base rs (k + length b) ls bs out \<Longrightarrow> overlaid base rs k (l # ls) (b # bs) (l @ out)"
| block_edited: "\<lbrakk>length ms = length cs; \<forall>i < length cs. \<exists>r \<in> set qs. touches r (k + offset cs i) (k + offset cs (Suc i));
    exchanged (map (\<lambda>r. (old_text base r, newText r)) qs) (concat cs) t;
    overlaid base rs (k + length (concat cs)) ls bs out\<rbrakk> \<Longrightarrow>
    overlaid base (qs @ rs) k (ms @ ls) (cs @ bs) (t @ out)"

lemma lines_kept:
  "\<lbrakk>length ms = length cs; overlaid base rs (k + length (concat cs)) ls bs out\<rbrakk> \<Longrightarrow>
   overlaid base rs k (ms @ ls) (cs @ bs) (concat ms @ out)"
proof (induction ms cs arbitrary: k rule: list_induct2)
  case (Cons m ms c cs)
  then show ?case using line_kept [of base rs k c "ms @ ls" "cs @ bs" "concat ms @ out" m] by (simp add: add.assoc)
qed simp

abbreviation apart :: "MatchedEdit \<Rightarrow> MatchedEdit \<Rightarrow> bool" where
  "apart p q \<equiv> matchIndex p + matchLength p \<le> matchIndex q"

lemma apart_disjoint:
  "\<lbrakk>sorted_wrt apart rs; \<forall>r \<in> set rs. k \<le> matchIndex r \<and> matchIndex r + matchLength r \<le> n; k \<le> n\<rbrakk> \<Longrightarrow> disjoint_from n k rs"
  by (induction rs arbitrary: k) auto

lemma edits_in_block:
  assumes "sorted_wrt apart qs" and "a \<le> b" and "b \<le> length base"
    and inside: "\<forall>r \<in> set qs. a \<le> matchIndex r \<and> matchIndex r + matchLength r \<le> b"
  shows "exchanged (map (\<lambda>r. (old_text base r, newText r)) qs) (slice base a b) (applyReplacements (slice base a b) qs a)"
proof -
  let ?s = "slice base a b" and ?shift = "\<lambda>r. r\<lparr>matchIndex := matchIndex r - a\<rparr>"
  let ?qs = "map ?shift qs"
  have replace: "fold (replace_at a) rs t = fold (replace_at 0) (map ?shift rs) t" for rs t
    by (induction rs arbitrary: t) (simp_all add: replace_at_def)
  have len: "length ?s = b - a" using assms(3) by (simp add: slice_def)
  have "sorted_wrt apart ?qs"
    using assms(1) inside by (auto simp: sorted_wrt_map intro: sorted_wrt_mono_rel [rotated])
  then have "disjoint_from (length ?s) 0 ?qs"
    by (rule apart_disjoint) (use inside len assms(2) in auto)
  moreover have "list_all2 (stands ?s) ?qs (map (old_text base) qs)"
    using inside assms(2,3)
    by (auto simp: list_all2_map1 list_all2_map2 list_all2_same stands_def old_text_def slice_def min_def take_drop)
  ultimately obtain t where "fold (replace_at 0) (rev ?qs) ?s = t"
    "exchanged (zip (map (old_text base) qs) (map newText ?qs)) ?s t"
    using fold_replace [of ?s 0 ?qs] by auto
  moreover have "zip (map (old_text base) qs) (map newText ?qs) = map (\<lambda>r. (old_text base r, newText r)) qs"
    by (simp add: zip_map_map comp_def zip_same_conv_map)
  ultimately show ?thesis by (simp add: applyReplacements_def replace rev_map)
qed

lemma drop_slice: "a \<le> b \<Longrightarrow> drop a xs = slice xs a b @ drop b xs"
  unfolding slice_def by (metis append_take_drop_id drop_drop le_add_diff_inverse2)

lemma offset_slice: "\<lbrakk>a \<le> b; b \<le> length ls; i \<le> b - a\<rbrakk> \<Longrightarrow> offset ls a + offset (slice ls a b) i = offset ls (a + i)"
  by (simp add: slice_def offset_def min_def take_add)

lemma overlay_overlaid:
  assumes "groups_ok (lines base) gs" and "\<forall>g \<in> set gs. i \<le> startLine g" and "i \<le> length ol"
    and "length ol = length (lines base)" and "sorted_wrt apart (all_members gs)"
  shows "overlaid base (all_members gs) (offset (lines base) i) (drop i ol) (drop i (lines base))
    (overlay ol base (getLineSpans base) i gs)"
  using assms
proof (induction gs arbitrary: i)
  case Nil
  let ?ls = "lines base"
  have "overlaid base [] (offset ?ls i + length (concat (drop i ?ls))) [] [] []" by (rule overlaid_end)
  from lines_kept [OF _ this, of "drop i ol"] Nil.prems show ?case by simp
next
  case (Cons g gs)
  let ?ls = "lines base" and ?a = "startLine g" and ?b = "endLine g"
  have g: "group_ok ?ls g" "i \<le> ?a" "?a < ?b" "?b \<le> length ?ls" "\<forall>h \<in> set gs. ?b \<le> startLine h"
    using Cons.prems(1,2) by (auto simp: groups_ok_def group_ok_def)
  have spans: "fst (getLineSpans base ! ?a) = offset ?ls ?a" "snd (getLineSpans base ! (?b - 1)) = offset ?ls ?b"
    using g by (simp_all add: getLineSpans_nth)
  have block: "slice base (offset ?ls ?a) (offset ?ls ?b) = concat (slice ?ls ?a ?b)"
    using concat_slice [of ?a ?b ?ls] g by simp
  have tail: "overlaid base (all_members gs) (offset ?ls ?b) (drop ?b ol) (drop ?b ?ls)
      (overlay ol base (getLineSpans base) ?b gs)"
    using Cons.prems g by (intro Cons.IH) (auto simp: groups_ok_def sorted_wrt_append)
  have len: "offset ?ls ?b \<le> length base" using offset_mono [of ?b "length ?ls" ?ls] g by simp
  have made: "exchanged (map (\<lambda>r. (old_text base r, newText r)) (members g)) (concat (slice ?ls ?a ?b))
      (applyReplacements (concat (slice ?ls ?a ?b)) (members g) (offset ?ls ?a))"
    unfolding block [symmetric] using Cons.prems(5) g offset_mono [of ?a ?b ?ls]
    by (intro edits_in_block len) (auto simp: sorted_wrt_append group_ok_def)
  have touched: "\<forall>j < length (slice ?ls ?a ?b). \<exists>r \<in> set (members g).
      touches r (offset ?ls ?a + offset (slice ?ls ?a ?b) j) (offset ?ls ?a + offset (slice ?ls ?a ?b) (Suc j))"
  proof (intro allI impI)
    fix j assume "j < length (slice ?ls ?a ?b)"
    then have j: "j < ?b - ?a" using g by (simp add: slice_def)
    then have "?a + j \<in> {?a..<?b}" using g by simp
    then have "\<exists>r \<in> set (members g). touches r (offset ?ls (?a + j)) (offset ?ls (Suc (?a + j)))"
      using g(1) unfolding group_ok_def by blast
    then show "\<exists>r \<in> set (members g).
        touches r (offset ?ls ?a + offset (slice ?ls ?a ?b) j) (offset ?ls ?a + offset (slice ?ls ?a ?b) (Suc j))"
      using j g by (simp add: offset_slice)
  qed
  have "overlaid base (members g @ all_members gs) (offset ?ls ?a) (slice ol ?a ?b @ drop ?b ol)
      (slice ?ls ?a ?b @ drop ?b ?ls)
      (applyReplacements (concat (slice ?ls ?a ?b)) (members g) (offset ?ls ?a) @
       overlay ol base (getLineSpans base) ?b gs)"
    by (rule block_edited [OF _ touched made])
      (use tail g Cons.prems(4) in \<open>simp_all add: slice_def offset_add [of ?a ?b]\<close>)
  then have rest: "overlaid base (members g @ all_members gs) (offset ?ls ?a) (drop ?a ol) (drop ?a ?ls)
      (applyReplacements (concat (slice ?ls ?a ?b)) (members g) (offset ?ls ?a) @
       overlay ol base (getLineSpans base) ?b gs)"
    using g by (simp flip: drop_slice)
  have "overlaid base (members g @ all_members gs) (offset ?ls i) (slice ol i ?a @ drop ?a ol)
      (slice ?ls i ?a @ drop ?a ?ls) (concat (slice ol i ?a) @
       applyReplacements (concat (slice ?ls ?a ?b)) (members g) (offset ?ls ?a) @
       overlay ol base (getLineSpans base) ?b gs)"
    by (rule lines_kept) (use rest g Cons.prems(4) in \<open>simp_all add: slice_def offset_add [of i ?a]\<close>)
  then show ?case
    using g by (simp add: Let_def spans [unfolded One_nat_def] block flip: drop_slice)
qed

section \<open>Normalising twice\<close>

lemma ascii_unit_space: "is_space (ascii_unit c) \<longleftrightarrow> is_space c"
  by (auto simp: ascii_unit_def is_space_def)

lemma ascii_unit_idem: "ascii_unit (ascii_unit c) = ascii_unit c"
  by (auto simp: ascii_unit_def)

lemma ascii_unit_lf: "ascii_unit c = LF \<longleftrightarrow> c = LF"
  by (auto simp: ascii_unit_def)

lemma trim_end_map: "trim_end (map ascii_unit s) = map ascii_unit (trim_end s)"
proof -
  have "dropWhile is_space (map ascii_unit t) = map ascii_unit (dropWhile is_space t)" for t
    by (simp add: dropWhile_map comp_def ascii_unit_space)
  then show ?thesis by (simp add: trim_end_def rev_map)
qed

lemma trim_end_idem: "trim_end (trim_end s) = trim_end s"
  by (simp add: trim_end_def)

lemma split_on_map: "split_on LF (map ascii_unit s) = map (map ascii_unit) (split_on LF s)"
  by (induction s) (auto simp: ascii_unit_lf split: list.splits)

lemma lf_trim_end: "LF \<notin> set l \<Longrightarrow> LF \<notin> set (trim_end l)"
  by (auto simp: trim_end_def dest: set_dropWhileD)

lemma split_normalize:
  "split_on LF (normalizeForFuzzyMatch nfkc s) = map (map ascii_unit \<circ> trim_end) (split_on LF (nfkc s))"
proof -
  have "split_on LF (join [LF] (map trim_end (split_on LF (nfkc s)))) = map trim_end (split_on LF (nfkc s))"
    by (rule split_join) (auto simp: lf_trim_end split_on_parts)
  then show ?thesis by (simp add: normalizeForFuzzyMatch_def split_on_map)
qed

lemma normalize_idem:
  assumes "nfkc (normalizeForFuzzyMatch nfkc s) = normalizeForFuzzyMatch nfkc s"
  shows "normalizeForFuzzyMatch nfkc (normalizeForFuzzyMatch nfkc s) = normalizeForFuzzyMatch nfkc s"
proof -
  have "split_on LF (normalizeForFuzzyMatch nfkc (normalizeForFuzzyMatch nfkc s)) =
      split_on LF (normalizeForFuzzyMatch nfkc s)"
    unfolding split_normalize [of nfkc "normalizeForFuzzyMatch nfkc s"] assms
    by (simp add: split_normalize comp_def trim_end_map trim_end_idem ascii_unit_idem)
  then show ?thesis by (metis join_split)
qed

section \<open>Fuzzy edits\<close>

text \<open>A match of an edit in the base text: its old text stands there, as it is or normalised.\<close>

definition matches_edit :: "(jstr \<Rightarrow> jstr) \<Rightarrow> jstr \<Rightarrow> MatchedEdit \<Rightarrow> Edit \<Rightarrow> bool" where
  "matches_edit nfkc base r e \<longleftrightarrow> newText r = e_new e \<and>
     old_text base r \<in> {e_old e, normalizeForFuzzyMatch nfkc (e_old e)}"

lemma find_old_text: "find_sub s t = Some i \<Longrightarrow> matchIndex r = i \<Longrightarrow> matchLength r = length t \<Longrightarrow> old_text s r = t"
  using find_sub_stands [of s t i] by (simp add: old_text_def)

lemma match_edits_fuzzy:
  assumes "normalizeForFuzzyMatch nfkc base = base" and "match_edits nfkc path base n i es = Inr rs"
  shows "list_all2 (matches_edit nfkc base) rs es"
  using assms(2)
proof (induction es arbitrary: i rs)
  case (Cons e es)
  let ?m = "fuzzyFindText nfkc base (e_old e)"
  let ?r = "\<lparr>editIndex = i, matchIndex = fm_index ?m, matchLength = fm_matchLength ?m, newText = e_new e\<rparr>"
  obtain rs' where "match_edits nfkc path base n (i + 1) es = Inr rs'" "fm_found ?m" "rs = ?r # rs'"
    using Cons.prems
    by (cases "match_edits nfkc path base n (i + 1) es") (auto simp: Let_def split: if_splits)
  moreover from this have "matches_edit nfkc base ?r e"
    by (auto simp: matches_edit_def fuzzyFindText_def assms(1) Let_def intro: find_old_text split: option.splits)
  ultimately show ?case using Cons.IH by simp
qed simp

lemma overlap_free_apart: "first_overlap rs = None \<Longrightarrow> sorted_wrt apart rs"
proof (induction rs rule: first_overlap.induct)
  case (1 p c rs)
  then have "sorted_wrt apart (c # rs)" "apart p c" by (auto split: if_splits)
  then show ?case by auto
qed auto

lemma fuzzy_edits:
  assumes run: "applyEditsToNormalizedContent nfkc s edits path = Inr (base, new)"
    and fuzzy: "\<exists>e \<in> set (map normalizeEdit edits). fm_usedFuzzyMatch (fuzzyFindText nfkc s (e_old e))"
    and stable: "nfkc (normalizeForFuzzyMatch nfkc s) = normalizeForFuzzyMatch nfkc s"
  defines "fs \<equiv> normalizeForFuzzyMatch nfkc s"
  shows "\<exists>ms rs. list_all2 (matches_edit nfkc fs) ms (map normalizeEdit edits) \<and> mset rs = mset ms \<and>
    sorted_wrt apart rs \<and> overlaid fs rs 0 (lines s) (lines fs) new"
proof -
  let ?es = "map normalizeEdit edits"
  have used: "list_ex (\<lambda>e. fm_usedFuzzyMatch (fuzzyFindText nfkc s (e_old e))) ?es"
    using fuzzy by (simp only: list_ex_iff)
  have none: "first_empty ?es = None"
    using run by (cases "first_empty ?es") (simp_all add: applyEditsToNormalizedContent_def Let_def)
  note run1 = run [unfolded applyEditsToNormalizedContent_def Let_def none option.case if_P [OF used], folded fs_def]
  obtain ms where ms: "match_edits nfkc path fs (length ?es) 0 ?es = Inr ms"
    using run1 by (cases "match_edits nfkc path fs (length ?es) 0 ?es") simp_all
  let ?rs = "sort_key matchIndex ms"
  note run2 = run1 [unfolded ms sum.case]
  have free: "first_overlap ?rs = None"
    using run2 by (cases "first_overlap ?rs") auto
  note run3 = run2 [unfolded free option.case]
  have "applyReplacementsPreservingUnchangedLines s fs ?rs = Inr new"
    using run3 by (cases "applyReplacementsPreservingUnchangedLines s fs ?rs") (auto split: if_splits)
  then obtain gs where len: "length (lines s) = length (lines fs)"
    and gs: "group_all (getLineSpans fs) [] ?rs = Inr gs" "new = overlay (lines s) fs (getLineSpans fs) 0 gs"
    by (auto simp: applyReplacementsPreservingUnchangedLines_def Let_def sort_key_id_if_sorted split: if_splits sum.splits)
  have "sorted_wrt (\<lambda>p q. matchIndex p \<le> matchIndex q) ?rs"
    using sorted_sort_key [of matchIndex ms] by (simp add: sorted_map)
  then have ok: "groups_ok (lines fs) gs" "all_members gs = ?rs"
    using group_all_ok [OF _ gs(1)] by (simp_all add: groups_ok_def)
  have "overlaid fs ?rs 0 (lines s) (lines fs) new"
    using overlay_overlaid [OF ok(1), of 0 "lines s"] len overlap_free_apart [OF free] ok(2) gs(2) by simp
  moreover have "list_all2 (matches_edit nfkc fs) ms ?es"
    by (rule match_edits_fuzzy [OF _ ms]) (simp add: fs_def normalize_idem [OF stable])
  ultimately show ?thesis using overlap_free_apart [OF free] by (intro exI [of _ ms] exI [of _ ?rs]) simp
qed

text \<open>C37: when some old text is only found after normalisation, the new text is the original with
  every line as it was that no edit touches; the blocks of lines that edits touch are the normalised
  lines with each edit's old text, as it is or normalised, exchanged for its new text.\<close>

theorem fuzzy_edits_keep_lines:
  assumes "applyEditsToNormalizedContent nfkc s edits path = Inr (base, new)"
    and "\<exists>e \<in> set (map normalizeEdit edits). fm_usedFuzzyMatch (fuzzyFindText nfkc s (e_old e))"
    and "nfkc (normalizeForFuzzyMatch nfkc s) = normalizeForFuzzyMatch nfkc s"
  shows "\<exists>ms rs. list_all2 (matches_edit nfkc (normalizeForFuzzyMatch nfkc s)) ms (map normalizeEdit edits) \<and>
    mset rs = mset ms \<and> sorted_wrt apart rs \<and>
    overlaid (normalizeForFuzzyMatch nfkc s) rs 0 (lines s) (lines (normalizeForFuzzyMatch nfkc s)) new"
  by (rule fuzzy_edits [OF assms])

theorem fuzzy_edits_keep_lines_witness:
  "applyEditsToNormalizedContent (\<lambda>s. s) (js ''a '' @ [LF] @ js ''b '' @ [LF]) [\<lparr>e_old = js ''b'' @ [LF], e_new = [LF]\<rparr>] (js ''f'') =
     Inr (js ''a '' @ [LF] @ js ''b '' @ [LF], js ''a '' @ [LF, LF]) \<and>
   (\<exists>rs. overlaid (js ''a'' @ [LF] @ js ''b'' @ [LF]) rs 0 [js ''a '' @ [LF], js ''b '' @ [LF]]
      [js ''a'' @ [LF], js ''b'' @ [LF]] (js ''a '' @ [LF, LF]))"
proof -
  let ?s = "js ''a '' @ [LF] @ js ''b '' @ [LF]" let ?edits = "[\<lparr>e_old = js ''b'' @ [LF], e_new = [LF]\<rparr>]"
  have norm: "normalizeForFuzzyMatch (\<lambda>s. s) ?s = js ''a'' @ [LF] @ js ''b'' @ [LF]"
    by (simp add: edit_evaluation)
  have run: "applyEditsToNormalizedContent (\<lambda>s. s) ?s ?edits (js ''f'') = Inr (?s, js ''a '' @ [LF, LF])"
    by (simp add: edit_evaluation applyReplacementsPreservingUnchangedLines_def getLineSpans_def
        add_to_groups_def getReplacementLineRange_def slice_def upt_rec)
  have fuzzy: "\<exists>e \<in> set (map normalizeEdit ?edits). fm_usedFuzzyMatch (fuzzyFindText (\<lambda>s. s) ?s (e_old e))"
    by (simp add: edit_evaluation)
  from fuzzy_edits_keep_lines [OF run fuzzy refl] run show ?thesis
    unfolding norm by (auto simp: js_def)
qed

section \<open>Edits that are rejected\<close>

lemma trim_end_blank: "trim_end l = [] \<longleftrightarrow> list_all is_space l"
  by (simp add: trim_end_def dropWhile_eq_Nil_conv list_all_iff)

text \<open>A fuzzy edit of a text fails, with an error that does not tell why, whenever the last line
  of the text consists of white space without a line end: normalising removes the line. On any other
  text the number of lines is no obstacle.\<close>

theorem blank_last_line_rejected:
  assumes "nfkc s = s"
  shows "applyReplacementsPreservingUnchangedLines s (normalizeForFuzzyMatch nfkc s) rs = Inl LineCountDiffers \<longleftrightarrow>
    last (split_on LF s) \<noteq> [] \<and> list_all is_space (last (split_on LF s))"
proof -
  let ?b = "normalizeForFuzzyMatch nfkc s" and ?l = "last (split_on LF s)"
  have "group_all spans gs rs \<noteq> Inl LineCountDiffers" for spans gs rs
    by (induction rs arbitrary: gs)
      (auto simp: add_to_groups_def getReplacementLineRange_def Let_def split: sum.splits if_splits option.splits)
  then have "applyReplacementsPreservingUnchangedLines s ?b rs = Inl LineCountDiffers \<longleftrightarrow>
      length (lines s) \<noteq> length (lines ?b)"
    by (auto simp: applyReplacementsPreservingUnchangedLines_def Let_def split: sum.splits)
  moreover have "length (split_on LF ?b) = length (split_on LF s)"
    "last (split_on LF ?b) = [] \<longleftrightarrow> list_all is_space ?l"
    by (simp_all add: split_normalize assms last_map trim_end_blank)
  moreover have "length (split_on LF s) \<noteq> length (split_on LF s) - 1" by (cases "split_on LF s") simp_all
  ultimately show ?thesis by (auto simp: length_lines)
qed

theorem blank_last_line_rejected_witness:
  "applyEditsToNormalizedContent (\<lambda>s. s) (js ''a '' @ [LF] @ js ''b'' @ [LF] @ js '' '')
      [\<lparr>e_old = js ''a'' @ [LF] @ js ''b'', e_new = js ''c''\<rparr>] (js ''f'') = Inl LineCountDiffers \<and>
   applyEditsToNormalizedContent (\<lambda>s. s) (js ''a '' @ [LF] @ js ''b'' @ [LF])
      [\<lparr>e_old = js ''a'' @ [LF] @ js ''b'', e_new = js ''c''\<rparr>] (js ''f'') =
     Inr (js ''a '' @ [LF] @ js ''b'' @ [LF], js ''c'' @ [LF])"
proof
  let ?s = "js ''a '' @ [LF] @ js ''b'' @ [LF] @ js '' ''"
  let ?r = "\<lparr>editIndex = 0, matchIndex = 0, matchLength = 3, newText = js ''c''\<rparr>"
  have "applyReplacementsPreservingUnchangedLines ?s (normalizeForFuzzyMatch (\<lambda>s. s) ?s) [?r] = Inl LineCountDiffers"
    unfolding blank_last_line_rejected [OF refl] by (simp add: js_def is_space_def)
  then show "applyEditsToNormalizedContent (\<lambda>s. s) ?s [\<lparr>e_old = js ''a'' @ [LF] @ js ''b'', e_new = js ''c''\<rparr>] (js ''f'') =
      Inl LineCountDiffers"
    by (simp add: edit_evaluation numeral_3_eq_3)
  show "applyEditsToNormalizedContent (\<lambda>s. s) (js ''a '' @ [LF] @ js ''b'' @ [LF])
      [\<lparr>e_old = js ''a'' @ [LF] @ js ''b'', e_new = js ''c''\<rparr>] (js ''f'') =
     Inr (js ''a '' @ [LF] @ js ''b'' @ [LF], js ''c'' @ [LF])"
    by (simp add: edit_evaluation applyReplacementsPreservingUnchangedLines_def getLineSpans_def
        add_to_groups_def getReplacementLineRange_def slice_def upt_rec)
qed

lemma blank_normalized:
  assumes "list_all is_space t" and "LF \<notin> set t" and "nfkc t = t"
  shows "normalizeForFuzzyMatch nfkc t = []"
  using assms by (simp add: normalizeForFuzzyMatch_def split_on_none trim_end_blank [THEN iffD2])

lemma find_sub_empty [simp]: "find_sub s [] = Some 0"
  by (cases s) simp_all

text \<open>An edit whose old text is white space within one line is rejected as a duplicate in every
  text of more than two code units, with their number less one as the number of occurrences, be the
  old text unique there or not even present.\<close>

theorem blank_old_text_duplicate:
  assumes "old \<noteq> []" and "list_all is_space old" and "LF \<notin> set old" and "CR \<notin> set old" and "nfkc old = old"
    and "nfkc (normalizeForFuzzyMatch nfkc s) = normalizeForFuzzyMatch nfkc s"
    and "2 < length (normalizeForFuzzyMatch nfkc s)"
  shows "applyEditsToNormalizedContent nfkc s [\<lparr>e_old = old, e_new = new\<rparr>] path =
    Inl (DuplicateText path 0 1 (int (length (normalizeForFuzzyMatch nfkc s)) - 1))"
proof -
  let ?f = "normalizeForFuzzyMatch nfkc"
  have old: "?f old = []" "normalizeToLF old = old"
    using assms by (simp_all add: blank_normalized normalizeToLF_id)
  have twice: "?f (?f s) = ?f s" by (rule normalize_idem [OF assms(6)])
  have found: "fm_found (fuzzyFindText nfkc t old)" for t
    by (simp add: fuzzyFindText_def old split: option.splits)
  have count: "countOccurrences nfkc t old = int (length (?f t)) - 1" for t
    by (simp add: countOccurrences_def old)
  have "match_edits nfkc path b 1 0 [\<lparr>e_old = old, e_new = normalizeToLF new\<rparr>] =
      Inl (DuplicateText path 0 1 (int (length (?f s)) - 1))" if "?f b = ?f s" for b
    using that assms(7) by (simp add: found count)
  with twice assms(1) show ?thesis
    by (simp add: applyEditsToNormalizedContent_def first_empty_def normalizeEdit_def old)
qed

theorem blank_old_text_duplicate_witness:
  "applyEditsToNormalizedContent (\<lambda>s. s) (js ''ab cd'') [\<lparr>e_old = js '' '', e_new = js ''_''\<rparr>] (js ''f'') =
     Inl (DuplicateText (js ''f'') 0 1 4)"
  using blank_old_text_duplicate [of "js '' ''" "\<lambda>s. s" "js ''ab cd''" "js ''_''" "js ''f''"]
  by (simp add: js_def normalizeForFuzzyMatch_def is_space_def trim_end_def ascii_unit_def)

end
