(* ===== verification/DiffView.thy ===== *)
theory DiffView
  imports DiffParts
begin

text \<open>
  The diff that the edit tool shows (\<open>generateDiffString\<close> of \<open>coding-agent/src/core/tools/edit-diff.ts\<close>):
  numbered rows for the changed lines, a few context rows around them and a mark where lines are
  left out; every row carries the line and the number it has in its file. The line diff itself is
  the package \<open>diff\<close>: its result \<open>parts\<close> is a parameter.
\<close>

section \<open>The rows\<close>

record diff_view =
  view_rows :: "jstr list"
  view_old :: nat
  view_new :: nat
  lastWasChange :: bool
  firstChangedLine :: "nat option"

definition number_row :: "nat \<Rightarrow> nat \<Rightarrow> nat \<Rightarrow> jstr \<Rightarrow> jstr" where
  "number_row mark width n line = mark # pad_number width n @ [32] @ line"

definition skip_row :: "nat \<Rightarrow> jstr" where
  "skip_row width = 32 # replicate width 32 @ js '' ...''"

definition context_row :: "nat \<Rightarrow> jstr \<Rightarrow> diff_view \<Rightarrow> diff_view" where
  "context_row width line v =
     v\<lparr>view_rows := view_rows v @ [number_row 32 width (view_old v) line],
       view_old := view_old v + 1, view_new := view_new v + 1\<rparr>"

definition change_row :: "nat \<Rightarrow> bool \<Rightarrow> jstr \<Rightarrow> diff_view \<Rightarrow> diff_view" where
  "change_row width added line v =
     (if added
      then v\<lparr>view_rows := view_rows v @ [number_row 43 width (view_new v) line], view_new := view_new v + 1\<rparr>
      else v\<lparr>view_rows := view_rows v @ [number_row 45 width (view_old v) line], view_old := view_old v + 1\<rparr>)"

definition pass_lines :: "nat \<Rightarrow> diff_view \<Rightarrow> diff_view" where
  "pass_lines k v = v\<lparr>view_old := view_old v + k, view_new := view_new v + k\<rparr>"

definition skip_lines :: "nat \<Rightarrow> nat \<Rightarrow> diff_view \<Rightarrow> diff_view" where
  "skip_lines width k v = pass_lines k (v\<lparr>view_rows := view_rows v @ [skip_row width]\<rparr>)"

definition changed_part :: "nat \<Rightarrow> DiffPart \<Rightarrow> diff_view \<Rightarrow> diff_view" where
  "changed_part width part v =
     (fold (change_row width (part_added part)) (part_lines part)
        (if firstChangedLine v = None then v\<lparr>firstChangedLine := Some (view_new v)\<rparr> else v))\<lparr>lastWasChange := True\<rparr>"

definition context_part :: "nat \<Rightarrow> nat \<Rightarrow> DiffPart \<Rightarrow> bool \<Rightarrow> diff_view \<Rightarrow> diff_view" where
  "context_part width contextLines part nextPartIsChange v =
     (let raw = part_lines part; rows = fold (context_row width)
      in (if lastWasChange v \<and> nextPartIsChange then
            if length raw \<le> contextLines * 2 then rows raw v
            else rows (drop (length raw - contextLines) raw)
                   (skip_lines width (length raw - contextLines - contextLines) (rows (take contextLines raw) v))
          else if lastWasChange v then
            (let shown = rows (take contextLines raw) v
             in if length raw > contextLines then skip_lines width (length raw - contextLines) shown else shown)
          else if nextPartIsChange then
            rows (drop (length raw - contextLines) raw)
              (if length raw > contextLines then skip_lines width (length raw - contextLines) v else v)
          else pass_lines (length raw) v)\<lparr>lastWasChange := False\<rparr>)"

definition is_change :: "DiffPart \<Rightarrow> bool" where
  "is_change part \<longleftrightarrow> part_added part \<or> part_removed part"

fun view_parts :: "nat \<Rightarrow> nat \<Rightarrow> DiffPart list \<Rightarrow> diff_view \<Rightarrow> diff_view" where
  "view_parts width contextLines [] v = v"
| "view_parts width contextLines (part # rest) v =
     view_parts width contextLines rest
       (if is_change part then changed_part width part v
        else context_part width contextLines part (rest \<noteq> [] \<and> is_change (hd rest)) v)"

definition start_view :: diff_view where
  "start_view = \<lparr>view_rows = [], view_old = 1, view_new = 1, lastWasChange = False, firstChangedLine = None\<rparr>"

definition view_width :: "jstr \<Rightarrow> jstr \<Rightarrow> nat" where
  "view_width oldContent newContent =
     length (decimal (max (length (split_on LF oldContent)) (length (split_on LF newContent))))"

definition generateDiffString ::
  "(jstr \<Rightarrow> jstr \<Rightarrow> DiffPart list) \<Rightarrow> jstr \<Rightarrow> jstr \<Rightarrow> nat \<Rightarrow> jstr \<times> nat option" where
  "generateDiffString diffLines oldContent newContent contextLines =
     (let v = view_parts (view_width oldContent newContent) contextLines (diffLines oldContent newContent) start_view
      in (join [LF] (view_rows v), firstChangedLine v))"

section \<open>Rows tell the truth\<close>

text \<open>What \<open>diffLines\<close> is documented to return: the parts that are not additions make up the old
  text, those that are not removals the new one, each but the last of them ending with a line end;
  and no part is both.\<close>

definition cut_at_lines :: "jstr \<Rightarrow> DiffPart list \<Rightarrow> bool" where
  "cut_at_lines content parts \<longleftrightarrow> concat (map part_value parts) = content \<and>
     (\<forall>p \<in> set (butlast parts). part_value p \<noteq> [] \<and> last (part_value p) = LF)"

definition line_diff :: "jstr \<Rightarrow> jstr \<Rightarrow> DiffPart list \<Rightarrow> bool" where
  "line_diff old new parts \<longleftrightarrow> (\<forall>p \<in> set parts. \<not> (part_added p \<and> part_removed p)) \<and>
     cut_at_lines old (filter (\<lambda>p. \<not> part_added p) parts) \<and>
     cut_at_lines new (filter (\<lambda>p. \<not> part_removed p) parts)"

definition old_lines :: "DiffPart list \<Rightarrow> jstr list" where
  "old_lines parts = concat (map part_lines (filter (\<lambda>p. \<not> part_added p) parts))"

definition new_lines :: "DiffPart list \<Rightarrow> jstr list" where
  "new_lines parts = concat (map part_lines (filter (\<lambda>p. \<not> part_removed p) parts))"

definition line_at :: "jstr list \<Rightarrow> nat \<Rightarrow> jstr \<Rightarrow> bool" where
  "line_at ls n line \<longleftrightarrow> 1 \<le> n \<and> n \<le> length ls \<and> ls ! (n - 1) = line"

definition true_row :: "nat \<Rightarrow> jstr list \<Rightarrow> jstr list \<Rightarrow> jstr \<Rightarrow> bool" where
  "true_row width os ns row \<longleftrightarrow> row = skip_row width \<or>
     (\<exists>n line. line_at ns n line \<and> row = number_row 43 width n line) \<or>
     (\<exists>n line. line_at os n line \<and> row = number_row 45 width n line) \<or>
     (\<exists>n m line. line_at os n line \<and> line_at ns m line \<and> row = number_row 32 width n line)"

lemma split_on_line_end: "split_on LF (s @ LF # t) = split_on LF s @ split_on LF t"
  by (induction s) (auto split: list.splits)

lemma part_lines_end:
  assumes "part_value p \<noteq> []" and "last (part_value p) = LF"
  shows "split_on LF (part_value p @ t) = part_lines p @ split_on LF t"
proof -
  obtain s where s: "part_value p = s @ [LF]" using assms by (metis append_butlast_last_id)
  then show ?thesis
    using split_on_line_end [of s t] split_on_line_end [of s "[]"] by (simp add: part_lines_def)
qed

lemma cut_lines: "cut_at_lines content parts \<Longrightarrow> \<exists>ls. split_on LF content = concat (map part_lines parts) @ ls"
proof (induction parts arbitrary: content)
  case (Cons p parts)
  show ?case
  proof (cases parts)
    case Nil
    have "split_on LF content = part_lines p @ (if last (split_on LF content) = [] then [[]] else [])"
      using Cons.prems Nil
      by (cases "split_on LF content" rule: rev_cases) (simp_all add: cut_at_lines_def part_lines_def Let_def)
    then show ?thesis unfolding Nil by auto
  next
    case (Cons q qs)
    then have "cut_at_lines (concat (map part_value parts)) parts" "part_value p \<noteq> []" "last (part_value p) = LF"
      using Cons.prems by (auto simp: cut_at_lines_def)
    with Cons.IH part_lines_end [of p "concat (map part_value parts)"] Cons.prems show ?thesis
      by (auto simp: cut_at_lines_def)
  qed
qed simp

text \<open>Between parts: the counters stand after the lines seen, and every row so far is true.\<close>

definition view_ok :: "nat \<Rightarrow> jstr list \<Rightarrow> jstr list \<Rightarrow> nat \<Rightarrow> nat \<Rightarrow> diff_view \<Rightarrow> bool" where
  "view_ok width os ns i j v \<longleftrightarrow> view_old v = i + 1 \<and> view_new v = j + 1 \<and> (\<forall>row \<in> set (view_rows v). true_row width os ns row)"

definition lines_at :: "jstr list \<Rightarrow> nat \<Rightarrow> jstr list \<Rightarrow> bool" where
  "lines_at ls i raw \<longleftrightarrow> take (length raw) (drop i ls) = raw"

lemma lines_at_Cons: "lines_at ls i (l # raw) \<longleftrightarrow> line_at ls (i + 1) l \<and> lines_at ls (Suc i) raw"
proof (cases "drop i ls")
  case Nil
  then show ?thesis by (auto simp: lines_at_def line_at_def)
next
  case (Cons x xs)
  then have i: "i < length ls" by (metis drop_eq_Nil2 list.distinct(1) not_le)
  then have "drop (Suc i) ls = xs" "ls ! i = x"
    using Cons by (metis Cons_nth_drop_Suc list.inject) (metis Cons i Cons_nth_drop_Suc list.inject)
  then show ?thesis using Cons i by (auto simp: lines_at_def line_at_def)
qed

lemma lines_at_append: "lines_at ls i (xs @ ys) \<longleftrightarrow> lines_at ls i xs \<and> lines_at ls (i + length xs) ys"
  by (induction xs arbitrary: i) (auto simp: lines_at_Cons, simp_all add: lines_at_def)

lemma lines_at_take_drop:
  assumes "lines_at ls i raw"
  shows "lines_at ls i (take k raw)" and "lines_at ls (i + min k (length raw)) (drop k raw)"
  using assms lines_at_append [of ls i "take k raw" "drop k raw"] by (simp_all add: min.commute)

lemma view_context:
  "\<lbrakk>view_ok width os ns i j v; lines_at os i raw; lines_at ns j raw\<rbrakk> \<Longrightarrow>
   view_ok width os ns (i + length raw) (j + length raw) (fold (context_row width) raw v)"
proof (induction raw arbitrary: i j v)
  case (Cons l raw)
  have "view_ok width os ns (Suc i) (Suc j) (context_row width l v)"
    using Cons.prems
    by (auto simp: view_ok_def context_row_def lines_at_Cons true_row_def)
      (metis One_nat_def Suc_eq_plus1)+
  from Cons.IH [OF this] Cons.prems show ?case by (simp add: lines_at_Cons)
qed simp

lemma view_changed:
  "\<lbrakk>view_ok width os ns i j v; if added then lines_at ns j raw else lines_at os i raw\<rbrakk> \<Longrightarrow>
   view_ok width os ns (if added then i else i + length raw) (if added then j + length raw else j)
     (fold (change_row width added) raw v)"
proof (induction raw arbitrary: i j v)
  case (Cons l raw)
  let ?v = "change_row width added l v"
  have "view_ok width os ns (if added then i else Suc i) (if added then Suc j else j) ?v"
    using Cons.prems
    by (cases added) (auto simp: view_ok_def change_row_def lines_at_Cons true_row_def)
  moreover have "if added then lines_at ns (Suc j) raw else lines_at os (Suc i) raw"
    using Cons.prems(2) by (auto simp: lines_at_Cons split: if_splits)
  ultimately show ?case
    using Cons.IH [of "if added then i else Suc i" "if added then Suc j else j" ?v]
    by (cases added) simp_all
qed simp

lemma view_pass: "view_ok width os ns i j v \<Longrightarrow> view_ok width os ns (i + k) (j + k) (pass_lines k v)"
  by (simp add: view_ok_def pass_lines_def)

lemma view_skip: "view_ok width os ns i j v \<Longrightarrow> view_ok width os ns (i + k) (j + k) (skip_lines width k v)"
  by (auto simp: view_ok_def pass_lines_def skip_lines_def true_row_def)

lemma view_ok_flag [simp]: "view_ok width os ns i j (v\<lparr>lastWasChange := b\<rparr>) = view_ok width os ns i j v"
  "view_ok width os ns i j (v\<lparr>firstChangedLine := f\<rparr>) = view_ok width os ns i j v"
  by (simp_all add: view_ok_def)

lemma view_context_part:
  assumes ok: "view_ok width os ns i j v" and os: "lines_at os i (part_lines part)" and ns: "lines_at ns j (part_lines part)"
  shows "view_ok width os ns (i + length (part_lines part)) (j + length (part_lines part))
    (context_part width c part b v)"
proof -
  let ?raw = "part_lines part"
  note head = view_context [OF ok lines_at_take_drop(1) [OF os] lines_at_take_drop(1) [OF ns], of c]
  have tail: "view_ok width os ns (i + length ?raw) (j + length ?raw) (fold (context_row width) (drop k ?raw) w)"
    if "view_ok width os ns (i + min k (length ?raw)) (j + min k (length ?raw)) w" for k w
    using view_context [OF that lines_at_take_drop(2) [OF os] lines_at_take_drop(2) [OF ns]]
    by (simp add: min_def split: if_splits)
  note whole = view_context [OF ok os ns]
  consider "lastWasChange v" "b" "length ?raw \<le> c * 2" | "lastWasChange v" "b" "c * 2 < length ?raw"
    | "lastWasChange v" "\<not> b" "length ?raw \<le> c" | "lastWasChange v" "\<not> b" "c < length ?raw"
    | "\<not> lastWasChange v" "b" "length ?raw \<le> c" | "\<not> lastWasChange v" "b" "c < length ?raw"
    | "\<not> lastWasChange v" "\<not> b"
    by linarith
  then show ?thesis
  proof cases
    case 2
    have "view_ok width os ns (i + (length ?raw - c)) (j + (length ?raw - c))
        (skip_lines width (length ?raw - c - c) (fold (context_row width) (take c ?raw) v))"
      using view_skip [OF head, of "length ?raw - c - c"] 2 by (simp add: min_def)
    with 2 tail [of "length ?raw - c"] show ?thesis by (simp add: context_part_def Let_def)
  next
    case 4
    then show ?thesis using view_skip [OF head, of "length ?raw - c"] by (simp add: context_part_def Let_def min_def)
  next
    case 6
    then show ?thesis using tail [of "length ?raw - c"] view_skip [OF ok, of "length ?raw - c"]
      by (simp add: context_part_def Let_def)
  qed (use whole head view_pass [OF ok] in \<open>simp_all add: context_part_def Let_def\<close>)
qed

lemma view_changed_part:
  assumes "view_ok width os ns i j v" and "if part_added part then lines_at ns j (part_lines part) else lines_at os i (part_lines part)"
  shows "view_ok width os ns (if part_added part then i else i + length (part_lines part))
    (if part_added part then j + length (part_lines part) else j) (changed_part width part v)"
  using view_changed [of width os ns i j _ "part_added part" "part_lines part"] assms
  by (simp add: changed_part_def)

lemma view_parts_ok:
  assumes "view_ok width os ns i j v" and "lines_at os i (old_lines parts)" and "lines_at ns j (new_lines parts)"
    and "\<forall>p \<in> set parts. \<not> (part_added p \<and> part_removed p)"
  shows "view_ok width os ns (i + length (old_lines parts)) (j + length (new_lines parts)) (view_parts width c parts v)"
  using assms
proof (induction parts arbitrary: i j v)
  case Nil
  then show ?case by (simp add: old_lines_def new_lines_def)
next
  case (Cons p parts)
  have split: "old_lines (p # parts) = (if part_added p then [] else part_lines p) @ old_lines parts"
    "new_lines (p # parts) = (if part_removed p then [] else part_lines p) @ new_lines parts"
    by (simp_all add: old_lines_def new_lines_def)
  show ?case
  proof (cases "is_change p")
    case True
    then have one: "part_removed p = (\<not> part_added p)" using Cons.prems(4) by (auto simp: is_change_def)
    have "if part_added p then lines_at ns j (part_lines p) else lines_at os i (part_lines p)"
      using Cons.prems(2,3) one by (auto simp: split lines_at_append)
    note step = view_changed_part [OF Cons.prems(1) this]
    show ?thesis
      using Cons.IH [OF step] Cons.prems(2-4) one True
      by (cases "part_added p") (simp_all add: split lines_at_append add.assoc)
  next
    case False
    then have none: "\<not> part_added p" "\<not> part_removed p" by (auto simp: is_change_def)
    have "lines_at os i (part_lines p)" "lines_at ns j (part_lines p)"
      using Cons.prems(2,3) none by (auto simp: split lines_at_append)
    note step = view_context_part [OF Cons.prems(1) this]
    show ?thesis
      using Cons.IH [OF step] Cons.prems(2-4) none False
      by (simp add: split lines_at_append add.assoc)
  qed
qed

text \<open>The first change: everything before it is common to both files.\<close>

definition common_lines :: "DiffPart list \<Rightarrow> nat" where
  "common_lines parts = length (concat (map part_lines (takeWhile (\<lambda>p. \<not> is_change p) parts)))"

lemma fold_first [simp]:
  "firstChangedLine (fold (context_row width) raw v) = firstChangedLine v"
  "firstChangedLine (fold (change_row width b) raw v) = firstChangedLine v"
  by (induction raw arbitrary: v) (simp_all add: context_row_def change_row_def)

lemma fold_view_new [simp]: "view_new (fold (context_row width) raw v) = view_new v + length raw"
  by (induction raw arbitrary: v) (simp_all add: context_row_def)

lemma context_part_counts [simp]:
  "firstChangedLine (context_part width c part b v) = firstChangedLine v"
  "view_new (context_part width c part b v) = view_new v + length (part_lines part)"
  by (auto simp: context_part_def Let_def skip_lines_def pass_lines_def)

lemma first_change_kept:
  "firstChangedLine v = Some n \<Longrightarrow> firstChangedLine (view_parts width c parts v) = Some n"
  by (induction parts arbitrary: v) (simp_all add: changed_part_def)

lemma first_change:
  "firstChangedLine v = None \<Longrightarrow> firstChangedLine (view_parts width c parts v) =
     (if list_ex is_change parts then Some (view_new v + common_lines parts) else None)"
proof (induction parts arbitrary: v)
  case (Cons p parts)
  show ?case
  proof (cases "is_change p")
    case True
    then have "firstChangedLine (changed_part width p v) = Some (view_new v)"
      using Cons.prems by (simp add: changed_part_def)
    from first_change_kept [OF this] True show ?thesis by (simp add: common_lines_def)
  qed (use Cons in \<open>simp add: common_lines_def\<close>)
qed (simp add: common_lines_def)

text \<open>Every row of the diff of an edit carries the line that stands in its file under its number:
  an added row one of the new text, a removed row one of the old, a context row one of both; and the
  first changed line is the one after the lines that both texts begin with.\<close>

theorem diff_rows_true:
  assumes "line_diff old new (diffLines old new)"
  shows "\<exists>rows. fst (generateDiffString diffLines old new contextLines) = join [LF] rows \<and>
      (\<forall>row \<in> set rows. true_row (view_width old new) (split_on LF old) (split_on LF new) row) \<and>
    snd (generateDiffString diffLines old new contextLines) =
      (if list_ex is_change (diffLines old new) then Some (1 + common_lines (diffLines old new)) else None)"
proof -
  let ?parts = "diffLines old new" let ?w = "view_width old new"
  let ?v = "view_parts ?w contextLines ?parts start_view"
  have lines: "lines_at (split_on LF old) 0 (old_lines ?parts)" "lines_at (split_on LF new) 0 (new_lines ?parts)"
    using cut_lines assms by (fastforce simp: lines_at_def line_diff_def old_lines_def new_lines_def)+
  have "view_ok ?w (split_on LF old) (split_on LF new) 0 0 start_view"
    by (simp add: view_ok_def start_view_def)
  from view_parts_ok [OF this lines]
  have "view_ok ?w (split_on LF old) (split_on LF new) (length (old_lines ?parts)) (length (new_lines ?parts)) ?v"
    using assms by (simp add: line_diff_def)
  then show ?thesis
    using first_change [of start_view ?w contextLines ?parts]
    by (intro exI [of _ "view_rows ?v"]) (simp add: view_ok_def generateDiffString_def Let_def start_view_def)
qed

theorem diff_rows_true_witness:
  "\<exists>rows. js ''-1 a'' @ [LF] @ js ''+1 b'' = join [LF] rows \<and>
    (\<forall>row \<in> set rows. true_row 1 [js ''a''] [js ''b''] row)"
proof -
  let ?diff = "\<lambda>old new. [DiffPart old False True, DiffPart new True False]"
  have "line_diff (js ''a'') (js ''b'') (?diff (js ''a'') (js ''b''))"
    by (simp add: line_diff_def cut_at_lines_def)
  from diff_rows_true [where diffLines = ?diff, OF this, of 4] show ?thesis
    by (simp add: generateDiffString_def js_def view_width_def decimal.simps is_change_def changed_part_def
        part_lines_def change_row_def start_view_def number_row_def pad_number_def common_lines_def)
qed

end
