(* ===== verification/BufferText.thy ===== *)
theory BufferText
  imports Utf8
begin

text \<open>
  The \<open>Buffer\<close> operations the output tools call: \<open>Buffer.byteLength\<close>, \<open>Buffer.from\<close> and
  \<open>toString\<close> for UTF-8 (errors become U+FFFD, one for each maximal subpart), and the cut they share: the last
  bytes of a text from the next character boundary on.
\<close>

section \<open>Buffers\<close>

definition byteLength :: "jstr \<Rightarrow> nat" where
  "byteLength s = length (utf8_encode s)"

text \<open>The bytes that one U+FFFD stands for: the longest start of a well-formed sequence, or one byte.\<close>

definition second_ok :: "nat \<Rightarrow> nat \<Rightarrow> bool" where
  "second_ok a b \<longleftrightarrow>
     (if a = 0xE0 then 0xA0 \<le> b \<and> b < 0xC0
      else if a = 0xED then 0x80 \<le> b \<and> b < 0xA0
      else if a = 0xF0 then 0x90 \<le> b \<and> b < 0xC0
      else if a = 0xF4 then 0x80 \<le> b \<and> b < 0x90
      else continuation b)"

definition bad_length :: "nat list \<Rightarrow> nat" where
  "bad_length bs =
     (case bs of
        a # b # rest \<Rightarrow>
          if 0xE0 \<le> a \<and> a \<le> 0xF4 \<and> second_ok a b
          then (if 0xF0 \<le> a \<and> rest \<noteq> [] \<and> continuation (hd rest) then 3 else 2) else 1
      | _ \<Rightarrow> 1)"

function lossy_scalars :: "nat list \<Rightarrow> nat list" where
  "lossy_scalars bs =
     (if bs = [] then []
      else case utf8_next bs of
        None \<Rightarrow> 0xFFFD # lossy_scalars (drop (bad_length bs) bs)
      | Some (c, rest) \<Rightarrow> c # lossy_scalars rest)"
  by pat_completeness auto
termination
  by (relation "measure length")
    (auto dest: utf8_next_shorter simp: bad_length_def split: list.splits)

declare lossy_scalars.simps [simp del]

definition buffer_toString :: "byte list \<Rightarrow> jstr" where
  "buffer_toString bs = concat (map utf16_units (lossy_scalars (map unat bs)))"

definition is_continuation :: "byte \<Rightarrow> bool" where
  "is_continuation b \<longleftrightarrow> and b 0xC0 = 0x80"

text \<open>\<open>while (start < buf.length && (buf[start] & 0xc0) === 0x80) start++\<close>.\<close>

definition next_boundary :: "byte list \<Rightarrow> nat \<Rightarrow> nat" where
  "next_boundary buf start = start + length (takeWhile is_continuation (drop start buf))"

section \<open>Scalar vals and bytes\<close>

abbreviation units :: "jstr \<Rightarrow> bool" where
  "units s \<equiv> \<forall>u \<in> set s. u < 0x10000"

definition scalar_bytes :: "nat list \<Rightarrow> byte list" where
  "scalar_bytes cs = map word_of_nat (concat (map utf8_scalar cs))"

lemma scalar_bytes_simps [simp]:
  "scalar_bytes [] = []" "scalar_bytes (c # cs) = map word_of_nat (utf8_scalar c) @ scalar_bytes cs"
  "scalar_bytes (xs @ ys) = scalar_bytes xs @ scalar_bytes ys"
  by (simp_all add: scalar_bytes_def)

lemma utf8_encode_scalars: "utf8_encode s = scalar_bytes (scalars s)"
  by (simp add: utf8_encode_def scalar_bytes_def)

text \<open>The bytes of a scalar value: a first byte that is none, then continuation bytes.\<close>

lemma continuation_byte: "n < 256 \<Longrightarrow> is_continuation (word_of_nat n) \<longleftrightarrow> continuation n"
proof -
  have "list_all (\<lambda>n. is_continuation (word_of_nat n) = continuation n) [0..<256]" by code_simp
  then show "n < 256 \<Longrightarrow> ?thesis" by (simp add: list_all_iff)
qed

lemma scalar_digits:
  assumes "scalar_value c"
  shows "\<exists>b bs. utf8_scalar c = b # bs \<and> b < 256 \<and> \<not> continuation b \<and> (\<forall>x \<in> set bs. x < 256 \<and> continuation x) \<and> length bs \<le> 3"
proof -
  have "x mod 64 < 128" for x :: nat by (rule less_le_trans [of _ 64]) simp_all
  note m = this [of c] this [of "c div 64"] this [of "c div 4096"]
  consider "c < 0x80" | "0x80 \<le> c" "c < 0x800" | "0x800 \<le> c" "c < 0x10000" | "0x10000 \<le> c" "c \<le> 0x10FFFF"
    using assms unfolding scalar_value_def by linarith
  then show ?thesis
  proof cases
    case 2
    then have "c div 64 < 32" by linarith
    then show ?thesis using 2 m by (simp add: utf8_scalar_def continuation_def)
  next
    case 3
    then have "c div 4096 < 16" by linarith
    then show ?thesis using 3 m by (simp add: utf8_scalar_def continuation_def)
  next
    case 4
    then have "c div 262144 < 8" by linarith
    then show ?thesis using 4 m by (simp add: utf8_scalar_def continuation_def)
  qed (simp add: utf8_scalar_def continuation_def)
qed

lemma scalar_shape:
  assumes "scalar_value c"
  shows "\<exists>b bs. map word_of_nat (utf8_scalar c) = b # bs \<and> \<not> is_continuation b \<and> list_all is_continuation bs \<and> length bs \<le> 3"
  using scalar_digits [OF assms] continuation_byte by (fastforce simp: list_all_iff)

text \<open>From any position of the bytes of scalar vals, the next boundary lies before one of them,
  at most three bytes on.\<close>

lemma boundary_scalars:
  assumes "\<forall>c \<in> set cs. scalar_value c" and "k \<le> length (scalar_bytes cs)"
  shows "\<exists>xs ys. cs = xs @ ys \<and> next_boundary (scalar_bytes cs) k = length (scalar_bytes xs) \<and>
    k \<le> length (scalar_bytes xs) \<and> length (scalar_bytes xs) \<le> k + 3 \<and> (k = 0 \<longrightarrow> xs = [])"
  using assms
proof (induction cs arbitrary: k)
  case (Cons c cs)
  obtain b bs where c: "map word_of_nat (utf8_scalar c) = b # bs" "\<not> is_continuation b"
    "list_all is_continuation bs" "length bs \<le> 3"
    using scalar_shape Cons.prems(1) by (meson list.set_intros(1))
  show ?case
  proof (cases "k = 0")
    case True
    then show ?thesis using c(2) by - (rule exI [of _ "[]"], rule exI [of _ "c # cs"], simp add: next_boundary_def c(1))
  next
    case False
    then obtain j where k: "k = Suc j" by (cases k) auto
    have starts: "takeWhile is_continuation (scalar_bytes cs) = []"
    proof (cases cs)
      case (Cons d ds)
      then show ?thesis using scalar_shape [of d] Cons.prems(1) by auto
    qed simp
    show ?thesis
    proof (cases "length bs \<le> j")
      case True
      then obtain i where i: "j = length bs + i" using le_Suc_ex by blast
      then have "i \<le> length (scalar_bytes cs)" using Cons.prems(2) k by (simp add: c(1))
      then obtain xs ys where "cs = xs @ ys" and
        "next_boundary (scalar_bytes cs) i = length (scalar_bytes xs)"
        "i \<le> length (scalar_bytes xs)" "length (scalar_bytes xs) \<le> i + 3"
        using Cons.IH [of i] Cons.prems(1) by fastforce
      then show ?thesis using i k
        by - (rule exI [of _ "c # xs"], rule exI [of _ ys], simp add: next_boundary_def c(1))
    next
      case False
      then have "takeWhile is_continuation (drop j bs @ scalar_bytes cs) = drop j bs"
        using c(3) starts
        by (metis (full_types) append_Nil2 list_all_iff set_drop_subset subsetD takeWhile_append2)
      then show ?thesis using False k c(4)
        by - (rule exI [of _ "[c]"], rule exI [of _ cs], simp add: next_boundary_def c(1))
    qed
  qed
qed (simp add: next_boundary_def)

lemma unat_scalar_bytes:
  assumes "\<forall>c \<in> set cs. scalar_value c"
  shows "map unat (scalar_bytes cs) = concat (map utf8_scalar cs)"
  unfolding scalar_bytes_def map_map
  using assms utf8_scalar_bytes by (intro map_idI) (fastforce simp: scalar_value_def)

lemma lossy_concat:
  "\<forall>c \<in> set cs. scalar_value c \<Longrightarrow> lossy_scalars (concat (map utf8_scalar cs)) = cs"
proof (induction cs)
  case (Cons c cs)
  have "utf8_scalar c \<noteq> []" by (simp add: utf8_scalar_def)
  with Cons show ?case
    by (subst lossy_scalars.simps) (simp add: utf8_next_scalar)
qed (simp add: lossy_scalars.simps)

lemma buffer_scalars:
  "\<forall>c \<in> set cs. scalar_value c \<Longrightarrow> buffer_toString (scalar_bytes cs) = concat (map utf16_units cs)"
  by (simp add: buffer_toString_def unat_scalar_bytes lossy_concat)

section \<open>Well-formed texts\<close>

text \<open>A text whose code units pair up: the texts of scalar vals.\<close>

definition proper :: "jstr \<Rightarrow> bool" where
  "proper s \<longleftrightarrow> units s \<and> well_formed s"

lemma proper_scalars: "proper s \<Longrightarrow> concat (map utf16_units (scalars s)) = s \<and> (\<forall>c \<in> set (scalars s). scalar_value c)"
  using units_scalars scalars_values by (auto simp: proper_def)

lemma units_of_scalar: "scalar_value c \<Longrightarrow> units (utf16_units c)"
  by (auto simp: utf16_units_def scalar_value_def)

lemma scalars_of_units: "scalar_value c \<Longrightarrow> scalars (utf16_units c @ s) = c # scalars s"
proof (cases "c < 0x10000")
  case True
  then show "scalar_value c \<Longrightarrow> ?thesis" by (cases s) (auto simp: utf16_units_def scalar_value_def)
next
  case False
  assume c: "scalar_value c"
  let ?d = "c - 0x10000"
  have "?d div 0x400 < 0x400" using c unfolding scalar_value_def by linarith
  moreover have "0x10000 + ?d div 0x400 * 0x400 + ?d mod 0x400 = c"
    using False div_mult_mod_eq [of ?d 1024] by linarith
  ultimately show ?thesis using False by (simp add: utf16_units_def high_surrogate_def low_surrogate_def)
qed

lemma scalars_concat: "\<forall>c \<in> set cs. scalar_value c \<Longrightarrow> scalars (concat (map utf16_units cs)) = cs"
  by (induction cs) (simp_all add: scalars_of_units)

lemma proper_concat: "\<forall>c \<in> set cs. scalar_value c \<Longrightarrow> proper (concat (map utf16_units cs))"
  using units_scalars [of "concat (map utf16_units cs)"] units_of_scalar
  by (fastforce simp: proper_def scalars_concat)

lemma proper_append: "proper s \<Longrightarrow> scalars (s @ t) = scalars s @ scalars t"
proof -
  have "\<forall>c \<in> set cs. scalar_value c \<Longrightarrow> scalars (concat (map utf16_units cs) @ t) = cs @ scalars t" for cs
    by (induction cs) (simp_all add: scalars_of_units)
  then show "proper s \<Longrightarrow> ?thesis" using proper_scalars by metis
qed

lemma proper_appendI: "proper s \<Longrightarrow> proper t \<Longrightarrow> proper (s @ t)"
  using proper_concat [of "scalars s @ scalars t"] proper_scalars [of s] proper_scalars [of t] by auto

lemma byteLength_append: "proper s \<Longrightarrow> byteLength (s @ t) = byteLength s + byteLength t"
  by (simp add: byteLength_def utf8_encode_scalars proper_append)

lemma byteLength_Nil [simp]: "byteLength [] = 0"
  by (simp add: byteLength_def utf8_encode_def)

lemma byteLength_0: "byteLength s = 0 \<longleftrightarrow> s = []"
proof -
  have "scalar_bytes cs = [] \<longleftrightarrow> cs = []" for cs by (cases cs) (simp_all add: utf8_scalar_def)
  moreover have "scalars s = [] \<longleftrightarrow> s = []" by (cases s rule: scalars.cases) auto
  ultimately show ?thesis by (simp add: byteLength_def utf8_encode_scalars)
qed

text \<open>A line feed is one byte and pairs with nothing.\<close>

lemma scalars_LF: "scalars (s @ LF # t) = scalars s @ LF # scalars t"
proof (induction s rule: scalars.induct)
  case 1
  then show ?case by (cases t) (simp_all add: high_surrogate_def low_surrogate_def)
next
  case (2 u)
  then show ?case by (cases t) (simp_all add: high_surrogate_def low_surrogate_def)
qed auto

lemma byteLength_LF: "byteLength (s @ LF # t) = byteLength s + 1 + byteLength t"
  by (simp add: byteLength_def utf8_encode_scalars scalars_LF utf8_scalar_def)

section \<open>The tail of a text\<close>

text \<open>What \<open>truncateStringToBytesFromEnd\<close> and the tail window cut: the text in the bytes from the next
  boundary after all but the last \<open>n\<close> bytes.\<close>

lemma tail_cut:
  assumes "proper s" and "k \<le> byteLength s"
  defines "start \<equiv> next_boundary (utf8_encode s) k"
  shows "\<exists>p t. s = p @ t \<and> proper p \<and> proper t \<and> buffer_toString (drop start (utf8_encode s)) = t \<and>
    start = byteLength p \<and> k \<le> start \<and> start \<le> k + 3 \<and> (k = 0 \<longrightarrow> start = 0)"
proof -
  note sc = proper_scalars [OF assms(1)]
  have "k \<le> length (scalar_bytes (scalars s))" using assms(2) by (simp add: byteLength_def utf8_encode_scalars)
  note boundary_scalars [OF sc [THEN conjunct2] this, folded utf8_encode_scalars]
  then obtain xs ys where cut: "scalars s = xs @ ys" "start = length (scalar_bytes xs)" "k \<le> start" "start \<le> k + 3"
    "k = 0 \<longrightarrow> xs = []"
    by (elim exE conjE) (rule that, (simp only: start_def)+)
  let ?p = "concat (map utf16_units xs)" and ?t = "concat (map utf16_units ys)"
  have vals: "\<forall>c \<in> set xs. scalar_value c" "\<forall>c \<in> set ys. scalar_value c" using sc cut(1) by auto
  have "s = ?p @ ?t" using sc cut(1) by (metis concat_append map_append)
  moreover have "drop start (utf8_encode s) = scalar_bytes ys" by (simp add: utf8_encode_scalars cut(1,2))
  moreover have "start = byteLength ?p"
    by (simp add: byteLength_def utf8_encode_scalars scalars_concat vals cut(2))
  ultimately show ?thesis
    using cut(3-5) vals proper_concat buffer_scalars by (intro exI [of _ ?p] exI [of _ ?t]) auto
qed

lemma unat_numeral_byte: "unat (10 :: byte) = 10"
  by simp

lemma last_byte_LF:
  assumes "proper p" and "p \<noteq> []"
  shows "utf8_encode (p @ t) ! (byteLength p - 1) = 10 \<longleftrightarrow> last p = LF"
proof -
  let ?cs = "scalars p"
  note sc = proper_scalars [OF assms(1)]
  have "?cs \<noteq> []" using sc assms(2) by auto
  then obtain ds d where cs: "?cs = ds @ [d]" by (metis append_butlast_last_id)
  have d: "scalar_value d" using sc cs by simp
  have "utf8_encode (p @ t) ! (byteLength p - 1) = last (utf8_encode p)"
    using assms byteLength_0 [of p]
    by (simp add: byteLength_def utf8_encode_scalars proper_append nth_append last_conv_nth)
  also have "\<dots> = word_of_nat (last (utf8_scalar d))"
    by (simp add: utf8_encode_scalars cs last_map utf8_scalar_def)
  finally have byte: "utf8_encode (p @ t) ! (byteLength p - 1) = word_of_nat (last (utf8_scalar d))" .
  have "last (utf8_scalar d) < 256" using utf8_scalar_bytes [of d] d by (auto simp: utf8_scalar_def scalar_value_def)
  then have "unat (word_of_nat (last (utf8_scalar d)) :: byte) = last (utf8_scalar d)" by (simp only: unat_byte_of_nat mod_less)
  then have "word_of_nat (last (utf8_scalar d)) = (10 :: byte) \<longleftrightarrow> last (utf8_scalar d) = 10"
    unfolding word_unat_eq_iff by (simp only: unat_numeral_byte)
  also have "\<dots> \<longleftrightarrow> d = LF"
    using d by (simp add: utf8_scalar_def)
  also have "\<dots> \<longleftrightarrow> last p = LF"
  proof -
    have "concat (map utf16_units ds) @ utf16_units d = p" using sc [THEN conjunct1] unfolding cs by simp
    moreover have "utf16_units d \<noteq> []" "last (utf16_units d) = LF \<longleftrightarrow> d = LF"
      by (auto simp: utf16_units_def)
    ultimately show ?thesis by auto
  qed
  finally show ?thesis using byte by simp
qed

end
