(* ===== verification/Truncate.thy ===== *)
theory Truncate
  imports BufferText JsText
begin

text \<open>
  Truncation of tool output (\<open>coding-agent/src/core/tools/truncate.ts\<close>): the first or the last
  complete lines within a number of lines and of UTF-8 bytes, and the end of a last line that
  alone is too long. Sizes are natural numbers.
\<close>

section \<open>The code\<close>

datatype limit = by_lines | by_bytes

record TruncationResult =
  tr_content :: jstr
  truncated :: bool
  truncatedBy :: "limit option"
  totalLines :: nat
  totalBytes :: nat
  outputLines :: nat
  outputBytes :: nat
  lastLinePartial :: bool
  firstLineExceedsLimit :: bool
  maxLines :: nat
  maxBytes :: nat

definition DEFAULT_MAX_LINES :: nat where "DEFAULT_MAX_LINES = 2000"
definition DEFAULT_MAX_BYTES :: nat where "DEFAULT_MAX_BYTES = 50 * 1024"

definition splitLinesForCounting :: "jstr \<Rightarrow> jstr list" where
  "splitLinesForCounting content =
     (if content = [] then []
      else let ls = split_on LF content in if last content = LF then butlast ls else ls)"

definition untruncated :: "jstr \<Rightarrow> nat \<Rightarrow> nat \<Rightarrow> TruncationResult" where
  "untruncated content max_lines max_bytes =
     (let n = length (splitLinesForCounting content); b = byteLength content
      in \<lparr>tr_content = content, truncated = False, truncatedBy = None, totalLines = n, totalBytes = b,
        outputLines = n, outputBytes = b, lastLinePartial = False, firstLineExceedsLimit = False,
        maxLines = max_lines, maxBytes = max_bytes\<rparr>)"

fun collect_head :: "nat \<Rightarrow> nat \<Rightarrow> jstr list \<Rightarrow> nat \<Rightarrow> jstr list \<Rightarrow> jstr list \<times> nat \<times> limit" where
  "collect_head max_lines max_bytes out bytes [] = (out, bytes, by_lines)"
| "collect_head max_lines max_bytes out bytes (line # rest) =
     (if length out < max_lines then
        (let lineBytes = byteLength line + (if out \<noteq> [] then 1 else 0)
         in if bytes + lineBytes > max_bytes then (out, bytes, by_bytes)
            else collect_head max_lines max_bytes (out @ [line]) (bytes + lineBytes) rest)
      else (out, bytes, by_lines))"

definition truncateHead :: "jstr \<Rightarrow> nat \<Rightarrow> nat \<Rightarrow> TruncationResult" where
  "truncateHead content max_lines max_bytes =
     (let total_bytes = byteLength content; ls = splitLinesForCounting content; total_lines = length ls
      in if total_lines \<le> max_lines \<and> total_bytes \<le> max_bytes then untruncated content max_lines max_bytes
         else if byteLength (hd ls) > max_bytes
         then \<lparr>tr_content = [], truncated = True, truncatedBy = Some by_bytes, totalLines = total_lines,
             totalBytes = total_bytes, outputLines = 0, outputBytes = 0, lastLinePartial = False,
             firstLineExceedsLimit = True, maxLines = max_lines, maxBytes = max_bytes\<rparr>
         else (case collect_head max_lines max_bytes [] 0 ls of
             (out, bytes, stop) \<Rightarrow>
               \<lparr>tr_content = join [LF] out, truncated = True,
                truncatedBy = Some (if length out \<ge> max_lines \<and> bytes \<le> max_bytes then by_lines else stop),
                totalLines = total_lines, totalBytes = total_bytes, outputLines = length out,
                outputBytes = byteLength (join [LF] out), lastLinePartial = False,
                firstLineExceedsLimit = False, maxLines = max_lines, maxBytes = max_bytes\<rparr>))"

definition truncateStringToBytesFromEnd :: "jstr \<Rightarrow> nat \<Rightarrow> jstr" where
  "truncateStringToBytesFromEnd str max_bytes =
     (let buf = utf8_encode str
      in if length buf \<le> max_bytes then str
         else buffer_toString (drop (next_boundary buf (length buf - max_bytes)) buf))"

text \<open>The loop over the lines from the last one; the lines come in reverse order.\<close>

fun collect_tail :: "nat \<Rightarrow> nat \<Rightarrow> jstr list \<Rightarrow> nat \<Rightarrow> jstr list \<Rightarrow> jstr list \<times> nat \<times> limit \<times> bool" where
  "collect_tail max_lines max_bytes out bytes [] = (out, bytes, by_lines, False)"
| "collect_tail max_lines max_bytes out bytes (line # rest) =
     (if length out < max_lines then
        (let lineBytes = byteLength line + (if length out > 0 then 1 else 0)
         in if bytes + lineBytes > max_bytes
            then (if out = []
                  then (let cut = truncateStringToBytesFromEnd line max_bytes
                        in ([cut], byteLength cut, by_bytes, True))
                  else (out, bytes, by_bytes, False))
            else collect_tail max_lines max_bytes (line # out) (bytes + lineBytes) rest)
      else (out, bytes, by_lines, False))"

definition truncateTail :: "jstr \<Rightarrow> nat \<Rightarrow> nat \<Rightarrow> TruncationResult" where
  "truncateTail content max_lines max_bytes =
     (let total_bytes = byteLength content; ls = splitLinesForCounting content; total_lines = length ls
      in if total_lines \<le> max_lines \<and> total_bytes \<le> max_bytes then untruncated content max_lines max_bytes
         else (case collect_tail max_lines max_bytes [] 0 (rev ls) of
             (out, bytes, stop, partial) \<Rightarrow>
               \<lparr>tr_content = join [LF] out, truncated = True,
                truncatedBy = Some (if length out \<ge> max_lines \<and> bytes \<le> max_bytes then by_lines else stop),
                totalLines = total_lines, totalBytes = total_bytes, outputLines = length out,
                outputBytes = byteLength (join [LF] out), lastLinePartial = partial,
                firstLineExceedsLimit = False, maxLines = max_lines, maxBytes = max_bytes\<rparr>))"

definition truncateLine :: "jstr \<Rightarrow> nat \<Rightarrow> jstr \<times> bool" where
  "truncateLine line maxChars =
     (if length line \<le> maxChars then (line, False)
      else (take maxChars line @ js ''... [truncated]'', True))"

section \<open>Bytes of lines\<close>

lemma byteLength_join: "byteLength (join [LF] (l # ls)) = byteLength l + sum_list (map (\<lambda>x. byteLength x + 1) ls)"
  by (induction ls arbitrary: l) (simp_all add: byteLength_LF)

text \<open>What the first \<open>n\<close> lines take with the line feeds between them.\<close>

abbreviation joined_bytes :: "jstr list \<Rightarrow> nat" where
  "joined_bytes ls \<equiv> byteLength (join [LF] ls)"

lemma joined_snoc: "joined_bytes (ls @ [l]) = joined_bytes ls + (byteLength l + (if ls \<noteq> [] then 1 else 0))"
  by (cases ls) (simp_all add: byteLength_join)

lemma joined_Cons: "joined_bytes (l # ls) = joined_bytes ls + (byteLength l + (if ls \<noteq> [] then 1 else 0))"
  by (cases ls) (simp_all add: byteLength_LF)

lemma joined_take: "joined_bytes (take k ls) \<le> joined_bytes ls"
proof (induction ls arbitrary: k)
  case (Cons l ls)
  show ?case
  proof (cases k)
    case (Suc j)
    then show ?thesis using Cons [of j] by (simp add: joined_Cons)
  qed simp
qed simp

lemma lines_join:
  "join [LF] (splitLinesForCounting s) = (if s \<noteq> [] \<and> last s = LF then butlast s else s)"
proof (cases "s \<noteq> [] \<and> last s = LF")
  case True
  then obtain t where s: "s = t @ [LF]" by (metis append_butlast_last_id)
  have "split_on LF (t @ [LF]) = split_on LF t @ [[]]" by (induction t) (auto split: list.splits)
  then show ?thesis by (simp add: splitLinesForCounting_def s join_split)
qed (auto simp: splitLinesForCounting_def join_split)

lemma lines_Nil: "splitLinesForCounting s = [] \<longleftrightarrow> s = []"
proof (cases "s \<noteq> [] \<and> last s = LF")
  case True
  then obtain t where s: "s = t @ [LF]" by (metis append_butlast_last_id)
  have "split_on LF (t @ [LF]) = split_on LF t @ [[]]" by (induction t) (auto split: list.splits)
  then show ?thesis by (simp add: splitLinesForCounting_def s)
qed (auto simp: splitLinesForCounting_def)

section \<open>The head\<close>

text \<open>How many lines of a list fit: the count stops at the limits and before the first line that
  would pass them.\<close>

definition fits :: "nat \<Rightarrow> nat \<Rightarrow> jstr list \<Rightarrow> bool" where
  "fits max_lines max_bytes ls \<longleftrightarrow> length ls \<le> max_lines \<and> joined_bytes ls \<le> max_bytes"

lemma collect_head:
  assumes "collect_head max_lines max_bytes out bytes rest = (out', bytes', stop)"
    and "bytes = joined_bytes out" and "fits max_lines max_bytes out"
  shows "\<exists>n. out' = out @ take n rest \<and> bytes' = joined_bytes out' \<and> fits max_lines max_bytes out' \<and>
    (n < length rest \<longrightarrow> \<not> fits max_lines max_bytes (out @ take (Suc n) rest)) \<and>
    (stop = by_bytes \<longleftrightarrow> length out' < max_lines \<and> n < length rest) \<and> n \<le> length rest"
  using assms
proof (induction rest arbitrary: out bytes)
  case (Cons line rest)
  let ?b = "bytes + (byteLength line + (if out \<noteq> [] then 1 else 0))"
  have b: "?b = joined_bytes (out @ [line])" by (simp add: Cons.prems(2) joined_snoc)
  consider "\<not> length out < max_lines" | "length out < max_lines" "?b > max_bytes" | "length out < max_lines" "?b \<le> max_bytes"
    by linarith
  then show ?case
  proof cases
    case 3
    then have "fits max_lines max_bytes (out @ [line])" using b by (simp add: fits_def)
    moreover have "collect_head max_lines max_bytes (out @ [line]) ?b rest = (out', bytes', stop)"
      using 3 Cons.prems(1) by (simp add: Let_def)
    ultimately obtain n where "out' = (out @ [line]) @ take n rest" "bytes' = joined_bytes out'" "fits max_lines max_bytes out'"
      "n < length rest \<longrightarrow> \<not> fits max_lines max_bytes ((out @ [line]) @ take (Suc n) rest)"
      "stop = by_bytes \<longleftrightarrow> length out' < max_lines \<and> n < length rest" "n \<le> length rest"
      using Cons.IH [OF _ b] by blast
    then show ?thesis by (intro exI [of _ "Suc n"]) simp
  qed (use Cons.prems b in \<open>auto simp: fits_def Let_def intro!: exI [of _ 0]\<close>)
qed auto

lemma collect_head_start:
  "collect_head max_lines max_bytes [] 0 ls = (out, bytes, stop) \<Longrightarrow>
   \<exists>n. out = take n ls \<and> bytes = joined_bytes out \<and> fits max_lines max_bytes out \<and>
    (n < length ls \<longrightarrow> \<not> fits max_lines max_bytes (take (Suc n) ls)) \<and>
    (stop = by_bytes \<longleftrightarrow> length out < max_lines \<and> n < length ls) \<and> n \<le> length ls"
  using collect_head [of max_lines max_bytes "[]" 0 ls out bytes stop] by (simp add: fits_def)

text \<open>The head of a text is the text itself if it fits, nothing if its first line alone is too
  long, and otherwise the longest run of complete first lines that fits the limits.\<close>

theorem truncate_head_longest:
  fixes content max_lines max_bytes
  defines "r \<equiv> truncateHead content max_lines max_bytes" and "ls \<equiv> splitLinesForCounting content"
  shows "if length ls \<le> max_lines \<and> byteLength content \<le> max_bytes
    then r = untruncated content max_lines max_bytes
    else truncated r \<and> (\<exists>n. n \<le> length ls \<and> tr_content r = join [LF] (take n ls) \<and> outputLines r = n \<and>
      fits max_lines max_bytes (take n ls) \<and> (n < length ls \<longrightarrow> \<not> fits max_lines max_bytes (take (Suc n) ls)))"
proof (cases "length ls \<le> max_lines \<and> byteLength content \<le> max_bytes")
  case False
  then have "content \<noteq> []" by (auto simp: ls_def splitLinesForCounting_def)
  then obtain l rest where ls: "ls = l # rest" using lines_Nil [of content] by (cases ls) (auto simp: ls_def)
  have "truncated r \<and> (\<exists>n. n \<le> length ls \<and> tr_content r = join [LF] (take n ls) \<and> outputLines r = n \<and>
      fits max_lines max_bytes (take n ls) \<and> (n < length ls \<longrightarrow> \<not> fits max_lines max_bytes (take (Suc n) ls)))"
  proof (cases "byteLength l > max_bytes")
    case True
    then show ?thesis
      unfolding r_def truncateHead_def Let_def ls_def [symmetric] if_not_P [OF False]
      by (intro conjI exI [of _ 0]) (simp_all add: ls fits_def)
  next
    case short: False
    obtain out bytes stop where run: "collect_head max_lines max_bytes [] 0 ls = (out, bytes, stop)"
      by (cases "collect_head max_lines max_bytes [] 0 ls")
    have "r = \<lparr>tr_content = join [LF] out, truncated = True,
        truncatedBy = Some (if length out \<ge> max_lines \<and> bytes \<le> max_bytes then by_lines else stop),
        totalLines = length ls, totalBytes = byteLength content, outputLines = length out,
        outputBytes = byteLength (join [LF] out), lastLinePartial = False,
        firstLineExceedsLimit = False, maxLines = max_lines, maxBytes = max_bytes\<rparr>"
      using False short ls run by (auto simp: r_def truncateHead_def Let_def simp flip: ls_def)
    with collect_head_start [OF run] show ?thesis by auto
  qed
  with False show ?thesis by (simp only: if_False)
qed (simp add: r_def truncateHead_def Let_def flip: ls_def)

theorem truncate_head_longest_witness:
  "truncated (truncateHead (js ''a'' @ [LF] @ js ''b'') 1 9) \<and>
   (\<exists>n. n \<le> 2 \<and> tr_content (truncateHead (js ''a'' @ [LF] @ js ''b'') 1 9) = join [LF] (take n [js ''a'', js ''b'']))"
proof -
  let ?s = "js ''a'' @ [LF] @ js ''b''"
  have ls: "splitLinesForCounting ?s = [js ''a'', js ''b'']" by (simp add: js_def splitLinesForCounting_def)
  have over: "\<not> (length [js ''a'', js ''b''] \<le> 1 \<and> byteLength ?s \<le> 9)" by simp
  have r: "truncated (truncateHead ?s 1 9) \<and> (\<exists>n. n \<le> length [js ''a'', js ''b''] \<and>
      tr_content (truncateHead ?s 1 9) = join [LF] (take n [js ''a'', js ''b'']) \<and> outputLines (truncateHead ?s 1 9) = n \<and>
      fits 1 9 (take n [js ''a'', js ''b'']) \<and>
      (n < length [js ''a'', js ''b''] \<longrightarrow> \<not> fits 1 9 (take (Suc n) [js ''a'', js ''b''])))"
    using truncate_head_longest [of ?s 1 9] unfolding ls if_not_P [OF over] .
  have two: "length [js ''a'', js ''b''] = 2" by simp
  show ?thesis using r unfolding two by blast
qed

text \<open>A text that is over the byte limit by nothing but its final line feed comes back with all its
  lines, yet as truncated, and as truncated by the number of lines.\<close>

theorem final_newline_truncates:
  assumes "content = t @ [LF]" and "byteLength t = max_bytes" and "length (splitLinesForCounting content) \<le> max_lines"
  defines "r \<equiv> truncateHead content max_lines max_bytes"
  shows "truncated r \<and> truncatedBy r = Some by_lines \<and> outputLines r = totalLines r \<and> tr_content r = t"
proof -
  let ?ls = "splitLinesForCounting content"
  have j: "join [LF] ?ls = t" by (simp add: lines_join assms(1))
  then have all: "fits max_lines max_bytes ?ls" using assms(2,3) by (simp add: fits_def)
  have over: "byteLength content = max_bytes + 1" using assms(1,2) byteLength_LF [of t "[]"] by simp
  obtain l rest where ls: "?ls = l # rest" using lines_Nil [of content] assms(1) by (cases ?ls) auto
  then have "byteLength l \<le> byteLength t" using j byteLength_join [of l rest] by simp
  then have short: "byteLength (hd ?ls) \<le> max_bytes" using ls assms(2) by simp
  obtain out bytes stop where run: "collect_head max_lines max_bytes [] 0 ?ls = (out, bytes, stop)"
    by (cases "collect_head max_lines max_bytes [] 0 ?ls")
  then obtain n where n: "out = take n ?ls" "n \<le> length ?ls" "stop = by_bytes \<longleftrightarrow> length out < max_lines \<and> n < length ?ls"
    "n < length ?ls \<longrightarrow> \<not> fits max_lines max_bytes (take (Suc n) ?ls)"
    using collect_head_start [OF run] by blast
  have "n = length ?ls"
  proof (rule ccontr)
    assume "n \<noteq> length ?ls"
    then have "\<not> fits max_lines max_bytes (take (Suc n) ?ls)" using n by simp
    then show False using all joined_take [of "Suc n" ?ls] by (auto simp: fits_def intro: le_trans)
  qed
  then have "out = ?ls" "stop = by_lines" using n by (simp, cases stop, simp_all)
  with run over short j show ?thesis by (auto simp: r_def truncateHead_def Let_def not_le split: if_splits)
qed

theorem final_newline_truncates_witness:
  "truncated (truncateHead (js ''a'' @ [LF]) 9 1)"
  using final_newline_truncates [of "js ''a'' @ [LF]" "js ''a''" 1 9]
  by (simp add: js_def byteLength_def utf8_encode_def utf8_scalar_def high_surrogate_def low_surrogate_def splitLinesForCounting_def)

section \<open>The tail\<close>

lemma well_formed_LF: "well_formed (a @ LF # b) \<longleftrightarrow> well_formed a \<and> well_formed b"
proof (induction a rule: well_formed.induct)
  case 1
  then show ?case by (cases b) (simp_all add: high_surrogate_def low_surrogate_def)
next
  case (2 u)
  then show ?case by (cases b) (auto simp: high_surrogate_def low_surrogate_def)
qed auto

lemma proper_LF: "proper (a @ LF # b) \<longleftrightarrow> proper a \<and> proper b"
  by (auto simp: proper_def well_formed_LF)

lemma proper_join: "proper (join [LF] ls) \<longleftrightarrow> (\<forall>l \<in> set ls. proper l)"
  by (induction "[LF]" ls rule: join.induct) (simp_all add: proper_LF, simp add: proper_def)

lemma proper_lines: "proper s \<Longrightarrow> l \<in> set (splitLinesForCounting s) \<Longrightarrow> proper l"
  using proper_join [of "split_on LF s"]
  by (auto simp: splitLinesForCounting_def join_split Let_def dest: in_set_butlastD split: if_splits)

text \<open>The next boundary is the first one: none of the boundaries between characters lies before it.\<close>

lemma next_boundary_first:
  assumes "k \<le> m" and "m \<le> length buf" and "m < length buf \<Longrightarrow> \<not> is_continuation (buf ! m)"
  shows "next_boundary buf k \<le> m"
proof (rule ccontr)
  assume "\<not> next_boundary buf k \<le> m"
  then have long: "m - k < length (takeWhile is_continuation (drop k buf))"
    using assms(1) by (simp add: next_boundary_def)
  also have "\<dots> \<le> length (drop k buf)" by (rule length_takeWhile_le)
  finally have m: "m < length buf" using assms(1) by simp
  have "is_continuation (takeWhile is_continuation (drop k buf) ! (m - k))"
    using nth_mem [OF long] set_takeWhileD by metis
  then have "is_continuation (buf ! m)" using takeWhile_nth [OF long] m assms(1) by simp
  then show False using assms(3) m by simp
qed

lemma character_boundary:
  assumes "proper p" and "proper (p @ t)"
  shows "byteLength p < byteLength (p @ t) \<Longrightarrow> \<not> is_continuation (utf8_encode (p @ t) ! byteLength p)"
proof -
  assume "byteLength p < byteLength (p @ t)"
  then have t: "utf8_encode (p @ t) = utf8_encode p @ scalar_bytes (scalars t)" "scalars t \<noteq> []"
    using assms(1) by (auto simp: utf8_encode_scalars proper_append byteLength_def)
  then obtain c cs where c: "scalars t = c # cs" by (cases "scalars t") auto
  have "scalar_value c"
    using proper_scalars [OF assms(2)] by (simp add: proper_append [OF assms(1)] c)
  then show ?thesis using scalar_shape [of c] by (auto simp: t c byteLength_def nth_append)
qed

text \<open>The end of a line: the longest suffix that starts at a character and is within the limit; it is
  short of the limit by less than a character.\<close>

definition longest_end :: "nat \<Rightarrow> jstr \<Rightarrow> jstr \<Rightarrow> bool" where
  "longest_end n s t \<longleftrightarrow> (\<exists>p. s = p @ t \<and> proper p) \<and> proper t \<and> byteLength t \<le> n \<and> n \<le> byteLength t + 3 \<and>
     (\<forall>p' t'. s = p' @ t' \<and> proper p' \<and> byteLength t' \<le> n \<longrightarrow> byteLength t' \<le> byteLength t)"

lemma truncate_from_end:
  assumes "proper s" and "n < byteLength s"
  shows "longest_end n s (truncateStringToBytesFromEnd s n)"
proof -
  let ?k = "byteLength s - n"
  obtain p t where cut: "s = p @ t" "proper p" "proper t" "byteLength p = next_boundary (utf8_encode s) ?k"
    "buffer_toString (drop (next_boundary (utf8_encode s) ?k) (utf8_encode s)) = t"
    "?k \<le> byteLength p" "byteLength p \<le> ?k + 3"
    using tail_cut [OF assms(1), of ?k] by auto
  have t: "truncateStringToBytesFromEnd s n = t"
    using assms(2) cut(5) by (simp add: truncateStringToBytesFromEnd_def byteLength_def)
  have sum: "byteLength s = byteLength q + byteLength r" if "s = q @ r" "proper q" for q r
    using byteLength_append [OF that(2)] that(1) by simp
  have "byteLength p \<le> byteLength p'" if "s = p' @ t'" "proper p'" "byteLength t' \<le> n" for p' t'
    unfolding cut(4)
    using next_boundary_first [of ?k "byteLength p'" "utf8_encode s"] character_boundary [OF that(2)] assms(1) sum [OF that(1,2)] that
    by (auto simp: byteLength_def)
  with sum [OF cut(1,2)] sum have "byteLength t' \<le> byteLength t"
    if "s = p' @ t'" "proper p'" "byteLength t' \<le> n" for p' t'
    using that by (metis add_le_cancel_left add_mono_thms_linordered_semiring(3) nat_add_left_cancel_le order.trans)
  then show ?thesis using cut sum [OF cut(1,2)] assms(2) unfolding longest_end_def t by auto
qed

lemma collect_tail:
  assumes "collect_tail max_lines max_bytes out bytes rest = (out', bytes', stop, partial)"
    and "bytes = joined_bytes out" and "fits max_lines max_bytes out"
  shows "if partial then out = [] \<and> rest \<noteq> [] \<and> 0 < max_lines \<and> max_bytes < byteLength (hd rest) \<and>
      out' = [truncateStringToBytesFromEnd (hd rest) max_bytes]
    else \<exists>n. n \<le> length rest \<and> out' = rev (take n rest) @ out \<and> fits max_lines max_bytes out' \<and>
      (n < length rest \<longrightarrow> \<not> fits max_lines max_bytes (rev (take (Suc n) rest) @ out))"
  using assms
proof (induction rest arbitrary: out bytes)
  case (Cons line rest)
  let ?b = "bytes + (byteLength line + (if length out > 0 then 1 else 0))"
  have b: "?b = joined_bytes (line # out)" using Cons.prems(2) by (auto simp: joined_Cons)
  consider "\<not> length out < max_lines" | "length out < max_lines" "?b > max_bytes" "out = []"
    | "length out < max_lines" "?b > max_bytes" "out \<noteq> []" | "length out < max_lines" "?b \<le> max_bytes"
    by linarith
  then show ?case
  proof cases
    case 1
    then show ?thesis using Cons.prems by (auto simp: fits_def intro!: exI [of _ 0])
  next
    case 2
    then show ?thesis using Cons.prems by (auto simp: Let_def)
  next
    case 3
    then have "\<not> fits max_lines max_bytes (line # out)" using b by (simp add: fits_def)
    then show ?thesis using 3 Cons.prems by (auto simp: Let_def intro!: exI [of _ 0])
  next
    case 4
    then have "fits max_lines max_bytes (line # out)" using b by (simp add: fits_def)
    moreover have "collect_tail max_lines max_bytes (line # out) ?b rest = (out', bytes', stop, partial)"
      using 4 Cons.prems(1) by (simp add: Let_def)
    ultimately have ih: "if partial then line # out = [] \<and> rest \<noteq> [] \<and> 0 < max_lines \<and> max_bytes < byteLength (hd rest) \<and>
        out' = [truncateStringToBytesFromEnd (hd rest) max_bytes]
      else \<exists>n. n \<le> length rest \<and> out' = rev (take n rest) @ line # out \<and> fits max_lines max_bytes out' \<and>
        (n < length rest \<longrightarrow> \<not> fits max_lines max_bytes (rev (take (Suc n) rest) @ line # out))"
      using Cons.IH [OF _ b] by blast
    then obtain n where "\<not> partial" "n \<le> length rest" "out' = rev (take n rest) @ line # out"
      "fits max_lines max_bytes out'" "n < length rest \<longrightarrow> \<not> fits max_lines max_bytes (rev (take (Suc n) rest) @ line # out)"
      by (cases partial) auto
    then show ?thesis by (auto intro!: exI [of _ "Suc n"])
  qed
qed auto

text \<open>The line too long for the limit is always cut, and never left out.\<close>

lemma collect_tail_partial:
  assumes "collect_tail max_lines max_bytes [] 0 rest = (out, bytes, stop, partial)"
  shows "partial \<longleftrightarrow> 0 < max_lines \<and> rest \<noteq> [] \<and> max_bytes < byteLength (hd rest)"
proof (cases rest)
  case (Cons line rest')
  show ?thesis
  proof (cases "0 < max_lines \<and> max_bytes < byteLength line")
    case True
    then show ?thesis using assms Cons by (auto simp: Let_def)
  next
    case False
    then show ?thesis using collect_tail [OF assms] by (auto simp: Cons fits_def split: if_splits)
  qed
qed (use assms in auto)

text \<open>The tail of a text that is too long: the last line's end exactly if that line alone is too long (and
  any line is asked for), and otherwise the longest run of complete last lines that fits.\<close>

definition longest_tail :: "nat \<Rightarrow> nat \<Rightarrow> jstr list \<Rightarrow> TruncationResult \<Rightarrow> bool" where
  "longest_tail max_lines max_bytes ls r \<longleftrightarrow> truncated r \<and>
     (lastLinePartial r \<longleftrightarrow> 0 < max_lines \<and> ls \<noteq> [] \<and> max_bytes < byteLength (last ls)) \<and>
     (if lastLinePartial r then outputLines r = 1 \<and> longest_end max_bytes (last ls) (tr_content r)
      else \<exists>n. n \<le> length ls \<and> tr_content r = join [LF] (drop n ls) \<and> outputLines r = length ls - n \<and>
        fits max_lines max_bytes (drop n ls) \<and> (0 < n \<longrightarrow> \<not> fits max_lines max_bytes (drop (n - 1) ls)))"

lemma rev_take_rev: "rev (take n (rev xs)) = drop (length xs - n) xs"
  by (simp add: take_rev)

lemma truncate_tail:
  fixes content max_lines max_bytes
  defines "r \<equiv> truncateTail content max_lines max_bytes" and "ls \<equiv> splitLinesForCounting content"
  assumes "proper content"
  shows "if length ls \<le> max_lines \<and> byteLength content \<le> max_bytes
    then r = untruncated content max_lines max_bytes else longest_tail max_lines max_bytes ls r"
proof (cases "length ls \<le> max_lines \<and> byteLength content \<le> max_bytes")
  case False
  obtain out bytes stop partial where run: "collect_tail max_lines max_bytes [] 0 (rev ls) = (out, bytes, stop, partial)"
    by (cases "collect_tail max_lines max_bytes [] 0 (rev ls)")
  have r: "r = \<lparr>tr_content = join [LF] out, truncated = True,
      truncatedBy = Some (if length out \<ge> max_lines \<and> bytes \<le> max_bytes then by_lines else stop),
      totalLines = length ls, totalBytes = byteLength content, outputLines = length out,
      outputBytes = byteLength (join [LF] out), lastLinePartial = partial,
      firstLineExceedsLimit = False, maxLines = max_lines, maxBytes = max_bytes\<rparr>"
    unfolding r_def truncateTail_def Let_def ls_def [symmetric] if_not_P [OF False] run by simp
  have start: "0 = joined_bytes []" "fits max_lines max_bytes []" by (simp_all add: fits_def)
  have branch: "partial \<longleftrightarrow> 0 < max_lines \<and> ls \<noteq> [] \<and> max_bytes < byteLength (last ls)"
    using collect_tail_partial [OF run] by (auto simp: hd_rev)
  have "longest_tail max_lines max_bytes ls r"
  proof (cases partial)
    case True
    then have *: "ls \<noteq> []" "max_bytes < byteLength (last ls)" "out = [truncateStringToBytesFromEnd (last ls) max_bytes]"
      using collect_tail [OF run start] by (simp_all add: hd_rev)
    have "proper (last ls)" using *(1) proper_lines [OF assms(3)] by (simp add: ls_def)
    with truncate_from_end [of "last ls" max_bytes] * True branch show ?thesis by (simp add: longest_tail_def r)
  next
    case whole: False
    then obtain n where n: "n \<le> length ls" "out = rev (take n (rev ls))" "fits max_lines max_bytes out"
      "n < length ls \<longrightarrow> \<not> fits max_lines max_bytes (rev (take (Suc n) (rev ls)))"
      using collect_tail [OF run start] by auto
    let ?n = "length ls - n"
    have "fits max_lines max_bytes (drop ?n ls)" "0 < ?n \<longrightarrow> \<not> fits max_lines max_bytes (drop (?n - 1) ls)"
      using n by (simp_all add: rev_take_rev)
    moreover have "tr_content r = join [LF] (drop ?n ls)" "outputLines r = length ls - ?n"
      using n(1,2) by (simp_all add: r rev_take_rev)
    moreover have "truncated r" "lastLinePartial r \<longleftrightarrow> partial" by (simp_all add: r)
    ultimately show ?thesis using whole branch
      unfolding longest_tail_def by (auto intro!: exI [of _ ?n])
  qed
  with False show ?thesis by (simp only: if_False)
qed (simp add: r_def truncateTail_def Let_def flip: ls_def)

text \<open>C40: the tail of a text is the text itself if it fits. If it does not and its last line alone is too
  long, the tail is always that line's end: its longest suffix within the byte limit that starts at a
  character, less than four bytes under the limit. Otherwise it is the longest run of complete last lines that
  fits both limits. (With a line limit of zero, which no caller passes, nothing is shown.)\<close>

theorem truncate_tail_longest:
  assumes "proper content"
  shows "if length (splitLinesForCounting content) \<le> max_lines \<and> byteLength content \<le> max_bytes
    then truncateTail content max_lines max_bytes = untruncated content max_lines max_bytes
    else longest_tail max_lines max_bytes (splitLinesForCounting content) (truncateTail content max_lines max_bytes)"
  by (rule truncate_tail [OF assms])

theorem truncate_tail_longest_witness:
  "lastLinePartial (truncateTail (js ''ab'') 9 1) \<and> longest_end 1 (js ''ab'') (tr_content (truncateTail (js ''ab'') 9 1))"
proof -
  have p: "proper (js ''ab'')" by (simp add: js_def proper_def high_surrogate_def low_surrogate_def)
  have ls: "splitLinesForCounting (js ''ab'') = [js ''ab'']" by (simp add: js_def splitLinesForCounting_def)
  have b: "byteLength (js ''ab'') = 2" by (simp add: js_def byteLength_def utf8_encode_def utf8_scalar_def high_surrogate_def low_surrogate_def)
  have "longest_tail 9 1 [js ''ab''] (truncateTail (js ''ab'') 9 1)"
    using truncate_tail_longest [OF p, of 9 1] by (simp add: ls b)
  then show ?thesis by (simp add: longest_tail_def b split: if_splits)
qed

end
