(* ===== verification/OutputTail.thy ===== *)
theory OutputTail
  imports Truncate
begin

text \<open>
  The output of a command while it runs (\<open>coding-agent/src/core/tools/tail-window.ts\<close> and
  \<open>output-accumulator.ts\<close>): a window over the end of the text, the counts of the whole, and the raw
  data, which are kept in memory and go to a file once the output is too large. The streaming
  decoder and the name of the file are parameters; the file is what has been written to it, and stays when its
  stream is closed.
\<close>

section \<open>The window\<close>

record tail_window =
  window_max :: nat
  chunks :: "jstr list"
  window_bytes :: nat
  startsAtBoundary :: bool

definition MAX_PENDING_TAIL_CHUNKS :: nat where "MAX_PENDING_TAIL_CHUNKS = 10"

definition new_TailWindow :: "nat \<Rightarrow> tail_window" where
  "new_TailWindow m = \<lparr>window_max = m, chunks = [], window_bytes = 0, startsAtBoundary = True\<rparr>"

definition compact :: "tail_window \<Rightarrow> tail_window" where
  "compact w = w\<lparr>chunks := (if concat (chunks w) \<noteq> [] then [concat (chunks w)] else [])\<rparr>"

text \<open>\<open>joined\<close> compacts the chunks and returns their text.\<close>

definition joined_window :: "tail_window \<Rightarrow> tail_window" where
  "joined_window w = (if length (chunks w) > 1 then compact w else w)"

definition joined_text :: "tail_window \<Rightarrow> jstr" where
  "joined_text w = (case chunks (joined_window w) of [] \<Rightarrow> [] | c # _ \<Rightarrow> c)"

text \<open>The end of a buffer from the first boundary within the size of the window.\<close>

definition tail_start :: "nat \<Rightarrow> byte list \<Rightarrow> nat" where
  "tail_start m buffer = next_boundary buffer (length buffer - m)"

definition cut_window :: "byte list \<Rightarrow> bool \<Rightarrow> tail_window \<Rightarrow> tail_window" where
  "cut_window buffer boundary w =
     (let start = tail_start (window_max w) buffer; tail = buffer_toString (drop start buffer)
      in w\<lparr>chunks := (if tail \<noteq> [] then [tail] else []), window_bytes := byteLength tail,
        startsAtBoundary := (if start = 0 then boundary else buffer ! (start - 1) = 0x0A)\<rparr>)"

definition replaceWithTail :: "jstr \<Rightarrow> bool \<Rightarrow> tail_window \<Rightarrow> tail_window" where
  "replaceWithTail content startsAtLineBoundary w = cut_window (utf8_encode content) startsAtLineBoundary w"

definition trimToMax :: "tail_window \<Rightarrow> tail_window" where
  "trimToMax w =
     (if window_bytes w \<le> window_max w then w
      else cut_window (utf8_encode (joined_text w)) (startsAtBoundary w) (joined_window w))"

definition window_append :: "jstr \<Rightarrow> nat \<Rightarrow> bool \<Rightarrow> tail_window \<Rightarrow> tail_window" where
  "window_append content bytes startsAtLineBoundary w =
     (if bytes = 0 then w
      else if bytes \<ge> window_max w then replaceWithTail content startsAtLineBoundary w
      else
        (let pushed = w\<lparr>chunks := chunks w @ [content], window_bytes := window_bytes w + bytes\<rparr>;
             short = (if length (chunks pushed) > MAX_PENDING_TAIL_CHUNKS then compact pushed else pushed)
         in if window_bytes short > window_max w * 2 then trimToMax short else short))"

text \<open>\<open>text()\<close>: the window it leaves and the text.\<close>

definition window_text :: "tail_window \<Rightarrow> tail_window \<times> jstr" where
  "window_text w = (let t = trimToMax w in (joined_window t, joined_text t))"

section \<open>The accumulator\<close>

datatype raw_chunk = RawBytes "byte list" | RawText jstr

record 'd accumulator =
  out_maxLines :: nat
  out_maxBytes :: nat
  decoder :: 'd
  tail_of :: tail_window
  rawChunks :: "raw_chunk list"
  totalRawBytes :: nat
  totalDecodedBytes :: nat
  completedLines :: nat
  out_totalLines :: nat
  currentLineBytes :: nat
  hasOpenLine :: bool
  finished :: bool
  tempFilePath :: "jstr option"
  tempFileStream :: bool
  tempFile :: "raw_chunk list"

datatype output_error = AppendToFinished

definition new_OutputAccumulator :: "nat \<Rightarrow> nat \<Rightarrow> 'd \<Rightarrow> 'd accumulator" where
  "new_OutputAccumulator max_lines max_bytes d =
     \<lparr>out_maxLines = max_lines, out_maxBytes = max_bytes, decoder = d,
      tail_of = new_TailWindow (max (max_bytes * 2) 1), rawChunks = [], totalRawBytes = 0,
      totalDecodedBytes = 0, completedLines = 0, out_totalLines = 0, currentLineBytes = 0,
      hasOpenLine = False, finished = False, tempFilePath = None, tempFileStream = False, tempFile = []\<rparr>"

definition appendDecodedText :: "jstr \<Rightarrow> nat \<Rightarrow> 'd accumulator \<Rightarrow> 'd accumulator" where
  "appendDecodedText content bytes a =
     (if content = [] then a
      else
        (let newlines = length (filter (\<lambda>c. c = LF) content); tail = last (split_on LF content);
             completed = (if newlines = 0 then completedLines a else completedLines a + newlines);
             open_line = (if newlines = 0 then True else tail \<noteq> [])
         in a\<lparr>totalDecodedBytes := totalDecodedBytes a + bytes,
           tail_of := window_append content bytes (\<not> hasOpenLine a) (tail_of a),
           currentLineBytes := (if newlines = 0 then currentLineBytes a + bytes else byteLength tail),
           completedLines := completed, hasOpenLine := open_line,
           out_totalLines := completed + (if open_line then 1 else 0)\<rparr>))"

definition shouldUseTempFile :: "'d accumulator \<Rightarrow> bool" where
  "shouldUseTempFile a \<longleftrightarrow> totalRawBytes a > out_maxBytes a \<or> totalDecodedBytes a > out_maxBytes a \<or>
     out_totalLines a > out_maxLines a"

definition ensureTempFile :: "jstr \<Rightarrow> 'd accumulator \<Rightarrow> 'd accumulator" where
  "ensureTempFile path a =
     (if tempFilePath a \<noteq> None then a
      else a\<lparr>tempFilePath := Some path, tempFileStream := True, tempFile := rawChunks a, rawChunks := []\<rparr>)"

definition store_raw :: "jstr \<Rightarrow> raw_chunk \<Rightarrow> bool \<Rightarrow> 'd accumulator \<Rightarrow> 'd accumulator" where
  "store_raw path data keep a =
     (if tempFileStream a \<or> shouldUseTempFile a
      then (let b = ensureTempFile path a in if tempFileStream b then b\<lparr>tempFile := tempFile b @ [data]\<rparr> else b)
      else if keep then a\<lparr>rawChunks := rawChunks a @ [data]\<rparr> else a)"

definition out_append ::
  "('d \<Rightarrow> byte list \<Rightarrow> jstr \<times> 'd) \<Rightarrow> jstr \<Rightarrow> byte list \<Rightarrow> 'd accumulator \<Rightarrow> output_error + 'd accumulator" where
  "out_append decode path data a =
     (if finished a then Inl AppendToFinished
      else (case decode (decoder a) data of (content, d) \<Rightarrow>
        Inr (store_raw path (RawBytes data) (data \<noteq> [])
          (appendDecodedText content (byteLength content)
            (a\<lparr>decoder := d, totalRawBytes := totalRawBytes a + length data\<rparr>)))))"

definition appendText :: "jstr \<Rightarrow> jstr \<Rightarrow> 'd accumulator \<Rightarrow> output_error + 'd accumulator" where
  "appendText path content a =
     (if finished a then Inl AppendToFinished
      else if content = [] then Inr a
      else (let bytes = byteLength content
        in Inr (store_raw path (RawText content) True
          (appendDecodedText content bytes (a\<lparr>totalRawBytes := totalRawBytes a + bytes\<rparr>)))))"

definition out_finish :: "('d \<Rightarrow> jstr) \<Rightarrow> jstr \<Rightarrow> 'd accumulator \<Rightarrow> 'd accumulator" where
  "out_finish flush path a =
     (if finished a then a
      else (let content = flush (decoder a); b = appendDecodedText content (byteLength content) (a\<lparr>finished := True\<rparr>)
        in if shouldUseTempFile b then ensureTempFile path b else b))"

definition getSnapshotText :: "'d accumulator \<Rightarrow> 'd accumulator \<times> jstr" where
  "getSnapshotText a =
     (case window_text (tail_of a) of (w, content) \<Rightarrow>
        (a\<lparr>tail_of := w\<rparr>,
         if startsAtBoundary w then content
         else (case index_from LF content of None \<Rightarrow> content | Some firstNewline \<Rightarrow> drop (firstNewline + 1) content)))"

record OutputSnapshot =
  snapshot_truncation :: TruncationResult
  fullOutputPath :: "jstr option"

definition snapshot :: "jstr \<Rightarrow> bool \<Rightarrow> 'd accumulator \<Rightarrow> 'd accumulator \<times> OutputSnapshot" where
  "snapshot path persistIfTruncated a =
     (case getSnapshotText a of (b, content) \<Rightarrow>
        (let t = truncateTail content (out_maxLines b) (out_maxBytes b);
             trunc = (out_totalLines b > out_maxLines b \<or> totalDecodedBytes b > out_maxBytes b);
             by = (if trunc
                   then (case truncatedBy t of Some l \<Rightarrow> Some l
                         | None \<Rightarrow> Some (if totalDecodedBytes b > out_maxBytes b then by_bytes else by_lines))
                   else None);
             r = t\<lparr>truncated := trunc, truncatedBy := by, totalLines := out_totalLines b,
                 totalBytes := totalDecodedBytes b, maxLines := out_maxLines b, maxBytes := out_maxBytes b\<rparr>;
             c = (if persistIfTruncated \<and> trunc then ensureTempFile path b else b)
         in (c, \<lparr>snapshot_truncation = r, fullOutputPath = tempFilePath c\<rparr>)))"

definition closeTempFile :: "'d accumulator \<Rightarrow> 'd accumulator" where
  "closeTempFile a = a\<lparr>tempFileStream := False\<rparr>"

definition getLastLineBytes :: "'d accumulator \<Rightarrow> nat" where
  "getLastLineBytes a = currentLineBytes a"

end
