(* ===== verification/OutputTailProps.thy ===== *)
theory OutputTailProps
  imports OutputTail
begin

text \<open>
  However the output of a command is cut into chunks, the snapshot counts the whole output and shows
  its tail, except for a last line that does not fit the window; and the raw data are all there, in
  memory or in the file.
\<close>

section \<open>Lines of a text in two parts\<close>

lemma split_on_parts_append: "split_on LF (s @ LF # t) = split_on LF s @ split_on LF t"
  by (induction s) (auto split: list.splits)

lemma lines_append:
  assumes "t \<noteq> []"
  shows "splitLinesForCounting ((s @ [LF]) @ t) = splitLinesForCounting (s @ [LF]) @ splitLinesForCounting t"
  using assms split_on_parts_append [of s t] split_on_parts_append [of s "[]"]
  by (simp add: splitLinesForCounting_def Let_def butlast_append)

lemma length_output_lines: "length (splitLinesForCounting s) =
    length (filter (\<lambda>c. c = LF) s) + (if s \<noteq> [] \<and> last s \<noteq> LF then 1 else 0)"
proof -
  have "length (split_on LF s) = length (filter (\<lambda>c. c = LF) s) + 1"
    by (induction s) (auto split: list.splits)
  then show ?thesis by (auto simp: splitLinesForCounting_def Let_def)
qed

lemma last_split_append:
  "last (split_on LF (s @ t)) = (if LF \<in> set t then last (split_on LF t) else last (split_on LF s) @ t)"
proof (cases "LF \<in> set t")
  case True
  then obtain u v where "t = u @ LF # v" by (meson split_list)
  then show ?thesis
    using split_on_parts_append [of "s @ u" v] split_on_parts_append [of u v] True by simp
next
  case no_lf: False
  show ?thesis
  proof (cases "LF \<in> set s")
    case True
    then obtain u v where "s = u @ LF # v" "LF \<notin> set v" by (meson split_list_last)
    then show ?thesis
      using split_on_parts_append [of u "v @ t"] split_on_parts_append [of u v] no_lf by (simp add: split_on_none)
  qed (use no_lf in \<open>simp add: split_on_none\<close>)
qed

lemma last_split_Nil: "last (split_on LF s) = [] \<longleftrightarrow> s = [] \<or> last s = LF"
proof (cases s rule: rev_cases)
  case (snoc t c)
  then show ?thesis using last_split_append [of t "[c]"] by (auto simp: split_on_none)
qed simp

section \<open>The window holds the end of the text\<close>

definition window_ok :: "nat \<Rightarrow> tail_window \<Rightarrow> jstr \<Rightarrow> bool" where
  "window_ok m w whole \<longleftrightarrow> window_max w = m \<and> window_bytes w = byteLength (concat (chunks w)) \<and>
     proper (concat (chunks w)) \<and>
     (\<exists>p. whole = p @ concat (chunks w) \<and> proper p \<and> (startsAtBoundary w \<longleftrightarrow> p = [] \<or> last p = LF) \<and>
        (p \<noteq> [] \<longrightarrow> m < byteLength whole \<and> m \<le> byteLength (concat (chunks w)) + 3))"

lemma proper_Nil [simp]: "proper []"
  by (simp add: proper_def)

lemma window_start: "window_ok m (new_TailWindow m) []"
  by (simp add: window_ok_def new_TailWindow_def)

lemma concat_joined [simp]: "concat (chunks (joined_window w)) = concat (chunks w)"
  by (simp add: joined_window_def compact_def)

lemma concat_compact [simp]: "concat (chunks (compact w)) = concat (chunks w)"
  by (simp add: compact_def)

lemma joined_text: "joined_text w = concat (chunks w)"
proof (cases "length (chunks w) > 1")
  case False
  then show ?thesis by (cases "chunks w") (auto simp: joined_text_def joined_window_def)
qed (simp add: joined_text_def joined_window_def compact_def)

lemma joined_fields [simp]:
  "window_max (joined_window w) = window_max w" "window_bytes (joined_window w) = window_bytes w"
  "startsAtBoundary (joined_window w) = startsAtBoundary w"
  "window_max (compact w) = window_max w" "window_bytes (compact w) = window_bytes w"
  "startsAtBoundary (compact w) = startsAtBoundary w"
  by (simp_all add: joined_window_def compact_def)

lemma window_ok_joined [simp]: "window_ok m (joined_window w) whole = window_ok m w whole"
  "window_ok m (compact w) whole = window_ok m w whole"
  by (simp_all add: window_ok_def)

lemma window_cut:
  assumes "proper q" and "proper s" and "q \<noteq> [] \<longrightarrow> m < byteLength (q @ s) \<and> m \<le> byteLength s + 3"
    and "boundary \<longleftrightarrow> q = [] \<or> last q = LF" and "window_max w = m"
  defines "v \<equiv> cut_window (utf8_encode s) boundary w"
  shows "window_ok m v (q @ s) \<and> byteLength (concat (chunks v)) \<le> m"
proof -
  let ?k = "byteLength s - m" let ?start = "next_boundary (utf8_encode s) ?k"
  obtain p t where cut: "s = p @ t" "proper p" "proper t" "buffer_toString (drop ?start (utf8_encode s)) = t"
    "?start = byteLength p" "?k \<le> ?start" "?start \<le> ?k + 3" "?k = 0 \<longrightarrow> ?start = 0"
    using tail_cut [OF assms(2), of ?k] by auto
  have v: "v = w\<lparr>chunks := (if t \<noteq> [] then [t] else []), window_bytes := byteLength t,
      startsAtBoundary := (if ?start = 0 then boundary else utf8_encode s ! (?start - 1) = 0x0A)\<rparr>"
    unfolding v_def cut_window_def tail_start_def assms(5) Let_def by (simp add: cut(4) flip: byteLength_def)
  have len: "byteLength s = byteLength p + byteLength t" unfolding cut(1) by (rule byteLength_append [OF cut(2)])
  have "startsAtBoundary v \<longleftrightarrow> q @ p = [] \<or> last (q @ p) = LF"
  proof (cases "p = []")
    case False
    then have "?start \<noteq> 0" using cut(5) byteLength_0 by simp
    then show ?thesis using last_byte_LF [OF cut(2) False, of t] False by (simp add: v cut(1) flip: cut(5))
  qed (use cut(5) assms(4) in \<open>simp add: v\<close>)
  moreover have "q @ p \<noteq> [] \<longrightarrow> m < byteLength (q @ s) \<and> m \<le> byteLength t + 3"
  proof (cases "p = []")
    case False
    then have "byteLength p \<noteq> 0" by (simp add: byteLength_0)
    then have "m < byteLength s" using cut(5,8) by linarith
    moreover from this have "m \<le> byteLength t + 3" using len cut(5,7) by linarith
    ultimately show ?thesis by (simp add: byteLength_append [OF assms(1)])
  qed (use assms(3) cut(1) in simp)
  moreover have "byteLength t \<le> m" using len cut(5,6) by linarith
  ultimately show ?thesis
    using cut(1-3) assms(1,5) unfolding window_ok_def
    by (auto simp: v intro!: exI [of _ "q @ p"] proper_appendI)
qed

lemma window_trim:
  assumes "window_ok m w whole"
  shows "window_ok m (trimToMax w) whole \<and> byteLength (concat (chunks (trimToMax w))) \<le> m"
proof (cases "window_bytes w \<le> window_max w")
  case True
  then show ?thesis using assms by (simp add: trimToMax_def window_ok_def)
next
  case False
  obtain p where "whole = p @ concat (chunks w)" "proper p" "proper (concat (chunks w))" "window_max w = m"
    "startsAtBoundary w \<longleftrightarrow> p = [] \<or> last p = LF"
    "p \<noteq> [] \<longrightarrow> m < byteLength whole \<and> m \<le> byteLength (concat (chunks w)) + 3"
    using assms by (auto simp: window_ok_def)
  with False show ?thesis
    using window_cut [of p "concat (chunks w)" m "startsAtBoundary w" "joined_window w"]
    by (simp add: trimToMax_def joined_text)
qed

lemma window_text:
  assumes "window_ok m w whole" and "window_text w = (v, content)"
  shows "window_ok m v whole \<and> content = concat (chunks v) \<and> byteLength content \<le> m"
  using window_trim [OF assms(1)] assms(2) by (auto simp: window_text_def Let_def joined_text)

lemma window_append:
  assumes ok: "window_ok m w whole" and "proper content" and "content \<noteq> []" and "proper whole"
    and line: "boundary \<longleftrightarrow> whole = [] \<or> last whole = LF"
  shows "window_ok m (window_append content (byteLength content) boundary w) (whole @ content)"
proof -
  have w: "window_max w = m" using ok by (simp add: window_ok_def)
  have b: "byteLength content \<noteq> 0" using assms(3) by (simp add: byteLength_0)
  show ?thesis
  proof (cases "byteLength content \<ge> m")
    case True
    have "whole \<noteq> [] \<longrightarrow> m < byteLength (whole @ content) \<and> m \<le> byteLength content + 3"
    proof
      assume "whole \<noteq> []"
      then have "0 < byteLength whole" using byteLength_0 [of whole] by simp
      then show "m < byteLength (whole @ content) \<and> m \<le> byteLength content + 3"
        using True by (simp add: byteLength_append [OF assms(4)])
    qed
    from window_cut [OF assms(4,2) this line w] True b w show ?thesis
      by (simp add: window_append_def replaceWithTail_def)
  next
    case False
    let ?p = "w\<lparr>chunks := chunks w @ [content], window_bytes := window_bytes w + byteLength content\<rparr>"
    obtain p where p: "whole = p @ concat (chunks w)" "proper p" "proper (concat (chunks w))"
      "window_bytes w = byteLength (concat (chunks w))"
      "startsAtBoundary w \<longleftrightarrow> p = [] \<or> last p = LF"
      "p \<noteq> [] \<longrightarrow> m < byteLength whole \<and> m \<le> byteLength (concat (chunks w)) + 3"
      using ok by (auto simp: window_ok_def)
    have "window_ok m ?p (whole @ content)"
      using p w assms(2) byteLength_append [OF assms(4), of content] byteLength_append [OF p(3), of content]
      unfolding window_ok_def by (auto intro!: exI [of _ p] proper_appendI)
    then show ?thesis
      using False b w window_trim [of m ?p "whole @ content"] window_trim [of m "compact ?p" "whole @ content"]
      by (simp add: window_append_def Let_def)
  qed
qed

section \<open>Whatever the chunks\<close>

text \<open>The states of an accumulator, with the text decoded and the bytes received so far. A decoder
  returns proper texts, and the stream of the file is closed once the output is finished, as the
  bash tool does.\<close>

fun raw_bytes :: "raw_chunk \<Rightarrow> byte list" where
  "raw_bytes (RawBytes bs) = bs"
| "raw_bytes (RawText s) = utf8_encode s"

inductive accumulated ::
  "('d \<Rightarrow> byte list \<Rightarrow> jstr \<times> 'd) \<Rightarrow> ('d \<Rightarrow> jstr) \<Rightarrow> nat \<Rightarrow> nat \<Rightarrow> 'd accumulator \<Rightarrow> jstr \<Rightarrow> byte list \<Rightarrow> bool"
  for decode flush max_lines max_bytes where
  started: "accumulated decode flush max_lines max_bytes (new_OutputAccumulator max_lines max_bytes d) [] []"
| appended: "\<lbrakk>accumulated decode flush max_lines max_bytes a whole raw; proper (fst (decode (decoder a) data));
    out_append decode path data a = Inr b\<rbrakk> \<Longrightarrow>
    accumulated decode flush max_lines max_bytes b (whole @ fst (decode (decoder a) data)) (raw @ data)"
| text_appended: "\<lbrakk>accumulated decode flush max_lines max_bytes a whole raw; proper content;
    appendText path content a = Inr b\<rbrakk> \<Longrightarrow>
    accumulated decode flush max_lines max_bytes b (whole @ content) (raw @ utf8_encode content)"
| ended: "\<lbrakk>accumulated decode flush max_lines max_bytes a whole raw; proper (flush (decoder a)); \<not> finished a\<rbrakk> \<Longrightarrow>
    accumulated decode flush max_lines max_bytes (out_finish flush path a) (whole @ flush (decoder a)) raw"
| shown: "accumulated decode flush max_lines max_bytes a whole raw \<Longrightarrow>
    accumulated decode flush max_lines max_bytes (fst (snapshot path persist a)) whole raw"
| closed: "\<lbrakk>accumulated decode flush max_lines max_bytes a whole raw; finished a\<rbrakk> \<Longrightarrow>
    accumulated decode flush max_lines max_bytes (closeTempFile a) whole raw"

inductive_cases accumulated_cases: "accumulated decode flush max_lines max_bytes a whole raw"

definition counts_ok :: "'d accumulator \<Rightarrow> jstr \<Rightarrow> bool" where
  "counts_ok a whole \<longleftrightarrow> proper whole \<and> totalDecodedBytes a = byteLength whole \<and>
     (hasOpenLine a \<longleftrightarrow> whole \<noteq> [] \<and> last whole \<noteq> LF) \<and>
     completedLines a = length (filter (\<lambda>c. c = LF) whole) \<and>
     out_totalLines a = length (splitLinesForCounting whole) \<and>
     currentLineBytes a = byteLength (last (split_on LF whole)) \<and>
     window_ok (max (out_maxBytes a * 2) 1) (tail_of a) whole"

text \<open>The raw data are in memory as long as there is no file, and in the file from then on.\<close>

definition stored :: "'d accumulator \<Rightarrow> byte list \<Rightarrow> bool" where
  "stored a raw \<longleftrightarrow>
     (if tempFilePath a = None then \<not> tempFileStream a \<and> concat (map raw_bytes (rawChunks a)) = raw
      else concat (map raw_bytes (tempFile a)) = raw \<and> (tempFileStream a \<or> finished a))"

lemma proper_last_line: "proper s \<Longrightarrow> proper (last (split_on LF s))"
  using proper_join [of "split_on LF s"] by (simp add: join_split)

lemma decoded_counts:
  assumes "counts_ok a whole" and "proper content"
  shows "counts_ok (appendDecodedText content (byteLength content) a) (whole @ content)"
proof (cases "content = []")
  case False
  let ?b = "appendDecodedText content (byteLength content) a"
  have p: "proper whole" using assms(1) by (simp add: counts_ok_def)
  have nl: "length (filter (\<lambda>c. c = LF) content) = 0 \<longleftrightarrow> LF \<notin> set content" by (auto simp: filter_empty_conv)
  have last: "last (split_on LF content) = [] \<longleftrightarrow> last content = LF" using False last_split_Nil [of content] by simp
  have "last content \<noteq> LF" if "LF \<notin> set content" using that False by (metis last_in_set)
  moreover have "window_ok (max (out_maxBytes a * 2) 1) (window_append content (byteLength content) (\<not> hasOpenLine a) (tail_of a))
      (whole @ content)"
    using assms False by (intro window_append) (auto simp: counts_ok_def)
  moreover have "byteLength (last (split_on LF whole) @ content) = byteLength (last (split_on LF whole)) + byteLength content"
    by (rule byteLength_append [OF proper_last_line [OF p]])
  ultimately show ?thesis
    using assms False nl last p
    by (cases "LF \<in> set content")
      (auto simp: counts_ok_def appendDecodedText_def Let_def length_output_lines last_split_append byteLength_append [OF p]
        proper_appendI)
qed (use assms in \<open>simp add: appendDecodedText_def\<close>)

lemma counts_ok_cong:
  "\<lbrakk>totalDecodedBytes b = totalDecodedBytes a; hasOpenLine b = hasOpenLine a; completedLines b = completedLines a;
    out_totalLines b = out_totalLines a; currentLineBytes b = currentLineBytes a; tail_of b = tail_of a;
    out_maxBytes b = out_maxBytes a\<rbrakk> \<Longrightarrow> counts_ok b whole = counts_ok a whole"
  by (simp add: counts_ok_def)

lemma counts_ok_storing [simp]:
  "counts_ok (ensureTempFile path a) whole = counts_ok a whole"
  "counts_ok (store_raw path data keep a) whole = counts_ok a whole"
  by (rule counts_ok_cong; simp add: ensureTempFile_def store_raw_def Let_def)+

lemma stored_cong:
  "\<lbrakk>tempFilePath b = tempFilePath a; tempFileStream b = tempFileStream a; tempFile b = tempFile a;
    rawChunks b = rawChunks a; finished b = finished a\<rbrakk> \<Longrightarrow> stored b raw = stored a raw"
  by (simp add: stored_def)

lemma counts_ok_updates [simp]:
  "counts_ok (a\<lparr>totalRawBytes := n\<rparr>) whole = counts_ok a whole" "counts_ok (a\<lparr>decoder := d\<rparr>) whole = counts_ok a whole"
  "counts_ok (a\<lparr>finished := f\<rparr>) whole = counts_ok a whole" "counts_ok (a\<lparr>tempFileStream := f\<rparr>) whole = counts_ok a whole"
  by (rule counts_ok_cong; simp)+

lemma stored_updates [simp]:
  "stored (a\<lparr>totalRawBytes := n\<rparr>) raw = stored a raw" "stored (a\<lparr>decoder := d\<rparr>) raw = stored a raw"
  "stored (a\<lparr>tail_of := w\<rparr>) raw = stored a raw"
  by (rule stored_cong; simp)+

lemma stored_decoded [simp]: "stored (appendDecodedText content bytes a) raw = stored a raw"
  by (rule stored_cong) (simp_all add: appendDecodedText_def Let_def)

lemma stored_ensure: "stored a raw \<Longrightarrow> stored (ensureTempFile path a) raw"
  by (auto simp: stored_def ensureTempFile_def)

lemma stored_raw:
  "\<lbrakk>stored a raw; \<not> finished a; keep \<or> raw_bytes data = []\<rbrakk> \<Longrightarrow> stored (store_raw path data keep a) (raw @ raw_bytes data)"
  by (auto simp: stored_def store_raw_def ensureTempFile_def Let_def)

lemma decoded_fields [simp]:
  "finished (appendDecodedText content bytes a) = finished a"
  "out_maxBytes (appendDecodedText content bytes a) = out_maxBytes a"
  "out_maxLines (appendDecodedText content bytes a) = out_maxLines a"
  by (simp_all add: appendDecodedText_def Let_def)

lemma storing_fields [simp]:
  "out_maxBytes (ensureTempFile path a) = out_maxBytes a" "out_maxLines (ensureTempFile path a) = out_maxLines a"
  "out_maxBytes (store_raw path data keep a) = out_maxBytes a" "out_maxLines (store_raw path data keep a) = out_maxLines a"
  by (simp_all add: ensureTempFile_def store_raw_def Let_def)

lemma snapshot_state:
  fixes path persist
  assumes "counts_ok a whole" and "stored a raw"
  defines "b \<equiv> fst (snapshot path persist a)"
  shows "counts_ok b whole \<and> stored b raw \<and> out_maxBytes b = out_maxBytes a \<and> out_maxLines b = out_maxLines a"
proof -
  obtain w content where w: "window_text (tail_of a) = (w, content)" by (cases "window_text (tail_of a)")
  have "window_ok (max (out_maxBytes a * 2) 1) w whole" using assms(1) window_text [OF _ w] by (auto simp: counts_ok_def)
  then have "counts_ok (a\<lparr>tail_of := w\<rparr>) whole" using assms(1) by (simp add: counts_ok_def)
  moreover have "stored (a\<lparr>tail_of := w\<rparr>) raw" using assms(2) by simp
  moreover have "b = a\<lparr>tail_of := w\<rparr> \<or> b = ensureTempFile path (a\<lparr>tail_of := w\<rparr>)"
    by (auto simp: b_def snapshot_def getSnapshotText_def w Let_def)
  ultimately show ?thesis using stored_ensure [of "a\<lparr>tail_of := w\<rparr>" raw path] by auto
qed

lemma accumulated_ok:
  "accumulated decode flush max_lines max_bytes a whole raw \<Longrightarrow>
   counts_ok a whole \<and> stored a raw \<and> out_maxBytes a = max_bytes \<and> out_maxLines a = max_lines"
proof (induction rule: accumulated.induct)
  case (started d)
  then show ?case
    by (simp add: counts_ok_def stored_def new_OutputAccumulator_def window_start splitLinesForCounting_def)
next
  case (appended a whole raw data path b)
  obtain content d where dec: "decode (decoder a) data = (content, d)" by (cases "decode (decoder a) data")
  let ?a = "a\<lparr>decoder := d, totalRawBytes := totalRawBytes a + length data\<rparr>"
  have b: "b = store_raw path (RawBytes data) (data \<noteq> []) (appendDecodedText content (byteLength content) ?a)" "\<not> finished a"
    using appended.hyps(3) dec by (auto simp: out_append_def split: if_splits)
  have "counts_ok ?a whole" "stored ?a raw" using appended.IH by simp_all
  moreover from this b(2) have "stored b (raw @ raw_bytes (RawBytes data))"
    unfolding b(1) by (intro stored_raw) auto
  ultimately show ?case using b appended.hyps(2) appended.IH by (simp add: dec decoded_counts)
next
  case (text_appended a whole raw content path b)
  let ?a = "a\<lparr>totalRawBytes := totalRawBytes a + byteLength content\<rparr>"
  have fin: "\<not> finished a" and b: "b = (if content = [] then a
      else store_raw path (RawText content) True (appendDecodedText content (byteLength content) ?a))"
    using text_appended.hyps(3) by (auto simp: appendText_def Let_def split: if_splits)
  have "counts_ok ?a whole" "stored ?a raw" using text_appended.IH by simp_all
  moreover from this fin
  have "stored (store_raw path (RawText content) True (appendDecodedText content (byteLength content) ?a))
      (raw @ raw_bytes (RawText content))"
    by (intro stored_raw) auto
  ultimately show ?case using b text_appended.hyps(2) text_appended.IH by (simp add: decoded_counts utf8_encode_def)
next
  case (ended a whole raw path)
  let ?a = "a\<lparr>finished := True\<rparr>"
  let ?b = "appendDecodedText (flush (decoder a)) (byteLength (flush (decoder a))) ?a"
  have "counts_ok ?a whole" "stored ?a raw"
    using ended.IH by (simp, simp add: stored_def split: if_splits)
  then have "counts_ok ?b (whole @ flush (decoder a))" "stored ?b raw"
    using ended.hyps(2) by (simp_all add: decoded_counts)
  then show ?case using ended.hyps(3) ended.IH stored_ensure [of ?b raw path] by (auto simp: out_finish_def Let_def)
next
  case (shown a whole raw path persist)
  then show ?case using snapshot_state by blast
next
  case (closed a whole raw)
  then show ?case by (auto simp: closeTempFile_def stored_def)
qed

section \<open>The tail of the whole\<close>

text \<open>\<open>collect_tail\<close> on a longer text: it goes on only when it has taken all the lines of the end.\<close>

lemma collect_tail_append:
  assumes "collect_tail max_lines max_bytes out bytes rs = (out', bytes', stop, partial)"
  shows "if partial \<or> length out' < length out + length rs
    then collect_tail max_lines max_bytes out bytes (rs @ qs) = (out', bytes', stop, partial)
    else out' = rev rs @ out \<and> collect_tail max_lines max_bytes out bytes (rs @ qs) = collect_tail max_lines max_bytes out' bytes' qs"
  using assms
proof (induction rs arbitrary: out bytes)
  case (Cons line rs)
  let ?b = "bytes + (byteLength line + (if length out > 0 then 1 else 0))"
  consider "\<not> length out < max_lines" | "length out < max_lines" "?b > max_bytes" | "length out < max_lines" "?b \<le> max_bytes"
    by linarith
  then show ?case
  proof cases
    case 3
    then have "collect_tail max_lines max_bytes (line # out) ?b rs = (out', bytes', stop, partial)"
      using Cons.prems by (simp add: Let_def)
    from Cons.IH [OF this] 3 show ?thesis by (auto simp: Let_def)
  qed (use Cons.prems in \<open>auto simp: Let_def split: if_splits\<close>)
qed auto

lemma collect_tail_bytes:
  "\<lbrakk>collect_tail max_lines max_bytes out bytes rs = (out', bytes', stop, partial); bytes = joined_bytes out; \<not> partial\<rbrakk> \<Longrightarrow>
   bytes' = joined_bytes out'"
proof (induction rs arbitrary: out bytes)
  case (Cons line rs)
  let ?b = "bytes + (byteLength line + (if length out > 0 then 1 else 0))"
  have b: "?b = joined_bytes (line # out)" using Cons.prems(2) by (auto simp: joined_Cons)
  show ?case
  proof (cases "length out < max_lines \<and> ?b \<le> max_bytes")
    case True
    then have "collect_tail max_lines max_bytes (line # out) ?b rs = (out', bytes', stop, partial)"
      using Cons.prems(1) by (simp add: Let_def)
    from Cons.IH [OF this b Cons.prems(3)] show ?thesis .
  qed (use Cons.prems in \<open>auto simp: Let_def split: if_splits\<close>)
qed simp

definition tail_lines :: "nat \<Rightarrow> nat \<Rightarrow> jstr list \<Rightarrow> jstr list" where
  "tail_lines max_lines max_bytes ls = fst (collect_tail max_lines max_bytes [] 0 (rev ls))"

lemma truncateTail_lines:
  "\<not> (length (splitLinesForCounting s) \<le> max_lines \<and> byteLength s \<le> max_bytes) \<Longrightarrow>
   tr_content (truncateTail s max_lines max_bytes) = join [LF] (tail_lines max_lines max_bytes (splitLinesForCounting s))"
  by (auto simp: truncateTail_def tail_lines_def Let_def split: prod.splits)

lemma joined_drop: "joined_bytes (drop k ls) \<le> joined_bytes ls"
proof (induction ls arbitrary: k)
  case (Cons l ls)
  show ?case
  proof (cases k)
    case (Suc j)
    then show ?thesis using Cons [of j] by (simp add: joined_Cons)
  qed simp
qed simp

text \<open>Lines before the end do not matter when the end does not fit, or when it fits and no line more does.\<close>

lemma tail_lines_suffix:
  assumes "\<not> fits max_lines max_bytes ls"
  shows "tail_lines max_lines max_bytes (ks @ ls) = tail_lines max_lines max_bytes ls"
proof -
  obtain out bytes stop partial where run: "collect_tail max_lines max_bytes [] 0 (rev ls) = (out, bytes, stop, partial)"
    by (cases "collect_tail max_lines max_bytes [] 0 (rev ls)")
  have "partial \<or> length out < length (rev ls)"
  proof (rule ccontr)
    assume n: "\<not> ?thesis"
    then have "out = ls" using collect_tail_append [OF run, of "[]"] by simp
    moreover have "fits max_lines max_bytes out"
      using collect_tail [OF run] n by (auto simp: fits_def)
    ultimately show False using assms by simp
  qed
  then show ?thesis
    using collect_tail_append [OF run, of "rev ks"] run by (simp add: tail_lines_def)
qed

lemma tail_lines_exact:
  assumes "fits max_lines max_bytes ls" and "ls \<noteq> []" and "ks = [] \<or> \<not> fits max_lines max_bytes (last ks # ls)"
  shows "tail_lines max_lines max_bytes (ks @ ls) = ls"
proof -
  obtain out bytes stop partial where run: "collect_tail max_lines max_bytes [] 0 (rev ls) = (out, bytes, stop, partial)"
    by (cases "collect_tail max_lines max_bytes [] 0 (rev ls)")
  have start: "0 = joined_bytes []" "fits max_lines max_bytes []" by (simp_all add: fits_def)
  have last: "byteLength (last ls) \<le> max_bytes"
    using assms(1,2) joined_drop [of "length ls - 1" ls] by (cases ls rule: rev_cases) (simp_all add: fits_def)
  have p: "\<not> partial" using collect_tail [OF run start] last assms(2) by (auto simp: hd_rev)
  then obtain n where n: "n \<le> length ls" "out = rev (take n (rev ls))"
    "n < length ls \<longrightarrow> \<not> fits max_lines max_bytes (rev (take (Suc n) (rev ls)))"
    using collect_tail [OF run start] by auto
  have "fits max_lines max_bytes (drop k ls)" for k
    using assms(1) joined_drop [of k ls] by (auto simp: fits_def)
  then have out: "out = ls" using n by (auto simp: rev_take_rev)
  have bytes: "bytes = joined_bytes ls"
    using collect_tail_bytes [OF run start(1)] p out by simp
  have "fst (collect_tail max_lines max_bytes ls bytes (rev ks)) = ls"
  proof (cases ks rule: rev_cases)
    case (snoc ks' k)
    then have "\<not> fits max_lines max_bytes (k # ls)" using assms(3) by simp
    then show ?thesis using snoc bytes assms(1,2) by (auto simp: fits_def joined_Cons Let_def)
  qed simp
  then show ?thesis
    using collect_tail_append [OF run, of "rev ks"] p out by (simp add: tail_lines_def)
qed

lemma end_of_line_cut:
  assumes "proper x" and "n < byteLength c"
  shows "truncateStringToBytesFromEnd (x @ c) n = truncateStringToBytesFromEnd c n"
proof -
  have bytes: "utf8_encode (x @ c) = utf8_encode x @ utf8_encode c"
    by (simp add: utf8_encode_scalars proper_append [OF assms(1)])
  obtain k where k: "length (utf8_encode c) = n + k" "0 < k"
    using assms(2) less_imp_add_positive [of n "byteLength c"] unfolding byteLength_def by metis
  then have "length (utf8_encode x) + length (utf8_encode c) - n = length (utf8_encode x) + k" by simp
  then show ?thesis
    using k by (simp add: truncateStringToBytesFromEnd_def bytes next_boundary_def Let_def)
qed

lemma tail_lines_long:
  assumes "max_bytes < byteLength l"
  shows "tail_lines max_lines max_bytes (ks @ [l]) = (if 0 < max_lines then [truncateStringToBytesFromEnd l max_bytes] else [])"
  using assms by (simp add: tail_lines_def Let_def)

lemma bytes_of_lines: "byteLength s \<le> joined_bytes (splitLinesForCounting s) + 1"
proof (cases "s \<noteq> [] \<and> last s = LF")
  case True
  then obtain t where "s = t @ [LF]" by (metis append_butlast_last_id)
  then show ?thesis by (simp add: lines_join byteLength_LF)
qed (auto simp: lines_join)

lemma text_of_lines:
  "s \<noteq> [] \<Longrightarrow> join [LF] (splitLinesForCounting s) = s \<or> join [LF] (splitLinesForCounting s) @ [LF] = s"
  unfolding lines_join by (metis append_butlast_last_id)

lemma byteLength_lines: "joined_bytes (splitLinesForCounting s) \<le> byteLength s"
proof (cases "s \<noteq> [] \<and> last s = LF")
  case True
  then obtain t where "s = t @ [LF]" by (metis append_butlast_last_id)
  then show ?thesis by (simp add: lines_join byteLength_LF)
qed (auto simp: lines_join)

lemma lines_none: "c \<noteq> [] \<Longrightarrow> LF \<notin> set c \<Longrightarrow> splitLinesForCounting (q @ c) = butlast (split_on LF q) @ [last (split_on LF q) @ c]"
proof -
  assume c: "c \<noteq> []" "LF \<notin> set c"
  have "split_on LF (q @ c) = butlast (split_on LF q) @ [last (split_on LF q) @ c]"
  proof (cases "LF \<in> set q")
    case True
    then obtain u v where "q = u @ LF # v" "LF \<notin> set v" by (meson split_list_last)
    then show ?thesis using c split_on_parts_append [of u "v @ c"] split_on_parts_append [of u v]
      by (simp add: split_on_none butlast_append)
  qed (use c in \<open>simp add: split_on_none\<close>)
  moreover have "last (q @ c) \<noteq> LF" using c by (metis last_appendR last_in_set)
  ultimately show ?thesis using c by (simp add: splitLinesForCounting_def)
qed

lemma last_of_lines: "last (splitLinesForCounting (s @ [LF])) = last (split_on LF s)"
  using split_on_parts_append [of s "[]"] by (simp add: splitLinesForCounting_def butlast_append)

lemma tail_of_suffix:
  fixes max_lines
  assumes big: "3 < max_bytes" "max_bytes * 2 \<le> byteLength c + 3" and whole: "whole = q @ c" "q \<noteq> []" "proper q" "proper c"
    and flag: "boundary \<longleftrightarrow> last q = LF"
    and st: "st = (if boundary then c else case index_from LF c of None \<Rightarrow> c | Some i \<Rightarrow> drop (i + 1) c)"
  defines "T \<equiv> join [LF] (tail_lines max_lines max_bytes (splitLinesForCounting whole))"
    and "S \<equiv> tr_content (truncateTail st max_lines max_bytes)"
  shows "S = T \<or> S = T @ [LF] \<or> S = [] \<and> last whole = LF \<and> max_bytes * 2 \<le> byteLength (last (splitLinesForCounting whole)) + 4"
proof -
  have c: "c \<noteq> []" "max_bytes < byteLength c" using big by auto
  have long: "tr_content (truncateTail c max_lines max_bytes) = join [LF] (tail_lines max_lines max_bytes (splitLinesForCounting c))"
    using truncateTail_lines [of c max_lines max_bytes] c(2) by simp
  consider (at_line) "boundary" | (inside) "\<not> boundary" "LF \<notin> set c" | (after) "\<not> boundary" "LF \<in> set c" by blast
  then show ?thesis
  proof cases
    case at_line
    then obtain q' where q: "q = q' @ [LF]" using flag whole(2) by (metis append_butlast_last_id)
    have lines: "splitLinesForCounting whole = splitLinesForCounting q @ splitLinesForCounting c"
      unfolding whole(1) q by (rule lines_append [OF c(1)])
    have "tail_lines max_lines max_bytes (splitLinesForCounting q @ splitLinesForCounting c) =
        tail_lines max_lines max_bytes (splitLinesForCounting c)"
    proof (cases "fits max_lines max_bytes (splitLinesForCounting c)")
      case True
      have "\<not> fits max_lines max_bytes (k # splitLinesForCounting c)" for k
        using bytes_of_lines [of c] big c(1) by (auto simp: fits_def joined_Cons lines_Nil)
      with True c(1) show ?thesis
        using tail_lines_exact [of max_lines max_bytes "splitLinesForCounting c"]
          tail_lines_exact [of max_lines max_bytes "splitLinesForCounting c" "[]"] by (simp add: lines_Nil)
    qed (rule tail_lines_suffix)
    then show ?thesis using at_line long by (simp add: S_def T_def st lines)
  next
    case inside
    have "st = c" using inside index_from_None [of LF c] by (simp add: st)
    moreover have "truncateStringToBytesFromEnd (last (split_on LF q) @ c) max_bytes = truncateStringToBytesFromEnd c max_bytes"
      by (rule end_of_line_cut [OF proper_last_line [OF whole(3)] c(2)])
    moreover have "max_bytes < byteLength (last (split_on LF q) @ c)"
      using c(2) by (simp add: byteLength_append [OF proper_last_line [OF whole(3)]])
    ultimately show ?thesis
      using inside c tail_lines_long [of max_bytes c max_lines "[]"] lines_none [OF c(1) inside(2), of q] lines_none [OF c(1) inside(2), of "[]"]
      by (simp add: S_def T_def long whole(1) tail_lines_long)
  next
    case after
    then obtain i where i: "index_from LF c = Some i" using index_from_None [of LF c] by (cases "index_from LF c") auto
    define x where "x = take i c"
    have "c = take i c @ c ! i # drop (Suc i) c" using index_from_Some [OF i] by (intro id_take_nth_drop) simp
    moreover have "st = drop (Suc i) c" "c ! i = LF" using index_from_Some [OF i] after(1) i by (simp_all add: st)
    ultimately have cx: "c = x @ LF # st" by (simp only: x_def)
    let ?y = "last (split_on LF q)" and ?p = "q @ x @ [LF]"
    have noLF: "LF \<notin> set x" using index_from_Some [OF i] by (simp add: x_def)
    have y: "?y \<noteq> []" "proper ?y" using flag after(1) whole(2) last_split_Nil [of q] proper_last_line [OF whole(3)] by auto
    have last: "last (splitLinesForCounting ?p) = ?y @ x"
      using last_of_lines [of "q @ x"] last_split_append [of q x] noLF by simp
    have bytes: "byteLength c = byteLength x + 1 + byteLength st" unfolding cx by (rule byteLength_LF)
    have line: "byteLength (?y @ x) = byteLength ?y + byteLength x" by (rule byteLength_append [OF y(2)])
    have y1: "0 < byteLength ?y" using y(1) byteLength_0 [of ?y] by simp
    show ?thesis
    proof (cases "st = []")
      case True
      then have "S = []" "whole = ?p" by (simp_all add: S_def truncateTail_def splitLinesForCounting_def untruncated_def whole(1) cx)
      then show ?thesis using big bytes line y1 True last by simp
    next
      case False
      have lines: "splitLinesForCounting whole = splitLinesForCounting ?p @ splitLinesForCounting st"
        using lines_append [OF False, of "q @ x"] by (simp add: whole(1) cx)
      have join: "join [LF] (splitLinesForCounting st) = st \<or> join [LF] (splitLinesForCounting st) @ [LF] = st"
        by (rule text_of_lines [OF False])
      have "splitLinesForCounting ?p \<noteq> []" by (simp add: lines_Nil)
      have more: "\<not> fits max_lines max_bytes (last (splitLinesForCounting ?p) # splitLinesForCounting st)"
        if "max_bytes \<le> joined_bytes (splitLinesForCounting st) \<or> byteLength st \<le> max_bytes"
        using that bytes_of_lines [of st] big bytes line y1 False unfolding last
        by (auto simp: fits_def joined_Cons lines_Nil)
      show ?thesis
      proof (cases "fits max_lines max_bytes (splitLinesForCounting st)")
        case True
        have "byteLength st \<le> max_bytes \<or> max_bytes \<le> joined_bytes (splitLinesForCounting st)"
          using bytes_of_lines [of st] by linarith
        then have T: "T = join [LF] (splitLinesForCounting st)"
          using tail_lines_exact [OF True, of "splitLinesForCounting ?p"] more False unfolding T_def lines by (auto simp: lines_Nil)
        show ?thesis
        proof (cases "byteLength st \<le> max_bytes")
          case fit: True
          then have "S = st" using True by (simp add: S_def truncateTail_def untruncated_def fits_def Let_def)
          then show ?thesis using T join by auto
        next
          case over: False
          then have "S = T"
            using truncateTail_lines [of st max_lines max_bytes] tail_lines_exact [OF True, of "[]"] False
            by (simp add: S_def T lines_Nil)
          then show ?thesis by simp
        qed
      next
        case nofit: False
        have "\<not> (length (splitLinesForCounting st) \<le> max_lines \<and> byteLength st \<le> max_bytes)"
          using nofit byteLength_lines [of st] by (auto simp: fits_def)
        then show ?thesis
          using truncateTail_lines [of st max_lines max_bytes] tail_lines_suffix [OF nofit] by (simp add: S_def T_def lines)
      qed
    qed
  qed
qed

section \<open>Snapshots\<close>

lemma snapshot_view:
  assumes acc: "accumulated decode flush max_lines max_bytes a whole raw"
  obtains b q c st where "getSnapshotText a = (b, st)" "out_totalLines b = length (splitLinesForCounting whole)"
    "totalDecodedBytes b = byteLength whole" "out_maxLines b = max_lines" "out_maxBytes b = max_bytes"
    "whole = q @ c" "proper q" "proper c" "byteLength c \<le> max (max_bytes * 2) 1"
    "q \<noteq> [] \<longrightarrow> max (max_bytes * 2) 1 < byteLength whole \<and> max (max_bytes * 2) 1 \<le> byteLength c + 3"
    "st = (if q = [] \<or> last q = LF then c else case index_from LF c of None \<Rightarrow> c | Some i \<Rightarrow> drop (i + 1) c)"
proof -
  note ok = accumulated_ok [OF acc]
  obtain w c where w: "window_text (tail_of a) = (w, c)" by (cases "window_text (tail_of a)")
  have "window_ok (max (max_bytes * 2) 1) (tail_of a) whole" using ok by (auto simp: counts_ok_def)
  note v = window_text [OF this w]
  then have cc: "concat (chunks w) = c" and small: "byteLength c \<le> max (max_bytes * 2) 1" by (simp, blast)
  obtain q where q: "whole = q @ c" "proper q" "proper c" "startsAtBoundary w \<longleftrightarrow> q = [] \<or> last q = LF"
    "q \<noteq> [] \<longrightarrow> max (max_bytes * 2) 1 < byteLength whole \<and> max (max_bytes * 2) 1 \<le> byteLength c + 3"
    using v unfolding window_ok_def cc by blast
  let ?st = "if q = [] \<or> last q = LF then c else case index_from LF c of None \<Rightarrow> c | Some i \<Rightarrow> drop (i + 1) c"
  have view: "getSnapshotText a = (a\<lparr>tail_of := w\<rparr>, ?st)" by (simp add: getSnapshotText_def w q(4))
  have f: "out_totalLines (a\<lparr>tail_of := w\<rparr>) = length (splitLinesForCounting whole)"
    "totalDecodedBytes (a\<lparr>tail_of := w\<rparr>) = byteLength whole"
    "out_maxLines (a\<lparr>tail_of := w\<rparr>) = max_lines" "out_maxBytes (a\<lparr>tail_of := w\<rparr>) = max_bytes"
    using ok by (simp_all add: counts_ok_def)
  show thesis by (rule that [OF view f q(1-3) small q(5) refl])
qed

lemma snapshot_fields:
  fixes path persist
  assumes "getSnapshotText a = (b, st)"
  defines "r \<equiv> snapshot_truncation (snd (snapshot path persist a))"
  shows "tr_content r = tr_content (truncateTail st (out_maxLines b) (out_maxBytes b))"
    "truncated r \<longleftrightarrow> out_totalLines b > out_maxLines b \<or> totalDecodedBytes b > out_maxBytes b"
    "totalLines r = out_totalLines b" "totalBytes r = totalDecodedBytes b"
  by (simp_all add: r_def snapshot_def assms(1) Let_def)

text \<open>C38: whatever the chunks in which an output comes, a snapshot has the counts of the whole output and
  shows what \<open>truncateTail\<close> shows of the whole, perhaps with the final line feed behind it; the only exception is
  a finished last line as long as the window, of which it shows nothing. The byte limit is more than three bytes
  (it is 50 KB in the program), so that a character fits.\<close>

theorem snapshot_shows_tail:
  fixes path persist
  assumes "accumulated decode flush max_lines max_bytes a whole raw" and "3 < max_bytes"
  defines "r \<equiv> snapshot_truncation (snd (snapshot path persist a))" and "t \<equiv> truncateTail whole max_lines max_bytes"
  shows "truncated r = truncated t \<and> totalLines r = totalLines t \<and> totalBytes r = totalBytes t \<and>
    (tr_content r = tr_content t \<or> tr_content r = tr_content t @ [LF] \<or>
     tr_content r = [] \<and> last whole = LF \<and> max_bytes * 2 \<le> byteLength (last (splitLinesForCounting whole)) + 4)"
proof -
  obtain b q c st where v: "getSnapshotText a = (b, st)" "out_totalLines b = length (splitLinesForCounting whole)"
    "totalDecodedBytes b = byteLength whole" "out_maxLines b = max_lines" "out_maxBytes b = max_bytes"
    "whole = q @ c" "proper q" "proper c" "byteLength c \<le> max (max_bytes * 2) 1"
    "q \<noteq> [] \<longrightarrow> max (max_bytes * 2) 1 < byteLength whole \<and> max (max_bytes * 2) 1 \<le> byteLength c + 3"
    "st = (if q = [] \<or> last q = LF then c else case index_from LF c of None \<Rightarrow> c | Some i \<Rightarrow> drop (i + 1) c)"
    by (rule snapshot_view [OF assms(1)])
  note r = snapshot_fields [OF v(1), of path persist, folded r_def]
  have counts: "truncated r = truncated t \<and> totalLines r = totalLines t \<and> totalBytes r = totalBytes t"
    by (auto simp: r v(2-5) t_def truncateTail_def untruncated_def Let_def split: prod.splits)
  have "tr_content r = tr_content t \<or> tr_content r = tr_content t @ [LF] \<or>
     tr_content r = [] \<and> last whole = LF \<and> max_bytes * 2 \<le> byteLength (last (splitLinesForCounting whole)) + 4"
  proof (cases "q = []")
    case True
    then show ?thesis using v(6,11) by (simp add: r v(4,5) t_def)
  next
    case False
    have "st = (if last q = LF then c else case index_from LF c of None \<Rightarrow> c | Some i \<Rightarrow> drop (i + 1) c)"
      using v(11) False by simp
    moreover have "max_bytes * 2 \<le> byteLength c + 3" "max_bytes < byteLength whole" using v(10) False by auto
    moreover from this have "tr_content t = join [LF] (tail_lines max_lines max_bytes (splitLinesForCounting whole))"
      using truncateTail_lines [of whole max_lines max_bytes] by (simp add: t_def)
    ultimately show ?thesis
      using tail_of_suffix [OF assms(2) _ v(6) False v(7,8) refl, of st max_lines] by (simp add: r v(4,5))
  qed
  with counts show ?thesis by blast
qed

text \<open>An output whose last line is as long as the window and ended by a line feed is shown as nothing at
  all, and that line is reported as zero bytes long.\<close>

theorem long_last_line_lost:
  assumes "accumulated decode flush max_lines max_bytes a (before @ line @ [LF]) raw" and "3 < max_bytes"
    and "before = [] \<or> last before = LF" and "LF \<notin> set line" and "max_bytes * 2 \<le> byteLength line"
  shows "tr_content (snapshot_truncation (snd (snapshot path persist a))) = [] \<and>
    truncated (snapshot_truncation (snd (snapshot path persist a))) \<and> getLastLineBytes a = 0"
proof -
  let ?whole = "before @ line @ [LF]"
  obtain b q c st where v: "getSnapshotText a = (b, st)" "out_totalLines b = length (splitLinesForCounting ?whole)"
    "totalDecodedBytes b = byteLength ?whole" "out_maxLines b = max_lines" "out_maxBytes b = max_bytes"
    "?whole = q @ c" "proper q" "proper c" "byteLength c \<le> max (max_bytes * 2) 1"
    "q \<noteq> [] \<longrightarrow> max (max_bytes * 2) 1 < byteLength ?whole \<and> max (max_bytes * 2) 1 \<le> byteLength c + 3"
    "st = (if q = [] \<or> last q = LF then c else case index_from LF c of None \<Rightarrow> c | Some i \<Rightarrow> drop (i + 1) c)"
    by (rule snapshot_view [OF assms(1)])
  have line: "byteLength (z @ line @ [LF]) > max_bytes * 2" if z: "z = [] \<or> last z = LF" for z
  proof (cases "z = []")
    case True
    then show ?thesis using assms(5) byteLength_LF [of line "[]"] by simp
  next
    case False
    then obtain y where "z = y @ [LF]" using z by (metis append_butlast_last_id)
    then show ?thesis using assms(5) byteLength_LF [of y "line @ [LF]"] byteLength_LF [of line "[]"] by simp
  qed
  have small: "byteLength c \<le> max_bytes * 2" using v(9) assms(2) by simp
  obtain w where w: "line @ [LF] = w @ c" "q = before @ w"
  proof -
    consider z where "before = q @ z" "c = z @ line @ [LF]" | w where "q = before @ w" "line @ [LF] = w @ c"
      using v(6) append_eq_append_conv2 [of before "line @ [LF]" q c] by auto
    then show thesis
    proof cases
      case 1
      then have "z = [] \<or> last z = LF" using assms(3) by (cases "z = []") auto
      from line [OF this] small 1(2) show ?thesis by simp
    next
      case 2
      then show ?thesis using that by simp
    qed
  qed
  have "w \<noteq> []" using line [of "[]"] small w(1) by auto
  have "q \<noteq> []" using \<open>w \<noteq> []\<close> w(2) by simp
  then have "c \<noteq> []" using v(10) assms(2) by auto
  then obtain x where x: "c = x @ [LF]" "line = w @ x"
    using w(1) by (metis append_butlast_last_id append_assoc butlast_append last_appendR last_snoc butlast_snoc)
  have "last q \<noteq> LF" 
  proof -
    have "LF \<notin> set w" using assms(4) x(2) by simp
    then have "last w \<noteq> LF" using last_in_set [OF \<open>w \<noteq> []\<close>] by metis
    then show ?thesis using w(2) \<open>w \<noteq> []\<close> by simp
  qed
  then have "st = []" using \<open>q \<noteq> []\<close> v(11) assms(4) by (simp add: x index_from_split)
  moreover have "max_bytes < byteLength ?whole" using line [OF assms(3)] by simp
  moreover have "last (split_on LF ?whole) = []" using last_split_Nil [of ?whole] by simp
  ultimately show ?thesis
    using snapshot_fields [OF v(1), of path persist] accumulated_ok [OF assms(1)]
    by (simp add: v(3,5) truncateTail_def untruncated_def splitLinesForCounting_def getLastLineBytes_def counts_ok_def)
qed

text \<open>C39: no data are lost: all that was received is in memory, or in the file once there is one, in the
  order in which it came, and an output that is shown truncated has its file.\<close>

theorem output_kept:
  assumes "accumulated decode flush max_lines max_bytes a whole raw"
  shows "concat (map raw_bytes (if tempFilePath a = None then rawChunks a else tempFile a)) = raw \<and>
    (truncated (snapshot_truncation (snd (snapshot path True a))) \<longrightarrow> fullOutputPath (snd (snapshot path True a)) \<noteq> None)"
proof
  show "concat (map raw_bytes (if tempFilePath a = None then rawChunks a else tempFile a)) = raw"
    using accumulated_ok [OF assms] by (auto simp: stored_def)
  show "truncated (snapshot_truncation (snd (snapshot path True a))) \<longrightarrow> fullOutputPath (snd (snapshot path True a)) \<noteq> None"
    by (auto simp: snapshot_def ensureTempFile_def Let_def split: prod.splits)
qed

text \<open>Any proper text is an output.\<close>

lemma some_output:
  fixes decode :: "'d \<Rightarrow> byte list \<Rightarrow> jstr \<times> 'd"
  assumes "proper s"
  shows "\<exists>a. accumulated decode flush max_lines max_bytes a s (utf8_encode s)"
proof -
  let ?n = "new_OutputAccumulator max_lines max_bytes (undefined :: 'd)"
  have "\<exists>b. appendText [] s ?n = Inr b"
    by (auto simp: appendText_def Let_def new_OutputAccumulator_def)
  then obtain b where "appendText [] s ?n = Inr b" ..
  from text_appended [OF started assms this, of decode flush]
  have "accumulated decode flush max_lines max_bytes b s (utf8_encode s)" by simp
  then show ?thesis ..
qed

lemma ascii_proper: "list_all (\<lambda>u. u < 0x80) s \<Longrightarrow> proper s \<and> byteLength s = length s"
  unfolding proper_def byteLength_def utf8_encode_def
  by (induction s rule: scalars.induct) (auto simp: high_surrogate_def low_surrogate_def utf8_scalar_def)

theorem snapshot_shows_tail_witness:
  "\<exists>a whole raw. accumulated (\<lambda>d bs. ([], d)) (\<lambda>d. []) 1 9 (a :: unit accumulator) whole raw \<and>
    truncated (snapshot_truncation (snd (snapshot [] True a))) = truncated (truncateTail whole 1 9)"
proof -
  have "proper [97, LF, 98]" using ascii_proper [of "[97, LF, 98]"] by simp
  from some_output [OF this] obtain a :: "unit accumulator" where
    "accumulated (\<lambda>d bs. ([], d)) (\<lambda>d. []) 1 9 a [97, LF, 98] (utf8_encode [97, LF, 98])" by blast
  with snapshot_shows_tail [OF this, of "[]" True] show ?thesis by auto
qed

theorem long_last_line_lost_witness:
  "\<exists>a raw. accumulated (\<lambda>d bs. ([], d)) (\<lambda>d. []) 9 4 (a :: unit accumulator) (replicate 8 97 @ [LF]) raw \<and>
    tr_content (snapshot_truncation (snd (snapshot [] True a))) = []"
proof -
  have ascii: "proper (replicate 8 97 @ [LF])" "byteLength (replicate 8 97) = 8"
    using ascii_proper [of "replicate 8 97 @ [LF]"] ascii_proper [of "replicate 8 97"] by (simp_all add: list_all_iff)
  from some_output [OF ascii(1)] obtain a :: "unit accumulator" where
    a: "accumulated (\<lambda>d bs. ([], d)) (\<lambda>d. []) 9 4 a (replicate 8 97 @ [LF]) (utf8_encode (replicate 8 97 @ [LF]))" by blast
  then have "accumulated (\<lambda>d bs. ([], d)) (\<lambda>d. []) 9 4 a ([] @ replicate 8 97 @ [LF]) (utf8_encode (replicate 8 97 @ [LF]))"
    by simp
  from long_last_line_lost [OF this, of "[]" True] a ascii show ?thesis by auto
qed

theorem output_kept_witness:
  "\<exists>a. accumulated (\<lambda>d bs. ([], d)) (\<lambda>d. []) 1 9 (a :: unit accumulator) [97] (utf8_encode [97]) \<and>
    concat (map raw_bytes (if tempFilePath a = None then rawChunks a else tempFile a)) = utf8_encode [97]"
proof -
  have "proper [97]" using ascii_proper [of "[97]"] by simp
  from some_output [OF this] obtain a :: "unit accumulator" where
    "accumulated (\<lambda>d bs. ([], d)) (\<lambda>d. []) 1 9 a [97] (utf8_encode [97])" by blast
  with output_kept [OF this] show ?thesis by auto
qed

end
