(* ===== verification/PermService.thy ===== *)
theory PermService
  imports PermPaths
begin

text \<open>
  The permission service (\<open>service.ts\<close> of the permission system): a request is answered by the rules, or it
  waits in a table until a reply settles it. A promise is a request id with the result it was settled
  with; the events the service emits are a list. Metadata, which is only displayed, is left out.
\<close>

section \<open>State\<close>

record Request = PermissionRequest +
  req_id :: jstr
  sessionID :: jstr

datatype Reply = Once | Always | Reject

record ReplyInput =
  requestID :: jstr
  reply_of :: Reply
  message :: "jstr option"

datatype settled = Granted | Rejected | Corrected jstr | Denied "jstr list"

datatype perm_event =
    AskedEvent Request
  | RepliedEvent jstr jstr "Reply option"

text \<open>\<open>Map\<close> keeps the order of insertion; the decision \<open>"allow"\<close> of an event is \<open>None\<close>.\<close>

record service =
  pending :: "Request list"
  approved :: Ruleset
  staticRuleset :: Ruleset
  settlements :: "(jstr \<times> settled) list"
  events :: "perm_event list"

definition new_service :: "Ruleset \<Rightarrow> Ruleset \<Rightarrow> service" where
  "new_service static app =
     \<lparr>pending = [], approved = app, staticRuleset = static, settlements = [], events = []\<rparr>"

definition emit :: "perm_event \<Rightarrow> service \<Rightarrow> service" where
  "emit e s = s\<lparr>events := events s @ [e]\<rparr>"

definition settle :: "jstr \<Rightarrow> settled \<Rightarrow> service \<Rightarrow> service" where
  "settle i r s = s\<lparr>settlements := settlements s @ [(i, r)]\<rparr>"

text \<open>\<open>Map.set\<close> and \<open>Map.delete\<close>.\<close>

definition pending_set :: "Request \<Rightarrow> Request list \<Rightarrow> Request list" where
  "pending_set r rs =
     (if list_ex (\<lambda>q. req_id q = req_id r) rs then map (\<lambda>q. if req_id q = req_id r then r else q) rs else rs @ [r])"

definition pending_delete :: "jstr \<Rightarrow> service \<Rightarrow> service" where
  "pending_delete i s = s\<lparr>pending := filter (\<lambda>q. req_id q \<noteq> i) (pending s)\<rparr>"

section \<open>Operations\<close>

definition service_verdict :: "service \<Rightarrow> jstr \<Rightarrow> jstr \<Rightarrow> Action" where
  "service_verdict s perm pat = verdict perm pat [staticRuleset s, approved s]"

definition ask :: "Request \<Rightarrow> service \<Rightarrow> service" where
  "ask info s =
     (let verdicts = map (service_verdict s (permission info)) (patterns info);
          deniedPatterns = filter (\<lambda>pat. service_verdict s (permission info) pat = deny) (patterns info);
          needsAsk = list_ex (\<lambda>v. v = ask_user) verdicts
      in if deniedPatterns \<noteq> [] then settle (req_id info) (Denied deniedPatterns) s
         else if \<not> needsAsk
         then settle (req_id info) Granted (emit (RepliedEvent (req_id info) (sessionID info) None) s)
         else emit (AskedEvent info) (s\<lparr>pending := pending_set info (pending s)\<rparr>))"

definition is_covered :: "service \<Rightarrow> Request \<Rightarrow> bool" where
  "is_covered s q \<longleftrightarrow> list_all (\<lambda>pat. service_verdict s (permission q) pat = allow) (patterns q)"

text \<open>The loops go over a copy of the entries that were pending when they started.\<close>

definition reject_one :: "jstr \<Rightarrow> Request \<Rightarrow> service \<Rightarrow> service" where
  "reject_one session q s =
     (if sessionID q \<noteq> session then s
      else settle (req_id q) Rejected
             (emit (RepliedEvent (req_id q) (sessionID q) (Some Reject)) (pending_delete (req_id q) s)))"

definition rejectPendingInSession :: "jstr \<Rightarrow> service \<Rightarrow> service" where
  "rejectPendingInSession session s = fold (reject_one session) (pending s) s"

definition resolve_one :: "jstr \<Rightarrow> Request \<Rightarrow> service \<Rightarrow> service" where
  "resolve_one session q s =
     (if sessionID q \<noteq> session \<or> \<not> is_covered s q then s
      else settle (req_id q) Granted
             (emit (RepliedEvent (req_id q) (sessionID q) (Some Always)) (pending_delete (req_id q) s)))"

definition resolveCoveredPendingInSession :: "jstr \<Rightarrow> service \<Rightarrow> service" where
  "resolveCoveredPendingInSession session s = fold (resolve_one session) (pending s) s"

definition always_rules :: "Request \<Rightarrow> Ruleset" where
  "always_rules q = map (\<lambda>pat. rule (permission q) pat allow) (always q)"

definition reply :: "ReplyInput \<Rightarrow> service \<Rightarrow> service" where
  "reply input s =
     (case find (\<lambda>q. req_id q = requestID input) (pending s) of
        None \<Rightarrow> s
      | Some q \<Rightarrow>
          (let s = emit (RepliedEvent (req_id q) (sessionID q) (Some (reply_of input))) (pending_delete (requestID input) s)
           in if reply_of input = Reject
              then rejectPendingInSession (sessionID q)
                     (settle (req_id q)
                       (case message input of Some m \<Rightarrow> if m \<noteq> [] then Corrected m else Rejected | None \<Rightarrow> Rejected) s)
              else
                (let s = settle (req_id q) Granted s
                 in if reply_of input = Once then s
                    else resolveCoveredPendingInSession (sessionID q)
                           (s\<lparr>approved := approved s @ always_rules q\<rparr>))))"

section \<open>Runs\<close>

datatype service_op = Ask Request | ReplyTo ReplyInput

fun service_step :: "service_op \<Rightarrow> service \<Rightarrow> service" where
  "service_step (Ask r) s = ask r s"
| "service_step (ReplyTo i) s = reply i s"

definition service_run :: "service_op list \<Rightarrow> service \<Rightarrow> service" where
  "service_run ops s = fold service_step ops s"

fun asked :: "service_op list \<Rightarrow> Request list" where
  "asked [] = []"
| "asked (Ask r # ops) = r # asked ops"
| "asked (ReplyTo i # ops) = asked ops"

text \<open>What the user answered.\<close>

definition user_replied :: "service_op list \<Rightarrow> jstr \<Rightarrow> Reply \<Rightarrow> bool" where
  "user_replied ops i r \<longleftrightarrow> (\<exists>input. ReplyTo input \<in> set ops \<and> requestID input = i \<and> reply_of input = r)"

end
