(* ===== verification/PermServiceProps.thy ===== *)
theory PermServiceProps
  imports PermService "HOL-Library.Multiset"
begin

text \<open>
  What the permission service guarantees: every request is settled once or still waits, the approved
  rules grow only by requests that the user answered with always, and a request is granted exactly when
  the rules let it through, the user allowed it, or a rule of an always answer covers it.
\<close>

section \<open>One step\<close>

lemma emit_fields [simp]:
  "pending (emit e s) = pending s" "approved (emit e s) = approved s"
  "staticRuleset (emit e s) = staticRuleset s" "settlements (emit e s) = settlements s"
  by (simp_all add: emit_def)

lemma settle_fields [simp]:
  "pending (settle i r s) = pending s" "approved (settle i r s) = approved s"
  "staticRuleset (settle i r s) = staticRuleset s" "settlements (settle i r s) = settlements s @ [(i, r)]"
  by (simp_all add: settle_def)

lemma delete_fields [simp]:
  "pending (pending_delete i s) = filter (\<lambda>q. req_id q \<noteq> i) (pending s)" "approved (pending_delete i s) = approved s"
  "staticRuleset (pending_delete i s) = staticRuleset s" "settlements (pending_delete i s) = settlements s"
  by (simp_all add: pending_delete_def)

lemma service_verdict_cong:
  "approved s = approved t \<Longrightarrow> staticRuleset s = staticRuleset t \<Longrightarrow> service_verdict s = service_verdict t"
  by (simp add: service_verdict_def fun_eq_iff)

lemma is_covered_cong:
  "approved s = approved t \<Longrightarrow> staticRuleset s = staticRuleset t \<Longrightarrow> is_covered s = is_covered t"
  using service_verdict_cong [of s t] by (simp add: is_covered_def fun_eq_iff)

text \<open>Both loops settle the entries they pick and take them off the table.\<close>

definition settled_by :: "(Request \<Rightarrow> bool) \<Rightarrow> settled \<Rightarrow> Request list \<Rightarrow> service \<Rightarrow> service \<Rightarrow> bool" where
  "settled_by P r qs s t \<longleftrightarrow>
     settlements t = settlements s @ map (\<lambda>q. (req_id q, r)) (filter P qs) \<and>
     pending t = filter (\<lambda>q. req_id q \<notin> req_id ` set (filter P qs)) (pending s) \<and>
     approved t = approved s \<and> staticRuleset t = staticRuleset s"

lemma settled_by_Nil: "settled_by P r [] s s"
  by (simp add: settled_by_def)

lemma settled_by_Cons:
  assumes "settled_by P r qs s' t"
    and "if P q then s' = settle (req_id q) r (emit e (pending_delete (req_id q) s)) else s' = s"
  shows "settled_by P r (q # qs) s t"
  using assms by (auto simp: settled_by_def conj_commute intro!: filter_cong split: if_splits)

lemma reject_loop: "settled_by (\<lambda>q. sessionID q = session) Rejected qs s (fold (reject_one session) qs s)"
proof (induction qs arbitrary: s)
  case (Cons q qs)
  show ?case
    by (simp, rule settled_by_Cons [OF Cons.IH, where e = "RepliedEvent (req_id q) (sessionID q) (Some Reject)"])
      (simp add: reject_one_def)
qed (simp add: settled_by_Nil)

lemma resolve_loop:
  "settled_by (\<lambda>q. sessionID q = session \<and> is_covered s0 q) Granted qs s (fold (resolve_one session) qs s)"
  if "approved s = approved s0" "staticRuleset s = staticRuleset s0" for s
  using that
proof (induction qs arbitrary: s)
  case (Cons q qs)
  have "approved (resolve_one session q s) = approved s0" "staticRuleset (resolve_one session q s) = staticRuleset s0"
    using Cons.prems by (simp_all add: resolve_one_def)
  note rest = Cons.IH [OF this]
  have "is_covered s = is_covered s0" by (rule is_covered_cong [OF Cons.prems])
  then show ?case
    by (simp, intro settled_by_Cons [OF rest, where e = "RepliedEvent (req_id q) (sessionID q) (Some Always)"])
      (simp add: resolve_one_def)
qed (simp add: settled_by_Nil)

definition distinct_pending :: "service \<Rightarrow> bool" where
  "distinct_pending s \<longleftrightarrow> distinct (map req_id (pending s))"

text \<open>A step settles these requests, in this order; the rest of the table stays.\<close>

definition free :: "service \<Rightarrow> Request \<Rightarrow> bool" where
  "free s q \<longleftrightarrow> list_all (\<lambda>pat. service_verdict s (permission q) pat \<notin> {deny, ask_user}) (patterns q)"

definition denied_patterns :: "service \<Rightarrow> Request \<Rightarrow> jstr list" where
  "denied_patterns s q = filter (\<lambda>pat. service_verdict s (permission q) pat = deny) (patterns q)"

lemma ask_cases:
  obtains (denied) "denied_patterns s q \<noteq> []" "ask q s = settle (req_id q) (Denied (denied_patterns s q)) s"
  | (free) "free s q" "denied_patterns s q = []"
      "ask q s = settle (req_id q) Granted (emit (RepliedEvent (req_id q) (sessionID q) None) s)"
  | (waits) "\<not> free s q" "denied_patterns s q = []" "ask q s = emit (AskedEvent q) (s\<lparr>pending := pending_set q (pending s)\<rparr>)"
proof -
  have f: "free s q \<longleftrightarrow> denied_patterns s q = [] \<and> \<not> list_ex (\<lambda>v. v = ask_user) (map (service_verdict s (permission q)) (patterns q))"
    unfolding free_def denied_patterns_def list_all_iff list_ex_iff filter_empty_conv by (auto simp: image_iff)
  have "ask q s =
     (if denied_patterns s q \<noteq> [] then settle (req_id q) (Denied (denied_patterns s q)) s
      else if free s q then settle (req_id q) Granted (emit (RepliedEvent (req_id q) (sessionID q) None) s)
      else emit (AskedEvent q) (s\<lparr>pending := pending_set q (pending s)\<rparr>))"
    unfolding ask_def Let_def denied_patterns_def [symmetric] f by simp
  then show thesis using denied free waits f by metis
qed

lemma free_not_denied: "free s q \<Longrightarrow> denied_patterns s q = []"
  by (auto simp: free_def denied_patterns_def list_all_iff filter_empty_conv)

lemma filter_one: "distinct (map f xs) \<Longrightarrow> x \<in> set xs \<Longrightarrow> filter (\<lambda>y. f y = f x) xs = [x]"
  by (induction xs) (auto simp: filter_empty_conv image_iff)

lemma pending_set_new: "req_id q \<notin> req_id ` set qs \<Longrightarrow> pending_set q qs = qs @ [q]"
  by (auto simp: pending_set_def list_ex_iff image_iff)

text \<open>A request is granted by a step: by the rules when it is asked, by the user's answer, or because the
  rules of an always answer in its session cover it.\<close>

definition grants :: "service \<Rightarrow> service_op \<Rightarrow> Request \<Rightarrow> bool" where
  "grants s op q = (case op of
      Ask r \<Rightarrow> r = q \<and> free s q
    | ReplyTo input \<Rightarrow> q \<in> set (pending s) \<and>
        ((requestID input = req_id q \<and> reply_of input \<noteq> Reject) \<or>
         (reply_of input = Always \<and> requestID input \<noteq> req_id q \<and>
          (\<exists>p \<in> set (pending s). req_id p = requestID input \<and> sessionID p = sessionID q \<and>
             is_covered (s\<lparr>approved := approved s @ always_rules p\<rparr>) q))))"

definition reply_result :: "ReplyInput \<Rightarrow> settled" where
  "reply_result input =
     (if reply_of input \<noteq> Reject then Granted
      else case message input of Some m \<Rightarrow> if m \<noteq> [] then Corrected m else Rejected | None \<Rightarrow> Rejected)"

lemma reply_result_granted: "reply_result input = Granted \<longleftrightarrow> reply_of input \<noteq> Reject"
  by (simp add: reply_result_def split: option.splits)

lemma reply_cases:
  assumes "distinct_pending s" and "find (\<lambda>q. req_id q = requestID input) (pending s) = Some q"
  defines "rest \<equiv> filter (\<lambda>p. req_id p \<noteq> req_id q) (pending s)"
    and "later \<equiv> s\<lparr>approved := approved s @ always_rules q\<rparr>"
  shows "\<exists>P r. settlements (reply input s) = settlements s @ (req_id q, reply_result input) # map (\<lambda>p. (req_id p, r)) (filter P rest) \<and>
      pending (reply input s) = filter (\<lambda>p. \<not> P p) rest \<and> staticRuleset (reply input s) = staticRuleset s \<and>
      approved (reply input s) = approved s @ (if reply_of input = Always then always_rules q else []) \<and>
      (if reply_of input = Always then r = Granted \<and> P = (\<lambda>p. sessionID p = sessionID q \<and> is_covered later p)
       else r = Rejected)"
proof -
  have q: "q \<in> set (pending s)" "req_id q = requestID input"
    using assms(2) by (auto simp: find_Some_iff)
  have kept: "filter (\<lambda>p. req_id p \<notin> req_id ` set (filter P rest)) rest = filter (\<lambda>p. \<not> P p) rest" for P
  proof (rule filter_cong [OF refl])
    fix p assume p: "p \<in> set rest"
    have "inj_on req_id (set (pending s))" using assms(1) by (simp add: distinct_pending_def distinct_map)
    with p show "req_id p \<notin> req_id ` set (filter P rest) \<longleftrightarrow> \<not> P p"
      by (auto simp: rest_def inj_on_def)
  qed
  let ?t = "emit (RepliedEvent (req_id q) (sessionID q) (Some (reply_of input))) (pending_delete (requestID input) s)"
  have t: "pending ?t = rest" by (simp add: rest_def q(2) [symmetric])
  consider "reply_of input = Reject" | "reply_of input = Once" | "reply_of input = Always" by (cases "reply_of input")
  then show ?thesis
  proof cases
    case 1
    define u where "u = settle (req_id q) (reply_result input) ?t"
    have u: "pending u = rest" "approved u = approved s" "staticRuleset u = staticRuleset s"
      "settlements u = settlements s @ [(req_id q, reply_result input)]"
      using t by (simp_all add: u_def)
    have r: "reply input s = fold (reject_one (sessionID q)) rest u"
      using 1 assms(2) u(1) by (simp add: reply_def rejectPendingInSession_def reply_result_def u_def)
    from reject_loop [of "sessionID q" rest u] show ?thesis
      unfolding r settled_by_def u kept
      by - (rule exI [of _ "\<lambda>p. sessionID p = sessionID q"], rule exI [of _ Rejected], simp add: 1)
  next
    case 2
    then have r: "reply input s = settle (req_id q) Granted ?t" using assms(2) by (simp add: reply_def)
    show ?thesis unfolding r settle_fields t
      by (rule exI [of _ "\<lambda>p. False"], rule exI [of _ Rejected]) (simp add: 2 reply_result_def)
  next
    case 3
    define u where "u = (settle (req_id q) Granted ?t)\<lparr>approved := approved s @ always_rules q\<rparr>"
    have u: "pending u = rest" "approved u = approved later" "staticRuleset u = staticRuleset later"
      "settlements u = settlements s @ [(req_id q, Granted)]"
      using t by (simp_all add: u_def later_def)
    have r: "reply input s = fold (resolve_one (sessionID q)) rest u"
      using 3 assms(2) u(1) by (simp add: reply_def resolveCoveredPendingInSession_def u_def)
    from resolve_loop [OF u(2,3), of "sessionID q" rest] show ?thesis
      unfolding r settled_by_def u kept
      by - (rule exI [of _ "\<lambda>p. sessionID p = sessionID q \<and> is_covered later p"], rule exI [of _ Granted],
          simp add: 3 later_def reply_result_def)
  qed
qed

lemma reply_unknown: "find (\<lambda>q. req_id q = requestID input) (pending s) = None \<Longrightarrow> reply input s = s"
  by (simp add: reply_def)

section \<open>Runs\<close>

lemma asked_append: "asked (ops @ ops') = asked ops @ asked ops'"
  by (induction ops rule: asked.induct) auto

lemma run_snoc: "service_run (ops @ [op]) s = service_step op (service_run ops s)"
  by (simp add: service_run_def)

text \<open>What holds of the service: the table and the settlements share out the requests that were asked.\<close>

definition service_ok :: "Request list \<Rightarrow> service \<Rightarrow> bool" where
  "service_ok reqs s \<longleftrightarrow> set (pending s) \<subseteq> set reqs \<and> distinct_pending s \<and>
     mset (map req_id reqs) = mset (map req_id (pending s)) + mset (map fst (settlements s))"

lemma ok_ask:
  assumes "service_ok reqs s" and "req_id q \<notin> req_id ` set reqs"
  shows "service_ok (reqs @ [q]) (ask q s)"
proof -
  have new: "req_id q \<notin> req_id ` set (pending s)" using assms by (auto simp: service_ok_def)
  show ?thesis
    by (cases rule: ask_cases [of s q])
      (use assms new in \<open>auto simp: service_ok_def distinct_pending_def pending_set_new\<close>)
qed

lemma mset_parts: "mset xs = mset (filter P xs) + mset (filter (\<lambda>x. \<not> P x) xs)"
  by (induction xs) auto

lemma ok_reply:
  assumes "service_ok reqs s"
  shows "service_ok reqs (reply input s)"
proof (cases "find (\<lambda>q. req_id q = requestID input) (pending s)")
  case None
  then show ?thesis using assms by (simp add: reply_unknown)
next
  case (Some q)
  then have q: "q \<in> set (pending s)" by (auto simp: find_Some_iff)
  let ?rest = "filter (\<lambda>p. req_id p \<noteq> req_id q) (pending s)"
  have d: "distinct (map req_id (pending s))" using assms by (simp add: service_ok_def distinct_pending_def)
  obtain P r where run: "settlements (reply input s) = settlements s @ (req_id q, reply_result input) # map (\<lambda>p. (req_id p, r)) (filter P ?rest)"
    "pending (reply input s) = filter (\<lambda>p. \<not> P p) ?rest"
    using reply_cases [OF _ Some] assms unfolding service_ok_def by blast
  have one: "filter (\<lambda>p. req_id p = req_id q) (pending s) = [q]"
    by (rule filter_one [OF d q])
  have "mset (pending s) = mset (filter (\<lambda>p. req_id p = req_id q) (pending s)) + mset ?rest"
    by (rule mset_parts)
  then have split: "mset (pending s) = {#q#} + mset ?rest" unfolding one by simp
  have "mset ?rest = mset (filter P ?rest) + mset (filter (\<lambda>p. \<not> P p) ?rest)"
    by (rule mset_parts)
  then have "mset (map req_id (pending s)) = {#req_id q#} + mset (map req_id (filter P ?rest)) + mset (map req_id (filter (\<lambda>p. \<not> P p) ?rest))"
    by (simp add: split mset_map del: mset_filter)
  moreover have "distinct (map req_id (filter (\<lambda>p. \<not> P p) ?rest))"
    using d by (intro distinct_map_filter)
  ultimately show ?thesis using assms unfolding service_ok_def distinct_pending_def run
    by (auto simp: comp_def simp del: mset_filter)
qed

lemma run_ok:
  "distinct (map req_id (asked ops)) \<Longrightarrow> service_ok (asked ops) (service_run ops (new_service static app))"
proof (induction ops rule: rev_induct)
  case Nil
  then show ?case by (simp add: service_run_def new_service_def service_ok_def distinct_pending_def)
next
  case (snoc op ops)
  then have "service_ok (asked ops) (service_run ops (new_service static app))" by (simp add: asked_append)
  then show ?case
    using snoc.prems by (cases op) (auto simp: asked_append run_snoc intro!: ok_ask ok_reply)
qed

lemma reply_static: "staticRuleset (reply input s) = staticRuleset s" if "distinct_pending s"
proof (cases "find (\<lambda>q. req_id q = requestID input) (pending s)")
  case (Some q)
  then show ?thesis using reply_cases [OF that Some] by blast
qed (simp add: reply_unknown)

lemma ask_static: "staticRuleset (ask q s) = staticRuleset s" "approved (ask q s) = approved s"
  by (cases rule: ask_cases [of s q]; simp)+

lemma step_grants:
  assumes "distinct_pending s"
  shows "(i, Granted) \<in> set (settlements (service_step op s)) \<longleftrightarrow>
    (i, Granted) \<in> set (settlements s) \<or> (\<exists>q. req_id q = i \<and> grants s op q)"
proof (cases op)
  case (Ask q)
  show ?thesis unfolding Ask service_step.simps grants_def service_op.case
    by (cases rule: ask_cases [of s q]) (use free_not_denied [of s q] in auto)
next
  case (ReplyTo input)
  show ?thesis
  proof (cases "find (\<lambda>q. req_id q = requestID input) (pending s)")
    case None
    then show ?thesis unfolding ReplyTo by (auto simp: reply_unknown grants_def find_None_iff)
  next
    case (Some q)
    have q: "q \<in> set (pending s)" "requestID input = req_id q" using Some by (auto simp: find_Some_iff)
    have the_q: "p = q" if "p \<in> set (pending s)" "req_id p = req_id q" for p
      using assms that q(1) by (auto simp: distinct_pending_def distinct_map inj_on_def)
    let ?later = "s\<lparr>approved := approved s @ always_rules q\<rparr>" and ?rest = "filter (\<lambda>p. req_id p \<noteq> req_id q) (pending s)"
    obtain P r where run:
      "settlements (reply input s) = settlements s @ (req_id q, reply_result input) # map (\<lambda>p. (req_id p, r)) (filter P ?rest)"
      "if reply_of input = Always then r = Granted \<and> P = (\<lambda>p. sessionID p = sessionID q \<and> is_covered ?later p) else r = Rejected"
      using reply_cases [OF assms Some] by blast
    have "grants s op p \<longleftrightarrow> (p = q \<and> reply_of input \<noteq> Reject) \<or>
        (p \<in> set ?rest \<and> reply_of input = Always \<and> sessionID p = sessionID q \<and> is_covered ?later p)" for p
      unfolding grants_def ReplyTo service_op.case q(2) using q(1) by (auto dest: the_q)
    note granted = this
    have g: "(\<exists>p. req_id p = i \<and> grants s op p) \<longleftrightarrow> (req_id q = i \<and> reply_of input \<noteq> Reject) \<or>
        (reply_of input = Always \<and> (\<exists>p\<in>set ?rest. req_id p = i \<and> sessionID p = sessionID q \<and> is_covered ?later p))"
      unfolding granted by blast
    have "(i, Granted) \<in> set (settlements (reply input s)) \<longleftrightarrow>
        (i, Granted) \<in> set (settlements s) \<or> (req_id q = i \<and> reply_of input \<noteq> Reject) \<or>
        (r = Granted \<and> (\<exists>p\<in>set ?rest. req_id p = i \<and> P p))"
      unfolding run(1) set_append list.set reply_result_granted [symmetric] by (auto simp: image_iff)
    moreover have "(r = Granted \<and> (\<exists>p\<in>set ?rest. req_id p = i \<and> P p)) \<longleftrightarrow>
        (reply_of input = Always \<and> (\<exists>p\<in>set ?rest. req_id p = i \<and> sessionID p = sessionID q \<and> is_covered ?later p))"
      using run(2) by (cases "reply_of input = Always") auto
    ultimately show ?thesis unfolding g unfolding ReplyTo service_step.simps by blast
  qed
qed

lemma split_snoc:
  "(\<exists>xs y zs. ops @ [op] = xs @ y # zs \<and> Q xs y) \<longleftrightarrow> (\<exists>xs y zs. ops = xs @ y # zs \<and> Q xs y) \<or> Q ops op"
proof
  assume "\<exists>xs y zs. ops @ [op] = xs @ y # zs \<and> Q xs y"
  then obtain xs y zs where s: "ops @ [op] = xs @ y # zs" "Q xs y" by blast
  show "(\<exists>xs y zs. ops = xs @ y # zs \<and> Q xs y) \<or> Q ops op"
  proof (cases zs rule: rev_cases)
    case (snoc zs' z)
    then have "ops = xs @ y # zs'" using s(1) by simp
    then show ?thesis using s(2) by blast
  qed (use s in simp)
next
  assume "(\<exists>xs y zs. ops = xs @ y # zs \<and> Q xs y) \<or> Q ops op"
  then show "\<exists>xs y zs. ops @ [op] = xs @ y # zs \<and> Q xs y" by (metis append.assoc append_Cons append_Nil2 append_Nil)
qed

lemma granted_somewhere:
  assumes "distinct (map req_id (asked ops))"
  shows "(i, Granted) \<in> set (settlements (service_run ops (new_service static app))) \<longleftrightarrow>
    (\<exists>ops1 op ops2. ops = ops1 @ op # ops2 \<and> (\<exists>q. req_id q = i \<and> grants (service_run ops1 (new_service static app)) op q))"
  using assms
proof (induction ops rule: rev_induct)
  case Nil
  then show ?case by (simp add: service_run_def new_service_def)
next
  case (snoc op ops)
  have d: "distinct (map req_id (asked ops))" using snoc.prems by (simp add: asked_append)
  have "distinct_pending (service_run ops (new_service static app))" using run_ok [OF d] by (simp add: service_ok_def)
  from step_grants [OF this, of i op] snoc.IH [OF d] show ?case by (simp only: run_snoc split_snoc)
qed

section \<open>What is guaranteed\<close>

lemma asked_prefix: "ops = ops1 @ op # ops2 \<Longrightarrow> set (asked ops1) \<subseteq> set (asked ops)"
  by (simp add: asked_append)

lemma grants_asked:
  assumes "distinct (map req_id (asked ops))" and "ops = ops1 @ op # ops2"
    and "grants (service_run ops1 (new_service static app)) op q"
  shows "q \<in> set (asked ops)"
proof (cases op)
  case (Ask r)
  then show ?thesis using assms by (simp add: grants_def asked_append)
next
  case (ReplyTo input)
  have "distinct (map req_id (asked ops1))" using assms(1,2) by (simp add: asked_append)
  then have "set (pending (service_run ops1 (new_service static app))) \<subseteq> set (asked ops1)"
    using run_ok by (simp add: service_ok_def)
  then show ?thesis using assms(3) asked_prefix [OF assms(2)] by (auto simp: grants_def ReplyTo)
qed

text \<open>C5: whatever requests and replies come in which order, a request is granted exactly when the rules
  and approvals of the moment it is asked neither deny it nor ask, when the user allows it while it
  waits, or when an always answer to a request of its session makes every pattern of it allowed.\<close>

theorem permission_granted_iff:
  assumes "distinct (map req_id (asked ops))" and "q \<in> set (asked ops)"
  shows "(req_id q, Granted) \<in> set (settlements (service_run ops (new_service static app))) \<longleftrightarrow>
    (\<exists>ops1 op ops2. ops = ops1 @ op # ops2 \<and> grants (service_run ops1 (new_service static app)) op q)"
proof -
  have "p = q" if "ops = ops1 @ op # ops2" "req_id p = req_id q" "grants (service_run ops1 (new_service static app)) op p"
    for ops1 op ops2 p
    using grants_asked [OF assms(1) that(1,3)] assms that(2) by (auto simp: distinct_map inj_on_def)
  then show ?thesis unfolding granted_somewhere [OF assms(1)] by metis
qed

lemma approved_step:
  assumes "distinct_pending s"
  shows "\<exists>qs. approved (service_step op s) = approved s @ concat (map always_rules qs) \<and>
    (\<forall>q\<in>set qs. q \<in> set (pending s) \<and> user_replied [op] (req_id q) Always)"
proof (cases op)
  case (Ask q)
  then show ?thesis by (intro exI [of _ "[]"]) (simp add: ask_static)
next
  case (ReplyTo input)
  show ?thesis
  proof (cases "reply_of input = Always \<and> find (\<lambda>q. req_id q = requestID input) (pending s) \<noteq> None")
    case True
    then obtain q where q: "find (\<lambda>q. req_id q = requestID input) (pending s) = Some q" by auto
    then have "q \<in> set (pending s)" "req_id q = requestID input" by (auto simp: find_Some_iff)
    moreover have "approved (reply input s) = approved s @ always_rules q"
      using reply_cases [OF assms q] True by auto
    ultimately show ?thesis using True
      by (intro exI [of _ "[q]"]) (auto simp: ReplyTo user_replied_def)
  next
    case False
    have "approved (reply input s) = approved s"
    proof (cases "find (\<lambda>q. req_id q = requestID input) (pending s)")
      case (Some q)
      then show ?thesis using reply_cases [OF assms Some] False by auto
    qed (simp add: reply_unknown)
    then show ?thesis by (intro exI [of _ "[]"]) (simp add: ReplyTo)
  qed
qed

lemma user_replied_append: "user_replied (ops @ ops') i r \<longleftrightarrow> user_replied ops i r \<or> user_replied ops' i r"
  by (auto simp: user_replied_def)

lemma approved_run:
  "distinct (map req_id (asked ops)) \<Longrightarrow>
   \<exists>qs. approved (service_run ops (new_service static app)) = app @ concat (map always_rules qs) \<and>
     (\<forall>q\<in>set qs. q \<in> set (asked ops) \<and> user_replied ops (req_id q) Always)"
proof (induction ops rule: rev_induct)
  case Nil
  then show ?case by (intro exI [of _ "[]"]) (simp add: service_run_def new_service_def)
next
  case (snoc op ops)
  let ?s = "service_run ops (new_service static app)"
  have d: "distinct (map req_id (asked ops))" using snoc.prems by (simp add: asked_append)
  then have ok: "service_ok (asked ops) ?s" by (rule run_ok)
  obtain qs where qs: "approved ?s = app @ concat (map always_rules qs)"
    "\<forall>q\<in>set qs. q \<in> set (asked ops) \<and> user_replied ops (req_id q) Always" using snoc.IH [OF d] by blast
  obtain qs' where qs': "approved (service_step op ?s) = approved ?s @ concat (map always_rules qs')"
    "\<forall>q\<in>set qs'. q \<in> set (pending ?s) \<and> user_replied [op] (req_id q) Always"
    using approved_step ok unfolding service_ok_def by blast
  have "set (pending ?s) \<subseteq> set (asked ops)" using ok by (simp add: service_ok_def)
  then show ?case using qs qs'
    by (intro exI [of _ "qs @ qs'"]) (auto simp: run_snoc asked_append user_replied_append)
qed

text \<open>C15: requests with ids of their own are settled at most once, and at every moment each of them either
  waits or is settled; rules are approved only for requests that the user answered with always, one
  rule that allows for each pattern the request names for that.\<close>

theorem permission_requests_conserved:
  fixes static app
  assumes "distinct (map req_id (asked ops))"
  defines "s \<equiv> service_run ops (new_service static app)"
  shows "mset (map req_id (asked ops)) = mset (map req_id (pending s)) + mset (map fst (settlements s)) \<and>
    (\<exists>qs. approved s = app @ concat (map always_rules qs) \<and>
      (\<forall>q\<in>set qs. q \<in> set (asked ops) \<and> user_replied ops (req_id q) Always))"
  using run_ok [OF assms(1), of static app] approved_run [OF assms(1), of static app]
  by (simp add: s_def service_ok_def)

definition sample_request :: "jstr \<Rightarrow> jstr \<Rightarrow> Request" where
  "sample_request i pat =
     \<lparr>permission = js ''read'', patterns = [pat], always = [pat], req_id = i, sessionID = js ''s''\<rparr>"

lemma verdict_nothing: "verdict perm pat [[], []] = ask_user"
  by (simp add: verdict_def evaluate_def rule_def)

lemma sample_waits:
  "ask (sample_request i pat) (new_service [] []) =
    emit (AskedEvent (sample_request i pat)) ((new_service [] [])\<lparr>pending := [sample_request i pat]\<rparr>)"
  by (simp add: ask_def Let_def service_verdict_def sample_request_def new_service_def verdict_nothing js_def pending_set_def)

theorem permission_granted_iff_witness:
  "(js ''1'', Granted) \<in> set (settlements (service_run
     [Ask (sample_request (js ''1'') (js ''a'')), ReplyTo \<lparr>requestID = js ''1'', reply_of = Once, message = None\<rparr>]
     (new_service [] [])))"
proof -
  let ?q = "sample_request (js ''1'') (js ''a'')" and ?i = "\<lparr>requestID = js ''1'', reply_of = Once, message = None\<rparr>"
  have "grants (service_run [Ask ?q] (new_service [] [])) (ReplyTo ?i) ?q"
    unfolding service_run_def fold.simps service_step.simps comp_apply id_apply sample_waits
    by (simp add: grants_def) (simp add: sample_request_def)
  then have "\<exists>ops1 op ops2. [Ask ?q, ReplyTo ?i] = ops1 @ op # ops2 \<and> grants (service_run ops1 (new_service [] [])) op ?q"
    by (intro exI [of _ "[Ask ?q]"] exI [of _ "ReplyTo ?i"] exI [of _ "[]"]) simp
  then show ?thesis using permission_granted_iff [of "[Ask ?q, ReplyTo ?i]" ?q "[]" "[]"]
    by (simp add: sample_request_def)
qed

theorem permission_requests_conserved_witness:
  "mset (map req_id (pending (service_run [Ask (sample_request (js ''1'') (js ''a''))] (new_service [] [])))) +
   mset (map fst (settlements (service_run [Ask (sample_request (js ''1'') (js ''a''))] (new_service [] [])))) = {#js ''1''#}"
proof -
  have "distinct (map req_id (asked [Ask (sample_request (js ''1'') (js ''a''))]))" by simp
  from permission_requests_conserved [OF this, of "[]" "[]"]
  show ?thesis by (simp add: sample_request_def)
qed

end
