(* ===== verification/PermTool.thy ===== *)
theory PermTool
  imports PermServiceProps
begin

text \<open>
  A tool call in front of the permission system: the prompt (\<open>prompt.ts\<close>), the replies without a user
  interface (\<open>non-interactive.ts\<close>) and the handler of \<open>index.ts\<close> that asks for the requests of a call one
  after another. One call is handled at a time; a promise that nobody has settled when the handler waits
  for it is a call that hangs.
\<close>

section \<open>Replies\<close>

text \<open>The options of the prompt; \<open>Dismissed\<close> is a closed dialog.\<close>

datatype choice = AllowOnce | AllowAlways | DenyIt | DenyWithFeedback "jstr option" | Dismissed

definition showPermissionPrompt :: "choice \<Rightarrow> Request \<Rightarrow> ReplyInput" where
  "showPermissionPrompt c q =
     (case c of
        DenyWithFeedback feedback \<Rightarrow>
          \<lparr>requestID = req_id q, reply_of = Reject, message = (if feedback = Some [] then None else feedback)\<rparr>
      | AllowOnce \<Rightarrow> \<lparr>requestID = req_id q, reply_of = Once, message = None\<rparr>
      | AllowAlways \<Rightarrow> \<lparr>requestID = req_id q, reply_of = Always, message = None\<rparr>
      | _ \<Rightarrow> \<lparr>requestID = req_id q, reply_of = Reject, message = None\<rparr>)"

definition reject_with :: "Request \<Rightarrow> jstr \<Rightarrow> ReplyInput" where
  "reject_with q m = \<lparr>requestID = req_id q, reply_of = Reject, message = Some m\<rparr>"

definition handleNoUI :: "Request \<Rightarrow> Ruleset \<Rightarrow> Ruleset \<Rightarrow> ReplyInput option" where
  "handleNoUI q static cli =
     (let first = hd (patterns q)
      in if verdict (permission q) first [cli] = allow then None
         else if verdict (permission q) first [cli] = deny
         then Some (reject_with q (js ''Permission denied by CLI flag: '' @ permission q))
         else if verdict (permission q) first [static] = allow then None
         else if verdict (permission q) first [static] = deny
         then Some (reject_with q (js ''Permission denied by config: '' @ permission q))
         else Some (reject_with q
           (js ''Permission required for '' @ permission q @ js '' ('' @ join (js '', '') (patterns q) @
            js ''). Use --permission '' @ permission q @ js ''=allow to override.'')))"

section \<open>The handler\<close>

datatype call_result = Proceeds | Blocks settled | Hangs

definition settlement :: "jstr \<Rightarrow> service \<Rightarrow> settled option" where
  "settlement i s = map_of (settlements s) i"

definition await :: "jstr \<Rightarrow> service \<Rightarrow> call_result" where
  "await i s = (case settlement i s of None \<Rightarrow> Hangs | Some Granted \<Rightarrow> Proceeds | Some e \<Rightarrow> Blocks e)"

definition full_request :: "jstr \<Rightarrow> nat \<Rightarrow> PermissionRequest \<Rightarrow> Request" where
  "full_request session n r =
     \<lparr>permission = permission r, patterns = patterns r, always = always r,
      req_id = js ''permission-'' @ decimal n, sessionID = session\<rparr>"

text \<open>\<open>ui\<close> is \<open>None\<close> without a user interface and otherwise what the user picks for a request.\<close>

definition answer :: "(Request \<Rightarrow> choice) option \<Rightarrow> Ruleset \<Rightarrow> Request \<Rightarrow> service \<Rightarrow> service" where
  "answer ui cli q s =
     (case ui of
        Some pick \<Rightarrow> reply (showPermissionPrompt (pick q) q) s
      | None \<Rightarrow> (case handleNoUI q (staticRuleset s) cli of None \<Rightarrow> s | Some r \<Rightarrow> reply r s))"

definition handle_request ::
  "(Request \<Rightarrow> choice) option \<Rightarrow> Ruleset \<Rightarrow> Request \<Rightarrow> service \<Rightarrow> service \<times> call_result" where
  "handle_request ui cli q s =
     (let s1 = ask q s;
          s2 = (if list_ex (\<lambda>p. req_id p = req_id q) (pending s1) then answer ui cli q s1 else s1)
      in (s2, await (req_id q) s2))"

text \<open>The counter is that of the request ids; a request takes one when the loop comes to it.\<close>

fun handle_requests ::
  "(Request \<Rightarrow> choice) option \<Rightarrow> Ruleset \<Rightarrow> jstr \<Rightarrow> nat \<Rightarrow> PermissionRequest list \<Rightarrow> service \<Rightarrow>
   nat \<times> service \<times> call_result" where
  "handle_requests ui cli session n [] s = (n, s, Proceeds)"
| "handle_requests ui cli session n (r # rs) s =
     (case handle_request ui cli (full_request session (n + 1) r) s of
        (s', Proceeds) \<Rightarrow> handle_requests ui cli session (n + 1) rs s'
      | (s', e) \<Rightarrow> (n + 1, s', e))"

record call =
  call_tool :: jstr
  call_input :: "(jstr \<times> json) list"
  call_ui :: "(Request \<Rightarrow> choice) option"

text \<open>What stays the same in a session: the rules of the flag, the host, the session and its directory.\<close>

record environment =
  env_cli :: Ruleset
  env_host :: host
  env_session :: jstr
  env_cwd :: jstr

definition call_requests :: "environment \<Rightarrow> call \<Rightarrow> PermissionRequest list" where
  "call_requests env c = parse_call (env_host env) (call_tool c) (call_input c) (env_cwd env)"

definition tool_call :: "environment \<Rightarrow> call \<Rightarrow> nat \<times> service \<Rightarrow> nat \<times> service \<times> call_result" where
  "tool_call env c st =
     handle_requests (call_ui c) (env_cli env) (env_session env) (fst st) (call_requests env c) (snd st)"

definition run_calls :: "environment \<Rightarrow> call list \<Rightarrow> nat \<times> service \<Rightarrow> nat \<times> service" where
  "run_calls env calls st = fold (\<lambda>c st. case tool_call env c st of (n, s, r) \<Rightarrow> (n, s)) calls st"

text \<open>The state after \<open>session_start\<close> and the calls since.\<close>

definition session_state :: "environment \<Rightarrow> Ruleset \<Rightarrow> Ruleset \<Rightarrow> call list \<Rightarrow> nat \<times> service" where
  "session_state env static app calls = run_calls env calls (0, new_service static app)"

section \<open>One request\<close>

text \<open>A request with an id of its own.\<close>

definition new_id :: "jstr \<Rightarrow> service \<Rightarrow> bool" where
  "new_id i s \<longleftrightarrow> i \<notin> req_id ` set (pending s) \<and> i \<notin> fst ` set (settlements s)"

lemma settlement_append: "i \<notin> fst ` set xs \<Longrightarrow> map_of (xs @ ys) i = map_of ys i"
  by (simp add: map_add_def map_of_eq_None_iff [THEN iffD2])

lemma find_pending:
  "req_id q \<notin> req_id ` set ps \<Longrightarrow> find (\<lambda>p. req_id p = req_id q) (ps @ [q]) = Some q"
  by (induction ps) auto

lemma asked_waits:
  assumes "new_id (req_id q) s" and "\<not> free s q" and "denied_patterns s q = []"
  shows "ask q s = emit (AskedEvent q) (s\<lparr>pending := pending s @ [q]\<rparr>)"
    "list_ex (\<lambda>p. req_id p = req_id q) (pending (ask q s))"
proof -
  have a: "ask q s = emit (AskedEvent q) (s\<lparr>pending := pending_set q (pending s)\<rparr>)"
    using assms(2,3) by (cases rule: ask_cases [of s q]) auto
  then show "ask q s = emit (AskedEvent q) (s\<lparr>pending := pending s @ [q]\<rparr>)"
    using assms(1) pending_set_new [of q "pending s"] by (simp add: new_id_def)
  then show "list_ex (\<lambda>p. req_id p = req_id q) (pending (ask q s))" by simp
qed

lemma asked_waits_facts:
  assumes "new_id (req_id q) s" and "\<not> free s q" and "denied_patterns s q = []" and "distinct_pending s"
  shows "distinct_pending (ask q s)" "q \<in> set (pending (ask q s))" "req_id q \<notin> fst ` set (settlements (ask q s))"
    "settlement (req_id q) (ask q s) = None"
  using assms(1,4) unfolding asked_waits(1) [OF assms(1-3)]
  by (simp_all add: distinct_pending_def new_id_def settlement_def map_of_eq_None_iff)

lemma asked_settled:
  assumes "new_id (req_id q) s" and "free s q \<or> denied_patterns s q \<noteq> []"
  shows "\<not> list_ex (\<lambda>p. req_id p = req_id q) (pending (ask q s))"
    "await (req_id q) (ask q s) = (if free s q then Proceeds else Blocks (Denied (denied_patterns s q)))"
proof -
  have p: "\<not> list_ex (\<lambda>p. req_id p = req_id q) (pending s)"
    using assms(1) by (auto simp: new_id_def list_ex_iff image_iff)
  have n: "settlement (req_id q) (settle (req_id q) x t) = Some x" if "settlements t = settlements s" for x t
  proof -
    have "req_id q \<notin> fst ` set (settlements t)" using assms(1) that by (simp add: new_id_def)
    then show ?thesis unfolding settlement_def settle_fields by (subst settlement_append) simp_all
  qed
  have "\<not> list_ex (\<lambda>p. req_id p = req_id q) (pending (ask q s)) \<and>
      await (req_id q) (ask q s) = (if free s q then Proceeds else Blocks (Denied (denied_patterns s q)))"
  proof (cases rule: ask_cases [of s q])
    case denied
    then have "\<not> free s q" using free_not_denied by blast
    then show ?thesis unfolding denied(2) using p n [of s] by (simp add: await_def)
  next
    case free
    show ?thesis unfolding free(3) using p free(1) n [of "emit (RepliedEvent (req_id q) (sessionID q) None) s" Granted]
      by (simp add: await_def)
  next
    case waits
    then show ?thesis using assms(2) by simp
  qed
  then show "\<not> list_ex (\<lambda>p. req_id p = req_id q) (pending (ask q s))"
    "await (req_id q) (ask q s) = (if free s q then Proceeds else Blocks (Denied (denied_patterns s q)))" by simp_all
qed

text \<open>A reply settles the request it names.\<close>

lemma reply_settles:
  assumes "distinct_pending s" and "q \<in> set (pending s)" and "req_id q = requestID input" and "req_id q \<notin> fst ` set (settlements s)"
  shows "settlement (req_id q) (reply input s) = Some (reply_result input)"
proof -
  have "find (\<lambda>p. req_id p = requestID input) (pending s) \<noteq> None" using assms(2,3) by (auto simp: find_None_iff)
  then obtain p where p: "find (\<lambda>p. req_id p = requestID input) (pending s) = Some p" by auto
  then have "p \<in> set (pending s)" "req_id p = req_id q" using assms(3) by (auto simp: find_Some_iff)
  then have "p = q" using assms(1,2) unfolding distinct_pending_def distinct_map by (blast dest: inj_onD)
  then obtain P r where st: "settlements (reply input s) = settlements s @ (req_id q, reply_result input) #
      map (\<lambda>p. (req_id p, r)) (filter P (filter (\<lambda>p. req_id p \<noteq> req_id q) (pending s)))"
    using reply_cases [OF assms(1) p] by blast
  show ?thesis unfolding settlement_def st by (subst settlement_append [OF assms(4)]) simp
qed

lemma prompt_reply: "requestID (showPermissionPrompt c q) = req_id q"
  "reply_of (showPermissionPrompt c q) \<noteq> Reject \<longleftrightarrow> c = AllowOnce \<or> c = AllowAlways"
  by (cases c; simp add: showPermissionPrompt_def)+

lemma noui_reply: "handleNoUI q static cli = Some r \<Longrightarrow> requestID r = req_id q \<and> reply_of r = Reject"
  by (auto simp: handleNoUI_def Let_def reject_with_def split: if_splits)

text \<open>What becomes of one request: it goes through, is denied by a rule, or gets an answer.\<close>

definition silent :: "(Request \<Rightarrow> choice) option \<Rightarrow> Ruleset \<Rightarrow> Ruleset \<Rightarrow> Request \<Rightarrow> bool" where
  "silent ui static cli q \<longleftrightarrow> ui = None \<and> handleNoUI q static cli = None"

definition accepted :: "(Request \<Rightarrow> choice) option \<Rightarrow> Request \<Rightarrow> bool" where
  "accepted ui q \<longleftrightarrow> (\<exists>pick. ui = Some pick \<and> pick q \<in> {AllowOnce, AllowAlways})"

lemma handle_request_result:
  assumes "new_id (req_id q) s" and "distinct_pending s"
  shows "case snd (handle_request ui cli q s) of
      Proceeds \<Rightarrow> free s q \<or> denied_patterns s q = [] \<and> accepted ui q
    | Blocks e \<Rightarrow> \<not> free s q \<and> e \<noteq> Granted \<and>
        (if denied_patterns s q \<noteq> [] then e = Denied (denied_patterns s q) else \<not> accepted ui q \<and> \<not> silent ui (staticRuleset s) cli q)
    | Hangs \<Rightarrow> \<not> free s q \<and> denied_patterns s q = [] \<and> silent ui (staticRuleset s) cli q"
proof (cases "free s q \<or> denied_patterns s q \<noteq> []")
  case True
  then show ?thesis using asked_settled [OF assms(1) True] free_not_denied [of s q]
    by (auto simp: handle_request_def Let_def)
next
  case False
  then have w: "ask q s = emit (AskedEvent q) (s\<lparr>pending := pending s @ [q]\<rparr>)"
    "list_ex (\<lambda>p. req_id p = req_id q) (pending (ask q s))"
    using asked_waits [OF assms(1)] by auto
  have d: "distinct_pending (ask q s)" using assms by (simp add: w distinct_pending_def new_id_def)
  have q: "q \<in> set (pending (ask q s))" "req_id q \<notin> fst ` set (settlements (ask q s))"
    using assms(1) by (simp_all add: w new_id_def)
  have run: "handle_request ui cli q s = (answer ui cli q (ask q s), await (req_id q) (answer ui cli q (ask q s)))"
    unfolding handle_request_def Let_def using w(2) by simp
  have replied: "await (req_id q) (reply r (ask q s)) = (if reply_of r \<noteq> Reject then Proceeds else Blocks (reply_result r))"
    if "requestID r = req_id q" for r
    using reply_settles [OF d q(1) _ q(2), of r] that reply_result_granted [of r]
    by (auto simp: await_def split: settled.splits)
  show ?thesis
  proof (cases ui)
    case (Some pick)
    have ans: "snd (handle_request ui cli q s) = await (req_id q) (reply (showPermissionPrompt (pick q) q) (ask q s))"
      unfolding run by (simp add: answer_def Some)
    have acc: "accepted ui q \<longleftrightarrow> reply_of (showPermissionPrompt (pick q) q) \<noteq> Reject" "\<not> silent ui (staticRuleset s) cli q"
      using prompt_reply(2) [of "pick q" q] by (auto simp: accepted_def silent_def Some)
    show ?thesis
      using False acc reply_result_granted [of "showPermissionPrompt (pick q) q"]
      by (simp add: ans replied [OF prompt_reply(1)])
  next
    case None
    have st: "staticRuleset (ask q s) = staticRuleset s" by (simp add: w)
    have ans: "snd (handle_request ui cli q s) = await (req_id q)
        (case handleNoUI q (staticRuleset s) cli of None \<Rightarrow> ask q s | Some r \<Rightarrow> reply r (ask q s))"
      unfolding run by (simp add: answer_def None st split: option.splits)
    have acc: "\<not> accepted ui q" "silent ui (staticRuleset s) cli q \<longleftrightarrow> handleNoUI q (staticRuleset s) cli = None"
      by (simp_all add: accepted_def silent_def None)
    show ?thesis
    proof (cases "handleNoUI q (staticRuleset s) cli")
      case no: None
      have "map_of (settlements s) (req_id q) = None"
        using assms(1) by (simp add: new_id_def map_of_eq_None_iff)
      then have "await (req_id q) (ask q s) = Hangs" by (simp add: await_def settlement_def w)
      then show ?thesis using False no acc by (simp add: ans)
    next
      case (Some r)
      note r = noui_reply [OF this]
      then show ?thesis using False Some acc replied [of r] reply_result_granted [of r] by (simp add: ans)
    qed
  qed
qed

section \<open>Calls\<close>

definition id_number :: "nat \<Rightarrow> jstr" where
  "id_number k = js ''permission-'' @ decimal k"

lemma id_number_inject: "id_number k = id_number m \<longleftrightarrow> k = m"
  by (simp add: id_number_def decimal_inject)

lemma full_request_id [simp]: "req_id (full_request session k r) = id_number k"
  by (simp add: full_request_def id_number_def)

text \<open>Between calls: the ids in use are numbers up to the counter.\<close>

definition handler_ok :: "nat \<times> service \<Rightarrow> bool" where
  "handler_ok st \<longleftrightarrow> (\<exists>reqs. service_ok reqs (snd st) \<and> req_id ` set reqs \<subseteq> id_number ` {1..fst st})"

lemma ok_fresh:
  assumes "service_ok reqs s" and "i \<notin> req_id ` set reqs"
  shows "new_id i s" "distinct_pending s"
proof -
  have "set (map req_id reqs) = set (map req_id (pending s)) \<union> set (map fst (settlements s))"
    using assms(1) unfolding service_ok_def by (metis set_mset_mset set_mset_union)
  then show "new_id i s" using assms(2) by (auto simp: new_id_def)
  show "distinct_pending s" using assms(1) by (simp add: service_ok_def)
qed

lemma handle_request_ok:
  assumes "service_ok reqs s" and "req_id q \<notin> req_id ` set reqs"
  shows "service_ok (reqs @ [q]) (fst (handle_request ui cli q s))"
proof -
  have "service_ok (reqs @ [q]) (ask q s)" by (rule ok_ask [OF assms])
  moreover have "service_ok rs (answer ui cli q t)" if "service_ok rs t" for rs t
    using that by (auto simp: answer_def intro: ok_reply split: option.splits)
  ultimately show ?thesis by (simp add: handle_request_def Let_def)
qed

lemma handle_ok_step:
  assumes "handler_ok (n, s)"
  shows "handler_ok (n + 1, fst (handle_request ui cli (full_request session (n + 1) r) s))"
    "new_id (id_number (n + 1)) s" "distinct_pending s"
proof -
  obtain reqs where reqs: "service_ok reqs s" "req_id ` set reqs \<subseteq> id_number ` {1..n}"
    using assms by (auto simp: handler_ok_def)
  let ?q = "full_request session (n + 1) r"
  have "id_number (n + 1) \<notin> id_number ` {1..n}" by (auto simp: id_number_inject)
  then have new: "id_number (n + 1) \<notin> req_id ` set reqs" using reqs(2) by blast
  then show "new_id (id_number (n + 1)) s" "distinct_pending s" using ok_fresh [OF reqs(1)] by auto
  have "service_ok (reqs @ [?q]) (fst (handle_request ui cli ?q s))"
    using reqs(1) new by (intro handle_request_ok) simp_all
  moreover have "req_id ` set (reqs @ [?q]) \<subseteq> id_number ` {1..n + 1}" using reqs(2) by auto
  ultimately show "handler_ok (n + 1, fst (handle_request ui cli ?q s))" 
    unfolding handler_ok_def fst_conv snd_conv by blast
qed

lemma handle_requests_ok:
  "handler_ok (n, s) \<Longrightarrow> handle_requests ui cli session n rs s = (n', s', r) \<Longrightarrow> handler_ok (n', s')"
proof (induction rs arbitrary: n s)
  case (Cons q rs)
  obtain s1 r1 where run: "handle_request ui cli (full_request session (n + 1) q) s = (s1, r1)" by fastforce
  then have "handler_ok (n + 1, s1)" using handle_ok_step(1) [OF Cons.prems(1), of ui cli session q] by simp
  then show ?case using Cons run by (cases r1) auto
qed auto

lemma session_ok: "handler_ok (session_state env static app calls)"
proof -
  have start: "handler_ok (0, new_service static app)"
    by (auto simp: handler_ok_def service_ok_def new_service_def distinct_pending_def)
  have "handler_ok st \<Longrightarrow> handler_ok (run_calls env calls st)" for st
  proof (induction calls arbitrary: st)
    case (Cons c calls)
    obtain n s r where run: "tool_call env c st = (n, s, r)" by (metis prod_cases3)
    then have "handler_ok (n, s)"
      using handle_requests_ok [of "fst st" "snd st"] Cons.prems by (simp add: tool_call_def)
    then show ?case using Cons.IH [of "(n, s)"] run by (simp add: run_calls_def)
  qed (simp add: run_calls_def)
  then show ?thesis using start by (simp add: session_state_def)
qed

section \<open>What a call needs to run\<close>

lemma settlements_grow: "\<exists>xs. settlements (fst (handle_request ui cli q s)) = settlements s @ xs"
  if "new_id (req_id q) s" "distinct_pending s"
proof -
  have a: "\<exists>xs. settlements (ask q s) = settlements s @ xs" by (cases rule: ask_cases [of s q]) auto
  have "distinct_pending (ask q s)"
  proof (cases rule: ask_cases [of s q])
    case waits
    show ?thesis using that unfolding distinct_pending_def new_id_def asked_waits(1) [OF that(1) waits(1,2)] by simp
  qed (use that in \<open>simp_all add: distinct_pending_def\<close>)
  then have r: "\<exists>xs. settlements (reply i (ask q s)) = settlements (ask q s) @ xs" for i
  proof (cases "find (\<lambda>p. req_id p = requestID i) (pending (ask q s))")
    case (Some p)
    then show ?thesis using reply_cases [OF \<open>distinct_pending (ask q s)\<close> Some] by blast
  qed (simp add: reply_unknown)
  show ?thesis using a r by (auto simp: handle_request_def Let_def answer_def split: option.splits) (metis append.assoc)+
qed

lemma await_granted: "await i s = Proceeds \<longleftrightarrow> settlement i s = Some Granted"
  by (auto simp: await_def split: option.splits settled.splits)

text \<open>The requests of a call with their ids.\<close>

fun numbered :: "jstr \<Rightarrow> nat \<Rightarrow> PermissionRequest list \<Rightarrow> Request list" where
  "numbered session n [] = []"
| "numbered session n (r # rs) = full_request session (n + 1) r # numbered session (n + 1) rs"

lemma handled_result:
  assumes "handler_ok (n, s)" and "handle_requests ui cli session n rs s = (n', s', r)"
  shows "(\<exists>xs. settlements s' = settlements s @ xs) \<and>
    (case r of
       Proceeds \<Rightarrow> \<forall>q\<in>set (numbered session n rs). (req_id q, Granted) \<in> set (settlements s')
     | Blocks e \<Rightarrow> e \<noteq> Granted \<and> (\<exists>q\<in>set (numbered session n rs). (req_id q, e) \<in> set (settlements s'))
     | Hangs \<Rightarrow> ui = None)"
  using assms
proof (induction rs arbitrary: n s)
  case (Cons p rs)
  let ?q = "full_request session (n + 1) p"
  obtain s1 r1 where run: "handle_request ui cli ?q s = (s1, r1)" by fastforce
  note step = handle_ok_step [OF Cons.prems(1)]
  have ok: "handler_ok (n + 1, s1)" using step(1) [of ui cli session p] run by simp
  have new: "new_id (req_id ?q) s" using step(2) by simp
  obtain xs where grow: "settlements s1 = settlements s @ xs"
    using settlements_grow [OF new step(3), of ui cli] run by auto
  have r1: "r1 = await (req_id ?q) s1" using run by (auto simp: handle_request_def Let_def)
  note result = handle_request_result [OF new step(3), of ui cli, unfolded run snd_conv]
  show ?case
  proof (cases r1)
    case Proceeds
    then have "(req_id ?q, Granted) \<in> set (settlements s1)"
      using r1 by (auto simp: await_granted settlement_def dest: map_of_SomeD)
    moreover have rest: "handle_requests ui cli session (n + 1) rs s1 = (n', s', r)"
      using Cons.prems(2) run Proceeds by simp
    moreover note Cons.IH [OF ok rest]
    ultimately show ?thesis using grow by (cases r) auto
  next
    case (Blocks e)
    then have "(req_id ?q, e) \<in> set (settlements s1)" "e \<noteq> Granted"
      using r1 result by (auto simp: await_def settlement_def dest: map_of_SomeD split: option.splits settled.splits)
    then show ?thesis using Cons.prems(2) run Blocks grow by auto
  next
    case Hangs
    then show ?thesis using result Cons.prems(2) run grow by (auto simp: silent_def)
  qed
qed auto

text \<open>C6: after any calls in a session, a tool call runs only if every permission it asks for has been
  granted, is blocked only by an error one of its requests was settled with, and with a user interface
  it always comes to one or the other.\<close>

theorem tool_call_decided:
  fixes env static app calls c
  defines "st \<equiv> session_state env static app calls"
  assumes "tool_call env c st = (n', s', r)"
  shows "case r of
      Proceeds \<Rightarrow> \<forall>q\<in>set (numbered (env_session env) (fst st) (call_requests env c)). (req_id q, Granted) \<in> set (settlements s')
    | Blocks e \<Rightarrow> e \<noteq> Granted \<and>
        (\<exists>q\<in>set (numbered (env_session env) (fst st) (call_requests env c)). (req_id q, e) \<in> set (settlements s'))
    | Hangs \<Rightarrow> call_ui c = None"
proof -
  have "handler_ok (fst st, snd st)" using session_ok [of env static app calls] by (simp add: st_def)
  from handled_result [OF this assms(2) [unfolded tool_call_def]] show ?thesis by blast
qed

section \<open>Without a user interface\<close>

lemma free_cong: "approved s = approved t \<Longrightarrow> staticRuleset s = staticRuleset t \<Longrightarrow> free s = free t \<and> denied_patterns s = denied_patterns t"
  using service_verdict_cong [of s t] by (simp add: free_def denied_patterns_def fun_eq_iff)

definition unattended :: "Ruleset \<Rightarrow> service \<Rightarrow> Request \<Rightarrow> call_result" where
  "unattended cli s q =
     (if denied_patterns s q \<noteq> [] then Blocks (Denied (denied_patterns s q))
      else (case handleNoUI q (staticRuleset s) cli of
          None \<Rightarrow> Hangs
        | Some r \<Rightarrow> Blocks (reply_result r)))"

lemma unattended_request:
  assumes "new_id (req_id q) s" and "distinct_pending s" and "\<not> free s q"
  shows "snd (handle_request None cli q s) = unattended cli s q"
proof (cases "denied_patterns s q = []")
  case False
  then show ?thesis using asked_settled [OF assms(1)] assms(3) by (simp add: handle_request_def Let_def unattended_def)
next
  case True
  note w = asked_waits [OF assms(1,3) True]
  note facts = asked_waits_facts [OF assms(1,3) True assms(2)]
  have st: "staticRuleset (ask q s) = staticRuleset s" by (simp add: ask_static)
  show ?thesis
  proof (cases "handleNoUI q (staticRuleset s) cli")
    case None
    then show ?thesis using w(2) facts(4) True
      by (simp add: handle_request_def Let_def answer_def st unattended_def await_def)
  next
    case (Some r)
    note r = noui_reply [OF this]
    have "settlement (req_id q) (reply r (ask q s)) = Some (reply_result r)"
      using r by (intro reply_settles [OF facts(1,2) _ facts(3)]) simp
    moreover have "reply_result r \<noteq> Granted" using r by (simp add: reply_result_granted)
    ultimately show ?thesis using w(2) True Some
      by (simp add: handle_request_def Let_def answer_def st unattended_def await_def split: settled.splits)
  qed
qed

lemma handle_unattended:
  assumes "handler_ok (n, s)"
  shows "snd (snd (handle_requests None cli session n rs s)) =
    (case find (\<lambda>q. \<not> free s q) (numbered session n rs) of None \<Rightarrow> Proceeds | Some q \<Rightarrow> unattended cli s q)"
  using assms
proof (induction rs arbitrary: n s)
  case (Cons p rs)
  let ?q = "full_request session (n + 1) p"
  note step = handle_ok_step [OF Cons.prems]
  have new: "new_id (req_id ?q) s" using step(2) by simp
  show ?case
  proof (cases "free s ?q")
    case True
    have a: "ask ?q s = settle (req_id ?q) Granted (emit (RepliedEvent (req_id ?q) (sessionID ?q) None) s)"
      using True by (cases rule: ask_cases [of s ?q]) (auto dest: free_not_denied)
    have run: "handle_request None cli ?q s = (ask ?q s, Proceeds)"
      using asked_settled [OF new] True by (simp add: handle_request_def Let_def)
    have ok: "handler_ok (n + 1, ask ?q s)" using step(1) [of None cli session p] run by simp
    have same: "free (ask ?q s) = free s" "unattended cli (ask ?q s) = unattended cli s"
      using free_cong [of "ask ?q s" s] by (auto simp: unattended_def fun_eq_iff ask_static)
    show ?thesis using Cons.IH [OF ok] True run unfolding same by simp
  next
    case False
    have "snd (handle_request None cli ?q s) = unattended cli s ?q"
      by (rule unattended_request [OF new step(3) False])
    moreover have "unattended cli s ?q \<noteq> Proceeds" by (simp add: unattended_def split: option.splits)
    ultimately show ?thesis using False
      by (cases "handle_request None cli ?q s"; cases "snd (handle_request None cli ?q s)") auto
  qed
qed auto

text \<open>Without a user interface a call runs exactly when the rules let every request of it through; the
  first request they do not let through decides: it blocks the call, or, when the rules allow the first
  of its patterns, nobody answers it and the call never returns.\<close>

theorem unattended_call:
  fixes env static app calls c
  defines "st \<equiv> session_state env static app calls"
  assumes "call_ui c = None"
  shows "snd (snd (tool_call env c st)) =
    (case find (\<lambda>q. \<not> free (snd st) q) (numbered (env_session env) (fst st) (call_requests env c)) of
       None \<Rightarrow> Proceeds
     | Some q \<Rightarrow> unattended (env_cli env) (snd st) q)"
proof -
  have "handler_ok (fst st, snd st)" using session_ok [of env static app calls] by (simp add: st_def)
  from handle_unattended [OF this] show ?thesis by (simp add: tool_call_def assms(2))
qed

end
