(* ===== verification/PermPolicy.thy ===== *)
theory PermPolicy
  imports PermTool
begin

text \<open>
  The permission system as a whole: what the read-only preset keeps from running without a user
  interface, what the rules see of a command, and calls on which the rules decide otherwise than their
  text suggests.
\<close>

section \<open>Verdicts of closed rules\<close>

lemma glob_star_last: "glob [STAR] val"
  by (auto simp: glob_star intro: exI [of _ "length val"])

lemma verdict_snoc:
  "verdict perm pat [rs @ [r]] = (if rule_matches perm pat r then rule_action r else verdict perm pat [rs])"
  "verdict perm pat [[]] = ask_user"
  by (simp_all add: verdict_def evaluate_def rule_def)

lemma verdict_two: "verdict perm pat [static, app] = verdict perm pat [static @ app]"
  by (simp add: verdict_def evaluate_def)

lemma read_only_asks:
  assumes "perm = js ''bash'' \<or> perm = js ''edit''"
  shows "verdict perm pat [rulesForPreset FullAccess @ rulesForPreset ReadOnly] = ask_user"
  using assms by (auto simp: verdict_def evaluate_def rule_matches_def rule_def match_literal js_def matchesPattern_def)

lemma full_request_fields [simp]:
  "permission (full_request session k r) = permission r" "patterns (full_request session k r) = patterns r"
  by (simp_all add: full_request_def)

lemma request_fields [simp]: "permission (request p pats alw) = p" "patterns (request p pats alw) = pats"
  by (simp_all add: request_def)

section \<open>The read-only preset\<close>

definition preset_settings :: "jstr \<Rightarrow> permission_settings" where
  "preset_settings name = \<lparr>set_preset = Some (Some name), set_rules = None\<rparr>"

definition no_settings :: permission_settings where
  "no_settings = \<lparr>set_preset = None, set_rules = None\<rparr>"

lemma read_only_settings:
  "loadPermissionSettings home no_settings (preset_settings (js ''read-only'')) [] None =
    Some (rulesForPreset FullAccess @ rulesForPreset ReadOnly)"
  by (simp add: loadPermissionSettings_def no_settings_def preset_settings_def parseSettingsPreset_def
    parsePermissionPresetName_def settings_rules_def preset_rules_def merge_rulesets_def DEFAULT_PERMISSION_PRESET_def js_def)

text \<open>Without a user interface no rule is approved.\<close>

lemma headless_request:
  "approved (fst (handle_request None cli q s)) = approved s \<and> staticRuleset (fst (handle_request None cli q s)) = staticRuleset s"
  if "distinct_pending (ask q s)"
proof -
  have "approved (reply r (ask q s)) = approved s \<and> staticRuleset (reply r (ask q s)) = staticRuleset s" if "reply_of r = Reject" for r
  proof (cases "find (\<lambda>p. req_id p = requestID r) (pending (ask q s))")
    case (Some p)
    with reply_cases [OF \<open>distinct_pending (ask q s)\<close> Some] that show ?thesis by (auto simp: ask_static)
  qed (simp add: reply_unknown ask_static)
  then show ?thesis
    using noui_reply [of q "staticRuleset s" cli]
    by (auto simp: handle_request_def Let_def answer_def ask_static split: option.splits)
qed

lemma asked_distinct: "new_id (req_id q) s \<Longrightarrow> distinct_pending s \<Longrightarrow> distinct_pending (ask q s)"
  by (cases rule: ask_cases [of s q]) (auto simp: distinct_pending_def new_id_def pending_set_new)

lemma headless_requests:
  "handler_ok (n, s) \<Longrightarrow> handle_requests None cli session n rs s = (n', s', r) \<Longrightarrow>
   approved s' = approved s \<and> staticRuleset s' = staticRuleset s"
proof (induction rs arbitrary: n s)
  case (Cons p rs)
  let ?q = "full_request session (n + 1) p"
  note step = handle_ok_step [OF Cons.prems(1)]
  have "distinct_pending (ask ?q s)" using step(2,3) by (intro asked_distinct) simp_all
  note same = headless_request [OF this, of cli]
  obtain s1 r1 where run: "handle_request None cli ?q s = (s1, r1)" by fastforce
  then have "handler_ok (n + 1, s1)" using step(1) [of None cli session p] by simp
  then show ?case using Cons.IH [of "n + 1" s1] Cons.prems(2) run same by (cases r1) auto
qed auto

lemma headless_session:
  assumes "\<forall>c\<in>set calls. call_ui c = None"
  shows "approved (snd (session_state env static app calls)) = app \<and>
    staticRuleset (snd (session_state env static app calls)) = static"
proof -
  have "handler_ok st \<Longrightarrow> approved (snd (run_calls env calls st)) = approved (snd st) \<and>
      staticRuleset (snd (run_calls env calls st)) = staticRuleset (snd st)" for st
    using assms
  proof (induction calls arbitrary: st)
    case (Cons c calls)
    obtain n s r where run: "tool_call env c st = (n, s, r)" by (metis prod_cases3)
    have ok: "handler_ok (n, s)"
      using handle_requests_ok [of "fst st" "snd st"] Cons.prems(1) run by (simp add: tool_call_def)
    have "approved s = approved (snd st) \<and> staticRuleset s = staticRuleset (snd st)"
      using headless_requests [of "fst st" "snd st"] Cons.prems run by (simp add: tool_call_def)
    then show ?case using Cons.IH [OF ok] Cons.prems(2) run by (simp add: run_calls_def)
  qed (simp add: run_calls_def)
  moreover have "handler_ok (0, new_service static app)" using session_ok [of env static app "[]"]
    by (simp add: session_state_def run_calls_def)
  ultimately show ?thesis by (simp add: session_state_def new_service_def)
qed

text \<open>The tools that change files or run commands.\<close>

definition changing_tools :: "jstr set" where
  "changing_tools = {js ''bash'', js ''bash_input'', js ''monitor'', js ''edit'', js ''write'', js ''apply_patch'', js ''multiedit''}"

lemma changing_request:
  assumes "tool \<in> changing_tools"
  shows "\<exists>p pat alw rest. parse_call h tool input cwd = request p [pat] alw # rest \<and> (p = js ''bash'' \<or> p = js ''edit'')"
proof -
  have bash: "\<exists>pat alw rest. parseBashLikePermission key h input cwd = request (js ''bash'') [pat] alw # rest" for key
    by (cases "truthy (getString input [key])") (auto simp: parseBashLikePermission_def Let_def fallbackPermissionRequest_def)
  have edit: "\<exists>pat alw rest. parseEditPermission h input cwd = request (js ''edit'') [pat] alw # rest"
    by (cases "extractPatchedPaths (the (getString input [js ''input'', js ''patchText'']))")
      (auto simp: parseEditPermission_def Let_def fallbackPermissionRequest_def withExternalDirectoryRequests_def path_request_def)
  consider "tool = js ''bash'' \<or> tool = js ''monitor''" | "tool = js ''bash_input''"
    | "tool \<in> {js ''edit'', js ''write'', js ''apply_patch'', js ''multiedit''}"
    using assms by (auto simp: changing_tools_def)
  then show ?thesis
  proof cases
    case 1
    then show ?thesis using bash [of "js ''command''"] unfolding parse_call_def by (simp only: if_True) blast
  next
    case 2
    then have "parse_call h tool input cwd = parseBashLikePermission (js ''input'') h input cwd"
      by (simp add: parse_call_def js_def)
    then show ?thesis using bash [of "js ''input''"] by (simp only:) blast
  next
    case 3
    then have "parse_call h tool input cwd = parseEditPermission h input cwd" by (auto simp: parse_call_def js_def)
    then show ?thesis using edit by (simp only:) blast
  qed
qed

lemma unanswered:
  assumes "verdict (permission q) (hd (patterns q)) [cli] = ask_user" and "verdict (permission q) (hd (patterns q)) [static] = ask_user"
  shows "\<exists>m. handleNoUI q static cli = Some (reject_with q m) \<and> m \<noteq> []"
proof -
  have no: "ask_user \<noteq> deny" "ask_user \<noteq> allow" by (simp_all add: js_def)
  have "handleNoUI q static cli = Some (reject_with q
      (js ''Permission required for '' @ permission q @ js '' ('' @ join (js '', '') (patterns q) @
       js ''). Use --permission '' @ permission q @ js ''=allow to override.''))"
    unfolding handleNoUI_def Let_def assms using no by simp
  then show ?thesis by (intro exI conjI) (assumption, simp add: js_def)
qed

text \<open>C7: under the read-only preset of the project and no other rule, a call of a tool that changes files or
  runs commands is blocked when there is no user interface, whatever calls came before and whatever
  its arguments are.\<close>

theorem read_only_blocks:
  assumes "loadPermissionSettings home no_settings (preset_settings (js ''read-only'')) [] None = Some static"
    and "env_cli env = []" and "\<forall>c\<in>set (calls @ [c]). call_ui c = None" and "call_tool c \<in> changing_tools"
  shows "\<exists>m. snd (snd (tool_call env c (session_state env static [] calls))) = Blocks (Corrected m)"
proof -
  let ?st = "session_state env static [] calls"
  have static: "static = rulesForPreset FullAccess @ rulesForPreset ReadOnly" using assms(1) read_only_settings by simp
  have s: "approved (snd ?st) = []" "staticRuleset (snd ?st) = static" using headless_session [of calls env static "[]"] assms(3) by auto
  obtain p pat alw rest where r: "call_requests env c = request p [pat] alw # rest" "p = js ''bash'' \<or> p = js ''edit''"
    using changing_request [OF assms(4)] unfolding call_requests_def by blast
  let ?q = "full_request (env_session env) (fst ?st + 1) (request p [pat] alw)"
  have ask: "verdict p pat [static] = ask_user" unfolding static using read_only_asks r(2) by blast
  have asks: "service_verdict (snd ?st) p pat = ask_user" unfolding service_verdict_def s verdict_two using ask by simp
  have no: "ask_user \<noteq> deny" "ask_user \<noteq> allow" by (simp_all add: js_def)
  have nf: "\<not> free (snd ?st) ?q" "denied_patterns (snd ?st) ?q = []" using asks no by (simp_all add: free_def denied_patterns_def)
  have "handler_ok (fst ?st, snd ?st)" using session_ok [of env static "[]" calls] by simp
  from handle_unattended [OF this, of "[]" "env_session env" "call_requests env c"]
  have "snd (snd (tool_call env c ?st)) = unattended [] (snd ?st) ?q"
    using nf(1) assms(2,3) by (simp add: tool_call_def r(1))
  moreover have "\<exists>m. handleNoUI ?q static [] = Some (reject_with ?q m) \<and> m \<noteq> []"
    using unanswered [of ?q "[]" static] ask verdict_snoc(2) by simp
  ultimately show ?thesis using nf(2) by (auto simp: unattended_def s reply_result_def reject_with_def)
qed

theorem read_only_blocks_witness:
  "\<exists>m. snd (snd (tool_call
     \<lparr>env_cli = [], env_host = \<lparr>homedir = js ''/h'', process_cwd = js ''/w'', realpath = (\<lambda>_. None)\<rparr>,
      env_session = js ''s'', env_cwd = js ''/w''\<rparr>
     \<lparr>call_tool = js ''bash'', call_input = [(js ''command'', JStr (js ''ls''))], call_ui = None\<rparr>
     (0, new_service (rulesForPreset FullAccess @ rulesForPreset ReadOnly) []))) = Blocks (Corrected m)"
  using read_only_blocks [OF read_only_settings,
    of "\<lparr>env_cli = [], env_host = \<lparr>homedir = js ''/h'', process_cwd = js ''/w'', realpath = (\<lambda>_. None)\<rparr>,
      env_session = js ''s'', env_cwd = js ''/w''\<rparr>" "[]"
     "\<lparr>call_tool = js ''bash'', call_input = [(js ''command'', JStr (js ''ls''))], call_ui = None\<rparr>"]
  by (simp add: changing_tools_def session_state_def run_calls_def)

section \<open>What the rules see\<close>

lemma fresh_call:
  assumes "call_ui c = None"
  shows "snd (snd (tool_call env c (0, new_service static app))) =
    (case find (\<lambda>q. \<not> free (new_service static app) q) (numbered (env_session env) 0 (call_requests env c)) of
       None \<Rightarrow> Proceeds | Some q \<Rightarrow> unattended (env_cli env) (new_service static app) q)"
proof -
  have "handler_ok (0, new_service static app)"
    using session_ok [of env static app "[]"] by (simp add: session_state_def run_calls_def)
  from handle_unattended [OF this] show ?thesis by (simp add: tool_call_def assms)
qed

lemma verdict_new: "service_verdict (new_service static app) perm pat = verdict perm pat [static @ app]"
  by (simp add: service_verdict_def verdict_two new_service_def)

text \<open>Every entry of the table takes at most three words.\<close>

lemma arity_le: "arity_of name = Some n \<Longrightarrow> n \<le> 3"
proof -
  have "list_all (\<lambda>(k, n). n \<le> 3) ARITY" by (simp add: ARITY_def)
  then show "arity_of name = Some n \<Longrightarrow> n \<le> 3"
    by (auto simp: arity_of_def list_all_iff split: option.splits if_splits dest!: map_of_SomeD)
qed

lemma arity_prefix_take: "\<exists>k\<le>3. arity_prefix tokens n = take k tokens"
proof (induction n)
  case 0
  then show ?case by (cases tokens) (auto intro: exI [of _ 0] exI [of _ 1])
next
  case (Suc n)
  then show ?case by (auto split: option.splits dest: arity_le)
qed

text \<open>What the rules see of a command are its first words, three at most: the request of a call of the bash
  tool has them as its one pattern, and an always answer to it allows every command that begins with
  them, whatever follows, be it an option or another command.\<close>

theorem bash_request_prefix:
  assumes "getString input [js ''command''] = Some command" and "command \<noteq> []"
  shows "\<exists>k\<le>3. hd (parse_call h (js ''bash'') input cwd) =
    (let prefix = join (js '' '') (take k (command_words command))
     in if prefix \<noteq> [] then request (js ''bash'') [prefix] [prefix, prefix @ js '' *'']
        else request (js ''bash'') [command] [js ''*''])"
proof -
  obtain k where "k \<le> 3" "BashArity_prefix (command_words command) = take k (command_words command)"
    using arity_prefix_take unfolding BashArity_prefix_def by blast
  moreover have "truthy (Some command)" using assms(2) by (simp add: truthy_def)
  ultimately show ?thesis
    by (intro exI [of _ k]) (simp add: parse_call_def parseBashLikePermission_def Let_def assms(1))
qed

definition sample_env :: environment where
  "sample_env = \<lparr>env_cli = [], env_host = \<lparr>homedir = js ''/h'', process_cwd = js ''/w'', realpath = (\<lambda>_. None)\<rparr>,
     env_session = js ''s'', env_cwd = js ''/w''\<rparr>"

definition bash_call :: "string \<Rightarrow> call" where
  "bash_call command =
     \<lparr>call_tool = js ''bash'', call_input = [(js ''command'', JStr (js command))], call_ui = None\<rparr>"

lemma bash_requests:
  "call_requests sample_env (bash_call command) =
    parseBashLikePermission (js ''command'') (env_host sample_env) [(js ''command'', JStr (js command))] (js ''/w'')"
  by (simp add: call_requests_def bash_call_def parse_call_def sample_env_def)

theorem bash_request_prefix_witness:
  "patterns (hd (parse_call (env_host sample_env) (js ''bash'') [(js ''command'', JStr (js ''ls''))] (js ''/w''))) = [js ''ls'']"
proof -
  have "getString [(js ''command'', JStr (js ''ls''))] [js ''command''] = Some (js ''ls'')"
    by (simp add: getString_def get_def List.map_filter_simps)
  from bash_request_prefix [OF this, of "env_host sample_env" "js ''/w''"] obtain k where
    "hd (parse_call (env_host sample_env) (js ''bash'') [(js ''command'', JStr (js ''ls''))] (js ''/w'')) =
      (let prefix = join (js '' '') (take k (command_words (js ''ls'')))
       in if prefix \<noteq> [] then request (js ''bash'') [prefix] [prefix, prefix @ js '' *'']
          else request (js ''bash'') [js ''ls''] [js ''*''])" by (auto simp: js_def)
  moreover have "command_words (js ''ls'') = [js ''ls'']" by (simp add: command_words_def js_def is_space_def)
  ultimately show ?thesis by (cases k) (simp_all add: Let_def request_def js_def)
qed

text \<open>The example of the manual, \<open>workspace\<close> with \<open>"bash": {"rm *": "deny"}\<close>: the rule stops \<open>rm\<close> alone, but not
  behind another command; and a rule that names an option never stops anything.\<close>

definition deny_rm :: "string \<Rightarrow> Ruleset" where
  "deny_rm pat = rulesForPreset FullAccess @ rulesForPreset Workspace @ [rule (js ''bash'') (js pat) deny]"

lemma workspace_bash:
  "verdict (js ''bash'') v [deny_rm pat] = (if matchesPattern v (js pat) then deny else allow)"
  by (simp add: deny_rm_def verdict_def evaluate_def rule_matches_def rule_def match_literal js_def matchesPattern_def)

lemma single_request:
  assumes "call_requests env c = [request p [pat] alw]" and "call_ui c = None" and "verdict p pat [static] = allow"
  shows "snd (snd (tool_call env c (0, new_service static []))) = Proceeds"
  using assms(3) by (simp add: fresh_call assms(1,2) free_def verdict_new) (simp add: js_def)

lemma chained_words: "command_words (js ''ls;rm x'') = [js ''ls;rm'', js ''x'']"
    "command_words (js ''rm -rf x'') = [js ''rm'', js ''-rf'', js ''x'']"
  by (simp_all add: command_words_def js_def is_space_def)

lemma chained_prefix: "BashArity_prefix [js ''ls;rm'', js ''x''] = [js ''ls;rm'']"
  unfolding BashArity_prefix_def by (simp add: arity_of_def ARITY_def object_members_def js_def)

lemma option_prefix: "BashArity_prefix [js ''rm'', js ''-rf'', js ''x''] = [js ''rm'']"
  unfolding BashArity_prefix_def by (simp add: arity_of_def ARITY_def object_members_def js_def)

lemma tokens:
  "tokenizeCommand (js ''ls;rm x'') = [js ''ls;rm'', js ''x'']"
  "tokenizeCommand (js ''rm -rf x'') = [js ''rm'', js ''-rf'', js ''x'']"
  by (simp_all add: tokenizeCommand_def js_def)

lemma plain_words: "unquote (js ''ls;rm'') = js ''ls;rm''" "unquote (js ''rm'') = js ''rm''" "unquote (js ''-rf'') = js ''-rf''"
  "unquote (js ''x'') = js ''x''" "plain_command (js ''ls;rm'')" "plain_command (js ''rm'')"
  "\<not> looksLikePath (js ''-rf'')" "\<not> looksLikePath (js ''x'')"
  by (simp_all add: unquote_def plain_command_def looksLikePath_def js_def)

lemma no_paths: "extractExternalPaths h (js ''ls;rm x'') cwd = []" "extractExternalPaths h (js ''rm -rf x'') cwd = []"
  by (simp_all add: extractExternalPaths_def tokens plain_words)

lemma getString_command: "getString [(js ''command'', JStr s)] [js ''command''] = Some s"
  by (simp add: getString_def get_def List.map_filter_simps)

theorem rules_miss_commands:
  "snd (snd (tool_call sample_env (bash_call ''rm -rf x'') (0, new_service (deny_rm ''rm *'') []))) = Blocks (Denied [js ''rm'']) \<and>
   snd (snd (tool_call sample_env (bash_call ''ls;rm x'') (0, new_service (deny_rm ''rm *'') []))) = Proceeds \<and>
   snd (snd (tool_call sample_env (bash_call ''rm -rf x'') (0, new_service (deny_rm ''rm -rf *'') []))) = Proceeds"
proof -
  have r: "call_requests sample_env (bash_call ''ls;rm x'') = [request (js ''bash'') [js ''ls;rm''] [js ''ls;rm'', js ''ls;rm *'']]"
    "call_requests sample_env (bash_call ''rm -rf x'') = [request (js ''bash'') [js ''rm''] [js ''rm'', js ''rm *'']]"
    unfolding bash_requests parseBashLikePermission_def Let_def getString_command option.sel chained_words chained_prefix option_prefix no_paths
    by (simp_all add: external_request_def truthy_def js_def)
  have ui: "call_ui (bash_call s) = None" for s by (simp add: bash_call_def)
  have m: "matchesPattern (js ''rm'') (js ''rm *'')" "\<not> matchesPattern (js ''ls;rm'') (js ''rm *'')"
    "\<not> matchesPattern (js ''rm'') (js ''rm -rf *'')"
    by (simp_all add: matchesPattern_def Wildcard_match_glob ends_with_def js_def glob_unit glob_star)
  have "denied_patterns (new_service (deny_rm ''rm *'') []) (full_request a k (request (js ''bash'') [js ''rm''] alw)) = [js ''rm'']" for a k alw
    by (simp add: denied_patterns_def verdict_new workspace_bash m)
  moreover have "\<not> free (new_service (deny_rm ''rm *'') []) (full_request a k (request (js ''bash'') [js ''rm''] alw))" for a k alw
    by (simp add: free_def verdict_new workspace_bash m)
  ultimately show ?thesis
    using single_request [OF r(1) ui, of "deny_rm ''rm *''"] single_request [OF r(2) ui, of "deny_rm ''rm -rf *''"] m
    by (simp add: fresh_call ui r unattended_def workspace_bash)
qed

theorem tool_call_decided_witness:
  "\<exists>n s. tool_call sample_env (bash_call ''rm -rf x'') (session_state sample_env (deny_rm ''rm *'') [] []) = (n, s, Blocks (Denied [js ''rm''])) \<and>
     (\<exists>q :: Request. (req_id q, Denied [js ''rm'']) \<in> set (settlements s))"
proof -
  have st: "session_state sample_env (deny_rm ''rm *'') [] [] = (0, new_service (deny_rm ''rm *'') [])"
    by (simp add: session_state_def run_calls_def)
  obtain n s where call: "tool_call sample_env (bash_call ''rm -rf x'') (session_state sample_env (deny_rm ''rm *'') [] []) =
      (n, s, Blocks (Denied [js ''rm'']))"
    using rules_miss_commands unfolding st by (metis prod.collapse)
  from tool_call_decided [OF call] obtain q :: Request where "(req_id q, Denied [js ''rm'']) \<in> set (settlements s)" by auto
  then show ?thesis using call by blast
qed

section \<open>Calls nobody answers\<close>

text \<open>The second path of this command needs an answer, the first is allowed by a rule.\<close>

definition allow_tmp :: Ruleset where
  "allow_tmp = rulesForPreset FullAccess @ rulesForPreset Workspace @ [rule (js ''external_directory'') (js ''/tmp/*'') allow]"

lemma cat_words: "command_words (js ''cat /tmp/a /b'') = [js ''cat'', js ''/tmp/a'', js ''/b'']"
  "tokenizeCommand (js ''cat /tmp/a /b'') = [js ''cat'', js ''/tmp/a'', js ''/b'']"
  by (simp_all add: command_words_def tokenizeCommand_def js_def is_space_def)

lemma cat_prefix: "BashArity_prefix [js ''cat'', js ''/tmp/a'', js ''/b''] = [js ''cat'']"
  unfolding BashArity_prefix_def by (simp add: arity_of_def ARITY_def object_members_def js_def)

lemma outside: "isExternalPath (env_host sample_env) (js ''/tmp/a'') (js ''/w'')" "isExternalPath (env_host sample_env) (js ''/b'') (js ''/w'')"
  by (simp_all add: isExternalPath_def target_path_def sample_env_def normalizePath_def expandHome_def isAbsolute_def js_def
    path_normalize_def normalizeString_def Let_def ends_with_def)

lemma cat_paths: "extractExternalPaths (env_host sample_env) (js ''cat /tmp/a /b'') (js ''/w'') = [js ''/tmp/a'', js ''/b'']"
proof -
  have "unquote (js ''cat'') = js ''cat''" "unquote (js ''/tmp/a'') = js ''/tmp/a''" "unquote (js ''/b'') = js ''/b''"
    "plain_command (js ''cat'')" by (simp_all add: unquote_def plain_command_def js_def)
  moreover have "looksLikePath (js ''/tmp/a'')" "looksLikePath (js ''/b'')"
    by (simp_all add: looksLikePath_def is_assignment_def name_start_def shell_operators_def js_def)
  ultimately show ?thesis by (simp add: extractExternalPaths_def cat_words outside)
qed

theorem unattended_call_witness:
  "snd (snd (tool_call sample_env (bash_call ''cat /tmp/a /b'') (session_state sample_env allow_tmp [] []))) = Hangs"
proof -
  have r: "\<exists>a1 a2. call_requests sample_env (bash_call ''cat /tmp/a /b'') =
      [request (js ''bash'') [js ''cat''] a1, request (js ''external_directory'') [js ''/tmp/a'', js ''/b''] a2]"
    unfolding bash_requests parseBashLikePermission_def Let_def getString_command option.sel cat_words cat_prefix cat_paths
    by (auto simp: external_request_def truthy_def js_def)
  then obtain a1 a2 where r: "call_requests sample_env (bash_call ''cat /tmp/a /b'') =
      [request (js ''bash'') [js ''cat''] a1, request (js ''external_directory'') [js ''/tmp/a'', js ''/b''] a2]" by blast
  have v: "verdict (js ''bash'') (js ''cat'') [allow_tmp] = allow" "verdict (js ''external_directory'') (js ''/tmp/a'') [allow_tmp] = allow"
    "verdict (js ''external_directory'') (js ''/b'') [allow_tmp] = ask_user"
    by (simp_all add: allow_tmp_def verdict_def evaluate_def rule_matches_def rule_def match_literal js_def matchesPattern_def
      ends_with_def Wildcard_match_glob glob_unit glob_star_last)
  have st: "session_state sample_env allow_tmp [] [] = (0, new_service allow_tmp [])" by (simp add: session_state_def run_calls_def)
  have no: "allow \<noteq> deny" "allow \<noteq> ask_user" "ask_user \<noteq> deny" by (simp_all add: js_def)
  have ui: "call_ui (bash_call ''cat /tmp/a /b'') = None" by (simp add: bash_call_def)
  have "handleNoUI (full_request a k (request (js ''external_directory'') [js ''/tmp/a'', js ''/b''] alw)) allow_tmp [] = None" for a k alw
    using v(2) no by (simp add: handleNoUI_def Let_def verdict_snoc)
  moreover have "env_cli sample_env = []" "staticRuleset (new_service allow_tmp []) = allow_tmp"
    by (simp_all add: sample_env_def new_service_def)
  ultimately show ?thesis
    using unattended_call [OF ui, of sample_env allow_tmp "[]" "[]"] no
    by (simp add: st r free_def verdict_new v unattended_def denied_patterns_def)
qed

section \<open>Rules that do not do what they say\<close>

text \<open>An action that is no action lets a call through without asking.\<close>

lemma unknown_action_allows:
  assumes "act \<noteq> deny" and "act \<noteq> ask_user"
  shows "free (new_service (rulesForPreset AskPreset @ [rule (js ''bash'') (js ''*'') act]) []) (full_request a k (request (js ''bash'') [pat] alw))"
proof -
  have "verdict (js ''bash'') pat [rulesForPreset AskPreset @ [rule (js ''bash'') (js ''*'') act]] = act"
    by (simp add: verdict_def evaluate_def rule_matches_def rule_def match_literal js_def matchesPattern_def)
  then show ?thesis using assms by (simp add: free_def verdict_new)
qed

text \<open>A path with a shell operator behind it is no path, so it needs no permission.\<close>

lemma attached_operator_hides_path:
  "extractExternalPaths h (js ''cat /etc/passwd; ls'') cwd = []"
proof -
  have "tokenizeCommand (js ''cat /etc/passwd; ls'') = [js ''cat'', js ''/etc/passwd;'', js ''ls'']"
    by (simp add: tokenizeCommand_def js_def)
  moreover have "unquote (js ''cat'') = js ''cat''" "unquote (js ''/etc/passwd;'') = js ''/etc/passwd;''" "unquote (js ''ls'') = js ''ls''"
    "plain_command (js ''cat'')" by (simp_all add: unquote_def plain_command_def js_def)
  moreover have "\<not> looksLikePath (js ''/etc/passwd;'')" "\<not> looksLikePath (js ''ls'')"
    by (simp_all add: looksLikePath_def shell_operators_def js_def)
  ultimately show ?thesis by (simp add: extractExternalPaths_def)
qed

text \<open>Paths are compared as they are written: the example \<open>"edit": {"secrets/*": "ask"}\<close> of the manual does not
  ask for \<open>./secrets/key\<close>.\<close>

lemma spelling_avoids_rule:
  defines "static \<equiv> rulesForPreset FullAccess @ rulesForPreset Workspace @ [rule (js ''edit'') (js ''secrets/*'') ask_user]"
  shows "verdict (js ''edit'') (js ''secrets/key'') [static] = ask_user \<and> verdict (js ''edit'') (js ''./secrets/key'') [static] = allow"
  by (simp add: static_def verdict_def evaluate_def rule_matches_def rule_def match_literal js_def matchesPattern_def
      ends_with_def Wildcard_match_glob glob_unit glob_star_last)

text \<open>The tools \<open>find\<close> and \<open>ls\<close> ask for \<open>list\<close>, but are looked up by their own names when tools are disabled.\<close>

lemma list_tools_disabled:
  defines "static \<equiv> [rule (js ''*'') (js ''*'') deny, rule (js ''list'') (js ''*'') allow]"
  shows "disabled [js ''ls''] static = [js ''ls''] \<and> verdict (js ''list'') pat [static] = allow"
  by (simp add: static_def disabled_def is_disabled_def tool_permission_def EDIT_TOOLS_def verdict_def evaluate_def
      rule_matches_def rule_def match_literal js_def matchesPattern_def)

text \<open>An approval comes behind the configured rules, so it takes a configured denial back.\<close>

lemma approval_overrides_denial:
  defines "static \<equiv> [rule (js ''grep'') (js ''*'') ask_user, rule (js ''grep'') (js ''secrets'') deny]"
  shows "verdict (js ''grep'') (js ''secrets'') [static, []] = deny \<and>
    verdict (js ''grep'') (js ''secrets'') [static, [rule (js ''grep'') (js ''*'') allow]] = allow"
  by (simp add: static_def verdict_def evaluate_def rule_matches_def rule_def match_literal js_def matchesPattern_def)

end
