(* ===== verification/PermStorage.thy ===== *)
theory PermStorage
  imports PermRules "HOL-Library.AList"
begin

text \<open>
  The file of approved rules (\<open>storage.ts\<close> of the permission system): one JSON text per line, appended at
  the end of a session, loaded at the start of the next, and compacted. The file is \<open>None\<close> when it
  does not exist; \<open>JSON.parse\<close> and \<open>JSON.stringify\<close> are the arguments \<open>parse\<close> and \<open>stringify\<close>.
\<close>

definition approved_lines :: "jstr \<Rightarrow> jstr list" where
  "approved_lines content = filter (\<lambda>line. trim line \<noteq> []) (split_on LF content)"

definition loadApproved :: "(jstr \<Rightarrow> Rule option) \<Rightarrow> jstr option \<Rightarrow> Ruleset" where
  "loadApproved parse file = (case file of None \<Rightarrow> [] | Some content \<Rightarrow> List.map_filter parse (approved_lines content))"

definition appendApproved :: "(Rule \<Rightarrow> jstr) \<Rightarrow> Ruleset \<Rightarrow> jstr option \<Rightarrow> jstr option" where
  "appendApproved stringify rules file =
     (if rules = [] then file
      else Some ((case file of None \<Rightarrow> [] | Some content \<Rightarrow> content) @ join [LF] (map stringify rules) @ [LF]))"

definition clearApproved :: "jstr option \<Rightarrow> jstr option" where
  "clearApproved file = None"

definition rule_key :: "Rule \<Rightarrow> jstr" where
  "rule_key r = rule_permission r @ js '':'' @ rule_pattern r"

text \<open>\<open>Map.set\<close> replaces the value at its first place.\<close>

definition unique_rules :: "Ruleset \<Rightarrow> Ruleset" where
  "unique_rules rules = map snd (fold (\<lambda>r seen. AList.update (rule_key r) r seen) rules [])"

definition compactApproved :: "(jstr \<Rightarrow> Rule option) \<Rightarrow> (Rule \<Rightarrow> jstr) \<Rightarrow> jstr option \<Rightarrow> jstr option" where
  "compactApproved parse stringify file =
     (case file of None \<Rightarrow> None
      | Some content \<Rightarrow>
          (let lines = join [LF] (map stringify (unique_rules (loadApproved parse (Some content))))
           in Some (if lines \<noteq> [] then lines @ [LF] else [])))"

section \<open>What is appended is loaded\<close>

text \<open>What the file relies on: a rule is written on a line of its own and read back from it.\<close>

definition line_format :: "(jstr \<Rightarrow> Rule option) \<Rightarrow> (Rule \<Rightarrow> jstr) \<Rightarrow> bool" where
  "line_format parse stringify \<longleftrightarrow>
     (\<forall>r. parse (stringify r) = Some r \<and> LF \<notin> set (stringify r) \<and> trim (stringify r) \<noteq> [])"

lemma approved_lines_append: "approved_lines (content @ [LF] @ s) = approved_lines content @ approved_lines s"
  by (simp add: approved_lines_def split_on_middle)

lemma approved_lines_written:
  assumes "line_format parse stringify"
  shows "List.map_filter parse (approved_lines (join [LF] (map stringify rules) @ [LF])) = rules"
proof (induction rules rule: induct_list012)
  case 1
  then show ?case by (simp add: approved_lines_def trim_def List.map_filter_simps)
next
  case (2 r)
  have "approved_lines (stringify r @ [LF] @ []) = [stringify r]"
    unfolding approved_lines_append using assms by (simp add: approved_lines_def line_format_def split_on_none trim_def)
  then show ?case using assms by (simp add: line_format_def List.map_filter_simps)
next
  case (3 r r' rules)
  have "approved_lines (stringify r @ [LF] @ join [LF] (map stringify (r' # rules)) @ [LF]) =
      stringify r # approved_lines (join [LF] (map stringify (r' # rules)) @ [LF])"
    unfolding approved_lines_append [of "stringify r"] using assms by (simp add: approved_lines_def line_format_def split_on_none)
  then show ?case using assms 3(2) by (simp add: line_format_def List.map_filter_simps)
qed

lemma load_append:
  assumes "line_format parse stringify" and "file = None \<or> (\<exists>content. file = Some (content @ [LF]))"
  shows "loadApproved parse (appendApproved stringify rules file) = loadApproved parse file @ rules"
    "appendApproved stringify rules file = None \<or> (\<exists>content. appendApproved stringify rules file = Some (content @ [LF]))"
proof -
  show "loadApproved parse (appendApproved stringify rules file) = loadApproved parse file @ rules"
  proof (cases "rules = []")
    case False
    have mf: "List.map_filter parse (xs @ ys) = List.map_filter parse xs @ List.map_filter parse ys" for xs ys
      by (simp add: List.map_filter_def)
    have "approved_lines (content @ [LF] @ s @ [LF]) = approved_lines (content @ [LF]) @ approved_lines (s @ [LF])" for content s
      using approved_lines_append [of content "s @ [LF]"] approved_lines_append [of content "[]"]
      by (simp add: approved_lines_def trim_def)
    then show ?thesis using assms(2) False approved_lines_written [OF assms(1), of rules]
      by (auto simp: loadApproved_def appendApproved_def mf)
  qed (simp add: appendApproved_def)
  show "appendApproved stringify rules file = None \<or> (\<exists>content. appendApproved stringify rules file = Some (content @ [LF]))"
    using assms(2) by (auto simp: appendApproved_def)
qed

text \<open>The approvals that sessions append one after the other are the rules that the next one loads, in
  their order.\<close>

theorem approvals_persist:
  assumes "line_format parse stringify"
  shows "loadApproved parse (fold (appendApproved stringify) batches None) = concat batches"
proof -
  have "f = None \<or> (\<exists>content. f = Some (content @ [LF])) \<Longrightarrow>
      loadApproved parse (fold (appendApproved stringify) batches f) = loadApproved parse f @ concat batches" for f
  proof (induction batches arbitrary: f)
    case (Cons b bs)
    show ?case using Cons.IH [OF load_append(2) [OF assms Cons.prems]] load_append(1) [OF assms Cons.prems] by simp
  qed simp
  from this [of None] show ?thesis by (simp add: loadApproved_def)
qed

section \<open>Compaction\<close>

definition all_allow :: "Ruleset \<Rightarrow> bool" where
  "all_allow rules \<longleftrightarrow> (\<forall>r\<in>set rules. rule_action r = allow \<and> 58 \<notin> set (rule_permission r))"

lemma rule_key_inject:
  assumes "58 \<notin> set (rule_permission r)" "58 \<notin> set (rule_permission r')" "rule_key r = rule_key r'"
  shows "rule_permission r = rule_permission r' \<and> rule_pattern r = rule_pattern r'"
proof -
  have "split_on 58 (rule_permission r @ 58 # rule_pattern r) = split_on 58 (rule_permission r' @ 58 # rule_pattern r')"
    using assms(3) by (simp add: rule_key_def js_def)
  then have "rule_permission r = rule_permission r'" using split_on_append assms(1,2) by simp
  then show ?thesis using assms(3) by (simp add: rule_key_def)
qed

lemma same_key:
  "all_allow rules \<Longrightarrow> r \<in> set rules \<Longrightarrow> r' \<in> set rules \<Longrightarrow> rule_key r = rule_key r' \<Longrightarrow> r = r'"
  using rule_key_inject [of r r'] by (auto simp: all_allow_def)

lemma keyed_update:
  assumes "\<forall>k x. M k = Some x \<longrightarrow> key x = k \<and> x \<in> set rs" and "\<forall>x\<in>set rs. M (key x) = Some x"
    and "\<And>x. x \<in> set rs \<Longrightarrow> key x = key r \<Longrightarrow> x = r"
  shows "(\<forall>k x. (M(key r \<mapsto> r)) k = Some x \<longrightarrow> key x = k \<and> x \<in> set (rs @ [r])) \<and>
    (\<forall>x\<in>set (rs @ [r]). (M(key r \<mapsto> r)) (key x) = Some x)"
  using assms by auto

lemma unique_rules_set:
  assumes "all_allow rules"
  shows "set (unique_rules rules) = set rules"
proof -
  define seen where "seen rs = fold (\<lambda>r seen. AList.update (rule_key r) r seen) rs []" for rs
  have inv: "set rs \<subseteq> set rules \<Longrightarrow> distinct (map fst (seen rs)) \<and>
      (\<forall>k x. map_of (seen rs) k = Some x \<longrightarrow> rule_key x = k \<and> x \<in> set rs) \<and> (\<forall>x\<in>set rs. map_of (seen rs) (rule_key x) = Some x)" for rs
  proof (induction rs rule: rev_induct)
    case Nil
    then show ?case by (simp add: seen_def)
  next
    case (snoc r rs)
    have sub: "set rs \<subseteq> set rules" "r \<in> set rules" using snoc.prems by auto
    note all = snoc.IH [OF sub(1)]
    have next_seen: "seen (rs @ [r]) = AList.update (rule_key r) r (seen rs)" by (simp add: seen_def)
    have same: "x = r" if "x \<in> set rs" "rule_key x = rule_key r" for x
      using same_key [OF assms, of x r] that sub by blast
    have d: "distinct (map fst (seen (rs @ [r])))" unfolding next_seen using all by (intro distinct_update) blast
    have m: "map_of (seen (rs @ [r])) = (map_of (seen rs))(rule_key r \<mapsto> r)"
      unfolding next_seen by (rule update_conv')
    note kept = keyed_update [OF conjunct1 [OF conjunct2 [OF all]] conjunct2 [OF conjunct2 [OF all]] same]
    show ?case unfolding m by (rule conjI [OF d kept])
  qed
  have "set (map snd (seen rules)) = ran (map_of (seen rules))" using inv [of rules] by (simp add: ran_distinct)
  moreover have "ran (map_of (seen rules)) = set rules" using inv [of rules] unfolding ran_def by blast
  ultimately show ?thesis by (simp add: unique_rules_def seen_def)
qed

text \<open>When every action is decided by whether some rule matches, only the set of the rules matters.\<close>

lemma verdict_allow:
  assumes "\<forall>r\<in>set rules. rule_action r = allow"
  shows "verdict perm pat [static, rules] =
    (if \<exists>r\<in>set rules. rule_matches perm pat r then allow else verdict perm pat [static])"
proof (cases "find (rule_matches perm pat) (rev rules)")
  case None
  then have "\<not> (\<exists>r\<in>set rules. rule_matches perm pat r)" by (auto simp: find_None_iff)
  then show ?thesis using None by (simp add: verdict_def evaluate_def find_append)
next
  case (Some r)
  then have "r \<in> set rules" "rule_matches perm pat r" by (auto simp: find_Some_iff rev_nth dest: nth_mem)
  then show ?thesis using assms Some by (auto simp: verdict_def evaluate_def find_append)
qed

text \<open>Sessions that append their approvals one after the other leave them all for the next session, in
  their order; and compacting a file of rules that allow, for permissions without a colon, changes no
  verdict.\<close>

theorem approvals_kept:
  assumes "line_format parse stringify" and "all_allow (concat batches)"
  defines "f \<equiv> fold (appendApproved stringify) batches None"
  shows "loadApproved parse f = concat batches \<and>
    verdict perm pat [static, loadApproved parse (compactApproved parse stringify f)] = verdict perm pat [static, loadApproved parse f]"
proof -
  have l: "loadApproved parse f = concat batches" unfolding f_def by (rule approvals_persist [OF assms(1)])
  let ?u = "unique_rules (concat batches)"
  have u: "set ?u = set (concat batches)" by (rule unique_rules_set [OF assms(2)])
  have "loadApproved parse (compactApproved parse stringify f) = (if f = None then [] else ?u)"
  proof (cases f)
    case (Some content)
    have "List.map_filter parse (approved_lines (join [LF] (map stringify ?u) @ [LF])) = ?u"
      by (rule approved_lines_written [OF assms(1)])
    moreover have "List.map_filter parse (approved_lines []) = ?u" if "join [LF] (map stringify ?u) = []"
    proof (cases ?u)
      case (Cons r rs)
      then have "stringify r = []" using that by (cases rs) auto
      then show ?thesis using assms(1) by (simp add: line_format_def trim_def) (metis list.size(3) trim_def trim_start_id trim_end_id)
    qed (simp add: approved_lines_def trim_def List.map_filter_simps)
    ultimately show ?thesis using l Some by (auto simp: compactApproved_def loadApproved_def Let_def)
  qed (simp add: compactApproved_def loadApproved_def)
  moreover have "f = None \<Longrightarrow> concat batches = []" using l by (simp add: loadApproved_def)
  ultimately have "set (loadApproved parse (compactApproved parse stringify f)) = set (concat batches)" using u by auto
  then have "verdict perm pat [static, loadApproved parse (compactApproved parse stringify f)] = verdict perm pat [static, concat batches]"
    using assms(2) by (subst (1 2) verdict_allow) (auto simp: all_allow_def)
  then show ?thesis using l by simp
qed

text \<open>A format of lines, to see that there is one: the units of the fields moved by 100, between marks.\<close>

definition sample_line :: "Rule \<Rightarrow> jstr" where
  "sample_line r = 99 # map (\<lambda>u. u + 100) (rule_permission r) @ 50 # map (\<lambda>u. u + 100) (rule_pattern r) @
     50 # map (\<lambda>u. u + 100) (rule_action r) @ [99]"

definition sample_parse :: "jstr \<Rightarrow> Rule option" where
  "sample_parse s = (case split_on 50 (butlast (tl s)) of
     [a, b, c] \<Rightarrow> Some (rule (map (\<lambda>u. u - 100) a) (map (\<lambda>u. u - 100) b) (map (\<lambda>u. u - 100) c)) | _ \<Rightarrow> None)"

lemma sample_format: "line_format sample_parse sample_line"
proof -
  have "trim (sample_line r) = sample_line r" for r
    by (rule trim_trimmed) (simp add: trimmed_def sample_line_def is_space_def)
  moreover have "sample_parse (sample_line r) = Some r" for r
    by (simp add: sample_parse_def sample_line_def split_on_append split_on_none butlast_append rule_def comp_def image_iff)
  ultimately show ?thesis by (auto simp: line_format_def sample_line_def)
qed

theorem approvals_kept_witness:
  "loadApproved sample_parse (fold (appendApproved sample_line)
     [[rule (js ''read'') (js ''a'') allow], [rule (js ''bash'') (js ''ls'') allow]] None) =
   [rule (js ''read'') (js ''a'') allow, rule (js ''bash'') (js ''ls'') allow]"
  using approvals_kept [OF sample_format,
    of "[[rule (js ''read'') (js ''a'') allow], [rule (js ''bash'') (js ''ls'') allow]]"]
  by (simp add: all_allow_def rule_def js_def)

text \<open>With other actions the place of a rule matters, and it is that of its first occurrence.\<close>

lemma compaction_reorders:
  defines "rules \<equiv> [rule (js ''bash'') (js ''ls'') allow, rule (js ''bash'') (js ''*'') deny, rule (js ''bash'') (js ''ls'') allow]"
  shows "verdict (js ''bash'') (js ''ls'') [rules] = allow \<and> verdict (js ''bash'') (js ''ls'') [unique_rules rules] = deny"
  by (simp add: rules_def unique_rules_def rule_key_def verdict_def evaluate_def rule_matches_def rule_def match_literal js_def matchesPattern_def)

end
