(* ===== verification/PermSession.thy ===== *)
theory PermSession
  imports PermPolicy PermStorage
begin

text \<open>
  A session of the permission system from its start to its shutdown (\<open>index.ts\<close>): the approvals it
  starts with are those of the file, and the ones it collected go back to the file.
\<close>

text \<open>What a session is started with: the settings of both files, the flags, the tools there are and the
  active ones.\<close>

record session_input =
  in_home :: jstr
  in_global :: permission_settings
  in_project :: permission_settings
  in_flag :: "jstr option"
  in_preset_flag :: "jstr option"
  in_all_tools :: "jstr list"
  in_active_tools :: "jstr list"

record session =
  ses_service :: service
  ses_cli :: Ruleset
  ses_initial :: nat
  ses_tools :: "jstr list"

datatype start_error = InvalidPresetFlag jstr | InvalidPresetSetting

definition cli_rules :: "session_input \<Rightarrow> Ruleset" where
  "cli_rules inp = (case in_flag inp of None \<Rightarrow> [] | Some v \<Rightarrow> parsePermissionFlag v)"

definition session_start ::
  "(jstr \<Rightarrow> Rule option) \<Rightarrow> session_input \<Rightarrow> jstr option \<Rightarrow> start_error + session" where
  "session_start parse inp f =
     (let cliRuleset = cli_rules inp;
          cliPreset = Option.bind (in_preset_flag inp) parsePermissionPresetFlag
      in if in_preset_flag inp \<noteq> None \<and> cliPreset = None then Inl (InvalidPresetFlag (the (in_preset_flag inp)))
         else case loadPermissionSettings (in_home inp) (in_global inp) (in_project inp) cliRuleset cliPreset of
             None \<Rightarrow> Inl InvalidPresetSetting
           | Some static \<Rightarrow>
               let loaded = loadApproved parse f;
                   disabledTools = disabled (in_all_tools inp) static
               in Inr \<lparr>ses_service = new_service static loaded, ses_cli = cliRuleset, ses_initial = length loaded,
                       ses_tools = filter (\<lambda>t. t \<notin> set disabledTools) (in_active_tools inp)\<rparr>)"

definition session_shutdown ::
  "(Rule \<Rightarrow> jstr) \<Rightarrow> nat \<Rightarrow> service \<Rightarrow> jstr option \<Rightarrow> service \<times> jstr option" where
  "session_shutdown stringify initialApprovedCount s f =
     (let new = drop initialApprovedCount (approved s);
          f' = (if length new > 0 then appendApproved stringify new f else f)
      in (fold (\<lambda>q. reply \<lparr>requestID = req_id q, reply_of = Reject, message = None\<rparr>) (pending s) s, f'))"

section \<open>Approvals only grow\<close>

definition approvals_grow :: "service \<Rightarrow> service \<Rightarrow> bool" where
  "approvals_grow s t \<longleftrightarrow> (\<exists>rules. approved t = approved s @ rules)"

lemma grow_refl: "approvals_grow s s"
  by (simp add: approvals_grow_def)

lemma grow_trans: "approvals_grow s t \<Longrightarrow> approvals_grow t u \<Longrightarrow> approvals_grow s u"
  by (auto simp: approvals_grow_def)

lemma grow_op: "distinct_pending s \<Longrightarrow> approvals_grow s (service_step op s)"
  using approved_step [of s op] by (auto simp: approvals_grow_def)

lemma grow_request:
  assumes "new_id (req_id q) s" and "distinct_pending s"
  shows "approvals_grow s (fst (handle_request ui cli q s))"
proof -
  have a: "approvals_grow s (ask q s)" using grow_op [OF assms(2), of "Ask q"] by simp
  have "approvals_grow (ask q s) (reply i (ask q s))" for i
    using grow_op [OF asked_distinct [OF assms], of "ReplyTo i"] by simp
  then show ?thesis using a
    by (auto simp: handle_request_def Let_def answer_def intro: grow_trans split: option.splits)
qed

lemma grow_requests:
  "handler_ok (n, s) \<Longrightarrow> handle_requests ui cli session n rs s = (n', s', r) \<Longrightarrow> approvals_grow s s'"
proof (induction rs arbitrary: n s)
  case (Cons p rs)
  let ?q = "full_request session (n + 1) p"
  note step = handle_ok_step [OF Cons.prems(1)]
  have g: "approvals_grow s (fst (handle_request ui cli ?q s))" using step(2,3) by (intro grow_request) simp_all
  obtain s1 r1 where run: "handle_request ui cli ?q s = (s1, r1)" by fastforce
  then have "handler_ok (n + 1, s1)" using step(1) [of ui cli session p] by simp
  then show ?case using Cons.IH [of "n + 1" s1] Cons.prems(2) run g by (cases r1) (auto intro: grow_trans)
qed (simp add: grow_refl)

lemma grow_session: "approvals_grow (new_service static app) (snd (session_state env static app calls))"
proof -
  have run: "handler_ok st \<Longrightarrow> approvals_grow (snd st) (snd (run_calls env calls st))" for st
  proof (induction calls arbitrary: st)
    case (Cons c calls)
    obtain n s r where run: "tool_call env c st = (n, s, r)" by (metis prod_cases3)
    then have call: "handle_requests (call_ui c) (env_cli env) (env_session env) (fst st) (call_requests env c) (snd st) = (n, s, r)"
      by (simp add: tool_call_def)
    have st: "handler_ok (fst st, snd st)" using Cons.prems by simp
    have "handler_ok (n, s)" by (rule handle_requests_ok [OF st call])
    moreover have "approvals_grow (snd st) s" by (rule grow_requests [OF st call])
    ultimately show ?case using Cons.IH [of "(n, s)"] run by (auto simp: run_calls_def intro: grow_trans)
  qed (simp add: run_calls_def grow_refl)
  have "handler_ok (0, new_service static app)"
    using session_ok [of env static app "[]"] by (simp add: session_state_def run_calls_def)
  from run [OF this] show ?thesis by (simp add: session_state_def)
qed

section \<open>Nothing stays open\<close>

lemma reply_shrinks:
  assumes "distinct_pending s"
  shows "set (pending (reply i s)) \<subseteq> {q \<in> set (pending s). req_id q \<noteq> requestID i}" "distinct_pending (reply i s)"
proof -
  have "set (pending (reply i s)) \<subseteq> {q \<in> set (pending s). req_id q \<noteq> requestID i} \<and> distinct_pending (reply i s)"
  proof (cases "find (\<lambda>q. req_id q = requestID i) (pending s)")
    case None
    then show ?thesis using assms by (auto simp: reply_unknown find_None_iff)
  next
    case (Some q)
    then have "req_id q = requestID i" by (auto simp: find_Some_iff)
    then show ?thesis using reply_cases [OF assms Some] assms
      by (auto simp: distinct_pending_def intro!: distinct_map_filter)
  qed
  then show "set (pending (reply i s)) \<subseteq> {q \<in> set (pending s). req_id q \<noteq> requestID i}" "distinct_pending (reply i s)"
    by simp_all
qed

lemma all_rejected:
  "distinct_pending s \<Longrightarrow> set (pending s) \<subseteq> set qs \<Longrightarrow>
   pending (fold (\<lambda>q. reply \<lparr>requestID = req_id q, reply_of = Reject, message = None\<rparr>) qs s) = []"
proof (induction qs arbitrary: s)
  case (Cons q qs)
  let ?i = "\<lparr>requestID = req_id q, reply_of = Reject, message = None\<rparr>"
  have "set (pending (reply ?i s)) \<subseteq> set qs" using reply_shrinks(1) [OF Cons.prems(1), of ?i] Cons.prems(2) by auto
  then show ?case using Cons.IH reply_shrinks(2) [OF Cons.prems(1)] by simp
qed simp

lemma approved_new: "approved (new_service static app) = app"
  by (simp add: new_service_def)

lemma started:
  assumes "session_start parse inp f = Inr se"
  obtains static where "ses_service se = new_service static (loadApproved parse f)"
    "ses_initial se = length (loadApproved parse f)"
    "\<And>f'. \<exists>se'. session_start parse inp f' = Inr se' \<and> ses_service se' = new_service static (loadApproved parse f')"
proof -
  obtain static where
    "loadPermissionSettings (in_home inp) (in_global inp) (in_project inp) (cli_rules inp)
       (Option.bind (in_preset_flag inp) parsePermissionPresetFlag) = Some static"
    "in_preset_flag inp = None \<or> Option.bind (in_preset_flag inp) parsePermissionPresetFlag \<noteq> None"
    using assms by (auto simp: session_start_def Let_def split: if_splits option.splits)
  then have "session_start parse inp f' = Inr \<lparr>ses_service = new_service static (loadApproved parse f'),
      ses_cli = cli_rules inp, ses_initial = length (loadApproved parse f'),
      ses_tools = filter (\<lambda>t. t \<notin> set (disabled (in_all_tools inp) static)) (in_active_tools inp)\<rparr>" for f'
    unfolding session_start_def Let_def by (cases "in_preset_flag inp") simp_all
  with assms that show thesis by fastforce
qed

text \<open>A session that is shut down leaves no request open, and the next session with the same settings starts
  with exactly the approvals this one had at its end: those the earlier sessions saved, followed by those the
  user gave in it, whatever calls it handled.\<close>

theorem session_approvals_carried:
  fixes parse stringify inp env calls batches se
  assumes "line_format parse stringify"
  defines "f \<equiv> fold (appendApproved stringify) batches None"
  assumes "session_start parse inp f = Inr se"
  defines "s \<equiv> snd (run_calls env calls (0, ses_service se))"
  defines "shut \<equiv> session_shutdown stringify (ses_initial se) s f"
  shows "pending (fst shut) = [] \<and> (\<exists>rules. approved s = concat batches @ rules) \<and>
    (\<exists>se'. session_start parse inp (snd shut) = Inr se' \<and> approved (ses_service se') = approved s)"
proof -
  obtain static where se: "ses_service se = new_service static (loadApproved parse f)" "ses_initial se = length (loadApproved parse f)"
    and again: "\<And>f'. \<exists>se'. session_start parse inp f' = Inr se' \<and> approved (ses_service se') = loadApproved parse f'"
    by (rule started [OF assms(3)]) (metis approved_new)
  have s: "s = snd (session_state env static (loadApproved parse f) calls)" by (simp add: s_def se session_state_def)
  have load: "loadApproved parse (fold (appendApproved stringify) bs None) = concat bs" for bs
    by (rule approvals_persist [OF assms(1)])
  then have f: "loadApproved parse f = concat batches" by (simp add: f_def)
  obtain rules where rules: "approved s = concat batches @ rules"
    using grow_session [of static "loadApproved parse f" env calls] by (auto simp: approvals_grow_def s f new_service_def)
  have "loadApproved parse (appendApproved stringify rules f) = concat batches @ rules"
    using load [of "batches @ [rules]"] by (simp add: f_def)
  then have "loadApproved parse (snd shut) = approved s" using rules f by (simp add: shut_def se session_shutdown_def Let_def)
  moreover have "distinct_pending s"
    using session_ok [of env static "loadApproved parse f" calls] by (auto simp: handler_ok_def service_ok_def s)
  then have "pending (fst shut) = []" using all_rejected [of s "pending s"] by (simp add: shut_def session_shutdown_def Let_def)
  ultimately show ?thesis using rules again [of "snd shut"] by simp
qed

definition sample_input :: session_input where
  "sample_input = \<lparr>in_home = js ''/h'', in_global = \<lparr>set_preset = None, set_rules = None\<rparr>,
     in_project = \<lparr>set_preset = None, set_rules = None\<rparr>, in_flag = None, in_preset_flag = None,
     in_all_tools = [js ''bash''], in_active_tools = [js ''bash'']\<rparr>"

lemma sample_started: "\<exists>se. session_start sample_parse sample_input f = Inr se"
  by (simp add: session_start_def sample_input_def loadPermissionSettings_def parseSettingsPreset_def Let_def)

theorem session_approvals_carried_witness:
  "\<exists>se. session_start sample_parse sample_input None = Inr se \<and>
    pending (fst (session_shutdown sample_line (ses_initial se)
      (snd (run_calls sample_env [bash_call ''rm -rf x''] (0, ses_service se))) None)) = []"
proof -
  obtain se where se: "session_start sample_parse sample_input None = Inr se" using sample_started by blast
  then show ?thesis
    using session_approvals_carried [OF sample_format, of sample_input "[]" se sample_env "[bash_call ''rm -rf x'']"] by auto
qed

end
