(* ===== verification/GoalState.thy ===== *)
theory GoalState
  imports Json JsText
begin

text \<open>
  Goals (\<open>coding-agent/src/core/extensions/builtin/goal\<close>: \<open>types.ts\<close>, \<open>validation.ts\<close>,
  \<open>transitions.ts\<close> and the reader of \<open>persistence.ts\<close>): the record, the state machine of its status,
  the objective that is cut at 4,000 code points, and what is read back from a file. Counts and times
  are natural numbers; that they are safe integers is part of what the reader checks.
\<close>

section \<open>Goals\<close>

datatype GoalStatus = Active | Paused | Blocked | Complete

datatype GoalUpdateSource = FromModel | FromUser

record Goal =
  g_id :: jstr
  threadId :: jstr
  objective :: jstr
  g_status :: GoalStatus
  tokenBudget :: "nat option"
  tokensUsed :: nat
  timeUsedSeconds :: nat
  consecutiveContinuations :: "nat option"
  lastContinuationSignature :: "jstr option"
  createdAt :: nat
  updatedAt :: nat
  lastStartedAt :: "nat option"
  blockedReason :: "jstr option"
  blockedAt :: "nat option"
  completedAt :: "nat option"

datatype goal_error =
    GoalAlreadyExists
  | GoalNotFound
  | IllegalTransition GoalStatus GoalStatus
  | ReasonNotAllowed
  | ReasonRequired
  | EmptyObjective
  | BadTokenBudget
  | BlockedReplacement
  | InvalidGoalStore
  | UnsupportedVersion
  | OpenTodoTasks "jstr list"
  | NoSignature

section \<open>Transitions\<close>

definition isAllowedTransition :: "GoalStatus \<Rightarrow> GoalStatus \<Rightarrow> GoalUpdateSource \<Rightarrow> bool" where
  "isAllowedTransition current new source =
     (if source = FromModel
      then (current = Active \<and> (new = Blocked \<or> new = Complete)) \<or> (current = Blocked \<and> new = Complete)
      else (current = Active \<and> new = Paused) \<or> (current = Paused \<and> new = Active) \<or>
        (current = Blocked \<and> new = Active) \<or> (current = Complete \<and> new = Active))"

definition applyBlockedFields :: "Goal \<Rightarrow> Goal \<Rightarrow> jstr option \<Rightarrow> nat \<Rightarrow> goal_error + Goal" where
  "applyBlockedFields new current reason at_time =
     (if g_status current = Blocked then Inr new
      else case map_option trim reason of
          None \<Rightarrow> Inl ReasonRequired
        | Some r \<Rightarrow> if r = [] then Inl ReasonRequired
            else Inr (new\<lparr>blockedReason := Some r, blockedAt := Some at_time\<rparr>))"

definition transitionGoalStatus ::
  "Goal \<Rightarrow> GoalStatus \<Rightarrow> GoalUpdateSource \<Rightarrow> jstr option \<Rightarrow> nat \<Rightarrow> goal_error + Goal" where
  "transitionGoalStatus current status source reason at_time =
     (if \<not> (g_status current = status \<or> isAllowedTransition (g_status current) status source)
      then Inl (IllegalTransition (g_status current) status)
      else if status = Complete \<and> reason \<noteq> None then Inl ReasonNotAllowed
      else
        (let new = current\<lparr>g_status := status, updatedAt := at_time\<rparr>
         in case (if status = Blocked then applyBlockedFields new current reason at_time
                  else Inr (new\<lparr>blockedReason := None, blockedAt := None\<rparr>)) of
              Inl e \<Rightarrow> Inl e
            | Inr g \<Rightarrow> Inr (g\<lparr>lastStartedAt :=
                  (if status = Active \<and> g_status current \<noteq> Active then Some at_time
                   else if status \<noteq> Active then None else lastStartedAt g),
                completedAt := (if status = Complete
                  then Some (case completedAt current of None \<Rightarrow> at_time | Some t \<Rightarrow> t) else None)\<rparr>)))"

section \<open>Objectives\<close>

definition MAX_OBJECTIVE_LENGTH :: nat where "MAX_OBJECTIVE_LENGTH = 4000"
definition WHITESPACE_LOOKBACK :: nat where "WHITESPACE_LOOKBACK = 200"

text \<open>\<open>[...s]\<close>: a surrogate pair is one element, a lone surrogate another.\<close>

fun code_points :: "jstr \<Rightarrow> jstr list" where
  "code_points [] = []"
| "code_points [u] = [[u]]"
| "code_points (u # v # s) =
     (if 0xD800 \<le> u \<and> u \<le> 0xDBFF \<and> 0xDC00 \<le> v \<and> v \<le> 0xDFFF then [u, v] # code_points s
      else [u] # code_points (v # s))"

definition space_point :: "jstr \<Rightarrow> bool" where
  "space_point p \<longleftrightarrow> list_ex is_space p"

text \<open>The indices from \<open>budget - 1\<close> down to \<open>max 0 (budget - 200)\<close>; the budget may be negative.\<close>

definition nearestWhitespaceCut :: "jstr list \<Rightarrow> int \<Rightarrow> nat option" where
  "nearestWhitespaceCut points budget =
     find (\<lambda>i. i < length points \<and> space_point (points ! i))
       (rev [nat (max 0 (budget - int WHITESPACE_LOOKBACK))..<nat budget])"

text \<open>\<open>xs.slice(0, n)\<close>: a negative end counts from the end of the list.\<close>

definition slice_to :: "'a list \<Rightarrow> int \<Rightarrow> 'a list" where
  "slice_to xs n = (if n < 0 then take (length xs - nat (- n)) xs else take (nat n) xs)"

definition truncationMarker :: "jstr \<Rightarrow> jstr" where
  "truncationMarker fullTextFileName =
     [0x2026] @ js '' [truncated; full objective: '' @ fullTextFileName @ js '']''"

text \<open>\<open>None\<close> is the error; the flag tells whether the objective was cut.\<close>

definition validateObjective :: "jstr \<Rightarrow> jstr \<Rightarrow> (jstr \<times> bool) option" where
  "validateObjective value fullTextFileName =
     (let obj = trim value; points = code_points obj
      in if obj = [] then None
         else if length points \<le> MAX_OBJECTIVE_LENGTH then Some (obj, False)
         else
           (let marker = truncationMarker fullTextFileName;
                budget = int MAX_OBJECTIVE_LENGTH - int (length (code_points marker));
                cut = (case nearestWhitespaceCut points budget of Some i \<Rightarrow> int i | None \<Rightarrow> budget)
            in Some (concat (slice_to points cut) @ marker, True)))"

definition MAX_SAFE_INTEGER :: nat where "MAX_SAFE_INTEGER = 2 ^ 53 - 1"

definition validateTokenBudget :: "int \<Rightarrow> nat option" where
  "validateTokenBudget value = (if 0 \<le> value \<and> value \<le> int MAX_SAFE_INTEGER then Some (nat value) else None)"

text \<open>An update of the budget: absent, \<open>null\<close> or a number.\<close>

datatype budget_update = KeepBudget | NoBudget | NewBudget int

definition resolveTokenBudget :: "nat option \<Rightarrow> budget_update \<Rightarrow> (nat option) option" where
  "resolveTokenBudget current update =
     (case update of KeepBudget \<Rightarrow> Some current | NoBudget \<Rightarrow> Some None
      | NewBudget v \<Rightarrow> map_option Some (validateTokenBudget v))"

section \<open>The file\<close>

text \<open>What \<open>JSON.stringify\<close> writes of a goal; absent properties are left out.\<close>

fun status_name :: "GoalStatus \<Rightarrow> jstr" where
  "status_name Active = js ''active''"
| "status_name Paused = js ''paused''"
| "status_name Blocked = js ''blocked''"
| "status_name Complete = js ''complete''"

definition isGoalStatus :: "json \<Rightarrow> GoalStatus option" where
  "isGoalStatus v = find (\<lambda>s. v = JStr (status_name s)) [Active, Paused, Blocked, Complete]"

definition num_field :: "string \<Rightarrow> nat \<Rightarrow> (jstr \<times> json) list" where
  "num_field k n = [(js k, JNum (of_nat n))]"

definition opt_field :: "string \<Rightarrow> ('a \<Rightarrow> json) \<Rightarrow> 'a option \<Rightarrow> (jstr \<times> json) list" where
  "opt_field k f x = (case x of None \<Rightarrow> [] | Some v \<Rightarrow> [(js k, f v)])"

definition json_nat :: "nat \<Rightarrow> json" where "json_nat n = JNum (of_nat n)"

definition goal_json :: "Goal \<Rightarrow> json" where
  "goal_json g = JObj
     ([(js ''id'', JStr (g_id g)), (js ''threadId'', JStr (threadId g)), (js ''objective'', JStr (objective g)),
       (js ''status'', JStr (status_name (g_status g)))] @
      opt_field ''tokenBudget'' json_nat (tokenBudget g) @
      [(js ''tokensUsed'', json_nat (tokensUsed g)), (js ''timeUsedSeconds'', json_nat (timeUsedSeconds g))] @
      opt_field ''consecutiveContinuations'' json_nat (consecutiveContinuations g) @
      opt_field ''lastContinuationSignature'' JStr (lastContinuationSignature g) @
      [(js ''createdAt'', json_nat (createdAt g)), (js ''updatedAt'', json_nat (updatedAt g))] @
      opt_field ''lastStartedAt'' json_nat (lastStartedAt g) @
      opt_field ''blockedReason'' JStr (blockedReason g) @
      opt_field ''blockedAt'' json_nat (blockedAt g) @
      opt_field ''completedAt'' json_nat (completedAt g))"

definition file_json :: "Goal option \<Rightarrow> json" where
  "file_json g = JObj [(js ''version'', JNum 1), (js ''goal'', case g of None \<Rightarrow> JNull | Some g \<Rightarrow> goal_json g)]"

fun isNonNegativeSafeInteger :: "json \<Rightarrow> nat option" where
  "isNonNegativeSafeInteger (JNum q) =
     (let n = nat \<lfloor>q\<rfloor> in if q = of_nat n \<and> n \<le> MAX_SAFE_INTEGER then Some n else None)"
| "isNonNegativeSafeInteger _ = None"

text \<open>A property that may be absent: \<open>None\<close> when it is there and wrong.\<close>

definition optional_nat :: "json \<Rightarrow> (nat option) option" where
  "optional_nat v = (if v = JUndefined then Some None else map_option Some (isNonNegativeSafeInteger v))"

text \<open>\<open>isGoal\<close> and \<open>sanitizeContinuationState\<close>: the goal of a value, \<open>None\<close> when it is none. The
  continuation fields are dropped rather than rejected when they are wrong.\<close>

definition valid_blocked :: "GoalStatus \<Rightarrow> json \<Rightarrow> json \<Rightarrow> (jstr option \<times> nat option) option" where
  "valid_blocked status reason at_time =
     (if status = Blocked
      then (case (as_string reason, isNonNegativeSafeInteger at_time) of
          (Some r, Some t) \<Rightarrow> if trim r \<noteq> [] then Some (Some r, Some t) else None
        | _ \<Rightarrow> None)
      else if reason = JUndefined \<and> at_time = JUndefined then Some (None, None) else None)"

definition read_goal :: "json \<Rightarrow> Goal option" where
  "read_goal v =
     (case props_of v of None \<Rightarrow> None
      | Some obj \<Rightarrow>
          (case (as_string (get obj (js ''id'')), as_string (get obj (js ''threadId'')),
                 as_string (get obj (js ''objective'')), isGoalStatus (get obj (js ''status''))) of
             (Some i, Some t, Some ob, Some st) \<Rightarrow>
               (case (optional_nat (get obj (js ''tokenBudget'')),
                      valid_blocked st (get obj (js ''blockedReason'')) (get obj (js ''blockedAt'')),
                      isNonNegativeSafeInteger (get obj (js ''tokensUsed'')),
                      isNonNegativeSafeInteger (get obj (js ''timeUsedSeconds''))) of
                  (Some budget, Some (reason, blocked_at), Some tokens, Some seconds) \<Rightarrow>
                    (case (isNonNegativeSafeInteger (get obj (js ''createdAt'')),
                           isNonNegativeSafeInteger (get obj (js ''updatedAt'')),
                           optional_nat (get obj (js ''lastStartedAt'')),
                           optional_nat (get obj (js ''completedAt''))) of
                       (Some created, Some updated, Some started, Some completed) \<Rightarrow>
                         Some \<lparr>g_id = i, threadId = t, objective = ob, g_status = st, tokenBudget = budget,
                           tokensUsed = tokens, timeUsedSeconds = seconds,
                           consecutiveContinuations = isNonNegativeSafeInteger (get obj (js ''consecutiveContinuations'')),
                           lastContinuationSignature = as_string (get obj (js ''lastContinuationSignature'')),
                           createdAt = created, updatedAt = updated, lastStartedAt = started,
                           blockedReason = reason, blockedAt = blocked_at, completedAt = completed\<rparr>
                     | _ \<Rightarrow> None)
                | _ \<Rightarrow> None)
           | _ \<Rightarrow> None))"

definition parseGoalFile :: "json \<Rightarrow> goal_error + Goal option" where
  "parseGoalFile v =
     (case props_of v of None \<Rightarrow> Inl InvalidGoalStore
      | Some obj \<Rightarrow>
          if get obj (js ''version'') \<noteq> JNum 1 then Inl UnsupportedVersion
          else if get obj (js ''goal'') = JNull then Inr None
          else (case read_goal (get obj (js ''goal'')) of None \<Rightarrow> Inl InvalidGoalStore | Some g \<Rightarrow> Inr (Some g)))"

section \<open>Well-formed goals\<close>

definition safe :: "nat \<Rightarrow> bool" where
  "safe n \<longleftrightarrow> n \<le> MAX_SAFE_INTEGER"

definition safe_numbers :: "Goal \<Rightarrow> bool" where
  "safe_numbers g \<longleftrightarrow> safe (tokensUsed g) \<and> safe (timeUsedSeconds g) \<and> safe (createdAt g) \<and> safe (updatedAt g) \<and>
     pred_option safe (tokenBudget g) \<and> pred_option safe (consecutiveContinuations g) \<and>
     pred_option safe (lastStartedAt g) \<and> pred_option safe (blockedAt g) \<and> pred_option safe (completedAt g)"

text \<open>Each status comes with its own data.\<close>

definition blocked_data :: "Goal \<Rightarrow> bool" where
  "blocked_data g \<longleftrightarrow>
     (if g_status g = Blocked then (\<exists>r. blockedReason g = Some r \<and> trim r \<noteq> []) \<and> blockedAt g \<noteq> None
      else blockedReason g = None \<and> blockedAt g = None)"

definition status_data :: "Goal \<Rightarrow> bool" where
  "status_data g \<longleftrightarrow> blocked_data g \<and>
     (lastStartedAt g \<noteq> None \<longrightarrow> g_status g = Active) \<and> (completedAt g \<noteq> None \<longleftrightarrow> g_status g = Complete)"

lemma read_nat: "safe n \<Longrightarrow> isNonNegativeSafeInteger (json_nat n) = Some n"
  by (simp add: json_nat_def safe_def)

lemma json_nat_defined [simp]: "json_nat n \<noteq> JUndefined"
  by (simp add: json_nat_def)

lemma read_optional:
  "pred_option safe x \<Longrightarrow> optional_nat (case x of None \<Rightarrow> JUndefined | Some n \<Rightarrow> json_nat n) = Some x"
  by (cases x) (simp_all add: optional_nat_def read_nat)

lemma read_status: "isGoalStatus (JStr (status_name s)) = Some s"
  by (cases s) (simp_all add: isGoalStatus_def js_def)

lemma js_inject [simp]: "js s = js t \<longleftrightarrow> s = t"
  by (metis js_def list.map_comp list.map_id of_char_eq_iff inj_map_eq_map injI)

lemma get_fields:
  "get [] key = JUndefined"
  "get ((js k, v) # rest) (js k') = (if k = k' then v else get rest (js k'))"
  "k \<noteq> k' \<Longrightarrow> get (opt_field k f x @ rest) (js k') = get rest (js k')"
  "k \<noteq> k' \<Longrightarrow> get (opt_field k f x) (js k') = JUndefined"
  "get (opt_field k f None) key = JUndefined" "get (opt_field k f (Some y)) (js k) = f y"
  "get (opt_field k f None @ rest) key = get rest key"
  "get (opt_field k f (Some y) @ rest) (js k) = f y"
  by (auto simp: get_def opt_field_def map_add_def split: option.splits)

lemma read_goal_names:
  assumes "read_goal (goal_json g) = Some h"
  shows "g_id h = g_id g \<and> objective h = objective g \<and> g_status h = g_status g"
proof -
  define obj where "obj = (case goal_json g of JObj obj \<Rightarrow> obj)"
  have props: "props_of (goal_json g) = Some obj" by (simp add: obj_def goal_json_def)
  have "get obj (js ''id'') = JStr (g_id g)" "get obj (js ''threadId'') = JStr (threadId g)"
    "get obj (js ''objective'') = JStr (objective g)" "get obj (js ''status'') = JStr (status_name (g_status g))"
    by (simp_all add: obj_def goal_json_def get_fields)
  then show ?thesis
    using assms unfolding read_goal_def props option.case
    by (auto simp: read_status split: option.splits prod.splits)
qed

text \<open>What is written of a well-formed goal is read back.\<close>

lemma read_goal_json:
  assumes safe: "safe_numbers g" and "blocked_data g"
  shows "read_goal (goal_json g) = Some g"
proof -
  define obj where "obj = (case goal_json g of JObj obj \<Rightarrow> obj)"
  have props: "props_of (goal_json g) = Some obj" by (simp add: obj_def goal_json_def)
  have obj': "obj =
     (js ''id'', JStr (g_id g)) # (js ''threadId'', JStr (threadId g)) # (js ''objective'', JStr (objective g)) #
      (js ''status'', JStr (status_name (g_status g))) #
      opt_field ''tokenBudget'' json_nat (tokenBudget g) @
      (js ''tokensUsed'', json_nat (tokensUsed g)) # (js ''timeUsedSeconds'', json_nat (timeUsedSeconds g)) #
      opt_field ''consecutiveContinuations'' json_nat (consecutiveContinuations g) @
      opt_field ''lastContinuationSignature'' JStr (lastContinuationSignature g) @
      (js ''createdAt'', json_nat (createdAt g)) # (js ''updatedAt'', json_nat (updatedAt g)) #
      opt_field ''lastStartedAt'' json_nat (lastStartedAt g) @
      opt_field ''blockedReason'' JStr (blockedReason g) @
      opt_field ''blockedAt'' json_nat (blockedAt g) @
      opt_field ''completedAt'' json_nat (completedAt g) @ []"
    by (simp add: obj_def goal_json_def)
  have required: "get obj (js ''id'') = JStr (g_id g)" "get obj (js ''threadId'') = JStr (threadId g)"
    "get obj (js ''objective'') = JStr (objective g)" "get obj (js ''status'') = JStr (status_name (g_status g))"
    "get obj (js ''tokensUsed'') = json_nat (tokensUsed g)" "get obj (js ''timeUsedSeconds'') = json_nat (timeUsedSeconds g)"
    "get obj (js ''createdAt'') = json_nat (createdAt g)" "get obj (js ''updatedAt'') = json_nat (updatedAt g)"
    unfolding obj' by (simp_all add: get_fields)
  have optional: "get obj (js ''tokenBudget'') = (case tokenBudget g of None \<Rightarrow> JUndefined | Some n \<Rightarrow> json_nat n)"
    "get obj (js ''consecutiveContinuations'') = (case consecutiveContinuations g of None \<Rightarrow> JUndefined | Some n \<Rightarrow> json_nat n)"
    "get obj (js ''lastContinuationSignature'') = (case lastContinuationSignature g of None \<Rightarrow> JUndefined | Some n \<Rightarrow> JStr n)"
    "get obj (js ''lastStartedAt'') = (case lastStartedAt g of None \<Rightarrow> JUndefined | Some n \<Rightarrow> json_nat n)"
    "get obj (js ''blockedReason'') = (case blockedReason g of None \<Rightarrow> JUndefined | Some n \<Rightarrow> JStr n)"
    "get obj (js ''blockedAt'') = (case blockedAt g of None \<Rightarrow> JUndefined | Some n \<Rightarrow> json_nat n)"
    "get obj (js ''completedAt'') = (case completedAt g of None \<Rightarrow> JUndefined | Some n \<Rightarrow> json_nat n)"
    unfolding obj'
    subgoal by (cases "tokenBudget g") (simp_all add: get_fields)
    subgoal by (cases "consecutiveContinuations g") (simp_all add: get_fields)
    subgoal by (cases "lastContinuationSignature g") (simp_all add: get_fields)
    subgoal by (cases "lastStartedAt g") (simp_all add: get_fields)
    subgoal by (cases "blockedReason g") (simp_all add: get_fields)
    subgoal by (cases "blockedAt g") (simp_all add: get_fields)
    subgoal by (cases "completedAt g") (simp_all add: get_fields)
    done
  have continuations: "isNonNegativeSafeInteger (case consecutiveContinuations g of None \<Rightarrow> JUndefined | Some n \<Rightarrow> json_nat n) =
      consecutiveContinuations g"
    using safe by (cases "consecutiveContinuations g") (simp_all add: safe_numbers_def read_nat)
  have signature: "as_string (case lastContinuationSignature g of None \<Rightarrow> JUndefined | Some n \<Rightarrow> JStr n) = lastContinuationSignature g"
    by (cases "lastContinuationSignature g") simp_all
  have blocked: "valid_blocked (g_status g) (case blockedReason g of None \<Rightarrow> JUndefined | Some n \<Rightarrow> JStr n)
      (case blockedAt g of None \<Rightarrow> JUndefined | Some n \<Rightarrow> json_nat n) = Some (blockedReason g, blockedAt g)"
    using assms(2) safe by (auto simp: valid_blocked_def blocked_data_def safe_numbers_def read_nat split: if_splits)
  have nats: "isNonNegativeSafeInteger (json_nat (tokensUsed g)) = Some (tokensUsed g)"
    "isNonNegativeSafeInteger (json_nat (timeUsedSeconds g)) = Some (timeUsedSeconds g)"
    "isNonNegativeSafeInteger (json_nat (createdAt g)) = Some (createdAt g)"
    "isNonNegativeSafeInteger (json_nat (updatedAt g)) = Some (updatedAt g)"
    using safe by (simp_all add: safe_numbers_def read_nat)
  have optionals: "optional_nat (case tokenBudget g of None \<Rightarrow> JUndefined | Some n \<Rightarrow> json_nat n) = Some (tokenBudget g)"
    "optional_nat (case lastStartedAt g of None \<Rightarrow> JUndefined | Some n \<Rightarrow> json_nat n) = Some (lastStartedAt g)"
    "optional_nat (case completedAt g of None \<Rightarrow> JUndefined | Some n \<Rightarrow> json_nat n) = Some (completedAt g)"
    using safe by (simp_all add: safe_numbers_def read_optional)
  show ?thesis
    unfolding read_goal_def props option.case required optional as_string.simps read_status nats optionals
      continuations signature blocked prod.case
    by simp
qed

lemma parse_file_json:
  assumes "\<And>h. g = Some h \<Longrightarrow> safe_numbers h \<and> blocked_data h"
  shows "parseGoalFile (file_json g) = Inr g"
proof -
  have "goal_json h \<noteq> JNull" for h by (simp add: goal_json_def)
  then show ?thesis
    using assms by (cases g) (simp_all add: parseGoalFile_def file_json_def get_fields read_goal_json)
qed

lemma read_nat_safe: "isNonNegativeSafeInteger v = Some n \<Longrightarrow> safe n"
  by (cases v rule: isNonNegativeSafeInteger.cases) (auto simp: safe_def Let_def split: if_splits)

lemma optional_nat_safe: "optional_nat v = Some x \<Longrightarrow> pred_option safe x"
  by (cases x) (auto simp: optional_nat_def read_nat_safe split: if_splits)

lemma valid_blocked_result:
  assumes "valid_blocked st v w = Some (r, b)"
  shows "pred_option safe b"
    "if st = Blocked then (\<exists>s. r = Some s \<and> trim s \<noteq> []) \<and> b \<noteq> None else r = None \<and> b = None"
proof -
  have "pred_option safe b \<and>
      (if st = Blocked then (\<exists>s. r = Some s \<and> trim s \<noteq> []) \<and> b \<noteq> None else r = None \<and> b = None)"
  proof (cases "st = Blocked")
    case True
    then obtain s t where "as_string v = Some s" and t: "isNonNegativeSafeInteger w = Some t" and "trim s \<noteq> []"
      using assms by (auto simp: valid_blocked_def simp del: as_string_iff split: option.splits if_splits)
    then have "r = Some s" "b = Some t" using assms True by (simp_all add: valid_blocked_def)
    then show ?thesis using True read_nat_safe [OF t] \<open>trim s \<noteq> []\<close> by simp
  next
    case False
    then show ?thesis using assms by (auto simp: valid_blocked_def split: if_splits)
  qed
  then show "pred_option safe b"
    "if st = Blocked then (\<exists>s. r = Some s \<and> trim s \<noteq> []) \<and> b \<noteq> None else r = None \<and> b = None" by simp_all
qed

text \<open>What the reader accepts can be written and read again.\<close>

lemma read_goal_safe:
  assumes "read_goal v = Some g"
  shows "safe_numbers g \<and> blocked_data g"
proof -
  obtain obj i t ob st budget reason blocked_at tokens seconds created updated started completed where
    fields: "g = \<lparr>g_id = i, threadId = t, objective = ob, g_status = st, tokenBudget = budget,
        tokensUsed = tokens, timeUsedSeconds = seconds,
        consecutiveContinuations = isNonNegativeSafeInteger (get obj (js ''consecutiveContinuations'')),
        lastContinuationSignature = as_string (get obj (js ''lastContinuationSignature'')),
        createdAt = created, updatedAt = updated, lastStartedAt = started,
        blockedReason = reason, blockedAt = blocked_at, completedAt = completed\<rparr>"
    and nats: "isNonNegativeSafeInteger (get obj (js ''tokensUsed'')) = Some tokens"
      "isNonNegativeSafeInteger (get obj (js ''timeUsedSeconds'')) = Some seconds"
      "isNonNegativeSafeInteger (get obj (js ''createdAt'')) = Some created"
      "isNonNegativeSafeInteger (get obj (js ''updatedAt'')) = Some updated"
    and optionals: "optional_nat (get obj (js ''tokenBudget'')) = Some budget"
      "optional_nat (get obj (js ''lastStartedAt'')) = Some started"
      "optional_nat (get obj (js ''completedAt'')) = Some completed"
    and blocked: "valid_blocked st (get obj (js ''blockedReason'')) (get obj (js ''blockedAt'')) = Some (reason, blocked_at)"
    using assms unfolding read_goal_def by (auto split: option.splits prod.splits)
  have "pred_option safe (isNonNegativeSafeInteger w)" for w by (cases "isNonNegativeSafeInteger w") (auto dest: read_nat_safe)
  moreover have "pred_option safe blocked_at" "blocked_data g"
    using valid_blocked_result [OF blocked] by (simp_all add: fields blocked_data_def)
  ultimately show ?thesis
    using nats [THEN read_nat_safe] optionals [THEN optional_nat_safe] by (simp add: fields safe_numbers_def)
qed

lemma transition_result:
  assumes "transitionGoalStatus g st source reason now = Inr h"
  shows "\<exists>br ba. h = g\<lparr>g_status := st, updatedAt := now, blockedReason := br, blockedAt := ba,
      lastStartedAt := (if st = Active \<and> g_status g \<noteq> Active then Some now
        else if st \<noteq> Active then None else lastStartedAt g),
      completedAt := (if st = Complete then Some (case completedAt g of None \<Rightarrow> now | Some t \<Rightarrow> t) else None)\<rparr> \<and>
    (if st \<noteq> Blocked then br = None \<and> ba = None
     else if g_status g = Blocked then br = blockedReason g \<and> ba = blockedAt g
     else (\<exists>r. reason = Some r \<and> trim r \<noteq> [] \<and> br = Some (trim r)) \<and> ba = Some now)"
proof -
  have ok: "\<not> \<not> (g_status g = st \<or> isAllowedTransition (g_status g) st source)" "\<not> (st = Complete \<and> reason \<noteq> None)"
    using assms unfolding transitionGoalStatus_def by (auto split: if_splits)
  note run = assms [unfolded transitionGoalStatus_def Let_def if_not_P [OF ok(1)] if_not_P [OF ok(2)]]
  consider "st \<noteq> Blocked" | "st = Blocked" "g_status g = Blocked" | "st = Blocked" "g_status g \<noteq> Blocked" by blast
  then show ?thesis
  proof cases
    case 1
    then show ?thesis using run by auto
  next
    case 2
    then show ?thesis using run
      by (intro exI [of _ "blockedReason g"] exI [of _ "blockedAt g"]) (auto simp: applyBlockedFields_def)
  next
    case 3
    then obtain r where "reason = Some r" "trim r \<noteq> []"
      using run by (auto simp: applyBlockedFields_def split: option.splits if_splits)
    then show ?thesis using run 3
      by (intro exI [of _ "Some (trim r)"] exI [of _ "Some now"]) (auto simp: applyBlockedFields_def)
  qed
qed

lemma trim_idem: "trim (trim s) = trim s"
  by (rule trim_trimmed [OF trimmed_trim])

lemma transition_allowed:
  "transitionGoalStatus g st source reason now = Inr h \<Longrightarrow> g_status g = st \<or> isAllowedTransition (g_status g) st source"
  by (auto simp: transitionGoalStatus_def split: if_splits)

lemma transition_data:
  assumes "transitionGoalStatus g st source reason now = Inr h" and "status_data g"
  shows "status_data h"
proof -
  obtain br ba where h: "h = g\<lparr>g_status := st, updatedAt := now, blockedReason := br, blockedAt := ba,
      lastStartedAt := (if st = Active \<and> g_status g \<noteq> Active then Some now
        else if st \<noteq> Active then None else lastStartedAt g),
      completedAt := (if st = Complete then Some (case completedAt g of None \<Rightarrow> now | Some t \<Rightarrow> t) else None)\<rparr>"
    and b: "if st \<noteq> Blocked then br = None \<and> ba = None
     else if g_status g = Blocked then br = blockedReason g \<and> ba = blockedAt g
     else (\<exists>r. reason = Some r \<and> trim r \<noteq> [] \<and> br = Some (trim r)) \<and> ba = Some now"
    using transition_result [OF assms(1)] by blast
  have "if st = Blocked then (\<exists>r. br = Some r \<and> trim r \<noteq> []) \<and> ba \<noteq> None else br = None \<and> ba = None"
    using b assms(2) by (auto simp: status_data_def blocked_data_def trim_idem split: if_splits)
  then show ?thesis by (simp add: h status_data_def blocked_data_def)
qed

lemma transition_fields:
  assumes "transitionGoalStatus g st source reason now = Inr h"
  shows "g_status h = st" "g_id h = g_id g" "objective h = objective g" "updatedAt h = now"
    "tokensUsed h = tokensUsed g" "timeUsedSeconds h = timeUsedSeconds g" "createdAt h = createdAt g"
  using transition_result [OF assms] by auto

section \<open>Objectives stay within the limit\<close>

lemma code_points_Cons: "\<exists>r ps. code_points (u # s) = (u # r) # ps"
  by (cases s) auto

lemma code_points_concat: "concat (code_points s) = s"
  by (induction s rule: code_points.induct) auto

lemma cut_count:
  assumes "u < 0xD800"
  shows "length (code_points (concat (take n (code_points s)) @ u # t)) = length (take n (code_points s)) + length (code_points (u # t))"
proof (induction n arbitrary: s)
  case (Suc n)
  show ?case
  proof (cases s rule: code_points.cases)
    case 1
    then show ?thesis by simp
  next
    case (2 v)
    then show ?thesis using assms by simp
  next
    case (3 v w s')
    show ?thesis
    proof (cases "0xD800 \<le> v \<and> v \<le> 0xDBFF \<and> 0xDC00 \<le> w \<and> w \<le> 0xDFFF")
      case True
      then show ?thesis using 3 Suc.IH [of s'] by simp
    next
      case single: False
      obtain p ps where ps: "code_points (w # s') = (w # p) # ps" using code_points_Cons by blast
      show ?thesis
      proof (cases n)
        case 0
        then show ?thesis using 3 single assms by auto
      next
        case (Suc m)
        then obtain r where r: "concat (take n (code_points (w # s'))) = w # r" using ps by simp
        then show ?thesis using 3 single Suc.IH [of "w # s'"] by auto
      qed
    qed
  qed
qed simp

lemma find_in_list: "find P xs = Some x \<Longrightarrow> x \<in> set xs"
  by (induction xs) (auto split: if_splits)

lemma cut_within:
  "nearestWhitespaceCut points budget = Some i \<Longrightarrow> int i < budget"
  unfolding nearestWhitespaceCut_def by (drule find_in_list) (auto simp: zless_nat_eq_int_zless)

text \<open>An accepted objective has at most 4,000 code points and is the trimmed text, or a run of its
  first code points with the marker that names the file with the full text.\<close>

lemma objective_bounded:
  assumes "validateObjective value name = Some (ob, was_cut)" and "length (code_points (truncationMarker name)) \<le> MAX_OBJECTIVE_LENGTH"
  shows "length (code_points ob) \<le> MAX_OBJECTIVE_LENGTH \<and>
    (if was_cut then \<exists>n. ob = concat (take n (code_points (trim value))) @ truncationMarker name else ob = trim value)"
proof (cases "length (code_points (trim value)) \<le> MAX_OBJECTIVE_LENGTH")
  case True
  then show ?thesis using assms(1) by (auto simp: validateObjective_def Let_def split: if_splits)
next
  case False
  let ?points = "code_points (trim value)" and ?marker = "truncationMarker name"
  let ?budget = "int MAX_OBJECTIVE_LENGTH - int (length (code_points ?marker))"
  let ?cut = "case nearestWhitespaceCut ?points ?budget of Some i \<Rightarrow> int i | None \<Rightarrow> ?budget"
  have b: "0 \<le> ?budget" using assms(2) by simp
  have c: "0 \<le> ?cut \<and> ?cut \<le> ?budget"
  proof (cases "nearestWhitespaceCut ?points ?budget")
    case None
    then show ?thesis using b by simp
  next
    case (Some i)
    then show ?thesis using cut_within [OF Some] by simp
  qed
  have ob: "ob = concat (take (nat ?cut) ?points) @ ?marker" "was_cut"
    using assms(1) False c by (auto simp: validateObjective_def Let_def slice_to_def simp del: code_points.simps split: if_splits)
  obtain t where marker: "?marker = 0x2026 # t" by (simp add: truncationMarker_def)
  have "length (code_points ob) = length (take (nat ?cut) ?points) + length (code_points ?marker)"
    unfolding ob(1) marker by (rule cut_count) simp
  moreover have "length (take (nat ?cut) ?points) + length (code_points ?marker) \<le> MAX_OBJECTIVE_LENGTH"
    if "0 \<le> k \<and> k \<le> ?budget" and "k = ?cut" for k
  proof -
    have "int (nat k) + int (length (code_points ?marker)) \<le> int MAX_OBJECTIVE_LENGTH" using that(1) by simp
    then show ?thesis unfolding that(2) [symmetric] by (simp only: length_take of_nat_add [symmetric] of_nat_le_iff)
  qed
  ultimately have "length (code_points ob) \<le> MAX_OBJECTIVE_LENGTH" using c by simp
  then show ?thesis using ob by auto
qed

end
