(* ===== verification/GoalStore.thy ===== *)
theory GoalStore
  imports GoalState TodoOps
begin

text \<open>
  The goal store (\<open>store.ts\<close>), the tools the model calls (\<open>tool-registration.ts\<close>), the gate that the open todo
  tasks are (\<open>todo-gate.ts\<close>) and the streaming token counts (\<open>turn-usage.ts\<close>). The files are the state;
  mutations of one store are queued and run one after another, so each is a function of the state. The
  clock, fresh ids and the name of the file with the full text are arguments; failing system calls are
  not modelled.
\<close>

section \<open>The store\<close>

record goal_store =
  st_file :: "json option"
  st_history :: "Goal list"
  st_full :: "jstr option"

record goal_ref =
  ref_thread :: jstr
  ref_full_name :: jstr

definition no_store :: goal_store where
  "no_store = \<lparr>st_file = None, st_history = [], st_full = None\<rparr>"

definition readGoalFile :: "goal_store \<Rightarrow> goal_error + Goal option" where
  "readGoalFile st = (case st_file st of None \<Rightarrow> Inr None | Some v \<Rightarrow> parseGoalFile v)"

definition writeGoalFile :: "Goal option \<Rightarrow> goal_store \<Rightarrow> goal_store" where
  "writeGoalFile g st = st\<lparr>st_file := Some (file_json g)\<rparr>"

definition archiveGoal :: "Goal \<Rightarrow> goal_store \<Rightarrow> goal_store" where
  "archiveGoal g st = st\<lparr>st_history := st_history st @ [g]\<rparr>"

definition writeFullObjectiveText :: "bool \<Rightarrow> jstr \<Rightarrow> goal_store \<Rightarrow> goal_store" where
  "writeFullObjectiveText was_cut obj st = (if was_cut then st\<lparr>st_full := Some obj\<rparr> else st)"

definition nextUpdatedAt :: "nat \<Rightarrow> nat \<Rightarrow> nat" where
  "nextUpdatedAt now previous = max now (previous + 1)"

definition fresh_goal :: "goal_ref \<Rightarrow> jstr \<Rightarrow> jstr \<Rightarrow> GoalStatus \<Rightarrow> nat option \<Rightarrow> nat \<Rightarrow> Goal" where
  "fresh_goal ref new_id obj new_status budget now =
     \<lparr>g_id = new_id, threadId = ref_thread ref, objective = obj, g_status = new_status, tokenBudget = budget,
      tokensUsed = 0, timeUsedSeconds = 0, consecutiveContinuations = Some 0, lastContinuationSignature = None,
      createdAt = now, updatedAt = now, lastStartedAt = (if new_status = Active then Some now else None),
      blockedReason = None, blockedAt = None, completedAt = (if new_status = Complete then Some now else None)\<rparr>"

definition createGoal ::
  "goal_ref \<Rightarrow> jstr \<Rightarrow> int option \<Rightarrow> jstr \<Rightarrow> nat \<Rightarrow> goal_store \<Rightarrow> (goal_error + Goal) \<times> goal_store" where
  "createGoal ref obj budget new_id now st =
     (case validateObjective obj (ref_full_name ref) of
        None \<Rightarrow> (Inl EmptyObjective, st)
      | Some (ob, was_cut) \<Rightarrow>
          (case readGoalFile st of
             Inl e \<Rightarrow> (Inl e, st)
           | Inr current \<Rightarrow>
               if (case current of None \<Rightarrow> False | Some g \<Rightarrow> g_status g \<noteq> Complete)
               then (Inl GoalAlreadyExists, st)
               else
                 (let st1 = writeFullObjectiveText was_cut obj st;
                      st2 = (case current of None \<Rightarrow> st1 | Some g \<Rightarrow> archiveGoal g st1)
                  in case (case budget of None \<Rightarrow> Some None | Some b \<Rightarrow> map_option Some (validateTokenBudget b)) of
                       None \<Rightarrow> (Inl BadTokenBudget, st2)
                     | Some b \<Rightarrow>
                         (let g = fresh_goal ref new_id ob Active b now in (Inr g, writeGoalFile (Some g) st2)))))"

record goal_update =
  up_objective :: "jstr option"
  up_status :: "GoalStatus option"
  up_reason :: "jstr option"
  up_budget :: budget_update

definition no_update :: goal_update where
  "no_update = \<lparr>up_objective = None, up_status = None, up_reason = None, up_budget = KeepBudget\<rparr>"

definition updateGoal ::
  "goal_ref \<Rightarrow> goal_update \<Rightarrow> GoalUpdateSource \<Rightarrow> jstr \<Rightarrow> nat \<Rightarrow> goal_store \<Rightarrow> (goal_error + Goal) \<times> goal_store" where
  "updateGoal ref update source new_id clock st =
     (case readGoalFile st of
        Inl e \<Rightarrow> (Inl e, st)
      | Inr None \<Rightarrow> (Inl GoalNotFound, st)
      | Inr (Some current) \<Rightarrow>
          (case (case up_objective update of None \<Rightarrow> Some (objective current, False)
                 | Some ob \<Rightarrow> validateObjective ob (ref_full_name ref)) of
             None \<Rightarrow> (Inl EmptyObjective, st)
           | Some (ob, was_cut) \<Rightarrow>
               (case resolveTokenBudget (tokenBudget current) (up_budget update) of
                  None \<Rightarrow> (Inl BadTokenBudget, st)
                | Some budget \<Rightarrow>
                    (let now = nextUpdatedAt clock (updatedAt current);
                         hasObjectiveUpdate = (up_objective update \<noteq> None);
                         replacesGoal = (hasObjectiveUpdate \<and> (ob \<noteq> objective current \<or> g_status current = Complete));
                         requested = (case up_status update of Some s \<Rightarrow> Some s
                           | None \<Rightarrow> if hasObjectiveUpdate then Some Active else None);
                         full = (case up_objective update of None \<Rightarrow> [] | Some o' \<Rightarrow> o')
                     in if replacesGoal
                        then (let new_status = (case requested of None \<Rightarrow> Active | Some s \<Rightarrow> s)
                          in if new_status = Blocked then (Inl BlockedReplacement, st)
                             else (let g = fresh_goal ref new_id ob new_status budget now
                               in (Inr g, writeGoalFile (Some g) (writeFullObjectiveText was_cut full st))))
                        else
                          (case transitionGoalStatus (current\<lparr>objective := ob\<rparr>)
                                  (case requested of None \<Rightarrow> g_status current | Some s \<Rightarrow> s) source (up_reason update) now of
                             Inl e \<Rightarrow> (Inl e, st)
                           | Inr g \<Rightarrow>
                               (let h = (if g_status g \<noteq> g_status current
                                      then g\<lparr>consecutiveContinuations := Some 0, lastContinuationSignature := None\<rparr> else g)
                                      \<lparr>tokenBudget := budget\<rparr>
                                in (Inr h, writeGoalFile (Some h) (writeFullObjectiveText was_cut full st))))))))"

definition clearGoal :: "goal_store \<Rightarrow> (goal_error + bool) \<times> goal_store" where
  "clearGoal st =
     (case readGoalFile st of Inl e \<Rightarrow> (Inl e, st) | Inr g \<Rightarrow> (Inr (g \<noteq> None), writeGoalFile None st))"

datatype GoalAccountingMode = CountActive | CountActiveOrBlocked | CountActiveOrComplete

definition canAccountGoalUsage :: "Goal \<Rightarrow> GoalAccountingMode \<Rightarrow> bool" where
  "canAccountGoalUsage g mode =
     (case mode of CountActive \<Rightarrow> g_status g = Active
      | CountActiveOrBlocked \<Rightarrow> g_status g = Active \<or> g_status g = Blocked
      | CountActiveOrComplete \<Rightarrow> g_status g = Active \<or> g_status g = Complete)"

record TokenUsageSnapshot =
  u_input :: int
  u_output :: int
  u_cacheRead :: int
  u_cacheWrite :: int
  u_totalTokens :: int

definition accountGoalUsage ::
  "TokenUsageSnapshot \<Rightarrow> int \<Rightarrow> GoalAccountingMode \<Rightarrow> jstr option \<Rightarrow> nat \<Rightarrow> goal_store \<Rightarrow>
   (goal_error + Goal option) \<times> goal_store" where
  "accountGoalUsage usage elapsed mode expected clock st =
     (case readGoalFile st of
        Inl e \<Rightarrow> (Inl e, st)
      | Inr None \<Rightarrow> (Inr None, st)
      | Inr (Some g) \<Rightarrow>
          if (expected \<noteq> None \<and> expected \<noteq> Some (g_id g)) \<or> \<not> canAccountGoalUsage g mode then (Inr (Some g), st)
          else (let h = g\<lparr>tokensUsed := tokensUsed g + nat (max 0 (u_input usage)) + nat (max 0 (u_output usage)),
                    timeUsedSeconds := timeUsedSeconds g + nat (max 0 elapsed),
                    updatedAt := nextUpdatedAt clock (updatedAt g)\<rparr>
                in (Inr (Some h), writeGoalFile (Some h) st)))"

definition recordContinuationDelivered ::
  "jstr \<Rightarrow> jstr option \<Rightarrow> goal_store \<Rightarrow> (goal_error + Goal option) \<times> goal_store" where
  "recordContinuationDelivered signature expected st =
     (case readGoalFile st of
        Inl e \<Rightarrow> (Inl e, st)
      | Inr None \<Rightarrow> (Inr None, st)
      | Inr (Some g) \<Rightarrow>
          if expected \<noteq> None \<and> expected \<noteq> Some (g_id g) then (Inr None, st)
          else (let h = g\<lparr>consecutiveContinuations := Some ((case consecutiveContinuations g of None \<Rightarrow> 0 | Some n \<Rightarrow> n) + 1),
                    lastContinuationSignature := Some signature\<rparr>
                in (Inr (Some h), writeGoalFile (Some h) st)))"

definition resetContinuationStreak :: "goal_store \<Rightarrow> (goal_error + Goal option) \<times> goal_store" where
  "resetContinuationStreak st =
     (case readGoalFile st of
        Inl e \<Rightarrow> (Inl e, st)
      | Inr None \<Rightarrow> (Inr None, st)
      | Inr (Some g) \<Rightarrow>
          (let h = g\<lparr>consecutiveContinuations := Some 0, lastContinuationSignature := None\<rparr>
           in (Inr (Some h), writeGoalFile (Some h) st)))"

section \<open>The tools\<close>

definition openTodoTaskContents :: "branch_entry list \<Rightarrow> jstr list" where
  "openTodoTaskContents entries =
     map content (filter isIncompleteTodo (concat (map tasks (getLatestPhasesFromBranchEntries entries))))"

text \<open>What a tool call has of the turn: the goal that is being accounted and the usage and time since the
  last checkpoint.\<close>

record turn_account =
  acc_goal :: "jstr option"
  acc_usage :: TokenUsageSnapshot
  acc_elapsed :: int

definition accountCurrentAgentTurn ::
  "turn_account \<Rightarrow> GoalAccountingMode \<Rightarrow> nat \<Rightarrow> goal_store \<Rightarrow> (goal_error + Goal option) \<times> goal_store" where
  "accountCurrentAgentTurn acc mode clock st =
     (case acc_goal acc of
        None \<Rightarrow> (readGoalFile st, st)
      | Some g \<Rightarrow> accountGoalUsage (acc_usage acc) (acc_elapsed acc) mode (Some g) clock st)"

definition create_goal_tool ::
  "goal_ref \<Rightarrow> jstr \<Rightarrow> jstr \<Rightarrow> nat \<Rightarrow> goal_store \<Rightarrow> (goal_error + Goal) \<times> goal_store" where
  "create_goal_tool ref obj new_id now st =
     (case readGoalFile st of
        Inl e \<Rightarrow> (Inl e, st)
      | Inr current \<Rightarrow>
          if (case current of None \<Rightarrow> False | Some g \<Rightarrow> g_status g \<noteq> Complete) then (Inl GoalAlreadyExists, st)
          else if validateObjective obj (ref_full_name ref) = None then (Inl EmptyObjective, st)
          else createGoal ref obj None new_id now st)"

text \<open>The status a model may set.\<close>

datatype ModelSettableGoalStatus = SetComplete | SetBlocked

definition update_goal_tool ::
  "goal_ref \<Rightarrow> branch_entry list \<Rightarrow> ModelSettableGoalStatus \<Rightarrow> jstr option \<Rightarrow> turn_account \<Rightarrow> jstr \<Rightarrow> nat \<Rightarrow>
   goal_store \<Rightarrow> (goal_error + Goal) \<times> goal_store" where
  "update_goal_tool ref entries new_status given acc new_id clock st =
     (let reason = map_option trim given; open_tasks = openTodoTaskContents entries
      in if new_status = SetBlocked \<and> (reason = None \<or> reason = Some []) then (Inl ReasonRequired, st)
         else if new_status = SetComplete \<and> reason \<noteq> None \<and> reason \<noteq> Some [] then (Inl ReasonNotAllowed, st)
         else if new_status = SetComplete \<and> open_tasks \<noteq> [] then (Inl (OpenTodoTasks open_tasks), st)
         else
           (case accountCurrentAgentTurn acc CountActive clock st of
              (Inl e, st') \<Rightarrow> (Inl e, st')
            | (Inr _, st') \<Rightarrow>
                updateGoal ref
                  (if new_status = SetBlocked then no_update\<lparr>up_status := Some Blocked, up_reason := reason\<rparr>
                   else no_update\<lparr>up_status := Some Complete\<rparr>)
                  FromModel new_id clock st'))"

definition get_goal_tool :: "turn_account \<Rightarrow> nat \<Rightarrow> goal_store \<Rightarrow> (goal_error + Goal option) \<times> goal_store" where
  "get_goal_tool acc clock st = accountCurrentAgentTurn acc CountActive clock st"

end
