(* ===== verification/GoalStoreProps.thy ===== *)
theory GoalStoreProps
  imports GoalStore
begin

text \<open>
  The goal store never writes what it cannot read, never drops a finished goal when a new one is created, and
  the tools the model calls cannot move a goal where only the user may.
\<close>

section \<open>Runs of store operations\<close>

datatype store_op =
    CreateOp jstr "int option" jstr
  | UpdateOp goal_update GoalUpdateSource jstr
  | ClearOp
  | AccountOp TokenUsageSnapshot int GoalAccountingMode "jstr option"
  | DeliveredOp jstr "jstr option"
  | ResetOp

text \<open>An operation at a time of the clock.\<close>

fun store_step :: "goal_ref \<Rightarrow> store_op \<times> nat \<Rightarrow> goal_store \<Rightarrow> goal_store" where
  "store_step ref (CreateOp ob budget i, clock) st = snd (createGoal ref ob budget i clock st)"
| "store_step ref (UpdateOp update source i, clock) st = snd (updateGoal ref update source i clock st)"
| "store_step ref (ClearOp, clock) st = snd (clearGoal st)"
| "store_step ref (AccountOp usage elapsed mode expected, clock) st = snd (accountGoalUsage usage elapsed mode expected clock st)"
| "store_step ref (DeliveredOp signature expected, clock) st = snd (recordContinuationDelivered signature expected st)"
| "store_step ref (ResetOp, clock) st = snd (resetContinuationStreak st)"

definition store_run :: "goal_ref \<Rightarrow> (store_op \<times> nat) list \<Rightarrow> goal_store \<Rightarrow> goal_store" where
  "store_run ref ops st = fold (store_step ref) ops st"

fun used_by :: "store_op \<Rightarrow> nat" where
  "used_by (AccountOp usage elapsed mode expected) =
     nat (max 0 (u_input usage)) + nat (max 0 (u_output usage)) + nat (max 0 elapsed)"
| "used_by _ = 0"

fun used_in :: "(store_op \<times> nat) list \<Rightarrow> nat" where
  "used_in [] = 0"
| "used_in ((sop, clock) # ops) = used_by sop + used_in ops"

definition goal_ok :: "Goal \<Rightarrow> bool" where
  "goal_ok g \<longleftrightarrow> status_data g \<and> objective g \<noteq> [] \<and> length (code_points (objective g)) \<le> MAX_OBJECTIVE_LENGTH"

definition bounded :: "nat \<Rightarrow> Goal \<Rightarrow> bool" where
  "bounded w g \<longleftrightarrow> tokensUsed g \<le> w \<and> timeUsedSeconds g \<le> w \<and> createdAt g \<le> w \<and> updatedAt g \<le> w \<and>
     pred_option safe (tokenBudget g) \<and> pred_option (\<lambda>n. n \<le> w) (consecutiveContinuations g) \<and>
     pred_option (\<lambda>n. n \<le> w) (lastStartedAt g) \<and> pred_option (\<lambda>n. n \<le> w) (blockedAt g) \<and>
     pred_option (\<lambda>n. n \<le> w) (completedAt g)"

lemma bounded_safe: "bounded w g \<Longrightarrow> w \<le> MAX_SAFE_INTEGER \<Longrightarrow> safe_numbers g"
  by (auto simp: bounded_def safe_numbers_def safe_def intro: option.pred_mono_strong)

lemma pred_option_le: "pred_option (\<lambda>n. n \<le> w) x \<Longrightarrow> w \<le> v \<Longrightarrow> pred_option (\<lambda>n. n \<le> (v :: nat)) x"
  by (cases x) auto

lemma bounded_mono: "bounded w g \<Longrightarrow> w \<le> v \<Longrightarrow> bounded v g"
  by (auto simp: bounded_def intro: pred_option_le)

text \<open>What is in the file of a store that was only written by these operations.\<close>

definition holds_goal :: "goal_store \<Rightarrow> Goal option \<Rightarrow> bool" where
  "holds_goal st g \<longleftrightarrow> st_file st = Some (file_json g) \<or> (st_file st = None \<and> g = None)"

definition store_inv :: "nat \<Rightarrow> goal_store \<Rightarrow> bool" where
  "store_inv w st \<longleftrightarrow> (\<forall>h\<in>set (st_history st). g_status h = Complete) \<and>
     (\<exists>g. holds_goal st g \<and> (\<forall>h. g = Some h \<longrightarrow> goal_ok h \<and> bounded w h))"

lemma store_inv_mono: "store_inv w st \<Longrightarrow> w \<le> v \<Longrightarrow> store_inv v st"
  by (force simp: store_inv_def intro: bounded_mono)

lemma holds_read:
  assumes "holds_goal st g" and "\<And>h. g = Some h \<Longrightarrow> safe_numbers h \<and> blocked_data h"
  shows "readGoalFile st = Inr g"
  using assms(1) parse_file_json [OF assms(2)] by (auto simp: holds_goal_def readGoalFile_def)

lemma inv_read:
  assumes "store_inv w st" and "w \<le> MAX_SAFE_INTEGER"
  obtains g where "readGoalFile st = Inr g" "holds_goal st g" "\<And>h. g = Some h \<Longrightarrow> goal_ok h \<and> bounded w h"
    "\<forall>h\<in>set (st_history st). g_status h = Complete"
proof -
  obtain g where g: "holds_goal st g" "\<And>h. g = Some h \<Longrightarrow> goal_ok h \<and> bounded w h"
    "\<forall>h\<in>set (st_history st). g_status h = Complete" using assms(1) by (auto simp: store_inv_def)
  have "readGoalFile st = Inr g"
    using holds_read [OF g(1)] g(2) assms(2) by (auto simp: goal_ok_def status_data_def intro: bounded_safe)
  with g that show thesis by blast
qed

lemma written_inv:
  assumes "\<forall>h\<in>set (st_history st). g_status h = Complete" and "\<And>h. g = Some h \<Longrightarrow> goal_ok h \<and> bounded w h"
  shows "store_inv w (writeGoalFile g st)"
  using assms by (auto simp: store_inv_def writeGoalFile_def holds_goal_def)

lemma written_goal:
  "\<forall>h\<in>set (st_history st). g_status h = Complete \<Longrightarrow> goal_ok g \<and> bounded w g \<Longrightarrow> store_inv w (writeGoalFile (Some g) st)"
  by (rule written_inv) auto

text \<open>The counters of a goal say nothing about its status.\<close>

lemma goal_ok_counters [simp]:
  "goal_ok (g\<lparr>consecutiveContinuations := n\<rparr>) = goal_ok g" "goal_ok (g\<lparr>lastContinuationSignature := s\<rparr>) = goal_ok g"
  "goal_ok (g\<lparr>tokenBudget := b\<rparr>) = goal_ok g" "goal_ok (g\<lparr>tokensUsed := t\<rparr>) = goal_ok g"
  "goal_ok (g\<lparr>timeUsedSeconds := t\<rparr>) = goal_ok g" "goal_ok (g\<lparr>updatedAt := t\<rparr>) = goal_ok g"
  by (auto simp: goal_ok_def status_data_def blocked_data_def)

lemma bounded_counters [simp]:
  "bounded w (g\<lparr>lastContinuationSignature := s\<rparr>) = bounded w g"
  "bounded w g \<Longrightarrow> pred_option (\<lambda>n. n \<le> w) n \<Longrightarrow> bounded w (g\<lparr>consecutiveContinuations := n\<rparr>)"
  "bounded w g \<Longrightarrow> pred_option safe b \<Longrightarrow> bounded w (g\<lparr>tokenBudget := b\<rparr>)"
  "bounded w g \<Longrightarrow> t \<le> w \<Longrightarrow> bounded w (g\<lparr>tokensUsed := t\<rparr>)"
  "bounded w g \<Longrightarrow> t \<le> w \<Longrightarrow> bounded w (g\<lparr>timeUsedSeconds := t\<rparr>)"
  "bounded w g \<Longrightarrow> t \<le> w \<Longrightarrow> bounded w (g\<lparr>updatedAt := t\<rparr>)"
  by (auto simp: bounded_def)

lemma full_text_fields [simp]:
  "st_history (writeFullObjectiveText c ob st) = st_history st" "st_file (writeFullObjectiveText c ob st) = st_file st"
  by (simp_all add: writeFullObjectiveText_def)

lemma archive_fields [simp]:
  "st_history (archiveGoal g st) = st_history st @ [g]" "st_file (archiveGoal g st) = st_file st"
  by (simp_all add: archiveGoal_def)

lemma write_fields [simp]:
  "st_history (writeGoalFile g st) = st_history st" "st_file (writeGoalFile g st) = Some (file_json g)"
  by (simp_all add: writeGoalFile_def)

section \<open>The goals that are written\<close>

lemma validated_nonempty: "validateObjective v name = Some (ob, c) \<Longrightarrow> ob \<noteq> []"
  by (auto simp: validateObjective_def truncationMarker_def Let_def split: if_splits)

lemma fresh_ok:
  assumes "validateObjective v (ref_full_name ref) = Some (ob, c)"
    and "length (code_points (truncationMarker (ref_full_name ref))) \<le> MAX_OBJECTIVE_LENGTH"
    and "s \<noteq> Blocked" and "now \<le> w" and "pred_option safe budget"
  shows "goal_ok (fresh_goal ref i ob s budget now) \<and> bounded w (fresh_goal ref i ob s budget now)"
  using objective_bounded [OF assms(1,2)] validated_nonempty [OF assms(1)] assms(3-5)
  by (auto simp: fresh_goal_def goal_ok_def bounded_def status_data_def blocked_data_def)

lemma budget_safe: "validateTokenBudget v = Some n \<Longrightarrow> safe n"
  by (auto simp: validateTokenBudget_def safe_def split: if_splits)

lemma resolved_budget_safe:
  "resolveTokenBudget current update = Some b \<Longrightarrow> pred_option safe current \<Longrightarrow> pred_option safe b"
  by (cases update) (auto simp: resolveTokenBudget_def dest: budget_safe)

lemma transition_bounded:
  assumes "transitionGoalStatus g s source reason now = Inr h" and "bounded w g" and "now \<le> w"
  shows "bounded w h"
proof -
  obtain br ba where h: "h = g\<lparr>g_status := s, updatedAt := now, blockedReason := br, blockedAt := ba,
      lastStartedAt := (if s = Active \<and> g_status g \<noteq> Active then Some now
        else if s \<noteq> Active then None else lastStartedAt g),
      completedAt := (if s = Complete then Some (case completedAt g of None \<Rightarrow> now | Some t \<Rightarrow> t) else None)\<rparr>"
    and b: "if s \<noteq> Blocked then br = None \<and> ba = None
     else if g_status g = Blocked then br = blockedReason g \<and> ba = blockedAt g
     else (\<exists>r. reason = Some r \<and> trim r \<noteq> [] \<and> br = Some (trim r)) \<and> ba = Some now"
    using transition_result [OF assms(1)] by blast
  have "pred_option (\<lambda>n. n \<le> w) ba" using b assms(2,3) by (auto simp: bounded_def split: if_splits)
  moreover have "(case completedAt g of None \<Rightarrow> now | Some t \<Rightarrow> t) \<le> w"
    using assms(2,3) by (cases "completedAt g") (auto simp: bounded_def)
  ultimately show ?thesis using assms(2,3) by (simp add: h bounded_def)
qed

lemma transition_ok:
  assumes "transitionGoalStatus (g\<lparr>objective := ob\<rparr>) s source reason now = Inr h" and "goal_ok g" and "bounded w g" and "now \<le> w"
    and "ob \<noteq> []" and "length (code_points ob) \<le> MAX_OBJECTIVE_LENGTH"
  shows "goal_ok h \<and> bounded w h"
proof -
  have "status_data (g\<lparr>objective := ob\<rparr>)" "bounded w (g\<lparr>objective := ob\<rparr>)"
    using assms(2,3) by (simp_all add: goal_ok_def status_data_def blocked_data_def bounded_def)
  then show ?thesis
    using transition_data [OF assms(1)] transition_bounded [OF assms(1) _ assms(4)] transition_fields(3) [OF assms(1)] assms(5,6)
    by (simp add: goal_ok_def)
qed

section \<open>Every operation keeps the store readable\<close>

definition short_name :: "goal_ref \<Rightarrow> bool" where
  "short_name ref \<longleftrightarrow> length (code_points (truncationMarker (ref_full_name ref))) \<le> MAX_OBJECTIVE_LENGTH"

lemma history_invD: "store_inv w st \<Longrightarrow> \<forall>h\<in>set (st_history st). g_status h = Complete"
  by (auto simp: store_inv_def)

lemma same_store: "st_file st' = st_file st \<Longrightarrow> \<forall>h\<in>set (st_history st'). g_status h = Complete \<Longrightarrow> store_inv w st \<Longrightarrow> store_inv w st'"
  by (auto simp: store_inv_def holds_goal_def)

lemma create_inv:
  assumes "store_inv w st" and "w \<le> MAX_SAFE_INTEGER" and "short_name ref" and "now \<le> w"
  shows "store_inv w (snd (createGoal ref ob budget i now st))"
proof -
  obtain g where read: "readGoalFile st = Inr g" and hist: "\<forall>h\<in>set (st_history st). g_status h = Complete"
    using inv_read [OF assms(1,2)] by metis
  show ?thesis
  proof (cases "validateObjective ob (ref_full_name ref)")
    case None
    then show ?thesis using assms(1) by (simp add: createGoal_def)
  next
    case (Some p)
    obtain o' c where p: "p = (o', c)" by fastforce
    show ?thesis
    proof (cases "case g of None \<Rightarrow> False | Some h \<Rightarrow> g_status h \<noteq> Complete")
      case True
      then show ?thesis using assms(1) Some p read by (simp add: createGoal_def)
    next
      case False
      define st2 where "st2 = (case g of None \<Rightarrow> writeFullObjectiveText c ob st | Some h \<Rightarrow> archiveGoal h (writeFullObjectiveText c ob st))"
      have st2: "st_file st2 = st_file st" "\<forall>h\<in>set (st_history st2). g_status h = Complete"
        using False hist by (auto simp: st2_def split: option.splits)
      define b where "b = (case budget of None \<Rightarrow> Some None | Some v \<Rightarrow> map_option Some (validateTokenBudget v))"
      have run: "snd (createGoal ref ob budget i now st) =
          (case b of None \<Rightarrow> st2 | Some bud \<Rightarrow> writeGoalFile (Some (fresh_goal ref i o' Active bud now)) st2)"
        using False Some p read by (simp add: createGoal_def Let_def st2_def b_def split: option.splits)
      show ?thesis
      proof (cases b)
        case None
        then show ?thesis using run same_store [OF st2 assms(1)] by simp
      next
        case (Some bud)
        then have "pred_option safe bud" by (auto simp: b_def dest: budget_safe split: option.splits)
        then have "goal_ok (fresh_goal ref i o' Active bud now) \<and> bounded w (fresh_goal ref i o' Active bud now)"
          using \<open>validateObjective ob (ref_full_name ref) = Some p\<close> assms(3,4)
          by (intro fresh_ok) (simp_all add: p short_name_def)
        then show ?thesis using run Some written_goal [OF st2(2)] by simp
      qed
    qed
  qed
qed

lemma update_inv:
  assumes "store_inv w st" and "w + 1 \<le> MAX_SAFE_INTEGER" and "short_name ref" and "clock \<le> w"
  shows "store_inv (w + 1) (snd (updateGoal ref update source i clock st))"
proof -
  have "w \<le> MAX_SAFE_INTEGER" using assms(2) by simp
  then obtain g where read: "readGoalFile st = Inr g" and ok: "\<And>h. g = Some h \<Longrightarrow> goal_ok h \<and> bounded w h"
    and hist: "\<forall>h\<in>set (st_history st). g_status h = Complete"
    using inv_read [OF assms(1)] by metis
  have keep: "store_inv (w + 1) st" by (rule store_inv_mono [OF assms(1)]) simp
  show ?thesis
  proof (cases g)
    case None
    then show ?thesis using keep read by (simp add: updateGoal_def)
  next
    case (Some cur)
    define v where "v = (case up_objective update of None \<Rightarrow> Some (objective cur, False)
      | Some ob \<Rightarrow> validateObjective ob (ref_full_name ref))"
    define budget where "budget = resolveTokenBudget (tokenBudget cur) (up_budget update)"
    show ?thesis
    proof (cases "v = None \<or> budget = None")
      case True
      then show ?thesis using keep read Some by (auto simp: updateGoal_def v_def [symmetric] budget_def [symmetric] split: option.splits)
    next
      case False
      then obtain ob c bud where v: "v = Some (ob, c)" and bud: "budget = Some bud" by auto
      define now where "now = nextUpdatedAt clock (updatedAt cur)"
      define replaces where "replaces = (up_objective update \<noteq> None \<and> (ob \<noteq> objective cur \<or> g_status cur = Complete))"
      define requested where "requested = (case up_status update of Some s \<Rightarrow> Some s
        | None \<Rightarrow> if up_objective update \<noteq> None then Some Active else None)"
      define full where "full = (case up_objective update of None \<Rightarrow> [] | Some o' \<Rightarrow> o')"
      define s where "s = (case requested of None \<Rightarrow> Active | Some s \<Rightarrow> s)"
      have cur: "goal_ok cur" "bounded w cur" using ok Some by simp_all
      have now: "now \<le> w + 1" using cur(2) assms(4) by (simp add: now_def nextUpdatedAt_def bounded_def)
      have budget_ok: "pred_option safe bud"
        using resolved_budget_safe [OF bud [unfolded budget_def]] cur(2) by (simp add: bounded_def)
      have ob: "ob \<noteq> []" "length (code_points ob) \<le> MAX_OBJECTIVE_LENGTH"
        using v cur(1) assms(3) objective_bounded validated_nonempty
        by (auto simp: v_def goal_ok_def short_name_def split: option.splits)
      note run = updateGoal_def [of ref update source i clock st, unfolded read Some sum.case option.case
          v_def [symmetric] budget_def [symmetric] v bud prod.case Let_def now_def [symmetric] replaces_def [symmetric]
          requested_def [symmetric] full_def [symmetric] s_def [symmetric]]
      show ?thesis
      proof (cases replaces)
        case True
        then obtain o' where "up_objective update = Some o'" by (auto simp: replaces_def)
        then have "validateObjective o' (ref_full_name ref) = Some (ob, c)" using v by (simp add: v_def)
        then have "s \<noteq> Blocked \<Longrightarrow> goal_ok (fresh_goal ref i ob s bud now) \<and> bounded (w + 1) (fresh_goal ref i ob s bud now)"
          using assms(3) now budget_ok by (intro fresh_ok) (simp_all add: short_name_def)
        then show ?thesis using run True keep hist by (auto intro!: written_inv)
      next
        case False
        let ?s = "case requested of None \<Rightarrow> g_status cur | Some s \<Rightarrow> s"
        show ?thesis
        proof (cases "transitionGoalStatus (cur\<lparr>objective := ob\<rparr>) ?s source (up_reason update) now")
          case (Inl e)
          then show ?thesis using run False keep by simp
        next
          case (Inr h)
          have h: "goal_ok h \<and> bounded (w + 1) h"
            using cur now ob by (intro transition_ok [OF Inr]) (auto intro: bounded_mono)
          let ?h = "(if g_status h \<noteq> g_status cur
            then h\<lparr>consecutiveContinuations := Some 0, lastContinuationSignature := None\<rparr> else h)\<lparr>tokenBudget := bud\<rparr>"
          have "goal_ok ?h \<and> bounded (w + 1) ?h"
            using h budget_ok by simp
          then show ?thesis using run False Inr hist written_goal [of "writeFullObjectiveText c full st" ?h "w + 1"] by simp
        qed
      qed
    qed
  qed
qed

lemma account_inv:
  assumes "store_inv w st" and "w + 1 \<le> MAX_SAFE_INTEGER" and "clock \<le> w"
  shows "store_inv (w + 1 + used_by (AccountOp usage elapsed mode expected)) (snd (accountGoalUsage usage elapsed mode expected clock st))"
proof -
  let ?w = "w + 1 + used_by (AccountOp usage elapsed mode expected)"
  have "w \<le> MAX_SAFE_INTEGER" using assms(2) by simp
  then obtain g where read: "readGoalFile st = Inr g" and ok: "\<And>h. g = Some h \<Longrightarrow> goal_ok h \<and> bounded w h"
    and hist: "\<forall>h\<in>set (st_history st). g_status h = Complete"
    using inv_read [OF assms(1)] by metis
  have keep: "store_inv ?w st" by (rule store_inv_mono [OF assms(1)]) simp
  show ?thesis
  proof (cases g)
    case None
    then show ?thesis using keep read by (simp add: accountGoalUsage_def)
  next
    case (Some h)
    then have h: "goal_ok h" "bounded w h" using ok by simp_all
    then have "bounded ?w h" by (auto intro: bounded_mono)
    moreover have "nextUpdatedAt clock (updatedAt h) \<le> ?w" "tokensUsed h \<le> w" "timeUsedSeconds h \<le> w"
      using h(2) assms(3) by (simp_all add: nextUpdatedAt_def bounded_def)
    ultimately show ?thesis using keep read Some h(1) written_goal [OF hist] by (simp add: accountGoalUsage_def Let_def)
  qed
qed

lemma counter_inv:
  assumes "store_inv w st" and "w + 1 \<le> MAX_SAFE_INTEGER"
  shows "store_inv (w + 1) (snd (recordContinuationDelivered signature expected st))"
    "store_inv (w + 1) (snd (resetContinuationStreak st))" "store_inv (w + 1) (snd (clearGoal st))"
proof -
  have "w \<le> MAX_SAFE_INTEGER" using assms(2) by simp
  then obtain g where read: "readGoalFile st = Inr g" and ok: "\<And>h. g = Some h \<Longrightarrow> goal_ok h \<and> bounded w h"
    and hist: "\<forall>h\<in>set (st_history st). g_status h = Complete"
    using inv_read [OF assms(1)] by metis
  have keep: "store_inv (w + 1) st" by (rule store_inv_mono [OF assms(1)]) simp
  have up: "goal_ok h \<and> bounded (w + 1) h \<and> (\<forall>n. consecutiveContinuations h = Some n \<longrightarrow> n \<le> w)" if "g = Some h" for h
    using ok [OF that] bounded_mono [of w h "w + 1"] by (auto simp: bounded_def [of w])
  have count: "(case consecutiveContinuations h of None \<Rightarrow> 0 | Some n \<Rightarrow> n) + 1 \<le> w + 1" if "g = Some h" for h
    using up [OF that] by (cases "consecutiveContinuations h") auto
  show "store_inv (w + 1) (snd (recordContinuationDelivered signature expected st))"
    using keep read up count by (cases g) (auto simp: recordContinuationDelivered_def Let_def intro!: written_goal [OF hist] split: option.splits)
  show "store_inv (w + 1) (snd (resetContinuationStreak st))"
    using keep read up by (cases g) (auto simp: resetContinuationStreak_def Let_def intro!: written_goal [OF hist])
  show "store_inv (w + 1) (snd (clearGoal st))"
    using read hist by (auto simp: clearGoal_def intro!: written_inv)
qed

lemma step_inv:
  assumes "store_inv w st" and "w + 1 + used_by sop \<le> MAX_SAFE_INTEGER" and "short_name ref" and "clock \<le> w"
  shows "store_inv (w + 1 + used_by sop) (store_step ref (sop, clock) st)"
proof (cases sop)
  case (CreateOp ob budget i)
  have "store_inv w (snd (createGoal ref ob budget i clock st))" using assms by (intro create_inv) simp_all
  then show ?thesis using CreateOp store_inv_mono [of w _ "w + 1"] by simp
next
  case (UpdateOp update source i)
  then show ?thesis using update_inv [OF assms(1) _ assms(3,4)] assms(2) by simp
next
  case (AccountOp usage elapsed mode expected)
  then show ?thesis using account_inv [OF assms(1) _ assms(4)] assms(2) by simp
qed (use counter_inv [OF assms(1)] assms(2) in simp_all)

lemma run_inv:
  assumes "store_inv w st" and "w + length ops + used_in ops \<le> MAX_SAFE_INTEGER" and "short_name ref"
    and "\<forall>p\<in>set ops. snd p \<le> w"
  shows "store_inv (w + length ops + used_in ops) (store_run ref ops st)"
  using assms
proof (induction ops arbitrary: w st)
  case (Cons p ops)
  obtain sop clock where p: "p = (sop, clock)" by fastforce
  have "store_inv (w + 1 + used_by sop) (store_step ref p st)"
    unfolding p using Cons.prems by (intro step_inv) (simp_all add: p)
  then have "store_inv (w + 1 + used_by sop + length ops + used_in ops) (store_run ref ops (store_step ref p st))"
    using Cons.prems by (intro Cons.IH) (auto simp: p intro: trans_le_add1)
  then show ?case by (simp add: store_run_def p algebra_simps)
qed (simp add: store_run_def)

text \<open>C11: whatever the store of a thread goes through, what it wrote can be read again and is a sound goal: its
  objective is not empty and within 4,000 characters, a reason for being blocked, a start and an end are there
  exactly with the status they belong to; and only finished goals are in the history. The numbers stay
  within what the reader accepts as long as the clock and the usage do.\<close>

theorem goal_store_readable:
  fixes ref ops
  assumes "short_name ref" and "\<forall>p\<in>set ops. snd p \<le> clock_end"
    and "clock_end + length ops + used_in ops \<le> MAX_SAFE_INTEGER"
  defines "st \<equiv> store_run ref ops no_store"
  shows "\<exists>g. readGoalFile st = Inr g \<and> (\<forall>h. g = Some h \<longrightarrow> goal_ok h) \<and> (\<forall>h\<in>set (st_history st). g_status h = Complete)"
proof -
  have "store_inv clock_end no_store" by (simp add: store_inv_def no_store_def holds_goal_def)
  from run_inv [OF this assms(3,1,2)] show ?thesis unfolding st_def by (rule inv_read [OF _ assms(3)]) blast
qed

definition sample_ref :: goal_ref where
  "sample_ref = \<lparr>ref_thread = js ''t'', ref_full_name = js ''f''\<rparr>"

lemma sample_short: "short_name sample_ref"
  by (simp add: short_name_def sample_ref_def truncationMarker_def js_def MAX_OBJECTIVE_LENGTH_def)

theorem goal_store_readable_witness:
  "\<exists>g. readGoalFile (store_run sample_ref [(CreateOp (js ''go'') None (js ''i''), 7), (ResetOp, 8)] no_store) = Inr g"
proof -
  have "\<forall>p\<in>set [(CreateOp (js ''go'') None (js ''i''), 7), (ResetOp, 8)]. snd p \<le> (8 :: nat)" by simp
  from goal_store_readable [OF sample_short this] show ?thesis by (auto simp: MAX_SAFE_INTEGER_def)
qed

end
