(* ===== verification/GoalContinuation.thy ===== *)
theory GoalContinuation
  imports GoalStoreProps
begin

text \<open>
  When a goal goes on by itself (\<open>continuation.ts\<close>, \<open>continuation-recovery.ts\<close> and \<open>lifecycle-helpers.ts\<close>
  of the goal extension): the verdict on a continuation, the text hash and the signature it compares, and the
  admission that records a continuation in the store or blocks the goal. \<open>toLowerCase\<close> is the argument
  \<open>lower\<close>; a message has what the code reads of it.
\<close>

unbundle bit_operations_syntax

section \<open>Messages\<close>

datatype stop_reason = SPending | SStop | SLength | SToolUse | SError | SAborted

datatype msg_content = CText jstr | CToolCall | COther

datatype agent_message =
    AssistantMsg "msg_content list" stop_reason
  | ToolResultMsg "msg_content list" bool
  | OtherMsg

definition is_assistant :: "agent_message \<Rightarrow> bool" where
  "is_assistant m \<longleftrightarrow> (case m of AssistantMsg c r \<Rightarrow> True | _ \<Rightarrow> False)"

definition lastAssistantMessage :: "agent_message list \<Rightarrow> agent_message option" where
  "lastAssistantMessage messages = find is_assistant (rev messages)"

definition lastStopReason :: "agent_message list \<Rightarrow> stop_reason option" where
  "lastStopReason messages = (case lastAssistantMessage messages of Some (AssistantMsg c r) \<Rightarrow> Some r | _ \<Rightarrow> None)"

definition content_texts :: "msg_content list \<Rightarrow> jstr list" where
  "content_texts contents = List.map_filter (\<lambda>c. case c of CText t \<Rightarrow> Some t | _ \<Rightarrow> None) contents"

definition lastAssistantText :: "agent_message list \<Rightarrow> jstr" where
  "lastAssistantText messages =
     (case lastAssistantMessage messages of Some (AssistantMsg c r) \<Rightarrow> join [LF] (content_texts c) | _ \<Rightarrow> [])"

definition continuationTurnUsedTools :: "agent_message list \<Rightarrow> bool" where
  "continuationTurnUsedTools messages =
     list_ex (\<lambda>m. case m of ToolResultMsg c e \<Rightarrow> True | AssistantMsg c r \<Rightarrow> CToolCall \<in> set c | OtherMsg \<Rightarrow> False) messages"

definition isContinuableStopReason :: "stop_reason \<Rightarrow> bool" where
  "isContinuableStopReason r \<longleftrightarrow> r = SStop \<or> r = SLength"

text \<open>\<open>/\babort(?:ed)?\b/i\<close>: the rest of the text at some place, with the unit before it.\<close>

definition word_unit :: "nat \<Rightarrow> bool" where
  "word_unit c \<longleftrightarrow> (48 \<le> c \<and> c \<le> 57) \<or> (65 \<le> c \<and> c \<le> 90) \<or> c = 95 \<or> (97 \<le> c \<and> c \<le> 122)"

definition ascii_lower :: "nat \<Rightarrow> nat" where
  "ascii_lower c = (if 65 \<le> c \<and> c \<le> 90 then c + 32 else c)"

definition word_ends :: "jstr \<Rightarrow> bool" where
  "word_ends s \<longleftrightarrow> (case s of [] \<Rightarrow> True | c # _ \<Rightarrow> \<not> word_unit c)"

definition says_abort :: "jstr \<Rightarrow> bool" where
  "says_abort t \<longleftrightarrow>
     list_ex (\<lambda>i. (i = 0 \<or> \<not> word_unit (t ! (i - 1))) \<and>
         list_ex (\<lambda>w. starts_with (map ascii_lower (drop i t)) w \<and> word_ends (drop (i + length w) t))
           [js ''aborted'', js ''abort'']) [0..<length t]"

definition isAbortedToolResult :: "agent_message \<Rightarrow> bool" where
  "isAbortedToolResult m \<longleftrightarrow> (case m of ToolResultMsg c e \<Rightarrow> e \<and> list_ex says_abort (content_texts c) | _ \<Rightarrow> False)"

definition didAgentEndCleanly :: "agent_message list \<Rightarrow> bool" where
  "didAgentEndCleanly messages \<longleftrightarrow>
     (case lastStopReason messages of None \<Rightarrow> False
      | Some r \<Rightarrow> isContinuableStopReason r \<and>
          \<not> list_ex isAbortedToolResult (takeWhile (\<lambda>m. \<not> is_assistant m) (rev messages)))"

definition shouldQueueGoalContinuationWhenIdle :: "Goal option \<Rightarrow> bool \<Rightarrow> bool \<Rightarrow> bool" where
  "shouldQueueGoalContinuationWhenIdle goal isIdle pendingMessages \<longleftrightarrow>
     map_option g_status goal = Some Active \<and> isIdle \<and> \<not> pendingMessages"

definition shouldQueueGoalContinuationAfterAgentEnd :: "Goal option \<Rightarrow> bool \<Rightarrow> agent_message list \<Rightarrow> bool" where
  "shouldQueueGoalContinuationAfterAgentEnd goal pendingMessages messages \<longleftrightarrow>
     map_option g_status goal = Some Active \<and> \<not> pendingMessages \<and> didAgentEndCleanly messages"

section \<open>The text hash and the signature\<close>

text \<open>\<open>s.replace(/\s+/g, " ")\<close>\<close>

fun collapse_spaces :: "bool \<Rightarrow> jstr \<Rightarrow> jstr" where
  "collapse_spaces was [] = []"
| "collapse_spaces was (c # s) =
     (if is_space c then (if was then collapse_spaces True s else 32 # collapse_spaces True s) else c # collapse_spaces False s)"

definition normalizeAssistantText :: "(jstr \<Rightarrow> jstr) \<Rightarrow> jstr \<Rightarrow> jstr" where
  "normalizeAssistantText lower s = trim (collapse_spaces False (lower s))"

definition fnv1a :: "jstr \<Rightarrow> 32 word" where
  "fnv1a s = fold (\<lambda>c h. (h XOR word_of_nat c) * 0x01000193) s 0x811c9dc5"

text \<open>\<open>(hash >>> 0).toString(16).padStart(8, "0")\<close>\<close>

fun hex_digits :: "nat \<Rightarrow> nat \<Rightarrow> jstr" where
  "hex_digits 0 n = []"
| "hex_digits (Suc k) n = hex_digits k (n div 16) @ [if n mod 16 < 10 then 48 + n mod 16 else 87 + n mod 16]"

definition hashAssistantText :: "(jstr \<Rightarrow> jstr) \<Rightarrow> jstr \<Rightarrow> jstr" where
  "hashAssistantText lower s = hex_digits 8 (unat (fnv1a (normalizeAssistantText lower s)))"

definition buildGoalContinuationSignature :: "jstr \<Rightarrow> nat \<Rightarrow> nat \<Rightarrow> jstr \<Rightarrow> jstr" where
  "buildGoalContinuationSignature goal_id openTodos totalTodos hash =
     goal_id @ js '':'' @ decimal openTodos @ js ''/'' @ decimal totalTodos @ js '':'' @ hash"

definition buildCurrentGoalContinuationSignature :: "(jstr \<Rightarrow> jstr) \<Rightarrow> branch_entry list \<Rightarrow> Goal \<Rightarrow> jstr \<Rightarrow> jstr" where
  "buildCurrentGoalContinuationSignature lower entries goal lastText =
     buildGoalContinuationSignature (g_id goal) (length (openTodoTaskContents entries))
       (sum_list (map (\<lambda>p. length (tasks p)) (getLatestPhasesFromBranchEntries entries))) (hashAssistantText lower lastText)"

section \<open>The verdict\<close>

definition GOAL_CONTINUATION_CAP :: nat where "GOAL_CONTINUATION_CAP = 8"
definition GOAL_STALL_TOOLLESS_THRESHOLD :: nat where "GOAL_STALL_TOOLLESS_THRESHOLD = 3"
definition GOAL_REPETITION_HASH_STREAK :: nat where "GOAL_REPETITION_HASH_STREAK = 3"
definition GOAL_LENGTH_RECOVERY_LIMIT :: nat where "GOAL_LENGTH_RECOVERY_LIMIT = 1"

datatype GoalContinuationPath = Immediate | MonitorDelayed | UserGrace | SessionStart | SystemRecovery

record continuation_input =
  in_isIdle :: bool
  in_hasPendingMessages :: bool
  in_path :: GoalContinuationPath
  in_lastStopReason :: "stop_reason option"
  in_consecutive :: nat
  in_lastSignature :: "jstr option"
  in_currentSignature :: "jstr option"
  in_lengthRecoveries :: nat
  in_hashes :: "jstr list"
  in_toolless :: nat
  in_continuationPending :: bool

datatype deny_reason = NotEligible | SingleFlight | AtCap | Stale | Repetition | LengthExhausted

datatype prompt_kind = FullPrompt | MinimalPrompt

datatype GoalContinuationVerdict = Continue prompt_kind bool | Deny deny_reason

definition isEligibleForGoalContinuation :: "Goal option \<Rightarrow> continuation_input \<Rightarrow> bool" where
  "isEligibleForGoalContinuation goal inp \<longleftrightarrow>
     map_option g_status goal = Some Active \<and> \<not> in_hasPendingMessages inp \<and>
     (if in_path inp = SystemRecovery then True
      else if in_path inp = Immediate
      then (case in_lastStopReason inp of None \<Rightarrow> False | Some r \<Rightarrow> isContinuableStopReason r)
      else in_isIdle inp)"

definition hasRepeatedNormalizedOutputHash :: "jstr list \<Rightarrow> bool" where
  "hasRepeatedNormalizedOutputHash hashes \<longleftrightarrow>
     (case rev hashes of [] \<Rightarrow> False
      | latest # _ \<Rightarrow> length (takeWhile (\<lambda>h. h = latest) (rev hashes)) \<ge> GOAL_REPETITION_HASH_STREAK)"

definition shouldShowStallNotice :: "continuation_input \<Rightarrow> bool" where
  "shouldShowStallNotice inp \<longleftrightarrow> in_toolless inp \<ge> GOAL_STALL_TOOLLESS_THRESHOLD"

definition evaluateGoalContinuation :: "Goal option \<Rightarrow> continuation_input \<Rightarrow> GoalContinuationVerdict" where
  "evaluateGoalContinuation goal inp =
     (if \<not> isEligibleForGoalContinuation goal inp then Deny NotEligible
      else if in_continuationPending inp then Deny SingleFlight
      else if hasRepeatedNormalizedOutputHash (in_hashes inp) then Deny Repetition
      else if in_consecutive inp \<ge> GOAL_CONTINUATION_CAP then Deny AtCap
      else if (in_path inp = Immediate \<or> in_path inp = UserGrace) \<and> in_lastSignature inp \<noteq> None \<and>
        in_lastSignature inp = in_currentSignature inp then Deny Stale
      else if in_lastStopReason inp = Some SLength
      then (if in_lengthRecoveries inp \<ge> GOAL_LENGTH_RECOVERY_LIMIT then Deny LengthExhausted
            else Continue MinimalPrompt (shouldShowStallNotice inp))
      else Continue FullPrompt (shouldShowStallNotice inp))"

definition hasGoalContinuationProgress :: "continuation_input \<Rightarrow> bool" where
  "hasGoalContinuationProgress inp \<longleftrightarrow>
     in_lastSignature inp \<noteq> None \<and> in_currentSignature inp \<noteq> None \<and> in_lastSignature inp \<noteq> in_currentSignature inp"

section \<open>Admission\<close>

definition CONTINUATION_CAP_BLOCKED_REASON :: jstr where
  "CONTINUATION_CAP_BLOCKED_REASON = js ''continuation cap reached''"
definition REPETITION_BLOCKED_REASON :: jstr where
  "REPETITION_BLOCKED_REASON = js ''repeated assistant output''"
definition LENGTH_EXHAUSTED_BLOCKED_REASON :: jstr where
  "LENGTH_EXHAUSTED_BLOCKED_REASON = js ''output truncation repeated''"
definition PROVIDER_ERROR_BLOCKED_REASON :: jstr where
  "PROVIDER_ERROR_BLOCKED_REASON = js ''provider error ended the turn (retries exhausted)''"

definition isMechanicalContinuationBlock :: "jstr option \<Rightarrow> bool" where
  "isMechanicalContinuationBlock reason \<longleftrightarrow>
     (case reason of None \<Rightarrow> False
      | Some r \<Rightarrow> r \<in> {CONTINUATION_CAP_BLOCKED_REASON, REPETITION_BLOCKED_REASON, LENGTH_EXHAUSTED_BLOCKED_REASON,
          PROVIDER_ERROR_BLOCKED_REASON})"

fun blockedReasonForContinuationGuard :: "deny_reason \<Rightarrow> jstr option" where
  "blockedReasonForContinuationGuard AtCap = Some CONTINUATION_CAP_BLOCKED_REASON"
| "blockedReasonForContinuationGuard Repetition = Some REPETITION_BLOCKED_REASON"
| "blockedReasonForContinuationGuard LengthExhausted = Some LENGTH_EXHAUSTED_BLOCKED_REASON"
| "blockedReasonForContinuationGuard NotEligible = None"
| "blockedReasonForContinuationGuard SingleFlight = None"
| "blockedReasonForContinuationGuard Stale = None"

text \<open>A continuation is queued, the goal is gone, it is not queued, or an error is thrown.\<close>

datatype admission = Queued Goal prompt_kind bool | Gone | Refused Goal | Failed goal_error

definition handleDeniedContinuation :: "goal_ref \<Rightarrow> Goal \<Rightarrow> deny_reason \<Rightarrow> jstr \<Rightarrow> nat \<Rightarrow> goal_store \<Rightarrow> admission \<times> goal_store" where
  "handleDeniedContinuation ref goal reason new_id clock st =
     (case blockedReasonForContinuationGuard reason of
        None \<Rightarrow> (Refused goal, st)
      | Some r \<Rightarrow>
          (case updateGoal ref (no_update\<lparr>up_status := Some Blocked, up_reason := Some r\<rparr>) FromModel new_id clock st of
             (Inl e, st') \<Rightarrow> (Failed e, st')
           | (Inr g, st') \<Rightarrow> (Refused g, st')))"

definition admitAndQueueGoalContinuation ::
  "goal_ref \<Rightarrow> Goal \<Rightarrow> continuation_input \<Rightarrow> jstr \<Rightarrow> nat \<Rightarrow> goal_store \<Rightarrow> admission \<times> goal_store" where
  "admitAndQueueGoalContinuation ref goal inp new_id clock st =
     (case evaluateGoalContinuation (Some goal) inp of
        Deny reason \<Rightarrow> handleDeniedContinuation ref goal reason new_id clock st
      | Continue p stall \<Rightarrow>
          (case in_currentSignature inp of
             None \<Rightarrow> (Failed NoSignature, st)
           | Some sig \<Rightarrow>
               (case recordContinuationDelivered sig (Some (g_id goal)) st of
                  (Inl e, st') \<Rightarrow> (Failed e, st')
                | (Inr None, st') \<Rightarrow> (Gone, st')
                | (Inr (Some g), st') \<Rightarrow> (Queued g p stall, st'))))"

text \<open>The input of \<open>queueGoalContinuation\<close>, by which a session starts or resumes a goal.\<close>

definition session_start_input ::
  "(jstr \<Rightarrow> jstr) \<Rightarrow> branch_entry list \<Rightarrow> jstr \<Rightarrow> bool \<Rightarrow> bool \<Rightarrow> bool \<Rightarrow> Goal \<Rightarrow> continuation_input" where
  "session_start_input lower entries lastText isIdle pendingMessages pending goal =
     \<lparr>in_isIdle = isIdle, in_hasPendingMessages = pendingMessages, in_path = SessionStart, in_lastStopReason = None,
      in_consecutive = (case consecutiveContinuations goal of None \<Rightarrow> 0 | Some n \<Rightarrow> n),
      in_lastSignature = lastContinuationSignature goal,
      in_currentSignature = Some (buildCurrentGoalContinuationSignature lower entries goal lastText),
      in_lengthRecoveries = 0, in_hashes = [], in_toolless = 0, in_continuationPending = pending\<rparr>"

definition queueGoalContinuation ::
  "(jstr \<Rightarrow> jstr) \<Rightarrow> goal_ref \<Rightarrow> branch_entry list \<Rightarrow> jstr \<Rightarrow> bool \<Rightarrow> bool \<Rightarrow> bool \<Rightarrow> Goal \<Rightarrow> jstr \<Rightarrow> nat \<Rightarrow> goal_store \<Rightarrow>
   admission \<times> goal_store" where
  "queueGoalContinuation lower ref entries lastText isIdle pendingMessages pending goal new_id clock st =
     admitAndQueueGoalContinuation ref goal (session_start_input lower entries lastText isIdle pendingMessages pending goal) new_id clock st"

definition isResumeOfStoppedGoal :: "bool \<Rightarrow> bool \<Rightarrow> bool \<Rightarrow> bool \<Rightarrow> Goal option \<Rightarrow> bool" where
  "isResumeOfStoppedGoal reason_is_resume hasUI isIdle pendingMessages goal \<longleftrightarrow>
     reason_is_resume \<and> (case goal of None \<Rightarrow> False | Some g \<Rightarrow> g_status g \<in> {Paused, Blocked}) \<and> hasUI \<and> isIdle \<and> \<not> pendingMessages"

section \<open>A goal does not go on for ever by itself\<close>

text \<open>An attempt to continue the goal in the store, whatever brings it about. The numbers of the streak are those of
  the stored goal, where each delivery records them; the source keeps them beside it in memory as well.\<close>

definition attempt_input :: "continuation_input \<Rightarrow> Goal \<Rightarrow> continuation_input" where
  "attempt_input inp g =
     inp\<lparr>in_consecutive := (case consecutiveContinuations g of None \<Rightarrow> 0 | Some n \<Rightarrow> n), in_lastSignature := lastContinuationSignature g\<rparr>"

definition attempt :: "goal_ref \<Rightarrow> continuation_input \<times> jstr \<times> nat \<Rightarrow> goal_store \<Rightarrow> admission \<times> goal_store" where
  "attempt ref a st =
     (case readGoalFile st of
        Inl e \<Rightarrow> (Failed e, st)
      | Inr None \<Rightarrow> (Gone, st)
      | Inr (Some g) \<Rightarrow> admitAndQueueGoalContinuation ref g (attempt_input (fst a) g) (fst (snd a)) (snd (snd a)) st)"

definition is_queued :: "admission \<Rightarrow> bool" where
  "is_queued a \<longleftrightarrow> (case a of Queued g p s \<Rightarrow> True | _ \<Rightarrow> False)"

fun attempts :: "goal_ref \<Rightarrow> (continuation_input \<times> jstr \<times> nat) list \<Rightarrow> goal_store \<Rightarrow> admission list \<times> goal_store" where
  "attempts ref [] st = ([], st)"
| "attempts ref (a # as) st = (let (r, st1) = attempt ref a st; (rs, st2) = attempts ref as st1 in (r # rs, st2))"

definition streak :: "Goal \<Rightarrow> nat" where
  "streak g = (case consecutiveContinuations g of None \<Rightarrow> 0 | Some n \<Rightarrow> n)"

text \<open>The continuations that are left.\<close>

definition room :: "goal_store \<Rightarrow> nat" where
  "room st = (case readGoalFile st of Inr (Some g) \<Rightarrow> if g_status g = Active then GOAL_CONTINUATION_CAP - streak g else 0 | _ \<Rightarrow> 0)"

lemma queued_streak:
  assumes "readGoalFile st = Inr (Some g)" and "evaluateGoalContinuation (Some g) inp = Continue p stall"
    and "in_consecutive inp = streak g"
  shows "g_status g = Active" "streak g < GOAL_CONTINUATION_CAP"
  using assms(2,3)
  by (auto simp: evaluateGoalContinuation_def isEligibleForGoalContinuation_def Let_def split: if_splits)

lemma delivered_room:
  assumes "readGoalFile st = Inr (Some g)" and "g_status g = Active" and "streak g < GOAL_CONTINUATION_CAP"
  shows "\<exists>h st'. recordContinuationDelivered sig (Some (g_id g)) st = (Inr (Some h), st') \<and> room st' + 1 = room st"
proof -
  let ?h = "g\<lparr>consecutiveContinuations := Some (streak g + 1), lastContinuationSignature := Some sig\<rparr>"
  have "parseGoalFile v = Inr (Some g) \<Longrightarrow> safe_numbers g \<and> blocked_data g" for v
    using read_goal_safe by (auto simp: parseGoalFile_def split: option.splits if_splits)
  then have "safe_numbers g \<and> blocked_data g" using assms(1) by (auto simp: readGoalFile_def split: option.splits)
  then have "safe_numbers ?h \<and> blocked_data ?h"
    using assms(3) by (simp add: safe_numbers_def blocked_data_def safe_def GOAL_CONTINUATION_CAP_def MAX_SAFE_INTEGER_def)
  then have "readGoalFile (writeGoalFile (Some ?h) st) = Inr (Some ?h)"
    by (intro holds_read) (simp_all add: holds_goal_def)
  then have "room (writeGoalFile (Some ?h) st) + 1 = room st"
    using assms by (simp add: room_def streak_def)
  moreover have "recordContinuationDelivered sig (Some (g_id g)) st = (Inr (Some ?h), writeGoalFile (Some ?h) st)"
    using assms(1) by (simp add: recordContinuationDelivered_def Let_def streak_def)
  ultimately show ?thesis by blast
qed

lemma blocked_room:
  assumes "readGoalFile st = Inr (Some g)" and "r \<noteq> []" and "trim r = r"
    and "updateGoal ref (no_update\<lparr>up_status := Some Blocked, up_reason := Some r\<rparr>) FromModel i clock st = (x, st')"
  shows "room st' \<le> room st" "\<And>h. x = Inr h \<Longrightarrow> g_status h = Blocked \<and> room st' = 0"
proof -
  define update where "update = no_update\<lparr>up_status := Some Blocked, up_reason := Some r\<rparr>"
  have u: "up_objective update = None" "up_budget update = KeepBudget" "up_status update = Some Blocked"
    by (simp_all add: update_def no_update_def)
  note run = assms(4) [folded update_def]
  let ?now = "nextUpdatedAt clock (updatedAt g)"
  have "(\<exists>e. x = Inl e) \<and> st' = st \<or> (\<exists>h. x = Inr h \<and> g_status h = Blocked \<and> st_file st' = Some (file_json (Some h)))"
  proof (cases "transitionGoalStatus (g\<lparr>objective := objective g\<rparr>) Blocked FromModel (up_reason update) ?now")
    case (Inl e)
    then have "x = Inl e \<and> st' = st" using run assms(1) u by (simp add: updateGoal_def resolveTokenBudget_def Let_def)
    then show ?thesis by simp
  next
    case (Inr h)
    then show ?thesis using run assms(1) u transition_fields(1) [OF Inr]
      by (auto simp: updateGoal_def resolveTokenBudget_def Let_def)
  qed
  moreover have "room st' = 0" if "st_file st' = Some (file_json (Some h))" "g_status h = Blocked" for h
  proof (cases "readGoalFile st'")
    case (Inr y)
    then show ?thesis
    proof (cases y)
      case (Some k)
      then have "read_goal (goal_json h) = Some k"
        using Inr that(1) by (auto simp: readGoalFile_def parseGoalFile_def file_json_def get_fields goal_json_def split: if_splits option.splits)
      then show ?thesis using Inr Some that(2) read_goal_names [of h k] by (simp add: room_def)
    qed (simp add: room_def)
  qed (simp add: room_def)
  ultimately show "room st' \<le> room st" "\<And>h. x = Inr h \<Longrightarrow> g_status h = Blocked \<and> room st' = 0" by auto
qed

lemma guard_reason: "blockedReasonForContinuationGuard d = Some r \<Longrightarrow> r \<noteq> [] \<and> trim r = r"
  by (cases d) (auto simp: CONTINUATION_CAP_BLOCKED_REASON_def REPETITION_BLOCKED_REASON_def LENGTH_EXHAUSTED_BLOCKED_REASON_def
      js_def trim_def trim_start_def trim_end_def is_space_def)

lemma attempt_room:
  assumes "attempt ref a st = (r, st')"
  shows "room st' + (if is_queued r then 1 else 0) \<le> room st"
proof (cases "\<exists>g. readGoalFile st = Inr (Some g)")
  case False
  then show ?thesis using assms by (auto simp: attempt_def is_queued_def split: sum.splits option.splits)
next
  case True
  then obtain g where read: "readGoalFile st = Inr (Some g)" by blast
  let ?inp = "attempt_input (fst a) g"
  have run: "admitAndQueueGoalContinuation ref g ?inp (fst (snd a)) (snd (snd a)) st = (r, st')"
    using assms read by (simp add: attempt_def)
  have c: "in_consecutive ?inp = streak g" by (simp add: attempt_input_def streak_def)
  show ?thesis
  proof (cases "evaluateGoalContinuation (Some g) ?inp")
    case (Continue p stall)
    note q = queued_streak [OF read Continue c]
    show ?thesis
    proof (cases "in_currentSignature ?inp")
      case None
      then show ?thesis using run Continue by (auto simp: admitAndQueueGoalContinuation_def is_queued_def)
    next
      case (Some sig)
      obtain h st1 where "recordContinuationDelivered sig (Some (g_id g)) st = (Inr (Some h), st1)" "room st1 + 1 = room st"
        using delivered_room [OF read q] by blast
      then show ?thesis using run Continue Some by (auto simp: admitAndQueueGoalContinuation_def is_queued_def)
    qed
  next
    case (Deny d)
    have not_queued: "\<not> is_queued r"
      using run Deny by (auto simp: admitAndQueueGoalContinuation_def handleDeniedContinuation_def is_queued_def split: option.splits sum.splits prod.splits)
    show ?thesis
    proof (cases "blockedReasonForContinuationGuard d")
      case None
      then show ?thesis using run Deny not_queued by (simp add: admitAndQueueGoalContinuation_def handleDeniedContinuation_def)
    next
      case (Some br)
      obtain x where "updateGoal ref (no_update\<lparr>up_status := Some Blocked, up_reason := Some br\<rparr>) FromModel (fst (snd a)) (snd (snd a)) st = (x, st')"
        using run Deny Some by (auto simp: admitAndQueueGoalContinuation_def handleDeniedContinuation_def split: sum.splits prod.splits)
      from blocked_room(1) [OF read _ _ this] show ?thesis using guard_reason [OF Some] not_queued by simp
    qed
  qed
qed

lemma attempts_room:
  "attempts ref as st = (rs, st') \<Longrightarrow> room st' + length (filter is_queued rs) \<le> room st"
proof (induction as arbitrary: st rs)
  case (Cons a as)
  obtain r st1 where one: "attempt ref a st = (r, st1)" by fastforce
  obtain rs1 st2 where rest: "attempts ref as st1 = (rs1, st2)" by fastforce
  have "rs = r # rs1" "st' = st2" using Cons.prems one rest by simp_all
  then show ?case using attempt_room [OF one] Cons.IH [of st1 rs1] rest by (auto split: if_splits)
qed simp

text \<open>C24: without progress that resets its count, a goal is continued at most eight times, whatever brings the
  continuations about; and an attempt that the count, a repeated output or a second cut output forbids
  blocks the goal for a reason that the next message of the user lifts.\<close>

theorem continuations_capped:
  assumes "attempts ref as st = (rs, st')"
  shows "length (filter is_queued rs) \<le> GOAL_CONTINUATION_CAP \<and>
    (\<forall>g inp i clock h st1. readGoalFile st' = Inr (Some g) \<and>
       evaluateGoalContinuation (Some g) inp \<in> {Deny AtCap, Deny Repetition, Deny LengthExhausted} \<and>
       admitAndQueueGoalContinuation ref g inp i clock st' = (Refused h, st1) \<longrightarrow>
       g_status h = Blocked \<and> room st1 = 0)"
proof
  have "room st \<le> GOAL_CONTINUATION_CAP" by (simp add: room_def split: sum.splits option.splits)
  then show "length (filter is_queued rs) \<le> GOAL_CONTINUATION_CAP" using attempts_room [OF assms] by simp
  have "g_status h = Blocked \<and> room st1 = 0"
    if read: "readGoalFile st' = Inr (Some g)" and verdict: "evaluateGoalContinuation (Some g) inp \<in> {Deny AtCap, Deny Repetition, Deny LengthExhausted}"
      and run: "admitAndQueueGoalContinuation ref g inp i clock st' = (Refused h, st1)" for g inp i clock h st1
  proof -
    obtain d r where d: "evaluateGoalContinuation (Some g) inp = Deny d" "blockedReasonForContinuationGuard d = Some r"
      using verdict by auto
    then have "updateGoal ref (no_update\<lparr>up_status := Some Blocked, up_reason := Some r\<rparr>) FromModel i clock st' = (Inr h, st1)"
      using run by (auto simp: admitAndQueueGoalContinuation_def handleDeniedContinuation_def split: sum.splits prod.splits)
    from blocked_room(2) [OF read _ _ this] show ?thesis using guard_reason [OF d(2)] by simp
  qed
  then show "\<forall>g inp i clock h st1. readGoalFile st' = Inr (Some g) \<and>
       evaluateGoalContinuation (Some g) inp \<in> {Deny AtCap, Deny Repetition, Deny LengthExhausted} \<and>
       admitAndQueueGoalContinuation ref g inp i clock st' = (Refused h, st1) \<longrightarrow>
       g_status h = Blocked \<and> room st1 = 0" by blast
qed

definition sample_attempt :: continuation_input where
  "sample_attempt = \<lparr>in_isIdle = True, in_hasPendingMessages = False, in_path = SessionStart, in_lastStopReason = None,
     in_consecutive = 0, in_lastSignature = None, in_currentSignature = Some (js ''s''), in_lengthRecoveries = 0,
     in_hashes = [], in_toolless = 0, in_continuationPending = False\<rparr>"

lemma sample_attempt_queued:
  assumes "readGoalFile st = Inr (Some g)" and "g_status g = Active" and "streak g < GOAL_CONTINUATION_CAP"
  shows "\<exists>h st'. attempts sample_ref [(sample_attempt, js ''j'', 8)] st = ([Queued h FullPrompt False], st')"
proof -
  have "evaluateGoalContinuation (Some g) (attempt_input sample_attempt g) = Continue FullPrompt False"
    using assms(2,3)
    by (auto simp: evaluateGoalContinuation_def isEligibleForGoalContinuation_def attempt_input_def sample_attempt_def
        hasRepeatedNormalizedOutputHash_def shouldShowStallNotice_def GOAL_STALL_TOOLLESS_THRESHOLD_def streak_def)
  then show ?thesis
    using assms(1) delivered_room [OF assms, of "js ''s''"]
    by (auto simp: attempt_def admitAndQueueGoalContinuation_def attempt_input_def sample_attempt_def)
qed

theorem continuations_capped_witness:
  "\<exists>h st'. attempts sample_ref [(sample_attempt, js ''j'', 8)]
      (writeGoalFile (Some (fresh_goal sample_ref (js ''i'') (js ''go'') Active None 7)) no_store) = ([Queued h FullPrompt False], st') \<and>
    length (filter is_queued [Queued h FullPrompt False]) \<le> 8"
proof -
  let ?g = "fresh_goal sample_ref (js ''i'') (js ''go'') Active None 7"
  have "safe_numbers ?g \<and> blocked_data ?g"
    by (simp add: fresh_goal_def safe_numbers_def safe_def blocked_data_def MAX_SAFE_INTEGER_def)
  then have "readGoalFile (writeGoalFile (Some ?g) no_store) = Inr (Some ?g)"
    by (intro holds_read) (simp_all add: holds_goal_def)
  moreover have "g_status ?g = Active" "streak ?g < GOAL_CONTINUATION_CAP"
    by (simp_all add: fresh_goal_def streak_def GOAL_CONTINUATION_CAP_def)
  ultimately obtain h st' where run: "attempts sample_ref [(sample_attempt, js ''j'', 8)] (writeGoalFile (Some ?g) no_store) =
      ([Queued h FullPrompt False], st')" using sample_attempt_queued by blast
  with continuations_capped [OF run] show ?thesis by (auto simp: GOAL_CONTINUATION_CAP_def)
qed

end
