(* ===== verification/GoalMonitor.thy ===== *)
theory GoalMonitor
  imports GoalContinuation
begin

text \<open>
  The scheduler of goal continuations (\<open>monitor-continuation.ts\<close>): the one timer that waits for a monitor or
  gives the user grace, the holds of inputs whose fate is not decided, and the continuations after a turn,
  after an aborted turn and when the timer fires. A method with an \<open>await\<close> is cut into the segments between
  them, since other events may come in between. The clock is an argument; the cache metrics that are only
  displayed and the wait ticker are left out. \<open>continuationPending\<close> is the variable of \<open>index.ts\<close>.
\<close>

section \<open>Delays\<close>

definition GOAL_MONITOR_CONTINUATION_FALLBACK_DELAY_MS :: rat where "GOAL_MONITOR_CONTINUATION_FALLBACK_DELAY_MS = 240000"
definition GOAL_MONITOR_CONTINUATION_MIN_DELAY_MS :: rat where "GOAL_MONITOR_CONTINUATION_MIN_DELAY_MS = 1000"
definition GOAL_MONITOR_CONTINUATION_HARD_CEILING_MS :: rat where "GOAL_MONITOR_CONTINUATION_HARD_CEILING_MS = 3600000"
definition GOAL_USER_GRACE_DELAY_MS :: rat where "GOAL_USER_GRACE_DELAY_MS = 10000"

text \<open>\<open>None\<close> is an argument that is absent or not a finite number.\<close>

definition resolveGoalMonitorContinuationDelayMs :: "rat option \<Rightarrow> rat option \<Rightarrow> rat" where
  "resolveGoalMonitorContinuationDelayMs cacheSafeWaitSeconds goalBackstopMaxSeconds =
     (case cacheSafeWaitSeconds of
        None \<Rightarrow> GOAL_MONITOR_CONTINUATION_FALLBACK_DELAY_MS
      | Some s \<Rightarrow>
          if s \<le> 0 then GOAL_MONITOR_CONTINUATION_FALLBACK_DELAY_MS
          else
            (let configuredCeilingMs =
               (case goalBackstopMaxSeconds of
                  None \<Rightarrow> GOAL_MONITOR_CONTINUATION_HARD_CEILING_MS
                | Some b \<Rightarrow> if b > 0 then min (b * 1000) GOAL_MONITOR_CONTINUATION_HARD_CEILING_MS
                    else GOAL_MONITOR_CONTINUATION_HARD_CEILING_MS)
             in max GOAL_MONITOR_CONTINUATION_MIN_DELAY_MS (min (s * 1000) configuredCeilingMs)))"

section \<open>The state\<close>

datatype wait_kind = MonitorWait | UserGraceWait

datatype monitor_event =
    TimerState bool wait_kind
  | ScheduledEvent jstr rat nat int
  | ResumedEvent jstr rat rat nat int
  | StallEvent jstr nat

record held_timer =
  held_kind :: wait_kind
  held_remaining :: rat
  held_at :: rat
  held_total :: rat
  held_drain :: bool

record system_abort =
  ab_goal :: Goal
  ab_messages :: "agent_message list"
  ab_by_user :: bool

record monitor =
  m_hasStarted :: bool
  m_ctx :: bool
  m_goal :: "Goal option"
  m_timer :: "(wait_kind \<times> bool \<times> rat) option"
  m_scheduled :: "wait_kind option"
  m_messages :: "agent_message list"
  m_lengthRecoveries :: "jstr \<rightharpoonup> nat"
  m_hashes :: "jstr list"
  m_toolless :: nat
  m_toollessGoal :: "jstr option"
  m_userInitiated :: bool
  m_scheduledAt :: "rat option"
  m_dueAt :: "rat option"
  m_delay :: "rat option"
  m_iteration :: nat
  m_scheduledIteration :: "nat option"
  m_held :: "held_timer option"
  m_holds :: "jstr list"
  m_wake :: "(jstr \<times> int) list"
  m_recovery :: "system_abort option"
  m_pending :: bool
  m_events :: "monitor_event list"

definition new_monitor :: monitor where
  "new_monitor = \<lparr>m_hasStarted = False, m_ctx = False, m_goal = None, m_timer = None, m_scheduled = None, m_messages = [],
     m_lengthRecoveries = Map.empty, m_hashes = [], m_toolless = 0, m_toollessGoal = None, m_userInitiated = False,
     m_scheduledAt = None, m_dueAt = None, m_delay = None, m_iteration = 0, m_scheduledIteration = None, m_held = None,
     m_holds = [], m_wake = [], m_recovery = None, m_pending = False, m_events = []\<rparr>"

text \<open>What the code asks of the context object.\<close>

record context_state =
  cx_isIdle :: bool
  cx_hasPendingMessages :: bool
  cx_cacheSafeWaitSeconds :: "rat option"
  cx_backstopMaxSeconds :: "rat option"
  cx_branch :: "branch_entry list"

definition emit_monitor :: "monitor_event \<Rightarrow> monitor \<Rightarrow> monitor" where
  "emit_monitor e m = m\<lparr>m_events := m_events m @ [e]\<rparr>"

definition activeWakeSourceCount :: "monitor \<Rightarrow> int" where
  "activeWakeSourceCount m = sum_list (map snd (m_wake m))"

definition resetCacheWarmIteration :: "monitor \<Rightarrow> monitor" where
  "resetCacheWarmIteration m = m\<lparr>m_iteration := 0, m_scheduledIteration := None\<rparr>"

definition resetToollessContinuationStreak :: "monitor \<Rightarrow> monitor" where
  "resetToollessContinuationStreak m = m\<lparr>m_toolless := 0, m_toollessGoal := None\<rparr>"

definition resetContinuationState :: "monitor \<Rightarrow> monitor" where
  "resetContinuationState m =
     resetCacheWarmIteration (resetToollessContinuationStreak
       (m\<lparr>m_recovery := None, m_lengthRecoveries := Map.empty, m_hashes := []\<rparr>))"

definition cancelTimer :: "monitor \<Rightarrow> monitor" where
  "cancelTimer m =
     (let m' = m\<lparr>m_scheduledAt := None, m_dueAt := None, m_delay := None, m_scheduledIteration := None, m_held := None,
        m_timer := None, m_scheduled := None\<rparr>
      in case m_scheduled m of None \<Rightarrow> m' | Some kind \<Rightarrow> emit_monitor (TimerState False kind) m')"

definition armTimer :: "rat \<Rightarrow> wait_kind \<Rightarrow> rat \<Rightarrow> bool \<Rightarrow> monitor \<Rightarrow> monitor" where
  "armTimer now kind delayMs drainFire m =
     m\<lparr>m_dueAt := Some (now + delayMs), m_timer := Some (kind, drainFire, now + delayMs)\<rparr>"

definition schedule :: "rat \<Rightarrow> context_state \<Rightarrow> Goal \<Rightarrow> wait_kind \<Rightarrow> monitor \<Rightarrow> monitor" where
  "schedule now cx goal kind m =
     (if m_scheduled m \<noteq> None then m
      else
        (let delayMs = (if kind = MonitorWait
               then (if m_ctx m then resolveGoalMonitorContinuationDelayMs (cx_cacheSafeWaitSeconds cx) (cx_backstopMaxSeconds cx)
                     else resolveGoalMonitorContinuationDelayMs None None)
               else GOAL_USER_GRACE_DELAY_MS);
             m = m\<lparr>m_delay := Some delayMs\<rparr>;
             m = (if kind = MonitorWait
               then (let n = m_iteration m + 1
                 in emit_monitor (ScheduledEvent (g_id goal) delayMs n (activeWakeSourceCount m))
                      (m\<lparr>m_iteration := n, m_scheduledIteration := Some n, m_scheduledAt := Some now\<rparr>))
               else m\<lparr>m_scheduledAt := None, m_scheduledIteration := None\<rparr>);
             m = emit_monitor (TimerState True kind) (m\<lparr>m_scheduled := Some kind\<rparr>)
         in if m_holds m \<noteq> []
            then m\<lparr>m_held := Some \<lparr>held_kind = kind, held_remaining = delayMs, held_at = now, held_total = delayMs, held_drain = False\<rparr>\<rparr>
            else armTimer now kind delayMs False m))"

definition noteContinuationStarted :: "monitor \<Rightarrow> monitor" where
  "noteContinuationStarted m = m\<lparr>m_userInitiated := False\<rparr>"

definition noteUserPrompt :: "monitor \<Rightarrow> monitor" where
  "noteUserPrompt m = resetContinuationState ((cancelTimer m)\<lparr>m_userInitiated := True\<rparr>)"

definition monitor_start :: "monitor \<Rightarrow> monitor" where
  "monitor_start m =
     (let m = cancelTimer m;
          m = (if m_hasStarted m then m\<lparr>m_ctx := True, m_wake := []\<rparr> else m\<lparr>m_ctx := True, m_hasStarted := True\<rparr>)
      in resetContinuationState (m\<lparr>m_goal := None, m_messages := [], m_holds := []\<rparr>))"

definition dispose :: "monitor \<Rightarrow> monitor" where
  "dispose m = resetContinuationState
     ((cancelTimer m)\<lparr>m_ctx := False, m_goal := None, m_wake := [], m_messages := [], m_holds := []\<rparr>)"

definition goal_changed :: "Goal option \<Rightarrow> monitor \<Rightarrow> bool" where
  "goal_changed goal m \<longleftrightarrow> map_option g_id goal \<noteq> map_option g_id (m_goal m)"

definition is_active :: "Goal option \<Rightarrow> bool" where
  "is_active goal \<longleftrightarrow> map_option g_status goal = Some Active"

definition syncGoal :: "Goal option \<Rightarrow> monitor \<Rightarrow> monitor" where
  "syncGoal goal m =
     (let m = (if goal_changed goal m then resetContinuationState m else m)\<lparr>m_goal := goal\<rparr>
      in if is_active goal then m else resetContinuationState (cancelTimer m))"

section \<open>Inputs whose fate is open\<close>

definition holdDirectInput :: "rat \<Rightarrow> jstr \<Rightarrow> monitor \<Rightarrow> monitor" where
  "holdDirectInput now i m =
     (if i \<in> set (m_holds m) then m
      else
        (let m = m\<lparr>m_holds := m_holds m @ [i]\<rparr>
         in if length (m_holds m) \<noteq> 1 \<or> m_timer m = None \<or> m_scheduled m = None then m
            else m\<lparr>m_held := Some \<lparr>held_kind = the (m_scheduled m),
                   held_remaining = max 0 ((case m_dueAt m of None \<Rightarrow> now | Some d \<Rightarrow> d) - now), held_at = now,
                   held_total = (case m_delay m of None \<Rightarrow> GOAL_USER_GRACE_DELAY_MS | Some d \<Rightarrow> d), held_drain = False\<rparr>,
                 m_timer := None, m_dueAt := None\<rparr>))"

definition resolveDirectInput :: "rat \<Rightarrow> jstr \<Rightarrow> bool \<Rightarrow> monitor \<Rightarrow> monitor" where
  "resolveDirectInput now i accepted m =
     (if i \<notin> set (m_holds m) then m
      else
        (let m = m\<lparr>m_holds := filter (\<lambda>j. j \<noteq> i) (m_holds m)\<rparr>
         in if accepted then noteUserPrompt (m\<lparr>m_held := None\<rparr>)
            else if m_holds m \<noteq> [] then m
            else (case m_held m of None \<Rightarrow> m
              | Some held \<Rightarrow> armTimer now (held_kind held) (max 0 (held_remaining held - max 0 (now - held_at held))) (held_drain held)
                  (m\<lparr>m_held := None\<rparr>))))"

definition armDrainFire :: "rat \<Rightarrow> monitor \<Rightarrow> monitor" where
  "armDrainFire now m =
     (if m_holds m \<noteq> []
      then m\<lparr>m_held := Some \<lparr>held_kind = MonitorWait, held_remaining = 1000, held_at = now, held_total = 1000, held_drain = True\<rparr>\<rparr>
      else armTimer now MonitorWait 1000 True (m\<lparr>m_timer := None, m_dueAt := None\<rparr>))"

text \<open>\<open>Map.set\<close> on the wake sources.\<close>

fun wake_set :: "jstr \<Rightarrow> int \<Rightarrow> (jstr \<times> int) list \<Rightarrow> (jstr \<times> int) list" where
  "wake_set s n [] = [(s, n)]"
| "wake_set s n ((t, k) # rest) = (if t = s then (s, n) # rest else (t, k) # wake_set s n rest)"

definition setWakeSourceCount :: "rat \<Rightarrow> jstr \<Rightarrow> int \<Rightarrow> monitor \<Rightarrow> monitor" where
  "setWakeSourceCount now source activeCount m =
     (let previousTotal = activeWakeSourceCount m;
          m = m\<lparr>m_wake := wake_set source activeCount (m_wake m)\<rparr>;
          nextTotal = activeWakeSourceCount m
      in if previousTotal > 0 \<and> nextTotal = 0
         then resetToollessContinuationStreak
                (if m_scheduled m = Some MonitorWait then armDrainFire now m else resetCacheWarmIteration m)
         else m)"

section \<open>Continuations\<close>

definition buildVerdictInput ::
  "(jstr \<Rightarrow> jstr) \<Rightarrow> context_state \<Rightarrow> Goal \<Rightarrow> GoalContinuationPath \<Rightarrow> agent_message list \<Rightarrow> monitor \<Rightarrow> continuation_input" where
  "buildVerdictInput lower cx goal path messages m =
     \<lparr>in_isIdle = cx_isIdle cx, in_hasPendingMessages = cx_hasPendingMessages cx, in_path = path,
      in_lastStopReason = lastStopReason messages,
      in_consecutive = (case consecutiveContinuations goal of None \<Rightarrow> 0 | Some n \<Rightarrow> n),
      in_lastSignature = lastContinuationSignature goal,
      in_currentSignature = Some (buildCurrentGoalContinuationSignature lower (cx_branch cx) goal (lastAssistantText messages)),
      in_lengthRecoveries = (case m_lengthRecoveries m (g_id goal) of None \<Rightarrow> 0 | Some n \<Rightarrow> n),
      in_hashes = m_hashes m, in_toolless = m_toolless m, in_continuationPending = m_pending m\<rparr>"

text \<open>\<open>slice(-3)\<close>\<close>

definition last3 :: "'a list \<Rightarrow> 'a list" where
  "last3 xs = drop (length xs - 3) xs"

definition recordAssistantOutput :: "(jstr \<Rightarrow> jstr) \<Rightarrow> agent_message list \<Rightarrow> bool \<Rightarrow> monitor \<Rightarrow> monitor" where
  "recordAssistantOutput lower messages turnUsedTools m =
     (if turnUsedTools then m\<lparr>m_hashes := []\<rparr>
      else if normalizeAssistantText lower (lastAssistantText messages) = [] then m
      else m\<lparr>m_hashes := last3 (m_hashes m @ [hashAssistantText lower (lastAssistantText messages)])\<rparr>)"

definition recordToollessContinuationTurn :: "Goal \<Rightarrow> bool \<Rightarrow> monitor \<Rightarrow> monitor" where
  "recordToollessContinuationTurn goal turnUsedTools m =
     (let m = (if m_toollessGoal m \<noteq> Some (g_id goal) then m\<lparr>m_toollessGoal := Some (g_id goal), m_toolless := 0\<rparr> else m)
      in if m_userInitiated m then m
         else if turnUsedTools then m\<lparr>m_toolless := 0\<rparr>
         else m\<lparr>m_toolless := m_toolless m + 1\<rparr>)"

definition resetLengthRecoveryAfterCleanStop :: "Goal option \<Rightarrow> agent_message list \<Rightarrow> monitor \<Rightarrow> monitor" where
  "resetLengthRecoveryAfterCleanStop goal messages m =
     (case goal of None \<Rightarrow> m
      | Some g \<Rightarrow> if lastStopReason messages \<noteq> Some SStop then m
          else m\<lparr>m_lengthRecoveries := (m_lengthRecoveries m)(g_id g := None)\<rparr>)"

text \<open>What \<open>admitAndQueue\<close> does with the outcome of the admission, once that has come.\<close>

definition admit_finish :: "Goal \<Rightarrow> continuation_input \<Rightarrow> admission \<Rightarrow> monitor \<Rightarrow> monitor" where
  "admit_finish goal inp r m =
     (case r of
        Failed e \<Rightarrow> m
      | Gone \<Rightarrow> resetToollessContinuationStreak (cancelTimer (m\<lparr>m_goal := None\<rparr>))
      | Queued g p stall \<Rightarrow>
          (let m = m\<lparr>m_pending := True\<rparr>;
               m = (if stall then emit_monitor (StallEvent (g_id goal) (m_toolless m)) m else m);
               m = (if in_lastStopReason inp = Some SLength
                    then m\<lparr>m_lengthRecoveries := (m_lengthRecoveries m)(g_id goal \<mapsto> in_lengthRecoveries inp + 1)\<rparr> else m);
               m = m\<lparr>m_goal := Some g\<rparr>
           in if g_status g \<noteq> Active then resetToollessContinuationStreak (cancelTimer m) else m)
      | Refused g \<Rightarrow>
          (let m = m\<lparr>m_goal := Some g\<rparr>
           in if g_status g \<noteq> Active then resetToollessContinuationStreak (cancelTimer m) else m))"

definition admitAndQueue ::
  "(jstr \<Rightarrow> jstr) \<Rightarrow> goal_ref \<Rightarrow> context_state \<Rightarrow> Goal \<Rightarrow> GoalContinuationPath \<Rightarrow> agent_message list \<Rightarrow> jstr \<Rightarrow> nat \<Rightarrow>
   monitor \<times> goal_store \<Rightarrow> admission \<times> monitor \<times> goal_store" where
  "admitAndQueue lower ref cx goal path messages new_id clock ms =
     (let inp = buildVerdictInput lower cx goal path messages (fst ms);
          (r, st) = admitAndQueueGoalContinuation ref goal inp new_id clock (snd ms)
      in (r, admit_finish goal inp r (fst ms), st))"

text \<open>The goal a method returns after an admission.\<close>

definition admitted_goal :: "Goal \<Rightarrow> admission \<Rightarrow> Goal" where
  "admitted_goal goal r = (case r of Queued g p s \<Rightarrow> g | Refused g \<Rightarrow> g | _ \<Rightarrow> goal)"

text \<open>\<open>continueIfEligible\<close>: the segment up to the admission, which says whether there is to be one, and with
  which goal and path; the rest.\<close>

definition fire_begin :: "context_state \<Rightarrow> wait_kind \<Rightarrow> bool \<Rightarrow> monitor \<Rightarrow> Goal option \<times> monitor" where
  "fire_begin cx kind drainFire m =
     (let m' = emit_monitor (TimerState False kind)
            (m\<lparr>m_timer := None, m_dueAt := None, m_scheduled := None, m_scheduledAt := None, m_delay := None,
              m_scheduledIteration := None\<rparr>)
      in if \<not> m_ctx m \<or> \<not> is_active (m_goal m) \<or> \<not> cx_isIdle cx \<or> cx_hasPendingMessages cx then (None, m')
         else if kind = MonitorWait \<and> activeWakeSourceCount m = 0 \<and> \<not> drainFire then (None, m')
         else (m_goal m, m'))"

definition fire_end :: "wait_kind \<Rightarrow> bool \<Rightarrow> Goal \<Rightarrow> rat \<Rightarrow> rat \<Rightarrow> nat option \<Rightarrow> admission \<Rightarrow> monitor \<Rightarrow> monitor" where
  "fire_end kind drainFire goal delayMs waitedMs iteration r m =
     (case (kind, r, iteration) of
        (MonitorWait, Queued g p s, Some n) \<Rightarrow>
          (let m = emit_monitor (ResumedEvent (g_id goal) delayMs waitedMs n (activeWakeSourceCount m)) m
           in if drainFire \<or> g_status g \<noteq> Active then resetCacheWarmIteration m else m)
      | _ \<Rightarrow> m)"

definition fire_times :: "rat \<Rightarrow> wait_kind \<Rightarrow> monitor \<Rightarrow> rat \<times> rat" where
  "fire_times now kind m =
     (let delayMs = (case m_delay m of Some d \<Rightarrow> d
        | None \<Rightarrow> if kind = MonitorWait then GOAL_MONITOR_CONTINUATION_FALLBACK_DELAY_MS else GOAL_USER_GRACE_DELAY_MS)
      in (delayMs, case m_scheduledAt m of None \<Rightarrow> delayMs | Some t \<Rightarrow> max 0 (now - t)))"

definition continueIfEligible ::
  "(jstr \<Rightarrow> jstr) \<Rightarrow> goal_ref \<Rightarrow> context_state \<Rightarrow> rat \<Rightarrow> wait_kind \<Rightarrow> bool \<Rightarrow> jstr \<Rightarrow> nat \<Rightarrow> monitor \<times> goal_store \<Rightarrow>
   monitor \<times> goal_store" where
  "continueIfEligible lower ref cx now kind drainFire new_id clock ms =
     (case fire_begin cx kind drainFire (fst ms) of
        (None, m) \<Rightarrow> (m, snd ms)
      | (Some goal, m) \<Rightarrow>
          (let (delayMs, waitedMs) = fire_times now kind (fst ms);
               (r, m, st) = admitAndQueue lower ref cx goal (if kind = MonitorWait then MonitorDelayed else UserGrace)
                  (m_messages m) new_id clock (m, snd ms)
           in (fire_end kind drainFire goal delayMs waitedMs (m_scheduledIteration (fst ms)) r m, st)))"

text \<open>\<open>afterAgentEnd\<close> up to the first \<open>await\<close>; the result says whether the goal is active, and whether its count of
  continuations is to be reset.\<close>

definition agent_end_begin ::
  "(jstr \<Rightarrow> jstr) \<Rightarrow> context_state \<Rightarrow> Goal option \<Rightarrow> agent_message list \<Rightarrow> monitor \<Rightarrow> bool option \<times> monitor" where
  "agent_end_begin lower cx goal messages m =
     (let m = (if goal_changed goal m then resetContinuationState m else m)
            \<lparr>m_ctx := True, m_goal := goal, m_messages := messages\<rparr>;
          m = resetLengthRecoveryAfterCleanStop goal messages m;
          turnUsedTools = continuationTurnUsedTools messages;
          m = recordAssistantOutput lower messages turnUsedTools m
      in case goal of
           None \<Rightarrow> (None, resetContinuationState (cancelTimer m))
         | Some g \<Rightarrow>
             if g_status g \<noteq> Active then (None, resetContinuationState (cancelTimer m))
             else
               (let m = recordToollessContinuationTurn g turnUsedTools m
                in (Some (\<not> m_userInitiated m \<and>
                      (turnUsedTools \<or> hasGoalContinuationProgress (buildVerdictInput lower cx g Immediate messages m))), m)))"

text \<open>The next segment; the result says whether the goal is to be admitted at once.\<close>

definition agent_end_decide ::
  "(jstr \<Rightarrow> jstr) \<Rightarrow> context_state \<Rightarrow> rat \<Rightarrow> Goal \<Rightarrow> agent_message list \<Rightarrow> monitor \<Rightarrow> bool \<times> monitor" where
  "agent_end_decide lower cx now goal messages m =
     (let m = m\<lparr>m_goal := Some goal\<rparr>;
          verdict = evaluateGoalContinuation (Some goal) (buildVerdictInput lower cx goal Immediate messages m)
      in if m_userInitiated m then
           (let m = cancelTimer (m\<lparr>m_userInitiated := False\<rparr>)
            in case verdict of
                 Continue p s \<Rightarrow> (False, schedule now cx goal UserGraceWait m)
               | Deny reason \<Rightarrow> (reason \<in> {AtCap, Repetition, LengthExhausted}, m))
         else if verdict = Deny NotEligible then (False, m)
         else if activeWakeSourceCount m = 0 then (True, cancelTimer m)
         else (False, schedule now cx goal MonitorWait m))"

definition afterAgentEnd ::
  "(jstr \<Rightarrow> jstr) \<Rightarrow> goal_ref \<Rightarrow> context_state \<Rightarrow> rat \<Rightarrow> Goal option \<Rightarrow> agent_message list \<Rightarrow> jstr \<Rightarrow> nat \<Rightarrow> monitor \<times> goal_store \<Rightarrow>
   (goal_error + Goal option) \<times> monitor \<times> goal_store" where
  "afterAgentEnd lower ref cx now goal messages new_id clock ms =
     (case agent_end_begin lower cx goal messages (fst ms) of
        (None, m) \<Rightarrow> (Inr goal, m, snd ms)
      | (Some resets, m) \<Rightarrow>
          (case (if resets then resetContinuationStreak (snd ms) else (Inr goal, snd ms)) of
             (Inl e, st) \<Rightarrow> (Inl e, m, st)
           | (Inr g', st) \<Rightarrow>
               (let g = (case g' of None \<Rightarrow> the goal | Some g \<Rightarrow> g);
                    (admit, m) = agent_end_decide lower cx now g messages m
                in if \<not> admit then (Inr (Some g), m, st)
                   else
                     (let (r, m, st) = admitAndQueue lower ref cx g Immediate messages new_id clock (m, st)
                      in (case r of Failed e \<Rightarrow> Inl e | _ \<Rightarrow> Inr (Some (admitted_goal g r)), m, st)))))"

definition afterSystemAbort ::
  "context_state \<Rightarrow> rat \<Rightarrow> Goal option \<Rightarrow> agent_message list \<Rightarrow> bool \<Rightarrow> bool \<Rightarrow> monitor \<Rightarrow> monitor" where
  "afterSystemAbort cx now goal messages willRetry by_user m =
     (let m = noteContinuationStarted m;
          m = (if goal_changed goal m then resetContinuationState m else m)
            \<lparr>m_recovery := None, m_ctx := True, m_goal := goal, m_messages := messages\<rparr>
      in case goal of
           None \<Rightarrow> resetContinuationState m
         | Some g \<Rightarrow>
             if g_status g \<noteq> Active then resetContinuationState m
             else if willRetry then m
             else if activeWakeSourceCount m > 0 then schedule now cx g MonitorWait m
             else if lastStopReason messages = Some SError
             then m\<lparr>m_recovery := Some \<lparr>ab_goal = g, ab_messages = messages, ab_by_user = by_user\<rparr>\<rparr>
             else m)"

definition afterAgentSettled ::
  "(jstr \<Rightarrow> jstr) \<Rightarrow> goal_ref \<Rightarrow> context_state \<Rightarrow> jstr \<Rightarrow> nat \<Rightarrow> monitor \<times> goal_store \<Rightarrow> monitor \<times> goal_store" where
  "afterAgentSettled lower ref cx new_id clock ms =
     (let m = (fst ms)\<lparr>m_recovery := None\<rparr>
      in case m_recovery (fst ms) of
           None \<Rightarrow> (m, snd ms)
         | Some a \<Rightarrow> if ab_by_user a then (m, snd ms)
             else snd (admitAndQueue lower ref cx (ab_goal a) SystemRecovery (ab_messages a) new_id clock (m, snd ms)))"

end
