(* ===== verification/GoalMonitorProps.thy ===== *)
theory GoalMonitorProps
  imports GoalMonitor
begin

text \<open>
  However events interleave, a continuation that is scheduled is never lost to the scheduler: it has its timer, or
  waits for an input that is held; the timer runs only when no input is held; and listeners are told exactly when
  it is armed. And the one way in which a continuation that is due does not happen.
\<close>

section \<open>The steps\<close>

text \<open>Every segment between two \<open>await\<close>s, with any outcome of what was awaited.\<close>

inductive monitor_step :: "monitor \<Rightarrow> monitor \<Rightarrow> bool" where
  Start: "monitor_step m (monitor_start m)"
| AgentEndBegin: "monitor_step m (snd (agent_end_begin lower cx goal messages m))"
| AgentEndDecide: "monitor_step m (snd (agent_end_decide lower cx now g messages m))"
| Admitted: "monitor_step m (admit_finish g inp r m)"
| SystemAbort: "monitor_step m (afterSystemAbort cx now goal messages willRetry by_user m)"
| Settled: "monitor_step m (m\<lparr>m_recovery := None\<rparr>)"
| Sync: "monitor_step m (syncGoal goal m)"
| Hold: "monitor_step m (holdDirectInput now i m)"
| Resolve: "monitor_step m (resolveDirectInput now i accepted m)"
| UserPrompt: "monitor_step m (noteUserPrompt m)"
| Started: "monitor_step m (noteContinuationStarted m)"
| AgentStart: "monitor_step m (m\<lparr>m_pending := False\<rparr>)"
| Wake: "monitor_step m (setWakeSourceCount now source n m)"
| Fire: "m_timer m = Some (kind, drain, due) \<Longrightarrow> due \<le> now \<Longrightarrow> monitor_step m (snd (fire_begin cx kind drain m))"
| Fired: "monitor_step m (fire_end kind drain g d w iteration r m)"
| Dispose: "monitor_step m (dispose m)"

inductive monitor_reachable :: "monitor \<Rightarrow> bool" where
  Init: "monitor_reachable new_monitor"
| Step: "monitor_reachable m \<Longrightarrow> monitor_step m m' \<Longrightarrow> monitor_reachable m'"

section \<open>The invariant\<close>

text \<open>What listeners of the timer state believe.\<close>

fun last_state :: "monitor_event list \<Rightarrow> wait_kind option" where
  "last_state [] = None"
| "last_state (TimerState armed kind # es) = (if armed then Some kind else None)"
| "last_state (ScheduledEvent g d n c # es) = last_state es"
| "last_state (ResumedEvent g d w n c # es) = last_state es"
| "last_state (StallEvent g n # es) = last_state es"

definition announced :: "monitor \<Rightarrow> wait_kind option" where
  "announced m = last_state (rev (m_events m))"

definition timer_inv :: "monitor \<Rightarrow> bool" where
  "timer_inv m \<longleftrightarrow>
     announced m = m_scheduled m \<and>
     (case m_timer m of
        None \<Rightarrow> m_dueAt m = None
      | Some (kind, drain, due) \<Rightarrow> m_scheduled m = Some kind \<and> m_dueAt m = Some due \<and> m_holds m = [] \<and> m_held m = None) \<and>
     (case m_held m of None \<Rightarrow> m_scheduled m \<noteq> None \<longrightarrow> m_timer m \<noteq> None
      | Some h \<Rightarrow> m_scheduled m = Some (held_kind h) \<and> m_holds m \<noteq> [])"

text \<open>The fields the invariant reads.\<close>

definition timer_view :: "monitor \<Rightarrow> _" where
  "timer_view m = (announced m, m_scheduled m, m_timer m, m_dueAt m, m_holds m, m_held m)"

lemma timer_inv_view: "timer_view m = timer_view m' \<Longrightarrow> timer_inv m = timer_inv m'"
  unfolding timer_view_def timer_inv_def by (elim Pair_inject) (simp only:)

lemma announced_emit [simp]:
  "announced (emit_monitor (TimerState b k) m) = (if b then Some k else None)"
  "announced (emit_monitor (ScheduledEvent g d n c) m) = announced m"
  "announced (emit_monitor (ResumedEvent g d w n c) m) = announced m"
  "announced (emit_monitor (StallEvent g s) m) = announced m"
  by (simp_all add: announced_def emit_monitor_def)

lemma monitor_emit_fields [simp]:
  "m_scheduled (emit_monitor e m) = m_scheduled m" "m_timer (emit_monitor e m) = m_timer m"
  "m_dueAt (emit_monitor e m) = m_dueAt m" "m_holds (emit_monitor e m) = m_holds m" "m_held (emit_monitor e m) = m_held m"
  "m_wake (emit_monitor e m) = m_wake m" "m_goal (emit_monitor e m) = m_goal m" "m_ctx (emit_monitor e m) = m_ctx m"
  "m_userInitiated (emit_monitor e m) = m_userInitiated m" "m_scheduledAt (emit_monitor e m) = m_scheduledAt m"
  "m_delay (emit_monitor e m) = m_delay m" "m_scheduledIteration (emit_monitor e m) = m_scheduledIteration m"
  "m_iteration (emit_monitor e m) = m_iteration m" "m_pending (emit_monitor e m) = m_pending m"
  by (simp_all add: emit_monitor_def)

lemma announced_update [simp]:
  "announced (m\<lparr>m_goal := a\<rparr>) = announced m" "announced (m\<lparr>m_ctx := b\<rparr>) = announced m"
  "announced (m\<lparr>m_hasStarted := b\<rparr>) = announced m" "announced (m\<lparr>m_messages := ms\<rparr>) = announced m"
  "announced (m\<lparr>m_lengthRecoveries := lr\<rparr>) = announced m" "announced (m\<lparr>m_hashes := hs\<rparr>) = announced m"
  "announced (m\<lparr>m_toolless := n\<rparr>) = announced m" "announced (m\<lparr>m_toollessGoal := x\<rparr>) = announced m"
  "announced (m\<lparr>m_userInitiated := b\<rparr>) = announced m" "announced (m\<lparr>m_scheduledAt := t\<rparr>) = announced m"
  "announced (m\<lparr>m_dueAt := t\<rparr>) = announced m" "announced (m\<lparr>m_delay := t\<rparr>) = announced m"
  "announced (m\<lparr>m_iteration := n\<rparr>) = announced m" "announced (m\<lparr>m_scheduledIteration := i\<rparr>) = announced m"
  "announced (m\<lparr>m_held := h\<rparr>) = announced m" "announced (m\<lparr>m_holds := ds\<rparr>) = announced m"
  "announced (m\<lparr>m_wake := ws\<rparr>) = announced m" "announced (m\<lparr>m_recovery := rc\<rparr>) = announced m"
  "announced (m\<lparr>m_pending := b\<rparr>) = announced m" "announced (m\<lparr>m_timer := tm\<rparr>) = announced m"
  "announced (m\<lparr>m_scheduled := k\<rparr>) = announced m"
  by (simp_all add: announced_def)

lemmas resets = resetContinuationState_def resetCacheWarmIteration_def resetToollessContinuationStreak_def

lemma reset_view [simp]:
  "timer_view (resetContinuationState m) = timer_view m" "timer_view (resetCacheWarmIteration m) = timer_view m"
  "timer_view (resetToollessContinuationStreak m) = timer_view m"
  by (simp_all add: timer_view_def resets)

lemma inv_resets [simp]:
  "timer_inv (resetContinuationState m) = timer_inv m" "timer_inv (resetCacheWarmIteration m) = timer_inv m"
  "timer_inv (resetToollessContinuationStreak m) = timer_inv m"
  by (rule timer_inv_view, simp)+

lemma inv_updates [simp]:
  "timer_inv (m\<lparr>m_goal := a\<rparr>) = timer_inv m" "timer_inv (m\<lparr>m_ctx := b\<rparr>) = timer_inv m"
  "timer_inv (m\<lparr>m_hasStarted := b\<rparr>) = timer_inv m" "timer_inv (m\<lparr>m_messages := ms\<rparr>) = timer_inv m"
  "timer_inv (m\<lparr>m_lengthRecoveries := lr\<rparr>) = timer_inv m" "timer_inv (m\<lparr>m_hashes := hs\<rparr>) = timer_inv m"
  "timer_inv (m\<lparr>m_toolless := n\<rparr>) = timer_inv m" "timer_inv (m\<lparr>m_toollessGoal := x\<rparr>) = timer_inv m"
  "timer_inv (m\<lparr>m_userInitiated := b\<rparr>) = timer_inv m" "timer_inv (m\<lparr>m_wake := ws\<rparr>) = timer_inv m"
  "timer_inv (m\<lparr>m_recovery := rc\<rparr>) = timer_inv m" "timer_inv (m\<lparr>m_pending := b\<rparr>) = timer_inv m"
  "timer_inv (m\<lparr>m_iteration := k\<rparr>) = timer_inv m"
  by (rule timer_inv_view, simp add: timer_view_def)+

lemma inv_emit [simp]:
  "timer_inv (emit_monitor (ScheduledEvent g d n c) m) = timer_inv m"
  "timer_inv (emit_monitor (ResumedEvent g d w n c) m) = timer_inv m"
  "timer_inv (emit_monitor (StallEvent g s) m) = timer_inv m"
  by (rule timer_inv_view, simp add: timer_view_def)+

section \<open>Every segment keeps it\<close>

text \<open>After a cancellation nothing is scheduled.\<close>

definition unscheduled :: "monitor \<Rightarrow> bool" where
  "unscheduled m \<longleftrightarrow> announced m = None \<and> m_scheduled m = None \<and> m_timer m = None \<and> m_dueAt m = None \<and> m_held m = None"

lemma unscheduled_inv: "unscheduled m \<Longrightarrow> timer_inv m"
  by (simp add: unscheduled_def timer_inv_def)

lemma cancel_unscheduled: "announced m = m_scheduled m \<Longrightarrow> unscheduled (cancelTimer m)"
  by (cases "m_scheduled m") (simp_all add: cancelTimer_def unscheduled_def Let_def)

lemma inv_announced: "timer_inv m \<Longrightarrow> announced m = m_scheduled m"
  by (simp add: timer_inv_def)

lemma cancel_inv [simp]: "timer_inv m \<Longrightarrow> timer_inv (cancelTimer m)"
  by (rule unscheduled_inv [OF cancel_unscheduled [OF inv_announced]])

lemma cancel_fields [simp]:
  "m_wake (cancelTimer m) = m_wake m" "m_holds (cancelTimer m) = m_holds m" "m_goal (cancelTimer m) = m_goal m"
  "m_ctx (cancelTimer m) = m_ctx m" "m_userInitiated (cancelTimer m) = m_userInitiated m" "m_hasStarted (cancelTimer m) = m_hasStarted m"
  "m_timer (cancelTimer m) = None" "m_scheduled (cancelTimer m) = None" "m_held (cancelTimer m) = None"
  by (simp_all add: cancelTimer_def Let_def emit_monitor_def split: option.splits)

lemma start_inv: "timer_inv m \<Longrightarrow> timer_inv (monitor_start m)"
  using cancel_unscheduled [of m] inv_announced [of m] unfolding monitor_start_def Let_def
  by (intro unscheduled_inv [THEN inv_resets(1) [THEN iffD2]]) (simp add: unscheduled_def)

lemma dispose_inv: "timer_inv m \<Longrightarrow> timer_inv (dispose m)"
  using cancel_unscheduled [of m] inv_announced [of m] unfolding dispose_def
  by (intro unscheduled_inv [THEN inv_resets(1) [THEN iffD2]]) (simp add: unscheduled_def)

lemma schedule_inv: "timer_inv m \<Longrightarrow> timer_inv (schedule now cx g kind m)"
  by (cases "m_timer m"; cases "m_held m"; cases "m_scheduled m")
    (auto simp: schedule_def armTimer_def timer_inv_def Let_def split: if_splits)

lemma prompt_inv: "timer_inv m \<Longrightarrow> timer_inv (noteUserPrompt m)"
  by (simp add: noteUserPrompt_def)

lemma hold_inv: "timer_inv m \<Longrightarrow> timer_inv (holdDirectInput now i m)"
  by (cases "m_timer m"; cases "m_held m") (auto simp: holdDirectInput_def timer_inv_def Let_def)

lemma resolve_inv:
  assumes "timer_inv m"
  shows "timer_inv (resolveDirectInput now i accepted m)"
proof -
  let ?m = "m\<lparr>m_holds := filter (\<lambda>j. j \<noteq> i) (m_holds m)\<rparr>"
  have "timer_inv (noteUserPrompt (?m\<lparr>m_held := None\<rparr>))"
    using cancel_unscheduled [of "?m\<lparr>m_held := None\<rparr>"] inv_announced [OF assms] by (simp add: noteUserPrompt_def unscheduled_inv)
  moreover have "timer_inv (resolveDirectInput now i False m)"
    using assms by (cases "m_timer m"; cases "m_held m")
      (auto simp: resolveDirectInput_def armTimer_def timer_inv_def Let_def)
  ultimately show ?thesis using assms by (cases accepted) (auto simp: resolveDirectInput_def Let_def)
qed

lemma drain_inv: "timer_inv m \<Longrightarrow> m_scheduled m = Some MonitorWait \<Longrightarrow> timer_inv (armDrainFire now m)"
  by (cases "m_timer m"; cases "m_held m") (auto simp: armDrainFire_def armTimer_def timer_inv_def)

lemma wake_inv: "timer_inv m \<Longrightarrow> timer_inv (setWakeSourceCount now s n m)"
  using drain_inv [of "m\<lparr>m_wake := wake_set s n (m_wake m)\<rparr>" now] by (simp add: setWakeSourceCount_def Let_def)

lemma fire_inv:
  assumes "timer_inv m" and "m_timer m = Some (kind, drain, due)"
  shows "timer_inv (snd (fire_begin cx kind drain m))"
proof -
  have "m_held m = None" using assms by (simp add: timer_inv_def)
  then show ?thesis using assms by (simp add: fire_begin_def timer_inv_def Let_def)
qed

lemma fired_inv: "timer_inv m \<Longrightarrow> timer_inv (fire_end kind drain g d w iteration r m)"
  by (simp add: fire_end_def Let_def split: wait_kind.splits admission.splits option.splits)

lemma admitted_inv: "timer_inv m \<Longrightarrow> timer_inv (admit_finish g inp r m)"
  by (simp add: admit_finish_def Let_def split: admission.splits)

lemma sync_inv: "timer_inv m \<Longrightarrow> timer_inv (syncGoal goal m)"
  by (simp add: syncGoal_def Let_def)

lemma abort_inv: "timer_inv m \<Longrightarrow> timer_inv (afterSystemAbort cx now goal messages w u m)"
  by (simp add: afterSystemAbort_def noteContinuationStarted_def Let_def schedule_inv split: option.splits)

lemma output_inv [simp]:
  "timer_inv (recordAssistantOutput lower messages t m) = timer_inv m"
  "timer_inv (recordToollessContinuationTurn g t m) = timer_inv m"
  "timer_inv (resetLengthRecoveryAfterCleanStop goal messages m) = timer_inv m"
  by (simp_all add: recordAssistantOutput_def recordToollessContinuationTurn_def resetLengthRecoveryAfterCleanStop_def Let_def
      split: option.splits)

lemma begin_inv: "timer_inv m \<Longrightarrow> timer_inv (snd (agent_end_begin lower cx goal messages m))"
  by (simp add: agent_end_begin_def Let_def split: option.splits)

lemma decide_inv: "timer_inv m \<Longrightarrow> timer_inv (snd (agent_end_decide lower cx now g messages m))"
  by (simp add: agent_end_decide_def Let_def schedule_inv split: GoalContinuationVerdict.splits)

lemmas segments_inv = start_inv dispose_inv prompt_inv hold_inv resolve_inv wake_inv fire_inv fired_inv admitted_inv
  sync_inv abort_inv begin_inv decide_inv

lemma monitor_step_inv: "monitor_step m m' \<Longrightarrow> timer_inv m \<Longrightarrow> timer_inv m'"
  by (induction rule: monitor_step.induct) (simp_all add: segments_inv noteContinuationStarted_def)

lemma reachable_inv: "monitor_reachable m \<Longrightarrow> timer_inv m"
proof (induction rule: monitor_reachable.induct)
  case Init
  then show ?case by (simp add: new_monitor_def timer_inv_def announced_def)
next
  case (Step m m')
  then show ?case by (blast intro: monitor_step_inv)
qed

section \<open>The methods are sequences of segments\<close>

lemma admit_steps: "monitor_reachable m \<Longrightarrow> monitor_reachable (fst (snd (admitAndQueue lower ref cx g path messages i clock (m, st))))"
  by (auto simp: admitAndQueue_def Let_def split: prod.splits intro: Step Admitted)

lemma fire_steps:
  assumes "monitor_reachable m" and "m_timer m = Some (kind, drain, due)" and "due \<le> now"
  shows "monitor_reachable (fst (continueIfEligible lower ref cx now kind drain i clock (m, st)))"
proof -
  obtain g m1 where one: "fire_begin cx kind drain m = (g, m1)" by fastforce
  then have m1: "monitor_reachable m1" using Fire [OF assms(2,3), of cx] Step [OF assms(1)] by simp
  show ?thesis
  proof (cases g)
    case None
    then show ?thesis using one m1 by (simp add: continueIfEligible_def)
  next
    case (Some goal)
    obtain d w where t: "fire_times now kind m = (d, w)" by fastforce
    obtain r m2 st2 where two: "admitAndQueue lower ref cx goal (if kind = MonitorWait then MonitorDelayed else UserGrace)
        (m_messages m1) i clock (m1, st) = (r, m2, st2)" by (metis prod_cases3)
    then have "monitor_reachable m2" using admit_steps [OF m1] by (metis fst_conv snd_conv)
    then show ?thesis using one two t Some by (auto simp: continueIfEligible_def intro: Step Fired)
  qed
qed

lemma agent_end_steps:
  assumes "monitor_reachable m"
  shows "monitor_reachable (fst (snd (afterAgentEnd lower ref cx now goal messages i clock (m, st))))"
proof -
  obtain resets m1 where one: "agent_end_begin lower cx goal messages m = (resets, m1)" by fastforce
  then have m1: "monitor_reachable m1" using AgentEndBegin [of m lower cx goal messages] Step [OF assms] by simp
  show ?thesis
  proof (cases resets)
    case None
    then show ?thesis using one m1 by (simp add: afterAgentEnd_def)
  next
    case (Some b)
    obtain e st1 where r: "(if b then resetContinuationStreak st else (Inr goal, st)) = (e, st1)" by fastforce
    show ?thesis
    proof (cases e)
      case (Inl err)
      then show ?thesis
        unfolding afterAgentEnd_def fst_conv snd_conv one prod.case Some option.case r sum.case by (simp add: m1)
    next
      case (Inr g')
      let ?g = "case g' of None \<Rightarrow> the goal | Some g \<Rightarrow> g"
      obtain admit m2 where two: "agent_end_decide lower cx now ?g messages m1 = (admit, m2)" by fastforce
      then have m2: "monitor_reachable m2" using AgentEndDecide [of m1 lower cx now ?g messages] Step [OF m1] by simp
      have "monitor_reachable (fst (snd (admitAndQueue lower ref cx ?g Immediate messages i clock (m2, st1))))"
        by (rule admit_steps [OF m2])
      then show ?thesis
        unfolding afterAgentEnd_def fst_conv snd_conv one prod.case Some option.case r Inr sum.case Let_def two
        using m2 by (auto split: prod.splits)
    qed
  qed
qed

lemma settled_steps:
  assumes "monitor_reachable m"
  shows "monitor_reachable (fst (afterAgentSettled lower ref cx i clock (m, st)))"
proof -
  have m: "monitor_reachable (m\<lparr>m_recovery := None\<rparr>)" by (rule Step [OF assms Settled])
  then show ?thesis using admit_steps [OF m] by (simp add: afterAgentSettled_def Let_def split: option.splits)
qed

section \<open>What the scheduler guarantees\<close>

text \<open>C25: in whatever order turns, inputs, wake sources, aborts and the timer come, a continuation is scheduled exactly
  when it has a running timer or waits for an input that is held; the timer never runs while an input is
  held, and what waits is resumed when the last hold goes; and listeners last heard of exactly what is scheduled.\<close>

theorem scheduled_continuation_kept:
  assumes "monitor_reachable m"
  shows "(m_scheduled m \<noteq> None \<longleftrightarrow> m_timer m \<noteq> None \<or> m_held m \<noteq> None) \<and>
    (m_timer m = None \<or> m_held m = None) \<and> (m_timer m \<noteq> None \<longrightarrow> m_holds m = []) \<and>
    (\<forall>i now. m_held m \<noteq> None \<and> set (m_holds m) = {i} \<longrightarrow> m_timer (resolveDirectInput now i False m) \<noteq> None) \<and>
    last_state (rev (m_events m)) = m_scheduled m"
proof -
  have inv: "timer_inv m" by (rule reachable_inv [OF assms])
  have resumed: "m_timer (resolveDirectInput now i False m) \<noteq> None" if "m_held m = Some h" "set (m_holds m) = {i}" for h i now
  proof -
    have "filter (\<lambda>j. j \<noteq> i) (m_holds m) = []" using that(2) by (simp add: filter_empty_conv)
    then show ?thesis using that by (simp add: resolveDirectInput_def armTimer_def)
  qed
  show ?thesis
    using inv resumed
    by (cases "m_timer m"; cases "m_held m") (auto simp: timer_inv_def announced_def)
qed

definition quiet_context :: context_state where
  "quiet_context = \<lparr>cx_isIdle = True, cx_hasPendingMessages = False, cx_cacheSafeWaitSeconds = None,
     cx_backstopMaxSeconds = None, cx_branch = []\<rparr>"

definition active_goal :: Goal where
  "active_goal = fresh_goal sample_ref (js ''i'') (js ''go'') Active None 7"

text \<open>A turn that the system aborted while one wake source is live.\<close>

definition waiting_monitor :: monitor where
  "waiting_monitor = afterSystemAbort quiet_context 0 (Some active_goal) [] False False (setWakeSourceCount 0 (js ''s'') 1 new_monitor)"

lemma waiting_reachable: "monitor_reachable waiting_monitor"
  unfolding waiting_monitor_def by (rule Step [OF Step [OF Init Wake] SystemAbort])

lemma waiting_fields:
  "m_timer waiting_monitor = Some (MonitorWait, False, 240000)" "m_goal waiting_monitor = Some active_goal"
  "m_ctx waiting_monitor" "m_wake waiting_monitor = [(js ''s'', 1)]" "m_scheduled waiting_monitor = Some MonitorWait"
  by (simp_all add: waiting_monitor_def afterSystemAbort_def setWakeSourceCount_def new_monitor_def activeWakeSourceCount_def
      active_goal_def fresh_goal_def goal_changed_def noteContinuationStarted_def resets schedule_def armTimer_def
      resolveGoalMonitorContinuationDelayMs_def GOAL_MONITOR_CONTINUATION_FALLBACK_DELAY_MS_def Let_def
      quiet_context_def)

theorem scheduled_continuation_kept_witness:
  "m_scheduled waiting_monitor \<noteq> None \<and> m_holds waiting_monitor = []"
  using scheduled_continuation_kept [OF waiting_reachable] waiting_fields by simp

text \<open>The delays lie between a second and an hour.\<close>

lemma delay_bounded:
  "1000 \<le> resolveGoalMonitorContinuationDelayMs s b \<and> resolveGoalMonitorContinuationDelayMs s b \<le> 3600000"
  by (simp add: resolveGoalMonitorContinuationDelayMs_def GOAL_MONITOR_CONTINUATION_FALLBACK_DELAY_MS_def
      GOAL_MONITOR_CONTINUATION_MIN_DELAY_MS_def GOAL_MONITOR_CONTINUATION_HARD_CEILING_MS_def Let_def min_le_iff_disj split: option.splits)

text \<open>An input that is held and then rejected does not move the moment at which the timer runs out.\<close>

lemma rejected_input_keeps_time:
  assumes "timer_inv m" and "m_timer m = Some (kind, drain, due)" and "t \<le> u"
  shows "m_timer (resolveDirectInput u i False (holdDirectInput t i m)) = Some (kind, False, max due u)"
proof -
  have "m_holds m = []" "m_scheduled m = Some kind" "m_dueAt m = Some due" using assms(1,2) by (simp_all add: timer_inv_def)
  then show ?thesis using assms(2,3) by (simp add: holdDirectInput_def resolveDirectInput_def armTimer_def max_def)
qed

text \<open>When the last wake source ends, a timer of a second is to continue the goal. An input that is held in this
  second and rejected takes the mark off the timer: it fires, finds no wake source, and the active goal is
  left with nothing scheduled, where without the input it would have gone on.\<close>

theorem rejected_input_loses_wakeup:
  fixes t t1 t2 s i
  assumes "monitor_reachable m" and "m_timer m = Some (MonitorWait, d, due)" and "is_active (m_goal m)" and "m_ctx m"
    and "activeWakeSourceCount m > 0" and "sum_list (map snd (wake_set s 0 (m_wake m))) = 0"
    and "cx_isIdle cx" and "\<not> cx_hasPendingMessages cx" and "t1 \<le> t2"
  defines "drained \<equiv> setWakeSourceCount t s 0 m"
  defines "rejected \<equiv> resolveDirectInput t2 i False (holdDirectInput t1 i drained)"
  shows "m_timer drained = Some (MonitorWait, True, t + 1000) \<and> fst (fire_begin cx MonitorWait True drained) = m_goal m \<and>
    (\<exists>due'. m_timer rejected = Some (MonitorWait, False, due')) \<and>
    fst (fire_begin cx MonitorWait False rejected) = None \<and> m_scheduled (snd (fire_begin cx MonitorWait False rejected)) = None"
proof -
  have inv: "timer_inv m" by (rule reachable_inv [OF assms(1)])
  then have m: "m_scheduled m = Some MonitorWait" "m_holds m = []" using assms(2) by (simp_all add: timer_inv_def)
  have drained: "m_timer drained = Some (MonitorWait, True, t + 1000)" "m_goal drained = m_goal m" "m_ctx drained = m_ctx m"
    "activeWakeSourceCount drained = 0"
    using assms(5,6) m by (simp_all add: drained_def setWakeSourceCount_def armDrainFire_def armTimer_def
        resetToollessContinuationStreak_def activeWakeSourceCount_def)
  have "timer_inv drained" unfolding drained_def by (rule wake_inv [OF inv])
  from rejected_input_keeps_time [OF this drained(1) assms(9)]
  have rejected: "m_timer rejected = Some (MonitorWait, False, max (t + 1000) t2)" by (simp add: rejected_def)
  have "activeWakeSourceCount rejected = 0"
    using drained(4) by (simp add: rejected_def holdDirectInput_def resolveDirectInput_def armTimer_def activeWakeSourceCount_def
        Let_def split: option.splits)
  then show ?thesis using drained rejected assms(3,4,7,8) by (simp add: fire_begin_def Let_def)
qed

theorem rejected_input_loses_wakeup_witness:
  "fst (fire_begin quiet_context MonitorWait True (setWakeSourceCount 5 (js ''s'') 0 waiting_monitor)) = Some active_goal \<and>
   fst (fire_begin quiet_context MonitorWait False
     (resolveDirectInput 8 (js ''x'') False (holdDirectInput 6 (js ''x'') (setWakeSourceCount 5 (js ''s'') 0 waiting_monitor)))) = None"
proof -
  have "is_active (m_goal waiting_monitor)" by (simp add: waiting_fields is_active_def active_goal_def fresh_goal_def)
  moreover have "activeWakeSourceCount waiting_monitor > 0" by (simp add: waiting_fields activeWakeSourceCount_def)
  moreover have "sum_list (map snd (wake_set (js ''s'') 0 (m_wake waiting_monitor))) = 0" by (simp add: waiting_fields)
  moreover have "cx_isIdle quiet_context" "\<not> cx_hasPendingMessages quiet_context" "(6 :: rat) \<le> 8" by (simp_all add: quiet_context_def)
  ultimately show ?thesis
    using rejected_input_loses_wakeup [OF waiting_reachable waiting_fields(1) _ waiting_fields(3)] waiting_fields(2) by metis
qed

end
