(* ===== verification/GoalModel.thy ===== *)
theory GoalModel
  imports GoalStoreProps
begin

text \<open>
  What the tools \<open>create_goal\<close>, \<open>update_goal\<close> and \<open>get_goal\<close> can do to the goal of a thread.
\<close>

datatype model_call =
    CallCreate jstr jstr
  | CallUpdate "branch_entry list" ModelSettableGoalStatus "jstr option" turn_account jstr
  | CallGet turn_account

fun model_step :: "goal_ref \<Rightarrow> model_call \<Rightarrow> nat \<Rightarrow> goal_store \<Rightarrow> goal_store" where
  "model_step ref (CallCreate ob i) clock st = snd (create_goal_tool ref ob i clock st)"
| "model_step ref (CallUpdate entries s reason acc i) clock st = snd (update_goal_tool ref entries s reason acc i clock st)"
| "model_step ref (CallGet acc) clock st = snd (get_goal_tool acc clock st)"

text \<open>The same goal in the file, perhaps with another status and other counters.\<close>

definition same_goal :: "Goal \<Rightarrow> goal_store \<Rightarrow> Goal \<Rightarrow> goal_store \<Rightarrow> bool" where
  "same_goal g st h st' \<longleftrightarrow> st_file st' = Some (file_json (Some h)) \<and> st_history st' = st_history st \<and>
     g_id h = g_id g \<and> objective h = objective g"

lemma account_turn_cases:
  assumes "readGoalFile st = Inr (Some g)"
  obtains (same) r where "accountCurrentAgentTurn acc CountActive clock st = (r, st)"
  | (counted) r st' h where "accountCurrentAgentTurn acc CountActive clock st = (r, st')"
      "same_goal g st h st'" "g_status h = Active" "g_status g = Active"
proof (cases "acc_goal acc = None \<or> acc_goal acc \<noteq> Some (g_id g) \<or> g_status g \<noteq> Active")
  case True
  then have "accountCurrentAgentTurn acc CountActive clock st = (Inr (Some g), st)"
    using assms by (cases "acc_goal acc") (auto simp: accountCurrentAgentTurn_def accountGoalUsage_def canAccountGoalUsage_def)
  then show ?thesis by (rule same)
next
  case False
  define h where "h = g\<lparr>tokensUsed := tokensUsed g + nat (max 0 (u_input (acc_usage acc))) + nat (max 0 (u_output (acc_usage acc))),
    timeUsedSeconds := timeUsedSeconds g + nat (max 0 (acc_elapsed acc)), updatedAt := nextUpdatedAt clock (updatedAt g)\<rparr>"
  have "accountCurrentAgentTurn acc CountActive clock st = (Inr (Some h), writeGoalFile (Some h) st)"
    using False assms by (simp add: accountCurrentAgentTurn_def accountGoalUsage_def canAccountGoalUsage_def Let_def h_def)
  moreover have "same_goal g st h (writeGoalFile (Some h) st)" "g_status h = Active"
    using False by (simp_all add: same_goal_def h_def)
  ultimately show ?thesis using False counted by blast
qed

lemma model_update_cases:
  assumes "readGoalFile st = Inr (Some g)" and "up_objective update = None" and "up_budget update = KeepBudget"
    and "up_status update = Some s"
  obtains (same) r where "updateGoal ref update FromModel i clock st = (r, st)"
  | (moved) r st' h where "updateGoal ref update FromModel i clock st = (r, st')" "same_goal g st h st'" "g_status h = s"
      "g_status g = s \<or> isAllowedTransition (g_status g) s FromModel"
proof -
  let ?now = "nextUpdatedAt clock (updatedAt g)"
  note run = updateGoal_def [of ref update FromModel i clock st]
  show thesis
  proof (cases "transitionGoalStatus (g\<lparr>objective := objective g\<rparr>) s FromModel (up_reason update) ?now")
    case (Inl e)
    then have "updateGoal ref update FromModel i clock st = (Inl e, st)"
      using assms by (simp add: run resolveTokenBudget_def Let_def)
    then show thesis by (rule same)
  next
    case (Inr h)
    define h' where "h' = (if g_status h \<noteq> g_status g
      then h\<lparr>consecutiveContinuations := Some 0, lastContinuationSignature := None\<rparr> else h)\<lparr>tokenBudget := tokenBudget g\<rparr>"
    have "updateGoal ref update FromModel i clock st = (Inr h', writeGoalFile (Some h') st)"
      using assms Inr by (simp add: run resolveTokenBudget_def Let_def h'_def writeFullObjectiveText_def)
    moreover have "same_goal g st h' (writeGoalFile (Some h') st)" "g_status h' = s"
      using transition_fields [OF Inr] by (simp_all add: same_goal_def h'_def)
    moreover have "g_status g = s \<or> isAllowedTransition (g_status g) s FromModel" using transition_allowed [OF Inr] by simp
    ultimately show thesis by (rule moved)
  qed
qed

lemma same_goal_trans:
  assumes "same_goal g st h st'" and "readGoalFile st' = Inr (Some h')" and "same_goal h' st' k st''"
  shows "same_goal g st k st''" "g_status h' = g_status h"
proof -
  have "read_goal (goal_json h) = Some h'"
    using assms(1,2) by (auto simp: same_goal_def readGoalFile_def parseGoalFile_def file_json_def get_fields goal_json_def split: if_splits option.splits)
  from read_goal_names [OF this] assms(1,3) show "same_goal g st k st''" "g_status h' = g_status h"
    by (simp_all add: same_goal_def)
qed

text \<open>What a call may make of the goal \<open>g\<close>: only the model's transitions, completion only without open tasks,
  and a new goal only in the place of a finished one, which goes to the history.\<close>

definition call_allows :: "model_call \<Rightarrow> Goal \<Rightarrow> goal_store \<Rightarrow> Goal \<Rightarrow> goal_store \<Rightarrow> bool" where
  "call_allows c g st h st' \<longleftrightarrow>
     (case c of
        CallCreate ob i \<Rightarrow> g_status g = Complete \<and> g_status h = Active \<and> g_id h = i \<and>
          st_file st' = Some (file_json (Some h)) \<and> st_history st' = st_history st @ [g]
      | CallUpdate entries s reason acc i \<Rightarrow> same_goal g st h st' \<and> g_status g \<noteq> Paused \<and>
          (g_status h = g_status g \<or>
           (g_status h = Complete \<and> openTodoTaskContents entries = []) \<or>
           (g_status h = Blocked \<and> g_status g = Active \<and> map_option trim reason \<notin> {None, Some []}))
      | CallGet acc \<Rightarrow> same_goal g st h st' \<and> g_status h = Active \<and> g_status g = Active)"

lemma create_call:
  assumes "readGoalFile st = Inr (Some g)"
  shows "model_step ref (CallCreate ob i) clock st = st \<or>
    (\<exists>h. call_allows (CallCreate ob i) g st h (model_step ref (CallCreate ob i) clock st))"
proof (cases "g_status g = Complete \<and> validateObjective ob (ref_full_name ref) \<noteq> None")
  case True
  then obtain o' c where v: "validateObjective ob (ref_full_name ref) = Some (o', c)" by auto
  let ?h = "fresh_goal ref i o' Active None clock"
  have "model_step ref (CallCreate ob i) clock st = writeGoalFile (Some ?h) (archiveGoal g (writeFullObjectiveText c ob st))"
    using assms True v by (simp add: create_goal_tool_def createGoal_def Let_def)
  moreover have "g_status ?h = Active" "g_id ?h = i" by (simp_all add: fresh_goal_def)
  ultimately have "call_allows (CallCreate ob i) g st ?h (model_step ref (CallCreate ob i) clock st)"
    using True by (simp add: call_allows_def)
  then show ?thesis by blast
next
  case False
  then show ?thesis using assms by (auto simp: create_goal_tool_def)
qed

lemma update_call:
  fixes entries s reason acc i
  assumes "readGoalFile st = Inr (Some g)"
  defines "c \<equiv> CallUpdate entries s reason acc i"
  shows "model_step ref c clock st = st \<or> (\<exists>h. call_allows c g st h (model_step ref c clock st))"
proof -
  let ?reason = "map_option trim reason"
  define update where "update = (if s = SetBlocked then no_update\<lparr>up_status := Some Blocked, up_reason := ?reason\<rparr>
    else no_update\<lparr>up_status := Some Complete\<rparr>)"
  define target where "target = (if s = SetBlocked then Blocked else Complete)"
  have upd: "up_objective update = None" "up_budget update = KeepBudget" "up_status update = Some target"
    by (simp_all add: update_def target_def no_update_def)
  show ?thesis
  proof (cases "(s = SetBlocked \<and> ?reason \<in> {None, Some []}) \<or> (s = SetComplete \<and> ?reason \<notin> {None, Some []}) \<or>
      (s = SetComplete \<and> openTodoTaskContents entries \<noteq> [])")
    case True
    then show ?thesis by (auto simp: c_def update_goal_tool_def Let_def)
  next
    case False
    have run: "model_step ref c clock st = (case accountCurrentAgentTurn acc CountActive clock st of
        (Inl e, st') \<Rightarrow> st' | (Inr _, st') \<Rightarrow> snd (updateGoal ref update FromModel i clock st'))"
      using False by (auto simp: c_def update_goal_tool_def Let_def update_def split: sum.splits prod.splits)
    have ok: "g_status h = target \<Longrightarrow> g_status g = target \<or> isAllowedTransition (g_status g) target FromModel \<Longrightarrow> same_goal g st h st' \<Longrightarrow>
        call_allows c g st h st'" for h st'
      using False by (cases "g_status g"; cases s) (auto simp: c_def call_allows_def target_def isAllowedTransition_def)
    show ?thesis using assms(1)
    proof (cases rule: account_turn_cases [where acc = acc and clock = clock])
      case (same r)
      show ?thesis
      proof (cases r)
        case (Inl e)
        then show ?thesis using run same by simp
      next
        case (Inr x)
        show ?thesis using assms(1) upd
        proof (cases rule: model_update_cases [where ref = ref and i = i and clock = clock])
          case 1: (same r')
          then show ?thesis using run same Inr by simp
        next
          case (moved r' st' h)
          then show ?thesis using run same Inr ok by auto
        qed
      qed
    next
      case (counted r st1 h)
      have active: "call_allows c g st h st1" using counted by (simp add: c_def call_allows_def)
      show ?thesis
      proof (cases "\<exists>x h'. r = Inr x \<and> readGoalFile st1 = Inr (Some h')")
        case True
        then obtain x h' where r: "r = Inr x" and h': "readGoalFile st1 = Inr (Some h')" by blast
        show ?thesis using h' upd
        proof (cases rule: model_update_cases [where ref = ref and i = i and clock = clock])
          case (same r')
          then show ?thesis using run counted r active by auto
        next
          case (moved r' st2 k)
          have "same_goal g st k st2" "g_status h' = Active"
            using same_goal_trans [OF counted(2) h' moved(2)] counted(3) by simp_all
          then show ?thesis using run counted moved r ok [of k st2] by auto
        qed
      next
        case False
        have "snd (updateGoal ref update FromModel i clock st1) = st1" if "\<And>h'. readGoalFile st1 \<noteq> Inr (Some h')"
          using that by (auto simp: updateGoal_def split: sum.splits option.splits)
        then show ?thesis using run counted False active by (cases r) auto
      qed
    qed
  qed
qed

lemma get_call:
  assumes "readGoalFile st = Inr (Some g)"
  shows "model_step ref (CallGet acc) clock st = st \<or> (\<exists>h. call_allows (CallGet acc) g st h (model_step ref (CallGet acc) clock st))"
  using assms
  by (cases rule: account_turn_cases [where acc = acc and clock = clock])
    (auto simp: get_goal_tool_def call_allows_def)

text \<open>C10: a call of a goal tool leaves the goal of the thread as it is, or does what the model may: it never moves a
  paused goal, never makes a blocked one active again, completes a goal only when no todo task is open,
  blocks it only with a reason, and puts a new goal only in the place of a finished one, which it archives.\<close>

theorem model_tools_keep_goal:
  assumes "readGoalFile st = Inr (Some g)"
  shows "model_step ref c clock st = st \<or> (\<exists>h. call_allows c g st h (model_step ref c clock st))"
proof (cases c)
  case (CallCreate ob i)
  then show ?thesis using create_call [OF assms] by simp
next
  case (CallUpdate entries s reason acc i)
  then show ?thesis using update_call [OF assms, of ref entries s reason acc i clock] by auto
next
  case (CallGet acc)
  then show ?thesis using get_call [OF assms, of ref acc clock] by auto
qed

definition sample_goal :: Goal where
  "sample_goal = fresh_goal sample_ref (js ''i'') (js ''go'') Paused None 7"

definition no_account :: turn_account where
  "no_account = \<lparr>acc_goal = None, acc_usage = \<lparr>u_input = 0, u_output = 0, u_cacheRead = 0, u_cacheWrite = 0, u_totalTokens = 0\<rparr>, acc_elapsed = 0\<rparr>"

lemma sample_read: "readGoalFile (writeGoalFile (Some sample_goal) no_store) = Inr (Some sample_goal)"
proof -
  have "safe_numbers sample_goal \<and> blocked_data sample_goal"
    by (simp add: sample_goal_def fresh_goal_def safe_numbers_def safe_def blocked_data_def MAX_SAFE_INTEGER_def)
  then have "parseGoalFile (file_json (Some sample_goal)) = Inr (Some sample_goal)" by (intro parse_file_json) simp
  then show ?thesis by (simp add: readGoalFile_def)
qed

theorem model_tools_keep_goal_witness:
  "st_file (model_step sample_ref (CallUpdate [] SetComplete None no_account (js ''j'')) 9 (writeGoalFile (Some sample_goal) no_store)) =
   Some (file_json (Some sample_goal))"
proof -
  have paused: "g_status sample_goal = Paused" by (simp add: sample_goal_def fresh_goal_def)
  from model_tools_keep_goal [OF sample_read, of sample_ref "CallUpdate [] SetComplete None no_account (js ''j'')" 9] show ?thesis
    by (auto simp: call_allows_def paused)
qed

end
