(* ===== verification/GoalUsage.thy ===== *)
theory GoalUsage
  imports GoalStore
begin

text \<open>
  The tokens of a run (\<open>turn-usage.ts\<close>): usage that streams in with the messages is taken at checkpoints, and
  the end of the run takes what the checkpoints left. A message has the usage fields that are finite
  numbers, or none when it is no message of the assistant.
\<close>

record raw_usage =
  r_input :: "int option"
  r_output :: "int option"
  r_cacheRead :: "int option"
  r_cacheWrite :: "int option"
  r_totalTokens :: "int option"

definition emptyUsage :: TokenUsageSnapshot where
  "emptyUsage = \<lparr>u_input = 0, u_output = 0, u_cacheRead = 0, u_cacheWrite = 0, u_totalTokens = 0\<rparr>"

definition zero_or :: "int option \<Rightarrow> int" where
  "zero_or v = (case v of None \<Rightarrow> 0 | Some n \<Rightarrow> n)"

definition addAssistantMessageUsage :: "raw_usage option \<Rightarrow> TokenUsageSnapshot \<Rightarrow> TokenUsageSnapshot" where
  "addAssistantMessageUsage message target =
     (case message of None \<Rightarrow> target
      | Some r \<Rightarrow> \<lparr>u_input = u_input target + zero_or (r_input r), u_output = u_output target + zero_or (r_output r),
          u_cacheRead = u_cacheRead target + zero_or (r_cacheRead r), u_cacheWrite = u_cacheWrite target + zero_or (r_cacheWrite r),
          u_totalTokens = u_totalTokens target + zero_or (r_totalTokens r)\<rparr>)"

definition collectAssistantUsage :: "raw_usage option list \<Rightarrow> TokenUsageSnapshot" where
  "collectAssistantUsage messages = fold addAssistantMessageUsage messages emptyUsage"

text \<open>The loops over \<open>USAGE_FIELDS\<close>.\<close>

definition per_field :: "(int \<Rightarrow> int \<Rightarrow> int) \<Rightarrow> TokenUsageSnapshot \<Rightarrow> TokenUsageSnapshot \<Rightarrow> TokenUsageSnapshot" where
  "per_field f a b = \<lparr>u_input = f (u_input a) (u_input b), u_output = f (u_output a) (u_output b),
     u_cacheRead = f (u_cacheRead a) (u_cacheRead b), u_cacheWrite = f (u_cacheWrite a) (u_cacheWrite b),
     u_totalTokens = f (u_totalTokens a) (u_totalTokens b)\<rparr>"

record usage_tracker =
  tk_pending :: TokenUsageSnapshot
  tk_flushed :: TokenUsageSnapshot

definition tracker_reset :: usage_tracker where
  "tracker_reset = \<lparr>tk_pending = emptyUsage, tk_flushed = emptyUsage\<rparr>"

definition noteMessageEnd :: "raw_usage option \<Rightarrow> usage_tracker \<Rightarrow> usage_tracker" where
  "noteMessageEnd message t = t\<lparr>tk_pending := addAssistantMessageUsage message (tk_pending t)\<rparr>"

definition takePending :: "usage_tracker \<Rightarrow> TokenUsageSnapshot \<times> usage_tracker" where
  "takePending t = (tk_pending t, \<lparr>tk_pending = emptyUsage, tk_flushed = per_field (+) (tk_flushed t) (tk_pending t)\<rparr>)"

definition discardPending :: "usage_tracker \<Rightarrow> usage_tracker" where
  "discardPending t = snd (takePending t)"

definition takeRemaining :: "raw_usage option list \<Rightarrow> usage_tracker \<Rightarrow> TokenUsageSnapshot \<times> usage_tracker" where
  "takeRemaining agentRunMessages t =
     (let collected = collectAssistantUsage agentRunMessages
      in (per_field (\<lambda>c f. max 0 (c - f)) collected (tk_flushed t),
          \<lparr>tk_pending = emptyUsage, tk_flushed = per_field max (tk_flushed t) collected\<rparr>))"

section \<open>Nothing is counted twice\<close>

text \<open>What happens in a run before its end; the usage that \<open>discardPending\<close> drops is of the time before there was
  a goal.\<close>

datatype usage_step = NoteMessage "raw_usage option" | TakeCheckpoint | DiscardEarlier

fun usage_run :: "usage_step list \<Rightarrow> TokenUsageSnapshot \<times> usage_tracker \<Rightarrow> TokenUsageSnapshot \<times> usage_tracker" where
  "usage_run [] s = s"
| "usage_run (NoteMessage m # steps) (total_taken, t) = usage_run steps (total_taken, noteMessageEnd m t)"
| "usage_run (TakeCheckpoint # steps) (total_taken, t) =
     usage_run steps (per_field (+) total_taken (fst (takePending t)), snd (takePending t))"
| "usage_run (DiscardEarlier # steps) (total_taken, t) =
     usage_run steps (per_field (+) total_taken (tk_pending t), discardPending t)"

fun noted :: "usage_step list \<Rightarrow> raw_usage option list" where
  "noted [] = []"
| "noted (NoteMessage m # steps) = m # noted steps"
| "noted (_ # steps) = noted steps"

definition nonneg_message :: "raw_usage option \<Rightarrow> bool" where
  "nonneg_message m \<longleftrightarrow> (case m of None \<Rightarrow> True
     | Some r \<Rightarrow> zero_or (r_input r) \<ge> 0 \<and> zero_or (r_output r) \<ge> 0 \<and> zero_or (r_cacheRead r) \<ge> 0 \<and>
         zero_or (r_cacheWrite r) \<ge> 0 \<and> zero_or (r_totalTokens r) \<ge> 0)"

definition usage_le :: "TokenUsageSnapshot \<Rightarrow> TokenUsageSnapshot \<Rightarrow> bool" where
  "usage_le a b \<longleftrightarrow> u_input a \<le> u_input b \<and> u_output a \<le> u_output b \<and> u_cacheRead a \<le> u_cacheRead b \<and>
     u_cacheWrite a \<le> u_cacheWrite b \<and> u_totalTokens a \<le> u_totalTokens b"

lemma usage_eqI:
  "u_input a = u_input b \<Longrightarrow> u_output a = u_output b \<Longrightarrow> u_cacheRead a = u_cacheRead b \<Longrightarrow> u_cacheWrite a = u_cacheWrite b \<Longrightarrow>
   u_totalTokens a = u_totalTokens b \<Longrightarrow> (a :: TokenUsageSnapshot) = b"
  by simp

lemma add_message_plus: "addAssistantMessageUsage m (per_field (+) a b) = per_field (+) a (addAssistantMessageUsage m b)"
  by (simp add: addAssistantMessageUsage_def per_field_def split: option.splits)

lemma plus_empty [simp]: "per_field (+) a emptyUsage = a" "per_field (+) emptyUsage a = a"
  by (simp_all add: per_field_def emptyUsage_def)

lemma add_le: "nonneg_message m \<Longrightarrow> usage_le a b \<Longrightarrow> usage_le a (addAssistantMessageUsage m b)"
  by (auto simp: nonneg_message_def usage_le_def addAssistantMessageUsage_def split: option.splits)

lemma usage_le_refl [simp]: "usage_le a a"
  by (simp add: usage_le_def)

lemma usage_le_trans: "usage_le a b \<Longrightarrow> usage_le b c \<Longrightarrow> usage_le a c"
  by (auto simp: usage_le_def)

text \<open>Taken so far, and still pending: together what has been noted.\<close>

definition usage_inv :: "TokenUsageSnapshot \<Rightarrow> TokenUsageSnapshot \<times> usage_tracker \<Rightarrow> bool" where
  "usage_inv seen s \<longleftrightarrow> fst s = tk_flushed (snd s) \<and> per_field (+) (tk_flushed (snd s)) (tk_pending (snd s)) = seen \<and>
     usage_le emptyUsage (tk_pending (snd s))"

lemma usage_run_inv:
  "usage_inv seen s \<Longrightarrow> (\<And>m. m \<in> set (noted steps) \<Longrightarrow> nonneg_message m) \<Longrightarrow>
   usage_inv (fold addAssistantMessageUsage (noted steps) seen) (usage_run steps s)"
proof (induction steps s arbitrary: seen rule: usage_run.induct)
  case (2 m steps taken t)
  have "usage_inv (addAssistantMessageUsage m seen) (taken, noteMessageEnd m t)"
    using 2(2,3) by (auto simp: usage_inv_def noteMessageEnd_def add_message_plus [symmetric] intro: add_le)
  then show ?case using 2(1,3) by simp
next
  case (3 steps taken t)
  then have "usage_inv seen (per_field (+) taken (fst (takePending t)), snd (takePending t))"
    by (simp add: usage_inv_def takePending_def)
  then show ?case using 3(1,3) by simp
next
  case (4 steps taken t)
  then have "usage_inv seen (per_field (+) taken (tk_pending t), discardPending t)"
    by (simp add: usage_inv_def discardPending_def takePending_def)
  then show ?case using 4(1,3) by simp
qed simp

lemma taken_le: "usage_inv seen s \<Longrightarrow> usage_le (fst s) seen"
  by (auto simp: usage_inv_def usage_le_def per_field_def emptyUsage_def)

text \<open>However checkpoints cut a run into pieces, what they take and what the end of the run takes is together
  exactly the usage of the messages of the run: nothing is lost and nothing counted twice.\<close>

theorem usage_counted_once:
  fixes steps
  assumes "\<forall>m\<in>set (noted steps). nonneg_message m"
  defines "s \<equiv> usage_run steps (emptyUsage, tracker_reset)"
  shows "per_field (+) (fst s) (fst (takeRemaining (noted steps) (snd s))) = collectAssistantUsage (noted steps)"
proof -
  have "usage_inv emptyUsage (emptyUsage, tracker_reset)" by (simp add: usage_inv_def tracker_reset_def)
  then have inv: "usage_inv (collectAssistantUsage (noted steps)) s"
    unfolding s_def collectAssistantUsage_def using assms(1) by (intro usage_run_inv) auto
  then have "usage_le (tk_flushed (snd s)) (collectAssistantUsage (noted steps))" "fst s = tk_flushed (snd s)"
    using taken_le [OF inv] by (simp_all add: usage_inv_def)
  then show ?thesis by (intro usage_eqI) (auto simp: takeRemaining_def Let_def per_field_def usage_le_def)
qed

theorem usage_counted_once_witness:
  "u_input (fst (takeRemaining [Some \<lparr>r_input = Some 5, r_output = None, r_cacheRead = None, r_cacheWrite = None, r_totalTokens = None\<rparr>]
     (snd (usage_run [NoteMessage (Some \<lparr>r_input = Some 5, r_output = None, r_cacheRead = None, r_cacheWrite = None, r_totalTokens = None\<rparr>),
        TakeCheckpoint] (emptyUsage, tracker_reset))))) = 0"
proof -
  let ?m = "Some \<lparr>r_input = Some 5, r_output = None, r_cacheRead = None, r_cacheWrite = None, r_totalTokens = None\<rparr>"
  have "\<forall>m\<in>set (noted [NoteMessage ?m, TakeCheckpoint]). nonneg_message m" by (simp add: nonneg_message_def zero_or_def)
  from arg_cong [OF usage_counted_once [OF this], of u_input] show ?thesis
    by (simp add: per_field_def takePending_def noteMessageEnd_def addAssistantMessageUsage_def tracker_reset_def emptyUsage_def
        zero_or_def collectAssistantUsage_def)
qed

end
