(* ===== verification/GoalText.thy ===== *)
theory GoalText
  imports GoalStoreProps
begin

text \<open>
  Reading a damaged goal file (\<open>persistence.ts\<close>): a write that was cut short over a longer file leaves closing
  braces behind the object, which the reader drops; and the goals of the older \<open>pi-goal\<close> store.
  \<open>JSON.parse\<close> is the argument \<open>parse\<close>.
\<close>

definition json_space :: "nat \<Rightarrow> bool" where
  "json_space c \<longleftrightarrow> c = 9 \<or> c = 10 \<or> c = 13 \<or> c = 32"

abbreviation QUOTE_MARK :: nat where "QUOTE_MARK \<equiv> 34"
abbreviation ESCAPE :: nat where "ESCAPE \<equiv> 92"
abbreviation OPEN_BRACE :: nat where "OPEN_BRACE \<equiv> 123"
abbreviation CLOSE_BRACE :: nat where "CLOSE_BRACE \<equiv> 125"

definition opens :: "nat \<Rightarrow> bool" where "opens c \<longleftrightarrow> c = OPEN_BRACE \<or> c = 91"
definition closes :: "nat \<Rightarrow> bool" where "closes c \<longleftrightarrow> c = CLOSE_BRACE \<or> c = 93"

text \<open>The check of what follows the object.\<close>

definition stale_suffix :: "jstr \<Rightarrow> bool" where
  "stale_suffix s \<longleftrightarrow> list_all (\<lambda>c. c = CLOSE_BRACE \<or> json_space c) s \<and> CLOSE_BRACE \<in> set s"

text \<open>The loop over the units: the units seen are \<open>done\<close>, in reverse.\<close>

fun scan_object :: "nat \<Rightarrow> bool \<Rightarrow> bool \<Rightarrow> jstr \<Rightarrow> jstr \<Rightarrow> jstr option" where
  "scan_object depth inString escaped seen [] = None"
| "scan_object depth inString escaped seen (c # s) =
     (if inString then
        (if escaped then scan_object depth True False (c # seen) s
         else if c = ESCAPE then scan_object depth True True (c # seen) s
         else if c = QUOTE_MARK then scan_object depth False False (c # seen) s
         else scan_object depth True False (c # seen) s)
      else if c = QUOTE_MARK then scan_object depth True escaped (c # seen) s
      else if opens c then scan_object (depth + 1) False escaped (c # seen) s
      else if closes c then
        (if depth = 0 then None
         else if depth = 1 then (if stale_suffix s then Some (rev (c # seen)) else None)
         else scan_object (depth - 1) False escaped (c # seen) s)
      else scan_object depth False escaped (c # seen) s)"

definition recoverGoalFileWithStaleClosingBraces :: "jstr \<Rightarrow> jstr option" where
  "recoverGoalFileWithStaleClosingBraces raw =
     (let start = takeWhile json_space raw; rest = drop (length start) raw
      in case rest of [] \<Rightarrow> None
         | c # _ \<Rightarrow> if c \<noteq> OPEN_BRACE then None else scan_object 0 False False (rev start) rest)"

definition parseGoalFileJson :: "(jstr \<Rightarrow> json option) \<Rightarrow> jstr \<Rightarrow> json option" where
  "parseGoalFileJson parse raw =
     (case parse raw of Some v \<Rightarrow> Some v
      | None \<Rightarrow> Option.bind (recoverGoalFileWithStaleClosingBraces raw) parse)"

definition read_goal_text :: "(jstr \<Rightarrow> json option) \<Rightarrow> jstr \<Rightarrow> goal_error + Goal option" where
  "read_goal_text parse raw = (case parseGoalFileJson parse raw of None \<Rightarrow> Inl InvalidGoalStore | Some v \<Rightarrow> parseGoalFile v)"

section \<open>Balanced texts\<close>

text \<open>The inside of a string of JSON, and a text whose brackets outside strings match in pairs.\<close>

inductive string_body :: "jstr \<Rightarrow> bool" where
  Nil: "string_body []"
| Plain: "c \<noteq> QUOTE_MARK \<Longrightarrow> c \<noteq> ESCAPE \<Longrightarrow> string_body b \<Longrightarrow> string_body (c # b)"
| Escaped: "string_body b \<Longrightarrow> string_body (ESCAPE # c # b)"

inductive balanced :: "jstr \<Rightarrow> bool" where
  Nil: "balanced []"
| Plain: "c \<noteq> QUOTE_MARK \<Longrightarrow> \<not> opens c \<Longrightarrow> \<not> closes c \<Longrightarrow> balanced s \<Longrightarrow> balanced (c # s)"
| String: "string_body b \<Longrightarrow> balanced s \<Longrightarrow> balanced (QUOTE_MARK # b @ QUOTE_MARK # s)"
| Group: "opens a \<Longrightarrow> closes z \<Longrightarrow> balanced s \<Longrightarrow> balanced t \<Longrightarrow> balanced (a # s @ z # t)"

lemma scan_string:
  "string_body b \<Longrightarrow> scan_object depth True False seen (b @ QUOTE_MARK # s) = scan_object depth False False (QUOTE_MARK # rev b @ seen) s"
  by (induction arbitrary: seen rule: string_body.induct) simp_all

lemma scan_balanced:
  "balanced u \<Longrightarrow> depth > 0 \<Longrightarrow> scan_object depth False False seen (u @ s) = scan_object depth False False (rev u @ seen) s"
proof (induction arbitrary: seen depth s rule: balanced.induct)
  case (String b u)
  then show ?case by (simp add: scan_string)
next
  case (Group a z u t)
  have "a \<noteq> QUOTE_MARK" "z \<noteq> QUOTE_MARK" "\<not> opens z" using Group.hyps by (auto simp: opens_def closes_def)
  then show ?case using Group.hyps Group.prems Group.IH(1) [of "depth + 1"] Group.IH(2) [of depth] by simp
qed simp_all

lemma scan_result:
  "scan_object depth inString escaped seen s = Some p \<Longrightarrow> \<exists>suffix. rev seen @ s = p @ suffix \<and> stale_suffix suffix"
  by (induction depth inString escaped seen s rule: scan_object.induct) (auto split: if_splits)

text \<open>C26: a file that is one object with stale closing braces behind it is read as the object alone, whatever the
  object contains, brackets in strings included; and what is dropped is never more than closing braces and
  white space. A file that can be read as it is is not changed.\<close>

theorem stale_braces_recovered:
  assumes "list_all json_space w" and "balanced u" and "stale_suffix suffix"
  defines "obj \<equiv> w @ OPEN_BRACE # u @ [CLOSE_BRACE]"
  shows "parseGoalFileJson parse (obj @ suffix) = (case parse (obj @ suffix) of Some v \<Rightarrow> Some v | None \<Rightarrow> parse obj) \<and>
    (\<forall>raw v. parse raw = None \<and> parseGoalFileJson parse raw = Some v \<longrightarrow>
       (\<exists>p rest. raw = p @ rest \<and> stale_suffix rest \<and> parse p = Some v))"
proof
  have start: "takeWhile json_space (obj @ suffix) = w" "drop (length w) (obj @ suffix) = OPEN_BRACE # u @ CLOSE_BRACE # suffix"
    using assms(1) by (simp_all add: obj_def takeWhile_append list_all_iff json_space_def)
  have "scan_object 0 False False (rev w) (OPEN_BRACE # u @ CLOSE_BRACE # suffix) = Some obj"
    using assms(2,3) by (simp add: opens_def closes_def scan_balanced obj_def)
  then have "recoverGoalFileWithStaleClosingBraces (obj @ suffix) = Some obj"
    unfolding recoverGoalFileWithStaleClosingBraces_def start Let_def by simp
  then show "parseGoalFileJson parse (obj @ suffix) = (case parse (obj @ suffix) of Some v \<Rightarrow> Some v | None \<Rightarrow> parse obj)"
    by (simp add: parseGoalFileJson_def split: option.splits)
  have cut: "\<exists>rest. raw = p @ rest \<and> stale_suffix rest" if "recoverGoalFileWithStaleClosingBraces raw = Some p" for raw p
  proof -
    let ?w = "takeWhile json_space raw"
    have "scan_object 0 False False (rev ?w) (drop (length ?w) raw) = Some p"
      using that by (auto simp: recoverGoalFileWithStaleClosingBraces_def Let_def split: list.splits if_splits)
    from scan_result [OF this] show ?thesis by (simp add: dropWhile_eq_drop [symmetric])
  qed
  then show "\<forall>raw v. parse raw = None \<and> parseGoalFileJson parse raw = Some v \<longrightarrow>
      (\<exists>p rest. raw = p @ rest \<and> stale_suffix rest \<and> parse p = Some v)"
    by (fastforce simp: parseGoalFileJson_def bind_eq_Some_conv)
qed

theorem stale_braces_recovered_witness:
  "parseGoalFileJson (\<lambda>s. if s = js ''{}'' then Some (JObj []) else None) (js ''{}}'') = Some (JObj [])"
proof -
  have s: "stale_suffix (js ''}'')" by (simp add: stale_suffix_def js_def)
  have "list_all json_space []" by simp
  from stale_braces_recovered [OF this balanced.Nil s, of "\<lambda>s. if s = js ''{}'' then Some (JObj []) else None"] show ?thesis
    by (simp add: js_def)
qed

section \<open>Goals of the older store\<close>

definition LEGACY_BUDGET_LIMITED_STATUSES :: "json list" where
  "LEGACY_BUDGET_LIMITED_STATUSES = [JStr (js ''budgetLimited''), JStr (js ''budget_limited'')]"

definition normalizeLegacyGoal :: "json \<Rightarrow> json" where
  "normalizeLegacyGoal v =
     (case v of
        JObj obj \<Rightarrow>
          (let kept = filter (\<lambda>kv. fst kv \<noteq> js ''tokenBudget'') obj
           in if get kept (js ''status'') \<in> set LEGACY_BUDGET_LIMITED_STATUSES
              then JObj (map (\<lambda>kv. if fst kv = js ''status'' then (fst kv, JStr (js ''active'')) else kv) kept)
              else JObj kept)
      | _ \<Rightarrow> v)"

definition parse_legacy_file :: "json \<Rightarrow> goal_error + Goal option" where
  "parse_legacy_file v =
     (case props_of v of None \<Rightarrow> Inl InvalidGoalStore
      | Some obj \<Rightarrow>
          if get obj (js ''version'') \<noteq> JNum 1 then Inl UnsupportedVersion
          else
            (let goal = normalizeLegacyGoal (get obj (js ''goal''))
             in if goal = JNull then Inr None
                else (case read_goal goal of None \<Rightarrow> Inl InvalidGoalStore | Some g \<Rightarrow> Inr (Some g))))"

lemma get_filtered: "get (filter (\<lambda>kv. fst kv \<noteq> k) obj) k' = (if k = k' then JUndefined else get obj k')"
  by (induction obj) (auto simp: get_def)

lemma get_mapped: "k \<noteq> k' \<Longrightarrow> get (map (\<lambda>kv. if fst kv = k then (fst kv, v) else kv) obj) k' = get obj k'"
  by (induction obj) (auto simp: get_def)

lemma normalized_without_budget: "normalizeLegacyGoal goal = JObj obj \<Longrightarrow> get obj (js ''tokenBudget'') = JUndefined"
  by (cases goal) (auto simp: normalizeLegacyGoal_def Let_def get_filtered get_mapped js_def split: if_splits)

lemma read_goal_record: "read_goal v = Some g \<Longrightarrow> \<exists>obj. v = JObj obj"
  by (cases v) (auto simp: read_goal_def get_def)

text \<open>A goal of the older store has no budget any more, and one that its budget had stopped goes on.\<close>

lemma legacy_goal_without_budget:
  assumes "parse_legacy_file v = Inr (Some g)"
  shows "tokenBudget g = None"
proof -
  obtain goal where g: "read_goal (normalizeLegacyGoal goal) = Some g"
    using assms by (auto simp: parse_legacy_file_def Let_def split: option.splits if_splits)
  then obtain obj where obj: "normalizeLegacyGoal goal = JObj obj" using read_goal_record by blast
  from normalized_without_budget [OF this] show ?thesis using g obj
    by (auto simp: read_goal_def optional_nat_def split: option.splits prod.splits if_splits)
qed

end
