(* ===== verification/SessionEntry.thy ===== *)
theory SessionEntry
  imports Json JsText "HOL-Library.AList"
begin

text \<open>
  The tree of a session and what of it a model sees (\<open>session-manager.ts\<close>, the message types of \<open>messages.ts\<close> and
  of \<open>ai/src/types.ts\<close>): entries with the id of their parent, the path from the root to the leaf, and the
  context of a path, in which the latest compaction stands for what it summarised. A path is a loop over
  unvalidated ids, so it is an \<open>option\<close>: \<open>None\<close> is a loop that does not end.
\<close>

section \<open>Messages\<close>

text \<open>A time in milliseconds, or what \<open>new Date(text).getTime()\<close> is for a text.\<close>

datatype timestamp = Millis int | DateOf jstr

datatype content_block =
    TextBlock jstr
  | ThinkingBlock jstr
  | ImageBlock jstr
  | ToolCallBlock jstr jstr json
  | NativeBlock json

text \<open>\<open>NoContent\<close> is \<open>null\<close> or a missing field, which files of old versions have.\<close>

datatype message_content = NoContent | PlainText jstr | Blocks "content_block list"

record Usage =
  us_input :: int
  us_output :: int
  us_cacheRead :: int
  us_cacheWrite :: int
  us_totalTokens :: int
  us_cost :: "rat option"

record AssistantMessage =
  am_content :: message_content
  am_provider :: jstr
  am_model :: jstr
  am_usage :: "Usage option"
  am_stopReason :: jstr
  am_time :: timestamp

record ToolResultMessage =
  tr_callId :: jstr
  tr_name :: jstr
  tr_content :: message_content
  tr_isError :: bool
  tr_time :: timestamp

record BashExecutionMessage =
  be_command :: jstr
  be_output :: jstr
  be_exitCode :: "int option"
  be_cancelled :: bool
  be_truncated :: bool
  be_fullOutputPath :: "jstr option"
  be_exclude :: bool
  be_time :: timestamp

record CustomMessage =
  cm_type :: jstr
  cm_content :: message_content
  cm_display :: bool
  cm_details :: json
  cm_time :: timestamp

text \<open>The role \<open>hookMessage\<close> is that of files of version 2; loading renames it.\<close>

datatype session_message =
    UserMessage message_content timestamp
  | Assistant AssistantMessage
  | ToolResult ToolResultMessage
  | BashExecution BashExecutionMessage
  | Custom CustomMessage
  | HookMessage CustomMessage
  | BranchSummary jstr jstr timestamp
  | CompactionSummary jstr nat json timestamp

section \<open>Entries\<close>

datatype fallback_reason = Fallback | FallbackRevert

record model_change =
  mc_provider :: jstr
  mc_model :: jstr
  mc_reason :: "fallback_reason option"
  mc_originalProvider :: "jstr option"
  mc_originalModel :: "jstr option"

record compaction_data =
  co_summary :: jstr
  co_firstKept :: jstr
  co_firstKeptIndex :: "nat option"  \<comment> \<open>only in files of version 1\<close>
  co_tokensBefore :: nat
  co_details :: json
  co_fromHook :: bool
  co_usage :: "Usage option"

record branch_data =
  br_fromId :: jstr
  br_summary :: jstr
  br_details :: json
  br_fromHook :: bool
  br_usage :: "Usage option"

datatype entry_kind =
    MessageEntry session_message
  | ThinkingLevelChange jstr
  | ModelChange model_change
  | Compaction compaction_data
  | BranchSummaryEntry branch_data
  | CustomEntry jstr json
  | CustomMessageEntry jstr message_content bool json
  | LabelEntry jstr "jstr option"
  | SessionInfo "jstr option"

text \<open>Entries of version 1 have no id: it is empty.\<close>

record session_entry =
  en_id :: jstr
  en_parent :: "jstr option"
  en_time :: jstr
  en_kind :: entry_kind

record session_header =
  sh_version :: "nat option"
  sh_id :: jstr
  sh_time :: jstr
  sh_cwd :: "jstr option"
  sh_parent :: "jstr option"

datatype file_entry = Header session_header | Entry session_entry

fun entry_in :: "file_entry \<Rightarrow> session_entry option" where
  "entry_in (Header h) = None"
| "entry_in (Entry e) = Some e"

abbreviation entries_of :: "file_entry list \<Rightarrow> session_entry list" where
  "entries_of es \<equiv> List.map_filter entry_in es"

definition compaction_of :: "session_entry \<Rightarrow> compaction_data option" where
  "compaction_of e = (case en_kind e of Compaction c \<Rightarrow> Some c | _ \<Rightarrow> None)"

definition assistant_entry :: "session_entry \<Rightarrow> bool" where
  "assistant_entry e = (case en_kind e of MessageEntry (Assistant a) \<Rightarrow> True | _ \<Rightarrow> False)"

section \<open>Paths\<close>

text \<open>\<open>current.parentId ? index.get(current.parentId) : undefined\<close>\<close>

definition parent_entry :: "(jstr \<Rightarrow> session_entry option) \<Rightarrow> session_entry \<Rightarrow> session_entry option" where
  "parent_entry index e = (case en_parent e of None \<Rightarrow> None | Some p \<Rightarrow> if p = [] then None else index p)"

partial_function (option) walk_up :: "(jstr \<Rightarrow> session_entry option) \<Rightarrow> session_entry \<Rightarrow> session_entry list option" where
  "walk_up index current =
     (case parent_entry index current of None \<Rightarrow> Some [current]
      | Some e \<Rightarrow> Option.bind (walk_up index e) (\<lambda>path. Some (path @ [current])))"

declare walk_up.simps [code]

definition buildEntryIndex :: "session_entry list \<Rightarrow> (jstr \<Rightarrow> session_entry option) option \<Rightarrow> jstr \<Rightarrow> session_entry option" where
  "buildEntryIndex entries byId =
     (case byId of Some m \<Rightarrow> m | None \<Rightarrow> fold (\<lambda>e m. m(en_id e \<mapsto> e)) entries Map.empty)"

text \<open>The leaf is \<open>undefined\<close>, \<open>null\<close> or an id; an id that is not known means the last entry.\<close>

definition buildSessionPath ::
  "session_entry list \<Rightarrow> jstr option option \<Rightarrow> (jstr \<Rightarrow> session_entry option) option \<Rightarrow> session_entry list option" where
  "buildSessionPath entries leafId byId =
     (let index = buildEntryIndex entries byId
      in if leafId = Some None then Some []
         else
           (let leaf = (case leafId of Some (Some i) \<Rightarrow> if i = [] then None else index i | _ \<Rightarrow> None)
            in case (case leaf of Some e \<Rightarrow> Some e | None \<Rightarrow> if entries = [] then None else Some (last entries)) of
                 None \<Rightarrow> Some []
               | Some e \<Rightarrow> walk_up index e))"

section \<open>The context\<close>

record context_settings =
  cs_thinking :: jstr
  cs_model :: "(jstr \<times> jstr) option"
  cs_inFallback :: bool

definition text_given :: "jstr option \<Rightarrow> bool" where
  "text_given s \<longleftrightarrow> s \<noteq> None \<and> s \<noteq> Some []"

definition settings_step :: "session_entry \<Rightarrow> context_settings \<Rightarrow> context_settings" where
  "settings_step e c =
     (case en_kind e of
        ThinkingLevelChange l \<Rightarrow> c\<lparr>cs_thinking := l\<rparr>
      | ModelChange m \<Rightarrow>
          (case mc_reason m of
             Some Fallback \<Rightarrow>
               (if \<not> cs_inFallback c \<and> text_given (mc_originalProvider m) \<and> text_given (mc_originalModel m)
                then c\<lparr>cs_model := Some (the (mc_originalProvider m), the (mc_originalModel m))\<rparr> else c)\<lparr>cs_inFallback := True\<rparr>
           | Some FallbackRevert \<Rightarrow> c\<lparr>cs_inFallback := False\<rparr>
           | None \<Rightarrow> c\<lparr>cs_inFallback := False, cs_model := Some (mc_provider m, mc_model m)\<rparr>)
      | MessageEntry (Assistant a) \<Rightarrow>
          if cs_inFallback c then c else c\<lparr>cs_model := Some (am_provider a, am_model a)\<rparr>
      | _ \<Rightarrow> c)"

definition getSessionContextSettings :: "session_entry list \<Rightarrow> jstr \<times> (jstr \<times> jstr) option" where
  "getSessionContextSettings path =
     (let c = fold settings_step path \<lparr>cs_thinking = js ''off'', cs_model = None, cs_inFallback = False\<rparr>
      in (cs_thinking c, cs_model c))"

definition content_or_empty :: "message_content \<Rightarrow> message_content" where
  "content_or_empty c = (if c = NoContent then Blocks [] else c)"

fun with_content :: "session_message \<Rightarrow> session_message" where
  "with_content (UserMessage c t) = UserMessage (content_or_empty c) t"
| "with_content (Assistant a) = Assistant (a\<lparr>am_content := content_or_empty (am_content a)\<rparr>)"
| "with_content (ToolResult r) = ToolResult (r\<lparr>tr_content := content_or_empty (tr_content r)\<rparr>)"
| "with_content m = m"

definition sessionEntryToContextMessages :: "session_entry \<Rightarrow> session_message list" where
  "sessionEntryToContextMessages e =
     (case en_kind e of
        MessageEntry m \<Rightarrow> [with_content m]
      | CustomMessageEntry ty c d det \<Rightarrow>
          [Custom \<lparr>cm_type = ty, cm_content = content_or_empty c, cm_display = d, cm_details = det, cm_time = DateOf (en_time e)\<rparr>]
      | BranchSummaryEntry b \<Rightarrow>
          if br_summary b = [] then [] else [BranchSummary (br_summary b) (br_fromId b) (DateOf (en_time e))]
      | Compaction c \<Rightarrow> [CompactionSummary (co_summary c) (co_tokensBefore c) (co_details c) (DateOf (en_time e))]
      | _ \<Rightarrow> [])"

text \<open>The loop over what stands before the compaction.\<close>

fun kept_before :: "jstr \<Rightarrow> bool \<Rightarrow> session_entry list \<Rightarrow> session_entry list" where
  "kept_before first_id found [] = []"
| "kept_before first_id found (e # es) =
     (if compaction_of e \<noteq> None then kept_before first_id found es
      else if found \<or> en_id e = first_id then e # kept_before first_id True es
      else kept_before first_id False es)"

fun position_of :: "jstr \<Rightarrow> session_entry list \<Rightarrow> nat option" where
  "position_of i [] = None"
| "position_of i (e # es) = (if en_id e = i then Some 0 else map_option Suc (position_of i es))"

definition latest_compaction :: "session_entry list \<Rightarrow> (session_entry \<times> compaction_data) option" where
  "latest_compaction path =
     fold (\<lambda>e latest. case compaction_of e of Some c \<Rightarrow> Some (e, c) | None \<Rightarrow> latest) path None"

definition context_of_path :: "session_entry list \<Rightarrow> session_entry list" where
  "context_of_path path =
     (case latest_compaction path of None \<Rightarrow> path
      | Some (e, c) \<Rightarrow>
          (case position_of (en_id e) path of None \<Rightarrow> path
           | Some i \<Rightarrow> e # kept_before (co_firstKept c) False (take i path) @ drop (Suc i) path))"

definition buildContextEntries ::
  "session_entry list \<Rightarrow> jstr option option \<Rightarrow> (jstr \<Rightarrow> session_entry option) option \<Rightarrow> session_entry list option" where
  "buildContextEntries entries leafId byId = map_option context_of_path (buildSessionPath entries leafId byId)"

record session_context =
  sc_messages :: "session_message list"
  sc_thinking :: jstr
  sc_model :: "(jstr \<times> jstr) option"

definition buildSessionContext ::
  "session_entry list \<Rightarrow> jstr option option \<Rightarrow> (jstr \<Rightarrow> session_entry option) option \<Rightarrow> session_context option" where
  "buildSessionContext entries leafId byId =
     (case buildSessionPath entries leafId byId of None \<Rightarrow> None
      | Some path \<Rightarrow>
          (case buildContextEntries entries leafId byId of None \<Rightarrow> None
           | Some es \<Rightarrow> Some \<lparr>sc_messages = concat (map sessionEntryToContextMessages es),
               sc_thinking = fst (getSessionContextSettings path), sc_model = snd (getSessionContextSettings path)\<rparr>))"

fun getLatestCompactionEntry :: "session_entry list \<Rightarrow> session_entry option" where
  "getLatestCompactionEntry entries = find (\<lambda>e. compaction_of e \<noteq> None) (rev entries)"

end
