(* ===== verification/SessionStore.thy ===== *)
theory SessionStore
  imports SessionEntry
begin

text \<open>
  \<open>SessionManager\<close> (\<open>session-manager.ts\<close>): the entries of a session with their indexes, the leaf, the memoised
  views and the running totals, and the file they are appended to. Entries are held as they were given: the store
  of long strings gives back what it took (\<open>ResidentStrings\<close>). A file is its text; \<open>JSON.stringify\<close> and
  \<open>JSON.parse\<close> of an entry are the argument \<open>codec\<close>, whose \<open>parse\<close> has no value for a line that holds none.
  Random ids and the time are arguments.
\<close>

record entry_codec =
  stringify :: "file_entry \<Rightarrow> jstr"
  parse_entry :: "jstr \<Rightarrow> file_entry option"

type_synonym disk = "jstr \<Rightarrow> jstr option"

datatype session_error = EntryNotFound jstr | FileExists jstr | InvalidSessionId jstr | NotASession jstr | CannotFork jstr
  | Hangs

record usage_totals =
  ut_input :: int
  ut_output :: int
  ut_cacheRead :: int
  ut_cacheWrite :: int
  ut_cost :: rat
  ut_hitRate :: "rat option"

definition no_usage :: usage_totals where
  "no_usage = \<lparr>ut_input = 0, ut_output = 0, ut_cacheRead = 0, ut_cacheWrite = 0, ut_cost = 0, ut_hitRate = None\<rparr>"

record session_data =
  ss_id :: jstr
  ss_file :: "jstr option"
  ss_dir :: jstr
  ss_cwd :: jstr
  ss_persist :: bool
  ss_flushed :: bool
  ss_entries :: "file_entry list"
  ss_byId :: "(jstr \<times> session_entry) list"
  ss_orders :: "(jstr \<times> nat) list"
  ss_labels :: "(jstr \<times> jstr) list"
  ss_labelTimes :: "(jstr \<times> jstr) list"
  ss_leaf :: "jstr option"
  ss_mutation :: nat
  ss_entriesCache :: "(nat \<times> session_entry list) option"
  ss_branchCache :: "(jstr option \<times> nat \<times> session_entry list) option"
  ss_name :: "jstr option"
  ss_usage :: usage_totals

section \<open>Ids\<close>

definition is_alnum :: "nat \<Rightarrow> bool" where
  "is_alnum c \<longleftrightarrow> 65 \<le> c \<and> c \<le> 90 \<or> 97 \<le> c \<and> c \<le> 122 \<or> 48 \<le> c \<and> c \<le> 57"

text \<open>\<open>/^[A-Za-z0-9](?:[A-Za-z0-9._-]*[A-Za-z0-9])?$/\<close>\<close>

definition valid_session_id :: "jstr \<Rightarrow> bool" where
  "valid_session_id i \<longleftrightarrow> i \<noteq> [] \<and> is_alnum (hd i) \<and> is_alnum (last i) \<and>
     list_all (\<lambda>c. is_alnum c \<or> c = 46 \<or> c = 95 \<or> c = 45) i"

text \<open>\<open>draws\<close> are the texts successive calls of \<open>randomUUID\<close> return.\<close>

definition generateId :: "(jstr \<Rightarrow> bool) \<Rightarrow> (nat \<Rightarrow> jstr) \<Rightarrow> jstr" where
  "generateId has draws =
     (case find (\<lambda>i. \<not> has (take 8 (draws i))) [0..<100] of
        Some i \<Rightarrow> take 8 (draws i)
      | None \<Rightarrow> draws 100)"

section \<open>Files\<close>

definition line_of :: "entry_codec \<Rightarrow> file_entry \<Rightarrow> jstr" where
  "line_of codec e = stringify codec e @ [LF]"

definition append_text :: "jstr \<Rightarrow> jstr \<Rightarrow> disk \<Rightarrow> disk" where
  "append_text f text d = d(f \<mapsto> (case d f of None \<Rightarrow> [] | Some t \<Rightarrow> t) @ text)"

definition parseSessionEntryLine :: "entry_codec \<Rightarrow> jstr \<Rightarrow> file_entry option" where
  "parseSessionEntryLine codec l = (if trim l = [] then None else parse_entry codec l)"

text \<open>The entries of a text, whatever the blocks it is read in (\<open>SessionLoad\<close>).\<close>

definition parsed_lines :: "entry_codec \<Rightarrow> jstr \<Rightarrow> file_entry list" where
  "parsed_lines codec text = List.map_filter (parseSessionEntryLine codec) (split_on LF text)"

fun valid_start :: "file_entry list \<Rightarrow> file_entry list" where
  "valid_start (Entry e # es) = []"
| "valid_start es = es"

definition loadEntriesFromFile :: "entry_codec \<Rightarrow> disk \<Rightarrow> jstr \<Rightarrow> file_entry list" where
  "loadEntriesFromFile codec d f = (case d f of None \<Rightarrow> [] | Some text \<Rightarrow> valid_start (parsed_lines codec text))"

definition rewriteFile :: "entry_codec \<Rightarrow> session_data \<Rightarrow> disk \<Rightarrow> disk" where
  "rewriteFile codec s d =
     (case ss_file s of
        None \<Rightarrow> d
      | Some f \<Rightarrow> if \<not> ss_persist s \<or> f = [] then d else d(f \<mapsto> concat (map (line_of codec) (ss_entries s))))"

definition has_assistant :: "file_entry list \<Rightarrow> bool" where
  "has_assistant es \<longleftrightarrow> list_ex assistant_entry (entries_of es)"

definition persist_entry :: "entry_codec \<Rightarrow> session_entry \<Rightarrow> session_data \<Rightarrow> disk \<Rightarrow> (session_error + unit) \<times> session_data \<times> disk" where
  "persist_entry codec entry s d =
     (if \<not> ss_persist s \<or> \<not> text_given (ss_file s) then (Inr (), s, d)
      else
        (let f = the (ss_file s)
         in if \<not> has_assistant (ss_entries s) then
              (if ss_flushed s then (Inr (), s, append_text f (line_of codec (Entry entry)) d)
               else (Inr (), s\<lparr>ss_flushed := False\<rparr>, d))
            else if \<not> ss_flushed s then
              (if d f \<noteq> None then (Inl (FileExists f), s, d)
               else (Inr (), s\<lparr>ss_flushed := True\<rparr>, d(f \<mapsto> concat (map (line_of codec) (ss_entries s)))))
            else (Inr (), s, append_text f (line_of codec (Entry entry)) d)))"

section \<open>Indexes and totals\<close>

definition accumulateUsage :: "session_entry \<Rightarrow> usage_totals \<Rightarrow> usage_totals" where
  "accumulateUsage e t =
     (case en_kind e of
        MessageEntry (Assistant a) \<Rightarrow>
          (case am_usage a of None \<Rightarrow> t
           | Some u \<Rightarrow>
               (let prompt = us_input u + us_cacheRead u + us_cacheWrite u
                in \<lparr>ut_input = ut_input t + us_input u, ut_output = ut_output t + us_output u,
                   ut_cacheRead = ut_cacheRead t + us_cacheRead u, ut_cacheWrite = ut_cacheWrite t + us_cacheWrite u,
                   ut_cost = ut_cost t + (case us_cost u of None \<Rightarrow> 0 | Some c \<Rightarrow> c),
                   ut_hitRate = (if prompt > 0 then Some (of_int (us_cacheRead u) / of_int prompt * 100) else None)\<rparr>))
      | _ \<Rightarrow> t)"

definition nonblank :: "jstr \<Rightarrow> jstr option" where
  "nonblank s = (if s = [] then None else Some s)"

definition set_label :: "jstr \<Rightarrow> jstr option \<Rightarrow> jstr \<Rightarrow> session_data \<Rightarrow> session_data" where
  "set_label target label time s =
     (if text_given label
      then s\<lparr>ss_labels := AList.update target (the label) (ss_labels s), ss_labelTimes := AList.update target time (ss_labelTimes s)\<rparr>
      else s\<lparr>ss_labels := AList.delete target (ss_labels s), ss_labelTimes := AList.delete target (ss_labelTimes s)\<rparr>)"

text \<open>One pass of the loop of \<open>_buildIndex\<close>.\<close>

definition index_entry :: "nat \<Rightarrow> session_entry \<Rightarrow> session_data \<Rightarrow> session_data" where
  "index_entry order e s =
     (let s = s\<lparr>ss_byId := AList.update (en_id e) e (ss_byId s), ss_orders := AList.update (en_id e) order (ss_orders s),
               ss_leaf := Some (en_id e), ss_usage := accumulateUsage e (ss_usage s)\<rparr>
      in case en_kind e of
           SessionInfo name \<Rightarrow> s\<lparr>ss_name := (case name of None \<Rightarrow> None | Some n \<Rightarrow> nonblank (trim n))\<rparr>
         | LabelEntry target label \<Rightarrow> set_label target label (en_time e) s
         | _ \<Rightarrow> s)"

fun index_from_order :: "nat \<Rightarrow> file_entry list \<Rightarrow> session_data \<Rightarrow> session_data" where
  "index_from_order n [] s = s"
| "index_from_order n (Header h # es) s = index_from_order (Suc n) es s"
| "index_from_order n (Entry e # es) s = index_from_order (Suc n) es (index_entry n e s)"

definition clear_index :: "session_data \<Rightarrow> session_data" where
  "clear_index s = s\<lparr>ss_byId := [], ss_orders := [], ss_labels := [], ss_labelTimes := [], ss_leaf := None,
     ss_name := None, ss_usage := no_usage\<rparr>"

definition buildIndex :: "session_data \<Rightarrow> session_data" where
  "buildIndex s = index_from_order 0 (ss_entries s) (clear_index s)"

section \<open>Appending\<close>

definition known :: "session_data \<Rightarrow> jstr \<Rightarrow> bool" where
  "known s i \<longleftrightarrow> i \<in> fst ` set (ss_byId s)"

definition appendEntry :: "entry_codec \<Rightarrow> session_entry \<Rightarrow> session_data \<Rightarrow> disk \<Rightarrow> (session_error + unit) \<times> session_data \<times> disk" where
  "appendEntry codec e s d =
     persist_entry codec e
       (s\<lparr>ss_entries := ss_entries s @ [Entry e], ss_byId := AList.update (en_id e) e (ss_byId s),
          ss_orders := AList.update (en_id e) (length (ss_entries s)) (ss_orders s), ss_leaf := Some (en_id e),
          ss_usage := accumulateUsage e (ss_usage s), ss_mutation := Suc (ss_mutation s)\<rparr>) d"

definition new_entry :: "entry_kind \<Rightarrow> jstr \<Rightarrow> (nat \<Rightarrow> jstr) \<Rightarrow> session_data \<Rightarrow> session_entry" where
  "new_entry kind now draws s = \<lparr>en_id = generateId (known s) draws, en_parent = ss_leaf s, en_time = now, en_kind = kind\<rparr>"

type_synonym 'a session_op = "entry_codec \<Rightarrow> jstr \<Rightarrow> (nat \<Rightarrow> jstr) \<Rightarrow> session_data \<Rightarrow> disk \<Rightarrow> (session_error + 'a) \<times> session_data \<times> disk"

definition append_kind :: "entry_kind \<Rightarrow> jstr session_op" where
  "append_kind kind codec now draws s d =
     (let e = new_entry kind now draws s; (r, s', d') = appendEntry codec e s d
      in (case r of Inl err \<Rightarrow> Inl err | Inr _ \<Rightarrow> Inr (en_id e), s', d'))"

definition appendMessage :: "session_message \<Rightarrow> jstr session_op" where
  "appendMessage message = append_kind (MessageEntry message)"

definition appendThinkingLevelChange :: "jstr \<Rightarrow> jstr session_op" where
  "appendThinkingLevelChange level = append_kind (ThinkingLevelChange level)"

definition appendModelChange :: "model_change \<Rightarrow> jstr session_op" where
  "appendModelChange change = append_kind (ModelChange change)"

definition appendCompaction ::
  "jstr \<Rightarrow> jstr \<Rightarrow> nat \<Rightarrow> json \<Rightarrow> bool \<Rightarrow> Usage option \<Rightarrow> jstr session_op" where
  "appendCompaction summary firstKeptEntryId tokensBefore details fromHook usage =
     append_kind (Compaction \<lparr>co_summary = summary, co_firstKept = firstKeptEntryId, co_firstKeptIndex = None,
       co_tokensBefore = tokensBefore, co_details = details, co_fromHook = fromHook, co_usage = usage\<rparr>)"

definition appendCustomEntry :: "jstr \<Rightarrow> json \<Rightarrow> jstr session_op" where
  "appendCustomEntry customType data = append_kind (CustomEntry customType data)"

definition sanitized_name :: "jstr \<Rightarrow> jstr" where
  "sanitized_name name = trim (replace_all (Plus (Cls (\<lambda>c. c = CR \<or> c = LF))) [32] name)"

definition appendSessionInfo :: "jstr \<Rightarrow> jstr session_op" where
  "appendSessionInfo name codec now draws s d =
     append_kind (SessionInfo (Some (sanitized_name name))) codec now draws
       (s\<lparr>ss_name := nonblank (sanitized_name name)\<rparr>) d"

definition appendCustomMessageEntry :: "jstr \<Rightarrow> message_content \<Rightarrow> bool \<Rightarrow> json \<Rightarrow> jstr session_op" where
  "appendCustomMessageEntry customType content display details = append_kind (CustomMessageEntry customType content display details)"

definition appendLabelChange :: "jstr \<Rightarrow> jstr option \<Rightarrow> jstr session_op" where
  "appendLabelChange target label codec now draws s d =
     (if \<not> known s target then (Inl (EntryNotFound target), s, d)
      else
        (case append_kind (LabelEntry target label) codec now draws s d of
           (Inl err, s', d') \<Rightarrow> (Inl err, s', d')
         | (Inr i, s', d') \<Rightarrow> (Inr i, set_label target label now s', d')))"

section \<open>Moving the leaf\<close>

definition branch :: "jstr \<Rightarrow> session_data \<Rightarrow> session_error + session_data" where
  "branch i s =
     (if \<not> known s i then Inl (EntryNotFound i) else Inr (s\<lparr>ss_leaf := Some i, ss_mutation := Suc (ss_mutation s)\<rparr>))"

definition resetLeaf :: "session_data \<Rightarrow> session_data" where
  "resetLeaf s = s\<lparr>ss_leaf := None, ss_mutation := Suc (ss_mutation s)\<rparr>"

definition branchWithSummary :: "jstr option \<Rightarrow> jstr \<Rightarrow> json \<Rightarrow> bool \<Rightarrow> Usage option \<Rightarrow> jstr session_op" where
  "branchWithSummary target summary details fromHook usage codec now draws s d =
     (if target \<noteq> None \<and> \<not> known s (the target) then (Inl (EntryNotFound (the target)), s, d)
      else append_kind (BranchSummaryEntry \<lparr>br_fromId = (case target of None \<Rightarrow> js ''root'' | Some i \<Rightarrow> i), br_summary = summary,
          br_details = details, br_fromHook = fromHook, br_usage = usage\<rparr>) codec now draws (s\<lparr>ss_leaf := target\<rparr>) d)"

section \<open>Reading\<close>

definition by_id :: "session_data \<Rightarrow> jstr \<Rightarrow> session_entry option" where
  "by_id s i = map_of (ss_byId s) i"

definition getEntries :: "session_data \<Rightarrow> session_entry list \<times> session_data" where
  "getEntries s =
     (case ss_entriesCache s of
        Some (m, es) \<Rightarrow> if m = ss_mutation s then (es, s)
          else (entries_of (ss_entries s), s\<lparr>ss_entriesCache := Some (ss_mutation s, entries_of (ss_entries s))\<rparr>)
      | None \<Rightarrow> (entries_of (ss_entries s), s\<lparr>ss_entriesCache := Some (ss_mutation s, entries_of (ss_entries s))\<rparr>))"

text \<open>The path of an id, with the memoised one for the leaf.\<close>

definition branch_walk :: "session_data \<Rightarrow> jstr option \<Rightarrow> session_entry list option" where
  "branch_walk s start =
     (case (if text_given start then by_id s (the start) else None) of None \<Rightarrow> Some [] | Some e \<Rightarrow> walk_up (by_id s) e)"

definition getBranch :: "jstr option \<Rightarrow> session_data \<Rightarrow> (session_entry list \<times> session_data) option" where
  "getBranch fromId s =
     (case (fromId, ss_branchCache s) of
        (Some i, _) \<Rightarrow> map_option (\<lambda>path. (path, s)) (branch_walk s (Some i))
      | (None, Some (l, m, es)) \<Rightarrow>
          if l = ss_leaf s \<and> m = ss_mutation s then Some (es, s)
          else map_option (\<lambda>path. (path, s\<lparr>ss_branchCache := Some (ss_leaf s, ss_mutation s, path)\<rparr>)) (branch_walk s (ss_leaf s))
      | (None, None) \<Rightarrow>
          map_option (\<lambda>path. (path, s\<lparr>ss_branchCache := Some (ss_leaf s, ss_mutation s, path)\<rparr>)) (branch_walk s (ss_leaf s)))"

definition getLeafEntry :: "session_data \<Rightarrow> session_entry option" where
  "getLeafEntry s = (if text_given (ss_leaf s) then by_id s (the (ss_leaf s)) else None)"

definition getChildren :: "jstr \<Rightarrow> session_data \<Rightarrow> session_entry list" where
  "getChildren i s = filter (\<lambda>e. en_parent e = Some i) (map snd (ss_byId s))"

definition getLabel :: "jstr \<Rightarrow> session_data \<Rightarrow> jstr option" where
  "getLabel i s = map_of (ss_labels s) i"

definition current_context :: "session_data \<Rightarrow> session_context option \<times> session_data" where
  "current_context s = (let (es, s') = getEntries s in (buildSessionContext es (Some (ss_leaf s)) None, s'))"

definition session_context_entries :: "session_data \<Rightarrow> session_entry list option \<times> session_data" where
  "session_context_entries s = (let (es, s') = getEntries s in (buildContextEntries es (Some (ss_leaf s)) None, s'))"

partial_function (option) any_above :: "(jstr \<Rightarrow> session_entry option) \<Rightarrow> (session_entry \<Rightarrow> bool) \<Rightarrow> session_entry \<Rightarrow> bool option" where
  "any_above index P e =
     (if P e then Some True
      else (case parent_entry index e of None \<Rightarrow> Some False | Some e' \<Rightarrow> any_above index P e'))"

declare any_above.simps [code]

definition hasBranchEntry :: "(session_entry \<Rightarrow> bool) \<Rightarrow> session_data \<Rightarrow> bool option" where
  "hasBranchEntry P s = (case getLeafEntry s of None \<Rightarrow> Some False | Some e \<Rightarrow> any_above (by_id s) P e)"

definition in_context :: "session_entry \<Rightarrow> bool" where
  "in_context e \<longleftrightarrow>
     (case en_kind e of MessageEntry _ \<Rightarrow> True | CustomMessageEntry _ _ _ _ \<Rightarrow> True | Compaction _ \<Rightarrow> True
      | BranchSummaryEntry b \<Rightarrow> br_summary b \<noteq> [] | _ \<Rightarrow> False)"

definition hasContextMessages :: "session_data \<Rightarrow> bool option" where
  "hasContextMessages s = hasBranchEntry in_context s"

definition hasThinkingLevelChanges :: "session_data \<Rightarrow> bool option" where
  "hasThinkingLevelChanges s = hasBranchEntry (\<lambda>e. case en_kind e of ThinkingLevelChange _ \<Rightarrow> True | _ \<Rightarrow> False) s"

definition countCompactions :: "session_data \<Rightarrow> nat" where
  "countCompactions s = length (filter (\<lambda>e. compaction_of e \<noteq> None) (entries_of (ss_entries s)))"

fun header_of :: "file_entry \<Rightarrow> session_header option" where
  "header_of (Header h) = Some h"
| "header_of (Entry e) = None"

definition getHeader :: "session_data \<Rightarrow> session_header option" where
  "getHeader s = (case List.map_filter header_of (ss_entries s) of [] \<Rightarrow> None | h # _ \<Rightarrow> Some h)"

end
