(* ===== verification/SessionFile.thy ===== *)
theory SessionFile
  imports SessionStore
begin

text \<open>
  Sessions from the outside (\<open>session-manager.ts\<close>): the migration of older files, and the operations that put
  another session in the place of the current one: a new one, one of a file, a branch of this one, a fork of a
  file. Paths are given resolved.
\<close>

definition CURRENT_SESSION_VERSION :: nat where
  "CURRENT_SESSION_VERSION = 3"

section \<open>Migration\<close>

text \<open>Version 1 has no ids. The loop looks ids up in a set that it never fills; \<open>draws n\<close> are the random ids
  drawn for the \<open>n\<close>th line. The id of a line that is not reached yet is still missing.\<close>

definition v1_id :: "(nat \<Rightarrow> nat \<Rightarrow> jstr) \<Rightarrow> nat \<Rightarrow> jstr" where
  "v1_id draws n = generateId (\<lambda>_. False) (draws n)"

definition migrate_kept :: "(nat \<Rightarrow> nat \<Rightarrow> jstr) \<Rightarrow> file_entry list \<Rightarrow> nat \<Rightarrow> entry_kind \<Rightarrow> entry_kind" where
  "migrate_kept draws entries n kind =
     (case kind of
        Compaction c \<Rightarrow>
          (case co_firstKeptIndex c of None \<Rightarrow> kind
           | Some k \<Rightarrow>
               Compaction (c\<lparr>co_firstKeptIndex := None,
                 co_firstKept := (if k < length entries
                   then (case entries ! k of Header _ \<Rightarrow> co_firstKept c
                         | Entry target \<Rightarrow> if k \<le> n then v1_id draws k else en_id target)
                   else co_firstKept c)\<rparr>))
      | _ \<Rightarrow> kind)"

fun migrate_v1_loop :: "(nat \<Rightarrow> nat \<Rightarrow> jstr) \<Rightarrow> file_entry list \<Rightarrow> nat \<Rightarrow> jstr option \<Rightarrow> file_entry list \<Rightarrow> file_entry list" where
  "migrate_v1_loop draws entries n prev [] = []"
| "migrate_v1_loop draws entries n prev (Header h # es) =
     Header (h\<lparr>sh_version := Some 2\<rparr>) # migrate_v1_loop draws entries (Suc n) prev es"
| "migrate_v1_loop draws entries n prev (Entry e # es) =
     Entry (e\<lparr>en_id := v1_id draws n, en_parent := prev, en_kind := migrate_kept draws entries n (en_kind e)\<rparr>)
       # migrate_v1_loop draws entries (Suc n) (Some (v1_id draws n)) es"

definition migrateV1ToV2 :: "(nat \<Rightarrow> nat \<Rightarrow> jstr) \<Rightarrow> file_entry list \<Rightarrow> file_entry list" where
  "migrateV1ToV2 draws entries = migrate_v1_loop draws entries 0 None entries"

fun rename_hook :: "entry_kind \<Rightarrow> entry_kind" where
  "rename_hook (MessageEntry (HookMessage c)) = MessageEntry (Custom c)"
| "rename_hook k = k"

fun migrate_v2_entry :: "file_entry \<Rightarrow> file_entry" where
  "migrate_v2_entry (Header h) = Header (h\<lparr>sh_version := Some 3\<rparr>)"
| "migrate_v2_entry (Entry e) = Entry (e\<lparr>en_kind := rename_hook (en_kind e)\<rparr>)"

definition migrateV2ToV3 :: "file_entry list \<Rightarrow> file_entry list" where
  "migrateV2ToV3 = map migrate_v2_entry"

definition first_header :: "file_entry list \<Rightarrow> session_header option" where
  "first_header es = (case List.map_filter header_of es of [] \<Rightarrow> None | h # _ \<Rightarrow> Some h)"

definition version_of :: "file_entry list \<Rightarrow> nat" where
  "version_of es = (case first_header es of None \<Rightarrow> 1 | Some h \<Rightarrow> (case sh_version h of None \<Rightarrow> 1 | Some v \<Rightarrow> v))"

definition migrateToCurrentVersion :: "(nat \<Rightarrow> nat \<Rightarrow> jstr) \<Rightarrow> file_entry list \<Rightarrow> bool \<times> file_entry list" where
  "migrateToCurrentVersion draws es =
     (let v = version_of es
      in if v \<ge> CURRENT_SESSION_VERSION then (False, es)
         else (True, (let es = (if v < 2 then migrateV1ToV2 draws es else es) in if v < 3 then migrateV2ToV3 es else es)))"

section \<open>New sessions and sessions of a file\<close>

text \<open>\<open>join(dir, `${timestamp with : and . replaced}_${id}.jsonl`)\<close>\<close>

definition session_path :: "jstr \<Rightarrow> jstr \<Rightarrow> jstr \<Rightarrow> jstr" where
  "session_path dir now i = dir @ [47] @ map (\<lambda>c. if c = 58 \<or> c = 46 then 45 else c) now @ [95] @ i @ js ''.jsonl''"

definition blank_session :: "jstr \<Rightarrow> jstr \<Rightarrow> bool \<Rightarrow> session_data" where
  "blank_session cwd dir persist =
     \<lparr>ss_id = [], ss_file = None, ss_dir = dir, ss_cwd = cwd, ss_persist = persist, ss_flushed = False, ss_entries = [],
      ss_byId = [], ss_orders = [], ss_labels = [], ss_labelTimes = [], ss_leaf = None, ss_mutation = 0,
      ss_entriesCache = None, ss_branchCache = None, ss_name = None, ss_usage = no_usage\<rparr>"

text \<open>\<open>new_id\<close> is what \<open>createSessionId\<close> returns.\<close>

definition newSession :: "jstr option \<Rightarrow> jstr option \<Rightarrow> jstr \<Rightarrow> jstr \<Rightarrow> session_data \<Rightarrow> session_error + session_data" where
  "newSession chosen parent now new_id s =
     (if chosen \<noteq> None \<and> \<not> valid_session_id (the chosen) then Inl (InvalidSessionId (the chosen))
      else
        (let i = (case chosen of None \<Rightarrow> new_id | Some i \<Rightarrow> i);
             s = clear_index (s\<lparr>ss_id := i,
                   ss_entries := [Header \<lparr>sh_version = Some CURRENT_SESSION_VERSION, sh_id = i, sh_time = now,
                     sh_cwd = Some (ss_cwd s), sh_parent = parent\<rparr>],
                   ss_mutation := Suc (ss_mutation s), ss_flushed := False\<rparr>)
         in Inr (if ss_persist s then s\<lparr>ss_file := Some (session_path (ss_dir s) now i)\<rparr> else s)))"

definition setSessionFile ::
  "entry_codec \<Rightarrow> jstr \<Rightarrow> jstr \<Rightarrow> jstr \<Rightarrow> (nat \<Rightarrow> nat \<Rightarrow> jstr) \<Rightarrow> session_data \<Rightarrow> disk \<Rightarrow> (session_error + unit) \<times> session_data \<times> disk" where
  "setSessionFile codec f now new_id draws s d =
     (let s = s\<lparr>ss_file := Some f\<rparr>
      in case d f of
           None \<Rightarrow>
             (case newSession None None now new_id s of
                Inl err \<Rightarrow> (Inl err, s, d) | Inr s \<Rightarrow> (Inr (), s\<lparr>ss_file := Some f\<rparr>, d))
         | Some text \<Rightarrow>
             (let es = loadEntriesFromFile codec d f
              in if es = [] then
                   (if text \<noteq> [] then (Inl (NotASession f), s\<lparr>ss_entries := []\<rparr>, d)
                    else (case newSession None None now new_id s of
                        Inl err \<Rightarrow> (Inl err, s, d)
                      | Inr s \<Rightarrow>
                          (let s = s\<lparr>ss_file := Some f\<rparr> in (Inr (), s\<lparr>ss_flushed := True\<rparr>, rewriteFile codec s d))))
                 else
                   (let (migrated, es') = migrateToCurrentVersion draws es;
                        s = s\<lparr>ss_entries := es', ss_id := (case first_header es of None \<Rightarrow> new_id | Some h \<Rightarrow> sh_id h)\<rparr>;
                        d = (if migrated then rewriteFile codec s d else d);
                        s = buildIndex s
                    in (Inr (), s\<lparr>ss_mutation := Suc (ss_mutation s), ss_flushed := True\<rparr>, d))))"

section \<open>Branches and forks\<close>

fun rechain :: "jstr option \<Rightarrow> session_entry list \<Rightarrow> session_entry list" where
  "rechain parent [] = []"
| "rechain parent (e # es) =
     (case en_kind e of LabelEntry _ _ \<Rightarrow> rechain parent es
      | _ \<Rightarrow> e\<lparr>en_parent := parent\<rparr> # rechain (Some (en_id e)) es)"

text \<open>The labels are written again behind the path, under new ids; \<open>draws n\<close> are those of the \<open>n\<close>th.\<close>

fun label_entries :: "(nat \<Rightarrow> nat \<Rightarrow> jstr) \<Rightarrow> nat \<Rightarrow> jstr list \<Rightarrow> jstr option \<Rightarrow> (jstr \<times> jstr \<times> jstr) list \<Rightarrow> session_entry list" where
  "label_entries draws n taken parent [] = []"
| "label_entries draws n taken parent ((target, label, time) # rest) =
     (let i = generateId (\<lambda>j. j \<in> set taken) (draws n)
      in \<lparr>en_id = i, en_parent = parent, en_time = time, en_kind = LabelEntry target (Some label)\<rparr>
           # label_entries draws (Suc n) (i # taken) (Some i) rest)"

definition createBranchedSession ::
  "jstr \<Rightarrow> entry_codec \<Rightarrow> jstr \<Rightarrow> jstr \<Rightarrow> (nat \<Rightarrow> nat \<Rightarrow> jstr) \<Rightarrow> session_data \<Rightarrow> disk \<Rightarrow>
   (session_error + jstr option) \<times> session_data \<times> disk" where
  "createBranchedSession leafId codec now new_id draws s d =
     (case branch_walk s (Some leafId) of
        None \<Rightarrow> (Inl Hangs, s, d)
      | Some path \<Rightarrow>
          if path = [] then (Inl (EntryNotFound leafId), s, d)
          else
            (let kept = rechain None path;
                 f = session_path (ss_dir s) now new_id;
                 header = \<lparr>sh_version = Some CURRENT_SESSION_VERSION, sh_id = new_id, sh_time = now, sh_cwd = Some (ss_cwd s),
                   sh_parent = (if ss_persist s then ss_file s else None)\<rparr>;
                 ids = map en_id kept;
                 to_write = map (\<lambda>(target, label). (target, label, the (map_of (ss_labelTimes s) target)))
                   (filter (\<lambda>(target, label). target \<in> set ids) (ss_labels s));
                 last_id = (if kept = [] then None else nonblank (en_id (last kept)));
                 labels = label_entries draws 0 ids last_id to_write;
                 s = s\<lparr>ss_entries := Header header # map Entry (kept @ labels), ss_id := new_id\<rparr>;
                 s = (if ss_persist s then s\<lparr>ss_file := Some f\<rparr> else s);
                 s = buildIndex s; s = s\<lparr>ss_mutation := Suc (ss_mutation s)\<rparr>
             in if ss_persist s then
                  (if has_assistant (ss_entries s) then (Inr (Some f), s\<lparr>ss_flushed := True\<rparr>, rewriteFile codec s d)
                   else (Inr (Some f), s\<lparr>ss_flushed := False\<rparr>, d))
                else (Inr None, s, d)))"

definition forkFrom ::
  "jstr \<Rightarrow> jstr \<Rightarrow> jstr \<Rightarrow> jstr option \<Rightarrow> entry_codec \<Rightarrow> jstr \<Rightarrow> jstr \<Rightarrow> (nat \<Rightarrow> nat \<Rightarrow> jstr) \<Rightarrow> disk \<Rightarrow>
   (session_error + session_data) \<times> disk" where
  "forkFrom source cwd dir chosen codec now new_id draws d =
     (let es = loadEntriesFromFile codec d source
      in if es = [] \<or> first_header es = None then (Inl (CannotFork source), d)
         else if chosen \<noteq> None \<and> \<not> valid_session_id (the chosen) then (Inl (InvalidSessionId (the chosen)), d)
         else
           (let i = (case chosen of None \<Rightarrow> new_id | Some i \<Rightarrow> i);
                f = session_path dir now i;
                header = Header \<lparr>sh_version = Some CURRENT_SESSION_VERSION, sh_id = i, sh_time = now, sh_cwd = Some cwd,
                  sh_parent = Some source\<rparr>
            in if d f \<noteq> None then (Inl (FileExists f), d)
               else
                 (let d = d(f \<mapsto> line_of codec header @ concat (map (\<lambda>e. line_of codec (Entry e)) (entries_of es)))
                  in case setSessionFile codec f now new_id draws (blank_session cwd dir True) d of
                       (Inl err, s, d) \<Rightarrow> (Inl err, d)
                     | (Inr _, s, d) \<Rightarrow> (Inr s, d))))"

text \<open>\<open>SessionManager.create\<close>, \<open>inMemory\<close> and \<open>open\<close>.\<close>

definition create_session :: "jstr \<Rightarrow> jstr \<Rightarrow> jstr option \<Rightarrow> jstr option \<Rightarrow> jstr \<Rightarrow> jstr \<Rightarrow> session_error + session_data" where
  "create_session cwd dir chosen parent now new_id = newSession chosen parent now new_id (blank_session cwd dir True)"

definition inMemory :: "jstr \<Rightarrow> jstr option \<Rightarrow> jstr option \<Rightarrow> jstr \<Rightarrow> jstr \<Rightarrow> session_error + session_data" where
  "inMemory cwd chosen parent now new_id = newSession chosen parent now new_id (blank_session cwd [] False)"

definition open_session ::
  "jstr \<Rightarrow> jstr \<Rightarrow> jstr \<Rightarrow> entry_codec \<Rightarrow> jstr \<Rightarrow> jstr \<Rightarrow> (nat \<Rightarrow> nat \<Rightarrow> jstr) \<Rightarrow> disk \<Rightarrow>
   (session_error + unit) \<times> session_data \<times> disk" where
  "open_session f cwd dir codec now new_id draws d = setSessionFile codec f now new_id draws (blank_session cwd dir True) d"

end
