(* ===== verification/SessionPaths.thy ===== *)
theory SessionPaths
  imports SessionFile
begin

text \<open>
  Trees in which every parent comes earlier: walking up ends at a root, and the path of an entry is the path of its
  parent and the entry. A file that was edited by hand need not hold such a tree, and then a walk may not end.
\<close>

fun rooted :: "jstr set \<Rightarrow> session_entry list \<Rightarrow> bool" where
  "rooted seen [] \<longleftrightarrow> True"
| "rooted seen (e # es) \<longleftrightarrow> en_id e \<noteq> [] \<and> en_id e \<notin> seen \<and> (\<forall>p. en_parent e = Some p \<longrightarrow> p \<in> seen) \<and>
     rooted (insert (en_id e) seen) es"

abbreviation ids_of :: "session_entry list \<Rightarrow> jstr set" where
  "ids_of es \<equiv> en_id ` set es"

lemma rooted_append [simp]: "rooted seen (xs @ ys) \<longleftrightarrow> rooted seen xs \<and> rooted (seen \<union> ids_of xs) ys"
  by (induction xs arbitrary: seen) auto

lemma rooted_ids: "rooted seen es \<Longrightarrow> distinct (map en_id es) \<and> ids_of es \<inter> seen = {} \<and> [] \<notin> ids_of es"
  by (induction es arbitrary: seen) auto

lemma rooted_id: "rooted seen es \<Longrightarrow> e \<in> set es \<Longrightarrow> en_id e \<noteq> []"
  by (induction es arbitrary: seen) auto

lemma rooted_new_id: "rooted {} (es @ [x]) \<Longrightarrow> e \<in> set es \<Longrightarrow> en_id e \<noteq> en_id x"
  by (auto simp: image_iff)

lemma rooted_distinct: "rooted seen es \<Longrightarrow> distinct (map en_id es)"
  using rooted_ids by blast

text \<open>The path to an id, read off the entries from the newest to the oldest.\<close>

fun path_rev :: "session_entry list \<Rightarrow> jstr option \<Rightarrow> session_entry list" where
  "path_rev [] i = []"
| "path_rev (e # older) i = (if i = Some (en_id e) then path_rev older (en_parent e) @ [e] else path_rev older i)"

definition path_to :: "session_entry list \<Rightarrow> jstr option \<Rightarrow> session_entry list" where
  "path_to es i = path_rev (rev es) i"

lemma path_to_Nil [simp]: "path_to [] i = []"
  by (simp add: path_to_def)

lemma path_to_snoc:
  "path_to (es @ [e]) i = (if i = Some (en_id e) then path_to es (en_parent e) @ [e] else path_to es i)"
  by (simp add: path_to_def)

lemma path_to_None [simp]: "path_to es None = []"
  by (induction es rule: rev_induct) (simp_all add: path_to_snoc)

lemma path_to_subset: "set (path_to es i) \<subseteq> set es"
  by (induction es arbitrary: i rule: rev_induct) (auto simp: path_to_snoc split: if_splits)

lemma path_to_append: "i \<notin> Some ` ids_of ys \<Longrightarrow> path_to (xs @ ys) i = path_to xs i"
  by (induction ys arbitrary: i rule: rev_induct) (auto simp: path_to_snoc simp flip: append_assoc)

lemma path_to_last: "rooted {} es \<Longrightarrow> e \<in> set es \<Longrightarrow> \<exists>p. path_to es (Some (en_id e)) = p @ [e]"
proof (induction es rule: rev_induct)
  case (snoc x es)
  show ?case
  proof (cases "e = x")
    case False
    then have e: "e \<in> set es" using snoc.prems(2) by simp
    then have "en_id e \<noteq> en_id x" using rooted_new_id [OF snoc.prems(1)] by blast
    then show ?thesis using snoc e by (simp add: path_to_snoc)
  qed (simp add: path_to_snoc)
qed simp

lemma path_to_rooted: "rooted {} es \<Longrightarrow> rooted {} (path_to es i)"
proof (induction es arbitrary: i rule: rev_induct)
  case (snoc x es)
  have "p \<in> ids_of (path_to es (Some p))" if "en_parent x = Some p" for p
  proof -
    obtain e where e: "e \<in> set es" "en_id e = p" using snoc.prems \<open>en_parent x = Some p\<close> by auto
    with path_to_last [of es e] snoc.prems show ?thesis by force
  qed
  moreover have "en_id x \<notin> ids_of (path_to es (en_parent x))"
    using snoc.prems path_to_subset [of es "en_parent x"] by auto
  ultimately show ?case using snoc by (simp add: path_to_snoc)
qed simp

text \<open>The chain: each entry's parent stands before it.\<close>

fun chained :: "jstr option \<Rightarrow> session_entry list \<Rightarrow> bool" where
  "chained parent [] \<longleftrightarrow> True"
| "chained parent (e # es) \<longleftrightarrow> en_parent e = parent \<and> chained (Some (en_id e)) es"

lemma chained_append:
  "chained p (xs @ ys) \<longleftrightarrow> chained p xs \<and> chained (if xs = [] then p else Some (en_id (last xs))) ys"
  by (induction xs arbitrary: p) auto

lemma path_to_nonempty: "rooted {} es \<Longrightarrow> i \<in> Some ` ids_of es \<Longrightarrow> path_to es i \<noteq> [] \<and> Some (en_id (last (path_to es i))) = i"
  using path_to_last by force

lemma path_to_chained: "rooted {} es \<Longrightarrow> chained None (path_to es i)"
proof (induction es arbitrary: i rule: rev_induct)
  case (snoc x es)
  show ?case
  proof (cases "en_parent x")
    case None
    then show ?thesis using snoc by (simp add: path_to_snoc)
  next
    case (Some p)
    then have "path_to es (Some p) \<noteq> [] \<and> Some (en_id (last (path_to es (Some p)))) = Some p"
      using snoc.prems by (intro path_to_nonempty) auto
    with Some snoc show ?thesis by (auto simp: path_to_snoc chained_append)
  qed
qed simp

text \<open>A chain is the path to its last entry.\<close>

lemma path_to_chain:
  assumes "rooted {} es" and "chained None es" and "es \<noteq> []"
  shows "path_to es (Some (en_id (last es))) = es"
  using assms
proof (induction es rule: rev_induct)
  case (snoc x es)
  then show ?case by (cases "es = []") (simp_all add: path_to_snoc chained_append path_to_snoc [of "[]", simplified])
qed simp

section \<open>Walking up\<close>

lemma parent_entry_rooted:
  assumes "rooted {} (es @ [x])" and "\<And>e. e \<in> set (es @ [x]) \<Longrightarrow> index (en_id e) = Some e"
  shows "en_parent x = None \<and> parent_entry index x = None \<or>
    (\<exists>y\<in>set es. en_parent x = Some (en_id y) \<and> parent_entry index x = Some y)"
proof (cases "en_parent x")
  case (Some p)
  then obtain y where y: "y \<in> set es" "en_id y = p" using assms(1) by auto
  then have "p \<noteq> []" using rooted_id [of "{}" "es @ [x]" y] assms(1) by auto
  then show ?thesis using Some y assms(2) [of y] by (auto simp: parent_entry_def)
qed (simp add: parent_entry_def)

lemma walk_up_path:
  assumes "rooted {} es" and "\<And>e. e \<in> set es \<Longrightarrow> index (en_id e) = Some e" and "e \<in> set es"
  shows "walk_up index e = Some (path_to es (Some (en_id e)))"
  using assms
proof (induction es arbitrary: e rule: rev_induct)
  case (snoc x es)
  have old: "walk_up index y = Some (path_to es (Some (en_id y)))" if "y \<in> set es" for y
    using snoc.IH [of y] snoc.prems(1,2) that by simp
  show ?case
  proof (cases "e = x")
    case True
    from parent_entry_rooted [OF snoc.prems(1), of index] snoc.prems(2) show ?thesis
      by (subst walk_up.simps) (auto simp: True path_to_snoc old)
  next
    case False
    then have e: "e \<in> set es" using snoc.prems(3) by simp
    then have "en_id e \<noteq> en_id x" using rooted_new_id [OF snoc.prems(1)] by blast
    then show ?thesis using old [OF e] by (simp add: path_to_snoc)
  qed
qed simp

lemma any_above_path:
  assumes "rooted {} es" and "\<And>e. e \<in> set es \<Longrightarrow> index (en_id e) = Some e" and "e \<in> set es"
  shows "any_above index P e = Some (list_ex P (path_to es (Some (en_id e))))"
  using assms
proof (induction es arbitrary: e rule: rev_induct)
  case (snoc x es)
  have old: "any_above index P y = Some (list_ex P (path_to es (Some (en_id y))))" if "y \<in> set es" for y
    using snoc.IH [of y] snoc.prems(1,2) that by simp
  show ?case
  proof (cases "e = x")
    case True
    from parent_entry_rooted [OF snoc.prems(1), of index] snoc.prems(2) show ?thesis
      by (subst any_above.simps) (auto simp: True path_to_snoc old disj_commute)
  next
    case False
    then have e: "e \<in> set es" using snoc.prems(3) by simp
    then have "en_id e \<noteq> en_id x" using rooted_new_id [OF snoc.prems(1)] by blast
    then show ?thesis using old [OF e] by (simp add: path_to_snoc)
  qed
qed simp

lemma index_fold:
  "distinct (map en_id es) \<Longrightarrow> e \<in> set es \<Longrightarrow> fold (\<lambda>e m. m(en_id e \<mapsto> e)) es m (en_id e) = Some e"
proof (induction es arbitrary: m rule: rev_induct)
  case (snoc x es)
  then show ?case by (auto simp: image_iff)
qed simp

lemma buildSessionPath_path:
  assumes "rooted {} es" and "leaf \<in> insert None (Some ` ids_of es)"
  shows "buildSessionPath es (Some leaf) None = Some (path_to es leaf)"
proof (cases leaf)
  case None
  then show ?thesis by (simp add: buildSessionPath_def Let_def)
next
  case (Some i)
  then obtain e where e: "e \<in> set es" "en_id e = i" using assms(2) by auto
  let ?index = "fold (\<lambda>e m. m(en_id e \<mapsto> e)) es Map.empty"
  have index: "\<And>y. y \<in> set es \<Longrightarrow> ?index (en_id y) = Some y"
    using index_fold [OF rooted_distinct [OF assms(1)]] by simp
  have "i \<noteq> []" using rooted_id [OF assms(1) e(1)] e(2) by simp
  moreover have "walk_up ?index e = Some (path_to es (Some i))"
    using walk_up_path [where index = ?index, OF assms(1) index e(1)] e(2) by simp
  ultimately show ?thesis
    using Some e index [OF e(1)] unfolding buildSessionPath_def buildEntryIndex_def Let_def by simp
qed

text \<open>An entry that is its own parent, which the tree view expects, is a walk without end.\<close>

lemma self_parent_hangs:
  assumes "en_parent e = Some (en_id e)" and "en_id e \<noteq> []" and "index (en_id e) = Some e"
  shows "walk_up index e = None"
proof -
  have loop: "parent_entry index e = Some e" using assms by (simp add: parent_entry_def)
  have "walk_up index e = Some p \<Longrightarrow> False" for p
  proof (induction "length p" arbitrary: p rule: less_induct)
    case less
    then obtain q where q: "walk_up index e = Some q" "p = q @ [e]"
      using loop by (subst (asm) walk_up.simps) (auto simp: bind_eq_Some_conv)
    then show ?case using less.hyps [of q] by simp
  qed
  then show ?thesis by (cases "walk_up index e") auto
qed

end
