(* ===== verification/SessionContext.thy ===== *)
theory SessionContext
  imports SessionPaths
begin

text \<open>
  The context of a path: the latest compaction, what it kept of the entries before it, and everything behind it.
  What the context of a longer path is, and of one without its labels.
\<close>

lemma latest_append: "latest_compaction (xs @ ys) = (case latest_compaction ys of None \<Rightarrow> latest_compaction xs | Some p \<Rightarrow> Some p)"
  unfolding latest_compaction_def
proof (induction ys rule: rev_induct)
  case (snoc y ys)
  then show ?case by (auto split: option.splits)
qed simp

lemma latest_Nil [simp]: "latest_compaction [] = None"
  by (simp add: latest_compaction_def)

lemma latest_single: "latest_compaction [e] = map_option (\<lambda>c. (e, c)) (compaction_of e)"
  by (simp add: latest_compaction_def split: option.splits)

lemma latest_None_iff: "latest_compaction path = None \<longleftrightarrow> (\<forall>e\<in>set path. compaction_of e = None)"
  by (induction path rule: rev_induct) (auto simp: latest_append latest_single split: option.splits)

lemma latest_split:
  "latest_compaction path = Some (e, c) \<Longrightarrow>
   \<exists>a b. path = a @ e # b \<and> compaction_of e = Some c \<and> (\<forall>x\<in>set b. compaction_of x = None)"
proof (induction path rule: rev_induct)
  case (snoc x path)
  show ?case
  proof (cases "compaction_of x")
    case None
    then have "latest_compaction path = Some (e, c)" using snoc.prems by (simp add: latest_append latest_single)
    with snoc.IH obtain a b where "path = a @ e # b" "compaction_of e = Some c" "\<forall>y\<in>set b. compaction_of y = None" by blast
    with None show ?thesis by (intro exI [of _ a] exI [of _ "b @ [x]"]) auto
  next
    case (Some c')
    then have "e = x" "c = c'" using snoc.prems by (simp_all add: latest_append latest_single)
    with Some show ?thesis by (intro exI [of _ path] exI [of _ "[]"]) simp
  qed
qed simp

lemma latest_of_split:
  "compaction_of e = Some c \<Longrightarrow> \<forall>x\<in>set b. compaction_of x = None \<Longrightarrow> latest_compaction (a @ e # b) = Some (e, c)"
  using latest_append [of a "e # b"] latest_append [of "[e]" b] latest_None_iff [of b] by (simp add: latest_single)

lemma position_split: "en_id e \<notin> ids_of a \<Longrightarrow> position_of (en_id e) (a @ e # b) = Some (length a)"
  by (induction a) auto

text \<open>The context by the compaction that splits the path.\<close>

lemma context_split:
  assumes "distinct (map en_id (a @ e # b))" and "compaction_of e = Some c" and "\<forall>x\<in>set b. compaction_of x = None"
  shows "context_of_path (a @ e # b) = e # kept_before (co_firstKept c) False a @ b"
proof -
  have "en_id e \<notin> ids_of a" using assms(1) by auto
  then show ?thesis by (simp add: context_of_path_def latest_of_split [OF assms(2,3)] position_split)
qed

lemma context_plain: "\<forall>e\<in>set path. compaction_of e = None \<Longrightarrow> context_of_path path = path"
  using latest_None_iff [of path] by (simp add: context_of_path_def)

lemma context_cases [consumes 1, case_names plain compacted]:
  assumes "distinct (map en_id path)"
  obtains "\<forall>e\<in>set path. compaction_of e = None" "context_of_path path = path"
  | a e b c where "path = a @ e # b" "compaction_of e = Some c" "\<forall>x\<in>set b. compaction_of x = None"
      "context_of_path path = e # kept_before (co_firstKept c) False a @ b"
proof (cases "latest_compaction path")
  case None
  then show ?thesis using that(1) context_plain by (auto simp: latest_None_iff)
next
  case (Some p)
  then obtain e c where p: "latest_compaction path = Some (e, c)" by (cases p) simp
  from latest_split [OF p] obtain a b where "path = a @ e # b" "compaction_of e = Some c" "\<forall>x\<in>set b. compaction_of x = None"
    by blast
  with context_split [of a e b c] assms show ?thesis by (intro that(2)) auto
qed

text \<open>Entries behind the path that are no compactions are added to the context.\<close>

lemma context_append:
  assumes "distinct (map en_id (path @ ys))" and "\<forall>y\<in>set ys. compaction_of y = None"
  shows "context_of_path (path @ ys) = context_of_path path @ ys"
proof -
  have "distinct (map en_id path)" using assms(1) by simp
  then show ?thesis
  proof (cases path rule: context_cases)
    case plain
    then show ?thesis using assms(2) context_plain [of "path @ ys"] by auto
  next
    case (compacted a e b c)
    then show ?thesis using context_split [of a e "b @ ys" c] assms by auto
  qed
qed

section \<open>Messages\<close>

definition context_messages :: "session_entry list \<Rightarrow> session_message list" where
  "context_messages es = concat (map sessionEntryToContextMessages es)"

lemma context_messages_simps [simp]:
  "context_messages [] = []" "context_messages (xs @ ys) = context_messages xs @ context_messages ys"
  "context_messages (e # es) = sessionEntryToContextMessages e @ context_messages es"
  by (simp_all add: context_messages_def)

lemma buildSessionContext_path:
  assumes "rooted {} es" and "leaf \<in> insert None (Some ` ids_of es)"
  shows "buildSessionContext es (Some leaf) None =
    Some \<lparr>sc_messages = context_messages (context_of_path (path_to es leaf)),
      sc_thinking = fst (getSessionContextSettings (path_to es leaf)), sc_model = snd (getSessionContextSettings (path_to es leaf))\<rparr>"
  using buildSessionPath_path [OF assms] by (simp add: buildSessionContext_def buildContextEntries_def context_messages_def)

text \<open>Whatever a file holds, a message of the context has its content.\<close>

fun has_content :: "session_message \<Rightarrow> bool" where
  "has_content (UserMessage c t) \<longleftrightarrow> c \<noteq> NoContent"
| "has_content (Assistant a) \<longleftrightarrow> am_content a \<noteq> NoContent"
| "has_content (ToolResult r) \<longleftrightarrow> tr_content r \<noteq> NoContent"
| "has_content _ \<longleftrightarrow> True"

lemma has_content_with [simp]: "has_content (with_content m)"
  by (cases m rule: with_content.cases) (simp_all add: content_or_empty_def)

lemma entry_has_content: "m \<in> set (sessionEntryToContextMessages e) \<Longrightarrow> has_content m"
  by (cases "en_kind e") (auto simp: sessionEntryToContextMessages_def split: if_splits)

lemma context_has_content: "m \<in> set (context_messages es) \<Longrightarrow> has_content m"
  by (auto simp: context_messages_def entry_has_content)

section \<open>Without labels\<close>

definition is_label :: "session_entry \<Rightarrow> bool" where
  "is_label e \<longleftrightarrow> (case en_kind e of LabelEntry _ _ \<Rightarrow> True | _ \<Rightarrow> False)"

abbreviation unlabelled :: "session_entry list \<Rightarrow> session_entry list" where
  "unlabelled es \<equiv> filter (\<lambda>e. \<not> is_label e) es"

lemma label_no_compaction: "is_label e \<Longrightarrow> compaction_of e = None"
  by (auto simp: is_label_def compaction_of_def split: entry_kind.splits)

lemma label_no_message [simp]: "is_label e \<Longrightarrow> sessionEntryToContextMessages e = []"
  by (auto simp: is_label_def sessionEntryToContextMessages_def split: entry_kind.splits)

lemma label_no_settings: "is_label e \<Longrightarrow> settings_step e c = c"
  by (auto simp: is_label_def settings_step_def split: entry_kind.splits)

lemma messages_unlabelled [simp]: "context_messages (unlabelled es) = context_messages es"
  by (induction es) simp_all

lemma settings_unlabelled: "fold settings_step (unlabelled es) c = fold settings_step es c"
  by (induction es arbitrary: c) (simp_all add: label_no_settings)

lemma kept_unlabelled:
  "\<forall>e\<in>set es. is_label e \<longrightarrow> en_id e \<noteq> i \<Longrightarrow> kept_before i found (unlabelled es) = unlabelled (kept_before i found es)"
  by (induction es arbitrary: found) (auto simp: label_no_compaction)

lemma kept_none: "\<forall>e\<in>set es. en_id e \<noteq> i \<Longrightarrow> kept_before i False es = []"
  by (induction es) auto

lemma distinct_unlabelled: "distinct (map en_id es) \<Longrightarrow> distinct (map en_id (unlabelled es))"
  by (rule distinct_map_filter)

lemma context_unlabelled:
  assumes "distinct (map en_id path)"
    and "\<And>e c l. latest_compaction path = Some (e, c) \<Longrightarrow> l \<in> set path \<Longrightarrow> is_label l \<Longrightarrow> en_id l \<noteq> co_firstKept c"
  shows "context_of_path (unlabelled path) = unlabelled (context_of_path path)"
  using assms(1)
proof (cases path rule: context_cases)
  case plain
  then show ?thesis using context_plain [of "unlabelled path"] by simp
next
  case (compacted a e b c)
  have e: "\<not> is_label e" using compacted(2) label_no_compaction by fastforce
  have labels: "\<forall>l\<in>set a. is_label l \<longrightarrow> en_id l \<noteq> co_firstKept c"
    using assms(2) [of e c] compacted(1) latest_of_split [OF compacted(2,3)] by auto
  have "distinct (map en_id (unlabelled a @ e # unlabelled b))"
    using distinct_unlabelled [OF assms(1)] compacted(1) e by simp
  from context_split [OF this compacted(2)] compacted e kept_unlabelled [OF labels] show ?thesis by simp
qed

text \<open>The parent of an entry plays no part.\<close>

definition orphan :: "session_entry \<Rightarrow> session_entry" where
  "orphan e = e\<lparr>en_parent := None\<rparr>"

lemma orphan_simps [simp]:
  "en_id (orphan e) = en_id e" "en_kind (orphan e) = en_kind e" "compaction_of (orphan e) = compaction_of e"
  "sessionEntryToContextMessages (orphan e) = sessionEntryToContextMessages e" "settings_step (orphan e) = settings_step e"
  by (simp_all add: orphan_def compaction_of_def sessionEntryToContextMessages_def settings_step_def fun_eq_iff
      split: entry_kind.splits)

lemma orphan_ids [simp]: "map en_id (map orphan es) = map en_id es"
  by simp

lemma orphan_kept: "kept_before i found (map orphan es) = map orphan (kept_before i found es)"
  by (induction es arbitrary: found) auto

lemma orphan_messages [simp]: "context_messages (map orphan es) = context_messages es"
  by (induction es) simp_all

lemma orphan_settings: "fold settings_step (map orphan es) c = fold settings_step es c"
  by (induction es arbitrary: c) simp_all

lemma orphan_context:
  assumes "distinct (map en_id path)"
  shows "context_of_path (map orphan path) = map orphan (context_of_path path)"
  using assms
proof (cases path rule: context_cases)
  case plain
  then show ?thesis using context_plain [of "map orphan path"] by simp
next
  case (compacted a e b c)
  then show ?thesis using context_split [of "map orphan a" "orphan e" "map orphan b" c] assms by (simp add: orphan_kept comp_def)
qed

end
