(* ===== verification/SessionIndex.thy ===== *)
theory SessionIndex
  imports SessionContext
begin

text \<open>
  What the indexes of a session are: the loop that builds them from the entries, and that an operation that keeps
  them up to date step by step arrives at the same. What a file says: the lines of a text, and of a text that is
  appended to.
\<close>

section \<open>Indexes\<close>

definition views :: "session_data \<Rightarrow> _" where
  "views s = (ss_byId s, ss_orders s, ss_labels s, ss_labelTimes s, ss_name s, ss_usage s)"

text \<open>The fields that building the index leaves alone.\<close>

definition kept_fields :: "session_data \<Rightarrow> _" where
  "kept_fields s = (ss_id s, ss_file s, ss_dir s, ss_cwd s, ss_persist s, ss_flushed s, ss_entries s, ss_mutation s,
     ss_entriesCache s, ss_branchCache s)"

lemma set_label_fields [simp]:
  "kept_fields (set_label t l time s) = kept_fields s" "ss_leaf (set_label t l time s) = ss_leaf s"
  by (simp_all add: set_label_def kept_fields_def)

lemma index_entry_fields [simp]:
  "kept_fields (index_entry n e s) = kept_fields s" "ss_leaf (index_entry n e s) = Some (en_id e)"
  by (auto simp: index_entry_def Let_def kept_fields_def set_label_def split: entry_kind.splits)

lemma index_from_fields [simp]: "kept_fields (index_from_order n es s) = kept_fields s"
  by (induction n es s rule: index_from_order.induct) simp_all

lemma clear_fields [simp]: "kept_fields (clear_index s) = kept_fields s"
  by (simp add: clear_index_def kept_fields_def)

lemma build_fields [simp]: "kept_fields (buildIndex s) = kept_fields s"
  by (simp add: buildIndex_def)

lemma build_fields_each [simp]:
  "ss_id (buildIndex s) = ss_id s" "ss_file (buildIndex s) = ss_file s" "ss_dir (buildIndex s) = ss_dir s"
  "ss_cwd (buildIndex s) = ss_cwd s" "ss_persist (buildIndex s) = ss_persist s" "ss_flushed (buildIndex s) = ss_flushed s"
  "ss_entries (buildIndex s) = ss_entries s" "ss_mutation (buildIndex s) = ss_mutation s"
  "ss_entriesCache (buildIndex s) = ss_entriesCache s" "ss_branchCache (buildIndex s) = ss_branchCache s"
  using build_fields [of s] by (simp_all add: kept_fields_def)

lemma entries_of_simps [simp]:
  "entries_of [] = []" "entries_of (Header h # es) = entries_of es" "entries_of (Entry e # es) = e # entries_of es"
  by (simp_all add: List.map_filter_def)

lemma entries_of_append [simp]: "entries_of (xs @ ys) = entries_of xs @ entries_of ys"
  by (simp add: List.map_filter_def)

lemma entries_of_map [simp]: "entries_of (map Entry es) = es"
  by (simp add: List.map_filter_def comp_def)

lemma index_from_leaf:
  "ss_leaf (index_from_order n es s) = (if entries_of es = [] then ss_leaf s else Some (en_id (last (entries_of es))))"
  by (induction n es s rule: index_from_order.induct) simp_all

lemma build_leaf:
  "ss_leaf (buildIndex s) = (if entries_of (ss_entries s) = [] then None else Some (en_id (last (entries_of (ss_entries s)))))"
  by (simp add: buildIndex_def index_from_leaf clear_index_def)

lemma index_entry_views: "views s = views s' \<Longrightarrow> views (index_entry n e s) = views (index_entry n e s')"
  by (auto simp: views_def index_entry_def Let_def set_label_def split: entry_kind.splits)

lemma index_from_views: "views s = views s' \<Longrightarrow> views (index_from_order n es s) = views (index_from_order n es s')"
proof (induction n es s arbitrary: s' rule: index_from_order.induct)
  case (3 n e es s)
  from 3(1) [OF index_entry_views [OF 3(2)]] show ?case by simp
qed simp_all

lemma index_from_append:
  "index_from_order n (xs @ ys) s = index_from_order (n + length xs) ys (index_from_order n xs s)"
  by (induction n xs s rule: index_from_order.induct) simp_all

text \<open>The indexes of a list of entries.\<close>

definition indexed :: "file_entry list \<Rightarrow> _" where
  "indexed es = views (index_from_order 0 es (clear_index (blank_session [] [] False)))"

lemma build_views: "views (buildIndex s) = indexed (ss_entries s)"
  unfolding buildIndex_def indexed_def by (rule index_from_views) (simp add: views_def clear_index_def)

lemma indexed_snoc: "views s = indexed es \<Longrightarrow> indexed (es @ [Entry e]) = views (index_entry (length es) e s)"
  unfolding indexed_def by (simp add: index_from_append) (rule index_entry_views, simp)

lemma update_new: "k \<notin> fst ` set al \<Longrightarrow> AList.update k v al = al @ [(k, v)]"
  by (induction al) auto

lemma index_entry_byId: "ss_byId (index_entry n e s) = AList.update (en_id e) e (ss_byId s)"
  by (auto simp: index_entry_def Let_def set_label_def split: entry_kind.splits)

lemma index_from_byId:
  "distinct (map en_id (entries_of es)) \<Longrightarrow> fst ` set (ss_byId s) \<inter> ids_of (entries_of es) = {} \<Longrightarrow>
   ss_byId (index_from_order n es s) = ss_byId s @ map (\<lambda>e. (en_id e, e)) (entries_of es)"
proof (induction n es s rule: index_from_order.induct)
  case (3 n e es s)
  have new: "AList.update (en_id e) e (ss_byId s) = ss_byId s @ [(en_id e, e)]" using 3(3) by (intro update_new) auto
  show ?case
    using 3 by (subst index_from_order.simps, subst 3(1)) (auto simp: index_entry_byId new)
qed simp_all

lemma indexed_byId:
  "rooted {} (entries_of es) \<Longrightarrow> fst (indexed es) = map (\<lambda>e. (en_id e, e)) (entries_of es)"
  using index_from_byId [of es "clear_index (blank_session [] [] False)" 0] rooted_distinct
  by (simp add: indexed_def views_def clear_index_def)

section \<open>Lines\<close>

definition line_ok :: "entry_codec \<Rightarrow> file_entry \<Rightarrow> bool" where
  "line_ok codec e \<longleftrightarrow> parse_entry codec (stringify codec e) = Some e \<and> LF \<notin> set (stringify codec e) \<and> trim (stringify codec e) \<noteq> []"

lemma split_on_LF: "split_on c (a @ c # b) = split_on c a @ split_on c b"
proof (induction "length a" arbitrary: a rule: less_induct)
  case less
  show ?case
  proof (cases "c \<in> set a")
    case False
    then show ?thesis by (simp add: split_on_append split_on_none)
  next
    case True
    then obtain l r where a: "a = l @ c # r" "c \<notin> set l" using split_list_first by metis
    then have "split_on c (r @ c # b) = split_on c r @ split_on c b" using less [of r] by simp
    with a show ?thesis by (simp add: split_on_append)
  qed
qed

definition whole_lines :: "jstr \<Rightarrow> bool" where
  "whole_lines t \<longleftrightarrow> t = [] \<or> last t = LF"

lemma parsed_append: "whole_lines t \<Longrightarrow> parsed_lines codec (t @ u) = parsed_lines codec t @ parsed_lines codec u"
proof (cases t rule: rev_cases)
  case (snoc t0 c)
  assume "whole_lines t"
  with snoc have t: "t = t0 @ [LF]" by (simp add: whole_lines_def)
  have "split_on LF (t0 @ LF # u) = split_on LF t0 @ split_on LF u" "split_on LF (t0 @ [LF]) = split_on LF t0 @ [[]]"
    by (simp_all add: split_on_LF split_on_none)
  then show ?thesis unfolding t
    by (simp add: parsed_lines_def List.map_filter_def parseSessionEntryLine_def trim_def)
qed (simp add: parsed_lines_def List.map_filter_def parseSessionEntryLine_def trim_def split_on_none)

lemma parsed_line: "line_ok codec e \<Longrightarrow> parsed_lines codec (line_of codec e) = [e]"
  using split_on_append [of LF "stringify codec e" "[]"]
  by (simp add: parsed_lines_def line_of_def line_ok_def List.map_filter_def parseSessionEntryLine_def trim_def split_on_none)

lemma whole_line [simp]: "whole_lines (t @ line_of codec e)" "whole_lines (line_of codec e)" "whole_lines []"
  by (simp_all add: whole_lines_def line_of_def)

lemma whole_lines_concat [simp]: "whole_lines (concat (map (line_of codec) es))"
  by (induction es rule: rev_induct) (simp_all add: whole_lines_def line_of_def)

lemma parsed_concat: "\<forall>e\<in>set es. line_ok codec e \<Longrightarrow> parsed_lines codec (concat (map (line_of codec) es)) = es"
proof (induction es rule: rev_induct)
  case Nil
  show ?case by (simp add: parsed_lines_def List.map_filter_def parseSessionEntryLine_def split_on_none trim_def)
next
  case (snoc e es)
  then show ?case by (simp add: parsed_append parsed_line)
qed

end
