(* ===== verification/SessionProps.thy ===== *)
theory SessionProps
  imports SessionIndex
begin

text \<open>
  What holds of a session after any sequence of operations: its tree, its indexes and totals are those of its entries,
  its memoised views are never stale, and its file, once there is one, holds its entries.
\<close>

section \<open>The invariant\<close>

definition caches_ok :: "session_data \<Rightarrow> bool" where
  "caches_ok s \<longleftrightarrow>
     (\<forall>m es. ss_entriesCache s = Some (m, es) \<longrightarrow> m \<le> ss_mutation s \<and> (m = ss_mutation s \<longrightarrow> es = entries_of (ss_entries s))) \<and>
     (\<forall>l m es. ss_branchCache s = Some (l, m, es) \<longrightarrow> m \<le> ss_mutation s \<and>
        (m = ss_mutation s \<longrightarrow> es = path_to (entries_of (ss_entries s)) l))"

definition headed :: "session_data \<Rightarrow> bool" where
  "headed s \<longleftrightarrow> (\<exists>h v es. ss_entries s = Header h # es \<and> sh_id h = ss_id s \<and> sh_version h = Some v \<and> CURRENT_SESSION_VERSION \<le> v)"

definition session_inv :: "session_data \<Rightarrow> bool" where
  "session_inv s \<longleftrightarrow> rooted {} (entries_of (ss_entries s)) \<and> views s = indexed (ss_entries s) \<and>
     ss_leaf s \<in> insert None (Some ` ids_of (entries_of (ss_entries s))) \<and> caches_ok s \<and> headed s"

text \<open>The file of a session whose entries \<open>codec\<close> can write.\<close>

definition disk_ok :: "entry_codec \<Rightarrow> session_data \<Rightarrow> disk \<Rightarrow> bool" where
  "disk_ok codec s d \<longleftrightarrow> (ss_persist s \<longrightarrow> (\<exists>f. ss_file s = Some f \<and> f \<noteq> [] \<and>
     (if ss_flushed s
      then \<exists>text. d f = Some text \<and> whole_lines text \<and> ((\<forall>e\<in>set (ss_entries s). line_ok codec e) \<longrightarrow> parsed_lines codec text = ss_entries s)
      else d f = None \<and> \<not> has_assistant (ss_entries s))))"

lemma inv_byId: "session_inv s \<Longrightarrow> ss_byId s = map (\<lambda>e. (en_id e, e)) (entries_of (ss_entries s))"
proof -
  assume "session_inv s"
  then have "fst (views s) = map (\<lambda>e. (en_id e, e)) (entries_of (ss_entries s))"
    using indexed_byId [of "ss_entries s"] by (simp add: session_inv_def)
  then show ?thesis by (simp add: views_def)
qed

lemma inv_known: "session_inv s \<Longrightarrow> known s i \<longleftrightarrow> i \<in> ids_of (entries_of (ss_entries s))"
  by (auto simp: known_def inv_byId image_image)

lemma inv_by_id: "session_inv s \<Longrightarrow> e \<in> set (entries_of (ss_entries s)) \<Longrightarrow> by_id s (en_id e) = Some e"
  unfolding by_id_def inv_byId
  using rooted_distinct [of "{}" "entries_of (ss_entries s)"]
  by (intro map_of_is_SomeI) (auto simp: session_inv_def comp_def)

lemma inv_walk:
  assumes "session_inv s" and "i \<in> insert None (Some ` ids_of (entries_of (ss_entries s)))"
  shows "branch_walk s i = Some (path_to (entries_of (ss_entries s)) i)"
proof (cases i)
  case (Some j)
  then obtain e where e: "e \<in> set (entries_of (ss_entries s))" "en_id e = j" using assms(2) by auto
  have rooted: "rooted {} (entries_of (ss_entries s))" using assms(1) by (simp add: session_inv_def)
  have "j \<noteq> []" using rooted_id [OF rooted e(1)] e(2) by simp
  then show ?thesis
    using Some e inv_by_id [OF assms(1) e(1)] walk_up_path [where index = "by_id s", OF rooted inv_by_id [OF assms(1)] e(1)]
    by (simp add: branch_walk_def text_given_def)
qed (simp add: branch_walk_def text_given_def)

section \<open>Ids\<close>

definition draws_ok :: "(jstr \<Rightarrow> bool) \<Rightarrow> (nat \<Rightarrow> jstr) \<Rightarrow> bool" where
  "draws_ok taken draws \<longleftrightarrow> (\<forall>i. draws i \<noteq> []) \<and> ((\<exists>i<100. \<not> taken (take 8 (draws i))) \<or> \<not> taken (draws 100))"

lemma generated: "draws_ok taken draws \<Longrightarrow> \<not> taken (generateId taken draws) \<and> generateId taken draws \<noteq> []"
  unfolding draws_ok_def generateId_def
  by (auto split: option.splits simp: find_Some_iff find_None_iff)

section \<open>Appending keeps the invariant\<close>

lemma persist_ok:
  assumes "disk_ok codec s d" and "ss_persist s' = ss_persist s" and "ss_file s' = ss_file s" and "ss_flushed s' = ss_flushed s"
    and "ss_entries s' = ss_entries s @ [Entry e]"
  shows "\<exists>flushed d'. persist_entry codec e s' d = (Inr (), s'\<lparr>ss_flushed := flushed\<rparr>, d') \<and>
    disk_ok codec (s'\<lparr>ss_flushed := flushed\<rparr>) d'"
proof (cases "ss_persist s")
  case False
  then have "persist_entry codec e s' d = (Inr (), s'\<lparr>ss_flushed := ss_flushed s'\<rparr>, d)"
    using assms(2) by (simp add: persist_entry_def)
  then show ?thesis using False assms(2)
    by (intro exI [of _ "ss_flushed s'"] exI [of _ d] conjI) (simp_all add: disk_ok_def)
next
  case True
  then obtain f where f: "ss_file s = Some f" "f \<noteq> []" using assms(1) by (auto simp: disk_ok_def)
  show ?thesis
  proof (cases "ss_flushed s")
    case flushed: True
    then obtain body where body: "d f = Some body" "whole_lines body"
      "(\<forall>e\<in>set (ss_entries s). line_ok codec e) \<longrightarrow> parsed_lines codec body = ss_entries s"
      using assms(1) True f by (auto simp: disk_ok_def)
    have "persist_entry codec e s' d = (Inr (), s'\<lparr>ss_flushed := True\<rparr>, append_text f (line_of codec (Entry e)) d)"
      using True f flushed assms by (simp add: persist_entry_def text_given_def)
    moreover have "disk_ok codec (s'\<lparr>ss_flushed := True\<rparr>) (append_text f (line_of codec (Entry e)) d)"
      using f body assms by (auto simp: disk_ok_def append_text_def parsed_append parsed_line)
    ultimately show ?thesis by blast
  next
    case False
    then have old: "d f = None" "\<not> has_assistant (ss_entries s)" using assms(1) True f by (auto simp: disk_ok_def)
    show ?thesis
    proof (cases "has_assistant (ss_entries s')")
      case has: True
      then have "persist_entry codec e s' d =
          (Inr (), s'\<lparr>ss_flushed := True\<rparr>, d(f \<mapsto> concat (map (line_of codec) (ss_entries s'))))"
        using True f False assms old by (simp add: persist_entry_def text_given_def Let_def)
      moreover have "disk_ok codec (s'\<lparr>ss_flushed := True\<rparr>) (d(f \<mapsto> concat (map (line_of codec) (ss_entries s'))))"
        using f assms(3) by (auto simp: disk_ok_def parsed_concat)
      ultimately show ?thesis by blast
    next
      case no: False
      then have "persist_entry codec e s' d = (Inr (), s'\<lparr>ss_flushed := False\<rparr>, d)"
        using True f False assms by (simp add: persist_entry_def text_given_def Let_def)
      moreover have "disk_ok codec (s'\<lparr>ss_flushed := False\<rparr>) d"
        using f old no assms(3) by (auto simp: disk_ok_def)
      ultimately show ?thesis by blast
    qed
  qed
qed

lemma caches_bump: "caches_ok s \<Longrightarrow> ss_mutation s < ss_mutation s' \<Longrightarrow> ss_entriesCache s' = ss_entriesCache s \<Longrightarrow>
    ss_branchCache s' = ss_branchCache s \<Longrightarrow> caches_ok s'"
  by (fastforce simp: caches_ok_def)

text \<open>What the operations set beside the entry, before and after appending it.\<close>

definition with_name :: "entry_kind \<Rightarrow> session_data \<Rightarrow> session_data" where
  "with_name kind s = (case kind of SessionInfo name \<Rightarrow> s\<lparr>ss_name := (case name of None \<Rightarrow> None | Some n \<Rightarrow> nonblank (trim n))\<rparr> | _ \<Rightarrow> s)"

definition with_label :: "entry_kind \<Rightarrow> jstr \<Rightarrow> session_data \<Rightarrow> session_data" where
  "with_label kind time s = (case kind of LabelEntry target label \<Rightarrow> set_label target label time s | _ \<Rightarrow> s)"

lemma with_name_fields [simp]:
  "kept_fields (with_name kind s) = kept_fields s" "ss_leaf (with_name kind s) = ss_leaf s" "ss_byId (with_name kind s) = ss_byId s"
  by (auto simp: with_name_def kept_fields_def split: entry_kind.splits)

lemma with_label_fields [simp]:
  "kept_fields (with_label kind time s) = kept_fields s" "ss_leaf (with_label kind time s) = ss_leaf s"
  by (auto simp: with_label_def split: entry_kind.splits)

lemma kept_fieldsD:
  assumes "kept_fields s = kept_fields s'"
  shows "ss_id s = ss_id s'" "ss_file s = ss_file s'" "ss_persist s = ss_persist s'" "ss_flushed s = ss_flushed s'"
    "ss_entries s = ss_entries s'" "ss_mutation s = ss_mutation s'" "ss_entriesCache s = ss_entriesCache s'"
    "ss_branchCache s = ss_branchCache s'"
  using assms by (simp_all add: kept_fields_def)

lemma disk_ok_fields: "kept_fields s = kept_fields s' \<Longrightarrow> disk_ok codec s d = disk_ok codec s' d"
  by (simp add: disk_ok_def kept_fields_def)

definition appended_session :: "session_entry \<Rightarrow> session_data \<Rightarrow> session_data" where
  "appended_session e s =
     s\<lparr>ss_entries := ss_entries s @ [Entry e], ss_byId := AList.update (en_id e) e (ss_byId s),
       ss_orders := AList.update (en_id e) (length (ss_entries s)) (ss_orders s), ss_leaf := Some (en_id e),
       ss_usage := accumulateUsage e (ss_usage s), ss_mutation := Suc (ss_mutation s)\<rparr>"

lemma appended_views:
  "views s = views old \<Longrightarrow> ss_entries s = ss_entries old \<Longrightarrow>
   views (with_label (en_kind e) (en_time e) (appended_session e (with_name (en_kind e) s))\<lparr>ss_flushed := b\<rparr>) =
   views (index_entry (length (ss_entries old)) e old)"
  by (auto simp: views_def appended_session_def with_label_def with_name_def index_entry_def set_label_def Let_def
      split: entry_kind.splits)

lemma appended_inv:
  fixes s e
  assumes "session_inv s" and "en_id e \<notin> ids_of (entries_of (ss_entries s))" and "en_id e \<noteq> []"
    and "\<forall>p. en_parent e = Some p \<longrightarrow> p \<in> ids_of (entries_of (ss_entries s))"
  defines "s' \<equiv> with_label (en_kind e) (en_time e) (appended_session e (with_name (en_kind e) s))"
  shows "session_inv (s'\<lparr>ss_flushed := b\<rparr>)"
proof -
  have k: "kept_fields s' = kept_fields (appended_session e s)" "ss_leaf s' = Some (en_id e)"
    by (simp_all add: s'_def appended_session_def) (simp add: kept_fields_def with_name_def split: entry_kind.splits)
  note f = kept_fieldsD [OF k(1)]
  have "rooted {} (entries_of (ss_entries s'))"
    using assms(1-4) f(5) by (auto simp: session_inv_def appended_session_def)
  moreover have "views (s'\<lparr>ss_flushed := b\<rparr>) = indexed (ss_entries s')"
  proof -
    have "views s = indexed (ss_entries s)" using assms(1) by (simp add: session_inv_def)
    from indexed_snoc [OF this, of e] show ?thesis
      unfolding s'_def using appended_views [where s = s and old = s and e = e and b = b] f(5) [unfolded s'_def] by (simp add: appended_session_def)
  qed
  moreover have "caches_ok (s'\<lparr>ss_flushed := b\<rparr>)"
  proof (rule caches_bump)
    show "caches_ok s" using assms(1) by (simp add: session_inv_def)
  qed (simp_all add: f(6-8) appended_session_def)
  moreover have "headed s'" using assms(1) f by (auto simp: session_inv_def headed_def appended_session_def)
  ultimately show ?thesis
    using k(2) f(5) by (simp add: session_inv_def appended_session_def headed_def)
qed

section \<open>The operations\<close>

datatype append_call =
    CallMessage session_message
  | CallThinkingLevel jstr
  | CallModelChange model_change
  | CallCompaction jstr jstr nat json bool "Usage option"
  | CallCustomEntry jstr json
  | CallSessionInfo jstr
  | CallCustomMessage jstr message_content bool json
  | CallLabel jstr "jstr option"
  | CallBranchSummary "jstr option" jstr json bool "Usage option"

fun run_append :: "append_call \<Rightarrow> jstr session_op" where
  "run_append (CallMessage m) = appendMessage m"
| "run_append (CallThinkingLevel l) = appendThinkingLevelChange l"
| "run_append (CallModelChange m) = appendModelChange m"
| "run_append (CallCompaction t k n det hook u) = appendCompaction t k n det hook u"
| "run_append (CallCustomEntry ty v) = appendCustomEntry ty v"
| "run_append (CallSessionInfo name) = appendSessionInfo name"
| "run_append (CallCustomMessage ty c shown det) = appendCustomMessageEntry ty c shown det"
| "run_append (CallLabel target label) = appendLabelChange target label"
| "run_append (CallBranchSummary target t det hook u) = branchWithSummary target t det hook u"

lemma known_cong: "ss_byId s = ss_byId s' \<Longrightarrow> known s = known s'"
  by (simp add: known_def fun_eq_iff)

lemma new_entry_named [simp]: "new_entry kind now draws (with_name kind s) = new_entry kind now draws s"
  using known_cong [OF with_name_fields(3), of kind s] by (simp add: new_entry_def)

lemma appendEntry_appended: "appendEntry codec e s d = persist_entry codec e (appended_session e s) d"
  by (simp add: appendEntry_def appended_session_def)

lemma append_kind_ok:
  assumes "session_inv s" and "disk_ok codec s d" and "draws_ok (known s) draws"
  shows "\<exists>b d'. append_kind kind codec now draws (with_name kind s) d =
      (Inr (en_id (new_entry kind now draws s)), appended_session (new_entry kind now draws s) (with_name kind s)\<lparr>ss_flushed := b\<rparr>, d') \<and>
    disk_ok codec (appended_session (new_entry kind now draws s) (with_name kind s)\<lparr>ss_flushed := b\<rparr>) d'"
proof -
  let ?e = "new_entry kind now draws s"
  have f: "kept_fields (with_name kind s) = kept_fields s" by simp
  from persist_ok [OF assms(2), of "appended_session ?e (with_name kind s)" ?e] kept_fieldsD [OF f]
  obtain b d' where "persist_entry codec ?e (appended_session ?e (with_name kind s)) d =
      (Inr (), appended_session ?e (with_name kind s)\<lparr>ss_flushed := b\<rparr>, d')"
    "disk_ok codec (appended_session ?e (with_name kind s)\<lparr>ss_flushed := b\<rparr>) d'"
    by (auto simp: appended_session_def)
  then show ?thesis by (auto simp: append_kind_def appendEntry_appended Let_def)
qed

lemma new_entry_ok:
  assumes "session_inv s" and "draws_ok (known s) draws"
  shows "en_id (new_entry kind now draws s) \<notin> ids_of (entries_of (ss_entries s)) \<and> en_id (new_entry kind now draws s) \<noteq> [] \<and>
    (\<forall>p. en_parent (new_entry kind now draws s) = Some p \<longrightarrow> p \<in> ids_of (entries_of (ss_entries s)))"
  using generated [OF assms(2)] inv_known [OF assms(1)] assms(1) by (auto simp: new_entry_def session_inv_def)

text \<open>An entry that is appended, with what is set beside it.\<close>

lemma appended_ok:
  assumes "session_inv s" and "disk_ok codec s d" and "draws_ok (known s) draws"
  shows "\<exists>b d'. append_kind kind codec now draws (with_name kind s) d =
      (Inr (en_id (new_entry kind now draws s)), appended_session (new_entry kind now draws s) (with_name kind s)\<lparr>ss_flushed := b\<rparr>, d') \<and>
    session_inv (with_label kind now (appended_session (new_entry kind now draws s) (with_name kind s)\<lparr>ss_flushed := b\<rparr>)) \<and>
    disk_ok codec (with_label kind now (appended_session (new_entry kind now draws s) (with_name kind s)\<lparr>ss_flushed := b\<rparr>)) d'"
proof -
  let ?e = "new_entry kind now draws s"
  have kind: "en_kind ?e = kind" "en_time ?e = now" by (simp_all add: new_entry_def)
  have move: "with_label kind now (x\<lparr>ss_flushed := b\<rparr>) = with_label kind now x\<lparr>ss_flushed := b\<rparr>" for x b
    by (simp add: with_label_def set_label_def split: entry_kind.splits)
  obtain b d' where run: "append_kind kind codec now draws (with_name kind s) d =
      (Inr (en_id ?e), appended_session ?e (with_name kind s)\<lparr>ss_flushed := b\<rparr>, d')"
    and disk: "disk_ok codec (appended_session ?e (with_name kind s)\<lparr>ss_flushed := b\<rparr>) d'"
    using append_kind_ok [OF assms] by blast
  have "session_inv (with_label kind now (appended_session ?e (with_name kind s))\<lparr>ss_flushed := b\<rparr>)"
    using appended_inv [OF assms(1), of ?e b] new_entry_ok [OF assms(1,3)] kind by metis
  moreover have "disk_ok codec (with_label kind now (appended_session ?e (with_name kind s)\<lparr>ss_flushed := b\<rparr>)) d'"
    using disk disk_ok_fields [OF with_label_fields(1)] by blast
  ultimately show ?thesis using run unfolding move by blast
qed

lemma inv_leaf:
  "session_inv s \<Longrightarrow> leaf \<in> insert None (Some ` ids_of (entries_of (ss_entries s))) \<Longrightarrow> session_inv (s\<lparr>ss_leaf := leaf\<rparr>)"
  by (simp add: session_inv_def caches_ok_def views_def headed_def)

lemma sanitized_trim: "trim (sanitized_name name) = sanitized_name name"
  by (simp add: sanitized_name_def trimmed_trim)

lemma run_append_ok:
  assumes "session_inv s" and "disk_ok codec s d" and "draws_ok (known s) draws" and "run_append c codec now draws s d = (r, s', d')"
  shows "session_inv s' \<and> disk_ok codec s' d'"
proof -
  have plain: "session_inv s1 \<and> disk_ok codec s1 d1"
    if "append_kind kind codec now draws s0 d = (r1, s1, d1)" "session_inv s0" "disk_ok codec s0 d" "known s0 = known s"
      "\<And>x. with_name kind x = x" "\<And>x. with_label kind now x = x" for kind s0 r1 s1 d1
    using appended_ok [of s0 codec d draws kind now] that assms(3) by auto
  show ?thesis
  proof (cases c)
    case (CallSessionInfo name)
    let ?k = "SessionInfo (Some (sanitized_name name))"
    have "with_name ?k s = s\<lparr>ss_name := nonblank (sanitized_name name)\<rparr>" "\<And>x. with_label ?k now x = x"
      by (simp_all add: with_name_def with_label_def sanitized_trim)
    with appended_ok [OF assms(1-3), of ?k now] assms(4) CallSessionInfo show ?thesis
      by (auto simp: appendSessionInfo_def)
  next
    case (CallLabel target label)
    let ?k = "LabelEntry target label"
    have k: "\<And>x. with_name ?k x = x" "\<And>x. with_label ?k now x = set_label target label now x"
      by (simp_all add: with_name_def with_label_def)
    show ?thesis
    proof (cases "known s target")
      case True
      with appended_ok [OF assms(1-3), of ?k now] assms(4) CallLabel k show ?thesis
        by (auto simp: appendLabelChange_def)
    qed (use assms CallLabel in \<open>simp add: appendLabelChange_def\<close>)
  next
    case (CallBranchSummary target t det hook u)
    show ?thesis
    proof (cases "target \<noteq> None \<and> \<not> known s (the target)")
      case True
      then show ?thesis using assms CallBranchSummary by (simp add: branchWithSummary_def)
    next
      case False
      let ?s = "s\<lparr>ss_leaf := target\<rparr>" and ?k = "BranchSummaryEntry \<lparr>br_fromId = (case target of None \<Rightarrow> js ''root'' | Some i \<Rightarrow> i),
          br_summary = t, br_details = det, br_fromHook = hook, br_usage = u\<rparr>"
      have run: "append_kind ?k codec now draws ?s d = (r, s', d')"
        using False assms(4) CallBranchSummary by (auto simp: branchWithSummary_def split: if_splits)
      have "session_inv ?s" using False assms(1) inv_known [OF assms(1)] by (intro inv_leaf) auto
      moreover have "disk_ok codec ?s d"
        using assms(2) disk_ok_fields [of ?s s] by (simp add: kept_fields_def)
      moreover have "known ?s = known s" by (rule known_cong) simp
      ultimately show ?thesis by (intro plain [OF run]) (simp_all add: with_name_def with_label_def)
    qed
  qed (use assms plain in \<open>auto simp: appendMessage_def appendThinkingLevelChange_def appendModelChange_def appendCompaction_def
      appendCustomEntry_def appendCustomMessageEntry_def with_name_def with_label_def\<close>)
qed

end
