(* ===== verification/SessionReach.thy ===== *)
theory SessionReach
  imports SessionProps
begin

text \<open>
  All the sessions a program gets to: new ones, those of a file, and what the operations make of them; and what
  holds of each of them.
\<close>

section \<open>New sessions\<close>

lemma caches_blank: "caches_ok (blank_session cwd dir persist)"
  by (simp add: caches_ok_def blank_session_def)

lemma newSession_inv:
  assumes "caches_ok s" and "newSession chosen parent now new_id s = Inr s'"
  shows "session_inv s' \<and> \<not> has_assistant (ss_entries s') \<and> \<not> ss_flushed s' \<and> ss_persist s' = ss_persist s \<and>
    (ss_persist s \<longrightarrow> (\<exists>f. ss_file s' = Some f \<and> f \<noteq> []))"
proof -
  define i where "i = (case chosen of None \<Rightarrow> new_id | Some i \<Rightarrow> i)"
  define h where "h = \<lparr>sh_version = Some CURRENT_SESSION_VERSION, sh_id = i, sh_time = now, sh_cwd = Some (ss_cwd s), sh_parent = parent\<rparr>"
  define c where "c = clear_index (s\<lparr>ss_id := i, ss_entries := [Header h], ss_mutation := Suc (ss_mutation s), ss_flushed := False\<rparr>)"
  have s': "s' = (if ss_persist c then c\<lparr>ss_file := Some (session_path (ss_dir c) now i)\<rparr> else c)"
    using assms(2) by (auto simp: newSession_def Let_def i_def h_def c_def split: if_splits)
  have "caches_ok s'"
    by (rule caches_bump [OF assms(1)]) (simp_all add: s' c_def clear_index_def)
  moreover have "views s' = indexed [Header h]"
    by (simp add: s' c_def views_def clear_index_def indexed_def)
  ultimately show ?thesis
    by (auto simp: s' c_def session_inv_def headed_def has_assistant_def clear_index_def h_def session_path_def)
qed

definition free_path :: "session_data \<Rightarrow> disk \<Rightarrow> bool" where
  "free_path s d \<longleftrightarrow> (\<forall>f. ss_persist s \<and> ss_file s = Some f \<longrightarrow> d f = None)"

lemma newSession_ok:
  assumes "caches_ok s" and "newSession chosen parent now new_id s = Inr s'" and "free_path s' d"
  shows "session_inv s' \<and> disk_ok codec s' d"
  using newSession_inv [OF assms(1,2)] assms(3) by (auto simp: disk_ok_def free_path_def)

section \<open>Sessions of a file\<close>

lemma valid_start_headed: "valid_start es \<noteq> [] \<Longrightarrow> valid_start es = es \<and> (\<exists>h r. es = Header h # r)"
  by (cases es rule: valid_start.cases) auto

lemma migrated_headed:
  assumes "es = Header h # r" and "migrateToCurrentVersion draws es = (m, es')"
  shows "\<exists>h' v r'. es' = Header h' # r' \<and> sh_id h' = sh_id h \<and> sh_version h' = Some v \<and> CURRENT_SESSION_VERSION \<le> v"
    and "\<not> m \<Longrightarrow> es' = es"
  using assms
  by (auto simp: migrateToCurrentVersion_def Let_def migrateV1ToV2_def migrateV2ToV3_def version_of_def first_header_def
      List.map_filter_def CURRENT_SESSION_VERSION_def split: option.splits if_splits)

definition sound_file :: "entry_codec \<Rightarrow> (nat \<Rightarrow> nat \<Rightarrow> jstr) \<Rightarrow> jstr \<Rightarrow> disk \<Rightarrow> bool" where
  "sound_file codec draws f d \<longleftrightarrow> f \<noteq> [] \<and> (\<forall>text. d f = Some text \<longrightarrow> whole_lines text \<and>
     rooted {} (entries_of (snd (migrateToCurrentVersion draws (loadEntriesFromFile codec d f)))))"

lemma rewrite_ok:
  assumes "ss_persist s \<longrightarrow> ss_file s = Some f \<and> f \<noteq> []"
  shows "disk_ok codec (s\<lparr>ss_flushed := True\<rparr>) (rewriteFile codec s d)"
  using assms by (auto simp: disk_ok_def rewriteFile_def parsed_concat)

lemma setSessionFile_ok:
  assumes "caches_ok s" and "sound_file codec draws f d" and "setSessionFile codec f now new_id draws s d = (Inr (), s', d')"
  shows "session_inv s' \<and> disk_ok codec s' d'"
proof -
  let ?s = "s\<lparr>ss_file := Some f\<rparr>"
  have f: "f \<noteq> []" and c: "caches_ok ?s" using assms(1,2) by (simp_all add: sound_file_def caches_ok_def)
  show ?thesis
  proof (cases "d f")
    case None
    then obtain s1 where s1: "newSession None None now new_id ?s = Inr s1" "s' = s1\<lparr>ss_file := Some f\<rparr>" "d' = d"
      using assms(3) by (auto simp: setSessionFile_def Let_def split: sum.splits)
    with newSession_inv [OF c s1(1)] f None show ?thesis
      by (auto simp: disk_ok_def session_inv_def views_def caches_ok_def headed_def)
  next
    case (Some body)
    define es where "es = loadEntriesFromFile codec d f"
    show ?thesis
    proof (cases "es = []")
      case True
      then obtain s1 where s1: "newSession None None now new_id ?s = Inr s1" "s' = s1\<lparr>ss_file := Some f\<rparr>\<lparr>ss_flushed := True\<rparr>"
        "d' = rewriteFile codec (s1\<lparr>ss_file := Some f\<rparr>) d"
        using assms(3) Some by (auto simp: setSessionFile_def Let_def es_def split: sum.splits if_splits)
      have "session_inv s'" using newSession_inv [OF c s1(1)] unfolding s1(2)
        by (simp add: session_inv_def views_def caches_ok_def headed_def)
      moreover have "disk_ok codec s' d'" unfolding s1(2,3) using f by (intro rewrite_ok [where f = f]) simp
      ultimately show ?thesis by blast
    next
      case False
      obtain m es' where mig: "migrateToCurrentVersion draws es = (m, es')" by (cases "migrateToCurrentVersion draws es")
      have load: "es = valid_start (parsed_lines codec body)" using Some by (simp add: es_def loadEntriesFromFile_def)
      with False valid_start_headed [of "parsed_lines codec body"] obtain h r
        where es: "es = parsed_lines codec body" "es = Header h # r" by auto
      define t where "t = ?s\<lparr>ss_entries := es', ss_id := (case first_header es of None \<Rightarrow> new_id | Some h \<Rightarrow> sh_id h)\<rparr>"
      have s': "s' = buildIndex t\<lparr>ss_mutation := Suc (ss_mutation s), ss_flushed := True\<rparr>"
        and d': "d' = (if m then rewriteFile codec t d else d)"
        using assms(3) Some False mig by (auto simp: setSessionFile_def Let_def es_def [symmetric] t_def)
      have rooted: "rooted {} (entries_of es')" and whole: "whole_lines body"
        using assms(2) Some mig by (simp_all add: sound_file_def es_def [symmetric])
      have "caches_ok s'" by (rule caches_bump [OF assms(1)]) (simp_all add: s' t_def)
      moreover have "headed s'"
        using migrated_headed(1) [OF es(2) mig] es(2) by (auto simp: headed_def s' t_def first_header_def List.map_filter_def)
      moreover have "views s' = indexed es'" using build_views [of t] by (simp add: s' t_def views_def)
      moreover have "ss_leaf s' \<in> insert None (Some ` ids_of (entries_of es'))"
        using build_leaf [of t] by (auto simp: s' t_def)
      ultimately have "session_inv s'" using rooted by (simp add: session_inv_def s' t_def)
      moreover have "disk_ok codec s' d'"
      proof (cases m)
        case True
        then show ?thesis using f by (auto simp: disk_ok_def s' t_def d' rewriteFile_def parsed_concat)
      next
        case False
        then have "es' = es" using migrated_headed(2) [OF es(2) mig] by blast
        then show ?thesis using False f Some whole es(1) by (auto simp: disk_ok_def s' t_def d')
      qed
      ultimately show ?thesis by blast
    qed
  qed
qed

section \<open>Branched sessions\<close>

lemma rechain_chained: "chained parent (rechain parent path)"
  by (induction parent path rule: rechain.induct) (auto split: entry_kind.splits)

lemma label_entries_chained: "chained parent (label_entries draws n taken parent ts)"
  by (induction draws n taken parent ts rule: label_entries.induct) (simp_all add: Let_def)

lemma chained_rooted:
  "chained p es \<Longrightarrow> p \<in> insert None (Some ` seen) \<Longrightarrow> distinct (map en_id es) \<Longrightarrow> [] \<notin> ids_of es \<Longrightarrow> ids_of es \<inter> seen = {} \<Longrightarrow>
   rooted seen es"
  by (induction p es arbitrary: seen rule: chained.induct) auto

definition new_ids :: "session_data \<Rightarrow> bool" where
  "new_ids s \<longleftrightarrow> distinct (map en_id (entries_of (ss_entries s))) \<and> [] \<notin> ids_of (entries_of (ss_entries s))"

lemma createBranchedSession_ok:
  assumes "session_inv s" and "createBranchedSession i codec now new_id draws s d = (Inr r, s', d')" and "new_ids s'"
    and "\<forall>f. r = Some f \<longrightarrow> d f = None"
  shows "session_inv s' \<and> disk_ok codec s' d' \<and> chained None (entries_of (ss_entries s')) \<and>
    ss_leaf s' = (if entries_of (ss_entries s') = [] then None else Some (en_id (last (entries_of (ss_entries s')))))"
proof -
  obtain path where path: "branch_walk s (Some i) = Some path" "path \<noteq> []"
    using assms(2) by (auto simp: createBranchedSession_def split: option.splits if_splits)
  define kept where "kept = rechain None path"
  define f where "f = session_path (ss_dir s) now new_id"
  define h where "h = \<lparr>sh_version = Some CURRENT_SESSION_VERSION, sh_id = new_id, sh_time = now, sh_cwd = Some (ss_cwd s),
      sh_parent = (if ss_persist s then ss_file s else None)\<rparr>"
  define ls where "ls = label_entries draws 0 (map en_id kept) (if kept = [] then None else nonblank (en_id (last kept)))
      (map (\<lambda>(target, label). (target, label, the (map_of (ss_labelTimes s) target)))
        (filter (\<lambda>(target, label). target \<in> set (map en_id kept)) (ss_labels s)))"
  define t where "t = (if ss_persist s then s\<lparr>ss_entries := Header h # map Entry (kept @ ls), ss_id := new_id, ss_file := Some f\<rparr>
      else s\<lparr>ss_entries := Header h # map Entry (kept @ ls), ss_id := new_id\<rparr>)"
  define u where "u = buildIndex t\<lparr>ss_mutation := Suc (ss_mutation s)\<rparr>"
  have t: "ss_entries t = Header h # map Entry (kept @ ls)" "ss_id t = new_id" "ss_mutation t = ss_mutation s"
    "ss_entriesCache t = ss_entriesCache s" "ss_branchCache t = ss_branchCache s" "ss_persist t = ss_persist s"
    by (simp_all add: t_def)
  have run: "(Inr r, s', d') = (if ss_persist u then
      (if has_assistant (ss_entries u) then (Inr (Some f), u\<lparr>ss_flushed := True\<rparr>, rewriteFile codec u d)
       else (Inr (Some f), u\<lparr>ss_flushed := False\<rparr>, d)) else (Inr None, u, d))"
    using assms(2) path
    by (simp add: createBranchedSession_def Let_def kept_def f_def h_def ls_def t_def u_def split: if_splits)
  have s': "kept_fields (s'\<lparr>ss_flushed := True\<rparr>) = kept_fields (u\<lparr>ss_flushed := True\<rparr>)" "views s' = views u" "ss_leaf s' = ss_leaf u"
    using run by (auto split: if_splits simp: kept_fields_def views_def)
  note f' = kept_fieldsD [OF s'(1), simplified]
  have entries: "entries_of (ss_entries s') = kept @ ls" using f'(5) t(1) by (simp add: u_def)
  have ids: "distinct (map en_id (kept @ ls))" "[] \<notin> ids_of (kept @ ls)" using assms(3) entries by (auto simp: new_ids_def)
  have "chained None kept" by (simp add: kept_def rechain_chained)
  moreover have "chained (if kept = [] then None else Some (en_id (last kept))) ls"
  proof -
    have "en_id (last kept) \<noteq> []" if "kept \<noteq> []"
    proof -
      have "en_id (last kept) \<in> ids_of (kept @ ls)" using that by simp
      then show ?thesis using ids(2) by metis
    qed
    then have "(if kept = [] then None else Some (en_id (last kept))) = (if kept = [] then None else nonblank (en_id (last kept)))"
      by (simp add: nonblank_def)
    then show ?thesis unfolding ls_def by (simp only: label_entries_chained)
  qed
  ultimately have chain: "chained None (kept @ ls)" by (auto simp: chained_append)
  then have "rooted {} (kept @ ls)" using ids by (intro chained_rooted [of None]) auto
  moreover have "caches_ok s'"
    by (rule caches_bump [of s]) (use assms(1) f' t in \<open>simp_all add: session_inv_def u_def\<close>)
  moreover have "views s' = indexed (ss_entries s')"
  proof -
    have "views u = views (buildIndex t)" "ss_entries s' = ss_entries t" using f'(5) by (simp_all add: u_def views_def)
    then show ?thesis by (simp add: s'(2) build_views)
  qed
  moreover have "ss_leaf s' \<in> insert None (Some ` ids_of (kept @ ls))"
    using build_leaf [of t] t(1) by (simp add: s'(3) u_def image_iff) (metis append_is_Nil_conv last_in_set Un_iff set_append)
  moreover have "headed s'" using f'(1,5) t(1,2) by (simp add: headed_def u_def h_def)
  ultimately have "session_inv s'" by (simp add: session_inv_def entries)
  moreover have "disk_ok codec s' d'"
  proof (cases "ss_persist u")
    case True
    then have fu: "ss_file u = Some f" "f \<noteq> []" using t(6) by (auto simp: u_def t_def f_def session_path_def)
    show ?thesis
    proof (cases "has_assistant (ss_entries u)")
      case has: True
      then show ?thesis using run True fu rewrite_ok [of u f codec d] by simp
    next
      case False
      then show ?thesis using run True fu assms(4) by (simp add: disk_ok_def)
    qed
  qed (use run in \<open>simp add: disk_ok_def\<close>)
  moreover have "ss_leaf s' = (if kept @ ls = [] then None else Some (en_id (last (kept @ ls))))"
    using build_leaf [of t] t(1) by (simp add: s'(3) u_def)
  ultimately show ?thesis using chain entries by simp
qed

section \<open>All sessions\<close>

inductive session_reach :: "entry_codec \<Rightarrow> session_data \<Rightarrow> disk \<Rightarrow> bool" for codec where
  New: "newSession chosen parent now new_id (blank_session cwd dir persist) = Inr s \<Longrightarrow> free_path s d \<Longrightarrow> session_reach codec s d"
| Open: "sound_file codec labels f d \<Longrightarrow> open_session f cwd dir codec now new_id labels d = (Inr (), s, d') \<Longrightarrow>
    session_reach codec s d'"
| Renew: "session_reach codec s d \<Longrightarrow> newSession chosen parent now new_id s = Inr s' \<Longrightarrow> free_path s' d \<Longrightarrow> session_reach codec s' d"
| Switch: "session_reach codec s d \<Longrightarrow> sound_file codec labels f d \<Longrightarrow>
    setSessionFile codec f now new_id labels s d = (Inr (), s', d') \<Longrightarrow> session_reach codec s' d'"
| Append: "session_reach codec s d \<Longrightarrow> draws_ok (known s) draws \<Longrightarrow> run_append c codec now draws s d = (r, s', d') \<Longrightarrow>
    session_reach codec s' d'"
| GoTo: "session_reach codec s d \<Longrightarrow> branch i s = Inr s' \<Longrightarrow> session_reach codec s' d"
| Reset: "session_reach codec s d \<Longrightarrow> session_reach codec (resetLeaf s) d"
| Extract: "session_reach codec s d \<Longrightarrow> createBranchedSession i codec now new_id labels s d = (Inr r, s', d') \<Longrightarrow> new_ids s' \<Longrightarrow>
    \<forall>f. r = Some f \<longrightarrow> d f = None \<Longrightarrow> session_reach codec s' d'"
| ReadEntries: "session_reach codec s d \<Longrightarrow> session_reach codec (snd (getEntries s)) d"
| ReadBranch: "session_reach codec s d \<Longrightarrow> getBranch None s = Some (p, s') \<Longrightarrow> session_reach codec s' d"

lemma move_inv:
  "session_inv s \<Longrightarrow> leaf \<in> insert None (Some ` ids_of (entries_of (ss_entries s))) \<Longrightarrow>
   session_inv (s\<lparr>ss_leaf := leaf, ss_mutation := Suc (ss_mutation s)\<rparr>)"
  using caches_bump [of s "s\<lparr>ss_leaf := leaf, ss_mutation := Suc (ss_mutation s)\<rparr>"]
  by (simp add: session_inv_def views_def headed_def)

lemma disk_ok_move [simp]: "disk_ok codec (s\<lparr>ss_leaf := leaf, ss_mutation := n\<rparr>) d = disk_ok codec s d"
  by (simp add: disk_ok_def)

lemma getEntries_exact: "session_inv s \<Longrightarrow> fst (getEntries s) = entries_of (ss_entries s)"
  by (auto simp: getEntries_def session_inv_def caches_ok_def split: option.splits prod.splits)

lemma getEntries_inv: "session_inv s \<Longrightarrow> session_inv (snd (getEntries s)) \<and> (disk_ok codec s d \<longrightarrow> disk_ok codec (snd (getEntries s)) d)"
  by (auto simp: getEntries_def session_inv_def caches_ok_def views_def headed_def disk_ok_def split: option.splits prod.splits)

lemma getBranch_exact:
  assumes "session_inv s"
  shows "\<exists>s1. getBranch None s = Some (path_to (entries_of (ss_entries s)) (ss_leaf s), s1) \<and>
    (s1 = s \<or> s1 = s\<lparr>ss_branchCache := Some (ss_leaf s, ss_mutation s, path_to (entries_of (ss_entries s)) (ss_leaf s))\<rparr>)"
proof -
  have "branch_walk s (ss_leaf s) = Some (path_to (entries_of (ss_entries s)) (ss_leaf s))"
    using assms by (intro inv_walk) (simp_all add: session_inv_def)
  moreover have "es = path_to (entries_of (ss_entries s)) (ss_leaf s)"
    if "ss_branchCache s = Some (ss_leaf s, ss_mutation s, es)" for es
    using assms that by (simp add: session_inv_def caches_ok_def)
  ultimately show ?thesis by (auto simp: getBranch_def split: option.splits prod.splits)
qed

lemma reach_ok: "session_reach codec s d \<Longrightarrow> session_inv s \<and> disk_ok codec s d"
proof (induction rule: session_reach.induct)
  case (New chosen parent now new_id cwd dir persist s d)
  then show ?case using newSession_ok caches_blank by blast
next
  case (Open labels f d cwd dir now new_id s d')
  then show ?case using setSessionFile_ok caches_blank by (metis open_session_def)
next
  case (Renew s d chosen parent now new_id s')
  then show ?case using newSession_ok session_inv_def by blast
next
  case (Switch s d labels f now new_id s' d')
  then show ?case using setSessionFile_ok session_inv_def by blast
next
  case (Append s d draws c now r s' d')
  then show ?case using run_append_ok by blast
next
  case (GoTo s d i s')
  then show ?case using move_inv [of s "Some i"] inv_known [of s i] by (auto simp: branch_def split: if_splits)
next
  case (Reset s d)
  then show ?case using move_inv [of s None] by (simp add: resetLeaf_def)
next
  case (Extract s d i now new_id labels r s' d')
  then show ?case using createBranchedSession_ok by blast
next
  case (ReadEntries s d)
  then show ?case using getEntries_inv by blast
next
  case (ReadBranch s d p s')
  then obtain "session_inv s" "disk_ok codec s d" by blast
  with getBranch_exact [of s] ReadBranch(2) show ?case
    by (auto simp: session_inv_def caches_ok_def views_def headed_def disk_ok_def)
qed

section \<open>What holds of every session\<close>

text \<open>C4: whatever a program does with a session, the walk from the leaf ends at a root and steps from parent to child
  down to the leaf, the memoised lists are those of the current entries, and the indexes, labels, name and usage
  totals that are kept up to date are those a rebuild from the entries would give.\<close>

theorem session_views_exact:
  assumes "session_reach codec s d"
  shows "fst (getEntries s) = entries_of (ss_entries s) \<and> views s = views (buildIndex s) \<and>
    (\<exists>path s1. getBranch None s = Some (path, s1) \<and> chained None path \<and> set path \<subseteq> set (entries_of (ss_entries s)) \<and>
       ss_leaf s = (if path = [] then None else Some (en_id (last path))))"
proof -
  have inv: "session_inv s" using reach_ok [OF assms] by blast
  then have rooted: "rooted {} (entries_of (ss_entries s))" and leaf: "ss_leaf s \<in> insert None (Some ` ids_of (entries_of (ss_entries s)))"
    by (simp_all add: session_inv_def)
  obtain s1 where "getBranch None s = Some (path_to (entries_of (ss_entries s)) (ss_leaf s), s1)"
    using getBranch_exact [OF inv] by blast
  moreover have "ss_leaf s = (let p = path_to (entries_of (ss_entries s)) (ss_leaf s) in if p = [] then None else Some (en_id (last p)))"
    using path_to_nonempty [OF rooted] leaf by (cases "ss_leaf s") (auto simp: Let_def)
  ultimately show ?thesis
    using getEntries_exact [OF inv] inv path_to_chained [OF rooted] path_to_subset by (auto simp: session_inv_def build_views Let_def)
qed

end
