(* ===== verification/SessionRestore.thy ===== *)
theory SessionRestore
  imports SessionReach
begin

text \<open>
  What comes back: a session from its file, the context after a message, the context of a branched session; and where
  something is lost.
\<close>

section \<open>From the file\<close>

lemma headed_version: "headed s \<Longrightarrow> migrateToCurrentVersion labels (ss_entries s) = (False, ss_entries s)"
  by (auto simp: headed_def migrateToCurrentVersion_def version_of_def first_header_def List.map_filter_def)

text \<open>C9: as soon as a session has a message of the assistant, opening its file gives the session again: its entries,
  their indexes, labels, name and usage totals, under its id, with the last entry as the leaf.\<close>

theorem session_file_restores:
  fixes s d labels now new_id cwd dir
  assumes "session_reach codec s d" and "ss_persist s" and "has_assistant (ss_entries s)"
    and "\<forall>e\<in>set (ss_entries s). line_ok codec e"
  shows "\<exists>f s'. ss_file s = Some f \<and> open_session f cwd dir codec now new_id labels d = (Inr (), s', d) \<and>
    ss_entries s' = ss_entries s \<and> views s' = views s \<and> ss_id s' = ss_id s \<and>
    ss_leaf s' = Some (en_id (last (entries_of (ss_entries s))))"
proof -
  have inv: "session_inv s" and disk: "disk_ok codec s d" using reach_ok [OF assms(1)] by simp_all
  from disk assms(2-4) obtain f body where f: "ss_file s = Some f" "d f = Some body" "parsed_lines codec body = ss_entries s"
    by (auto simp: disk_ok_def split: if_splits)
  have headed: "headed s" using inv by (simp add: session_inv_def)
  then obtain h es where h: "ss_entries s = Header h # es" "sh_id h = ss_id s" by (auto simp: headed_def)
  have load: "loadEntriesFromFile codec d f = ss_entries s" using f h by (simp add: loadEntriesFromFile_def)
  define t where "t = (blank_session cwd dir True)\<lparr>ss_file := Some f, ss_entries := ss_entries s, ss_id := ss_id s\<rparr>"
  have "open_session f cwd dir codec now new_id labels d =
      (Inr (), buildIndex t\<lparr>ss_mutation := Suc (ss_mutation (buildIndex t)), ss_flushed := True\<rparr>, d)"
    using f(2) load headed_version [OF headed] h
    by (simp add: open_session_def setSessionFile_def Let_def t_def first_header_def List.map_filter_def)
  moreover have "views (buildIndex t) = views s" using build_views [of t] inv by (simp add: t_def session_inv_def)
  moreover have "entries_of (ss_entries s) \<noteq> []" using assms(3) by (auto simp: has_assistant_def)
  ultimately show ?thesis
    using f(1) build_leaf [of t] by (intro exI conjI) (assumption, assumption, simp_all add: t_def views_def)
qed

section \<open>The context after a message\<close>

lemma session_context_exact:
  assumes "session_inv s"
  shows "fst (current_context s) =
    Some \<lparr>sc_messages = context_messages (context_of_path (path_to (entries_of (ss_entries s)) (ss_leaf s))),
      sc_thinking = fst (getSessionContextSettings (path_to (entries_of (ss_entries s)) (ss_leaf s))),
      sc_model = snd (getSessionContextSettings (path_to (entries_of (ss_entries s)) (ss_leaf s)))\<rparr>"
  using buildSessionContext_path [of "entries_of (ss_entries s)" "ss_leaf s"] getEntries_exact [OF assms] assms
  by (simp add: current_context_def split_def session_inv_def)

text \<open>C18: appending a message leaves what the model saw of the session as it was and adds the message behind it, also
  after compactions and on any branch.\<close>

theorem message_extends_context:
  fixes s d m now draws
  assumes "session_reach codec s d" and "draws_ok (known s) draws"
  defines "after \<equiv> fst (snd (appendMessage m codec now draws s d))"
  shows "\<exists>c c'. fst (current_context s) = Some c \<and> fst (current_context after) = Some c' \<and>
    sc_messages c' = sc_messages c @ [with_content m] \<and> sc_thinking c' = sc_thinking c"
proof -
  have inv: "session_inv s" and disk: "disk_ok codec s d" using reach_ok [OF assms(1)] by simp_all
  let ?e = "new_entry (MessageEntry m) now draws s" and ?es = "entries_of (ss_entries s)"
  have plain: "with_name (MessageEntry m) x = x" "with_label (MessageEntry m) now x = x" for x
    by (simp_all add: with_name_def with_label_def)
  from appended_ok [OF inv disk assms(2), of "MessageEntry m" now, unfolded plain]
  obtain b where after: "after = appended_session ?e s\<lparr>ss_flushed := b\<rparr>" "session_inv after"
    by (auto simp: after_def appendMessage_def)
  have id: "en_id ?e \<notin> ids_of ?es" using new_entry_ok [OF inv assms(2)] by blast
  let ?p = "path_to ?es (ss_leaf s)"
  have path: "path_to (entries_of (ss_entries after)) (ss_leaf after) = ?p @ [?e]"
    by (simp add: after(1) appended_session_def path_to_snoc) (simp add: new_entry_def)
  have "rooted {} ?p" using inv by (intro path_to_rooted) (simp add: session_inv_def)
  then have "distinct (map en_id (?p @ [?e]))" using id path_to_subset [of ?es] rooted_distinct by fastforce
  then have "context_of_path (?p @ [?e]) = context_of_path ?p @ [?e]"
    by (intro context_append) (simp_all add: new_entry_def compaction_of_def)
  moreover have "sessionEntryToContextMessages ?e = [with_content m]"
    by (simp add: sessionEntryToContextMessages_def new_entry_def)
  moreover have "fst (getSessionContextSettings (?p @ [?e])) = fst (getSessionContextSettings ?p)"
    by (simp add: getSessionContextSettings_def settings_step_def new_entry_def Let_def split: session_message.splits)
  ultimately show ?thesis
    using session_context_exact [OF inv] session_context_exact [OF after(2)] path by simp
qed

section \<open>Branched sessions\<close>

lemma rechain_orphan: "map orphan (rechain p path) = map orphan (unlabelled path)"
  by (induction p path rule: rechain.induct) (auto simp: is_label_def orphan_def split: entry_kind.splits)

lemma rechain_unlabelled: "en_id ` set (rechain p path) = ids_of (unlabelled path)"
  by (metis list.set_map orphan_ids rechain_orphan)

lemma label_entries_labels: "\<forall>e\<in>set (label_entries draws n taken p ts). is_label e"
  by (induction draws n taken p ts rule: label_entries.induct) (simp_all add: Let_def is_label_def)

lemma branched_entries:
  assumes "createBranchedSession i codec now new_id draws s d = (Inr r, s', d')"
  shows "\<exists>path ls. branch_walk s (Some i) = Some path \<and> path \<noteq> [] \<and> entries_of (ss_entries s') = rechain None path @ ls \<and>
    (\<forall>l\<in>set ls. is_label l)"
proof -
  obtain path where path: "branch_walk s (Some i) = Some path" "path \<noteq> []"
    using assms by (auto simp: createBranchedSession_def split: option.splits if_splits)
  obtain ls where "entries_of (ss_entries s') = rechain None path @ ls" "\<forall>l\<in>set ls. is_label l"
    using assms path label_entries_labels
    by (fastforce simp: createBranchedSession_def Let_def split: if_splits)
  with path show ?thesis by blast
qed

text \<open>The messages a path gives without its labels.\<close>

lemma branched_path:
  assumes "session_reach codec s d" and "createBranchedSession i codec now new_id draws s d = (Inr r, s', d')"
    and "new_ids s'" and "\<forall>f. r = Some f \<longrightarrow> d f = None"
  defines "path \<equiv> path_to (entries_of (ss_entries s)) (Some i)"
  shows "\<exists>c'. fst (current_context s') = Some c' \<and> sc_messages c' = context_messages (context_of_path (unlabelled path)) \<and>
    (sc_thinking c', sc_model c') = getSessionContextSettings path"
proof -
  have inv: "session_inv s" and inv': "session_inv s'"
    using reach_ok [OF assms(1)] reach_ok [OF Extract [OF assms(1-4)]] by simp_all
  from branched_entries [OF assms(2)] obtain p ls where p: "branch_walk s (Some i) = Some p" "p \<noteq> []"
    "entries_of (ss_entries s') = rechain None p @ ls" "\<forall>l\<in>set ls. is_label l" by blast
  have "i \<in> ids_of (entries_of (ss_entries s))"
    using p(1,2) inv_byId [OF inv] by (auto simp: branch_walk_def text_given_def by_id_def image_image dest!: map_of_SomeD split: if_splits option.splits)
  then have "p = path" using inv_walk [OF inv, of "Some i"] p(1) by (simp add: path_def)
  let ?k = "rechain None path"
  have entries: "entries_of (ss_entries s') = ?k @ ls" using p(3) \<open>p = path\<close> by simp
  have chain: "chained None (?k @ ls)" and leaf: "ss_leaf s' = (if ?k @ ls = [] then None else Some (en_id (last (?k @ ls))))"
    using createBranchedSession_ok [OF inv assms(2-4)] entries by simp_all
  have rooted: "rooted {} (?k @ ls)" using inv' entries by (simp add: session_inv_def)
  then have whole: "path_to (?k @ ls) (ss_leaf s') = ?k @ ls"
    using path_to_chain [OF rooted chain] leaf by (cases "?k @ ls = []") simp_all
  have orphans: "map orphan ?k = map orphan (unlabelled path)" by (rule rechain_orphan)
  have dist: "distinct (map en_id (?k @ ls))" "distinct (map en_id ?k)" using rooted_distinct [OF rooted] by auto
  have dist': "distinct (map en_id (unlabelled path))" using dist(2) orphans by (metis orphan_ids)
  have labels: "\<forall>l\<in>set ls. compaction_of l = None" using p(4) label_no_compaction by blast
  have none: "context_messages ls = []" "\<And>c. fold settings_step ls c = c"
    using p(4) by (induction ls) (simp_all add: label_no_settings)
  have "context_messages (context_of_path (?k @ ls)) = context_messages (context_of_path ?k)"
    by (simp add: context_append [OF dist(1) labels] none)
  also have "\<dots> = context_messages (context_of_path (map orphan ?k))" by (simp add: orphan_context [OF dist(2)])
  also have "\<dots> = context_messages (context_of_path (unlabelled path))" unfolding orphans by (simp add: orphan_context [OF dist'])
  finally have messages: "context_messages (context_of_path (?k @ ls)) = context_messages (context_of_path (unlabelled path))" .
  have "getSessionContextSettings (?k @ ls) = getSessionContextSettings path"
    using orphan_settings [of ?k] orphan_settings [of "unlabelled path"]
    by (simp add: getSessionContextSettings_def none settings_unlabelled orphans)
  with messages whole show ?thesis using session_context_exact [OF inv'] entries by simp
qed

text \<open>C19: a session that is branched off at an entry gives the model what the old session gave at that entry: the same
  messages, thinking level and model, provided the latest compaction does not keep from a label on.\<close>

theorem branched_session_context:
  assumes "session_reach codec s d" and "createBranchedSession i codec now new_id draws s d = (Inr r, s', d')"
    and "new_ids s'" and "\<forall>f. r = Some f \<longrightarrow> d f = None"
    and "\<forall>e c l. latest_compaction (path_to (entries_of (ss_entries s)) (Some i)) = Some (e, c) \<and>
      l \<in> set (path_to (entries_of (ss_entries s)) (Some i)) \<and> is_label l \<longrightarrow> en_id l \<noteq> co_firstKept c"
  shows "fst (current_context s') = buildSessionContext (entries_of (ss_entries s)) (Some (Some i)) None"
proof -
  have inv: "session_inv s" using reach_ok [OF assms(1)] by simp
  then have rooted: "rooted {} (entries_of (ss_entries s))" by (simp add: session_inv_def)
  let ?p = "path_to (entries_of (ss_entries s)) (Some i)"
  from branched_path [OF assms(1-4)] obtain c' where c': "fst (current_context s') = Some c'"
    "sc_messages c' = context_messages (context_of_path (unlabelled ?p))" "(sc_thinking c', sc_model c') = getSessionContextSettings ?p"
    by blast
  have "context_of_path (unlabelled ?p) = unlabelled (context_of_path ?p)"
    using assms(5) rooted_distinct [OF path_to_rooted [OF rooted]] by (intro context_unlabelled) blast+
  then have "sc_messages c' = context_messages (context_of_path ?p)" using c'(2) by simp
  moreover have "i \<in> ids_of (entries_of (ss_entries s))"
    using branched_entries [OF assms(2)] inv_byId [OF inv]
    by (auto simp: branch_walk_def text_given_def by_id_def image_image dest!: map_of_SomeD split: if_splits option.splits)
  ultimately show ?thesis
    using buildSessionContext_path [OF rooted, of "Some i"] c'(1,3) by (cases c') (simp add: prod_eq_iff)
qed

text \<open>When it does, what it kept is gone from the branched session: only the summary and what came after are left.\<close>

lemma branch_drops_kept:
  assumes "session_reach codec s d" and "createBranchedSession i codec now new_id draws s d = (Inr r, s', d')"
    and "new_ids s'" and "\<forall>f. r = Some f \<longrightarrow> d f = None"
    and "path_to (entries_of (ss_entries s)) (Some i) = a @ e # b" and "compaction_of e = Some c" and "\<forall>x\<in>set b. compaction_of x = None"
    and "l \<in> set a" and "is_label l" and "en_id l = co_firstKept c"
  shows "\<exists>c'. fst (current_context s') = Some c' \<and> sc_messages c' = sessionEntryToContextMessages e @ context_messages b"
proof -
  have "rooted {} (a @ e # b)"
    using reach_ok [OF assms(1)] path_to_rooted [of "entries_of (ss_entries s)" "Some i"] assms(5) by (simp add: session_inv_def)
  then have dist: "distinct (map en_id (a @ e # b))" by (rule rooted_distinct)
  have e: "\<not> is_label e" using assms(6) label_no_compaction by fastforce
  have "\<forall>x\<in>set (unlabelled a). en_id x \<noteq> co_firstKept c"
    using dist assms(8-10) by (auto simp: distinct_map inj_on_def)
  then have "context_of_path (unlabelled (a @ e # b)) = e # unlabelled b"
    using context_split [of "unlabelled a" e "unlabelled b" c] distinct_unlabelled [OF dist] assms(6,7) e kept_none by simp
  with branched_path [OF assms(1-4)] assms(5) show ?thesis by fastforce
qed

section \<open>A torn last line\<close>

text \<open>A file whose last line was cut off keeps that line: the next entry is appended to it, and both are gone for every
  later reader if the line then is no entry.\<close>

lemma torn_line_swallows_entry:
  assumes "whole_lines t" and "LF \<notin> set torn" and "LF \<notin> set (stringify codec (Entry e))"
    and "parse_entry codec (torn @ stringify codec (Entry e)) = None" and "parse_entry codec torn = None"
    and "d f = Some (t @ torn)" and "ss_persist s" and "ss_file s = Some f" and "f \<noteq> []" and "ss_flushed s"
  shows "\<exists>d'. persist_entry codec e s d = (Inr (), s, d') \<and> loadEntriesFromFile codec d' f = loadEntriesFromFile codec d f"
proof -
  have "parsed_lines codec (torn @ line_of codec (Entry e)) = []" "parsed_lines codec torn = []"
    using split_on_append [of LF "torn @ stringify codec (Entry e)" "[]"] assms(2-5)
    by (simp_all add: parsed_lines_def line_of_def List.map_filter_def parseSessionEntryLine_def trim_def split_on_none)
  then have "parsed_lines codec (t @ torn @ line_of codec (Entry e)) = parsed_lines codec (t @ torn)"
    using assms(1) by (simp add: parsed_append)
  with assms(6-10) show ?thesis
    by (auto simp: persist_entry_def text_given_def Let_def append_text_def loadEntriesFromFile_def)
qed

section \<open>A session\<close>

lemma generateId_first: "\<not> has (take 8 (draws 0)) \<Longrightarrow> generateId has draws = take 8 (draws 0)"
  by (simp add: generateId_def upt_conv_Cons)

definition sample_header :: session_header where
  "sample_header = \<lparr>sh_version = Some 3, sh_id = js ''i'', sh_time = js ''t'', sh_cwd = Some (js ''/w''), sh_parent = None\<rparr>"

definition sample_message :: session_message where
  "sample_message = Assistant \<lparr>am_content = Blocks [TextBlock (js ''hi'')], am_provider = js ''p'', am_model = js ''m'', am_usage = None,
     am_stopReason = js ''stop'', am_time = Millis 1\<rparr>"

definition sample_entry :: session_entry where
  "sample_entry = \<lparr>en_id = js ''01234567'', en_parent = None, en_time = js ''u'', en_kind = MessageEntry sample_message\<rparr>"

definition sample_codec :: entry_codec where
  "sample_codec = \<lparr>stringify = (\<lambda>e. case e of Header _ \<Rightarrow> js ''h'' | Entry _ \<Rightarrow> js ''e''),
     parse_entry = (\<lambda>l. if l = js ''h'' then Some (Header sample_header) else if l = js ''e'' then Some (Entry sample_entry) else None)\<rparr>"

definition fresh_session :: session_data where
  "fresh_session = (blank_session (js ''/w'') (js ''/d'') True)\<lparr>ss_id := js ''i'', ss_entries := [Header sample_header], ss_mutation := 1,
     ss_file := Some (session_path (js ''/d'') (js ''t'') (js ''i''))\<rparr>"

abbreviation sample_draws :: "nat \<Rightarrow> jstr" where
  "sample_draws \<equiv> (\<lambda>_. js ''01234567'')"

definition sample_session :: session_data where
  "sample_session = fst (snd (appendMessage sample_message sample_codec (js ''u'') sample_draws fresh_session Map.empty))"

definition sample_disk :: disk where
  "sample_disk = snd (snd (appendMessage sample_message sample_codec (js ''u'') sample_draws fresh_session Map.empty))"

lemma start_reach: "session_reach sample_codec fresh_session Map.empty"
proof (rule New)
  show "newSession None None (js ''t'') (js ''i'') (blank_session (js ''/w'') (js ''/d'') True) = Inr fresh_session"
    by (simp add: newSession_def Let_def fresh_session_def blank_session_def clear_index_def sample_header_def CURRENT_SESSION_VERSION_def)
qed (simp add: free_path_def)

lemma start_draws: "draws_ok (known fresh_session) sample_draws"
  by (simp add: draws_ok_def known_def fresh_session_def blank_session_def js_def)

lemma sample_reach: "session_reach sample_codec sample_session sample_disk"
  by (rule Append [OF start_reach start_draws, where c = "CallMessage sample_message" and now = "js ''u''"
        and r = "fst (appendMessage sample_message sample_codec (js ''u'') sample_draws fresh_session Map.empty)"])
    (simp add: sample_session_def sample_disk_def)

lemma sample_fields:
  "ss_entries sample_session = [Header sample_header, Entry sample_entry]" "ss_persist sample_session" "ss_leaf sample_session = Some (js ''01234567'')"
  "ss_labels sample_session = []" "ss_dir sample_session = js ''/d''"
  "sample_disk (session_path (js ''/d'') (js ''v'') (js ''j'')) = None"
proof -
  have id: "generateId (known fresh_session) sample_draws = js ''01234567''"
    using generateId_first [of "known fresh_session" sample_draws] by (simp add: known_def fresh_session_def blank_session_def js_def)
  have "new_entry (MessageEntry sample_message) (js ''u'') sample_draws fresh_session = sample_entry"
    unfolding new_entry_def id by (simp add: sample_entry_def fresh_session_def blank_session_def)
  then show "ss_entries sample_session = [Header sample_header, Entry sample_entry]" "ss_persist sample_session"
    "ss_leaf sample_session = Some (js ''01234567'')" "ss_labels sample_session = []" "ss_dir sample_session = js ''/d''"
    "sample_disk (session_path (js ''/d'') (js ''v'') (js ''j'')) = None"
    by (simp_all add: sample_session_def sample_disk_def appendMessage_def append_kind_def appendEntry_def persist_entry_def split_def Let_def text_given_def)
      (simp_all add: fresh_session_def blank_session_def sample_entry_def session_path_def js_def append_text_def)
qed

lemma sample_lines: "\<forall>e\<in>set (ss_entries sample_session). line_ok sample_codec e"
  by (simp add: sample_fields line_ok_def sample_codec_def js_def trim_def trim_start_def trim_end_def is_space_def)

theorem session_views_exact_witness: "fst (getEntries sample_session) = [sample_entry]"
  using session_views_exact [OF sample_reach] by (simp add: sample_fields)

theorem session_file_restores_witness:
  "\<exists>f s'. ss_file sample_session = Some f \<and>
     open_session f [] [] sample_codec [] [] (\<lambda>_ _. []) sample_disk = (Inr (), s', sample_disk) \<and> ss_entries s' = [Header sample_header, Entry sample_entry]"
  using session_file_restores [OF sample_reach sample_fields(2) _ sample_lines, of "[]" "[]" "[]" "[]" "\<lambda>_ _. []"]
  by (auto simp: sample_fields has_assistant_def assistant_entry_def sample_entry_def sample_message_def)

theorem message_extends_context_witness:
  "\<exists>c. fst (current_context sample_session) = Some c \<and> last (sc_messages c) = with_content sample_message"
  using message_extends_context [OF start_reach start_draws, of sample_message "js ''u''"] unfolding sample_session_def by auto

lemma sample_path: "path_to [sample_entry] (Some (js ''01234567'')) = [sample_entry]"
  using path_to_snoc [of "[]" sample_entry "Some (js ''01234567'')"] by (simp add: sample_entry_def)

theorem branched_session_context_witness:
  "\<exists>s' d'. createBranchedSession (js ''01234567'') sample_codec (js ''v'') (js ''j'') (\<lambda>_ _. []) sample_session sample_disk = (Inr (Some (session_path (ss_dir sample_session) (js ''v'') (js ''j''))), s', d') \<and>
     fst (current_context s') = buildSessionContext [sample_entry] (Some (Some (js ''01234567''))) None"
proof -
  have inv: "session_inv sample_session" using reach_ok [OF sample_reach] by simp
  let ?run = "createBranchedSession (js ''01234567'') sample_codec (js ''v'') (js ''j'') (\<lambda>_ _. []) sample_session sample_disk"
  have walk: "branch_walk sample_session (Some (js ''01234567'')) = Some [sample_entry]"
    using inv_walk [OF inv, of "Some (js ''01234567'')"] sample_path by (simp add: sample_fields) (simp add: sample_entry_def)
  have "has_assistant [Header h, Entry sample_entry]" for h
    by (simp add: has_assistant_def assistant_entry_def sample_entry_def sample_message_def)
  moreover have "rechain None [sample_entry] = [sample_entry]" by (simp add: sample_entry_def)
  ultimately obtain s' d' where run: "?run = (Inr (Some (session_path (js ''/d'') (js ''v'') (js ''j''))), s', d')"
    "entries_of (ss_entries s') = [sample_entry]"
    by (simp add: createBranchedSession_def walk Let_def sample_fields)
  have "new_ids s'" by (simp add: new_ids_def run(2) sample_entry_def js_def)
  from branched_session_context [OF sample_reach run(1) this] sample_fields(6) run(1) show ?thesis
    by (simp add: sample_fields sample_path latest_single) (simp add: compaction_of_def sample_entry_def sample_fields)
qed

end
