(* ===== verification/SessionLoad.thy ===== *)
theory SessionLoad
  imports SessionRestore Incremental
begin

text \<open>
  Reading a session file in blocks (\<open>loadEntriesFromFile\<close>), what the migration of the oldest files makes of them, and
  forks of such files. The blocks are the text \<open>StringDecoder\<close> makes of what is read.
\<close>

section \<open>Blocks\<close>

text \<open>The loop over the line feeds of \<open>pending\<close>: the lines and the final \<open>lineStart\<close>.\<close>

function pending_lines :: "jstr \<Rightarrow> nat \<Rightarrow> jstr list \<times> nat" where
  "pending_lines pending lineStart =
     (case index_of LF pending lineStart of
        None \<Rightarrow> ([], lineStart)
      | Some newlineIndex \<Rightarrow>
          (slice pending lineStart newlineIndex # fst (pending_lines pending (newlineIndex + 1)),
           snd (pending_lines pending (newlineIndex + 1))))"
  by pat_completeness auto
termination
  by (relation "measure (\<lambda>(pending, lineStart). length pending - lineStart)")
    (auto simp: index_of_def dest!: index_from_Some)

declare pending_lines.simps [simp del]

definition read_block :: "entry_codec \<Rightarrow> jstr \<Rightarrow> jstr \<Rightarrow> (jstr \<times> file_entry list) option" where
  "read_block codec pending block =
     (let pending = pending @ block
      in Some (drop (snd (pending_lines pending 0)) pending,
           List.map_filter (parseSessionEntryLine codec) (fst (pending_lines pending 0))))"

fun read_blocks :: "entry_codec \<Rightarrow> jstr \<Rightarrow> jstr list \<Rightarrow> file_entry list" where
  "read_blocks codec pending [] = List.map_filter (parseSessionEntryLine codec) [pending]"
| "read_blocks codec pending (b # bs) =
     (case read_block codec pending b of None \<Rightarrow> [] | Some (pending, es) \<Rightarrow> es @ read_blocks codec pending bs)"

lemma split_on_last: "LF \<notin> set (last (split_on LF s))"
  by (rule split_on_parts) (rule last_in_set, simp)

lemma split_on_two: "split_on c (xs @ zs) = butlast (split_on c xs) @ split_on c (last (split_on c xs) @ zs)"
proof (cases "c \<in> set xs")
  case True
  then obtain l r where xs: "xs = l @ c # r" "c \<notin> set r" using split_list_last by metis
  then show ?thesis using split_on_LF [of c l r] split_on_LF [of c l "r @ zs"] by (simp add: split_on_none butlast_append)
qed (simp add: split_on_none)

lemma pending_lines_split:
  "k \<le> length s \<Longrightarrow> fst (pending_lines s k) = butlast (split_on LF (drop k s)) \<and>
     drop (snd (pending_lines s k)) s = last (split_on LF (drop k s))"
proof (induction s k rule: pending_lines.induct)
  case (1 s k)
  show ?case
  proof (cases "index_from LF (drop k s)")
    case None
    then have "LF \<notin> set (drop k s)" "index_of LF s k = None" by (simp_all add: index_from_None [symmetric] index_of_def)
    then show ?thesis by (subst (1 2) pending_lines.simps) (simp add: split_on_none)
  next
    case (Some i)
    then have i: "i < length s - k" and at: "s ! (k + i) = LF" and before: "LF \<notin> set (take i (drop k s))"
      by (auto dest: index_from_Some)
    have split: "drop k s = take i (drop k s) @ LF # drop (k + i + 1) s"
      using id_take_nth_drop [of i "drop k s"] i at by (simp add: add_ac)
    have idx: "index_of LF s k = Some (k + i)" using Some by (simp add: index_of_def)
    have lines: "split_on LF (drop k s) = take i (drop k s) # split_on LF (drop (k + i + 1) s)"
      by (subst split) (rule split_on_append [OF before])
    have "pending_lines s k = (take i (drop k s) # fst (pending_lines s (k + i + 1)), snd (pending_lines s (k + i + 1)))"
      by (subst pending_lines.simps) (simp add: idx slice_def)
    with "1.IH"(1) [OF idx] i show ?thesis unfolding lines by simp
  qed
qed

definition block_split :: "entry_codec \<Rightarrow> jstr \<Rightarrow> (file_entry list \<times> jstr) option" where
  "block_split codec s = Some (List.map_filter (parseSessionEntryLine codec) (butlast (split_on LF s)), last (split_on LF s))"

lemma map_filter_append [simp]: "List.map_filter f (xs @ ys) = List.map_filter f xs @ List.map_filter f ys"
  by (simp add: List.map_filter_def)

interpretation session_reader: incremental "read_block codec" "\<lambda>pending. LF \<notin> set pending" "\<lambda>pending. pending" "block_split codec"
  for codec
proof unfold_locales
  fix s xs ys r
  assume "LF \<notin> set s" "block_split codec (s @ xs) = Some (ys, r)"
  then show "\<exists>s'. read_block codec s xs = Some (s', ys) \<and> LF \<notin> set s' \<and> s' = r"
    using pending_lines_split [of 0 "s @ xs"] split_on_last [of "s @ xs"] by (auto simp: block_split_def read_block_def Let_def)
next
  fix s xs
  show "block_split codec (s @ xs) = None \<Longrightarrow> read_block codec s xs = None" by (simp add: block_split_def)
next
  fix s
  show "LF \<notin> set s \<Longrightarrow> block_split codec s = Some ([], s)" by (simp add: block_split_def split_on_none List.map_filter_def)
next
  fix xs zs
  show "block_split codec (xs @ zs) = (case block_split codec xs of None \<Rightarrow> None
     | Some (ys, r) \<Rightarrow> map_option (\<lambda>(ys', r'). (ys @ ys', r')) (block_split codec (r @ zs)))"
    by (simp add: block_split_def split_on_two [of LF xs zs] butlast_append)
qed

lemma read_blocks_feed:
  "session_reader.feed_all codec pending bs = Some (rest, es) \<Longrightarrow>
   read_blocks codec pending bs = es @ List.map_filter (parseSessionEntryLine codec) [rest]"
proof (induction bs arbitrary: pending es)
  case Nil
  then show ?case by simp
next
  case (Cons b bs)
  then obtain p1 e1 e2 where "read_block codec pending b = Some (p1, e1)" "session_reader.feed_all codec p1 bs = Some (rest, e2)"
    "es = e1 @ e2" by (auto split: option.splits)
  with Cons.IH show ?case by simp
qed

text \<open>In whatever blocks a file is read, its entries are those of its lines.\<close>

lemma blocks_irrelevant: "read_blocks codec [] bs = parsed_lines codec (concat bs)"
proof -
  have "block_split codec ([] @ concat bs) = Some (List.map_filter (parseSessionEntryLine codec) (butlast (split_on LF (concat bs))),
      last (split_on LF (concat bs)))" by (simp add: block_split_def)
  from session_reader.feed_all_split [OF _ this] obtain rest where
    "session_reader.feed_all codec [] bs = Some (rest, List.map_filter (parseSessionEntryLine codec) (butlast (split_on LF (concat bs))))"
    "rest = last (split_on LF (concat bs))" by auto
  with read_blocks_feed have "read_blocks codec [] bs =
      List.map_filter (parseSessionEntryLine codec) (butlast (split_on LF (concat bs)) @ [last (split_on LF (concat bs))])"
    unfolding map_filter_append by blast
  then show ?thesis by (simp add: parsed_lines_def del: map_filter_append)
qed

section \<open>Migration\<close>

text \<open>The set that the ids are looked up in stays empty, so the first draw is always taken.\<close>

lemma v1_id_unchecked: "v1_id draws n = take 8 (draws n 0)"
  unfolding v1_id_def by (rule generateId_first) simp

lemma migrate_loop_entries:
  "map en_id (entries_of (migrate_v1_loop draws all n p es)) = map (v1_id draws) (filter (\<lambda>k. \<exists>e. es ! (k - n) = Entry e) [n..<n + length es])"
proof (induction draws all n p es rule: migrate_v1_loop.induct)
  case (2 draws all n p h es)
  have "filter (\<lambda>k. \<exists>e. (Header h # es) ! (k - n) = Entry e) [n..<n + length (Header h # es)] =
      filter (\<lambda>k. \<exists>e. es ! (k - Suc n) = Entry e) [Suc n..<Suc n + length es]"
    by (auto simp: upt_conv_Cons nth_Cons' Suc_le_eq intro!: filter_cong)
  with 2 show ?case by simp
next
  case (3 draws all n p e es)
  have "filter (\<lambda>k. \<exists>e'. (Entry e # es) ! (k - n) = Entry e') [n..<n + length (Entry e # es)] =
      n # filter (\<lambda>k. \<exists>e. es ! (k - Suc n) = Entry e) [Suc n..<Suc n + length es]"
    by (auto simp: upt_conv_Cons nth_Cons' Suc_le_eq intro!: filter_cong)
  with 3 show ?case by simp
qed simp

lemma migrate_loop_chained: "chained p (entries_of (migrate_v1_loop draws all n p es))"
  by (induction draws all n p es rule: migrate_v1_loop.induct) simp_all

text \<open>A file of version 1 becomes one chain; it is a sound tree when no two of the random ids are equal, which nothing
  checks.\<close>

lemma migrated_chain:
  assumes "inj_on (\<lambda>n. take 8 (draws n 0)) {..<length es}" and "\<And>n. draws n 0 \<noteq> []"
  shows "rooted {} (entries_of (migrateV1ToV2 draws es))"
proof -
  let ?ks = "filter (\<lambda>k. \<exists>e. es ! k = Entry e) [0..<length es]"
  have ids: "map en_id (entries_of (migrateV1ToV2 draws es)) = map (v1_id draws) ?ks"
    using migrate_loop_entries [of draws es 0 None es] by (simp add: migrateV1ToV2_def)
  have "v1_id draws = (\<lambda>n. take 8 (draws n 0))" by (rule ext) (rule v1_id_unchecked)
  then have "inj_on (v1_id draws) (set ?ks)"
    using assms(1) by (auto intro: inj_on_subset)
  then have "distinct (map en_id (entries_of (migrateV1ToV2 draws es)))" unfolding ids by (simp add: distinct_map)
  moreover have "[] \<notin> ids_of (entries_of (migrateV1ToV2 draws es))"
    using ids assms(2) by (metis (no_types, lifting) imageE list.set_map take_eq_Nil v1_id_unchecked zero_neq_numeral)
  ultimately show ?thesis
    using migrate_loop_chained [of None draws es 0 es] by (intro chained_rooted [of None]) (simp_all add: migrateV1ToV2_def)
qed

section \<open>Forks of old files\<close>

text \<open>A fork copies the lines of its source and calls itself version 3, so entries of version 1 keep having no id and no
  parent: the fork shows the model the last entry alone.\<close>

lemma fork_of_old_file:
  fixes codec d source cwd dir now new_id draws h xs
  assumes "loadEntriesFromFile codec d source = Header h # map Entry xs" and "xs \<noteq> []"
    and "\<forall>x\<in>set xs. en_id x = [] \<and> en_parent x = None \<and> line_ok codec (Entry x)"
    and "line_ok codec (Header \<lparr>sh_version = Some CURRENT_SESSION_VERSION, sh_id = new_id, sh_time = now, sh_cwd = Some cwd,
      sh_parent = Some source\<rparr>)" and "d (session_path dir now new_id) = None"
  shows "\<exists>s d' c. forkFrom source cwd dir None codec now new_id draws d = (Inr s, d') \<and>
    fst (current_context s) = Some c \<and> sc_messages c = sessionEntryToContextMessages (last xs)"
proof -
  define f where "f = session_path dir now new_id"
  define hd where "hd = Header \<lparr>sh_version = Some CURRENT_SESSION_VERSION, sh_id = new_id, sh_time = now, sh_cwd = Some cwd,
      sh_parent = Some source\<rparr>"
  define body where "body = line_of codec hd @ concat (map (\<lambda>e. line_of codec (Entry e)) xs)"
  define d1 where "d1 = d(f \<mapsto> body)"
  have "body = concat (map (line_of codec) (hd # map Entry xs))" by (simp add: body_def comp_def)
  moreover have "\<forall>e\<in>set (hd # map Entry xs). line_ok codec e" using assms(3,4) by (auto simp: hd_def)
  ultimately have body: "parsed_lines codec body = hd # map Entry xs" using parsed_concat by metis
  have load: "loadEntriesFromFile codec d1 f = hd # map Entry xs" by (simp add: loadEntriesFromFile_def d1_def body hd_def)
  define t where "t = (blank_session cwd dir True)\<lparr>ss_file := Some f, ss_entries := hd # map Entry xs, ss_id := new_id\<rparr>"
  define s where "s = buildIndex t\<lparr>ss_mutation := Suc (ss_mutation (buildIndex t)), ss_flushed := True\<rparr>"
  have mig: "migrateToCurrentVersion draws (hd # map Entry xs) = (False, hd # map Entry xs)"
    by (simp add: migrateToCurrentVersion_def version_of_def first_header_def List.map_filter_def hd_def)
  have "setSessionFile codec f now new_id draws (blank_session cwd dir True) d1 = (Inr (), s, d1)"
    using load mig by (simp add: setSessionFile_def Let_def d1_def [symmetric] t_def s_def)
      (simp add: d1_def first_header_def List.map_filter_def hd_def)
  then have "forkFrom source cwd dir None codec now new_id draws d = (Inr s, d1)"
    using assms(1,2,5)
    by (simp add: forkFrom_def Let_def first_header_def List.map_filter_def f_def [symmetric] hd_def [symmetric] body_def [symmetric]
        d1_def [symmetric] comp_def)
  moreover have "fst (current_context s) = Some \<lparr>sc_messages = sessionEntryToContextMessages (last xs),
      sc_thinking = fst (getSessionContextSettings [last xs]), sc_model = snd (getSessionContextSettings [last xs])\<rparr>"
  proof -
    have last: "en_id (last xs) = []" "en_parent (last xs) = None" using assms(2,3) last_in_set by auto
    have entries: "fst (getEntries s) = xs" "ss_leaf s = Some []"
      using build_leaf [of t] assms(2) last(1) by (simp_all add: getEntries_def s_def t_def blank_session_def hd_def)
    have "walk_up i (last xs) = Some [last xs]" for i
      by (subst walk_up.simps) (simp add: parent_entry_def last(2))
    then have "buildSessionPath xs (Some (Some [])) None = Some [last xs]"
      using assms(2) by (simp add: buildSessionPath_def Let_def)
    moreover have "context_of_path [last xs] = [last xs]"
      by (simp add: context_of_path_def latest_single split: option.splits)
    ultimately show ?thesis
      using entries by (simp add: current_context_def split_def buildSessionContext_def buildContextEntries_def)
  qed
  ultimately show ?thesis by fastforce
qed

end
