(* ===== verification/Messages.thy ===== *)
theory Messages
  imports SessionEntry
begin

text \<open>
  What is sent of the messages of a session (\<open>messages.ts\<close>): the roles a provider does not know become messages of the
  user, only the last reminder of a goal stays, and old images give way to a placeholder when the request would
  grow too large.
\<close>

section \<open>Conversion\<close>

definition GOAL_CONTINUATION_MESSAGE_TYPE :: jstr where
  "GOAL_CONTINUATION_MESSAGE_TYPE = js ''goal-continuation''"

definition isContextExcludedCustomMessage :: "jstr \<Rightarrow> bool" where
  "isContextExcludedCustomMessage customType = False"

definition is_goal_continuation :: "session_message \<Rightarrow> bool" where
  "is_goal_continuation m = (case m of Custom c \<Rightarrow> cm_type c = GOAL_CONTINUATION_MESSAGE_TYPE | _ \<Rightarrow> False)"

definition last_goal_index :: "session_message list \<Rightarrow> nat option" where
  "last_goal_index messages = find (\<lambda>i. is_goal_continuation (messages ! i)) (rev [0..<length messages])"

definition keepLatestGoalContinuationMessage :: "session_message list \<Rightarrow> session_message list" where
  "keepLatestGoalContinuationMessage messages =
     (case last_goal_index messages of None \<Rightarrow> messages
      | Some k \<Rightarrow> map fst (filter (\<lambda>(m, i). i = k \<or> \<not> is_goal_continuation m) (zip messages [0..<length messages])))"

definition filterContextExcludedMessages :: "session_message list \<Rightarrow> session_message list" where
  "filterContextExcludedMessages messages = keepLatestGoalContinuationMessage messages"

definition show_int :: "int \<Rightarrow> jstr" where
  "show_int n = (if n < 0 then js ''-'' @ decimal (nat (- n)) else decimal (nat n))"

definition bashExecutionToText :: "BashExecutionMessage \<Rightarrow> jstr" where
  "bashExecutionToText m =
     js ''Ran `'' @ be_command m @ js ''`'' @ [LF] @
     (if be_output m \<noteq> [] then js ''```'' @ [LF] @ be_output m @ [LF] @ js ''```'' else js ''(no output)'') @
     (if be_cancelled m then [LF, LF] @ js ''(command cancelled)''
      else (case be_exitCode m of
              Some c \<Rightarrow> if c \<noteq> 0 then [LF, LF] @ js ''Command exited with code '' @ show_int c else []
            | None \<Rightarrow> [])) @
     (if be_truncated m \<and> text_given (be_fullOutputPath m)
      then [LF, LF] @ js ''[Output truncated. Full output: '' @ the (be_fullOutputPath m) @ js '']'' else [])"

definition COMPACTION_SUMMARY_PREFIX :: jstr where
  "COMPACTION_SUMMARY_PREFIX =
     js ''The conversation history before this point was compacted into the following summary:'' @ [LF, LF] @ js ''<summary>'' @ [LF]"

definition COMPACTION_SUMMARY_SUFFIX :: jstr where
  "COMPACTION_SUMMARY_SUFFIX = [LF] @ js ''</summary>''"

definition BRANCH_SUMMARY_PREFIX :: jstr where
  "BRANCH_SUMMARY_PREFIX =
     js ''The following is a summary of a branch that this conversation came back from:'' @ [LF, LF] @ js ''<summary>'' @ [LF]"

definition BRANCH_SUMMARY_SUFFIX :: jstr where
  "BRANCH_SUMMARY_SUFFIX = js ''</summary>''"

definition text_message :: "jstr \<Rightarrow> timestamp \<Rightarrow> session_message" where
  "text_message t time = UserMessage (Blocks [TextBlock t]) time"

text \<open>The message a provider gets; \<open>None\<close> is one it does not get.\<close>

definition convert_message :: "session_message \<Rightarrow> session_message option" where
  "convert_message m =
     (case m of
        BashExecution b \<Rightarrow> if be_exclude b then None else Some (text_message (bashExecutionToText b) (be_time b))
      | Custom c \<Rightarrow>
          if isContextExcludedCustomMessage (cm_type c) then None
          else Some (UserMessage (case cm_content c of PlainText t \<Rightarrow> Blocks [TextBlock t] | content \<Rightarrow> content) (cm_time c))
      | BranchSummary s i t \<Rightarrow> Some (text_message (BRANCH_SUMMARY_PREFIX @ s @ BRANCH_SUMMARY_SUFFIX) t)
      | CompactionSummary s n det t \<Rightarrow> Some (text_message (COMPACTION_SUMMARY_PREFIX @ s @ COMPACTION_SUMMARY_SUFFIX) t)
      | HookMessage c \<Rightarrow> None
      | _ \<Rightarrow> Some m)"

definition convertToLlm :: "session_message list \<Rightarrow> session_message list" where
  "convertToLlm messages = List.map_filter convert_message (keepLatestGoalContinuationMessage messages)"

section \<open>Images\<close>

definition TRANSPORT_IMAGE_BUDGET_BYTES :: nat where
  "TRANSPORT_IMAGE_BUDGET_BYTES = 24 * 1024 * 1024"

definition IMAGE_ELISION_PLACEHOLDER :: jstr where
  "IMAGE_ELISION_PLACEHOLDER =
     js ''[Image elided: an older image was removed to keep the request within the provider'' @ [39] @
     js ''s size limit. Re-read the source file if you need to view it again.]''"

definition BLOCKED_IMAGE_PLACEHOLDER :: jstr where
  "BLOCKED_IMAGE_PLACEHOLDER = js ''Image reading is disabled.''"

text \<open>The blocks of a message that may hold images: those of the user and of tool results.\<close>

fun image_blocks :: "session_message \<Rightarrow> content_block list option" where
  "image_blocks (UserMessage (Blocks bs) t) = Some bs"
| "image_blocks (ToolResult r) = (case tr_content r of Blocks bs \<Rightarrow> Some bs | _ \<Rightarrow> None)"
| "image_blocks _ = None"

fun with_blocks :: "content_block list \<Rightarrow> session_message \<Rightarrow> session_message" where
  "with_blocks bs (UserMessage c t) = UserMessage (Blocks bs) t"
| "with_blocks bs (ToolResult r) = ToolResult (r\<lparr>tr_content := Blocks bs\<rparr>)"
| "with_blocks bs m = m"

definition is_image :: "content_block \<Rightarrow> bool" where
  "is_image b = (case b of ImageBlock _ \<Rightarrow> True | _ \<Rightarrow> False)"

definition dedupe_after :: "jstr \<Rightarrow> content_block option \<Rightarrow> content_block \<Rightarrow> bool" where
  "dedupe_after placeholder before b \<longleftrightarrow> \<not> (b = TextBlock placeholder \<and> before = Some (TextBlock placeholder))"

fun dedupe_loop :: "jstr \<Rightarrow> content_block option \<Rightarrow> content_block list \<Rightarrow> content_block list" where
  "dedupe_loop placeholder before [] = []"
| "dedupe_loop placeholder before (b # bs) =
     (if dedupe_after placeholder before b then [b] else []) @ dedupe_loop placeholder (Some b) bs"

definition dedupeConsecutivePlaceholder :: "content_block list \<Rightarrow> jstr \<Rightarrow> content_block list" where
  "dedupeConsecutivePlaceholder content placeholder = dedupe_loop placeholder None content"

record elide_options =
  eo_budget :: "nat option"
  eo_keepNewest :: "nat option"
  eo_maxHistorical :: "nat option"

record elide_state =
  es_kept :: nat
  es_keptHistorical :: nat
  es_bytes :: nat
  es_cutoff :: bool

text \<open>One image of the walk from the newest to the oldest: whether it is elided.\<close>

definition elide_image :: "elide_options \<Rightarrow> bool \<Rightarrow> jstr \<Rightarrow> elide_state \<Rightarrow> bool \<times> elide_state" where
  "elide_image opts after_assistant data st =
     (let budget = (case eo_budget opts of None \<Rightarrow> TRANSPORT_IMAGE_BUDGET_BYTES | Some b \<Rightarrow> b);
          keep = (case eo_keepNewest opts of None \<Rightarrow> 1 | Some n \<Rightarrow> n);
          limit = eo_maxHistorical opts \<noteq> None;
          current = (limit \<and> after_assistant);
          protected = (limit \<and> \<not> current \<and> es_keptHistorical st < the (eo_maxHistorical opts));
          exceeds = (limit \<and> \<not> current \<and> \<not> protected)
      in if exceeds \<or> es_cutoff st \<and> \<not> current \<and> \<not> protected then (True, st)
         else if current \<or> protected \<or> es_kept st < keep \<or> es_bytes st + length data \<le> budget
         then (False, st\<lparr>es_kept := Suc (es_kept st),
            es_keptHistorical := (if current then es_keptHistorical st else Suc (es_keptHistorical st)),
            es_bytes := es_bytes st + length data\<rparr>)
         else (True, st\<lparr>es_cutoff := True\<rparr>))"

text \<open>The blocks of a message from the last to the first: each with whether it is elided.\<close>

fun elide_blocks :: "elide_options \<Rightarrow> bool \<Rightarrow> content_block list \<Rightarrow> elide_state \<Rightarrow> (content_block \<times> bool) list \<times> elide_state" where
  "elide_blocks opts after_assistant [] st = ([], st)"
| "elide_blocks opts after_assistant (b # older) st =
     (let (gone, st) = (case b of ImageBlock data \<Rightarrow> elide_image opts after_assistant data st | _ \<Rightarrow> (False, st));
          (rest, st) = elide_blocks opts after_assistant older st
      in ((b, gone) # rest, st))"

definition replaced_blocks :: "(content_block \<times> bool) list \<Rightarrow> content_block list" where
  "replaced_blocks marked =
     (if list_ex snd marked
      then dedupeConsecutivePlaceholder
        (map (\<lambda>(b, gone). if gone then TextBlock IMAGE_ELISION_PLACEHOLDER else b) marked) IMAGE_ELISION_PLACEHOLDER
      else map fst marked)"

text \<open>The messages from the newest to the oldest; \<open>after_assistant\<close> while none of the assistant has been passed.\<close>

fun elide_messages :: "elide_options \<Rightarrow> bool \<Rightarrow> session_message list \<Rightarrow> elide_state \<Rightarrow> session_message list" where
  "elide_messages opts after_assistant [] st = []"
| "elide_messages opts after_assistant (m # older) st =
     (let after_assistant = (after_assistant \<and> (case m of Assistant _ \<Rightarrow> False | _ \<Rightarrow> True))
      in case image_blocks m of
           None \<Rightarrow> m # elide_messages opts after_assistant older st
         | Some bs \<Rightarrow>
             (let (marked, st) = elide_blocks opts after_assistant (rev bs) st
              in with_blocks (replaced_blocks (rev marked)) m # elide_messages opts after_assistant older st))"

definition elideOldImages :: "elide_options \<Rightarrow> session_message list \<Rightarrow> session_message list" where
  "elideOldImages opts messages =
     rev (elide_messages opts True (rev messages) \<lparr>es_kept = 0, es_keptHistorical = 0, es_bytes = 0, es_cutoff = False\<rparr>)"

definition block_images :: "session_message \<Rightarrow> session_message" where
  "block_images m =
     (case image_blocks m of None \<Rightarrow> m
      | Some bs \<Rightarrow>
          if \<not> list_ex is_image bs then m
          else with_blocks (dedupeConsecutivePlaceholder
            (map (\<lambda>b. if is_image b then TextBlock BLOCKED_IMAGE_PLACEHOLDER else b) bs) BLOCKED_IMAGE_PLACEHOLDER) m)"

definition convertToLlmForTransport :: "bool \<Rightarrow> elide_options \<Rightarrow> session_message list \<Rightarrow> session_message list" where
  "convertToLlmForTransport blockImages opts messages =
     (let converted = convertToLlm messages
      in if \<not> blockImages then elideOldImages opts converted else map block_images converted)"

section \<open>The budget\<close>

definition block_image :: "content_block \<Rightarrow> jstr option" where
  "block_image b = (case b of ImageBlock d \<Rightarrow> Some d | _ \<Rightarrow> None)"

abbreviation images_in :: "content_block list \<Rightarrow> jstr list" where
  "images_in bs \<equiv> List.map_filter block_image bs"

definition message_images :: "session_message \<Rightarrow> jstr list" where
  "message_images m = (case image_blocks m of None \<Rightarrow> [] | Some bs \<Rightarrow> images_in bs)"

definition images_of :: "session_message list \<Rightarrow> jstr list" where
  "images_of messages = concat (map message_images messages)"

text \<open>The walk over the images alone, newest first.\<close>

fun elide_run :: "elide_options \<Rightarrow> jstr list \<Rightarrow> elide_state \<Rightarrow> bool list \<times> elide_state" where
  "elide_run opts [] st = ([], st)"
| "elide_run opts (d # ds) st =
     (let (gone, st) = elide_image opts False d st; (rest, st) = elide_run opts ds st in (gone # rest, st))"

lemma elide_run_append:
  "elide_run opts (xs @ ys) st =
     (let (a, st) = elide_run opts xs st; (b, st) = elide_run opts ys st in (a @ b, st))"
  by (induction opts xs st rule: elide_run.induct) (auto simp: Let_def split: prod.splits)

lemma images_simps [simp]:
  "images_in [] = []" "images_in (b # bs) = (case block_image b of None \<Rightarrow> images_in bs | Some d \<Rightarrow> d # images_in bs)"
  "images_in (xs @ ys) = images_in xs @ images_in ys"
  by (simp_all add: List.map_filter_def split: option.splits)

lemma images_rev: "images_in (rev bs) = rev (images_in bs)"
  by (induction bs) (auto split: option.splits)

definition survivors :: "(content_block \<times> bool) list \<Rightarrow> jstr list" where
  "survivors marked = images_in (map fst (filter (\<lambda>p. \<not> snd p) marked))"

definition not_gone :: "jstr list \<Rightarrow> bool list \<Rightarrow> jstr list" where
  "not_gone ds flags = map fst (filter (\<lambda>p. \<not> snd p) (zip ds flags))"

lemma elide_image_unlimited: "eo_maxHistorical opts = None \<Longrightarrow> elide_image opts a d st = elide_image opts False d st"
  by (simp add: elide_image_def Let_def)

lemma block_image_Some [simp]: "block_image b = Some d \<longleftrightarrow> b = ImageBlock d"
  by (cases b) (auto simp: block_image_def)

lemma block_image_simps [simp]: "block_image (TextBlock t) = None" "block_image (ImageBlock d) = Some d"
  by (simp_all add: block_image_def)

lemma elide_blocks_run:
  assumes "eo_maxHistorical opts = None" and "elide_blocks opts a bs st = (marked, st')"
  shows "\<exists>flags. elide_run opts (images_in bs) st = (flags, st') \<and> survivors marked = not_gone (images_in bs) flags \<and>
    length flags = length (images_in bs) \<and> map fst marked = bs"
  using assms(2)
proof (induction bs arbitrary: st marked)
  case Nil
  then show ?case by (simp add: survivors_def not_gone_def)
next
  case (Cons b older)
  obtain gone st1 where one: "(case b of ImageBlock data \<Rightarrow> elide_image opts a data st | _ \<Rightarrow> (False, st)) = (gone, st1)"
    by (cases "case b of ImageBlock data \<Rightarrow> elide_image opts a data st | _ \<Rightarrow> (False, st)")
  obtain rest where rest: "elide_blocks opts a older st1 = (rest, st')" "marked = (b, gone) # rest"
    using Cons.prems one by (auto split: prod.splits)
  from Cons.IH [OF rest(1)] obtain flags where flags: "elide_run opts (images_in older) st1 = (flags, st')"
    "survivors rest = not_gone (images_in older) flags" "length flags = length (images_in older)" "map fst rest = older" by blast
  show ?case
  proof (cases "block_image b")
    case None
    then have "gone = False" "st1 = st" using one by (auto simp: block_image_def split: content_block.splits)
    with None flags rest(2) show ?thesis by (intro exI [of _ flags]) (simp add: survivors_def)
  next
    case (Some d)
    then have "elide_image opts a d st = (gone, st1)" using one by simp
    then have "elide_image opts False d st = (gone, st1)" using elide_image_unlimited [OF assms(1), of a d st] by simp
    with Some flags rest(2) show ?thesis
      by (intro exI [of _ "gone # flags"]) (auto simp: survivors_def not_gone_def)
  qed
qed

lemma images_dedupe: "images_in (dedupe_loop placeholder before bs) = images_in bs"
  by (induction placeholder before bs rule: dedupe_loop.induct) (auto simp: dedupe_after_def block_image_def split: option.splits)

lemma images_replaced: "images_in (replaced_blocks marked) = survivors marked"
proof (cases "list_ex snd marked")
  case True
  have "images_in (map (\<lambda>(b, gone). if gone then TextBlock IMAGE_ELISION_PLACEHOLDER else b) marked) = survivors marked"
    unfolding survivors_def by (induction marked) (auto split: option.splits if_splits)
  with True show ?thesis by (simp add: replaced_blocks_def dedupeConsecutivePlaceholder_def images_dedupe)
next
  case False
  then have "filter (\<lambda>p. \<not> snd p) marked = marked" by (induction marked) auto
  with False show ?thesis by (simp add: replaced_blocks_def survivors_def)
qed

lemma with_blocks_images: "image_blocks m = Some bs \<Longrightarrow> message_images (with_blocks bs' m) = images_in bs'"
  by (cases m rule: image_blocks.cases) (auto simp: message_images_def split: message_content.splits)

lemma survivors_rev: "survivors (rev marked) = rev (survivors marked)"
  unfolding survivors_def rev_filter [symmetric] rev_map [symmetric] by (rule images_rev)

lemma not_gone_append:
  "length ds = length flags \<Longrightarrow> not_gone (ds @ ds') (flags @ flags') = not_gone ds flags @ not_gone ds' flags'"
  by (simp add: not_gone_def)

lemma images_of_simps [simp]:
  "images_of [] = []" "images_of (m # ms) = message_images m @ images_of ms" "images_of (xs @ ys) = images_of xs @ images_of ys"
  by (simp_all add: images_of_def)

lemma images_of_rev: "rev (images_of (rev ms)) = concat (map (\<lambda>m. rev (message_images m)) ms)"
  by (induction ms) simp_all

lemma elide_messages_run:
  assumes "eo_maxHistorical opts = None" and "elide_run opts (rev (images_of (rev ms))) st = (flags, st')"
  shows "rev (images_of (rev (elide_messages opts a ms st))) = not_gone (rev (images_of (rev ms))) flags \<and>
    length flags = length (images_of (rev ms))"
  using assms(2)
proof (induction ms arbitrary: a st flags st')
  case Nil
  then show ?case by (simp add: not_gone_def)
next
  case (Cons m older)
  define a' where "a' = (a \<and> (case m of Assistant _ \<Rightarrow> False | _ \<Rightarrow> True))"
  show ?case
  proof (cases "image_blocks m")
    case None
    then have "message_images m = []" by (simp add: message_images_def)
    with Cons None show ?thesis by (simp add: a'_def [symmetric] Let_def)
  next
    case (Some bs)
    obtain marked st1 where marked: "elide_blocks opts a' (rev bs) st = (marked, st1)" by (cases "elide_blocks opts a' (rev bs) st")
    from elide_blocks_run [OF assms(1) marked] obtain f1 where f1: "elide_run opts (rev (images_in bs)) st = (f1, st1)"
      "survivors marked = not_gone (rev (images_in bs)) f1" "length f1 = length (images_in bs)" by (auto simp: images_rev)
    have images: "message_images m = images_in bs" using Some by (simp add: message_images_def)
    with Cons.prems f1(1) obtain f2 where f2: "elide_run opts (rev (images_of (rev older))) st1 = (f2, st')" "flags = f1 @ f2"
      by (auto simp: elide_run_append split: prod.splits)
    have "message_images (with_blocks (replaced_blocks (rev marked)) m) = rev (survivors marked)"
      by (simp add: with_blocks_images [OF Some] images_replaced survivors_rev)
    with Cons.IH [OF f2(1), of a'] f1 f2(2) images Some marked show ?thesis
      by (simp add: a'_def [symmetric] not_gone_append)
  qed
qed

section \<open>Which images stay\<close>

definition elide_budget :: "elide_options \<Rightarrow> nat" where
  "elide_budget opts = (case eo_budget opts of None \<Rightarrow> TRANSPORT_IMAGE_BUDGET_BYTES | Some b \<Rightarrow> b)"

definition elide_keep :: "elide_options \<Rightarrow> nat" where
  "elide_keep opts = (case eo_keepNewest opts of None \<Rightarrow> 1 | Some n \<Rightarrow> n)"

lemma elide_run_cutoff:
  "eo_maxHistorical opts = None \<Longrightarrow> es_cutoff st \<Longrightarrow> elide_run opts ds st = (replicate (length ds) True, st)"
  by (induction ds) (simp_all add: elide_image_def)

lemma elide_run_prefix:
  assumes "eo_maxHistorical opts = None" and "\<not> es_cutoff st" and "es_bytes st \<le> elide_budget opts \<or> es_kept st \<le> elide_keep opts"
  shows "\<exists>k st'. elide_run opts ds st = (replicate k False @ replicate (length ds - k) True, st') \<and> k \<le> length ds \<and>
    (es_bytes st + sum_list (map length (take k ds)) \<le> elide_budget opts \<or> es_kept st + k \<le> elide_keep opts) \<and>
    (k < length ds \<longrightarrow> es_kept st + k \<ge> elide_keep opts \<and> es_bytes st + sum_list (map length (take (Suc k) ds)) > elide_budget opts)"
  using assms(2,3)
proof (induction ds arbitrary: st)
  case Nil
  then show ?case by simp
next
  case (Cons d ds)
  show ?case
  proof (cases "es_kept st < elide_keep opts \<or> es_bytes st + length d \<le> elide_budget opts")
    case True
    define st1 where "st1 = st\<lparr>es_kept := Suc (es_kept st), es_keptHistorical := Suc (es_keptHistorical st), es_bytes := es_bytes st + length d\<rparr>"
    have one: "elide_image opts False d st = (False, st1)"
      using True Cons.prems(1) assms(1) by (simp add: elide_image_def Let_def st1_def elide_budget_def elide_keep_def)
    have "\<not> es_cutoff st1" "es_bytes st1 \<le> elide_budget opts \<or> es_kept st1 \<le> elide_keep opts"
      using True Cons.prems(1) by (auto simp: st1_def)
    from Cons.IH [OF this] obtain k st' where k: "elide_run opts ds st1 = (replicate k False @ replicate (length ds - k) True, st')"
      "k \<le> length ds" "es_bytes st1 + sum_list (map length (take k ds)) \<le> elide_budget opts \<or> es_kept st1 + k \<le> elide_keep opts"
      "k < length ds \<longrightarrow> es_kept st1 + k \<ge> elide_keep opts \<and> es_bytes st1 + sum_list (map length (take (Suc k) ds)) > elide_budget opts"
      by blast
    then show ?thesis using one
      by (intro exI [of _ "Suc k"] exI [of _ st']) (auto simp: st1_def)
  next
    case False
    define st1 where "st1 = st\<lparr>es_cutoff := True\<rparr>"
    have "elide_image opts False d st = (True, st1)"
      using False Cons.prems(1) assms(1) by (simp add: elide_image_def Let_def st1_def elide_budget_def elide_keep_def)
    moreover have "elide_run opts ds st1 = (replicate (length ds) True, st1)"
      by (rule elide_run_cutoff [OF assms(1)]) (simp add: st1_def)
    ultimately show ?thesis using False Cons.prems(2)
      by (intro exI [of _ 0] exI [of _ st1]) auto
  qed
qed

lemma not_gone_prefix: "k \<le> length ds \<Longrightarrow> not_gone ds (replicate k False @ replicate (length ds - k) True) = take k ds"
proof (induction ds arbitrary: k)
  case (Cons d ds)
  then show ?case
  proof (cases k)
    case 0
    have "map fst (filter (\<lambda>p. \<not> snd p) (zip xs (replicate n True))) = []" for xs :: "jstr list" and n
      by (induction xs arbitrary: n) (auto simp: zip_replicate2)
    with 0 show ?thesis by (simp add: not_gone_def del: replicate_Suc)
  next
    case (Suc j)
    with Cons show ?thesis by (simp add: not_gone_def)
  qed
qed (simp add: not_gone_def)

text \<open>C20: without a limit for finished turns, the images that are sent are the newest ones and as many as possible: they
  fit the budget unless no more than the protected number are left, and the next older one would not have fitted.\<close>

theorem newest_images_kept:
  fixes opts messages
  assumes "eo_maxHistorical opts = None"
  defines "sent \<equiv> images_of (elideOldImages opts messages)"
  shows "\<exists>n. sent = drop n (images_of messages) \<and>
    (sum_list (map length sent) \<le> elide_budget opts \<or> length sent \<le> elide_keep opts) \<and>
    (sent \<noteq> images_of messages \<longrightarrow> n > 0 \<and> length sent \<ge> elide_keep opts \<and>
       length (images_of messages ! (n - 1)) + sum_list (map length sent) > elide_budget opts)"
proof -
  let ?st = "\<lparr>es_kept = 0, es_keptHistorical = 0, es_bytes = 0, es_cutoff = False\<rparr>" and ?ds = "rev (images_of messages)"
  from elide_run_prefix [OF assms(1), of ?st ?ds] obtain k st' where
    k: "elide_run opts ?ds ?st = (replicate k False @ replicate (length ?ds - k) True, st')" "k \<le> length ?ds"
      "sum_list (map length (take k ?ds)) \<le> elide_budget opts \<or> k \<le> elide_keep opts"
      "k < length ?ds \<longrightarrow> k \<ge> elide_keep opts \<and> sum_list (map length (take (Suc k) ?ds)) > elide_budget opts"
    by auto
  from elide_messages_run [OF assms(1), of "rev messages" ?st _ st' True] k(1)
  have "rev sent = take k ?ds" using not_gone_prefix [OF k(2)] by (simp add: sent_def elideOldImages_def)
  then have sent: "sent = drop (length (images_of messages) - k) (images_of messages)"
    unfolding take_rev by (simp only: rev_is_rev_conv)
  have sums: "sum_list (map length (take j (rev xs))) = sum_list (map length (drop (length xs - j) xs))" for j and xs :: "jstr list"
    unfolding take_rev rev_map [symmetric] by (rule sum_list_rev)
  have next_one: "sum_list (map length (take (Suc k) ?ds)) = length (images_of messages ! (length (images_of messages) - k - 1)) + sum_list (map length sent)"
    if "k < length ?ds"
  proof -
    have "drop (length (images_of messages) - Suc k) (images_of messages) =
        images_of messages ! (length (images_of messages) - Suc k) # drop (length (images_of messages) - k) (images_of messages)"
      using that by (subst Cons_nth_drop_Suc [symmetric]) (simp_all add: Suc_diff_Suc)
    then show ?thesis using that by (simp add: sums sent)
  qed
  have "k < length ?ds" if "sent \<noteq> images_of messages"
    using that k(2) sent by (cases "k = length ?ds") auto
  then show ?thesis
    using k(2-4) next_one sums [of k "images_of messages"] sent
    by (intro exI [of _ "length (images_of messages) - k"]) auto
qed

definition sample_images :: "session_message list" where
  "sample_images = [UserMessage (Blocks [ImageBlock (js ''aa''), ImageBlock (js ''bb''), TextBlock (js ''t'')]) (Millis 0)]"

theorem newest_images_kept_witness:
  "length (images_of (elideOldImages \<lparr>eo_budget = Some 3, eo_keepNewest = None, eo_maxHistorical = None\<rparr> sample_images)) = 1"
proof -
  let ?opts = "\<lparr>eo_budget = Some 3, eo_keepNewest = None, eo_maxHistorical = None\<rparr>"
  have images: "images_of sample_images = [js ''aa'', js ''bb'']" by (simp add: sample_images_def message_images_def)
  from newest_images_kept [of ?opts sample_images] images obtain n where
    "images_of (elideOldImages ?opts sample_images) = drop n [js ''aa'', js ''bb'']"
    "sum_list (map length (drop n [js ''aa'', js ''bb''])) \<le> 3 \<or> length (drop n [js ''aa'', js ''bb'']) \<le> 1"
    "drop n [js ''aa'', js ''bb''] \<noteq> [js ''aa'', js ''bb''] \<longrightarrow> length (drop n [js ''aa'', js ''bb'']) \<ge> 1"
    by (auto simp: elide_budget_def elide_keep_def)
  then show ?thesis by (cases n rule: nat.exhaust [case_product nat.exhaust]) (auto simp: js_def numeral_eq_Suc drop_Cons' split: if_splits)
qed

end
