(* ===== verification/Compaction.thy ===== *)
theory Compaction
  imports SessionContext Messages PermPaths "HOL-Library.List_Lexorder"
begin

text \<open>
  Compaction (\<open>compaction/compaction.ts\<close>, \<open>compaction/utils.ts\<close>): how large the context is estimated to be, where
  it is cut, and what of it is summarised and what kept. \<open>show_json\<close> is \<open>JSON.stringify\<close>; the summaries
  themselves are a model's and are arguments.
\<close>

section \<open>File operations\<close>

record FileOperations =
  fo_read :: "jstr set"
  fo_written :: "jstr set"
  fo_edited :: "jstr set"

definition createFileOps :: FileOperations where
  "createFileOps = \<lparr>fo_read = {}, fo_written = {}, fo_edited = {}\<rparr>"

definition blocks_of :: "message_content \<Rightarrow> content_block list" where
  "blocks_of c = (case c of Blocks bs \<Rightarrow> bs | _ \<Rightarrow> [])"

definition tool_call_ops :: "content_block \<Rightarrow> FileOperations \<Rightarrow> FileOperations" where
  "tool_call_ops b ops =
     (case b of
        ToolCallBlock i name args \<Rightarrow>
          (case props_of args of None \<Rightarrow> ops
           | Some obj \<Rightarrow>
               if name = js ''read'' then (case get obj (js ''path'') of JStr p \<Rightarrow> ops\<lparr>fo_read := insert p (fo_read ops)\<rparr> | _ \<Rightarrow> ops)
               else if name = js ''write'' then (case get obj (js ''path'') of JStr p \<Rightarrow> ops\<lparr>fo_written := insert p (fo_written ops)\<rparr> | _ \<Rightarrow> ops)
               else if name = js ''edit'' then (case get obj (js ''path'') of JStr p \<Rightarrow> ops\<lparr>fo_edited := insert p (fo_edited ops)\<rparr> | _ \<Rightarrow> ops)
               else if name = js ''apply_patch'' then
                 (case get obj (js ''input'') of JStr t \<Rightarrow> ops\<lparr>fo_edited := set (extractPatchedPaths t) \<union> fo_edited ops\<rparr> | _ \<Rightarrow> ops)
               else ops)
      | _ \<Rightarrow> ops)"

definition extractFileOpsFromMessage :: "session_message \<Rightarrow> FileOperations \<Rightarrow> FileOperations" where
  "extractFileOpsFromMessage m ops = (case m of Assistant a \<Rightarrow> fold tool_call_ops (blocks_of (am_content a)) ops | _ \<Rightarrow> ops)"

text \<open>\<open>sort()\<close> orders strings by their code units; a set has every path once.\<close>

definition computeFileLists :: "FileOperations \<Rightarrow> jstr list \<times> jstr list" where
  "computeFileLists ops =
     (let modified = fo_edited ops \<union> fo_written ops
      in (sorted_list_of_set (fo_read ops - modified), sorted_list_of_set modified))"

definition formatFileOperations :: "jstr list \<Rightarrow> jstr list \<Rightarrow> jstr" where
  "formatFileOperations readFiles modifiedFiles =
     (let sections =
        (if readFiles \<noteq> [] then [js ''<read-files>'' @ [LF] @ join [LF] readFiles @ [LF] @ js ''</read-files>''] else []) @
        (if modifiedFiles \<noteq> [] then [js ''<modified-files>'' @ [LF] @ join [LF] modifiedFiles @ [LF] @ js ''</modified-files>''] else [])
      in if sections = [] then [] else [LF, LF] @ join [LF, LF] sections)"

definition strings_in :: "json \<Rightarrow> jstr set" where
  "strings_in v = (case v of JArr xs \<Rightarrow> set (List.map_filter as_string xs) | _ \<Rightarrow> {})"

text \<open>The files an earlier summary names in its details, if this program wrote it. Such details name files by
  strings; of an array with anything else in it, which only a file edited by hand holds, the source would keep
  the other values too.\<close>

definition details_ops :: "bool \<Rightarrow> json \<Rightarrow> FileOperations \<Rightarrow> FileOperations" where
  "details_ops fromHook details ops =
     (case props_of details of None \<Rightarrow> ops
      | Some obj \<Rightarrow>
          if fromHook then ops
          else ops\<lparr>fo_read := fo_read ops \<union> strings_in (get obj (js ''readFiles'')),
                   fo_edited := fo_edited ops \<union> strings_in (get obj (js ''modifiedFiles''))\<rparr>)"

section \<open>Sizes\<close>

definition base64_char :: "nat \<Rightarrow> bool" where
  "base64_char c \<longleftrightarrow> 65 \<le> c \<and> c \<le> 90 \<or> 97 \<le> c \<and> c \<le> 122 \<or> 48 \<le> c \<and> c \<le> 57 \<or> c \<in> {43, 47, 61, 95, 45}"

text \<open>The lengths of the matches of \<open>/[A-Za-z0-9+/=_-]{512,}/g\<close>, the maximal runs of such characters.\<close>

fun long_runs :: "nat \<Rightarrow> jstr \<Rightarrow> nat list" where
  "long_runs n [] = (if n \<ge> 512 then [n] else [])"
| "long_runs n (c # s) =
     (if base64_char c then long_runs (Suc n) s else (if n \<ge> 512 then [n] else []) @ long_runs 0 s)"

definition BASE64_CHAR_WEIGHT :: nat where
  "BASE64_CHAR_WEIGHT = 4"

definition weightedChars :: "jstr \<Rightarrow> nat" where
  "weightedChars s = length s + sum_list (map (\<lambda>n. n * (BASE64_CHAR_WEIGHT - 1)) (long_runs 0 s))"

definition ESTIMATED_IMAGE_CHARS :: nat where
  "ESTIMATED_IMAGE_CHARS = 4800"

text \<open>Of \<open>NoContent\<close> nothing is asked: messages of a context have their content.\<close>

definition estimateTextAndImageContentChars :: "message_content \<Rightarrow> nat" where
  "estimateTextAndImageContentChars content =
     (case content of
        PlainText s \<Rightarrow> weightedChars s
      | Blocks bs \<Rightarrow> sum_list (map (\<lambda>b. case b of TextBlock s \<Rightarrow> weightedChars s | ImageBlock _ \<Rightarrow> ESTIMATED_IMAGE_CHARS | _ \<Rightarrow> 0) bs)
      | NoContent \<Rightarrow> 0)"

definition estimateTokens :: "(json \<Rightarrow> jstr) \<Rightarrow> session_message \<Rightarrow> nat" where
  "estimateTokens show_json m =
     (let chars =
        (case m of
           UserMessage c t \<Rightarrow> estimateTextAndImageContentChars c
         | Assistant a \<Rightarrow>
             sum_list (map (\<lambda>b. case b of TextBlock s \<Rightarrow> length s | ThinkingBlock s \<Rightarrow> length s
               | ToolCallBlock i name args \<Rightarrow> length name + weightedChars (show_json args) | _ \<Rightarrow> 0) (blocks_of (am_content a)))
         | Custom c \<Rightarrow> estimateTextAndImageContentChars (cm_content c)
         | ToolResult r \<Rightarrow> estimateTextAndImageContentChars (tr_content r)
         | BashExecution b \<Rightarrow> length (be_command b) + weightedChars (be_output b)
         | BranchSummary s i t \<Rightarrow> length s
         | CompactionSummary s n det t \<Rightarrow> length s
         | HookMessage c \<Rightarrow> 0)
      in (chars + 3) div 4)"

definition calculateContextTokens :: "Usage \<Rightarrow> int" where
  "calculateContextTokens u =
     (if us_totalTokens u \<noteq> 0 then us_totalTokens u else us_input u + us_output u + us_cacheRead u + us_cacheWrite u)"

definition getAssistantUsage :: "session_message \<Rightarrow> Usage option" where
  "getAssistantUsage m =
     (case m of
        Assistant a \<Rightarrow>
          (case am_usage a of
             Some u \<Rightarrow> if am_stopReason a \<noteq> js ''aborted'' \<and> am_stopReason a \<noteq> js ''error'' \<and> calculateContextTokens u > 0
               then Some u else None
           | None \<Rightarrow> None)
      | _ \<Rightarrow> None)"

definition getLastAssistantUsage :: "session_entry list \<Rightarrow> Usage option" where
  "getLastAssistantUsage entries =
     (case List.map_filter (\<lambda>e. case en_kind e of MessageEntry m \<Rightarrow> getAssistantUsage m | _ \<Rightarrow> None) (rev entries) of
        [] \<Rightarrow> None | u # _ \<Rightarrow> Some u)"

record ContextUsageEstimate =
  ce_tokens :: int
  ce_usageTokens :: int
  ce_trailingTokens :: nat
  ce_lastUsageIndex :: "nat option"

definition estimateContextTokens :: "(json \<Rightarrow> jstr) \<Rightarrow> session_message list \<Rightarrow> ContextUsageEstimate" where
  "estimateContextTokens show_json messages =
     (case find (\<lambda>i. getAssistantUsage (messages ! i) \<noteq> None) (rev [0..<length messages]) of
        None \<Rightarrow>
          (let n = sum_list (map (estimateTokens show_json) messages)
           in \<lparr>ce_tokens = int n, ce_usageTokens = 0, ce_trailingTokens = n, ce_lastUsageIndex = None\<rparr>)
      | Some i \<Rightarrow>
          (let used = calculateContextTokens (the (getAssistantUsage (messages ! i)));
               n = sum_list (map (estimateTokens show_json) (drop (Suc i) messages))
           in \<lparr>ce_tokens = used + int n, ce_usageTokens = used, ce_trailingTokens = n, ce_lastUsageIndex = Some i\<rparr>))"

record CompactionSettings =
  cmp_enabled :: bool
  cmp_reserveTokens :: nat
  cmp_keepRecentTokens :: nat

definition shouldCompact :: "int \<Rightarrow> int \<Rightarrow> CompactionSettings \<Rightarrow> bool" where
  "shouldCompact contextTokens contextWindow settings \<longleftrightarrow>
     cmp_enabled settings \<and> contextTokens > contextWindow - int (cmp_reserveTokens settings)"

section \<open>The cut\<close>

definition contextMessagesForCompactionEntry :: "session_entry \<Rightarrow> session_message list" where
  "contextMessagesForCompactionEntry e =
     (if compaction_of e \<noteq> None then []
      else filter (\<lambda>m. case m of Custom c \<Rightarrow> \<not> isContextExcludedCustomMessage (cm_type c) | _ \<Rightarrow> True) (sessionEntryToContextMessages e))"

definition getMessageFromEntryForCompaction :: "session_entry \<Rightarrow> session_message option" where
  "getMessageFromEntryForCompaction e = (case contextMessagesForCompactionEntry e of [] \<Rightarrow> None | m # _ \<Rightarrow> Some m)"

fun isCutPointMessage :: "session_message \<Rightarrow> bool" where
  "isCutPointMessage (ToolResult r) \<longleftrightarrow> False"
| "isCutPointMessage (HookMessage c) \<longleftrightarrow> False"
| "isCutPointMessage _ \<longleftrightarrow> True"

fun isTurnStartMessage :: "session_message \<Rightarrow> bool" where
  "isTurnStartMessage (Assistant a) \<longleftrightarrow> False"
| "isTurnStartMessage (ToolResult r) \<longleftrightarrow> False"
| "isTurnStartMessage (HookMessage c) \<longleftrightarrow> False"
| "isTurnStartMessage _ \<longleftrightarrow> True"

definition isTurnStartEntry :: "session_entry \<Rightarrow> bool" where
  "isTurnStartEntry e \<longleftrightarrow> compaction_of e = None \<and> list_ex isTurnStartMessage (contextMessagesForCompactionEntry e)"

definition findValidCutPoints :: "session_entry list \<Rightarrow> nat \<Rightarrow> nat \<Rightarrow> nat list" where
  "findValidCutPoints entries startIndex endIndex =
     filter (\<lambda>i. compaction_of (entries ! i) = None \<and> list_ex isCutPointMessage (contextMessagesForCompactionEntry (entries ! i)))
       [startIndex..<endIndex]"

definition findTurnStartIndex :: "session_entry list \<Rightarrow> nat \<Rightarrow> nat \<Rightarrow> nat option" where
  "findTurnStartIndex entries entryIndex startIndex = find (\<lambda>i. isTurnStartEntry (entries ! i)) (rev [startIndex..<Suc entryIndex])"

record CutPointResult =
  cp_first :: nat
  cp_turnStart :: "nat option"
  cp_split :: bool

definition entry_tokens :: "(json \<Rightarrow> jstr) \<Rightarrow> session_entry \<Rightarrow> nat" where
  "entry_tokens show_json e = sum_list (map (estimateTokens show_json) (contextMessagesForCompactionEntry e))"

text \<open>The walk from the newest entry: the one at which the budget is reached.\<close>

fun budget_reached :: "(nat \<Rightarrow> nat) \<Rightarrow> nat \<Rightarrow> nat \<Rightarrow> nat list \<Rightarrow> nat option" where
  "budget_reached tokens keep accumulated [] = None"
| "budget_reached tokens keep accumulated (i # is) =
     (if tokens i = 0 then budget_reached tokens keep accumulated is
      else if accumulated + tokens i \<ge> keep then Some i
      else budget_reached tokens keep (accumulated + tokens i) is)"

definition stops_cut :: "session_entry \<Rightarrow> bool" where
  "stops_cut e \<longleftrightarrow> compaction_of e \<noteq> None \<or> contextMessagesForCompactionEntry e \<noteq> [] \<or>
     (case en_kind e of CustomMessageEntry ty c d det \<Rightarrow> isContextExcludedCustomMessage ty | _ \<Rightarrow> False)"

fun include_metadata :: "session_entry list \<Rightarrow> nat \<Rightarrow> nat \<Rightarrow> nat" where
  "include_metadata entries startIndex 0 = 0"
| "include_metadata entries startIndex (Suc n) =
     (if Suc n \<le> startIndex \<or> stops_cut (entries ! n) then Suc n else include_metadata entries startIndex n)"

definition findCutPoint :: "(json \<Rightarrow> jstr) \<Rightarrow> session_entry list \<Rightarrow> nat \<Rightarrow> nat \<Rightarrow> nat \<Rightarrow> CutPointResult" where
  "findCutPoint show_json entries startIndex endIndex keepRecentTokens =
     (let cutPoints = findValidCutPoints entries startIndex endIndex
      in if cutPoints = [] then \<lparr>cp_first = startIndex, cp_turnStart = None, cp_split = False\<rparr>
         else
           (let cut = (case budget_reached (\<lambda>i. entry_tokens show_json (entries ! i)) keepRecentTokens 0 (rev [startIndex..<endIndex]) of
                    None \<Rightarrow> hd cutPoints
                  | Some i \<Rightarrow> (case find (\<lambda>c. c \<ge> i) cutPoints of Some c \<Rightarrow> c | None \<Rightarrow> last cutPoints));
                cut = include_metadata entries startIndex cut;
                startsTurn = isTurnStartEntry (entries ! cut);
                turnStart = (if startsTurn then None else findTurnStartIndex entries cut startIndex)
            in \<lparr>cp_first = cut, cp_turnStart = turnStart, cp_split = (\<not> startsTurn \<and> turnStart \<noteq> None)\<rparr>))"

section \<open>Preparation\<close>

record CompactionPreparation =
  pr_firstKept :: jstr
  pr_messages :: "session_message list"
  pr_prefix :: "session_message list"
  pr_split :: bool
  pr_tokensBefore :: int
  pr_previousSummary :: "jstr option"
  pr_fileOps :: FileOperations

definition previous_index :: "session_entry list \<Rightarrow> nat option" where
  "previous_index entries = find (\<lambda>i. compaction_of (entries ! i) \<noteq> None) (rev [0..<length entries])"

definition boundary_start :: "session_entry list \<Rightarrow> nat" where
  "boundary_start entries =
     (case previous_index entries of None \<Rightarrow> 0
      | Some p \<Rightarrow> (case position_of (co_firstKept (the (compaction_of (entries ! p)))) entries of Some i \<Rightarrow> i | None \<Rightarrow> Suc p))"

definition messages_between :: "session_entry list \<Rightarrow> nat \<Rightarrow> nat \<Rightarrow> session_message list" where
  "messages_between entries a b = List.map_filter (\<lambda>i. getMessageFromEntryForCompaction (entries ! i)) [a..<b]"

definition chosen_cut :: "(json \<Rightarrow> jstr) \<Rightarrow> session_entry list \<Rightarrow> nat \<Rightarrow> bool \<Rightarrow> CutPointResult" where
  "chosen_cut show_json entries keep forceProgress =
     (let start = boundary_start entries;
          cut = findCutPoint show_json entries start (length entries) keep
      in if forceProgress \<and> cp_first cut = start then
           (case findValidCutPoints entries (Suc start) (length entries) of [] \<Rightarrow> cut
            | next_cut # _ \<Rightarrow>
                (let turnStart = findTurnStartIndex entries next_cut start
                 in \<lparr>cp_first = next_cut, cp_turnStart = turnStart, cp_split = (turnStart \<noteq> None)\<rparr>))
         else cut)"

definition extractFileOperations :: "session_message list \<Rightarrow> session_entry list \<Rightarrow> FileOperations" where
  "extractFileOperations messages entries =
     fold extractFileOpsFromMessage messages
       (case previous_index entries of None \<Rightarrow> createFileOps
        | Some p \<Rightarrow> (let c = the (compaction_of (entries ! p)) in details_ops (co_fromHook c) (co_details c) createFileOps))"

text \<open>The outer \<open>None\<close> is a context that is not returned (a path without end), the inner one \<open>undefined\<close>.\<close>

definition prepareCompaction ::
  "(json \<Rightarrow> jstr) \<Rightarrow> session_entry list \<Rightarrow> nat \<Rightarrow> bool \<Rightarrow> bool \<Rightarrow> CompactionPreparation option option" where
  "prepareCompaction show_json path keep forceProgress allowSummaryOnly =
     (if path \<noteq> [] \<and> compaction_of (last path) \<noteq> None then Some None
      else
        (case buildSessionContext path None None of None \<Rightarrow> None
         | Some context \<Rightarrow>
             (let previousSummary = map_option (\<lambda>p. co_summary (the (compaction_of (path ! p)))) (previous_index path);
                  start = boundary_start path;
                  cut = chosen_cut show_json path keep forceProgress
              in if length path \<le> cp_first cut \<or> en_id (path ! cp_first cut) = [] then Some None
                 else
                   (let historyEnd = (if cp_split cut then the (cp_turnStart cut) else cp_first cut);
                        messages = messages_between path start historyEnd;
                        prefix_messages = (if cp_split cut then messages_between path (the (cp_turnStart cut)) (cp_first cut) else [])
                    in if messages = [] \<and> prefix_messages = [] \<and> (\<not> text_given previousSummary \<or> \<not> allowSummaryOnly) then Some None
                       else Some (Some \<lparr>pr_firstKept = en_id (path ! cp_first cut), pr_messages = messages, pr_prefix = prefix_messages,
                         pr_split = cp_split cut,
                         pr_tokensBefore = ce_tokens (estimateContextTokens show_json (filterContextExcludedMessages (sc_messages context))),
                         pr_previousSummary = previousSummary,
                         pr_fileOps = (let ops = extractFileOperations messages path
                           in if cp_split cut then fold extractFileOpsFromMessage prefix_messages ops else ops)\<rparr>)))))"

text \<open>\<open>compact\<close> with the summaries that a model writes: \<open>summarize\<close> of messages and an earlier summary, \<open>summarize_prefix\<close>
  of the start of a turn.\<close>

definition compacted_summary ::
  "(session_message list \<Rightarrow> jstr option \<Rightarrow> jstr) \<Rightarrow> (session_message list \<Rightarrow> jstr) \<Rightarrow> CompactionPreparation \<Rightarrow> jstr" where
  "compacted_summary summarize summarize_prefix p =
     (let summary =
        (if pr_split p \<and> pr_prefix p \<noteq> [] then
           (if pr_messages p \<noteq> [] then summarize (pr_messages p) (pr_previousSummary p) else js ''No prior history.'') @
           [LF, LF] @ js ''---'' @ [LF, LF] @ js ''**Turn Context (split turn):**'' @ [LF, LF] @ summarize_prefix (pr_prefix p)
         else summarize (pr_messages p) (pr_previousSummary p));
          (readFiles, modifiedFiles) = computeFileLists (pr_fileOps p)
      in summary @ formatFileOperations readFiles modifiedFiles)"

end
