(* ===== verification/CompactionProps.thy ===== *)
theory CompactionProps
  imports Compaction
begin

text \<open>
  What compaction does to the context: whatever the model saw is either given to the summary or still seen
  afterwards, in order; what is kept begins with no tool result; and what is kept stays within the budget but for
  the message at the cut. And a case in which an earlier summary is dropped.
\<close>

section \<open>Visible messages\<close>

abbreviation visible :: "session_entry list \<Rightarrow> session_message list" where
  "visible es \<equiv> concat (map contextMessagesForCompactionEntry es)"

lemma entry_messages: "contextMessagesForCompactionEntry e = (if compaction_of e = None then sessionEntryToContextMessages e else [])"
proof -
  have "filter (\<lambda>m. case m of Custom c \<Rightarrow> \<not> isContextExcludedCustomMessage (cm_type c) | _ \<Rightarrow> True) ms = ms" for ms
    by (induction ms) (auto simp: isContextExcludedCustomMessage_def split: session_message.splits)
  then show ?thesis by (simp add: contextMessagesForCompactionEntry_def)
qed

lemma at_most_one: "length (sessionEntryToContextMessages e) \<le> 1"
  by (simp add: sessionEntryToContextMessages_def split: entry_kind.splits)

lemma entry_message: "contextMessagesForCompactionEntry e = (case getMessageFromEntryForCompaction e of None \<Rightarrow> [] | Some m \<Rightarrow> [m])"
  using at_most_one [of e] by (auto simp: entry_messages getMessageFromEntryForCompaction_def split: list.splits)

lemma messages_between_visible:
  "a \<le> b \<Longrightarrow> b \<le> length entries \<Longrightarrow> messages_between entries a b = visible (take (b - a) (drop a entries))"
proof -
  assume "a \<le> b" "b \<le> length entries"
  then have "take (b - a) (drop a entries) = map (\<lambda>i. entries ! i) [a..<b]"
    by (intro nth_equalityI) simp_all
  moreover have "List.map_filter (\<lambda>i. getMessageFromEntryForCompaction (entries ! i)) is = visible (map (\<lambda>i. entries ! i) is)" for "is"
    by (induction "is") (auto simp: List.map_filter_def entry_message split: option.splits)
  ultimately show ?thesis by (simp add: messages_between_def)
qed

lemma visible_cut: "a \<le> b \<Longrightarrow> visible (drop a entries) = visible (take (b - a) (drop a entries)) @ visible (drop b entries)"
  using append_take_drop_id [of "b - a" "drop a entries"] by (metis add.commute concat_append drop_drop le_add_diff_inverse2 map_append)

abbreviation uncompacted :: "session_entry list \<Rightarrow> session_entry list" where
  "uncompacted es \<equiv> filter (\<lambda>e. compaction_of e = None) es"

lemma context_plain_visible [simp]: "context_messages (uncompacted es) = visible es"
  by (induction es) (simp_all add: entry_messages)

lemma visible_plain_id: "\<forall>e\<in>set es. compaction_of e = None \<Longrightarrow> visible es = context_messages es"
  by (induction es) (simp_all add: entry_messages)

lemma in_set_dropI: "p \<le> n \<Longrightarrow> n < length xs \<Longrightarrow> xs ! n \<in> set (drop p xs)"
  using in_set_conv_nth [of "xs ! n" "drop p xs"] by (auto intro: exI [of _ "n - p"])

lemma kept_found: "kept_before i True es = uncompacted es"
  by (induction es) auto

lemma kept_from:
  "en_id x \<notin> ids_of a \<Longrightarrow> compaction_of x = None \<Longrightarrow> kept_before (en_id x) False (a @ x # b) = uncompacted (x # b)"
  by (induction a) (auto simp: kept_found)

lemma position_Some: "position_of i es = Some n \<Longrightarrow> n < length es \<and> en_id (es ! n) = i \<and> i \<notin> ids_of (take n es)"
  by (induction es arbitrary: n) (auto split: if_splits)

lemma position_None: "position_of i es = None \<longleftrightarrow> i \<notin> ids_of es"
  by (induction es) auto

text \<open>Every compaction of a path keeps from an entry before it that is none, or from none at all.\<close>

definition refers_back :: "session_entry list \<Rightarrow> bool" where
  "refers_back path \<longleftrightarrow> (\<forall>a e c b. path = a @ e # b \<and> compaction_of e = Some c \<longrightarrow>
     co_firstKept c \<notin> ids_of (e # b) \<and> (\<forall>x\<in>set a. en_id x = co_firstKept c \<longrightarrow> compaction_of x = None))"

definition summary_messages :: "session_entry list \<Rightarrow> session_message list" where
  "summary_messages path = (case latest_compaction path of None \<Rightarrow> [] | Some (e, c) \<Rightarrow> sessionEntryToContextMessages e)"

lemma find_last:
  assumes "find P (rev [0..<n]) = r"
  shows "case r of None \<Rightarrow> \<forall>i<n. \<not> P i | Some i \<Rightarrow> i < n \<and> P i \<and> (\<forall>j. i < j \<and> j < n \<longrightarrow> \<not> P j)"
  using assms
proof (induction n arbitrary: r)
  case (Suc n)
  show ?case
  proof (cases "P n")
    case True
    then show ?thesis using Suc.prems by auto
  next
    case False
    then have "find P (rev [0..<n]) = r" using Suc.prems by simp
    from Suc.IH [OF this] False show ?thesis by (auto split: option.splits simp: less_Suc_eq)
  qed
qed simp

lemma previous_latest:
  "previous_index path = None \<Longrightarrow> latest_compaction path = None"
  "previous_index path = Some p \<Longrightarrow> p < length path \<and> (\<exists>c. compaction_of (path ! p) = Some c \<and> (\<forall>x\<in>set (drop (Suc p) path). compaction_of x = None) \<and>
     latest_compaction path = Some (path ! p, c))"
proof -
  assume "previous_index path = None"
  from find_last [OF this [unfolded previous_index_def]] show "latest_compaction path = None"
    by (auto simp: latest_None_iff in_set_conv_nth)
next
  assume p: "previous_index path = Some p"
  from find_last [OF p [unfolded previous_index_def]] have
    last: "p < length path" "compaction_of (path ! p) \<noteq> None" "\<And>j. p < j \<Longrightarrow> j < length path \<Longrightarrow> compaction_of (path ! j) = None"
    by auto
  then obtain c where c: "compaction_of (path ! p) = Some c" by auto
  have rest: "\<forall>x\<in>set (drop (Suc p) path). compaction_of x = None" using last(3) by (auto simp: in_set_conv_nth)
  from latest_of_split [OF c rest, of "take p path"] id_take_nth_drop [OF last(1)]
  have "latest_compaction path = Some (path ! p, c)" by simp
  with last(1) c rest show "p < length path \<and> (\<exists>c. compaction_of (path ! p) = Some c \<and> (\<forall>x\<in>set (drop (Suc p) path). compaction_of x = None) \<and>
     latest_compaction path = Some (path ! p, c))" by blast
qed

text \<open>The context is the latest summary and what is visible from where the compaction begins to look.\<close>

lemma context_visible:
  assumes "distinct (map en_id path)" and "refers_back path"
  shows "context_messages (context_of_path path) = summary_messages path @ visible (drop (boundary_start path) path)"
    and "boundary_start path < length path \<Longrightarrow> compaction_of (path ! boundary_start path) = None"
    and "boundary_start path \<le> length path"
proof -
  have "context_messages (context_of_path path) = summary_messages path @ visible (drop (boundary_start path) path) \<and>
    (boundary_start path < length path \<longrightarrow> compaction_of (path ! boundary_start path) = None) \<and> boundary_start path \<le> length path"
  proof (cases "previous_index path")
    case None
    then have none: "latest_compaction path = None" "boundary_start path = 0"
      using previous_latest(1) by (simp_all add: boundary_start_def)
    then have all: "\<forall>e\<in>set path. compaction_of e = None" by (simp add: latest_None_iff)
    then show ?thesis using none context_plain [OF all] visible_plain_id [OF all] by (simp add: summary_messages_def)
  next
    case (Some p)
    from previous_latest(2) [OF this] obtain c where p: "p < length path" "compaction_of (path ! p) = Some c"
      "\<forall>x\<in>set (drop (Suc p) path). compaction_of x = None" "latest_compaction path = Some (path ! p, c)" by blast
    let ?a = "take p path" and ?b = "drop (Suc p) path"
    have path: "path = ?a @ path ! p # ?b" by (rule id_take_nth_drop [OF p(1)])
    have refs: "co_firstKept c \<notin> ids_of (path ! p # ?b)" "\<forall>x\<in>set ?a. en_id x = co_firstKept c \<longrightarrow> compaction_of x = None"
      using assms(2) path p(2) unfolding refers_back_def by blast+
    have ctx: "context_of_path path = path ! p # kept_before (co_firstKept c) False ?a @ ?b"
      using context_split [of ?a "path ! p" ?b c] assms(1) path p(2,3) by simp
    have rest: "visible ?b = context_messages ?b" by (rule visible_plain_id [OF p(3)])
    show ?thesis
    proof (cases "position_of (co_firstKept c) path")
      case missing: None
      then have "boundary_start path = Suc p" using Some p(2) by (simp add: boundary_start_def)
      moreover have "kept_before (co_firstKept c) False ?a = []"
        using missing set_take_subset [of p path] by (intro kept_none) (force simp: position_None)
      ultimately show ?thesis using ctx rest p by (auto simp: summary_messages_def Cons_nth_drop_Suc [symmetric])
    next
      case found: (Some n)
      then have begins: "boundary_start path = n" using Some p(2) by (simp add: boundary_start_def)
      note n = position_Some [OF found]
      have "n < p"
      proof (rule ccontr)
        assume "\<not> n < p"
        then have "path ! n \<in> set (path ! p # ?b)"
          using n in_set_dropI [of p n path] Cons_nth_drop_Suc [OF p(1)] by simp
        then have "en_id (path ! n) \<in> ids_of (path ! p # ?b)" by (rule imageI)
        then show False using refs(1) n by simp
      qed
      then have a: "?a = take n path @ path ! n # drop (Suc n) ?a"
        using n p(1) id_take_nth_drop [of n ?a] by (simp add: min_def)
      have plain_n: "compaction_of (path ! n) = None"
        using refs(2) n \<open>n < p\<close> p(1) by (metis in_set_conv_nth length_take min_less_iff_conj nth_take)
      have "kept_before (co_firstKept c) False ?a = uncompacted (path ! n # drop (Suc n) ?a)"
        using kept_from [of "path ! n" "take n path" "drop (Suc n) ?a"] n plain_n a by metis
      also have "path ! n # drop (Suc n) ?a = drop n ?a"
        using \<open>n < p\<close> p(1) Cons_nth_drop_Suc [of n ?a] by simp
      finally have kept: "kept_before (co_firstKept c) False ?a = uncompacted (drop n ?a)" .
      have "drop n path = drop n ?a @ path ! p # ?b"
        using path \<open>n < p\<close> p(1) by (metis drop_append length_take less_imp_le_nat min.absorb2 diff_is_0_eq drop0)
      then show ?thesis using ctx kept rest begins plain_n p n by (simp add: summary_messages_def entry_messages)
    qed
  qed
  then show "context_messages (context_of_path path) = summary_messages path @ visible (drop (boundary_start path) path)"
    "boundary_start path < length path \<Longrightarrow> compaction_of (path ! boundary_start path) = None"
    "boundary_start path \<le> length path" by auto
qed

section \<open>The cut\<close>

lemma include_metadata_range:
  assumes "lower \<le> pos"
  shows "lower \<le> include_metadata entries lower pos \<and> include_metadata entries lower pos \<le> pos \<and>
    (\<forall>i. include_metadata entries lower pos \<le> i \<and> i < pos \<longrightarrow> \<not> stops_cut (entries ! i))"
  using assms
proof (induction pos)
  case (Suc n)
  show ?case
  proof (cases "Suc n \<le> lower \<or> stops_cut (entries ! n)")
    case False
    then have "lower \<le> n" by simp
    from Suc.IH [OF this] False show ?thesis by (auto simp: less_Suc_eq)
  qed (use Suc in auto)
qed simp

lemma cut_points:
  "c \<in> set (findValidCutPoints entries lower stop) \<longleftrightarrow>
   lower \<le> c \<and> c < stop \<and> compaction_of (entries ! c) = None \<and> list_ex isCutPointMessage (contextMessagesForCompactionEntry (entries ! c))"
  by (auto simp: findValidCutPoints_def)

lemma turn_start:
  assumes "findTurnStartIndex entries i lower = Some t"
  shows "lower \<le> t \<and> t \<le> i \<and> isTurnStartEntry (entries ! t)"
  using assms by (auto simp: findTurnStartIndex_def find_Some_iff in_set_conv_nth rev_nth nth_append) 

text \<open>A good cut: at a message that may begin the context, but for entries before it that are no messages.\<close>

definition good_cut :: "session_entry list \<Rightarrow> nat \<Rightarrow> nat \<Rightarrow> CutPointResult \<Rightarrow> bool" where
  "good_cut entries lower stop r \<longleftrightarrow> lower \<le> cp_first r \<and>
     (\<exists>c. cp_first r \<le> c \<and> c \<in> set (findValidCutPoints entries lower stop) \<and> (\<forall>i. cp_first r \<le> i \<and> i < c \<longrightarrow> \<not> stops_cut (entries ! i))) \<and>
     (cp_split r \<longrightarrow> (\<exists>t. cp_turnStart r = Some t \<and> lower \<le> t \<and> t \<le> cp_first r))"

lemma findCutPoint_good:
  assumes "findValidCutPoints entries lower stop \<noteq> []"
  shows "good_cut entries lower stop (findCutPoint show_json entries lower stop keep)"
proof -
  let ?cs = "findValidCutPoints entries lower stop"
  define c where "c = (case budget_reached (\<lambda>i. entry_tokens show_json (entries ! i)) keep 0 (rev [lower..<stop]) of
      None \<Rightarrow> hd ?cs | Some i \<Rightarrow> (case find (\<lambda>c. c \<ge> i) ?cs of Some c \<Rightarrow> c | None \<Rightarrow> last ?cs))"
  have c: "c \<in> set ?cs"
    using assms by (auto simp: c_def find_Some_iff split: option.splits)
  then have "lower \<le> c" by (simp add: cut_points)
  note range = include_metadata_range [OF this, of entries]
  define r where "r = findCutPoint show_json entries lower stop keep"
  have r: "cp_first r = include_metadata entries lower c"
    "cp_turnStart r = (if isTurnStartEntry (entries ! cp_first r) then None else findTurnStartIndex entries (cp_first r) lower)"
    "cp_split r \<longleftrightarrow> \<not> isTurnStartEntry (entries ! cp_first r) \<and> cp_turnStart r \<noteq> None"
    using assms by (simp_all add: r_def findCutPoint_def Let_def c_def)
  show ?thesis
    unfolding good_cut_def r_def [symmetric]
    using range c r turn_start [of entries "cp_first r" lower] by (intro conjI exI [of _ c]) (auto split: if_splits)
qed

lemma chosen_cut_good:
  assumes "findValidCutPoints path (boundary_start path) (length path) \<noteq> []"
  shows "good_cut path (boundary_start path) (length path) (chosen_cut show_json path keep force)"
proof -
  let ?s = "boundary_start path" and ?r = "findCutPoint show_json path (boundary_start path) (length path) keep"
  consider (same) "chosen_cut show_json path keep force = ?r"
    | (forced) n ns where "findValidCutPoints path (Suc ?s) (length path) = n # ns"
      "chosen_cut show_json path keep force = \<lparr>cp_first = n, cp_turnStart = findTurnStartIndex path n ?s,
         cp_split = (findTurnStartIndex path n ?s \<noteq> None)\<rparr>"
  proof (cases "force \<and> cp_first ?r = ?s \<and> findValidCutPoints path (Suc ?s) (length path) \<noteq> []")
    case True
    then obtain n ns where "findValidCutPoints path (Suc ?s) (length path) = n # ns" by (auto simp: neq_Nil_conv)
    with True show ?thesis by (intro that(2) [of n ns]) (simp_all add: chosen_cut_def Let_def)
  next
    case False
    then show ?thesis by (intro that(1)) (auto simp: chosen_cut_def Let_def)
  qed
  then show ?thesis
  proof cases
    case same
    then show ?thesis using findCutPoint_good [OF assms] by simp
  next
    case (forced n ns)
    then have "n \<in> set (findValidCutPoints path (Suc ?s) (length path))" by simp
    then have "n \<in> set (findValidCutPoints path ?s (length path))" "?s \<le> n" by (auto simp: cut_points)
    then show ?thesis using forced(2) turn_start [of path n ?s] by (auto simp: good_cut_def)
  qed
qed

lemma chosen_cut_none:
  assumes "findValidCutPoints path (boundary_start path) (length path) = []"
  shows "chosen_cut show_json path keep force = \<lparr>cp_first = boundary_start path, cp_turnStart = None, cp_split = False\<rparr>"
proof -
  have "findValidCutPoints path (Suc (boundary_start path)) (length path) = []"
    using assms by (auto simp: findValidCutPoints_def filter_empty_conv)
  then show ?thesis using assms by (simp add: chosen_cut_def findCutPoint_def Let_def)
qed

section \<open>Nothing is lost\<close>

lemma compacted_context:
  assumes "distinct (map en_id (path @ [e]))" and "compaction_of e = Some c" and "k < length path"
    and "co_firstKept c = en_id (path ! k)" and "compaction_of (path ! k) = None"
  shows "context_messages (context_of_path (path @ [e])) = sessionEntryToContextMessages e @ visible (drop k path)"
proof -
  have path: "path = take k path @ path ! k # drop (Suc k) path" by (rule id_take_nth_drop [OF assms(3)])
  then have "en_id (path ! k) \<notin> ids_of (take k path)"
    using assms(1) by (metis (no_types, lifting) Un_iff disjoint_iff distinct_append list.set_intros(1) list.set_map map_append image_eqI)
  from kept_from [OF this assms(5), of "drop (Suc k) path"] have "kept_before (co_firstKept c) False path = uncompacted (drop k path)"
    using path assms(4) Cons_nth_drop_Suc [OF assms(3)] by metis
  then show ?thesis using context_split [of path e "[]" c] assms(1,2) by simp
qed

lemma visible_skip:
  assumes "k \<le> c" and "c < length path" and "\<forall>i. k \<le> i \<and> i < c \<longrightarrow> \<not> stops_cut (path ! i)"
  shows "visible (drop k path) = contextMessagesForCompactionEntry (path ! c) @ visible (drop (Suc c) path)"
proof -
  have "visible (take (c - k) (drop k path)) = []"
    using assms by (auto simp: in_set_conv_nth stops_cut_def)
  then show ?thesis using visible_cut [OF assms(1), of path] Cons_nth_drop_Suc [OF assms(2)] by (metis append_Nil concat.simps(2) list.simps(9))
qed

text \<open>Where a path is cut: at or behind the boundary, not at a compaction, and before a message that may begin a
  context. Where no message behind the boundary may, the cut is the boundary itself.\<close>

definition cut_ok :: "session_entry list \<Rightarrow> CutPointResult \<Rightarrow> bool" where
  "cut_ok path r \<longleftrightarrow> boundary_start path \<le> cp_first r \<and> compaction_of (path ! cp_first r) = None \<and>
     (cp_split r \<longrightarrow> (\<exists>t. cp_turnStart r = Some t \<and> boundary_start path \<le> t \<and> t \<le> cp_first r)) \<and>
     (let kept = visible (drop (cp_first r) path) in kept \<noteq> [] \<and> isCutPointMessage (hd kept) \<or>
        cp_first r = boundary_start path \<and> \<not> cp_split r \<and> \<not> list_ex isCutPointMessage kept)"

lemma chosen_cut_ok:
  assumes "boundary_start path < length path \<Longrightarrow> compaction_of (path ! boundary_start path) = None"
    and "cp_first (chosen_cut show_json path keep force) < length path"
  shows "cut_ok path (chosen_cut show_json path keep force)"
proof (cases "findValidCutPoints path (boundary_start path) (length path) = []")
  case True
  let ?s = "boundary_start path" and ?cut = "chosen_cut show_json path keep force"
  have cut: "cp_first ?cut = ?s" "\<not> cp_split ?cut" using True chosen_cut_none by simp_all
  have "\<not> list_ex isCutPointMessage (contextMessagesForCompactionEntry x)" if "x \<in> set (drop ?s path)" for x
  proof -
    from that obtain i where "i < length (drop ?s path)" "drop ?s path ! i = x" unfolding in_set_conv_nth by blast
    then have i: "?s + i < length path" "x = path ! (?s + i)" by simp_all
    have "?s + i \<notin> set (findValidCutPoints path ?s (length path))" using True by simp
    then show ?thesis using i by (auto simp: cut_points entry_messages split: if_splits)
  qed
  then have "\<not> list_ex isCutPointMessage (visible (drop ?s path))" by (auto simp: list_ex_iff)
  then show ?thesis using cut assms by (simp add: cut_ok_def Let_def)
next
  case False
  let ?s = "boundary_start path" and ?cut = "chosen_cut show_json path keep force"
  from chosen_cut_good [OF False, of show_json keep force] obtain d where good: "?s \<le> cp_first ?cut" "cp_first ?cut \<le> d"
    "d \<in> set (findValidCutPoints path ?s (length path))" "\<forall>i. cp_first ?cut \<le> i \<and> i < d \<longrightarrow> \<not> stops_cut (path ! i)"
    "cp_split ?cut \<longrightarrow> (\<exists>t. cp_turnStart ?cut = Some t \<and> ?s \<le> t \<and> t \<le> cp_first ?cut)" by (auto simp: good_cut_def)
  have d: "d < length path" "compaction_of (path ! d) = None" "list_ex isCutPointMessage (contextMessagesForCompactionEntry (path ! d))"
    using good(3) by (simp_all add: cut_points)
  have "compaction_of (path ! cp_first ?cut) = None"
    using good(2,4) d(2) by (cases "cp_first ?cut = d") (auto simp: stops_cut_def)
  moreover obtain m where "contextMessagesForCompactionEntry (path ! d) = [m]" "isCutPointMessage m"
    using d(3) entry_message [of "path ! d"] by (auto split: option.splits)
  ultimately show ?thesis using good visible_skip [OF good(2) d(1) good(4)] by (simp add: cut_ok_def Let_def)
qed

lemma compacted_refers_back:
  assumes "refers_back path" and "distinct (map en_id (path @ [e]))" and "compaction_of e = Some c" and "k < length path"
    and "co_firstKept c = en_id (path ! k)" and "compaction_of (path ! k) = None"
    and "\<forall>x\<in>set path. \<forall>c'. compaction_of x = Some c' \<longrightarrow> co_firstKept c' \<noteq> en_id e"
  shows "refers_back (path @ [e])"
  unfolding refers_back_def
proof (intro allI impI)
  fix a x c' b
  assume x: "path @ [e] = a @ x # b \<and> compaction_of x = Some c'"
  show "co_firstKept c' \<notin> ids_of (x # b) \<and> (\<forall>y\<in>set a. en_id y = co_firstKept c' \<longrightarrow> compaction_of y = None)"
  proof (cases b rule: rev_cases)
    case Nil
    then have "a = path" "x = e" "c' = c" using x assms(3) by auto
    moreover have "en_id (path ! k) \<noteq> en_id e" using assms(2) imageI [OF nth_mem [OF assms(4)], of en_id] by auto
    moreover have "y = path ! k" if "y \<in> set path" "en_id y = en_id (path ! k)" for y
      using assms(2,4) that by (auto simp: distinct_map inj_on_def)
    ultimately show ?thesis using Nil assms(5,6) by auto
  next
    case (snoc b' y)
    then have "path = a @ x # b'" "y = e" using x by auto
    then have "co_firstKept c' \<notin> ids_of (x # b')" "\<forall>y\<in>set a. en_id y = co_firstKept c' \<longrightarrow> compaction_of y = None"
      using assms(1) x unfolding refers_back_def by blast+
    moreover have "co_firstKept c' \<noteq> en_id e" using assms(7) x \<open>path = a @ x # b'\<close> by auto
    ultimately show ?thesis using snoc \<open>y = e\<close> by auto
  qed
qed

text \<open>C8: compacting loses no message: what the model saw before is the latest summary, the messages that are summarised
  now (those of the history, then those of the split turn) and the messages that are kept, in this order; with the
  new compaction it sees the new summary and exactly the kept ones. These are not empty and begin with a message that
  may begin a context, so with no tool result; the one exception is a path with no such message behind its last
  compaction's boundary, and then nothing at all is summarised now. The new path refers back again.\<close>

theorem compaction_loses_nothing:
  assumes "prepareCompaction show_json path keep force summaryOnly = Some (Some p)"
    and "distinct (map en_id (path @ [e]))" and "refers_back path" and "compaction_of e = Some c" and "co_firstKept c = pr_firstKept p"
    and "\<forall>x\<in>set path. \<forall>c'. compaction_of x = Some c' \<longrightarrow> co_firstKept c' \<noteq> en_id e"
  shows "\<exists>kept. context_messages (context_of_path path) = summary_messages path @ pr_messages p @ pr_prefix p @ kept \<and>
    context_messages (context_of_path (path @ [e])) = sessionEntryToContextMessages e @ kept \<and>
    (kept \<noteq> [] \<and> isCutPointMessage (hd kept) \<or>
      pr_messages p = [] \<and> pr_prefix p = [] \<and> \<not> list_ex isCutPointMessage kept) \<and> refers_back (path @ [e])"
proof -
  let ?s = "boundary_start path" and ?cut = "chosen_cut show_json path keep force"
  let ?k = "cp_first ?cut"
  define stop where "stop = (if cp_split ?cut then the (cp_turnStart ?cut) else ?k)"
  define kept where "kept = visible (drop ?k path)"
  have p: "?k < length path" "pr_firstKept p = en_id (path ! ?k)" "pr_messages p = messages_between path ?s stop"
    "pr_prefix p = (if cp_split ?cut then messages_between path (the (cp_turnStart ?cut)) ?k else [])"
    using assms(1) by (auto simp: prepareCompaction_def Let_def stop_def split: option.splits if_splits)
  have dist: "distinct (map en_id path)" using assms(2) by simp
  note before = context_visible [OF dist assms(3)]
  have facts: "cut_ok path ?cut" by (rule chosen_cut_ok [OF before(2) p(1)])
  then have stop: "?s \<le> stop" "stop \<le> ?k" by (auto simp: stop_def cut_ok_def)
  have first: "compaction_of (path ! ?k) = None" "co_firstKept c = en_id (path ! ?k)" using facts assms(5) p(2) by (simp_all add: cut_ok_def)
  have "visible (drop ?s path) = pr_messages p @ visible (drop stop path)"
    using visible_cut [OF stop(1), of path] messages_between_visible [OF stop(1), of path] stop(2) p(1,3) by simp
  also have "visible (drop stop path) = pr_prefix p @ kept"
    using visible_cut [OF stop(2), of path] messages_between_visible [OF stop(2), of path] p(1,4) facts
    by (auto simp: stop_def kept_def cut_ok_def)
  finally have "context_messages (context_of_path path) = summary_messages path @ pr_messages p @ pr_prefix p @ kept"
    using before(1) by simp
  moreover have "context_messages (context_of_path (path @ [e])) = sessionEntryToContextMessages e @ kept"
    unfolding kept_def using assms(2,4) p(1) first by (intro compacted_context) auto
  moreover have "refers_back (path @ [e])"
    using assms(2-4,6) p(1) first by (intro compacted_refers_back) auto
  moreover have "kept \<noteq> [] \<and> isCutPointMessage (hd kept) \<or>
      pr_messages p = [] \<and> pr_prefix p = [] \<and> \<not> list_ex isCutPointMessage kept"
    using facts p(3,4) by (auto simp: cut_ok_def kept_def stop_def messages_between_def Let_def)
  ultimately show ?thesis by blast
qed

section \<open>Splitting the turn that was kept\<close>

definition entry_at :: "string \<Rightarrow> string option \<Rightarrow> entry_kind \<Rightarrow> session_entry" where
  "entry_at i par k = \<lparr>en_id = js i, en_parent = map_option js par, en_time = js ''t'', en_kind = k\<rparr>"

definition says :: "string \<Rightarrow> entry_kind" where
  "says s = MessageEntry (Assistant \<lparr>am_content = Blocks [TextBlock (js s)], am_provider = js ''p'', am_model = js ''m'', am_usage = None,
     am_stopReason = js ''stop'', am_time = Millis 1\<rparr>)"

definition asks :: "string \<Rightarrow> entry_kind" where
  "asks s = MessageEntry (UserMessage (PlainText (js s)) (Millis 1))"

definition summed :: "string \<Rightarrow> string \<Rightarrow> entry_kind" where
  "summed s i = Compaction \<lparr>co_summary = js s, co_firstKept = js i, co_firstKeptIndex = None, co_tokensBefore = 0, co_details = JNull,
     co_fromHook = False, co_usage = None\<rparr>"

lemmas sample_entries = entry_at_def says_def asks_def summed_def js_def

text \<open>A turn of two steps, cut between them.\<close>

definition one_turn :: "session_entry list" where
  "one_turn = [entry_at ''1'' None (asks ''q''), entry_at ''2'' (Some ''1'') (says ''a''), entry_at ''3'' (Some ''2'') (says ''b'')]"

lemma one_turn_prepared:
  "case prepareCompaction (\<lambda>_. []) one_turn 1 False False of
     Some (Some p) \<Rightarrow> pr_firstKept p = js ''3'' \<and> pr_messages p = [] \<and> length (pr_prefix p) = 2 | _ \<Rightarrow> False"
  by code_simp

theorem compaction_loses_nothing_witness:
  "\<exists>kept. context_messages (context_of_path one_turn) = kept \<and> length kept = 3 \<and>
    context_messages (context_of_path (one_turn @ [entry_at ''4'' (Some ''3'') (summed ''S'' ''3'')])) =
      CompactionSummary (js ''S'') 0 JNull (DateOf (js ''t'')) # drop 2 kept"
proof -
  from one_turn_prepared obtain p where p: "prepareCompaction (\<lambda>_. []) one_turn 1 False False = Some (Some p)"
    "pr_firstKept p = js ''3''" "pr_messages p = []" "length (pr_prefix p) = 2" by (auto split: option.splits)
  have refs: "refers_back one_turn"
    by (auto simp: refers_back_def one_turn_def sample_entries compaction_of_def Cons_eq_append_conv split: entry_kind.splits)
  have "summary_messages one_turn = []" by code_simp
  moreover have "length (context_messages (context_of_path one_turn)) = 3" by code_simp
  moreover have "sessionEntryToContextMessages (entry_at ''4'' (Some ''3'') (summed ''S'' ''3'')) = [CompactionSummary (js ''S'') 0 JNull (DateOf (js ''t''))]"
    by code_simp
  moreover have "distinct (map en_id (one_turn @ [entry_at ''4'' (Some ''3'') (summed ''S'' ''3'')]))" by code_simp
  moreover have "compaction_of (entry_at ''4'' (Some ''3'') (summed ''S'' ''3'')) = Some \<lparr>co_summary = js ''S'', co_firstKept = js ''3'',
     co_firstKeptIndex = None, co_tokensBefore = 0, co_details = JNull, co_fromHook = False, co_usage = None\<rparr>"
    by (simp add: sample_entries compaction_of_def)
  moreover have "\<forall>x\<in>set one_turn. compaction_of x = None" by code_simp
  ultimately show ?thesis
    using compaction_loses_nothing [OF p(1) _ refs, of "entry_at ''4'' (Some ''3'') (summed ''S'' ''3'')"] p(2-4) by auto
qed

text \<open>A turn that was kept whole and then grows past the budget is split, and nothing lies before it that is summarised:
  then the earlier summary is not given to the model and is not in the new one.\<close>

lemma split_forgets_summary:
  "pr_split p \<Longrightarrow> pr_prefix p \<noteq> [] \<Longrightarrow> pr_messages p = [] \<Longrightarrow>
   compacted_summary summarize summarize_prefix (p\<lparr>pr_previousSummary := previous\<rparr>) = compacted_summary summarize summarize_prefix p"
  by (simp add: compacted_summary_def)

definition long_turn :: "session_entry list" where
  "long_turn = [entry_at ''1'' None (asks ''q''), entry_at ''2'' (Some ''1'') (summed ''S'' ''1''), entry_at ''3'' (Some ''2'') (says ''a''),
     entry_at ''4'' (Some ''3'') (says ''b'')]"

lemma long_turn_prepared:
  "case prepareCompaction (\<lambda>_. []) long_turn 1 False False of
     Some (Some p) \<Rightarrow> pr_previousSummary p = Some (js ''S'') \<and> pr_split p \<and> pr_prefix p \<noteq> [] \<and> pr_messages p = [] | _ \<Rightarrow> False"
  by code_simp

lemma earlier_summary_dropped:
  "\<exists>p. prepareCompaction (\<lambda>_. []) long_turn 1 False False = Some (Some p) \<and> pr_previousSummary p = Some (js ''S'') \<and>
     (\<forall>previous. compacted_summary summarize summarize_prefix (p\<lparr>pr_previousSummary := previous\<rparr>) = compacted_summary summarize summarize_prefix p)"
  using long_turn_prepared split_forgets_summary by (auto split: option.splits)

text \<open>The cut may be at a label, which a branched session does not have.\<close>

lemma cut_at_label:
  "case prepareCompaction (\<lambda>_. []) [entry_at ''1'' None (asks ''q''), entry_at ''2'' (Some ''1'') (LabelEntry (js ''1'') (Some (js ''l''))),
       entry_at ''3'' (Some ''2'') (says ''a'')] 1 False False of
     Some (Some p) \<Rightarrow> pr_firstKept p = js ''2'' | _ \<Rightarrow> False"
  by code_simp

text \<open>A turn that begins right behind an entry that is no message counts as split, since the cut moves before that entry and
  that entry begins no turn: the whole turn before is then summarised as the start of a turn whose rest is kept.\<close>

lemma whole_turn_split:
  "case prepareCompaction (\<lambda>_. []) [entry_at ''1'' None (asks ''q''), entry_at ''2'' (Some ''1'') (says ''a''),
       entry_at ''3'' (Some ''2'') (ThinkingLevelChange (js ''high'')), entry_at ''4'' (Some ''3'') (asks ''r''),
       entry_at ''5'' (Some ''4'') (says ''b'')] 2 False False of
     Some (Some p) \<Rightarrow> pr_firstKept p = js ''3'' \<and> pr_split p \<and> pr_messages p = [] \<and> length (pr_prefix p) = 2 | _ \<Rightarrow> False"
  by code_simp

section \<open>The budget\<close>

text \<open>The walk stops where the kept tokens reach the budget: what lies behind that entry is below it.\<close>

lemma budget_sum:
  assumes "budget_reached f keep acc (rev [a..<b]) = Some i" and "acc < keep"
  shows "a \<le> i \<and> i < b \<and> acc + sum_list (map f [Suc i..<b]) < keep \<and> keep \<le> acc + sum_list (map f [i..<b])"
  using assms
proof (induction b arbitrary: acc)
  case (Suc b)
  then have "a \<le> b" by (simp split: if_splits)
  then have rev: "rev [a..<Suc b] = b # rev [a..<b]" by simp
  consider (here) "i = b" "f b \<noteq> 0" "keep \<le> acc + f b" | (below) "budget_reached f keep (acc + f b) (rev [a..<b]) = Some i" "acc + f b < keep"
    using Suc.prems(1) [unfolded rev budget_reached.simps] Suc.prems(2) by (cases "f b = 0"; cases "keep \<le> acc + f b") simp_all
  then show ?case
  proof cases
    case here
    then show ?thesis using \<open>a \<le> b\<close> Suc.prems(2) by simp
  next
    case below
    from Suc.IH [OF this] show ?thesis by (simp add: add.commute add.left_commute)
  qed
qed simp

text \<open>So what a cut keeps behind its first message is below the budget, if a cut is possible where the budget is reached
  or behind.\<close>

lemma kept_below_budget:
  assumes "budget_reached (\<lambda>i. entry_tokens show_json (entries ! i)) keep 0 (rev [lower..<stop]) = Some i" and "0 < keep"
    and "c \<in> set (findValidCutPoints entries lower stop)" and "i \<le> c"
  shows "\<exists>m. cp_first (findCutPoint show_json entries lower stop keep) \<le> m \<and> m \<in> set (findValidCutPoints entries lower stop) \<and>
    (\<forall>j. cp_first (findCutPoint show_json entries lower stop keep) \<le> j \<and> j < m \<longrightarrow> \<not> stops_cut (entries ! j)) \<and>
    sum_list (map (\<lambda>i. entry_tokens show_json (entries ! i)) [Suc m..<stop]) < keep"
proof -
  let ?cs = "findValidCutPoints entries lower stop" and ?f = "\<lambda>i. entry_tokens show_json (entries ! i)"
  have "find (\<lambda>c. c \<ge> i) ?cs \<noteq> None" using assms(3,4) by (auto simp: find_None_iff)
  then obtain m where m: "find (\<lambda>c. c \<ge> i) ?cs = Some m" by auto
  then have at: "i \<le> m" "m \<in> set ?cs" by (auto simp: find_Some_iff in_set_conv_nth)
  then have low: "lower \<le> m" "m < stop" by (simp_all add: cut_points)
  have first: "cp_first (findCutPoint show_json entries lower stop keep) = include_metadata entries lower m"
  proof -
    have "?cs \<noteq> []" using at(2) by auto
    then show ?thesis by (simp add: findCutPoint_def Let_def assms(1) m)
  qed
  have "[Suc i..<stop] = [Suc i..<Suc m] @ [Suc m..<stop]" using at(1) low upt_add_eq_append [of "Suc i" "Suc m" "stop - Suc m"] by simp
  then have "sum_list (map ?f [Suc m..<stop]) < keep"
    using budget_sum [OF assms(1,2)] by simp
  then show ?thesis using include_metadata_range [OF low(1), of entries] at(2) unfolding first by blast
qed

end
