(* ===== verification/BranchSummaries.thy ===== *)
theory BranchSummaries
  imports SessionRestore Compaction
begin

text \<open>
  Leaving a branch (\<open>compaction/branch-summarization.ts\<close>): which entries are summarised when the leaf moves to another
  entry, and which of their messages fit the budget; and the text form of messages that a summary is made from
  (\<open>compaction/utils.ts\<close>). The summary itself is a model's and is not modelled.
\<close>

section \<open>The entries that are left\<close>

definition common_ancestor :: "session_entry list \<Rightarrow> session_entry list \<Rightarrow> jstr option" where
  "common_ancestor oldPath targetPath = map_option en_id (find (\<lambda>e. en_id e \<in> en_id ` set oldPath) (rev targetPath))"

partial_function (option) walk_back :: "(jstr \<Rightarrow> session_entry option) \<Rightarrow> jstr option \<Rightarrow> jstr option \<Rightarrow> session_entry list option" where
  "walk_back index common current =
     (case current of None \<Rightarrow> Some []
      | Some i \<Rightarrow>
          if i = [] \<or> common = Some i then Some []
          else (case index i of None \<Rightarrow> Some []
                | Some e \<Rightarrow> Option.bind (walk_back index common (en_parent e)) (\<lambda>es. Some (es @ [e]))))"

declare walk_back.simps [code]

definition collectEntriesForBranchSummary ::
  "session_data \<Rightarrow> jstr option \<Rightarrow> jstr \<Rightarrow> (session_entry list \<times> jstr option) option" where
  "collectEntriesForBranchSummary s oldLeafId targetId =
     (if \<not> text_given oldLeafId then Some ([], None)
      else
        (case branch_walk s oldLeafId of None \<Rightarrow> None
         | Some oldPath \<Rightarrow>
             (case branch_walk s (Some targetId) of None \<Rightarrow> None
              | Some targetPath \<Rightarrow>
                  (let common = common_ancestor oldPath targetPath
                   in map_option (\<lambda>es. (es, common)) (walk_back (by_id s) common oldLeafId)))))"

section \<open>The messages that fit\<close>

definition branch_message :: "session_entry \<Rightarrow> session_message option" where
  "branch_message e =
     (case en_kind e of
        MessageEntry (ToolResult r) \<Rightarrow> None
      | MessageEntry m \<Rightarrow> Some m
      | CustomMessageEntry ty c d det \<Rightarrow>
          if isContextExcludedCustomMessage ty then None
          else Some (Custom \<lparr>cm_type = ty, cm_content = c, cm_display = d, cm_details = det, cm_time = DateOf (en_time e)\<rparr>)
      | BranchSummaryEntry b \<Rightarrow> Some (BranchSummary (br_summary b) (br_fromId b) (DateOf (en_time e)))
      | Compaction c \<Rightarrow> Some (CompactionSummary (co_summary c) (co_tokensBefore c) JUndefined (DateOf (en_time e)))
      | _ \<Rightarrow> None)"

text \<open>Estimating a message reads its content, which throws when there is none.\<close>

fun content_missing :: "session_message \<Rightarrow> bool" where
  "content_missing (UserMessage c t) \<longleftrightarrow> c = NoContent"
| "content_missing (Assistant a) \<longleftrightarrow> am_content a = NoContent"
| "content_missing (ToolResult r) \<longleftrightarrow> tr_content r = NoContent"
| "content_missing (Custom c) \<longleftrightarrow> cm_content c = NoContent"
| "content_missing _ \<longleftrightarrow> False"

record branch_preparation =
  bp_messages :: "session_message list"
  bp_fileOps :: FileOperations
  bp_totalTokens :: nat

definition is_summary_entry :: "session_entry \<Rightarrow> bool" where
  "is_summary_entry e \<longleftrightarrow> (case en_kind e of Compaction c \<Rightarrow> True | BranchSummaryEntry b \<Rightarrow> True | _ \<Rightarrow> False)"

fun branch_loop :: "(json \<Rightarrow> jstr) \<Rightarrow> int \<Rightarrow> session_entry list \<Rightarrow> branch_preparation \<Rightarrow> unit + branch_preparation" where
  "branch_loop show_json tokenBudget [] p = Inr p"
| "branch_loop show_json tokenBudget (e # older) p =
     (case branch_message e of
        None \<Rightarrow> branch_loop show_json tokenBudget older p
      | Some m \<Rightarrow>
          if content_missing m then Inl ()
          else
            (let p = p\<lparr>bp_fileOps := extractFileOpsFromMessage m (bp_fileOps p)\<rparr>;
                 tokens = estimateTokens show_json m;
                 added = p\<lparr>bp_messages := m # bp_messages p, bp_totalTokens := bp_totalTokens p + tokens\<rparr>
             in if tokenBudget > 0 \<and> int (bp_totalTokens p + tokens) > tokenBudget then
                  Inr (if is_summary_entry e \<and> 10 * int (bp_totalTokens p) < 9 * tokenBudget then added else p)
                else branch_loop show_json tokenBudget older added))"

definition summaries_ops :: "session_entry list \<Rightarrow> FileOperations" where
  "summaries_ops entries =
     fold (\<lambda>e ops. case en_kind e of BranchSummaryEntry b \<Rightarrow> details_ops (br_fromHook b) (br_details b) ops | _ \<Rightarrow> ops)
       entries createFileOps"

definition prepareBranchEntries :: "(json \<Rightarrow> jstr) \<Rightarrow> session_entry list \<Rightarrow> int \<Rightarrow> unit + branch_preparation" where
  "prepareBranchEntries show_json entries tokenBudget =
     branch_loop show_json tokenBudget (rev entries)
       \<lparr>bp_messages = [], bp_fileOps = summaries_ops entries, bp_totalTokens = 0\<rparr>"

section \<open>Messages as text\<close>

definition TOOL_RESULT_MAX_CHARS :: nat where
  "TOOL_RESULT_MAX_CHARS = 2000"

definition truncateForSummary :: "jstr \<Rightarrow> nat \<Rightarrow> jstr" where
  "truncateForSummary s maxChars =
     (if length s \<le> maxChars then s
      else take maxChars s @ [LF, LF] @ js ''[... '' @ decimal (length s - maxChars) @ js '' more characters truncated]'')"

fun text_block :: "content_block \<Rightarrow> jstr option" where
  "text_block (TextBlock s) = Some s"
| "text_block _ = None"

definition contentTextForSummary :: "message_content \<Rightarrow> jstr \<Rightarrow> jstr" where
  "contentTextForSummary content separator =
     (case content of PlainText s \<Rightarrow> s | Blocks bs \<Rightarrow> join separator (List.map_filter text_block bs) | NoContent \<Rightarrow> [])"

fun thinking_block :: "content_block \<Rightarrow> jstr option" where
  "thinking_block (ThinkingBlock s) = Some s"
| "thinking_block _ = None"

fun call_text :: "(json \<Rightarrow> jstr) \<Rightarrow> content_block \<Rightarrow> jstr option" where
  "call_text show_json (ToolCallBlock i name args) =
     Some (name @ js ''('' @ join (js '', '') (map (\<lambda>(k, v). k @ js ''='' @ show_json v) (case props_of args of Some kvs \<Rightarrow> kvs | None \<Rightarrow> [])) @ js '')'')"
| "call_text show_json _ = None"

fun message_parts :: "(json \<Rightarrow> jstr) \<Rightarrow> session_message \<Rightarrow> jstr list" where
  "message_parts show_json (UserMessage c t) =
     (let s = contentTextForSummary c [] in if s \<noteq> [] then [js ''[User]: '' @ s] else [])"
| "message_parts show_json (Assistant a) =
     (let bs = blocks_of (am_content a); thinking = List.map_filter thinking_block bs; calls = List.map_filter (call_text show_json) bs
      in (if thinking \<noteq> [] then [js ''[Assistant thinking]: '' @ join [LF] thinking] else []) @
         (if list_ex (\<lambda>b. text_block b \<noteq> None) bs then [js ''[Assistant]: '' @ contentTextForSummary (am_content a) [LF]] else []) @
         (if calls \<noteq> [] then [js ''[Assistant tool calls]: '' @ join (js ''; '') calls] else []))"
| "message_parts show_json (ToolResult r) =
     (let s = contentTextForSummary (tr_content r) []
      in if s \<noteq> [] then [js ''[Tool result]: '' @ truncateForSummary s TOOL_RESULT_MAX_CHARS] else [])"
| "message_parts show_json _ = []"

definition serializeConversation :: "(json \<Rightarrow> jstr) \<Rightarrow> session_message list \<Rightarrow> jstr" where
  "serializeConversation show_json messages = join [LF, LF] (concat (map (message_parts show_json) messages))"

section \<open>The abandoned part of a path\<close>

lemma parent_known: "rooted {} es \<Longrightarrow> e \<in> set es \<Longrightarrow> en_parent e \<in> insert None (Some ` ids_of es)"
proof (induction es rule: rev_induct)
  case (snoc x es)
  then show ?case by (cases "en_parent e") auto
qed simp

lemma path_parent:
  "rooted {} es \<Longrightarrow> path_to es i = p @ [e] \<Longrightarrow> path_to es (en_parent e) = p"
proof (induction es arbitrary: i p e rule: rev_induct)
  case (snoc x es)
  have es: "rooted {} es" and x: "en_id x \<notin> ids_of es" using snoc.prems(1) by auto
  have known: "path_to (es @ [x]) j = path_to es j" if "j \<in> insert None (Some ` ids_of es)" for j
    using that x by (intro path_to_append) auto
  show ?case
  proof (cases "i = Some (en_id x)")
    case True
    then have "e = x" "path_to es (en_parent x) = p" using snoc.prems(2) by (auto simp: path_to_snoc)
    moreover have "en_parent x \<in> insert None (Some ` ids_of es)" using snoc.prems(1) by (cases "en_parent x") auto
    ultimately show ?thesis using known by simp
  next
    case False
    then have p: "path_to es i = p @ [e]" using snoc.prems(2) by (simp add: path_to_snoc)
    then have "e \<in> set es" using path_to_subset [of es i] by auto
    then show ?thesis using known [OF parent_known [OF es]] snoc.IH [OF es p] by simp
  qed
qed simp

lemma path_prefix:
  "rooted {} es \<Longrightarrow> path_to es i = a @ e # b \<Longrightarrow> path_to es (Some (en_id e)) = a @ [e]"
proof (induction b arbitrary: i rule: rev_induct)
  case Nil
  then have "i \<in> Some ` ids_of es"
    using path_to_append [of i es "[]"] by (cases "i \<in> Some ` ids_of es") auto
  then show ?case using path_to_nonempty [OF Nil.prems(1), of i] Nil.prems(2) by simp
next
  case (snoc y b)
  from path_parent [OF snoc.prems(1), of i "a @ e # b" y] snoc.prems(2) have "path_to es (en_parent y) = a @ e # b" by simp
  then show ?case using snoc.IH snoc.prems(1) by blast
qed

lemma walk_back_path:
  assumes "rooted {} es" and "\<And>e. e \<in> set es \<Longrightarrow> index (en_id e) = Some e"
    and "common = (if a = [] then None else Some (en_id (last a)))"
  shows "path_to es i = a @ b \<Longrightarrow> i \<in> insert None (Some ` ids_of es) \<Longrightarrow> walk_back index common i = Some b"
proof (induction b arbitrary: i rule: rev_induct)
  case Nil
  then show ?case using path_to_nonempty [OF assms(1), of i] assms(3) by (cases i) (auto simp: walk_back.simps)
next
  case (snoc e b)
  have path: "path_to es i = (a @ b) @ [e]" using snoc.prems(1) by simp
  then have e: "e \<in> set es" using path_to_subset [of es i] by auto
  have "i = Some (en_id e)" using path_to_nonempty [OF assms(1), of i] snoc.prems(2) path by (cases i) auto
  moreover have "common \<noteq> Some (en_id e)"
  proof
    assume "common = Some (en_id e)"
    then have "a \<noteq> []" "en_id (last a) = en_id e" using assms(3) by (simp_all split: if_splits)
    then have "en_id e \<in> ids_of a" using imageI [OF last_in_set, of a en_id] by metis
    then show False using rooted_distinct [OF path_to_rooted [OF assms(1)], of i] path by auto
  qed
  moreover have "walk_back index common (en_parent e) = Some b"
    using snoc.IH [OF path_parent [OF assms(1) path]] parent_known [OF assms(1) e] by blast
  ultimately show ?case using assms(2) [OF e] rooted_id [OF assms(1) e] by (simp add: walk_back.simps)
qed

lemma find_first_split: "find P xs = Some x \<Longrightarrow> \<exists>a b. xs = a @ x # b \<and> P x \<and> (\<forall>y\<in>set a. \<not> P y)"
proof (induction xs)
  case (Cons y xs)
  show ?case
  proof (cases "P y")
    case True
    then show ?thesis using Cons.prems by (intro exI [of _ "[]"] exI [of _ xs]) auto
  next
    case False
    then obtain a b where "xs = a @ x # b" "P x" "\<forall>y\<in>set a. \<not> P y" using Cons by auto
    then show ?thesis using False by (intro exI [of _ "y # a"] exI [of _ b]) auto
  qed
qed simp

lemma disjoint_images: "\<forall>y\<in>B. f y \<notin> f ` A \<Longrightarrow> f ` A \<inter> f ` B = {}"
proof (rule equals0I)
  fix z
  assume all: "\<forall>y\<in>B. f y \<notin> f ` A" and z: "z \<in> f ` A \<inter> f ` B"
  from z obtain y where "y \<in> B" "z = f y" by blast
  then show False using all z by simp
qed

lemma common_split:
  assumes "rooted {} es" and "P = path_to es i" and "Q = path_to es j"
  shows "\<exists>a b c. P = a @ b \<and> Q = a @ c \<and> ids_of b \<inter> ids_of c = {} \<and>
    common_ancestor P Q = (if a = [] then None else Some (en_id (last a)))"
proof (cases "find (\<lambda>e. en_id e \<in> ids_of P) (rev Q)")
  case None
  then have "\<forall>x\<in>set Q. en_id x \<notin> ids_of P" by (simp add: find_None_iff)
  then have "ids_of P \<inter> ids_of Q = {}" by (rule disjoint_images)
  with None show ?thesis by (intro exI [of _ "[]"] exI [of _ P] exI [of _ Q]) (simp add: common_ancestor_def)
next
  case (Some q)
  from find_first_split [OF this] obtain r1 r2 where "rev Q = r1 @ q # r2" "en_id q \<in> ids_of P" "\<forall>y\<in>set r1. en_id y \<notin> ids_of P" by blast
  then have Q: "Q = rev r2 @ q # rev r1" and q: "en_id q \<in> ids_of P" and rest: "\<forall>y\<in>set (rev r1). en_id y \<notin> ids_of P"
    by (simp_all add: rev_swap)
  obtain x where x: "x \<in> set P" "en_id x = en_id q" using q by auto
  have "x \<in> set es" using x(1) path_to_subset [of es i] assms(2) by blast
  moreover have "q \<in> set Q" by (simp add: Q)
  then have "q \<in> set es" using path_to_subset [of es j] assms(3) by blast
  ultimately have "x = q" using x(2) rooted_distinct [OF assms(1)] by (auto simp: distinct_map inj_on_def)
  then obtain p1 p2 where P: "P = p1 @ q # p2" using x(1) by (auto simp: in_set_conv_decomp)
  have "p1 @ [q] = rev r2 @ [q]"
    using path_prefix [OF assms(1), of i p1 q p2] path_prefix [OF assms(1), of j "rev r2" q "rev r1"] P Q assms(2,3) by simp
  then have "p1 = rev r2" by simp
  moreover have "\<forall>y\<in>set (rev r1). en_id y \<notin> ids_of p2" using rest by (simp add: P image_Un)
  then have "ids_of p2 \<inter> ids_of (rev r1) = {}" by (rule disjoint_images)
  moreover have "common_ancestor P Q = Some (en_id q)" using Some by (simp add: common_ancestor_def)
  ultimately show ?thesis using P Q by (intro exI [of _ "p1 @ [q]"] exI [of _ p2] exI [of _ "rev r1"]) simp
qed

text \<open>C21: moving from one entry to another, what is summarised is exactly the part of the old path that the new path does
  not have: the two paths begin alike up to the common ancestor, the entries behind it are collected in order, and
  the new path has none of them.\<close>

theorem branch_summary_exact:
  assumes "session_reach codec s d" and "i \<in> ids_of (entries_of (ss_entries s))" and "j \<in> ids_of (entries_of (ss_entries s))"
  shows "\<exists>a b c. path_to (entries_of (ss_entries s)) (Some i) = a @ b \<and> path_to (entries_of (ss_entries s)) (Some j) = a @ c \<and>
    ids_of b \<inter> ids_of c = {} \<and>
    collectEntriesForBranchSummary s (Some i) j = Some (b, if a = [] then None else Some (en_id (last a)))"
proof -
  let ?es = "entries_of (ss_entries s)"
  have inv: "session_inv s" using reach_ok [OF assms(1)] by simp
  then have rooted: "rooted {} ?es" by (simp add: session_inv_def)
  from common_split [OF rooted refl refl, of "Some i" "Some j"] obtain a b c where split:
    "path_to ?es (Some i) = a @ b" "path_to ?es (Some j) = a @ c" "ids_of b \<inter> ids_of c = {}"
    "common_ancestor (path_to ?es (Some i)) (path_to ?es (Some j)) = (if a = [] then None else Some (en_id (last a)))" by blast
  have "i \<noteq> []" using assms(2) rooted_ids [OF rooted] by metis
  moreover have "walk_back (by_id s) (if a = [] then None else Some (en_id (last a))) (Some i) = Some b"
    using walk_back_path [OF rooted inv_by_id [OF inv] refl split(1)] assms(2) by simp
  ultimately have "collectEntriesForBranchSummary s (Some i) j = Some (b, if a = [] then None else Some (en_id (last a)))"
    using inv_walk [OF inv, of "Some i"] inv_walk [OF inv, of "Some j"] assms(2,3) split(4)
    by (simp add: collectEntriesForBranchSummary_def text_given_def Let_def)
  then show ?thesis using split(1-3) by blast
qed

theorem branch_summary_exact_witness:
  "collectEntriesForBranchSummary sample_session (Some (js ''01234567'')) (js ''01234567'') = Some ([], Some (js ''01234567''))"
proof -
  have "js ''01234567'' \<in> ids_of (entries_of (ss_entries sample_session))" by (simp add: sample_fields sample_entry_def)
  from branch_summary_exact [OF sample_reach this this] show ?thesis
    using sample_path by (auto simp: sample_fields sample_entry_def Cons_eq_append_conv)
qed

section \<open>The budget of a summary\<close>

abbreviation tokens_of :: "(json \<Rightarrow> jstr) \<Rightarrow> session_message list \<Rightarrow> nat" where
  "tokens_of show_json ms \<equiv> sum_list (map (estimateTokens show_json) ms)"

text \<open>The messages are those of the newest entries, all of them if there is no limit; together they fit, but for a summary
  at their front, which may go beyond if less than nine tenths were used.\<close>

definition fits_budget :: "(json \<Rightarrow> jstr) \<Rightarrow> int \<Rightarrow> session_message list \<Rightarrow> bool" where
  "fits_budget show_json budget ms \<longleftrightarrow> int (tokens_of show_json ms) \<le> budget \<or>
     (\<exists>m ms'. ms = m # ms' \<and> 10 * int (tokens_of show_json ms') < 9 * budget \<and>
        (case m of BranchSummary s f t \<Rightarrow> True | CompactionSummary s n det t \<Rightarrow> True | _ \<Rightarrow> False))"

lemma branch_loop_ok:
  assumes "branch_loop show_json budget older p = Inr q" and "bp_totalTokens p = tokens_of show_json (bp_messages p)"
    and "budget > 0 \<longrightarrow> int (bp_totalTokens p) \<le> budget"
  shows "\<exists>taken rest. older = taken @ rest \<and> bp_messages q = List.map_filter branch_message (rev taken) @ bp_messages p \<and>
    bp_totalTokens q = tokens_of show_json (bp_messages q) \<and> (budget > 0 \<longrightarrow> fits_budget show_json budget (bp_messages q)) \<and>
    (budget \<le> 0 \<longrightarrow> rest = [])"
  using assms
proof (induction older arbitrary: p)
  case Nil
  then show ?case by (auto simp: fits_budget_def)
next
  case (Cons e older)
  show ?case
  proof (cases "branch_message e")
    case None
    then have "branch_loop show_json budget older p = Inr q" using Cons.prems(1) by simp
    from Cons.IH [OF this Cons.prems(2,3)] obtain taken rest where "older = taken @ rest" "bp_messages q = List.map_filter branch_message (rev taken) @ bp_messages p"
      "bp_totalTokens q = tokens_of show_json (bp_messages q)" "budget > 0 \<longrightarrow> fits_budget show_json budget (bp_messages q)"
      "budget \<le> 0 \<longrightarrow> rest = []" by blast
    then show ?thesis using None by (intro exI [of _ "e # taken"] exI [of _ rest]) (simp add: List.map_filter_def)
  next
    case (Some m)
    define p1 where "p1 = p\<lparr>bp_fileOps := extractFileOpsFromMessage m (bp_fileOps p)\<rparr>"
    define added where "added = p1\<lparr>bp_messages := m # bp_messages p1, bp_totalTokens := bp_totalTokens p1 + estimateTokens show_json m\<rparr>"
    have content: "\<not> content_missing m" using Cons.prems(1) Some by (cases "content_missing m") simp_all
    have here: "branch_loop show_json budget (e # older) p =
       (if budget > 0 \<and> int (bp_totalTokens p1 + estimateTokens show_json m) > budget then
          Inr (if is_summary_entry e \<and> 10 * int (bp_totalTokens p1) < 9 * budget then added else p1)
        else branch_loop show_json budget older added)"
      by (simp add: Some content Let_def p1_def added_def)
    have added: "bp_messages added = m # bp_messages p" "bp_totalTokens added = estimateTokens show_json m + bp_totalTokens p"
      by (simp_all add: added_def p1_def)
    show ?thesis
    proof (cases "budget > 0 \<and> int (bp_totalTokens p1 + estimateTokens show_json m) > budget")
      case True
      show ?thesis
      proof (cases "is_summary_entry e \<and> 10 * int (bp_totalTokens p1) < 9 * budget")
        case summary: True
        then have "q = added" using Cons.prems(1) summary True unfolding here by auto
        moreover have "fits_budget show_json budget (m # bp_messages p)"
          using summary Cons.prems(2) Some
          by (auto simp: fits_budget_def p1_def is_summary_entry_def branch_message_def split: entry_kind.splits)
        ultimately show ?thesis
          using Some True Cons.prems(2) by (intro exI [of _ "[e]"] exI [of _ older]) (simp add: added List.map_filter_def)
      next
        case False
        then have "q = p1" using Cons.prems(1) True unfolding here by auto
        then show ?thesis using Cons.prems(2,3) True
          by (intro exI [of _ "[]"] exI [of _ "e # older"]) (auto simp: p1_def List.map_filter_def fits_budget_def)
      qed
    next
      case False
      then have "branch_loop show_json budget older added = Inr q" using Cons.prems(1) unfolding here by auto
      moreover have "bp_totalTokens added = tokens_of show_json (bp_messages added)" using Cons.prems(2) by (simp add: added)
      moreover have "budget > 0 \<longrightarrow> int (bp_totalTokens added) \<le> budget" using False by (auto simp: added p1_def)
      ultimately obtain taken rest where "older = taken @ rest"
        "bp_messages q = List.map_filter branch_message (rev taken) @ bp_messages added"
        "bp_totalTokens q = tokens_of show_json (bp_messages q)" "budget > 0 \<longrightarrow> fits_budget show_json budget (bp_messages q)"
        "budget \<le> 0 \<longrightarrow> rest = []" using Cons.IH by blast
      then show ?thesis using Some by (intro exI [of _ "e # taken"] exI [of _ rest]) (simp add: added(1) List.map_filter_def)
    qed
  qed
qed

lemma branch_messages_newest:
  assumes "prepareBranchEntries show_json entries budget = Inr p"
  shows "\<exists>older newer. entries = older @ newer \<and> bp_messages p = List.map_filter branch_message newer \<and>
    bp_totalTokens p = tokens_of show_json (bp_messages p) \<and> (budget > 0 \<longrightarrow> fits_budget show_json budget (bp_messages p)) \<and>
    (budget \<le> 0 \<longrightarrow> older = [])"
proof -
  have "\<exists>taken rest. rev entries = taken @ rest \<and> bp_messages p = List.map_filter branch_message (rev taken) \<and>
    bp_totalTokens p = tokens_of show_json (bp_messages p) \<and> (budget > 0 \<longrightarrow> fits_budget show_json budget (bp_messages p)) \<and>
    (budget \<le> 0 \<longrightarrow> rest = [])"
    using branch_loop_ok [OF assms [unfolded prepareBranchEntries_def]] by simp
  then obtain taken rest where
    "rev entries = taken @ rest" "bp_messages p = List.map_filter branch_message (rev taken)"
    "bp_totalTokens p = tokens_of show_json (bp_messages p)" "budget > 0 \<longrightarrow> fits_budget show_json budget (bp_messages p)"
    "budget \<le> 0 \<longrightarrow> rest = []" by blast
  moreover from this(1) have "entries = rev rest @ rev taken" by (simp add: rev_swap)
  ultimately show ?thesis by (intro exI [of _ "rev rest"] exI [of _ "rev taken"]) simp
qed

text \<open>When the newest message alone is beyond the budget, nothing is summarised at all.\<close>

lemma newest_too_large:
  assumes "branch_message e = Some m" and "\<not> content_missing m" and "\<not> is_summary_entry e"
    and "budget > 0" and "int (estimateTokens show_json m) > budget"
  shows "\<exists>p. prepareBranchEntries show_json (entries @ [e]) budget = Inr p \<and> bp_messages p = []"
  using assms by (simp add: prepareBranchEntries_def Let_def)

text \<open>A message without content, which the context shows as an empty one, makes the preparation throw.\<close>

lemma missing_content_throws:
  "prepareBranchEntries show_json [\<lparr>en_id = i, en_parent = par, en_time = now, en_kind = MessageEntry (UserMessage NoContent t)\<rparr>] budget = Inl ()"
  by (simp add: prepareBranchEntries_def branch_message_def)

end
