(* ===== verification/CompactionCycle.thy ===== *)
theory CompactionCycle
  imports Prelude
begin

text \<open>
  The life of a compaction (\<open>compaction/lifecycle.ts\<close>): the reducer over its state, and the coordinator that couples it with
  the controller that can stop the work. Operations may be overtaken, finished late or stopped from elsewhere; what is
  shown is that none is left behind unnoticed. A controller is a number; the set of the stopped ones stands for
  their signals. Texts of errors are strings.
\<close>

section \<open>The reducer\<close>

datatype compaction_stage = Feedback | Execution

record begin_operation =
  bo_id :: jstr
  bo_stage :: compaction_stage
  bo_reason :: jstr
  bo_model :: "(jstr \<times> jstr) option"
  bo_revision :: nat

record cycle_operation =
  cy_generation :: nat
  cy_operation :: begin_operation

record cycle_failure =
  cf_cause :: "jstr option"
  cf_message :: "jstr option"

datatype cycle_outcome = CycleCompleted | CycleFailed cycle_failure | CycleAborted "jstr option"

datatype cycle_state =
    CycleIdle
  | CycleRunning cycle_operation
  | CycleEnded cycle_operation nat cycle_outcome

definition initialCompactionLifecycleState :: cycle_state where
  "initialCompactionLifecycleState = CycleIdle"

fun generation_of :: "cycle_state \<Rightarrow> nat" where
  "generation_of CycleIdle = 0"
| "generation_of (CycleRunning c) = cy_generation c"
| "generation_of (CycleEnded c n out) = cy_generation c"

definition beginCompactionOperation :: "cycle_state \<Rightarrow> begin_operation \<Rightarrow> cycle_state" where
  "beginCompactionOperation st op = CycleRunning \<lparr>cy_generation = generation_of st + 1, cy_operation = op\<rparr>"

definition promoteCompactionOperation :: "cycle_state \<Rightarrow> jstr \<Rightarrow> cycle_state" where
  "promoteCompactionOperation st i =
     (case st of
        CycleRunning c \<Rightarrow>
          if bo_id (cy_operation c) \<noteq> i \<or> bo_stage (cy_operation c) = Execution then st
          else CycleRunning (c\<lparr>cy_operation := (cy_operation c)\<lparr>bo_stage := Execution\<rparr>\<rparr>)
      | _ \<Rightarrow> st)"

record finish_event =
  fe_id :: jstr
  fe_outcome :: cycle_outcome
  fe_revision :: nat

text \<open>\<open>None\<close> is the state itself, which the coordinator compares by identity.\<close>

definition finishCompactionOperation :: "cycle_state \<Rightarrow> finish_event \<Rightarrow> cycle_state option" where
  "finishCompactionOperation st event =
     (case st of
        CycleRunning c \<Rightarrow>
          if bo_id (cy_operation c) \<noteq> fe_id event then None
          else Some (CycleEnded c (fe_revision event) (fe_outcome event))
      | _ \<Rightarrow> None)"

section \<open>The coordinator\<close>

record cycle_coordinator =
  cc_state :: cycle_state
  cc_controller :: "nat option"
  cc_stopped :: "nat set"

definition new_coordinator :: cycle_coordinator where
  "new_coordinator = \<lparr>cc_state = initialCompactionLifecycleState, cc_controller = None, cc_stopped = {}\<rparr>"

definition stop_controller :: "cycle_coordinator \<Rightarrow> cycle_coordinator" where
  "stop_controller s = (case cc_controller s of None \<Rightarrow> s | Some c \<Rightarrow> s\<lparr>cc_stopped := insert c (cc_stopped s)\<rparr>)"

definition start_operation :: "begin_operation \<Rightarrow> nat \<Rightarrow> cycle_coordinator \<Rightarrow> jstr \<times> cycle_coordinator" where
  "start_operation op c s =
     (bo_id op, s\<lparr>cc_controller := Some c, cc_state := beginCompactionOperation (cc_state s) op\<rparr>)"

definition begin_compaction :: "begin_operation \<Rightarrow> nat \<Rightarrow> cycle_coordinator \<Rightarrow> jstr \<times> cycle_coordinator" where
  "begin_compaction op c s =
     (case cc_state s of
        CycleRunning running \<Rightarrow>
          if cc_controller s = Some c then
            (let i = bo_id (cy_operation running)
             in (i, if bo_stage op = Execution then s\<lparr>cc_state := promoteCompactionOperation (cc_state s) i\<rparr> else s))
          else start_operation op c (stop_controller s)
      | _ \<Rightarrow> start_operation op c s)"

definition isCurrent :: "jstr \<Rightarrow> nat \<Rightarrow> cycle_coordinator \<Rightarrow> bool" where
  "isCurrent i c s \<longleftrightarrow>
     (case cc_state s of
        CycleRunning running \<Rightarrow> bo_id (cy_operation running) = i \<and> cc_controller s = Some c \<and> c \<notin> cc_stopped s
      | _ \<Rightarrow> False)"

definition hasCurrentSignal :: "nat \<Rightarrow> cycle_coordinator \<Rightarrow> bool" where
  "hasCurrentSignal c s \<longleftrightarrow>
     (case cc_state s of CycleRunning running \<Rightarrow> cc_controller s = Some c \<and> c \<notin> cc_stopped s | _ \<Rightarrow> False)"

definition finish_compaction :: "finish_event \<Rightarrow> cycle_coordinator \<Rightarrow> bool \<times> cycle_coordinator" where
  "finish_compaction event s =
     (case finishCompactionOperation (cc_state s) event of
        None \<Rightarrow> (False, s)
      | Some st \<Rightarrow> (True, s\<lparr>cc_state := st, cc_controller := None\<rparr>))"

definition abort_compaction :: "nat \<Rightarrow> cycle_coordinator \<Rightarrow> (jstr \<times> compaction_stage) option \<times> cycle_coordinator" where
  "abort_compaction revision s =
     (case cc_state s of
        CycleRunning c \<Rightarrow>
          (Some (bo_reason (cy_operation c), bo_stage (cy_operation c)),
           snd (finish_compaction \<lparr>fe_id = bo_id (cy_operation c),
             fe_outcome = CycleAborted (Some (js ''Compaction cancelled'')), fe_revision = revision\<rparr> (stop_controller s)))
      | _ \<Rightarrow> (None, s))"

section \<open>Runs\<close>

text \<open>What may happen to a coordinator; a controller may also be stopped by whoever holds it.\<close>

datatype cycle_event =
    BeginEvent begin_operation nat
  | FinishEvent finish_event
  | AbortEvent nat
  | SignalEvent nat

fun cycle_step :: "cycle_event \<Rightarrow> cycle_coordinator \<Rightarrow> cycle_coordinator" where
  "cycle_step (BeginEvent op c) s = snd (begin_compaction op c s)"
| "cycle_step (FinishEvent event) s = snd (finish_compaction event s)"
| "cycle_step (AbortEvent revision) s = snd (abort_compaction revision s)"
| "cycle_step (SignalEvent c) s = s\<lparr>cc_stopped := insert c (cc_stopped s)\<rparr>"

definition cycle_run :: "cycle_event list \<Rightarrow> cycle_coordinator" where
  "cycle_run es = fold cycle_step es new_coordinator"

definition running_op :: "cycle_coordinator \<Rightarrow> begin_operation option" where
  "running_op s = (case cc_state s of CycleRunning c \<Rightarrow> Some (cy_operation c) | _ \<Rightarrow> None)"

definition cycle_ok :: "cycle_coordinator \<Rightarrow> bool" where
  "cycle_ok s \<longleftrightarrow> (cc_controller s = None \<longleftrightarrow> running_op s = None)"

lemmas cycle_defs = begin_compaction_def start_operation_def stop_controller_def finish_compaction_def abort_compaction_def
  beginCompactionOperation_def promoteCompactionOperation_def finishCompactionOperation_def running_op_def Let_def

lemma cycle_step_ok: "cycle_ok s \<Longrightarrow> cycle_ok (cycle_step e s)"
  by (cases e) (auto simp: cycle_ok_def cycle_defs split: cycle_state.splits option.splits)

lemma cycle_step_stopped: "cc_stopped s \<subseteq> cc_stopped (cycle_step e s)"
  by (cases e) (auto simp: cycle_defs split: cycle_state.splits option.splits)

lemma cycle_step_generation: "generation_of (cc_state s) \<le> generation_of (cc_state (cycle_step e s))"
  by (cases e) (auto simp: cycle_defs split: cycle_state.splits option.splits)

lemma cycle_fold_mono:
  "cc_stopped s \<subseteq> cc_stopped (fold cycle_step es s) \<and> generation_of (cc_state s) \<le> generation_of (cc_state (fold cycle_step es s))"
proof (induction es arbitrary: s)
  case (Cons e es)
  then show ?case
    using Cons.IH [of "cycle_step e s"] cycle_step_stopped [of s e] cycle_step_generation [of s e] by fastforce
qed simp

lemma cycle_run_ok: "cycle_ok (cycle_run es)"
  unfolding cycle_run_def
proof (induction es rule: rev_induct)
  case Nil
  then show ?case by (simp add: cycle_ok_def new_coordinator_def running_op_def initialCompactionLifecycleState_def)
next
  case (snoc e es)
  then show ?case using cycle_step_ok by simp
qed

text \<open>An operation that was begun with a controller of its own runs on under that controller, is ended by an event that
  names it, or is stopped.\<close>

definition accounted :: "nat \<Rightarrow> nat \<Rightarrow> jstr \<Rightarrow> cycle_event list \<Rightarrow> cycle_coordinator \<Rightarrow> bool" where
  "accounted g c i es s \<longleftrightarrow>
     (\<exists>st. cc_state s = CycleRunning st \<and> cy_generation st = g \<and> bo_id (cy_operation st) = i \<and> cc_controller s = Some c) \<or>
     c \<in> cc_stopped s \<or> (\<exists>event. FinishEvent event \<in> set es \<and> fe_id event = i)"

lemma accounted_step:
  assumes "accounted g c i es s" and "cycle_ok s"
  shows "accounted g c i (es @ [e]) (cycle_step e s)"
proof (cases "c \<in> cc_stopped s \<or> (\<exists>event. FinishEvent event \<in> set es \<and> fe_id event = i)")
  case True
  then show ?thesis using cycle_step_stopped [of s e] by (auto simp: accounted_def)
next
  case False
  then obtain st where "cc_state s = CycleRunning st" "cy_generation st = g" "bo_id (cy_operation st) = i" "cc_controller s = Some c"
    using assms(1) by (auto simp: accounted_def)
  then show ?thesis by (cases e) (auto simp: accounted_def cycle_defs split: if_splits)
qed

lemma begin_started:
  assumes "cycle_ok s" and "cc_controller s \<noteq> Some c"
  shows "accounted (generation_of (cc_state s) + 1) c (bo_id op) [] (cycle_step (BeginEvent op c) s)"
  using assms by (auto simp: accounted_def cycle_ok_def cycle_defs split: cycle_state.splits option.splits)

lemma stopped_not_current: "k \<in> cc_stopped s \<Longrightarrow> \<not> isCurrent i k s \<and> \<not> hasCurrentSignal k s"
  by (simp add: isCurrent_def hasCurrentSignal_def split: cycle_state.splits)

text \<open>C23: no compaction is left behind: whatever else happens, an operation that is begun with a controller of its own
  stays the running one under its controller and generation, or an event that names it was delivered, or its
  controller was stopped, so that its work sees the signal; and a controller that was stopped never counts as
  current again.\<close>

theorem compaction_accounted:
  fixes es1 es2 op c
  defines "before \<equiv> cycle_run es1" and "after \<equiv> cycle_run (es1 @ BeginEvent op c # es2)"
  assumes "cc_controller before \<noteq> Some c"
  shows "accounted (generation_of (cc_state before) + 1) c (bo_id op) es2 after \<and>
    (\<forall>k i. k \<in> cc_stopped before \<longrightarrow> \<not> isCurrent i k after \<and> \<not> hasCurrentSignal k after)"
proof
  let ?s = "cycle_step (BeginEvent op c) before"
  have after: "after = fold cycle_step es2 ?s" by (simp add: after_def before_def cycle_run_def)
  have ok: "cycle_ok (fold cycle_step es ?s)" for es
    using cycle_run_ok [of "es1 @ BeginEvent op c # es"] by (simp add: before_def cycle_run_def)
  have "accounted (generation_of (cc_state before) + 1) c (bo_id op) es (fold cycle_step es ?s)" for es
  proof (induction es rule: rev_induct)
    case Nil
    then show ?case using begin_started [OF cycle_run_ok, of es1 c op] assms(3) by (simp add: before_def)
  next
    case (snoc e es)
    then show ?case using accounted_step [OF snoc.IH ok] by simp
  qed
  then show "accounted (generation_of (cc_state before) + 1) c (bo_id op) es2 after" unfolding after .
  have "cc_stopped before \<subseteq> cc_stopped after"
    unfolding after using cycle_step_stopped [of before "BeginEvent op c"] cycle_fold_mono [of ?s es2] by blast
  then show "\<forall>k i. k \<in> cc_stopped before \<longrightarrow> \<not> isCurrent i k after \<and> \<not> hasCurrentSignal k after"
    using stopped_not_current by blast
qed

definition sample_operation :: "string \<Rightarrow> begin_operation" where
  "sample_operation i = \<lparr>bo_id = js i, bo_stage = Feedback, bo_reason = js ''manual'', bo_model = None, bo_revision = 0\<rparr>"

text \<open>An operation that is overtaken by another one is stopped.\<close>

theorem compaction_accounted_witness:
  "1 \<in> cc_stopped (cycle_run [BeginEvent (sample_operation ''a'') 1, BeginEvent (sample_operation ''b'') 2])"
  using compaction_accounted [of "[]" 1 "sample_operation ''a''" "[BeginEvent (sample_operation ''b'') 2]"]
  by (auto simp: accounted_def cycle_run_def new_coordinator_def initialCompactionLifecycleState_def cycle_defs sample_operation_def js_def)

text \<open>A second operation under the controller of the running one is not begun: its own id is never current, and events
  that name it are dropped.\<close>

lemma joined_operation:
  assumes "cc_state s = CycleRunning st" and "cc_controller s = Some c" and "bo_id op \<noteq> bo_id (cy_operation st)"
    and "fe_id event = bo_id op"
  shows "begin_compaction op c s = (bo_id (cy_operation st), snd (begin_compaction op c s)) \<and>
    \<not> isCurrent (bo_id op) c (snd (begin_compaction op c s)) \<and>
    finish_compaction event (snd (begin_compaction op c s)) = (False, snd (begin_compaction op c s))"
  using assms by (auto simp: cycle_defs isCurrent_def)

end
