(* ===== verification/ResidentStore.thy ===== *)
theory ResidentStore
  imports Json JsText BufferText
begin

text \<open>
  The string store of a session (\<open>session-resident-store.ts\<close>): long strings of the entries in memory are replaced by marks
  and put back when an entry is read or written. Objects with a \<open>toJSON\<close> of their own, cycles, functions and
  big integers are not among the values of entries and not modelled.
\<close>

definition RESIDENT_STRING_MIN_BYTES :: nat where
  "RESIDENT_STRING_MIN_BYTES = 32 * 1024"

definition RESIDENT_STRING_PREFIX :: jstr where
  "RESIDENT_STRING_PREFIX = 0 # js ''senpi-resident-string:v1:''"

record resident =
  rs_strings :: "jstr \<rightharpoonup> jstr"
  rs_bytes :: nat
  rs_next :: nat

definition clear_resident :: resident where
  "clear_resident = \<lparr>rs_strings = Map.empty, rs_bytes = 0, rs_next = 0\<rparr>"

definition externalizeString :: "jstr \<Rightarrow> resident \<Rightarrow> jstr \<times> resident" where
  "externalizeString text s =
     (if length text < RESIDENT_STRING_MIN_BYTES \<or> starts_with text RESIDENT_STRING_PREFIX then (text, s)
      else
        (let i = decimal (rs_next s)
         in (RESIDENT_STRING_PREFIX @ i,
             s\<lparr>rs_next := Suc (rs_next s), rs_strings := (rs_strings s)(i \<mapsto> text), rs_bytes := rs_bytes s + length (utf8_encode text)\<rparr>)))"

definition materializeString :: "jstr \<Rightarrow> resident \<Rightarrow> jstr" where
  "materializeString text s =
     (if \<not> starts_with text RESIDENT_STRING_PREFIX then text
      else (case rs_strings s (drop (length RESIDENT_STRING_PREFIX) text) of Some t \<Rightarrow> t | None \<Rightarrow> text))"

text \<open>\<open>transformJsonValue\<close>: \<open>None\<close> is a value that JSON leaves out, in an array it is \<open>null\<close>.\<close>

fun transformJsonValue :: "(jstr \<Rightarrow> 's \<Rightarrow> jstr \<times> 's) \<Rightarrow> json \<Rightarrow> 's \<Rightarrow> json option \<times> 's"
  and transform_items :: "(jstr \<Rightarrow> 's \<Rightarrow> jstr \<times> 's) \<Rightarrow> json list \<Rightarrow> 's \<Rightarrow> json list \<times> 's"
  and transform_fields :: "(jstr \<Rightarrow> 's \<Rightarrow> jstr \<times> 's) \<Rightarrow> (jstr \<times> json) list \<Rightarrow> 's \<Rightarrow> (jstr \<times> json) list \<times> 's" where
  "transformJsonValue f (JStr t) s = (let (t, s) = f t s in (Some (JStr t), s))"
| "transformJsonValue f JUndefined s = (None, s)"
| "transformJsonValue f (JArr vs) s = (let (vs, s) = transform_items f vs s in (Some (JArr vs), s))"
| "transformJsonValue f (JObj kvs) s = (let (kvs, s) = transform_fields f kvs s in (Some (JObj kvs), s))"
| "transformJsonValue f v s = (Some v, s)"
| "transform_items f [] s = ([], s)"
| "transform_items f (v # vs) s =
     (let (w, s) = transformJsonValue f v s; (ws, s) = transform_items f vs s
      in ((case w of None \<Rightarrow> JNull | Some w \<Rightarrow> w) # ws, s))"
| "transform_fields f [] s = ([], s)"
| "transform_fields f ((k, v) # kvs) s =
     (let (w, s) = transformJsonValue f v s; (ws, s) = transform_fields f kvs s
      in ((case w of None \<Rightarrow> ws | Some w \<Rightarrow> (k, w) # ws), s))"

text \<open>\<open>externalize\<close> and \<open>materialize\<close>; \<open>None\<close> is the error for a value that JSON has no text for.\<close>

definition externalize :: "json \<Rightarrow> resident \<Rightarrow> json option \<times> resident" where
  "externalize v s = transformJsonValue externalizeString v s"

definition materialize :: "json \<Rightarrow> resident \<Rightarrow> json option" where
  "materialize v s = fst (transformJsonValue (\<lambda>t _. (materializeString t s, ())) v ())"

section \<open>What comes back\<close>

text \<open>The value that JSON makes of a value: without what it leaves out.\<close>

abbreviation as_json :: "json \<Rightarrow> json option" where
  "as_json v \<equiv> fst (transformJsonValue (\<lambda>t s. (t, s)) v ())"

fun strings_of :: "json \<Rightarrow> jstr set" where
  "strings_of (JStr t) = {t}"
| "strings_of (JArr vs) = (\<Union>v\<in>set vs. strings_of v)"
| "strings_of (JObj kvs) = (\<Union>kv\<in>set kvs. strings_of (snd kv))"
| "strings_of v = {}"

text \<open>A store knows no number that is not given out yet.\<close>

definition resident_ok :: "resident \<Rightarrow> bool" where
  "resident_ok s \<longleftrightarrow> dom (rs_strings s) = decimal ` {..<rs_next s}"

definition extends :: "resident \<Rightarrow> resident \<Rightarrow> bool" where
  "extends s s' \<longleftrightarrow> rs_strings s \<subseteq>\<^sub>m rs_strings s'"

lemma extends_trans [trans]: "extends s s' \<Longrightarrow> extends s' s'' \<Longrightarrow> extends s s''"
  by (simp add: extends_def map_le_trans)

lemma resident_ok_clear: "resident_ok clear_resident"
  by (simp add: resident_ok_def clear_resident_def)

lemma marked [simp]: "starts_with (RESIDENT_STRING_PREFIX @ i) RESIDENT_STRING_PREFIX"
  by (simp add: starts_with_iff)

lemma externalizeString_ok:
  assumes "externalizeString t s = (u, s')" and "resident_ok s" and "\<not> starts_with t RESIDENT_STRING_PREFIX"
  shows "resident_ok s' \<and> extends s s' \<and> (\<forall>s''. extends s' s'' \<longrightarrow> materializeString u s'' = t)"
proof (cases "length t < RESIDENT_STRING_MIN_BYTES")
  case True
  then show ?thesis using assms by (simp add: externalizeString_def extends_def materializeString_def)
next
  case False
  let ?i = "decimal (rs_next s)"
  have new: "?i \<notin> dom (rs_strings s)" using assms(2) decimal_inject by (auto simp: resident_ok_def)
  have res: "u = RESIDENT_STRING_PREFIX @ ?i" "rs_strings s' = (rs_strings s)(?i \<mapsto> t)" "rs_next s' = Suc (rs_next s)"
    using assms(1,3) False by (auto simp: externalizeString_def Let_def)
  have "resident_ok s'" using assms(2) by (auto simp: resident_ok_def res lessThan_Suc)
  moreover have "extends s s'" using new by (auto simp: extends_def res map_le_def dom_def)
  moreover have "materializeString u s'' = t" if "extends s' s''" for s''
  proof -
    have "rs_strings s'' ?i = Some t" using that by (auto simp: extends_def res map_le_def)
    then show ?thesis by (simp add: materializeString_def res(1))
  qed
  ultimately show ?thesis by blast
qed

abbreviation materializing :: "resident \<Rightarrow> jstr \<Rightarrow> unit \<Rightarrow> jstr \<times> unit" where
  "materializing s \<equiv> (\<lambda>t _. (materializeString t s, ()))"

abbreviation keeping :: "jstr \<Rightarrow> unit \<Rightarrow> jstr \<times> unit" where
  "keeping \<equiv> (\<lambda>t s. (t, s))"

definition put_back :: "json option \<Rightarrow> resident \<Rightarrow> json option" where
  "put_back v s = Option.bind v (\<lambda>w. materialize w s)"

abbreviation unmarked :: "json \<Rightarrow> bool" where
  "unmarked v \<equiv> (\<forall>t\<in>strings_of v. \<not> starts_with t RESIDENT_STRING_PREFIX)"

definition externalized :: "json \<Rightarrow> bool" where
  "externalized v \<longleftrightarrow> (\<forall>s w s'. resident_ok s \<and> transformJsonValue externalizeString v s = (w, s') \<longrightarrow>
     resident_ok s' \<and> extends s s' \<and> (\<forall>s''. extends s' s'' \<longrightarrow> put_back w s'' = as_json v))"

lemma externalizedD:
  "externalized v \<Longrightarrow> resident_ok s \<Longrightarrow> transformJsonValue externalizeString v s = (w, s') \<Longrightarrow>
   resident_ok s' \<and> extends s s' \<and> (\<forall>s''. extends s' s'' \<longrightarrow> put_back w s'' = as_json v)"
  unfolding externalized_def by blast

lemma extends_refl [simp]: "extends s s"
  by (simp add: extends_def)

lemma items_externalized:
  assumes "\<forall>v\<in>set vs. externalized v" and "resident_ok s" and "transform_items externalizeString vs s = (ws, s')"
  shows "resident_ok s' \<and> extends s s' \<and>
    (\<forall>s''. extends s' s'' \<longrightarrow> transform_items (materializing s'') ws () = transform_items keeping vs ())"
  using assms
proof (induction vs arbitrary: s ws)
  case (Cons v vs)
  obtain w s1 where w: "transformJsonValue externalizeString v s = (w, s1)" by fastforce
  obtain us where us: "transform_items externalizeString vs s1 = (us, s')" "ws = (case w of None \<Rightarrow> JNull | Some w \<Rightarrow> w) # us"
    using Cons.prems(3) w by (auto split: prod.splits)
  have v: "resident_ok s1" "extends s s1" "\<And>s''. extends s1 s'' \<Longrightarrow> put_back w s'' = as_json v"
    using externalizedD [OF _ Cons.prems(2) w] Cons.prems(1) by auto
  from Cons.IH [OF _ v(1) us(1)] Cons.prems(1) have rest: "resident_ok s'" "extends s1 s'"
    "\<And>s''. extends s' s'' \<Longrightarrow> transform_items (materializing s'') us () = transform_items keeping vs ()" by auto
  have "transform_items (materializing s'') ws () = transform_items keeping (v # vs) ()" if "extends s' s''" for s''
    using v(3) [OF extends_trans [OF rest(2) that]] rest(3) [OF that]
    by (cases w) (auto simp: us(2) put_back_def materialize_def split: prod.splits option.splits)
  then show ?case using rest(1) extends_trans [OF v(2) rest(2)] by blast
qed simp

lemma fields_externalized:
  assumes "\<forall>kv\<in>set kvs. externalized (snd kv)" and "resident_ok s" and "transform_fields externalizeString kvs s = (ws, s')"
  shows "resident_ok s' \<and> extends s s' \<and>
    (\<forall>s''. extends s' s'' \<longrightarrow> transform_fields (materializing s'') ws () = transform_fields keeping kvs ())"
  using assms
proof (induction kvs arbitrary: s ws)
  case (Cons kv kvs)
  obtain k v where kv: "kv = (k, v)" by fastforce
  obtain w s1 where w: "transformJsonValue externalizeString v s = (w, s1)" by fastforce
  obtain us where us: "transform_fields externalizeString kvs s1 = (us, s')" "ws = (case w of None \<Rightarrow> us | Some w \<Rightarrow> (k, w) # us)"
    using Cons.prems(3) w kv by (auto split: prod.splits)
  have v: "resident_ok s1" "extends s s1" "\<And>s''. extends s1 s'' \<Longrightarrow> put_back w s'' = as_json v"
    using externalizedD [OF _ Cons.prems(2) w] Cons.prems(1) kv by auto
  from Cons.IH [OF _ v(1) us(1)] Cons.prems(1) have rest: "resident_ok s'" "extends s1 s'"
    "\<And>s''. extends s' s'' \<Longrightarrow> transform_fields (materializing s'') us () = transform_fields keeping kvs ()" by auto
  have "transform_fields (materializing s'') ws () = transform_fields keeping (kv # kvs) ()" if "extends s' s''" for s''
    using v(3) [OF extends_trans [OF rest(2) that]] rest(3) [OF that]
    by (cases w) (auto simp: us(2) kv put_back_def materialize_def split: prod.splits option.splits)
  then show ?case using rest(1) extends_trans [OF v(2) rest(2)] by blast
qed simp

lemma unmarked_externalized: "unmarked v \<Longrightarrow> externalized v"
proof (induction v)
  case (JStr t)
  then show ?case
    using externalizeString_ok [of t] by (auto simp: externalized_def put_back_def materialize_def split: prod.splits)
next
  case (JArr vs)
  then have "\<forall>v\<in>set vs. externalized v" by auto
  from items_externalized [OF this] show ?case
    by (auto simp: externalized_def put_back_def materialize_def split: prod.splits)
next
  case (JObj kvs)
  then have "\<forall>kv\<in>set kvs. externalized (snd kv)" by (fastforce simp: snds.simps)
  from fields_externalized [OF this] show ?case
    by (auto simp: externalized_def put_back_def materialize_def split: prod.splits)
qed (auto simp: externalized_def put_back_def materialize_def)

text \<open>A sequence of values put in, each into the store that the one before left.\<close>

fun externalize_all :: "json list \<Rightarrow> resident \<Rightarrow> json option list \<times> resident" where
  "externalize_all [] s = ([], s)"
| "externalize_all (v # vs) s =
     (let (w, s) = externalize v s; (ws, s) = externalize_all vs s in (w # ws, s))"

lemma all_externalized:
  assumes "\<forall>v\<in>set vs. unmarked v" and "resident_ok s" and "externalize_all vs s = (ws, s')"
  shows "resident_ok s' \<and> extends s s' \<and> map (\<lambda>w. put_back w s') ws = map as_json vs"
  using assms
proof (induction vs arbitrary: s ws)
  case (Cons v vs)
  obtain w s1 where w: "externalize v s = (w, s1)" by fastforce
  obtain us where us: "externalize_all vs s1 = (us, s')" "ws = w # us" using Cons.prems(3) w by (auto split: prod.splits)
  have v: "resident_ok s1" "extends s s1" "\<And>s''. extends s1 s'' \<Longrightarrow> put_back w s'' = as_json v"
    using externalizedD [OF unmarked_externalized Cons.prems(2)] w Cons.prems(1) by (auto simp: externalize_def)
  from Cons.IH [OF _ v(1) us(1)] Cons.prems(1) have "resident_ok s'" "extends s1 s'" "map (\<lambda>w. put_back w s') us = map as_json vs"
    by auto
  then show ?case using v us(2) extends_trans by auto
qed simp

text \<open>C22: entries that are kept with their long strings taken out give, when the strings are put back, the values they were,
  without what JSON leaves out; whatever number of values went into the store before and after, as long as no
  string looks like a mark.\<close>

theorem resident_round_trip:
  assumes "\<forall>v\<in>set vs. \<forall>t\<in>strings_of v. \<not> starts_with t RESIDENT_STRING_PREFIX"
  shows "map (\<lambda>w. Option.bind w (\<lambda>u. materialize u (snd (externalize_all vs clear_resident)))) (fst (externalize_all vs clear_resident)) =
    map as_json vs"
  using all_externalized [OF assms resident_ok_clear] by (auto simp: put_back_def split: prod.splits)

definition sample_value :: json where
  "sample_value = JObj [(js ''a'', JUndefined), (js ''b'', JArr [JUndefined, JStr (replicate 40000 97)])]"

theorem resident_round_trip_witness:
  "materialize (the (fst (externalize sample_value clear_resident))) (snd (externalize sample_value clear_resident)) =
   Some (JObj [(js ''b'', JArr [JNull, JStr (replicate 40000 97)])])"
proof -
  have "0 \<in> set (RESIDENT_STRING_PREFIX @ r)" for r by (simp add: RESIDENT_STRING_PREFIX_def)
  then have "\<not> starts_with (replicate 40000 97) RESIDENT_STRING_PREFIX"
    unfolding starts_with_iff by (metis in_set_replicate zero_neq_numeral)
  then have "\<forall>v\<in>set [sample_value]. \<forall>t\<in>strings_of v. \<not> starts_with t RESIDENT_STRING_PREFIX" by (simp add: sample_value_def)
  note whole = resident_round_trip [OF this]
  obtain w s where w: "externalize sample_value clear_resident = (w, s)" by fastforce
  have "Option.bind w (\<lambda>u. materialize u s) = as_json sample_value" using whole by (simp add: w)
  then show ?thesis unfolding w by (cases w) (simp_all add: sample_value_def)
qed

text \<open>A string that looks like a mark is not taken out, but is put back as what another entry had.\<close>

lemma forged_mark:
  assumes "length t \<ge> RESIDENT_STRING_MIN_BYTES" and "\<not> starts_with t RESIDENT_STRING_PREFIX"
  shows "map (\<lambda>w. Option.bind w (\<lambda>u. materialize u (snd (externalize_all [JStr t, JStr (RESIDENT_STRING_PREFIX @ js ''0'')] clear_resident))))
      (fst (externalize_all [JStr t, JStr (RESIDENT_STRING_PREFIX @ js ''0'')] clear_resident)) = [Some (JStr t), Some (JStr t)]"
proof -
  have "decimal 0 = js ''0''" by (simp add: last_digit js_def)
  with assms show ?thesis
    by (simp add: externalize_def externalizeString_def materialize_def materializeString_def clear_resident_def Let_def)
qed

end
