(* ===== verification/Spec2Isabelle.thy ===== *)
theory Spec2Isabelle
  imports Codec Jsonl ToolPaths TodoTool TodoMarkdown LoopGuardProps PatchStreamProps PatchApplyProps EditFuzzy DiffView OutputTailProps
    PermSession
    GoalMonitorProps GoalModel GoalUsage GoalText
    SessionLoad CompactionProps BranchSummaries CompactionCycle ResidentStore
begin

text \<open>
  A verification library for the deterministic core of the agent monorepo.

  \<^bold>\<open>The program.\<close> The packages under \<open>src/packages\<close> form a coding agent: \<open>ai\<close> talks to model providers,
  \<open>agent\<close> runs the loop of messages and tool calls, \<open>coding-agent\<close> adds sessions, tools, extensions and
  the user interfaces, \<open>protocol\<close>, \<open>server\<close> and \<open>client\<close> carry sessions between processes. What a model
  sends is untrusted and often malformed, so the parts that stand between a model (or a peer process)
  and the user's files and shell decide whether the agent is safe and whether work is lost. Those parts
  are modelled here:
  (a) bytes from a peer become messages: \<open>framing.ts\<close> cuts frames out of the stream, \<open>cbor/\<close> decodes a
  frame, \<open>codec.ts\<close> checks the value; the RPC mode reads JSON lines with \<open>jsonl.ts\<close>;
  (b) a tool call passes the permission system (\<open>permission-system/\<close>) and the loop guard (\<open>loop-guard/\<close>)
  before it runs;
  (c) the tools change state: \<open>edit\<close> and \<open>apply_patch\<close> change files, \<open>todo\<close> changes the list of the session;
  (d) what a tool prints is cut down before the model sees it (\<open>truncate.ts\<close>, \<open>output-accumulator.ts\<close>);
  (e) a goal keeps the agent going on its own (\<open>goal/\<close>): its store, what the model may do to it, and when a
  continuation is queued or waits for background work;
  (f) the conversation is a tree of entries in a file (\<open>session-manager.ts\<close>), of which a model sees one path, compacted
  and converted (\<open>compaction/\<close>, \<open>messages.ts\<close>).

  \<^bold>\<open>Values.\<close> A string is a list of UTF-16 code units (\<open>jstr\<close>, literals \<open>js ''...''\<close>), a byte array a list of
  \<open>8 word\<close>, a \<open>Map\<close> an association list in insertion order or a map, \<open>undefined\<close> and absent fields
  \<open>None\<close>, an object of the source a record, a union a datatype. A function that throws returns
  \<open>error + value\<close>; a loop whose end is not obvious is a \<open>partial_function (option)\<close>, in which \<open>None\<close> is a
  loop that does not end. Code that is not under \<open>src\<close> (the schemas of TypeBox, the npm package \<open>diff\<close>,
  \<open>String.normalize\<close>, \<open>realpath\<close>, \<open>JSON.parse\<close>, the incremental \<open>TextDecoder\<close>) is a parameter, with what
  the code relies on as a named hypothesis.

  \<^bold>\<open>Theories.\<close>
  \<^item> \<open>Prelude\<close>: bytes, strings, the results of fallible operations, shared lemmas. \<open>Incremental\<close>: the
    locale of everything that reads a stream in chunks. \<open>JsText\<close>: \<open>trim\<close>, \<open>split\<close> and the regular
    expressions. \<open>Json\<close>: unknown values. \<open>Utf8\<close>, \<open>BufferText\<close>: the standard encodings and their sizes.
  \<^item> \<open>Framing\<close> (\<open>protocol/src/framing.ts\<close>), \<open>Jsonl\<close> (\<open>modes/rpc/jsonl.ts\<close>), \<open>Cbor\<close> and \<open>CborProps\<close>
    (\<open>protocol/src/cbor\<close>), \<open>Codec\<close> (\<open>protocol/src/codec.ts\<close>).
  \<^item> \<open>PermWildcard\<close>, \<open>PermRules\<close>, \<open>PermPaths\<close>: the matcher, the rules with presets, settings and flags, and
    the requests of each tool. \<open>ToolPaths\<close> (\<open>utils/paths.ts\<close>, \<open>core/tools/path-utils.ts\<close>): the path a tool opens, and
    for which spellings it is the one that was judged. \<open>PermService\<close>, \<open>PermServiceProps\<close>: the table of open requests and approvals,
    as steps \<open>ask\<close> and \<open>reply\<close>. \<open>PermTool\<close>: prompt, unattended answers and the handler of a tool call.
    \<open>PermStorage\<close>, \<open>PermSession\<close>: the file of approvals and a session from start to shutdown.
    \<open>PermPolicy\<close>: what the parts guarantee together, and what they do not.
  \<^item> \<open>LoopGuard\<close>, \<open>LoopGuardProps\<close> (\<open>loop-guard/\<close>).
  \<^item> \<open>TodoState\<close>, \<open>TodoOps\<close>, \<open>TodoProps\<close>, \<open>TodoTool\<close>, \<open>TodoMarkdown\<close> (\<open>todotools/\<close>): the list, its
    operations, their correctness, the tool with the repair of its arguments, the session and the widget,
    and the markdown form.
  \<^item> \<open>PatchParse\<close>, \<open>PatchParseProps\<close>, \<open>PatchStream\<close>, \<open>PatchStreamProps\<close>, \<open>PatchReplace\<close>, \<open>PatchApply\<close>,
    \<open>PatchApplyProps\<close> (\<open>gpt-apply-patch/\<close>): the strict and the streaming parser, the search for the old
    lines, and the effects on the file system, in which every system call may fail.
  \<^item> \<open>EditDiff\<close>, \<open>EditDiffProps\<close>, \<open>EditFuzzy\<close>, \<open>DiffParts\<close>, \<open>DiffView\<close> (\<open>core/tools/edit-diff.ts\<close>).
  \<^item> \<open>Truncate\<close>, \<open>OutputTail\<close>, \<open>OutputTailProps\<close> (\<open>truncate.ts\<close>, \<open>tail-window.ts\<close>, \<open>output-accumulator.ts\<close>).
  \<^item> \<open>GoalState\<close>, \<open>GoalStore\<close>, \<open>GoalStoreProps\<close>, \<open>GoalText\<close> (\<open>goal/\<close> \<open>types.ts\<close>, \<open>validation.ts\<close>, \<open>transitions.ts\<close>,
    \<open>persistence.ts\<close>, \<open>store.ts\<close>): the goal, its transitions, its file and the operations of the store. \<open>GoalModel\<close>
    (\<open>tool-registration.ts\<close>, \<open>todo-gate.ts\<close>): the tools of the model. \<open>GoalContinuation\<close> (\<open>continuation.ts\<close>,
    \<open>continuation-recovery.ts\<close>, \<open>lifecycle-helpers.ts\<close>): the verdict on a continuation and its admission.
    \<open>GoalMonitor\<close>, \<open>GoalMonitorProps\<close> (\<open>monitor-continuation.ts\<close>, \<open>cache-warm.ts\<close>): the scheduler as a step
    relation whose steps are what runs between two \<open>await\<close>s. \<open>GoalUsage\<close> (\<open>turn-usage.ts\<close>): the tokens of a run.
  \<^item> \<open>SessionEntry\<close>, \<open>SessionStore\<close>, \<open>SessionFile\<close> (\<open>session-manager.ts\<close>): entries and the context of a path,
    \<open>SessionManager\<close> as a record with its indexes, memoised views and file, migration, branched sessions and forks.
    \<open>SessionPaths\<close>, \<open>SessionContext\<close>, \<open>SessionIndex\<close>, \<open>SessionProps\<close>, \<open>SessionReach\<close>: trees, contexts and indexes as
    functions of the entries, and the invariant of every session that operations lead to. \<open>SessionRestore\<close>,
    \<open>SessionLoad\<close>: what comes back from a file, in whatever blocks it is read, and from a branch.
    \<open>ResidentStore\<close> (\<open>session-resident-store.ts\<close>): the marks that stand for long strings in memory; the session is
    modelled with the strings themselves, which the round trip of the store justifies.
  \<^item> \<open>Messages\<close> (\<open>messages.ts\<close>), \<open>Compaction\<close>, \<open>CompactionProps\<close> (\<open>compaction/compaction.ts\<close>, \<open>utils.ts\<close>),
    \<open>BranchSummaries\<close> (\<open>branch-summarization.ts\<close>), \<open>CompactionCycle\<close> (\<open>lifecycle.ts\<close>).

  \<^bold>\<open>What is shown.\<close> Every message, patch and approval written is read back as it was written, in
  whatever chunks it arrives, and a todo list that is not empty as the tool leaves it; the frame decoder, the patch tool and the edit tool refine specifications
  that say nothing of their indices, buffers and offsets (the lines a patch replaces, for chunks that replace lines
  and are not tied to the end of the file); the wildcard loop computes the meaning of its
  pattern; task texts stay unique and one task is in progress; a tool call runs only if every permission it
  asks for was granted, which only the rules, the user or an earlier always answer do, and a path in ordinary
  spelling that needs no permission as an external one is opened inside the working directory; a goal is changed by the
  model only as far as it may, is continued eight times at most without progress, and what is scheduled for it is
  never lost sight of; a session is the same after it was written and read, its views are those of its entries, a
  branched session shows what the branch showed, and compacting and leaving a branch summarise exactly what is no
  longer shown; decoded values and
  shown outputs stay within their limits; loops end. Lemmas named after a flaw show where the code does not
  do what it, its comments or its manual say; they are listed as findings in the manifest.

  \<^bold>\<open>Bounds and fuel.\<close> Only regular expressions and the CBOR object graph carry a bound: a match consumes text, and the
  depth of a graph is bounded by the limit of the encoder or by the number of its objects, which rules out a
  repeated ancestor. The walk from an entry to its root is shown to end in every session that operations lead to; in an
  unvalidated file it may not. Loops with indices end by a measure or are shown to return.

  \<^bold>\<open>Not modelled.\<close> The agent loop and session (concurrent calls of providers and extensions), the providers, the
  terminal interface, the package manager, servers, process handling and the clients of external services: their
  effects are those of code that is not under \<open>src\<close>. Within the modelled parts: texts that are only
  displayed, telemetry events, timers, and the interleaving of several tool calls in flight (the permission service
  itself is shown correct for every order of requests and replies). Of the goal extension: the
  handlers of \<open>index.ts\<close> that call its parts, prompts, displayed metrics and the queue that runs the operations
  of a store one after another. Of sessions: the discovery and listing of files, the display tree, the identity of message
  objects, and the calls that make the summaries. The fallback of models is deterministic and could follow.
\<close>

end
